(* ===== verification/Prelude.thy ===== *)
theory Prelude
  imports Main "HOL-Library.Word"
begin

text \<open>
  What every component of the session store shares: the three outcomes of a Rust function (a
  value, an error of the store, a panic), the byte layout of integers and hashes, machine
  arithmetic on numbers kept as \<open>nat\<close>, decimal and hexadecimal formatting, and Rust's
  \<^verbatim>\<open>str\<close> as its UTF-8 bytes.
\<close>

named_theorems codec_simps \<open>lengths and inverses of the byte encoders\<close>
named_theorems text_simps \<open>facts on the characters of a UTF-8 text\<close>

section \<open>Machine numbers\<close>

type_synonym u8 = "8 word"
type_synonym u32 = "32 word"
type_synonym u64 = "64 word"

text \<open>
  \<^verbatim>\<open>[u8; 32]\<close> and \<^verbatim>\<open>[u8; 16]\<close> are words of 256 and 128 bits, the first array element the most
  significant byte, so that the order of words is the lexicographic order of the arrays.
\<close>

type_synonym hash32 = "256 word"
type_synonym hash16 = "128 word"

text \<open>
  Sizes and counters (\<^verbatim>\<open>usize\<close>, \<^verbatim>\<open>u64\<close>, \<^verbatim>\<open>u32\<close>) are \<open>nat\<close>. An addition that the code checks
  is \<open>checked_add64\<close>; an unchecked one on a value that may come from outside wraps as a
  release build does.
\<close>

abbreviation u64_max :: nat where "u64_max \<equiv> 18446744073709551615"
abbreviation u32_max :: nat where "u32_max \<equiv> 4294967295"

definition checked_add64 :: "nat \<Rightarrow> nat \<Rightarrow> nat option" where
  "checked_add64 a b = (if a + b \<le> u64_max then Some (a + b) else None)"

definition checked_mul64 :: "nat \<Rightarrow> nat \<Rightarrow> nat option" where
  "checked_mul64 a b = (if a * b \<le> u64_max then Some (a * b) else None)"

definition checked_sub64 :: "nat \<Rightarrow> nat \<Rightarrow> nat option" where
  "checked_sub64 a b = (if b \<le> a then Some (a - b) else None)"

definition add64 :: "nat \<Rightarrow> nat \<Rightarrow> nat" where
  "add64 a b = (a + b) mod 18446744073709551616"

definition sub32 :: "nat \<Rightarrow> nat \<Rightarrow> nat" where
  "sub32 a b = (a + 4294967296 - b) mod 4294967296"

definition sub64 :: "nat \<Rightarrow> nat \<Rightarrow> nat" where
  "sub64 a b = (a + 18446744073709551616 - b) mod 18446744073709551616"

lemma checked_add64_Some [simp]: "checked_add64 a b = Some c \<longleftrightarrow> c = a + b \<and> a + b \<le> u64_max"
  by (auto simp: checked_add64_def)

lemma checked_add64_None [simp]: "checked_add64 a b = None \<longleftrightarrow> u64_max < a + b"
  by (auto simp: checked_add64_def)

lemma checked_mul64_Some [simp]: "checked_mul64 a b = Some c \<longleftrightarrow> c = a * b \<and> a * b \<le> u64_max"
  by (auto simp: checked_mul64_def)

lemma checked_mul64_None [simp]: "checked_mul64 a b = None \<longleftrightarrow> u64_max < a * b"
  by (auto simp: checked_mul64_def)

lemma checked_sub64_Some [simp]: "checked_sub64 a b = Some c \<longleftrightarrow> c = a - b \<and> b \<le> a"
  by (auto simp: checked_sub64_def)

lemma checked_sub64_None [simp]: "checked_sub64 a b = None \<longleftrightarrow> a < b"
  by (auto simp: checked_sub64_def)

lemma add64_exact: "a + b \<le> u64_max \<Longrightarrow> add64 a b = a + b"
  by (simp add: add64_def)

lemma sub32_exact: "b \<le> a \<Longrightarrow> a \<le> u32_max \<Longrightarrow> sub32 a b = a - b"
proof -
  assume "b \<le> a" "a \<le> u32_max"
  then have "a + 4294967296 - b = (a - b) + 4294967296" and "a - b < 4294967296" by simp_all
  then show ?thesis by (simp only: sub32_def mod_add_self2 mod_less)
qed

lemma sub64_exact: "b \<le> a \<Longrightarrow> a \<le> u64_max \<Longrightarrow> sub64 a b = a - b"
proof -
  assume "b \<le> a" "a \<le> u64_max"
  then have "a + 18446744073709551616 - b = (a - b) + 18446744073709551616"
    and "a - b < 18446744073709551616" by simp_all
  then show ?thesis by (simp only: sub64_def mod_add_self2 mod_less)
qed

lemma sub32_le: "sub32 a b \<le> u32_max"
proof -
  have "sub32 a b < 4294967296" by (simp add: sub32_def)
  then show ?thesis by simp
qed

section \<open>Formatting of numbers\<close>

fun show_base :: "nat \<Rightarrow> nat \<Rightarrow> string" where
  "show_base b n =
     (let digit = (\<lambda>d. char_of (if d < 10 then 48 + d else 87 + d)) in
      if b < 2 \<or> n < b then [digit n] else show_base b (n div b) @ [digit (n mod b)])"

declare show_base.simps [simp del]

abbreviation show_nat :: "nat \<Rightarrow> string" where "show_nat n \<equiv> show_base 10 n"

text \<open>\<^verbatim>\<open>{:#0w x}\<close>: the prefix counts in the width.\<close>

definition show_hex :: "nat \<Rightarrow> nat \<Rightarrow> string" where
  "show_hex w n =
     (let ds = show_base 16 n in ''0x'' @ replicate (w - 2 - length ds) (CHR ''0'') @ ds)"

section \<open>Outcomes\<close>

text \<open>
  A call returns a value, returns an error, or panics (an index out of range, a slice off a
  character boundary, \<^verbatim>\<open>expect\<close>). The error type is a parameter: the store's own errors here,
  other ones in the engines.
\<close>

datatype ('e, 'a) outcome = Ok 'a | Err 'e | Panic

fun rbind :: "('e, 'a) outcome \<Rightarrow> ('a \<Rightarrow> ('e, 'b) outcome) \<Rightarrow> ('e, 'b) outcome" where
  "rbind (Ok x) f = f x"
| "rbind (Err e) f = Err e"
| "rbind Panic f = Panic"

text \<open>\<^verbatim>\<open>if !c { return Err(e) }\<close>\<close>

definition ensure :: "bool \<Rightarrow> 'e \<Rightarrow> ('e, unit) outcome" where
  "ensure c e = (if c then Ok () else Err e)"

text \<open>\<^verbatim>\<open>o.ok_or(e)\<close>\<close>

definition ok_or :: "'a option \<Rightarrow> 'e \<Rightarrow> ('e, 'a) outcome" where
  "ok_or x e = (case x of None \<Rightarrow> Err e | Some y \<Rightarrow> Ok y)"

text \<open>
  A method that changes its state: the state and the outcome. \<open>attempt\<close> is the \<^verbatim>\<open>?\<close> operator on a
  call that does not change the state, \<open>andthen\<close> on one that does; what was written before an
  error stays written.
\<close>

fun attempt :: "'s \<Rightarrow> ('e, 'a) outcome \<Rightarrow> ('a \<Rightarrow> 's \<times> ('e, 'b) outcome) \<Rightarrow> 's \<times> ('e, 'b) outcome" where
  "attempt s (Ok x) f = f x"
| "attempt s (Err e) f = (s, Err e)"
| "attempt s Panic f = (s, Panic)"

fun andthen :: "'s \<times> ('e, 'a) outcome \<Rightarrow> ('s \<Rightarrow> 'a \<Rightarrow> 's \<times> ('e, 'b) outcome) \<Rightarrow> 's \<times> ('e, 'b) outcome" where
  "andthen (s, Ok x) f = f s x"
| "andthen (s, Err e) f = (s, Err e)"
| "andthen (s, Panic) f = (s, Panic)"

lemma attempt_eq_Ok: "attempt s r f = (s', Ok y) \<longleftrightarrow> (\<exists>x. r = Ok x \<and> f x = (s', Ok y))"
  by (cases r) auto

lemma andthen_eq_Ok: "andthen m f = (s', Ok y) \<longleftrightarrow> (\<exists>s x. m = (s, Ok x) \<and> f s x = (s', Ok y))"
  by (cases m rule: prod.exhaust; rename_tac s r; case_tac r) auto

text \<open>What holds of the state of a failing call as well as of a succeeding one.\<close>

lemma attempt_state: "P s \<Longrightarrow> (\<And>x. r = Ok x \<Longrightarrow> P (fst (f x))) \<Longrightarrow> P (fst (attempt s r f))"
  by (cases r) auto

lemma andthen_state:
  "P (fst m) \<Longrightarrow> (\<And>s x. m = (s, Ok x) \<Longrightarrow> P (fst (f s x))) \<Longrightarrow> P (fst (andthen m f))"
  by (cases m rule: prod.exhaust; rename_tac s r; case_tac r) auto

text \<open>\<^verbatim>\<open>xs[i]\<close>: a panic out of range.\<close>

definition vec_get :: "'a list \<Rightarrow> nat \<Rightarrow> ('e, 'a) outcome" where
  "vec_get xs i = (if i < length xs then Ok (xs ! i) else Panic)"

lemma vec_get_Ok [simp]: "vec_get xs i = Ok x \<longleftrightarrow> i < length xs \<and> x = xs ! i"
  by (auto simp: vec_get_def)

lemma rbind_eq_Ok: "rbind r f = Ok y \<longleftrightarrow> (\<exists>x. r = Ok x \<and> f x = Ok y)"
  by (cases r) auto

lemma rbind_eq_Panic: "rbind r f = Panic \<longleftrightarrow> r = Panic \<or> (\<exists>x. r = Ok x \<and> f x = Panic)"
  by (cases r) auto

lemma ensure_simps [simp]:
  "ensure c e = Ok u \<longleftrightarrow> c"
  "ensure c e = Err e' \<longleftrightarrow> \<not> c \<and> e = e'"
  "ensure c e \<noteq> Panic"
  by (auto simp: ensure_def)

lemma ensure_True [simp]: "ensure True e = Ok ()"
  by (simp add: ensure_def)

lemma ensure_False [simp]: "ensure False e = Err e"
  by (simp add: ensure_def)

lemma ok_or_simps [simp]:
  "ok_or x e = Ok y \<longleftrightarrow> x = Some y"
  "ok_or x e = Err e' \<longleftrightarrow> x = None \<and> e = e'"
  "ok_or x e \<noteq> Panic"
  "ok_or (Some z) e = Ok z"
  "ok_or None e = Err e"
  by (auto simp: ok_or_def split: option.splits)

section \<open>Little-endian integers and hash bytes\<close>

fun le_bytes :: "nat \<Rightarrow> nat \<Rightarrow> u8 list" where
  "le_bytes 0 k = []"
| "le_bytes (Suc n) k = of_nat (k mod 256) # le_bytes n (k div 256)"

fun of_le :: "u8 list \<Rightarrow> nat" where
  "of_le [] = 0"
| "of_le (b # bs) = unat b + 256 * of_le bs"

lemma length_le_bytes [simp, codec_simps]: "length (le_bytes n k) = n"
  by (induction n arbitrary: k) auto

lemma unat_of_byte: "unat (of_nat (k mod 256) :: u8) = k mod 256"
  by (simp add: unat_of_nat)

lemma of_le_le_bytes_mod: "of_le (le_bytes n k) = k mod 256 ^ n"
proof (induction n arbitrary: k)
  case 0
  then show ?case by simp
next
  case (Suc n)
  have "of_le (le_bytes (Suc n) k) = k mod 256 + 256 * (k div 256 mod 256 ^ n)"
    using Suc.IH by (simp add: unat_of_byte)
  also have "\<dots> = k mod (256 * 256 ^ n)"
    by (simp add: mod_mult2_eq)
  finally show ?case by simp
qed

lemma of_le_le_bytes [codec_simps]: "k < 256 ^ n \<Longrightarrow> of_le (le_bytes n k) = k"
  by (simp add: of_le_le_bytes_mod)

lemma of_le_less: "of_le bs < 256 ^ length bs"
proof (induction bs)
  case Nil
  then show ?case by simp
next
  case (Cons b bs)
  have "unat b < 256" by (rule order_less_le_trans [OF unsigned_less]) simp
  with Cons show ?case by simp
qed

lemma le_bytes_of_le: "le_bytes (length bs) (of_le bs) = bs"
proof (induction bs)
  case Nil
  then show ?case by simp
next
  case (Cons b bs)
  have b: "unat b < 256" by (rule order_less_le_trans [OF unsigned_less]) simp
  then have "(unat b + 256 * of_le bs) mod 256 = unat b"
    and "(unat b + 256 * of_le bs) div 256 = of_le bs" by simp_all
  with Cons show ?case by simp
qed

lemma le_bytes_of_le' [codec_simps]: "length bs = n \<Longrightarrow> le_bytes n (of_le bs) = bs"
  using le_bytes_of_le by blast

definition hash_bytes :: "hash32 \<Rightarrow> u8 list" where
  "hash_bytes h = rev (le_bytes 32 (unat h))"

definition hash_of :: "u8 list \<Rightarrow> hash32" where
  "hash_of bs = of_nat (of_le (rev bs))"

definition hash16_bytes :: "hash16 \<Rightarrow> u8 list" where
  "hash16_bytes h = rev (le_bytes 16 (unat h))"

definition hash16_of :: "u8 list \<Rightarrow> hash16" where
  "hash16_of bs = of_nat (of_le (rev bs))"

lemma length_hash_bytes [simp, codec_simps]:
  "length (hash_bytes h) = 32" "length (hash16_bytes k) = 16"
  by (simp_all add: hash_bytes_def hash16_bytes_def)

lemma hash_of_hash_bytes [simp, codec_simps]: "hash_of (hash_bytes h) = h"
proof -
  have "unat h < 256 ^ 32" by (rule order_less_le_trans [OF unsigned_less]) simp
  then show ?thesis by (simp add: hash_of_def hash_bytes_def of_le_le_bytes)
qed

lemma hash16_of_hash16_bytes [simp, codec_simps]: "hash16_of (hash16_bytes h) = h"
proof -
  have "unat h < 256 ^ 16" by (rule order_less_le_trans [OF unsigned_less]) simp
  then show ?thesis by (simp add: hash16_of_def hash16_bytes_def of_le_le_bytes)
qed

lemma hash_bytes_hash_of [codec_simps]: "length bs = 32 \<Longrightarrow> hash_bytes (hash_of bs) = bs"
proof -
  assume len: "length bs = 32"
  have "of_le (rev bs) < 2 ^ 256" using of_le_less [of "rev bs"] len by simp
  then have "unat (of_nat (of_le (rev bs)) :: hash32) = of_le (rev bs)"
    by (simp add: unat_of_nat)
  with len show ?thesis
    by (simp add: hash_of_def hash_bytes_def le_bytes_of_le')
qed

lemma hash16_bytes_hash16_of [codec_simps]: "length bs = 16 \<Longrightarrow> hash16_bytes (hash16_of bs) = bs"
proof -
  assume len: "length bs = 16"
  have "of_le (rev bs) < 2 ^ 128" using of_le_less [of "rev bs"] len by simp
  then have "unat (of_nat (of_le (rev bs)) :: hash16) = of_le (rev bs)"
    by (simp add: unat_of_nat)
  with len show ?thesis
    by (simp add: hash16_of_def hash16_bytes_def le_bytes_of_le')
qed

end
