(* ===== verification/Utf8.thy ===== *)
theory Utf8
  imports Prelude
begin

unbundle bit_operations_syntax

text \<open>
  Rust's \<^verbatim>\<open>str\<close>: its UTF-8 bytes, with validity as a predicate. The characters of a text are the
  maximal runs of one byte and the continuation bytes after it; a text is valid when each of
  them is the encoding of a Unicode scalar value. Lengths and offsets are in bytes, as in Rust.
\<close>

type_synonym str = "u8 list"

definition is_cont :: "u8 \<Rightarrow> bool" where
  "is_cont b \<longleftrightarrow> b AND 0xC0 = 0x80"

lemma dropWhile_shorter [termination_simp]: "length (dropWhile P xs) < Suc (length xs)"
  by (simp add: less_Suc_eq_le length_dropWhile_le)

fun chars :: "str \<Rightarrow> str list" where
  "chars [] = []"
| "chars (b # bs) = (b # takeWhile is_cont bs) # chars (dropWhile is_cont bs)"

abbreviation char_count :: "str \<Rightarrow> nat" where "char_count s \<equiv> length (chars s)"

text \<open>The well-formed byte sequences of the Unicode standard (no overlong form, no surrogate).\<close>

fun valid_scalar :: "str \<Rightarrow> bool" where
  "valid_scalar [a] = (a < 0x80)"
| "valid_scalar [a, b] = (0xC2 \<le> a \<and> a \<le> 0xDF \<and> is_cont b)"
| "valid_scalar [a, b, c] =
     (0xE0 \<le> a \<and> a \<le> 0xEF \<and> is_cont b \<and> is_cont c \<and> (a = 0xE0 \<longrightarrow> 0xA0 \<le> b) \<and> (a = 0xED \<longrightarrow> b \<le> 0x9F))"
| "valid_scalar [a, b, c, d] =
     (0xF0 \<le> a \<and> a \<le> 0xF4 \<and> is_cont b \<and> is_cont c \<and> is_cont d
      \<and> (a = 0xF0 \<longrightarrow> 0x90 \<le> b) \<and> (a = 0xF4 \<longrightarrow> b \<le> 0x8F))"
| "valid_scalar _ = False"

definition valid_utf8 :: "str \<Rightarrow> bool" where
  "valid_utf8 s \<longleftrightarrow> list_all valid_scalar (chars s)"

text \<open>\<^verbatim>\<open>str::from_utf8\<close>, \<^verbatim>\<open>is_char_boundary\<close>, slicing \<^verbatim>\<open>&s[lo..hi]\<close> (it panics off a boundary).\<close>

definition from_utf8 :: "u8 list \<Rightarrow> str option" where
  "from_utf8 bs = (if valid_utf8 bs then Some bs else None)"

definition is_char_boundary :: "str \<Rightarrow> nat \<Rightarrow> bool" where
  "is_char_boundary s i \<longleftrightarrow> i = 0 \<or> i = length s \<or> (i < length s \<and> \<not> is_cont (s ! i))"

definition str_slice :: "str \<Rightarrow> nat \<Rightarrow> nat \<Rightarrow> ('e, str) outcome" where
  "str_slice s lo hi =
     (if lo \<le> hi \<and> hi \<le> length s \<and> is_char_boundary s lo \<and> is_char_boundary s hi
      then Ok (take (hi - lo) (drop lo s)) else Panic)"

definition ends_with :: "str \<Rightarrow> str \<Rightarrow> bool" where
  "ends_with s t \<longleftrightarrow> length t \<le> length s \<and> drop (length s - length t) s = t"

text \<open>\<^verbatim>\<open>char_indices\<close>: the byte offset of every character; the byte length of each.\<close>

fun offsets_from :: "nat \<Rightarrow> str list \<Rightarrow> nat list" where
  "offsets_from k [] = []"
| "offsets_from k (c # cs) = k # offsets_from (k + length c) cs"

definition char_indices :: "str \<Rightarrow> (nat \<times> nat) list" where
  "char_indices s = zip (offsets_from 0 (chars s)) (map length (chars s))"

text \<open>The specification offset: the byte length of the first \<open>n\<close> characters.\<close>

definition char_off :: "str \<Rightarrow> nat \<Rightarrow> nat" where
  "char_off s n = length (concat (take n (chars s)))"

section \<open>Lists of characters\<close>

lemma concat_chars [simp, text_simps]: "concat (chars s) = s"
  by (induction s rule: chars.induct) auto

lemma chars_nonempty: "c \<in> set (chars s) \<Longrightarrow> c \<noteq> []"
  by (induction s rule: chars.induct) auto

text \<open>The bytes of a character but the first are continuation bytes.\<close>

lemma chars_tail_cont: "c \<in> set (chars s) \<Longrightarrow> b \<in> set (tl c) \<Longrightarrow> is_cont b"
  by (induction s rule: chars.induct) (auto dest: set_takeWhileD)

lemma chars_eq_Nil [simp]: "chars s = [] \<longleftrightarrow> s = []"
  by (cases s) auto

lemma chars_append:
  "t = [] \<or> \<not> is_cont (hd t) \<Longrightarrow> chars (s @ t) = chars s @ chars t"
proof (induction s rule: chars.induct)
  case 1
  then show ?case by simp
next
  case (2 b bs)
  have tw: "takeWhile is_cont t = []" and dw: "dropWhile is_cont t = t"
    using "2.prems" by (cases t; simp)+
  have "takeWhile is_cont (bs @ t) = takeWhile is_cont bs
    \<and> dropWhile is_cont (bs @ t) = dropWhile is_cont bs @ t"
  proof (cases "\<forall>x \<in> set bs. is_cont x")
    case True
    then have "dropWhile is_cont bs = []" by simp
    with True tw dw show ?thesis
      by (simp add: takeWhile_append2 dropWhile_append2 takeWhile_eq_all_conv [THEN iffD2])
  next
    case False
    then obtain x where "x \<in> set bs" "\<not> is_cont x" by blast
    then show ?thesis by (simp add: takeWhile_append1 dropWhile_append1)
  qed
  with "2" show ?case by simp
qed

lemma hd_dropWhile_cont: "dropWhile is_cont bs = [] \<or> \<not> is_cont (hd (dropWhile is_cont bs))"
  using hd_dropWhile by blast

lemma hd_concat_drop_chars:
  "0 < n \<Longrightarrow> concat (drop n (chars s)) = [] \<or> \<not> is_cont (hd (concat (drop n (chars s))))"
proof (induction s arbitrary: n rule: chars.induct)
  case 1
  then show ?case by simp
next
  case (2 b bs)
  then obtain m where n: "n = Suc m" by (cases n) auto
  show ?case
  proof (cases m)
    case 0
    then show ?thesis using n hd_dropWhile_cont [of bs] by simp
  next
    case (Suc k)
    then show ?thesis using n "2.IH" [of m] by simp
  qed
qed

lemma chars_concat_split:
  "chars (concat (take n (chars s))) = take n (chars s) \<and>
   chars (concat (drop n (chars s))) = drop n (chars s)"
proof (induction s arbitrary: n rule: chars.induct)
  case 1
  then show ?case by simp
next
  case (2 b bs)
  show ?case
  proof (cases n)
    case 0
    then show ?thesis by simp
  next
    case (Suc m)
    let ?xs = "b # takeWhile is_cont bs"
    have all: "takeWhile is_cont (takeWhile is_cont bs) = takeWhile is_cont bs"
      and none: "dropWhile is_cont (takeWhile is_cont bs) = []"
      by (auto simp: dropWhile_eq_Nil_conv dest: set_takeWhileD)
    have one: "chars ?xs = [?xs]" using all none by simp
    let ?t = "concat (take m (chars (dropWhile is_cont bs)))"
    have "d = [] \<or> \<not> is_cont (hd d) \<Longrightarrow> concat (take m (chars d)) = []
      \<or> \<not> is_cont (hd (concat (take m (chars d))))" for d
      by (cases d; cases m) auto
    from this [OF hd_dropWhile_cont] have "?t = [] \<or> \<not> is_cont (hd ?t)" .
    then have "chars (?xs @ ?t) = chars ?xs @ chars ?t" by (rule chars_append)
    with Suc one "2.IH" [of m] show ?thesis by simp
  qed
qed

lemma chars_concat_take [text_simps]: "chars (concat (take n (chars s))) = take n (chars s)"
  using chars_concat_split by blast

lemma chars_concat_drop [text_simps]: "chars (concat (drop n (chars s))) = drop n (chars s)"
  using chars_concat_split by blast

section \<open>Offsets\<close>

lemma char_off_0 [simp]: "char_off s 0 = 0"
  by (simp add: char_off_def)

lemma char_off_end: "char_count s \<le> n \<Longrightarrow> char_off s n = length s"
  by (simp add: char_off_def)

lemma char_off_le: "char_off s n \<le> length s"
proof -
  have "length (concat (take n (chars s))) + length (concat (drop n (chars s))) = length s"
    by (metis append_take_drop_id concat_append concat_chars length_append)
  then show ?thesis by (simp add: char_off_def)
qed

lemma take_char_off [text_simps]: "take (char_off s n) s = concat (take n (chars s))"
proof -
  have "s = concat (take n (chars s)) @ concat (drop n (chars s))"
    by (metis append_take_drop_id concat_append concat_chars)
  then show ?thesis unfolding char_off_def by (metis append_eq_conv_conj)
qed

lemma drop_char_off [text_simps]: "drop (char_off s n) s = concat (drop n (chars s))"
proof -
  have "s = concat (take n (chars s)) @ concat (drop n (chars s))"
    by (metis append_take_drop_id concat_append concat_chars)
  then show ?thesis unfolding char_off_def by (metis append_eq_conv_conj)
qed

lemma chars_take_off [text_simps]: "chars (take (char_off s n) s) = take n (chars s)"
  by (simp add: take_char_off chars_concat_take)

lemma chars_drop_off [text_simps]: "chars (drop (char_off s n) s) = drop n (chars s)"
  by (simp add: drop_char_off chars_concat_drop)

lemma char_off_mono: "m \<le> n \<Longrightarrow> char_off s m \<le> char_off s n"
proof -
  assume "m \<le> n"
  then have "take n (chars s) = take m (chars s) @ take (n - m) (drop m (chars s))"
    by (metis le_add_diff_inverse take_add)
  then show ?thesis by (simp add: char_off_def)
qed

lemma length_concat_ge: "\<forall>c \<in> set cs. c \<noteq> [] \<Longrightarrow> length cs \<le> length (concat cs)"
proof (induction cs)
  case Nil
  then show ?case by simp
next
  case (Cons c cs)
  then have "0 < length c" by simp
  with Cons show ?case by (simp del: length_greater_0_conv)
qed

lemma char_count_le: "char_count s \<le> length s"
  using length_concat_ge [of "chars s"] chars_nonempty [of _ s] by simp

lemma char_off_Suc: "n < char_count s \<Longrightarrow> char_off s (Suc n) = char_off s n + length (chars s ! n)"
  by (simp add: char_off_def take_Suc_conv_app_nth)

lemma char_off_less: "n < char_count s \<Longrightarrow> char_off s n < char_off s (Suc n)"
  using chars_nonempty [OF nth_mem, of n s] by (simp add: char_off_Suc)

lemma char_off_strict: "m < n \<Longrightarrow> m < char_count s \<Longrightarrow> char_off s m < char_off s n"
  by (meson Suc_leI char_off_less char_off_mono order_less_le_trans)

lemma char_off_less_length: "n < char_count s \<Longrightarrow> char_off s n < length s"
  using char_off_less [of n s] char_off_le [of s "Suc n"] by simp

lemma offsets_from_nth:
  "i < length cs \<Longrightarrow> offsets_from k cs ! i = k + length (concat (take i cs))"
  by (induction cs arbitrary: k i) (auto simp: nth_Cons split: nat.split)

lemma length_offsets_from [simp]: "length (offsets_from k cs) = length cs"
  by (induction cs arbitrary: k) auto

lemma length_char_indices [simp]: "length (char_indices s) = char_count s"
  by (simp add: char_indices_def)

lemma char_indices_nth:
  "i < char_count s \<Longrightarrow> char_indices s ! i = (char_off s i, length (chars s ! i))"
  by (simp add: char_indices_def offsets_from_nth char_off_def)

lemma char_off_ascii:
  assumes "length s = char_count s"
  shows "char_off s n = min n (length s)"
proof -
  have ge: "length (concat cs) \<ge> length cs" if "set cs \<subseteq> set (chars s)" for cs
    using that length_concat_ge [of cs] chars_nonempty [of _ s] by blast
  have "length (concat (take n (chars s))) + length (concat (drop n (chars s))) = length s"
    by (metis append_take_drop_id concat_append concat_chars length_append)
  moreover have "length (take n (chars s)) \<le> length (concat (take n (chars s)))"
    and "length (drop n (chars s)) \<le> length (concat (drop n (chars s)))"
    by (rule ge, simp add: set_take_subset set_drop_subset)+
  moreover have "length (take n (chars s)) + length (drop n (chars s)) = length s"
    using assms by simp
  ultimately show ?thesis using assms by (simp add: char_off_def)
qed

section \<open>Boundaries, slices and validity\<close>

lemma boundary_char_off [text_simps]: "is_char_boundary s (char_off s n)"
proof (cases "n = 0 \<or> char_off s n = length s")
  case True
  then show ?thesis by (auto simp: is_char_boundary_def)
next
  case False
  then have lt: "char_off s n < length s" using char_off_le [of s n] by simp
  have "drop (char_off s n) s \<noteq> []" using lt by simp
  then have "\<not> is_cont (hd (drop (char_off s n) s))"
    using False hd_concat_drop_chars [of n s] by (metis drop_char_off gr0I)
  with lt show ?thesis by (simp add: is_char_boundary_def hd_drop_conv_nth)
qed

lemma str_slice_off [text_simps]:
  assumes "m \<le> n"
  shows "str_slice s (char_off s m) (char_off s n) = Ok (concat (take (n - m) (drop m (chars s))))"
proof -
  have le: "char_off s m \<le> char_off s n" using assms by (rule char_off_mono)
  have "take (char_off s n - char_off s m) (drop (char_off s m) s)
      = drop (char_off s m) (take (char_off s n) s)"
    by (simp add: drop_take)
  also have "\<dots> = drop (length (concat (take m (chars s)))) (concat (take m (chars s)) @ concat (take (n - m) (drop m (chars s))))"
  proof -
    have "take n (chars s) = take m (chars s) @ take (n - m) (drop m (chars s))"
      using assms by (metis le_add_diff_inverse take_add)
    then have "take (char_off s n) s = concat (take m (chars s)) @ concat (take (n - m) (drop m (chars s)))"
      by (metis take_char_off concat_append)
    then show ?thesis by (simp only: char_off_def)
  qed
  finally show ?thesis using le char_off_le [of s n]
    by (simp add: str_slice_def boundary_char_off)
qed

lemma valid_Nil [simp]: "valid_utf8 []"
  by (simp add: valid_utf8_def)

lemma bit_C0: "n < 8 \<Longrightarrow> bit (0xC0 :: u8) n \<longleftrightarrow> 6 \<le> n"
proof -
  assume "n < 8"
  then consider "n = 0" | "n = 1" | "n = 2" | "n = 3" | "n = 4" | "n = 5" | "n = 6" | "n = 7"
    by linarith
  then show ?thesis by cases simp_all
qed

lemma and_C0: "(b :: u8) AND 0xC0 = push_bit 6 (drop_bit 6 b)"
proof (rule bit_word_eqI)
  fix n assume "n < LENGTH(8)"
  then have "n < 8" by simp
  then show "bit (b AND 0xC0) n = bit (push_bit 6 (drop_bit 6 b)) n"
    by (auto simp only: bit_and_iff bit_C0 bit_push_bit_iff bit_drop_bit_eq comp_def) auto
qed

lemma unat_and_C0: "unat ((b :: u8) AND 0xC0) = unat b div 64 * 64"
proof -
  have lt: "unat b < 256" by (rule order_less_le_trans [OF unsigned_less]) simp
  have "unat b div 64 * 64 \<le> unat b" by simp
  then have "unat b div 64 * 64 < 256" using lt by linarith
  moreover have "unat (push_bit 6 (drop_bit 6 b)) = unat b div 64 * 64 mod 256"
    unfolding unsigned_push_bit_eq unsigned_drop_bit_eq
    by (simp only: drop_bit_eq_div push_bit_eq_mult take_bit_eq_mod) (simp add: lt)
  ultimately show ?thesis by (simp add: and_C0)
qed

lemma div64_eq_128: "(x :: nat) div 64 * 64 = 128 \<longleftrightarrow> 128 \<le> x \<and> x < 192"
proof -
  have x: "x = 64 * (x div 64) + x mod 64" and m: "x mod 64 < 64" by simp_all
  show ?thesis
  proof
    assume "x div 64 * 64 = 128"
    then show "128 \<le> x \<and> x < 192" using x m by linarith
  next
    assume "128 \<le> x \<and> x < 192"
    then have "x div 64 < 3 \<and> 1 < x div 64" using x m by linarith
    then have "x div 64 = 2" by linarith
    then show "x div 64 * 64 = 128" by simp
  qed
qed

lemma is_cont_unat: "is_cont b \<longleftrightarrow> 128 \<le> unat b \<and> unat b < 192"
proof -
  have "is_cont b \<longleftrightarrow> unat (b AND 0xC0) = unat (0x80 :: u8)"
    unfolding is_cont_def by (rule word_unat_eq_iff)
  also have "\<dots> \<longleftrightarrow> unat b div 64 * 64 = 128" by (simp only: unat_and_C0) simp
  finally show ?thesis by (simp only: div64_eq_128)
qed

lemma valid_scalar_hd: "valid_scalar c \<Longrightarrow> c \<noteq> [] \<and> \<not> is_cont (hd c)"
  by (induction c rule: valid_scalar.induct)
    (auto simp: is_cont_unat word_le_nat_alt word_less_nat_alt)

lemma chars_hd_valid: "valid_utf8 t \<Longrightarrow> t = [] \<or> \<not> is_cont (hd t)"
  by (cases t) (auto simp: valid_utf8_def dest: valid_scalar_hd)

lemma chars_append_valid [text_simps]: "valid_utf8 t \<Longrightarrow> chars (s @ t) = chars s @ chars t"
  by (rule chars_append) (rule chars_hd_valid)

lemma valid_append [simp, text_simps]: "valid_utf8 s \<Longrightarrow> valid_utf8 t \<Longrightarrow> valid_utf8 (s @ t)"
  by (simp add: valid_utf8_def) (simp add: chars_append_valid valid_utf8_def)

lemma chars_split_boundary:
  assumes "is_char_boundary s i" "i \<le> length s"
  shows "chars s = chars (take i s) @ chars (drop i s)"
proof (cases "i = 0 \<or> i = length s")
  case True
  then show ?thesis by auto
next
  case False
  with assms have "\<not> is_cont (hd (drop i s))"
    by (simp add: is_char_boundary_def hd_drop_conv_nth)
  then have "chars (take i s @ drop i s) = chars (take i s) @ chars (drop i s)"
    by (intro chars_append) simp
  then show ?thesis by simp
qed

lemma boundary_is_char_off:
  assumes "is_char_boundary s i" "i \<le> length s"
  shows "i = char_off s (char_count (take i s))"
  using chars_split_boundary [OF assms] assms(2) by (simp add: char_off_def)

lemma valid_take_drop:
  assumes "valid_utf8 s" "is_char_boundary s i" "i \<le> length s"
  shows "valid_utf8 (take i s)" "valid_utf8 (drop i s)"
  using assms chars_split_boundary [OF assms(2,3)] by (simp_all add: valid_utf8_def)

lemma valid_off [simp, text_simps]:
  assumes "valid_utf8 s"
  shows "valid_utf8 (take (char_off s n) s)" "valid_utf8 (drop (char_off s n) s)"
  using valid_take_drop [OF assms boundary_char_off char_off_le] by simp_all

lemma valid_concat_sub [simp, text_simps]:
  assumes "valid_utf8 s"
  shows "valid_utf8 (concat (take k (drop m (chars s))))"
proof -
  have "valid_utf8 (take (char_off (drop (char_off s m) s) k) (drop (char_off s m) s))"
    using assms by simp
  moreover have "take (char_off (drop (char_off s m) s) k) (drop (char_off s m) s)
      = concat (take k (drop m (chars s)))"
    by (simp only: take_char_off chars_drop_off)
  ultimately show ?thesis by simp
qed

lemma str_slice_Ok:
  "str_slice s lo hi = Ok t \<Longrightarrow> t = take (hi - lo) (drop lo s) \<and> lo \<le> hi \<and> hi \<le> length s
     \<and> is_char_boundary s lo \<and> is_char_boundary s hi"
  by (auto simp: str_slice_def split: if_splits)

lemma str_slice_no_Err [simp]: "str_slice s lo hi \<noteq> Err e"
  by (auto simp: str_slice_def)

lemma ends_with_append: "ends_with s t \<longleftrightarrow> (\<exists>p. s = p @ t)"
  by (auto simp: ends_with_def) (metis append_take_drop_id)

end
