(* ===== verification/Errors.thy ===== *)
theory Errors
  imports Utf8
begin

text \<open>
  The errors of the store (\<^verbatim>\<open>error.rs\<close>) with their stable codes and messages, and the witness
  category registry (\<^verbatim>\<open>engine.rs\<close>) that two of them carry. A result of the store is an outcome
  over these errors.
\<close>

section \<open>Witness categories\<close>

datatype witness =
  NoneFullReencode
| BpeSyncTransition
| WordpieceContinuation
| MetaspaceWordStart

section \<open>Store errors\<close>

datatype store_error =
  Truncated string
| BadMagic
| UnsupportedFormatVersion nat
| BadEndianMarker nat
| BadHeaderLength nat nat
| UnknownWitnessCategory nat
| UnknownMandatoryFlags nat
| ChecksumMismatch
| ChainLinkMismatch
| MalformedRecord string
| RevisionConflict nat nat
| UnknownKey nat
| UnknownSession nat
| FingerprintMismatch
| WitnessCategoryMismatch witness witness
| GuardMismatch
| InvalidConfig string
| InvalidInput string
| ImportReencodeMismatch
| EngineErr string
| Internal string

type_synonym 'a res = "(store_error, 'a) outcome"

fun err_code :: "store_error \<Rightarrow> string" where
  "err_code (Truncated _) = ''STORE_CORRUPT''"
| "err_code BadMagic = ''STORE_CORRUPT''"
| "err_code (BadEndianMarker _) = ''STORE_CORRUPT''"
| "err_code (BadHeaderLength _ _) = ''STORE_CORRUPT''"
| "err_code ChecksumMismatch = ''STORE_CORRUPT''"
| "err_code ChainLinkMismatch = ''STORE_CORRUPT''"
| "err_code (MalformedRecord _) = ''STORE_CORRUPT''"
| "err_code ImportReencodeMismatch = ''STORE_CORRUPT''"
| "err_code (UnsupportedFormatVersion _) = ''STORE_FORMAT_UNSUPPORTED''"
| "err_code (UnknownWitnessCategory _) = ''STORE_FORMAT_UNSUPPORTED''"
| "err_code (UnknownMandatoryFlags _) = ''STORE_FORMAT_UNSUPPORTED''"
| "err_code (RevisionConflict _ _) = ''SESSION_REVISION_CONFLICT''"
| "err_code FingerprintMismatch = ''SESSION_STATE_MISMATCH''"
| "err_code (WitnessCategoryMismatch _ _) = ''SESSION_STATE_MISMATCH''"
| "err_code (InvalidConfig _) = ''CONFIG_INVALID''"
| "err_code (UnknownKey _) = ''INVALID_ARGUMENT''"
| "err_code (UnknownSession _) = ''INVALID_ARGUMENT''"
| "err_code GuardMismatch = ''INVALID_ARGUMENT''"
| "err_code (InvalidInput _) = ''INVALID_ARGUMENT''"
| "err_code (EngineErr _) = ''ENGINE_ERROR''"
| "err_code (Internal _) = ''INTERNAL''"

definition is_rejection :: "store_error \<Rightarrow> bool" where
  "is_rejection e \<longleftrightarrow> err_code e \<in> {''STORE_CORRUPT'', ''STORE_FORMAT_UNSUPPORTED''}"

fun show_witness :: "witness \<Rightarrow> string" where
  "show_witness NoneFullReencode = ''NoneFullReencode''"
| "show_witness BpeSyncTransition = ''BpeSyncTransition''"
| "show_witness WordpieceContinuation = ''WordpieceContinuation''"
| "show_witness MetaspaceWordStart = ''MetaspaceWordStart''"

fun fmt_message :: "store_error \<Rightarrow> string" where
  "fmt_message (Truncated context) = ''record truncated while reading '' @ context"
| "fmt_message BadMagic = ''bad record magic''"
| "fmt_message (UnsupportedFormatVersion v) = ''unsupported format version '' @ show_nat v"
| "fmt_message (BadEndianMarker m) = ''bad endianness marker '' @ show_hex 4 m @ '' (expected 0x01)''"
| "fmt_message (BadHeaderLength hl n) =
     ''bad header length '' @ show_nat hl @ '' for record of '' @ show_nat n @ '' bytes''"
| "fmt_message (UnknownWitnessCategory w) = ''unknown witness category '' @ show_hex 6 w"
| "fmt_message (UnknownMandatoryFlags bits) = ''unknown mandatory flag bits '' @ show_hex 10 bits"
| "fmt_message ChecksumMismatch = ''record checksum mismatch''"
| "fmt_message ChainLinkMismatch = ''chain link hash does not recompute''"
| "fmt_message (MalformedRecord msg) = ''malformed record: '' @ msg"
| "fmt_message (RevisionConflict expected actual) =
     ''session revision conflict: expected '' @ show_nat expected @ '', stored '' @ show_nat actual"
| "fmt_message (UnknownKey k) = ''unknown key id '' @ show_nat k"
| "fmt_message (UnknownSession h) = ''unknown session handle '' @ show_nat h"
| "fmt_message FingerprintMismatch = ''record fingerprint does not match the key''"
| "fmt_message (WitnessCategoryMismatch recorded engine) =
     ''witness category mismatch: state has '' @ show_witness recorded
     @ '', engine has '' @ show_witness engine"
| "fmt_message GuardMismatch = ''fingerprint already registered with a different seal guard''"
| "fmt_message (InvalidConfig msg) = ''invalid configuration: '' @ msg"
| "fmt_message (InvalidInput msg) = ''invalid input: '' @ msg"
| "fmt_message ImportReencodeMismatch =
     ''session import rejected: tail re-encode differs from recorded ids''"
| "fmt_message (EngineErr msg) = ''encoder error: '' @ msg"
| "fmt_message (Internal msg) = ''internal store invariant broken: '' @ msg"

text \<open>\<^verbatim>\<open>Display\<close>: the code in brackets, then the message.\<close>

definition err_display :: "store_error \<Rightarrow> string" where
  "err_display e = ''['' @ err_code e @ ''] '' @ fmt_message e"

text \<open>
  The rejections, which the store turns into counted misses, are exactly the errors a codec can
  report on bytes it does not trust; an import whose re-encode differs is one of them.
\<close>

lemma is_rejection_iff:
  "is_rejection e \<longleftrightarrow>
     (case e of Truncated _ \<Rightarrow> True | BadMagic \<Rightarrow> True | UnsupportedFormatVersion _ \<Rightarrow> True
      | BadEndianMarker _ \<Rightarrow> True | BadHeaderLength _ _ \<Rightarrow> True | UnknownWitnessCategory _ \<Rightarrow> True
      | UnknownMandatoryFlags _ \<Rightarrow> True | ChecksumMismatch \<Rightarrow> True | ChainLinkMismatch \<Rightarrow> True
      | MalformedRecord _ \<Rightarrow> True | ImportReencodeMismatch \<Rightarrow> True | _ \<Rightarrow> False)"
  by (cases e) (simp_all add: is_rejection_def)

section \<open>The on-disk values of the categories\<close>

definition witness_from_u16 :: "nat \<Rightarrow> witness res" where
  "witness_from_u16 v =
     (if v = 0 then Ok NoneFullReencode
      else if v = 1 then Ok BpeSyncTransition
      else if v = 2 then Ok WordpieceContinuation
      else if v = 3 then Ok MetaspaceWordStart
      else Err (UnknownWitnessCategory v))"

fun witness_as_u16 :: "witness \<Rightarrow> nat" where
  "witness_as_u16 NoneFullReencode = 0"
| "witness_as_u16 BpeSyncTransition = 1"
| "witness_as_u16 WordpieceContinuation = 2"
| "witness_as_u16 MetaspaceWordStart = 3"

lemma witness_round_trip [simp, codec_simps]: "witness_from_u16 (witness_as_u16 w) = Ok w"
  by (cases w) (simp_all add: witness_from_u16_def)

lemma witness_from_u16_Ok: "witness_from_u16 v = Ok w \<longleftrightarrow> v = witness_as_u16 w"
  by (cases w) (auto simp: witness_from_u16_def split: if_splits)

lemma witness_u16_bound [simp]: "witness_as_u16 w < 256 ^ 2"
  by (cases w) simp_all

lemma witness_from_u16_no_panic [simp]: "witness_from_u16 v \<noteq> Panic"
  by (simp add: witness_from_u16_def)

end
