(* ===== verification/Engine.thy ===== *)
theory Engine
  imports Errors
begin

text \<open>
  The data of the encoder abstraction (\<^verbatim>\<open>engine.rs\<close>): shared token rows, encodings in both
  layouts with their structural checks, append reports and certified cuts. The trait itself is
  in \<open>Encoder\<close>, after the tail it works on.
\<close>

section \<open>Slices of vectors\<close>

text \<open>\<^verbatim>\<open>xs[lo..hi].to_vec()\<close>: a panic out of range.\<close>

definition vec_slice :: "'a list \<Rightarrow> nat \<Rightarrow> nat \<Rightarrow> ('e, 'a list) outcome" where
  "vec_slice xs lo hi =
     (if lo \<le> hi \<and> hi \<le> length xs then Ok (take (hi - lo) (drop lo xs)) else Panic)"

lemma vec_slice_Ok [simp]: "lo \<le> hi \<Longrightarrow> hi \<le> length xs \<Longrightarrow> vec_slice xs lo hi = Ok (take (hi - lo) (drop lo xs))"
  by (simp add: vec_slice_def)

section \<open>Shared token rows\<close>

text \<open>
  A range of one immutable allocation. The allocation is its address \<open>sh_alloc\<close> and its contents,
  which never change; \<^verbatim>\<open>Arc::ptr_eq\<close> compares allocations.
\<close>

record shared_ids =
  sh_alloc :: nat
  sh_buf :: "u32 list"
  sh_start :: nat
  sh_end :: nat

definition shared_from_vec :: "nat \<Rightarrow> u32 list \<Rightarrow> shared_ids" where
  "shared_from_vec a ids = \<lparr>sh_alloc = a, sh_buf = ids, sh_start = 0, sh_end = length ids\<rparr>"

definition shared_len :: "shared_ids \<Rightarrow> nat" where
  "shared_len v = sh_end v - sh_start v"

definition shared_is_empty :: "shared_ids \<Rightarrow> bool" where
  "shared_is_empty v \<longleftrightarrow> sh_start v = sh_end v"

definition as_slice :: "shared_ids \<Rightarrow> u32 list" where
  "as_slice v = take (sh_end v - sh_start v) (drop (sh_start v) (sh_buf v))"

definition shared_slice :: "shared_ids \<Rightarrow> nat \<Rightarrow> nat \<Rightarrow> shared_ids res" where
  "shared_slice v lo hi =
     (if lo > hi \<or> hi > shared_len v
      then Err (InvalidInput (''shared id slice ['' @ show_nat lo @ '', '' @ show_nat hi
             @ '') is outside its parent of length '' @ show_nat (shared_len v)))
      else Ok (v\<lparr>sh_start := sh_start v + lo, sh_end := sh_start v + hi\<rparr>))"

definition same_allocation :: "shared_ids \<Rightarrow> shared_ids \<Rightarrow> bool" where
  "same_allocation v w \<longleftrightarrow> sh_alloc v = sh_alloc w \<and> sh_buf v = sh_buf w"

definition join_adjacent :: "shared_ids \<Rightarrow> shared_ids \<Rightarrow> shared_ids option" where
  "join_adjacent v w =
     (if same_allocation v w \<and> sh_end v = sh_start w then Some (v\<lparr>sh_end := sh_end w\<rparr>) else None)"

text \<open>\<^verbatim>\<open>PartialEq\<close> compares the visible content, not the allocation.\<close>

definition shared_eq :: "shared_ids \<Rightarrow> shared_ids \<Rightarrow> bool" where
  "shared_eq v w \<longleftrightarrow> as_slice v = as_slice w"

text \<open>What the private fields keep: the range lies in the buffer.\<close>

definition shared_wf :: "shared_ids \<Rightarrow> bool" where
  "shared_wf v \<longleftrightarrow> sh_start v \<le> sh_end v \<and> sh_end v \<le> length (sh_buf v)"

lemma shared_from_vec_wf [simp]: "shared_wf (shared_from_vec a ids)"
  by (simp add: shared_wf_def shared_from_vec_def)

lemma as_slice_from_vec [simp]: "as_slice (shared_from_vec a ids) = ids"
  by (simp add: as_slice_def shared_from_vec_def)

lemma length_as_slice [simp]: "shared_wf v \<Longrightarrow> length (as_slice v) = shared_len v"
  by (auto simp: shared_wf_def as_slice_def shared_len_def min_def)

lemma shared_is_empty_iff: "shared_wf v \<Longrightarrow> shared_is_empty v \<longleftrightarrow> as_slice v = []"
  by (auto simp: shared_wf_def as_slice_def shared_is_empty_def)

lemma shared_slice_no_panic [simp]: "shared_slice v lo hi \<noteq> Panic"
  by (simp add: shared_slice_def)

lemma shared_slice_Ok:
  assumes "shared_wf v" "shared_slice v lo hi = Ok w"
  shows "shared_wf w" "as_slice w = take (hi - lo) (drop lo (as_slice v))" "sh_alloc w = sh_alloc v"
    "sh_buf w = sh_buf v" "sh_start w = sh_start v + lo" "sh_end w = sh_start v + hi"
    "shared_len w = hi - lo"
  using assms
  by (auto simp: shared_slice_def shared_wf_def as_slice_def shared_len_def drop_take min_def
      add.commute split: if_splits)

lemma shared_slice_exists:
  "lo \<le> hi \<Longrightarrow> hi \<le> shared_len v \<Longrightarrow> \<exists>w. shared_slice v lo hi = Ok w"
  by (simp add: shared_slice_def)

lemma join_adjacent_Some:
  assumes "join_adjacent v w = Some u" "shared_wf v" "shared_wf w"
  shows "shared_wf u" "as_slice u = as_slice v @ as_slice w"
proof -
  from assms have buf: "sh_buf w = sh_buf v" and adj: "sh_end v = sh_start w"
    and u: "u = v\<lparr>sh_end := sh_end w\<rparr>"
    by (auto simp: join_adjacent_def same_allocation_def split: if_splits)
  show "shared_wf u" using assms u buf adj by (auto simp: shared_wf_def)
  have "sh_end w - sh_start v = (sh_end v - sh_start v) + (sh_end w - sh_start w)"
    using assms(2,3) adj by (simp add: shared_wf_def)
  moreover have "drop (sh_end v - sh_start v) (drop (sh_start v) (sh_buf v)) = drop (sh_start w) (sh_buf v)"
    using assms(2) adj by (simp add: shared_wf_def)
  ultimately show "as_slice u = as_slice v @ as_slice w"
    using u buf by (simp add: as_slice_def take_add)
qed

section \<open>Encodings\<close>

record encoding =
  enc_ids :: "u32 list"
  enc_spans :: "(nat \<times> nat) list"

record soa_encoding =
  soa_ids :: "u32 list"
  soa_starts :: "nat list"
  soa_ends :: "nat list"

definition span_ok :: "nat \<Rightarrow> nat \<times> nat \<Rightarrow> bool" where
  "span_ok text_chars sp \<longleftrightarrow> fst sp \<le> snd sp \<and> snd sp \<le> text_chars"

text \<open>The loop over the spans, with the index the message names.\<close>

fun check_spans :: "nat \<Rightarrow> nat \<Rightarrow> (nat \<times> nat) list \<Rightarrow> unit res" where
  "check_spans index text_chars [] = Ok ()"
| "check_spans index text_chars ((start, end) # spans) =
     (if start > end \<or> end > text_chars
      then Err (InvalidInput (''span '' @ show_nat index @ '' ('' @ show_nat start @ '', ''
             @ show_nat end @ '') is reversed or exceeds the text length '' @ show_nat text_chars))
      else check_spans (Suc index) text_chars spans)"

definition encoding_validate :: "encoding \<Rightarrow> nat \<Rightarrow> unit res" where
  "encoding_validate enc text_chars =
     (if length (enc_ids enc) \<noteq> length (enc_spans enc)
      then Err (InvalidInput (''ids/spans length mismatch: '' @ show_nat (length (enc_ids enc))
             @ '' != '' @ show_nat (length (enc_spans enc))))
      else check_spans 0 text_chars (enc_spans enc))"

definition validate_span_arrays :: "nat list \<Rightarrow> nat list \<Rightarrow> nat \<Rightarrow> unit res" where
  "validate_span_arrays starts ends text_chars = check_spans 0 text_chars (zip starts ends)"

definition span_lengths_error :: "nat \<Rightarrow> nat \<Rightarrow> nat \<Rightarrow> store_error" where
  "span_lengths_error n starts ends =
     InvalidInput (''ids/spans length mismatch: '' @ show_nat n @ '' != '' @ show_nat starts
       @ ''/'' @ show_nat ends)"

definition soa_validate :: "soa_encoding \<Rightarrow> nat \<Rightarrow> unit res" where
  "soa_validate enc text_chars =
     (let n = length (soa_ids enc); starts = length (soa_starts enc); ends = length (soa_ends enc) in
      if starts \<noteq> n \<or> ends \<noteq> n then Err (span_lengths_error n starts ends)
      else validate_span_arrays (soa_starts enc) (soa_ends enc) text_chars)"

definition into_pairs :: "soa_encoding \<Rightarrow> encoding" where
  "into_pairs enc = \<lparr>enc_ids = soa_ids enc, enc_spans = zip (soa_starts enc) (soa_ends enc)\<rparr>"

lemma check_spans_Ok [simp]: "check_spans i n spans = Ok u \<longleftrightarrow> list_all (span_ok n) spans"
  by (induction i n spans rule: check_spans.induct) (auto simp: span_ok_def)

lemma check_spans_no_panic [simp]: "check_spans i n spans \<noteq> Panic"
  by (induction i n spans rule: check_spans.induct) auto

lemma encoding_validate_Ok [simp]:
  "encoding_validate enc n = Ok u \<longleftrightarrow>
     length (enc_ids enc) = length (enc_spans enc) \<and> list_all (span_ok n) (enc_spans enc)"
  by (simp add: encoding_validate_def)

lemma encoding_validate_no_panic [simp]: "encoding_validate enc n \<noteq> Panic"
  by (simp add: encoding_validate_def)

lemma validate_span_arrays_Ok [simp]:
  "validate_span_arrays starts ends n = Ok u \<longleftrightarrow> list_all (span_ok n) (zip starts ends)"
  by (simp add: validate_span_arrays_def)

lemma validate_span_arrays_no_panic [simp]: "validate_span_arrays starts ends n \<noteq> Panic"
  by (simp add: validate_span_arrays_def)

lemma soa_validate_Ok [simp]:
  "soa_validate enc n = Ok u \<longleftrightarrow>
     length (soa_starts enc) = length (soa_ids enc) \<and> length (soa_ends enc) = length (soa_ids enc)
     \<and> list_all (span_ok n) (zip (soa_starts enc) (soa_ends enc))"
  by (auto simp: soa_validate_def Let_def)

lemma soa_validate_no_panic [simp]: "soa_validate enc n \<noteq> Panic"
  by (simp add: soa_validate_def Let_def)

section \<open>Append reports and certified cuts\<close>

record append_report =
  rp_path :: string
  rp_kept :: nat

record boundary_cut =
  cut_tokens :: nat
  cut_char :: nat

end
