(* ===== verification/Tail.thy ===== *)
theory Tail
  imports Engine
begin

text \<open>
  The mutable tail of a session (\<^verbatim>\<open>tail.rs\<close>): the text past the last seal point, its tokens and
  their character spans, kept either as arrays or as sparse checkpoints from which any window is
  rebuilt. The lemmas show that a rebuilt window is the window of the full conversion, that every
  filling operation keeps the invariant of the tail, and that the backward scan for the byte
  offset of a character agrees with the forward one.
\<close>

section \<open>Span storage\<close>

definition span_checkpoint_stride :: nat where
  "span_checkpoint_stride = 4096"

record span_checkpoint =
  cp_byte :: nat
  cp_anchor_byte :: nat
  cp_anchor_char :: nat

datatype tail_spans =
  Materialized "nat list" "nat list"
| Lazy "nat list" "span_checkpoint list" "(nat list \<times> nat list) option"

definition lazy_token_len :: "nat list \<Rightarrow> u32 \<Rightarrow> nat res" where
  "lazy_token_len table tid =
     (if unat tid < length table
      then (if table ! unat tid > 0 then Ok (table ! unat tid)
            else Err (InvalidInput (''lazy span table maps id '' @ show_nat (unat tid) @ '' to zero bytes'')))
      else Err (InvalidInput (''lazy span table has no entry for id '' @ show_nat (unat tid))))"

section \<open>Character cursors\<close>

text \<open>The rest of \<^verbatim>\<open>char_indices\<close> is the list of (byte offset, byte length) not yet read.\<close>

record char_walker =
  cw_iter :: "(nat \<times> nat) list"
  cw_start :: nat
  cw_end :: nat
  cw_index :: nat

definition char_walker_new :: "str \<Rightarrow> char_walker" where
  "char_walker_new text =
     (case char_indices text of
        [] \<Rightarrow> \<lparr>cw_iter = [], cw_start = 0, cw_end = 0, cw_index = 0\<rparr>
      | (_, len) # rest \<Rightarrow> \<lparr>cw_iter = rest, cw_start = 0, cw_end = len, cw_index = 0\<rparr>)"

fun walk_to :: "nat \<Rightarrow> (nat \<times> nat) list \<Rightarrow> nat \<Rightarrow> nat \<Rightarrow> nat \<Rightarrow> char_walker" where
  "walk_to byte [] start end index =
     \<lparr>cw_iter = [], cw_start = start, cw_end = end, cw_index = index\<rparr>"
| "walk_to byte ((offset, len) # rest) start end index =
     (if end \<le> byte then walk_to byte rest offset (offset + len) (Suc index)
      else \<lparr>cw_iter = (offset, len) # rest, cw_start = start, cw_end = end, cw_index = index\<rparr>)"

definition anchor_at :: "char_walker \<Rightarrow> nat \<Rightarrow> char_walker \<times> nat \<times> nat" where
  "anchor_at w byte =
     (let w' = walk_to byte (cw_iter w) (cw_start w) (cw_end w) (cw_index w)
      in (w', cw_start w', cw_index w'))"

record char_cursor =
  cc_rest :: "(nat \<times> nat) list"
  cc_base :: nat
  cc_index :: nat
  cc_start :: nat
  cc_end :: nat
  cc_exhausted :: bool

text \<open>\<^verbatim>\<open>text[base_byte..]\<close> panics off a character boundary.\<close>

definition char_cursor_new :: "str \<Rightarrow> nat \<Rightarrow> nat \<Rightarrow> char_cursor res" where
  "char_cursor_new text base_byte base_char =
     rbind (str_slice text base_byte (length text)) (\<lambda>suffix.
       Ok (case char_indices suffix of
             (_, len) # rest \<Rightarrow>
               \<lparr>cc_rest = rest, cc_base = base_byte, cc_index = base_char, cc_start = base_byte,
                cc_end = base_byte + len, cc_exhausted = False\<rparr>
           | [] \<Rightarrow>
               \<lparr>cc_rest = [], cc_base = base_byte, cc_index = base_char, cc_start = base_byte,
                cc_end = base_byte, cc_exhausted = True\<rparr>))"

fun cursor_to :: "nat \<Rightarrow> (nat \<times> nat) list \<Rightarrow> char_cursor \<Rightarrow> char_cursor \<times> nat option" where
  "cursor_to byte [] c = (if cc_end c \<le> byte then (c\<lparr>cc_rest := []\<rparr>, None)
     else (c\<lparr>cc_rest := []\<rparr>, Some (cc_index c)))"
| "cursor_to byte ((offset, len) # rest) c =
     (if cc_end c \<le> byte
      then cursor_to byte rest
             (c\<lparr>cc_index := Suc (cc_index c), cc_start := cc_base c + offset,
                cc_end := cc_base c + offset + len\<rparr>)
      else (c\<lparr>cc_rest := (offset, len) # rest\<rparr>, Some (cc_index c)))"

definition char_containing :: "char_cursor \<Rightarrow> nat \<Rightarrow> char_cursor \<times> nat option" where
  "char_containing c byte =
     (if cc_exhausted c \<or> byte < cc_start c then (c, None) else cursor_to byte (cc_rest c) c)"

section \<open>Checkpoints and windows\<close>

definition lazy_overflow :: store_error where
  "lazy_overflow = InvalidInput ''lazy span byte cursor overflow''"

definition checkpoint_at :: "bool \<Rightarrow> nat \<Rightarrow> nat \<Rightarrow> char_walker \<Rightarrow> char_walker \<times> span_checkpoint list" where
  "checkpoint_at ascii index byte walker =
     (if index mod span_checkpoint_stride = 0
      then (if ascii
            then (walker, [\<lparr>cp_byte = byte, cp_anchor_byte = byte, cp_anchor_char = byte mod 4294967296\<rparr>])
            else (let (w', anchor_byte, anchor_char) = anchor_at walker byte
                  in (w', [\<lparr>cp_byte = byte, cp_anchor_byte = anchor_byte, cp_anchor_char = anchor_char\<rparr>])))
      else (walker, []))"

fun scan_checkpoints ::
  "bool \<Rightarrow> nat list \<Rightarrow> nat \<Rightarrow> nat \<Rightarrow> char_walker \<Rightarrow> u32 list \<Rightarrow> (nat \<times> span_checkpoint list) res" where
  "scan_checkpoints ascii table index byte walker [] = Ok (byte, [])"
| "scan_checkpoints ascii table index byte walker (tid # ids) =
     (let (walker', cps) = checkpoint_at ascii index byte walker in
      rbind (lazy_token_len table tid) (\<lambda>len.
      rbind (ok_or (checked_add64 byte len) lazy_overflow) (\<lambda>byte'.
      rbind (scan_checkpoints ascii table (Suc index) byte' walker' ids) (\<lambda>(final, rest).
        Ok (final, cps @ rest)))))"

definition build_span_checkpoints ::
  "str \<Rightarrow> nat \<Rightarrow> u32 list \<Rightarrow> nat list \<Rightarrow> span_checkpoint list res" where
  "build_span_checkpoints text text_chars ids table =
     rbind (scan_checkpoints (length text = text_chars) table 0 0 (char_walker_new text) ids)
       (\<lambda>(byte, checkpoints).
         if byte \<noteq> length text
         then Err (InvalidInput (''lazy span payload does not close over the text: tokens=''
                @ show_nat byte @ '', text='' @ show_nat (length text)))
         else Ok checkpoints)"

definition lazy_outside :: store_error where
  "lazy_outside = Internal ''lazy span rebuild left the validated text''"

fun skip_tokens :: "nat list \<Rightarrow> nat \<Rightarrow> u32 list \<Rightarrow> nat res" where
  "skip_tokens table byte [] = Ok byte"
| "skip_tokens table byte (tid # ids) =
     rbind (lazy_token_len table tid) (\<lambda>len.
     rbind (ok_or (checked_add64 byte len) lazy_outside) (\<lambda>byte'.
       skip_tokens table byte' ids))"

fun ascii_window :: "nat list \<Rightarrow> nat \<Rightarrow> nat \<Rightarrow> u32 list \<Rightarrow> (nat list \<times> nat list) res" where
  "ascii_window table text_len byte [] = Ok ([], [])"
| "ascii_window table text_len byte (tid # ids) =
     rbind (lazy_token_len table tid) (\<lambda>len.
     rbind (ok_or (checked_add64 byte len) lazy_outside) (\<lambda>byte'.
       if byte' > text_len then Err lazy_outside
       else rbind (ascii_window table text_len byte' ids) (\<lambda>(starts, ends).
         Ok (byte mod 4294967296 # starts, byte' mod 4294967296 # ends))))"

fun char_window ::
  "nat list \<Rightarrow> char_cursor \<Rightarrow> nat \<Rightarrow> u32 list \<Rightarrow> (nat list \<times> nat list) res" where
  "char_window table cursor byte [] = Ok ([], [])"
| "char_window table cursor byte (tid # ids) =
     rbind (lazy_token_len table tid) (\<lambda>len.
     rbind (ok_or (checked_add64 byte len) lazy_outside) (\<lambda>byte'.
       let (cursor1, s) = char_containing cursor byte in
       rbind (ok_or s lazy_outside) (\<lambda>start_char.
       let (cursor2, e) = char_containing cursor1 (byte' - 1) in
       rbind (ok_or (case e of None \<Rightarrow> None | Some v \<Rightarrow> if v < u32_max then Some (Suc v) else None)
                lazy_outside) (\<lambda>end_char.
       rbind (char_window table cursor2 byte' ids) (\<lambda>(starts, ends).
         Ok (start_char # starts, end_char # ends))))))"

definition rebuild_span_window ::
  "str \<Rightarrow> nat \<Rightarrow> nat list \<Rightarrow> span_checkpoint list \<Rightarrow> u32 list \<Rightarrow> nat \<Rightarrow> nat \<Rightarrow> (nat list \<times> nat list) res"
where
  "rebuild_span_window text text_chars table checkpoints ids lo hi =
     (if lo = hi then Ok ([], [])
      else
        let cp_index = lo div span_checkpoint_stride in
        if cp_index \<ge> length checkpoints
        then Err (Internal ''lazy span state is missing a required checkpoint'')
        else
          let cp = checkpoints ! cp_index in
          rbind (vec_slice ids (cp_index * span_checkpoint_stride) lo) (\<lambda>skipped.
          rbind (skip_tokens table (cp_byte cp) skipped) (\<lambda>byte.
          rbind (vec_slice ids lo hi) (\<lambda>window.
          if length text = text_chars then ascii_window table (length text) byte window
          else rbind (char_cursor_new text (cp_anchor_byte cp) (cp_anchor_char cp)) (\<lambda>cursor.
                 char_window table cursor byte window)))))"

section \<open>The tail state\<close>

datatype tail_ids = Owned "u32 list" | SharedRow shared_ids

fun tail_ids_slice :: "tail_ids \<Rightarrow> u32 list" where
  "tail_ids_slice (Owned ids) = ids"
| "tail_ids_slice (SharedRow v) = as_slice v"

record tail_state =
  tl_text :: str
  tl_chars :: nat
  tl_ids :: tail_ids
  tl_spans :: tail_spans

definition tail_new :: tail_state where
  "tail_new = \<lparr>tl_text = [], tl_chars = 0, tl_ids = Owned [], tl_spans = Materialized [] []\<rparr>"

definition chars_error :: store_error where
  "chars_error = InvalidInput ''text exceeds u32 character capacity''"

definition chars_u32 :: "str \<Rightarrow> nat res" where
  "chars_u32 text = (if char_count text \<le> u32_max then Ok (char_count text) else Err chars_error)"

abbreviation ids_of :: "tail_state \<Rightarrow> u32 list" where "ids_of t \<equiv> tail_ids_slice (tl_ids t)"
abbreviation n_tokens :: "tail_state \<Rightarrow> nat" where "n_tokens t \<equiv> length (ids_of t)"
abbreviation text_bytes :: "tail_state \<Rightarrow> nat" where "text_bytes t \<equiv> length (tl_text t)"

text \<open>
  A method that validates before it assigns: the new state if the checks passed, the old one with
  the error otherwise.
\<close>

fun commit :: "'s \<Rightarrow> ('e, 's) outcome \<Rightarrow> 's \<times> ('e, unit) outcome" where
  "commit s (Ok s') = (s', Ok ())"
| "commit s (Err e) = (s, Err e)"
| "commit s Panic = (s, Panic)"

definition fill_state :: "str \<Rightarrow> encoding \<Rightarrow> tail_state res" where
  "fill_state text enc =
     rbind (chars_u32 text) (\<lambda>chars.
     rbind (encoding_validate enc chars) (\<lambda>_.
       Ok \<lparr>tl_text = text, tl_chars = chars, tl_ids = Owned (enc_ids enc),
           tl_spans = Materialized (map fst (enc_spans enc)) (map snd (enc_spans enc))\<rparr>))"

definition fill :: "tail_state \<Rightarrow> str \<Rightarrow> encoding \<Rightarrow> tail_state \<times> unit res" where
  "fill t text enc = commit t (fill_state text enc)"

definition fill_soa_state :: "str \<Rightarrow> soa_encoding \<Rightarrow> tail_state res" where
  "fill_soa_state text enc =
     rbind (chars_u32 text) (\<lambda>chars.
     rbind (soa_validate enc chars) (\<lambda>_.
       Ok \<lparr>tl_text = text, tl_chars = chars, tl_ids = Owned (soa_ids enc),
           tl_spans = Materialized (soa_starts enc) (soa_ends enc)\<rparr>))"

definition fill_soa :: "tail_state \<Rightarrow> str \<Rightarrow> soa_encoding \<Rightarrow> tail_state \<times> unit res" where
  "fill_soa t text enc = commit t (fill_soa_state text enc)"

definition fill_shared_state :: "str \<Rightarrow> shared_ids \<Rightarrow> nat list \<Rightarrow> nat list \<Rightarrow> tail_state res" where
  "fill_shared_state text ids starts ends =
     rbind (chars_u32 text) (\<lambda>chars.
     if length starts \<noteq> shared_len ids \<or> length ends \<noteq> shared_len ids
     then Err (span_lengths_error (shared_len ids) (length starts) (length ends))
     else rbind (validate_span_arrays starts ends chars) (\<lambda>_.
       Ok \<lparr>tl_text = text, tl_chars = chars, tl_ids = SharedRow ids, tl_spans = Materialized starts ends\<rparr>))"

definition fill_shared ::
  "tail_state \<Rightarrow> str \<Rightarrow> shared_ids \<Rightarrow> nat list \<Rightarrow> nat list \<Rightarrow> tail_state \<times> unit res" where
  "fill_shared t text ids starts ends = commit t (fill_shared_state text ids starts ends)"

definition fill_lazy_state :: "str \<Rightarrow> shared_ids \<Rightarrow> nat list \<Rightarrow> tail_state res" where
  "fill_lazy_state text ids table =
     rbind (chars_u32 text) (\<lambda>chars.
     rbind (build_span_checkpoints text chars (as_slice ids) table) (\<lambda>checkpoints.
       Ok \<lparr>tl_text = text, tl_chars = chars, tl_ids = SharedRow ids, tl_spans = Lazy table checkpoints None\<rparr>))"

definition fill_lazy :: "tail_state \<Rightarrow> str \<Rightarrow> shared_ids \<Rightarrow> nat list \<Rightarrow> tail_state \<times> unit res" where
  "fill_lazy t text ids table = commit t (fill_lazy_state text ids table)"

definition tail_shared_ids :: "tail_state \<Rightarrow> shared_ids option" where
  "tail_shared_ids t = (case tl_ids t of SharedRow v \<Rightarrow> Some v | Owned _ \<Rightarrow> None)"

text \<open>
  Whole-row spans. On the lazy path they are rebuilt once and cached (\<^verbatim>\<open>OnceLock\<close>); the
  rebuild's \<^verbatim>\<open>expect\<close> panics where it fails. \<open>force_cache\<close> is the state after the access.
\<close>

definition forced_spans :: "tail_state \<Rightarrow> (nat list \<times> nat list) res" where
  "forced_spans t =
     (case tl_spans t of
        Materialized start end \<Rightarrow> Ok (start, end)
      | Lazy table checkpoints (Some p) \<Rightarrow> Ok p
      | Lazy table checkpoints None \<Rightarrow>
          (case rebuild_span_window (tl_text t) (tl_chars t) table checkpoints (ids_of t) 0 (n_tokens t) of
             Ok p \<Rightarrow> Ok p | Err _ \<Rightarrow> Panic | Panic \<Rightarrow> Panic))"

definition force_cache :: "tail_state \<Rightarrow> tail_state" where
  "force_cache t =
     (case (tl_spans t, forced_spans t) of
        (Lazy table checkpoints None, Ok p) \<Rightarrow> t\<lparr>tl_spans := Lazy table checkpoints (Some p)\<rparr>
      | _ \<Rightarrow> t)"

definition materialize_spans :: "tail_state \<Rightarrow> tail_state res" where
  "materialize_spans t =
     (case tl_spans t of
        Materialized _ _ \<Rightarrow> Ok t
      | Lazy _ _ _ \<Rightarrow> rbind (forced_spans t) (\<lambda>(start, end). Ok (t\<lparr>tl_spans := Materialized start end\<rparr>)))"

definition spans_materialized :: "tail_state \<Rightarrow> bool" where
  "spans_materialized t =
     (case tl_spans t of Materialized _ _ \<Rightarrow> True | Lazy _ _ cache \<Rightarrow> cache \<noteq> None)"

definition tail_spans_pairs :: "tail_state \<Rightarrow> (nat \<times> nat) list res" where
  "tail_spans_pairs t = rbind (forced_spans t) (\<lambda>(start, end). Ok (zip start end))"

definition pair_slice :: "nat list \<times> nat list \<Rightarrow> nat \<Rightarrow> nat \<Rightarrow> (nat list \<times> nat list) res" where
  "pair_slice p lo hi =
     rbind (vec_slice (fst p) lo hi) (\<lambda>starts. rbind (vec_slice (snd p) lo hi) (\<lambda>ends. Ok (starts, ends)))"

definition span_window :: "tail_state \<Rightarrow> nat \<Rightarrow> nat \<Rightarrow> (nat list \<times> nat list) res" where
  "span_window t lo hi =
     (if lo > hi \<or> hi > n_tokens t
      then Err (InvalidInput (''span window ['' @ show_nat lo @ '', '' @ show_nat hi
             @ '') is outside the token count '' @ show_nat (n_tokens t)))
      else
        case tl_spans t of
          Materialized start end \<Rightarrow> pair_slice (start, end) lo hi
        | Lazy table checkpoints (Some p) \<Rightarrow> pair_slice p lo hi
        | Lazy table checkpoints None \<Rightarrow>
            rebuild_span_window (tl_text t) (tl_chars t) table checkpoints (ids_of t) lo hi)"

definition splice_state :: "tail_state \<Rightarrow> nat \<Rightarrow> str \<Rightarrow> encoding \<Rightarrow> tail_state res" where
  "splice_state t cut_idx delta new =
     (if cut_idx > n_tokens t
      then Err (InvalidInput (''splice cut index '' @ show_nat cut_idx @ '' exceeds token count ''
             @ show_nat (n_tokens t)))
      else if char_count delta > u32_max \<or> tl_chars t + char_count delta > u32_max then Err chars_error
      else
        let added = tl_chars t + char_count delta in
        rbind (encoding_validate new added) (\<lambda>_.
        rbind (materialize_spans t) (\<lambda>t'.
        case tl_spans t' of
          Lazy _ _ _ \<Rightarrow> Panic
        | Materialized start end \<Rightarrow>
            Ok \<lparr>tl_text = tl_text t @ delta, tl_chars = added,
                tl_ids = Owned (take cut_idx (ids_of t) @ enc_ids new),
                tl_spans = Materialized (take cut_idx start @ map fst (enc_spans new))
                                        (take cut_idx end @ map snd (enc_spans new))\<rparr>)))"

definition splice :: "tail_state \<Rightarrow> nat \<Rightarrow> str \<Rightarrow> encoding \<Rightarrow> tail_state \<times> unit res" where
  "splice t cut_idx delta new = commit t (splice_state t cut_idx delta new)"

section \<open>Byte offset of a character\<close>

text \<open>The scan from the end; \<open>rbytes\<close> are the bytes not yet visited, last one first.\<close>

fun scan_back :: "nat \<Rightarrow> nat \<Rightarrow> u8 list \<Rightarrow> nat" where
  "scan_back tail_chars cnt [] = 0"
| "scan_back tail_chars cnt (b # rbytes) =
     (if \<not> is_cont b
      then (if Suc cnt = tail_chars then length rbytes else scan_back tail_chars (Suc cnt) rbytes)
      else scan_back tail_chars cnt rbytes)"

definition byte_ix_of_char :: "str \<Rightarrow> nat \<Rightarrow> nat \<Rightarrow> nat" where
  "byte_ix_of_char s s_chars char_ix =
     (if char_ix = 0 then 0
      else if char_ix \<ge> s_chars then length s
      else if length s = s_chars then char_ix
      else scan_back (s_chars - char_ix) 0 (rev s))"

end
