(* ===== verification/TailSpans.thy ===== *)
theory TailSpans
  imports Tail
begin

text \<open>
  Why the sparse checkpoints are enough: the one fused scan of \<open>build_span_checkpoints\<close> proves that
  every window rebuilt later is the window of the full byte-to-character conversion, the
  reference \<open>naive_spans\<close> (the one the tests of \<^verbatim>\<open>tail.rs\<close> compare against).
\<close>

section \<open>The reference conversion\<close>

definition char_of_byte :: "str \<Rightarrow> nat list" where
  "char_of_byte text = concat (map (\<lambda>(i, c). replicate (length c) i) (enumerate 0 (chars text)))"

fun naive_from :: "str \<Rightarrow> nat list \<Rightarrow> nat \<Rightarrow> u32 list \<Rightarrow> nat list \<times> nat list" where
  "naive_from text table byte [] = ([], [])"
| "naive_from text table byte (tid # ids) =
     (let len = table ! unat tid; (starts, ends) = naive_from text table (byte + len) ids in
      (char_of_byte text ! byte # starts, Suc (char_of_byte text ! (byte + len - 1)) # ends))"

definition naive_spans :: "str \<Rightarrow> nat list \<Rightarrow> u32 list \<Rightarrow> nat list \<times> nat list" where
  "naive_spans text table ids = naive_from text table 0 ids"

definition tokens_len :: "nat list \<Rightarrow> u32 list \<Rightarrow> nat" where
  "tokens_len table ids = sum_list (map (\<lambda>t. table ! unat t) ids)"

definition tokens_known :: "nat list \<Rightarrow> u32 list \<Rightarrow> bool" where
  "tokens_known table ids \<longleftrightarrow> list_all (\<lambda>t. unat t < length table \<and> 0 < table ! unat t) ids"

lemma tokens_len_simps [simp]:
  "tokens_len table [] = 0"
  "tokens_len table (t # ts) = table ! unat t + tokens_len table ts"
  "tokens_len table (xs @ ys) = tokens_len table xs + tokens_len table ys"
  by (simp_all add: tokens_len_def)

lemma tokens_known_simps [simp]:
  "tokens_known table []"
  "tokens_known table (t # ts) \<longleftrightarrow> unat t < length table \<and> 0 < table ! unat t \<and> tokens_known table ts"
  "tokens_known table (xs @ ys) \<longleftrightarrow> tokens_known table xs \<and> tokens_known table ys"
  by (simp_all add: tokens_known_def)

lemma tokens_known_take [simp]: "tokens_known table ids \<Longrightarrow> tokens_known table (take n ids)"
  by (metis append_take_drop_id tokens_known_simps(3))

lemma tokens_known_drop [simp]: "tokens_known table ids \<Longrightarrow> tokens_known table (drop n ids)"
  by (metis append_take_drop_id tokens_known_simps(3))

lemma tokens_len_split: "tokens_len table (take n ids) + tokens_len table (drop n ids) = tokens_len table ids"
  by (metis append_take_drop_id tokens_len_simps(3))

lemma lazy_token_len_Ok [simp]:
  "lazy_token_len table t = Ok n \<longleftrightarrow> unat t < length table \<and> 0 < table ! unat t \<and> n = table ! unat t"
  by (auto simp: lazy_token_len_def)

lemma lazy_token_len_known [simp]:
  "unat t < length table \<Longrightarrow> 0 < table ! unat t \<Longrightarrow> lazy_token_len table t = Ok (table ! unat t)"
  by simp

lemma lazy_token_len_no_panic [simp]: "lazy_token_len table t \<noteq> Panic"
  by (simp add: lazy_token_len_def)

lemma naive_from_append:
  "naive_from text table b (xs @ ys) =
     (fst (naive_from text table b xs) @ fst (naive_from text table (b + tokens_len table xs) ys),
      snd (naive_from text table b xs) @ snd (naive_from text table (b + tokens_len table xs) ys))"
  by (induction xs arbitrary: b) (simp_all add: Let_def case_prod_beta add.assoc)

lemma length_naive_from [simp]:
  "length (fst (naive_from text table b ids)) = length ids"
  "length (snd (naive_from text table b ids)) = length ids"
  by (induction ids arbitrary: b) (simp_all add: Let_def case_prod_beta)

lemma naive_from_window:
  assumes "lo \<le> hi" "hi \<le> length ids"
  shows "naive_from text table (b + tokens_len table (take lo ids)) (take (hi - lo) (drop lo ids)) =
    (take (hi - lo) (drop lo (fst (naive_from text table b ids))),
     take (hi - lo) (drop lo (snd (naive_from text table b ids))))"
proof -
  let ?n = "naive_from text table"
  let ?mid = "take (hi - lo) (drop lo ids)"
  have "ids = take lo ids @ ?mid @ drop (hi - lo) (drop lo ids)"
    by (simp only: append_take_drop_id)
  then have eq: "?n b ids = ?n b (take lo ids @ ?mid @ drop (hi - lo) (drop lo ids))" by simp
  have "length (fst (?n b (take lo ids))) = lo" "length (snd (?n b (take lo ids))) = lo"
    "length (fst (?n (b + tokens_len table (take lo ids)) ?mid)) = hi - lo"
    "length (snd (?n (b + tokens_len table (take lo ids)) ?mid)) = hi - lo"
    using assms by simp_all
  then show ?thesis by (simp only: eq naive_from_append) simp
qed

section \<open>Characters and bytes\<close>

definition char_at :: "str \<Rightarrow> nat \<Rightarrow> nat \<Rightarrow> bool" where
  "char_at text b n \<longleftrightarrow> n < char_count text \<and> char_off text n \<le> b \<and> b < char_off text (Suc n)"

lemma char_at_exists:
  assumes "b < length text"
  shows "\<exists>n. char_at text b n"
proof -
  let ?P = "\<lambda>n. b < char_off text (Suc n)"
  have ex: "?P (char_count text)" using assms by (simp add: char_off_end)
  define n where "n = (LEAST n. ?P n)"
  have P: "?P n" unfolding n_def by (rule LeastI [of ?P, OF ex])
  have "char_off text n \<le> b"
  proof (cases n)
    case 0
    then show ?thesis by simp
  next
    case (Suc m)
    then have "\<not> ?P m" unfolding n_def by (metis lessI not_less_Least)
    with Suc show ?thesis by simp
  qed
  moreover from this assms have "n < char_count text"
    by (metis char_off_end leI linorder_not_less)
  ultimately show ?thesis using P by (auto simp: char_at_def)
qed

lemma char_of_list_nth:
  "n < length cs \<Longrightarrow> length (concat (take n cs)) \<le> b \<Longrightarrow> b < length (concat (take (Suc n) cs)) \<Longrightarrow>
     concat (map (\<lambda>(i, c). replicate (length c) i) (enumerate k cs)) ! b = k + n"
proof (induction cs arbitrary: n k b)
  case Nil
  then show ?case by simp
next
  case (Cons c cs)
  show ?case
  proof (cases n)
    case 0
    with Cons.prems show ?thesis by (simp add: nth_append)
  next
    case (Suc m)
    with Cons.prems have "concat (map (\<lambda>(i, c). replicate (length c) i) (enumerate (Suc k) cs))
        ! (b - length c) = Suc k + m"
      by (intro Cons.IH) auto
    with Suc Cons.prems show ?thesis by (simp add: nth_append)
  qed
qed

lemma char_of_byte_at: "char_at text b n \<Longrightarrow> char_of_byte text ! b = n"
  using char_of_list_nth [of n "chars text" b 0]
  by (simp add: char_of_byte_def char_at_def char_off_def)

lemma char_at_ascii:
  "length text = char_count text \<Longrightarrow> b < length text \<Longrightarrow> char_at text b b"
  by (simp add: char_at_def char_off_ascii)

section \<open>The cursors find the character of a byte\<close>

text \<open>The absolute positions still to be read, after character \<open>k\<close>.\<close>

definition rest_at :: "str \<Rightarrow> nat \<Rightarrow> (nat \<times> nat) list \<Rightarrow> nat \<Rightarrow> bool" where
  "rest_at text base rest k \<longleftrightarrow>
     k < char_count text \<and> map (\<lambda>(o', l). (base + o', l)) rest = drop (Suc k) (char_indices text)"

lemma rest_at_Nil: "rest_at text base [] k \<Longrightarrow> char_off text (Suc k) = length text"
  unfolding rest_at_def by (metis char_off_end drop_eq_Nil length_char_indices map_is_Nil_conv)

lemma rest_at_Cons:
  assumes "rest_at text base ((o', l) # rest) k"
  shows "base + o' = char_off text (Suc k)" "base + o' + l = char_off text (Suc (Suc k))"
    "rest_at text base rest (Suc k)"
proof -
  have eq: "drop (Suc k) (char_indices text) = (base + o', l) # map (\<lambda>(o', l). (base + o', l)) rest"
    using assms by (simp add: rest_at_def)
  then have lt: "Suc k < char_count text"
    by (metis drop_eq_Nil length_char_indices list.distinct(1) not_less)
  have "char_indices text ! Suc k = (base + o', l)"
    using eq lt by (metis hd_drop_conv_nth length_char_indices list.sel(1))
  then have nth: "char_off text (Suc k) = base + o'" "length (chars text ! Suc k) = l"
    using lt by (simp_all add: char_indices_nth)
  then show "base + o' = char_off text (Suc k)" "base + o' + l = char_off text (Suc (Suc k))"
    using lt by (simp_all add: char_off_Suc)
  show "rest_at text base rest (Suc k)"
    using eq lt by (simp add: rest_at_def) (metis drop_Suc list.sel(3) tl_drop)
qed

definition cursor_at :: "str \<Rightarrow> char_cursor \<Rightarrow> nat \<Rightarrow> bool" where
  "cursor_at text c k \<longleftrightarrow>
     \<not> cc_exhausted c \<and> cc_index c = k \<and> cc_start c = char_off text k
     \<and> cc_end c = char_off text (Suc k) \<and> rest_at text (cc_base c) (cc_rest c) k"

lemma cursor_to_finds:
  assumes "\<not> cc_exhausted c" "cc_index c = k" "cc_start c = char_off text k"
    "cc_end c = char_off text (Suc k)" "rest_at text (cc_base c) rest k"
    "char_off text k \<le> b" "b < length text"
  shows "\<exists>c' n. cursor_to b rest c = (c', Some n) \<and> cursor_at text c' n \<and> char_at text b n"
  using assms
proof (induction rest arbitrary: c k)
  case Nil
  then have "b < cc_end c" by (simp add: rest_at_Nil)
  with Nil show ?case
    by (auto simp: cursor_at_def char_at_def rest_at_def)
next
  case (Cons p rest)
  obtain o' l where p: "p = (o', l)" by (cases p)
  have ra: "rest_at text (cc_base c) ((o', l) # rest) k" using Cons.prems(5) p by simp
  note r = rest_at_Cons [OF ra]
  show ?case
  proof (cases "cc_end c \<le> b")
    case True
    let ?c = "c\<lparr>cc_index := Suc (cc_index c), cc_start := cc_base c + o', cc_end := cc_base c + o' + l\<rparr>"
    have "\<exists>c' n. cursor_to b rest ?c = (c', Some n) \<and> cursor_at text c' n \<and> char_at text b n"
      using Cons.prems r True by (intro Cons.IH [of _ "Suc k"]) auto
    with True p show ?thesis by simp
  next
    case False
    with Cons.prems p show ?thesis
      by (auto simp: cursor_at_def char_at_def rest_at_def)
  qed
qed

lemma char_containing_finds:
  assumes "cursor_at text c k" "char_off text k \<le> b" "b < length text"
  shows "\<exists>c' n. char_containing c b = (c', Some n) \<and> cursor_at text c' n \<and> char_at text b n"
  using assms cursor_to_finds [of c k "text" "cc_rest c" b]
  by (simp add: char_containing_def cursor_at_def)

lemma walk_to_finds:
  assumes "rest_at text 0 rest k" "char_off text k \<le> b" "b < length text"
  shows "\<exists>w n. walk_to b rest (char_off text k) (char_off text (Suc k)) k = w \<and> cw_index w = n
    \<and> cw_start w = char_off text n \<and> cw_end w = char_off text (Suc n) \<and> rest_at text 0 (cw_iter w) n
    \<and> char_at text b n"
    (is "\<exists>w n. ?W rest k = w \<and> ?P w n")
  using assms
proof (induction rest arbitrary: k)
  case Nil
  then show ?case by (simp add: rest_at_Nil char_at_def) (simp add: rest_at_def)
next
  case (Cons p rest)
  obtain o' l where p: "p = (o', l)" by (cases p)
  have ra: "rest_at text 0 ((o', l) # rest) k" using Cons.prems(1) p by simp
  note r = rest_at_Cons [OF ra]
  show ?case
  proof (cases "char_off text (Suc k) \<le> b")
    case True
    have "?W (p # rest) k = ?W rest (Suc k)" using True p r by simp
    with Cons.IH [OF r(3) True Cons.prems(3)] show ?thesis by simp
  next
    case False
    then have "?W (p # rest) k = \<lparr>cw_iter = p # rest, cw_start = char_off text k,
        cw_end = char_off text (Suc k), cw_index = k\<rparr>"
      using p by simp
    moreover have "char_at text b k" using False Cons.prems by (simp add: char_at_def rest_at_def)
    ultimately show ?thesis using Cons.prems(1) by simp
  qed
qed

definition walker_at :: "str \<Rightarrow> char_walker \<Rightarrow> nat \<Rightarrow> bool" where
  "walker_at text w k \<longleftrightarrow>
     cw_index w = k \<and> cw_start w = char_off text k \<and> cw_end w = char_off text (Suc k)
     \<and> rest_at text 0 (cw_iter w) k"

lemma char_indices_Cons:
  assumes "text \<noteq> []"
  shows "\<exists>l rest. char_indices text = (0, l) # rest \<and> l = char_off text (Suc 0) \<and> rest_at text 0 rest 0"
proof -
  have pos: "0 < char_count text" using assms by simp
  then obtain p rest where cs: "char_indices text = p # rest"
    by (metis length_char_indices length_greater_0_conv neq_Nil_conv)
  then have "p = char_indices text ! 0" by simp
  then have p: "p = (0, length (chars text ! 0))" using pos by (simp add: char_indices_nth)
  then show ?thesis using cs pos by (auto simp: rest_at_def char_off_Suc)
qed

lemma char_walker_new_at: "text \<noteq> [] \<Longrightarrow> walker_at text (char_walker_new text) 0"
  using char_indices_Cons [of "text"] by (auto simp: char_walker_new_def walker_at_def)

lemma anchor_at_finds:
  assumes "walker_at text w k" "char_off text k \<le> b" "b < length text"
  shows "\<exists>w' n. anchor_at w b = (w', char_off text n, n) \<and> walker_at text w' n \<and> char_at text b n"
  using assms walk_to_finds [of "text" "cw_iter w" k b]
  by (auto simp: anchor_at_def walker_at_def Let_def)

lemma char_off_suffix:
  "char_off (drop (char_off text k) text) i + char_off text k = char_off text (k + i)"
proof -
  have "take (k + i) (chars text) = take k (chars text) @ take i (drop k (chars text))"
    by (rule take_add)
  then show ?thesis by (simp add: char_off_def [of _ i] chars_drop_off) (simp add: char_off_def)
qed

lemma char_cursor_new_at:
  assumes "k < char_count text"
  shows "\<exists>c. char_cursor_new text (char_off text k) k = Ok c \<and> cursor_at text c k"
proof -
  let ?suf = "drop (char_off text k) text"
  have slice: "(str_slice text (char_off text k) (length text) :: str res) = Ok ?suf"
    using char_off_le [of "text" k] boundary_char_off [of "text" k]
    by (simp add: str_slice_def is_char_boundary_def)
  have cs: "chars ?suf = drop k (chars text)" by (rule chars_drop_off)
  have nonempty: "?suf \<noteq> []" using char_off_less_length [OF assms] by simp
  then obtain l rest where ci: "char_indices ?suf = (0, l) # rest" and l: "l = char_off ?suf (Suc 0)"
    using char_indices_Cons by blast
  have "map (\<lambda>(o', l). (char_off text k + o', l)) (char_indices ?suf) = drop k (char_indices text)"
    by (rule nth_equalityI)
      (auto simp: cs char_indices_nth char_off_suffix add.commute [of "char_off text k"])
  then have "map (\<lambda>(o', l). (char_off text k + o', l)) rest = drop (Suc k) (char_indices text)"
    using ci by (metis drop_Suc list.map(2) list.sel(3) tl_drop)
  moreover have "char_off text k + l = char_off text (Suc k)"
    using char_off_suffix [of "text" k "Suc 0"] l by simp
  ultimately show ?thesis
    using assms slice ci by (simp add: char_cursor_new_def cursor_at_def rest_at_def)
qed

section \<open>What the fused scan records\<close>

definition cp_ok :: "str \<Rightarrow> bool \<Rightarrow> nat \<Rightarrow> span_checkpoint \<Rightarrow> bool" where
  "cp_ok text ascii b cp \<longleftrightarrow>
     cp_byte cp = b \<and> (\<not> ascii \<longrightarrow> char_at text b (cp_anchor_char cp)
       \<and> cp_anchor_byte cp = char_off text (cp_anchor_char cp))"

lemma stride_pos: "0 < span_checkpoint_stride"
  by (simp add: span_checkpoint_stride_def)

text \<open>How many checkpoints come before token \<open>i\<close>.\<close>

definition cps_before :: "nat \<Rightarrow> nat" where
  "cps_before i = (i + span_checkpoint_stride - 1) div span_checkpoint_stride"

lemma cps_before_multiple: "i mod span_checkpoint_stride = 0 \<Longrightarrow> cps_before i = i div span_checkpoint_stride"
proof -
  assume "i mod span_checkpoint_stride = 0"
  then obtain q where i: "i = span_checkpoint_stride * q" by (auto simp: mod_eq_0_iff_dvd)
  have "(span_checkpoint_stride * q + (span_checkpoint_stride - 1)) div span_checkpoint_stride = q"
    using stride_pos by (simp only: div_mult_self4 div_mult_self2) simp
  moreover have "i + span_checkpoint_stride - 1 = span_checkpoint_stride * q + (span_checkpoint_stride - 1)"
    using i stride_pos by simp
  ultimately have "cps_before i = q" by (simp only: cps_before_def)
  then show ?thesis using i stride_pos by simp
qed

lemma cps_before_Suc:
  "cps_before (Suc i) = cps_before i + (if i mod span_checkpoint_stride = 0 then 1 else 0)"
proof -
  let ?s = span_checkpoint_stride
  have S: "cps_before (Suc i) = i div ?s + 1"
    using stride_pos by (simp add: cps_before_def div_add_self2)
  show ?thesis
  proof (cases "i mod ?s = 0")
    case True
    with S show ?thesis by (simp add: cps_before_multiple)
  next
    case False
    have "i + ?s - 1 = (i mod ?s - 1) + (i div ?s + 1) * ?s"
    proof -
      have "i = i div ?s * ?s + i mod ?s" by simp
      moreover have "(i div ?s + 1) * ?s = i div ?s * ?s + ?s" by simp
      ultimately show ?thesis using False stride_pos by linarith
    qed
    moreover have "i mod ?s - 1 < ?s"
      using stride_pos mod_less_divisor [of ?s i] by linarith
    ultimately have "cps_before i = i div ?s + 1"
      by (simp only: cps_before_def div_mult_self1) simp
    with S False show ?thesis by simp
  qed
qed

lemma checkpoint_at_ok:
  assumes "b < length text" "walker_at text w k" "char_off text k \<le> b"
  shows "\<exists>w' cps k'. checkpoint_at ascii i b w = (w', cps) \<and> walker_at text w' k' \<and> char_off text k' \<le> b
    \<and> length cps = cps_before (Suc i) - cps_before i
    \<and> (i mod span_checkpoint_stride = 0 \<longrightarrow> (\<exists>cp. cps = [cp] \<and> cp_ok text ascii b cp))"
proof (cases "i mod span_checkpoint_stride = 0 \<and> \<not> ascii")
  case True
  obtain w' n where "anchor_at w b = (w', char_off text n, n)" "walker_at text w' n" "char_at text b n"
    using anchor_at_finds [OF assms(2,3,1)] by blast
  with True show ?thesis
    by (auto simp: checkpoint_at_def cps_before_Suc cp_ok_def char_at_def intro!: exI [of _ n])
next
  case False
  with assms show ?thesis
    by (auto simp: checkpoint_at_def cps_before_Suc cp_ok_def intro!: exI [of _ k])
qed

lemma scan_checkpoints_known:
  "scan_checkpoints ascii table i b w ids = Ok (final, cps) \<Longrightarrow>
     tokens_known table ids \<and> final = b + tokens_len table ids \<and> (ids \<noteq> [] \<longrightarrow> final \<le> u64_max)"
proof (induction ids arbitrary: i b w cps)
  case Nil
  then show ?case by simp
next
  case (Cons t ids)
  from Cons.prems obtain w' c rest where
    t: "unat t < length table" "0 < table ! unat t" and b: "b + table ! unat t \<le> u64_max"
    and scan: "scan_checkpoints ascii table (Suc i) (b + table ! unat t) w' ids = Ok (final, rest)"
    by (auto simp: rbind_eq_Ok Let_def split: prod.splits)
  from Cons.IH [OF scan] t b show ?case by (cases ids) auto
qed

lemma scan_checkpoints_ok:
  assumes "scan_checkpoints ascii table i b w ids = Ok (length text, cps)"
    "walker_at text w k" "char_off text k \<le> b"
    "j < length ids" "(i + j) mod span_checkpoint_stride = 0"
  shows "(i + j) div span_checkpoint_stride - cps_before i < length cps \<and>
    cp_ok text ascii (b + tokens_len table (take j ids)) (cps ! ((i + j) div span_checkpoint_stride - cps_before i))"
  using assms
proof (induction ids arbitrary: i b w k j cps)
  case Nil
  then show ?case by simp
next
  case (Cons t ids)
  from Cons.prems(1) obtain w' c rest where at: "checkpoint_at ascii i b w = (w', c)"
    and scan: "scan_checkpoints ascii table (Suc i) (b + table ! unat t) w' ids = Ok (length text, rest)"
    and t: "0 < table ! unat t" and cps: "cps = c @ rest"
    by (auto simp: rbind_eq_Ok Let_def split: prod.splits)
  have bl: "b < length text" using scan_checkpoints_known [OF scan] t by auto
  from checkpoint_at_ok [OF bl Cons.prems(2,3), of ascii i] at
  obtain k' where w': "walker_at text w' k'" "char_off text k' \<le> b"
    and len: "length c = cps_before (Suc i) - cps_before i"
    and cp: "i mod span_checkpoint_stride = 0 \<Longrightarrow> \<exists>cp. c = [cp] \<and> cp_ok text ascii b cp"
    by auto
  show ?case
  proof (cases j)
    case 0
    with cp Cons.prems(5) cps show ?thesis by (auto simp: cps_before_multiple)
  next
    case (Suc m)
    have ge: "cps_before (Suc i) \<le> (i + j) div span_checkpoint_stride"
    proof -
      have "cps_before (Suc i) \<le> cps_before (i + j)"
        unfolding cps_before_def using Suc by (intro div_le_mono) simp
      with Cons.prems(5) show ?thesis by (simp add: cps_before_multiple)
    qed
    have "char_off text k' \<le> b + table ! unat t" using w' by simp
    from Cons.IH [OF scan w'(1) this, of m] Cons.prems(4,5) Suc
    have IH: "(i + j) div span_checkpoint_stride - cps_before (Suc i) < length rest"
      "cp_ok text ascii (b + table ! unat t + tokens_len table (take m ids))
         (rest ! ((i + j) div span_checkpoint_stride - cps_before (Suc i)))"
      by simp_all
    have "(i + j) div span_checkpoint_stride - cps_before i
        = length c + ((i + j) div span_checkpoint_stride - cps_before (Suc i))"
      using len ge cps_before_Suc [of i] by simp
    with IH cps Suc show ?thesis by (simp add: nth_append add.assoc)
  qed
qed

lemma build_span_checkpoints_known:
  assumes "build_span_checkpoints text n ids table = Ok cps"
  shows "tokens_known table ids" "tokens_len table ids = length text" "ids \<noteq> [] \<Longrightarrow> length text \<le> u64_max"
  using assms
  by (auto simp: build_span_checkpoints_def rbind_eq_Ok dest!: scan_checkpoints_known split: if_splits)

lemma build_span_checkpoints_nth:
  assumes b: "build_span_checkpoints text (char_count text) ids table = Ok cps" and lo: "lo < length ids"
  defines "q \<equiv> lo div span_checkpoint_stride"
  shows "q < length cps"
    "cp_ok text (length text = char_count text) (tokens_len table (take (q * span_checkpoint_stride) ids)) (cps ! q)"
proof -
  let ?a = "length text = char_count text"
  have scan: "scan_checkpoints ?a table 0 0 (char_walker_new text) ids = Ok (length text, cps)"
    using b by (auto simp: build_span_checkpoints_def rbind_eq_Ok split: if_splits)
  have "ids \<noteq> []" using lo by auto
  then have "0 < tokens_len table ids"
    using build_span_checkpoints_known(1) [OF b] by (cases ids) auto
  then have "text \<noteq> []" using build_span_checkpoints_known(2) [OF b] by auto
  then have w: "walker_at text (char_walker_new text) 0" by (rule char_walker_new_at)
  have z: "cps_before 0 = 0" using stride_pos by (simp add: cps_before_def)
  have "q * span_checkpoint_stride \<le> lo" by (simp add: q_def)
  then have "q * span_checkpoint_stride < length ids" using lo by linarith
  from scan_checkpoints_ok [OF scan w _ this] z stride_pos
  show "q < length cps"
    "cp_ok text ?a (tokens_len table (take (q * span_checkpoint_stride) ids)) (cps ! q)"
    by simp_all
qed

section \<open>Windows\<close>

lemma skip_tokens_ok:
  "tokens_known table ids \<Longrightarrow> b + tokens_len table ids \<le> u64_max \<Longrightarrow>
     skip_tokens table b ids = Ok (b + tokens_len table ids)"
  by (induction ids arbitrary: b) (auto simp: ok_or_def checked_add64_def)

lemma ascii_window_ok:
  assumes "length text = char_count text" "length text \<le> u32_max" "tokens_known table ids"
    "b + tokens_len table ids \<le> length text"
  shows "ascii_window table (length text) b ids = Ok (naive_from text table b ids)"
  using assms
proof (induction ids arbitrary: b)
  case Nil
  then show ?case by simp
next
  case (Cons t ids)
  let ?l = "table ! unat t"
  have l: "0 < ?l" "b + ?l \<le> length text" using Cons.prems by auto
  have s: "char_of_byte text ! b = b" and e: "char_of_byte text ! (b + ?l - 1) = b + ?l - 1"
    using Cons.prems(1) l by (auto intro!: char_of_byte_at char_at_ascii)
  have "ascii_window table (length text) (b + ?l) ids = Ok (naive_from text table (b + ?l) ids)"
    using Cons by simp
  then show ?case
    using Cons.prems l s e by (simp add: checked_add64_def case_prod_beta Let_def)
qed

lemma char_window_ok:
  assumes "char_count text \<le> u32_max" "length text \<le> u64_max" "tokens_known table ids"
    "b + tokens_len table ids \<le> length text"
    "ids \<noteq> [] \<Longrightarrow> cursor_at text c k \<and> char_off text k \<le> b"
  shows "char_window table c b ids = Ok (naive_from text table b ids)"
  using assms
proof (induction ids arbitrary: b c k)
  case Nil
  then show ?case by simp
next
  case (Cons t ids)
  let ?l = "table ! unat t"
  have l: "0 < ?l" "b + ?l \<le> length text" "b < length text" using Cons.prems by auto
  obtain c1 n where c1: "char_containing c b = (c1, Some n)" "cursor_at text c1 n" "char_at text b n"
    using char_containing_finds [of "text" c k b] Cons.prems(5) l by auto
  have "char_off text n \<le> b + ?l - 1" "b + ?l - 1 < length text" using c1(3) l by (auto simp: char_at_def)
  from char_containing_finds [OF c1(2) this]
  obtain c2 m where c2: "char_containing c1 (b + ?l - 1) = (c2, Some m)" "cursor_at text c2 m"
    "char_at text (b + ?l - 1) m" by auto
  have m: "m < u32_max" using c2(3) Cons.prems(1) by (simp add: char_at_def)
  have "char_off text m \<le> b + ?l" using c2(3) unfolding char_at_def by linarith
  then have "char_window table c2 (b + ?l) ids = Ok (naive_from text table (b + ?l) ids)"
    using Cons.IH [of "b + ?l" c2 m] Cons.prems c2(2) by (simp add: add.assoc)
  then show ?case
    using Cons.prems l m c1 c2 char_of_byte_at [OF c1(3)] char_of_byte_at [OF c2(3)]
    by (simp add: checked_add64_def case_prod_beta Let_def)
qed

text \<open>
  The main fact of the lazy path: on a row that the scan accepted, the window \<open>[lo, hi)\<close> is
  rebuilt without an error and is the window of the full conversion.
\<close>

lemma rebuild_span_window_ok:
  assumes b: "build_span_checkpoints text (char_count text) ids table = Ok cps"
    and u32: "char_count text \<le> u32_max" and w: "lo \<le> hi" "hi \<le> length ids"
  shows "rebuild_span_window text (char_count text) table cps ids lo hi =
    Ok (take (hi - lo) (drop lo (fst (naive_spans text table ids))),
        take (hi - lo) (drop lo (snd (naive_spans text table ids))))"
proof (cases "lo = hi")
  case True
  then show ?thesis by (simp add: rebuild_span_window_def)
next
  case False
  let ?q = "lo div span_checkpoint_stride" and ?a = "length text = char_count text"
  let ?base = "?q * span_checkpoint_stride" and ?win = "take (hi - lo) (drop lo ids)"
  have lo: "lo < length ids" using w False by simp
  note known = build_span_checkpoints_known [OF b]
  note cp = build_span_checkpoints_nth [OF b lo]
  have le: "?base \<le> lo" by simp
  have "ids \<noteq> []" using lo by auto
  then have u64: "length text \<le> u64_max" by (rule known(3))
  have byte: "tokens_len table (take ?base ids) + tokens_len table (take (lo - ?base) (drop ?base ids))
      = tokens_len table (take lo ids)"
    using le by (metis le_add_diff_inverse take_add tokens_len_simps(3))
  have len: "tokens_len table (take lo ids) + tokens_len table ?win \<le> length text"
    using tokens_len_split [of table lo ids] tokens_len_split [of table "hi - lo" "drop lo ids"] known(2)
    by simp
  have skip: "skip_tokens table (cp_byte (cps ! ?q)) (take (lo - ?base) (drop ?base ids))
      = Ok (tokens_len table (take lo ids))"
    using skip_tokens_ok [of table "take (lo - ?base) (drop ?base ids)" "cp_byte (cps ! ?q)"]
      cp(2) known(1) byte len u64 by (simp add: cp_ok_def)
  have "(if ?a then ascii_window table (length text) (tokens_len table (take lo ids)) ?win
      else rbind (char_cursor_new text (cp_anchor_byte (cps ! ?q)) (cp_anchor_char (cps ! ?q)))
        (\<lambda>cursor. char_window table cursor (tokens_len table (take lo ids)) ?win))
    = Ok (naive_from text table (tokens_len table (take lo ids)) ?win)"
  proof (cases ?a)
    case True
    have "length text \<le> u32_max" using True u32 by simp
    from ascii_window_ok [OF True this, of table ?win "tokens_len table (take lo ids)"] known(1) len True
    show ?thesis by simp
  next
    case na: False
    let ?k = "cp_anchor_char (cps ! ?q)"
    have k: "char_at text (tokens_len table (take ?base ids)) ?k"
      "cp_anchor_byte (cps ! ?q) = char_off text ?k"
      using cp(2) na by (auto simp: cp_ok_def)
    then obtain c where c: "char_cursor_new text (char_off text ?k) ?k = Ok c" "cursor_at text c ?k"
      using char_cursor_new_at [of ?k "text"] by (auto simp: char_at_def)
    have "char_off text ?k \<le> tokens_len table (take lo ids)"
      using k(1) byte by (simp add: char_at_def)
    with na k c known(1) len u32 u64 show ?thesis by (simp add: char_window_ok)
  qed
  then show ?thesis
    using cp(1) False w lo le skip naive_from_window [OF w, of "text" table 0]
    by (simp add: rebuild_span_window_def Let_def naive_spans_def)
qed

end
