(* ===== verification/TailOps.thy ===== *)
theory TailOps
  imports TailSpans
begin

text \<open>
  The invariant of a tail and what every operation of \<^verbatim>\<open>TailState\<close> does to it: which token row,
  text and spans result, that a refused operation changes nothing, and that no operation panics
  on a tail that satisfies the invariant.
\<close>

section \<open>The invariant\<close>

definition spans_wf :: "str \<Rightarrow> nat \<Rightarrow> u32 list \<Rightarrow> tail_spans \<Rightarrow> bool" where
  "spans_wf text n ids sp =
     (case sp of
        Materialized start end \<Rightarrow>
          length start = length ids \<and> length end = length ids \<and> list_all (span_ok n) (zip start end)
      | Lazy table cps cache \<Rightarrow>
          build_span_checkpoints text n ids table = Ok cps
          \<and> (cache = None \<or> cache = Some (naive_spans text table ids)))"

definition tail_wf :: "tail_state \<Rightarrow> bool" where
  "tail_wf t \<longleftrightarrow>
     valid_utf8 (tl_text t) \<and> tl_chars t = char_count (tl_text t) \<and> tl_chars t \<le> u32_max
     \<and> (case tl_ids t of Owned _ \<Rightarrow> True | SharedRow v \<Rightarrow> shared_wf v)
     \<and> spans_wf (tl_text t) (tl_chars t) (ids_of t) (tl_spans t)"

text \<open>The spans a tail stands for, whatever its storage.\<close>

definition spans_of :: "tail_state \<Rightarrow> nat list \<times> nat list" where
  "spans_of t =
     (case tl_spans t of
        Materialized start end \<Rightarrow> (start, end)
      | Lazy table _ _ \<Rightarrow> naive_spans (tl_text t) table (ids_of t))"

lemma tail_new_wf [simp]: "tail_wf tail_new"
  by (simp add: tail_wf_def tail_new_def spans_wf_def)

lemma tail_new_simps [simp]:
  "tl_text tail_new = []" "tl_ids tail_new = Owned []" "tl_chars tail_new = 0"
  by (simp_all add: tail_new_def)

lemma chars_u32_Ok [simp]: "chars_u32 text = Ok n \<longleftrightarrow> n = char_count text \<and> n \<le> u32_max"
  by (auto simp: chars_u32_def)

lemma chars_u32_no_panic [simp]: "chars_u32 text \<noteq> Panic"
  by (simp add: chars_u32_def)

lemma naive_spans_ok:
  assumes "tokens_known table ids" "b + tokens_len table ids \<le> length text"
  shows "list_all (span_ok (char_count text))
    (zip (fst (naive_from text table b ids)) (snd (naive_from text table b ids)))"
  using assms
proof (induction ids arbitrary: b)
  case Nil
  then show ?case by simp
next
  case (Cons t ids)
  let ?l = "table ! unat t"
  have l: "0 < ?l" "b + ?l \<le> length text" using Cons.prems by auto
  obtain n m where n: "char_at text b n" and m: "char_at text (b + ?l - 1) m"
    using char_at_exists [of b "text"] char_at_exists [of "b + ?l - 1" "text"] l by fastforce
  have "n \<le> m"
  proof (rule ccontr)
    assume "\<not> n \<le> m"
    then have "char_off text (Suc m) \<le> char_off text n" by (intro char_off_mono) simp
    with n m l show False unfolding char_at_def by linarith
  qed
  then show ?case
    using Cons m char_of_byte_at [OF n] char_of_byte_at [OF m]
    by (simp add: Let_def case_prod_beta span_ok_def char_at_def)
qed

lemma spans_of_wf:
  assumes "tail_wf t"
  shows "length (fst (spans_of t)) = n_tokens t" "length (snd (spans_of t)) = n_tokens t"
    "list_all (span_ok (tl_chars t)) (zip (fst (spans_of t)) (snd (spans_of t)))"
proof -
  show "length (fst (spans_of t)) = n_tokens t" "length (snd (spans_of t)) = n_tokens t"
    using assms by (auto simp: tail_wf_def spans_wf_def spans_of_def naive_spans_def split: tail_spans.splits)
  show "list_all (span_ok (tl_chars t)) (zip (fst (spans_of t)) (snd (spans_of t)))"
  proof (cases "tl_spans t")
    case (Materialized s e)
    with assms have "list_all (span_ok (tl_chars t)) (zip s e)"
      unfolding tail_wf_def spans_wf_def by auto
    with Materialized show ?thesis by (simp add: spans_of_def)
  next
    case (Lazy table cps cache)
    then have b: "build_span_checkpoints (tl_text t) (char_count (tl_text t)) (ids_of t) table = Ok cps"
      using assms by (auto simp: tail_wf_def spans_wf_def)
    from naive_spans_ok [of table "ids_of t" 0] build_span_checkpoints_known [OF b] Lazy assms
    show ?thesis by (simp add: spans_of_def naive_spans_def tail_wf_def)
  qed
qed

section \<open>Reading the spans\<close>

lemma forced_spans_ok: "tail_wf t \<Longrightarrow> forced_spans t = Ok (spans_of t)"
proof (cases "tl_spans t")
  case (Materialized s e)
  then show ?thesis by (simp add: forced_spans_def spans_of_def)
next
  case (Lazy table cps cache)
  assume wf: "tail_wf t"
  with Lazy have b: "build_span_checkpoints (tl_text t) (char_count (tl_text t)) (ids_of t) table = Ok cps"
    and u: "char_count (tl_text t) \<le> u32_max" and c: "tl_chars t = char_count (tl_text t)"
    and cache: "cache = None \<or> cache = Some (naive_spans (tl_text t) table (ids_of t))"
    by (auto simp: tail_wf_def spans_wf_def)
  have len: "length (fst (naive_spans (tl_text t) table (ids_of t))) = n_tokens t"
    "length (snd (naive_spans (tl_text t) table (ids_of t))) = n_tokens t"
    by (simp_all add: naive_spans_def)
  from rebuild_span_window_ok [OF b u, of 0 "n_tokens t"] len
  have "rebuild_span_window (tl_text t) (tl_chars t) table cps (ids_of t) 0 (n_tokens t)
      = Ok (naive_spans (tl_text t) table (ids_of t))"
    using c by simp
  with Lazy cache show ?thesis by (auto simp: forced_spans_def spans_of_def)
qed

lemma force_cache_wf: "tail_wf t \<Longrightarrow> tail_wf (force_cache t) \<and> spans_of (force_cache t) = spans_of t"
  using forced_spans_ok [of t]
  by (auto simp: force_cache_def tail_wf_def spans_wf_def spans_of_def split: tail_spans.splits option.splits)

lemma span_window_ok:
  assumes "tail_wf t" "lo \<le> hi" "hi \<le> n_tokens t"
  shows "span_window t lo hi = Ok (take (hi - lo) (drop lo (fst (spans_of t))),
                                   take (hi - lo) (drop lo (snd (spans_of t))))"
proof (cases "tl_spans t")
  case (Materialized s e)
  with assms show ?thesis
    by (simp add: span_window_def pair_slice_def spans_of_def tail_wf_def spans_wf_def)
next
  case (Lazy table cps cache)
  have b: "build_span_checkpoints (tl_text t) (char_count (tl_text t)) (ids_of t) table = Ok cps"
    and u: "char_count (tl_text t) \<le> u32_max" and c: "tl_chars t = char_count (tl_text t)"
    and cache: "cache = None \<or> cache = Some (naive_spans (tl_text t) table (ids_of t))"
    using assms(1) Lazy by (auto simp: tail_wf_def spans_wf_def)
  from rebuild_span_window_ok [OF b u assms(2,3)] c cache Lazy assms
  show ?thesis
    by (auto simp: span_window_def spans_of_def pair_slice_def naive_spans_def)
qed

lemma span_window_no_panic: "tail_wf t \<Longrightarrow> span_window t lo hi \<noteq> Panic"
  by (cases "lo \<le> hi \<and> hi \<le> n_tokens t") (auto simp: span_window_ok, auto simp: span_window_def)

section \<open>Filling and splicing\<close>

lemma fst_commit: "fst (commit s r) = (case r of Ok s' \<Rightarrow> s' | _ \<Rightarrow> s)"
  by (cases r) auto

lemma snd_commit: "snd (commit s r) = Ok u \<longleftrightarrow> (\<exists>s'. r = Ok s')"
  by (cases r) auto

lemma commit_Ok: "commit s r = (s', Ok u) \<longleftrightarrow> r = Ok s'"
  by (cases r) auto

lemma commit_error: "commit s r = (s', x) \<Longrightarrow> x \<noteq> Ok () \<Longrightarrow> s' = s"
  by (cases r) auto

lemma zip_map_fst_snd: "zip (map fst ps) (map snd ps) = ps"
  by (induction ps) auto

lemma fill_state_Ok:
  assumes "fill_state text enc = Ok t" "valid_utf8 text"
  shows "tail_wf t" "tl_text t = text" "ids_of t = enc_ids enc"
    "spans_of t = (map fst (enc_spans enc), map snd (enc_spans enc))" "tail_shared_ids t = None"
  using assms
  by (auto simp: fill_state_def rbind_eq_Ok tail_wf_def spans_wf_def spans_of_def zip_map_fst_snd
      tail_shared_ids_def)

lemma fill_state_no_panic [simp]: "fill_state text enc \<noteq> Panic"
  by (simp add: fill_state_def rbind_eq_Panic)

lemma fill_soa_state_Ok:
  assumes "fill_soa_state text enc = Ok t" "valid_utf8 text"
  shows "tail_wf t" "tl_text t = text" "ids_of t = soa_ids enc"
    "spans_of t = (soa_starts enc, soa_ends enc)" "tail_shared_ids t = None"
  using assms
  by (auto simp: fill_soa_state_def rbind_eq_Ok tail_wf_def spans_wf_def spans_of_def tail_shared_ids_def)

lemma fill_soa_state_no_panic [simp]: "fill_soa_state text enc \<noteq> Panic"
  by (simp add: fill_soa_state_def rbind_eq_Panic)

lemma fill_shared_state_Ok:
  assumes "fill_shared_state text ids starts ends = Ok t" "valid_utf8 text" "shared_wf ids"
  shows "tail_wf t" "tl_text t = text" "ids_of t = as_slice ids" "spans_of t = (starts, ends)"
    "tail_shared_ids t = Some ids"
  using assms
  by (auto simp: fill_shared_state_def rbind_eq_Ok tail_wf_def spans_wf_def spans_of_def
      tail_shared_ids_def split: if_splits)

lemma fill_shared_state_no_panic [simp]: "fill_shared_state text ids starts ends \<noteq> Panic"
  by (simp add: fill_shared_state_def rbind_eq_Panic)

lemma fill_lazy_state_Ok:
  assumes "fill_lazy_state text ids table = Ok t" "valid_utf8 text" "shared_wf ids"
  shows "tail_wf t" "tl_text t = text" "ids_of t = as_slice ids"
    "spans_of t = naive_spans text table (as_slice ids)" "tail_shared_ids t = Some ids"
  using assms
  by (auto simp: fill_lazy_state_def rbind_eq_Ok tail_wf_def spans_wf_def spans_of_def tail_shared_ids_def)

lemma materialize_spans_ok:
  assumes "tail_wf t"
  shows "materialize_spans t = Ok (t\<lparr>tl_spans := Materialized (fst (spans_of t)) (snd (spans_of t))\<rparr>)"
proof (cases "tl_spans t")
  case (Materialized s e)
  then show ?thesis by (simp add: materialize_spans_def spans_of_def)
next
  case (Lazy table cps cache)
  then show ?thesis
    using forced_spans_ok [OF assms] by (simp add: materialize_spans_def case_prod_beta)
qed

lemma span_ok_mono: "span_ok m p \<Longrightarrow> m \<le> n \<Longrightarrow> span_ok n p"
  by (auto simp: span_ok_def)

lemma list_all_take: "list_all P xs \<Longrightarrow> list_all P (take n xs)"
  by (auto simp: list_all_iff dest: in_set_takeD)

lemma splice_state_iff:
  assumes "tail_wf t"
  shows "splice_state t k delta new = Ok t' \<longleftrightarrow>
    k \<le> n_tokens t \<and> tl_chars t + char_count delta \<le> u32_max
    \<and> length (enc_ids new) = length (enc_spans new)
    \<and> list_all (span_ok (tl_chars t + char_count delta)) (enc_spans new)
    \<and> t' = \<lparr>tl_text = tl_text t @ delta, tl_chars = tl_chars t + char_count delta,
            tl_ids = Owned (take k (ids_of t) @ enc_ids new),
            tl_spans = Materialized (take k (fst (spans_of t)) @ map fst (enc_spans new))
                                    (take k (snd (spans_of t)) @ map snd (enc_spans new))\<rparr>"
  using materialize_spans_ok [OF assms] by (auto simp: splice_state_def rbind_eq_Ok Let_def)

lemma splice_state_wf:
  assumes wf: "tail_wf t" and "splice_state t k delta new = Ok t'" and delta: "valid_utf8 delta"
  shows "tail_wf t'"
proof -
  note s = splice_state_iff [OF wf, THEN iffD1, OF assms(2)]
  note sp = spans_of_wf [OF wf]
  let ?n = "tl_chars t + char_count delta"
  have "list_all (span_ok ?n) (take k (zip (fst (spans_of t)) (snd (spans_of t))))"
    using sp(3) span_ok_mono [of "tl_chars t" _ ?n] by (fastforce simp: list_all_iff dest: in_set_takeD)
  then have old: "list_all (span_ok ?n) (zip (take k (fst (spans_of t))) (take k (snd (spans_of t))))"
    by (simp add: take_zip)
  have "chars (tl_text t @ delta) = chars (tl_text t) @ chars delta"
    using delta by (rule chars_append_valid)
  with s wf delta old sp(1,2) show ?thesis
    by (auto simp: tail_wf_def spans_wf_def zip_map_fst_snd)
qed

lemma splice_state_no_panic: "tail_wf t \<Longrightarrow> splice_state t k delta new \<noteq> Panic"
  using materialize_spans_ok [of t] by (simp add: splice_state_def rbind_eq_Panic Let_def)

section \<open>The byte offset of a character\<close>

lemma scan_back_cont:
  "\<forall>b \<in> set ys. is_cont b \<Longrightarrow> scan_back n cnt (ys @ rest) = scan_back n cnt rest"
  by (induction ys) auto

text \<open>One character, read backwards: its continuation bytes, then its first byte.\<close>

lemma scan_back_char:
  assumes "valid_scalar c \<or> (\<exists>b bs. c = b # bs \<and> \<not> is_cont b \<and> (\<forall>x \<in> set bs. is_cont x))"
    and "\<exists>b bs. c = b # bs \<and> (\<forall>x \<in> set bs. is_cont x)" and "\<not> is_cont (hd c)"
  shows "scan_back n cnt (rev c @ rest) =
    (if Suc cnt = n then length rest else scan_back n (Suc cnt) rest)"
proof -
  obtain b bs where c: "c = b # bs" "\<forall>x \<in> set bs. is_cont x" using assms(2) by blast
  then have "scan_back n cnt (rev c @ rest) = scan_back n cnt (b # rest)"
    using scan_back_cont [of "rev bs" n cnt "b # rest"] by simp
  with c assms(3) show ?thesis by simp
qed

lemma chars_shape: "c \<in> set (chars s) \<Longrightarrow> \<exists>b bs. c = b # bs \<and> (\<forall>x \<in> set bs. is_cont x)"
  by (induction s rule: chars.induct) (auto dest: set_takeWhileD)

lemma scan_back_concat:
  assumes "\<forall>c \<in> set cs. (\<exists>b bs. c = b # bs \<and> (\<forall>x \<in> set bs. is_cont x)) \<and> \<not> is_cont (hd c)"
    "cnt < n" "n - cnt \<le> length cs"
  shows "scan_back n cnt (rev (concat cs)) = length (concat (take (length cs - (n - cnt)) cs))"
  using assms
proof (induction cs arbitrary: cnt rule: rev_induct)
  case Nil
  then show ?case by simp
next
  case (snoc c cs)
  have "scan_back n cnt (rev c @ rev (concat cs)) =
      (if Suc cnt = n then length (rev (concat cs)) else scan_back n (Suc cnt) (rev (concat cs)))"
    using snoc.prems(1) by (intro scan_back_char) auto
  then show ?case
    using snoc.IH [of "Suc cnt"] snoc.prems by (auto simp: Suc_diff_le)
qed

lemma byte_ix_of_char_ok:
  assumes "valid_utf8 s"
  shows "byte_ix_of_char s (char_count s) n = char_off s n"
proof -
  consider "n = 0" | "char_count s \<le> n" "n \<noteq> 0" | "0 < n" "n < char_count s" by linarith
  then show ?thesis
  proof cases
    case 1
    then show ?thesis by (simp add: byte_ix_of_char_def)
  next
    case 2
    then show ?thesis by (simp add: byte_ix_of_char_def char_off_end)
  next
    case 3
    show ?thesis
    proof (cases "length s = char_count s")
      case True
      with 3 show ?thesis by (simp add: byte_ix_of_char_def char_off_ascii)
    next
      case False
      have "\<forall>c \<in> set (chars s). (\<exists>b bs. c = b # bs \<and> (\<forall>x \<in> set bs. is_cont x)) \<and> \<not> is_cont (hd c)"
        using assms chars_shape valid_scalar_hd by (auto simp: valid_utf8_def list_all_iff)
      from scan_back_concat [OF this, of 0 "char_count s - n"] 3
      have "scan_back (char_count s - n) 0 (rev s) = char_off s n"
        by (simp add: char_off_def)
      with 3 False show ?thesis by (simp add: byte_ix_of_char_def)
    qed
  qed
qed

end
