(* ===== verification/TailFacts.thy ===== *)
theory TailFacts
  imports TailOps
begin

text \<open>
  The properties of the tail: the invariant of its operations, the windows of lazily stored spans,
  the splice, and the byte offset of a character.
\<close>

section \<open>A tail with lazy spans\<close>

text \<open>
  The text "aez" with an accented e of two bytes, tokenised as "a" and "ez": byte lengths one and
  three.
\<close>

definition sample_row :: shared_ids where "sample_row = shared_from_vec 0 [0, 1]"

definition sample_tail :: tail_state where
  "sample_tail = (case fill_lazy_state [97, 195, 169, 122] sample_row [1, 3] of Ok t \<Rightarrow> t)"

lemma sample_text_valid: "valid_utf8 [97, 195, 169, 122]"
  by (simp add: valid_utf8_def is_cont_def)

lemma sample_tail_filled: "fill_lazy_state [97, 195, 169, 122] sample_row [1, 3] = Ok sample_tail"
  by (simp add: sample_tail_def fill_lazy_state_def sample_row_def chars_u32_def is_cont_def
      build_span_checkpoints_def char_walker_new_def char_indices_def checkpoint_at_def anchor_at_def
      span_checkpoint_stride_def lazy_token_len_def checked_add64_def)

lemma scan_checkpoints_accepts:
  "tokens_known table ids \<Longrightarrow> b + tokens_len table ids \<le> u64_max \<Longrightarrow>
     \<exists>cps. scan_checkpoints ascii table i b w ids = Ok (b + tokens_len table ids, cps)"
proof (induction ids arbitrary: i b w)
  case (Cons t ids)
  obtain w' c where at: "checkpoint_at ascii i b w = (w', c)" by (cases "checkpoint_at ascii i b w")
  have "b + table ! unat t \<le> u64_max" using Cons.prems by simp
  moreover obtain rest where "scan_checkpoints ascii table (Suc i) (b + table ! unat t) w' ids
      = Ok (b + table ! unat t + tokens_len table ids, rest)"
    using Cons.IH [of "b + table ! unat t" "Suc i" w'] Cons.prems by (auto simp: add.assoc)
  ultimately show ?case using Cons.prems at by (simp add: checked_add64_def add.assoc)
qed simp

section \<open>Lazy spans\<close>

text \<open>C31 A lazy fill accepts a row exactly when the text fits, every token has a known positive byte
  length, and the lengths add up to the text; then the tail holds the text and the row unchanged, and
  any window of its spans, rebuilt from the sparse checkpoints, is the window of the full
  byte-to-character conversion. A window outside the row is refused.\<close>

theorem lazy_spans_exact:
  assumes "valid_utf8 text" "shared_wf row" "length text \<le> u64_max"
  shows "((\<exists>t. fill_lazy_state text row table = Ok t) \<longleftrightarrow>
      char_count text \<le> u32_max \<and> tokens_known table (as_slice row) \<and> tokens_len table (as_slice row) = length text)
    \<and> (\<forall>t. fill_lazy_state text row table = Ok t \<longrightarrow>
         tl_text t = text \<and> ids_of t = as_slice row
         \<and> (\<forall>lo hi. if lo \<le> hi \<and> hi \<le> n_tokens t
              then span_window t lo hi =
                Ok (take (hi - lo) (drop lo (fst (naive_spans text table (as_slice row)))),
                    take (hi - lo) (drop lo (snd (naive_spans text table (as_slice row)))))
              else \<exists>m. span_window t lo hi = Err (InvalidInput m)))"
proof (intro conjI allI impI)
  have "\<exists>t. fill_lazy_state text row table = Ok t"
    if "char_count text \<le> u32_max" "tokens_known table (as_slice row)" "tokens_len table (as_slice row) = length text"
    using scan_checkpoints_accepts [of table "as_slice row" 0 "length text = char_count text" 0 "char_walker_new text"]
      that assms(3) by (auto simp: fill_lazy_state_def chars_u32_def build_span_checkpoints_def)
  moreover have "char_count text \<le> u32_max \<and> tokens_known table (as_slice row) \<and> tokens_len table (as_slice row) = length text"
    if "fill_lazy_state text row table = Ok t" for t
    using that build_span_checkpoints_known(1,2) by (auto simp: fill_lazy_state_def rbind_eq_Ok)
  ultimately show "(\<exists>t. fill_lazy_state text row table = Ok t) \<longleftrightarrow>
      char_count text \<le> u32_max \<and> tokens_known table (as_slice row) \<and> tokens_len table (as_slice row) = length text"
    by blast
next
  fix t lo hi assume "fill_lazy_state text row table = Ok t"
  note f = fill_lazy_state_Ok [OF this assms(1,2)]
  show "tl_text t = text" "ids_of t = as_slice row" using f by simp_all
  show "if lo \<le> hi \<and> hi \<le> n_tokens t
      then span_window t lo hi = Ok (take (hi - lo) (drop lo (fst (naive_spans text table (as_slice row)))),
                    take (hi - lo) (drop lo (snd (naive_spans text table (as_slice row)))))
      else \<exists>m. span_window t lo hi = Err (InvalidInput m)"
    using span_window_ok [OF f(1), of lo hi] f(4) by (auto simp: span_window_def)
qed

theorem lazy_spans_exact_witness:
  "span_window sample_tail 1 2 = Ok ([1], [3]) \<and> (\<exists>m. span_window sample_tail 1 3 = Err (InvalidInput m))"
proof -
  note w = lazy_spans_exact [OF sample_text_valid, of sample_row "[1, 3]", THEN conjunct2, THEN spec, THEN mp,
      OF _ _ sample_tail_filled]
  have "naive_spans [97, 195, 169, 122] [1, 3] [0, 1] = ([0, 1], [1, 3])"
    by (simp add: naive_spans_def char_of_byte_def is_cont_def)
  then show ?thesis
    using w [THEN conjunct2, THEN conjunct2, THEN spec, THEN spec, of 1 2] w [THEN conjunct2, THEN conjunct1]
      w [THEN conjunct2, THEN conjunct2, THEN spec, THEN spec, of 1 3]
    by (simp add: sample_row_def)
qed

section \<open>The invariant and the operations\<close>

lemma sample_tail_wf: "tail_wf sample_tail"
  using fill_lazy_state_Ok(1) [OF sample_tail_filled sample_text_valid] by (simp add: sample_row_def)

lemma commit_safe:
  assumes "tail_wf t" "\<And>t'. r = Ok t' \<Longrightarrow> tail_wf t'" "r \<noteq> Panic"
  shows "tail_wf (fst (commit t r)) \<and> snd (commit t r) \<noteq> Panic \<and> (snd (commit t r) \<noteq> Ok () \<longrightarrow> fst (commit t r) = t)"
  using assms by (cases r) simp_all

lemma fill_lazy_no_panic: "fill_lazy_state text row table \<noteq> Panic"
proof -
  have "scan_checkpoints ascii table i b w ids \<noteq> Panic" for ascii i b w ids
    by (induction ids arbitrary: i b w) (auto simp: rbind_eq_Panic Let_def split: prod.splits)
  then show ?thesis by (auto simp: fill_lazy_state_def build_span_checkpoints_def rbind_eq_Panic)
qed

text \<open>C33 Every operation that changes a tail keeps its invariant (valid text, exact counts, one
  well-formed span per token, checkpoints that belong to the row), never panics, and when it is refused
  leaves the tail as it was.\<close>

theorem tail_operations_safe:
  assumes "tail_wf t" "valid_utf8 x" "shared_wf row"
  shows "\<forall>r \<in> {fill t x enc, fill_soa t x soa, fill_shared t x row starts ends, fill_lazy t x row table,
      splice t k x new}. tail_wf (fst r) \<and> snd r \<noteq> Panic \<and> (snd r \<noteq> Ok () \<longrightarrow> fst r = t)"
proof -
  note c = commit_safe [OF assms(1)]
  have "tail_wf (fst (fill t x enc)) \<and> snd (fill t x enc) \<noteq> Panic \<and> (snd (fill t x enc) \<noteq> Ok () \<longrightarrow> fst (fill t x enc) = t)"
    unfolding fill_def by (rule c) (use fill_state_Ok assms in auto)
  moreover have "tail_wf (fst (fill_soa t x soa)) \<and> snd (fill_soa t x soa) \<noteq> Panic
      \<and> (snd (fill_soa t x soa) \<noteq> Ok () \<longrightarrow> fst (fill_soa t x soa) = t)"
    unfolding fill_soa_def by (rule c) (use fill_soa_state_Ok assms in auto)
  moreover have "tail_wf (fst (fill_shared t x row starts ends)) \<and> snd (fill_shared t x row starts ends) \<noteq> Panic
      \<and> (snd (fill_shared t x row starts ends) \<noteq> Ok () \<longrightarrow> fst (fill_shared t x row starts ends) = t)"
    unfolding fill_shared_def by (rule c) (use fill_shared_state_Ok assms in auto)
  moreover have "tail_wf (fst (fill_lazy t x row table)) \<and> snd (fill_lazy t x row table) \<noteq> Panic
      \<and> (snd (fill_lazy t x row table) \<noteq> Ok () \<longrightarrow> fst (fill_lazy t x row table) = t)"
    unfolding fill_lazy_def by (rule c) (use fill_lazy_state_Ok fill_lazy_no_panic assms in auto)
  moreover have "tail_wf (fst (splice t k x new)) \<and> snd (splice t k x new) \<noteq> Panic
      \<and> (snd (splice t k x new) \<noteq> Ok () \<longrightarrow> fst (splice t k x new) = t)"
    unfolding splice_def by (rule c) (use splice_state_wf splice_state_no_panic assms in auto)
  ultimately show ?thesis by simp
qed

theorem tail_operations_safe_witness:
  "tail_wf (fst (splice sample_tail 1 [98] \<lparr>enc_ids = [9], enc_spans = [(1, 4)]\<rparr>))
   \<and> fst (fill sample_tail [98] \<lparr>enc_ids = [9], enc_spans = [(0, 2)]\<rparr>) = sample_tail"
proof -
  have v: "valid_utf8 [98]" by (simp add: valid_utf8_def)
  have r: "snd (fill sample_tail [98] \<lparr>enc_ids = [9], enc_spans = [(0, 2)]\<rparr>) \<noteq> Ok ()"
    by (simp add: fill_def fill_state_def chars_u32_def encoding_validate_def span_ok_def)
  show ?thesis
    using tail_operations_safe [OF sample_tail_wf v, of sample_row "\<lparr>enc_ids = [9], enc_spans = [(0, 2)]\<rparr>"
        _ _ _ _ 1 "\<lparr>enc_ids = [9], enc_spans = [(1, 4)]\<rparr>"] r
    by (simp add: sample_row_def)
qed

text \<open>C32 A splice keeps the first tokens of the row with their spans, whatever their storage, replaces
  the rest by the new encoding and appends the text. It succeeds exactly when the cut lies in the row,
  the text still counts in 32 bits, and the new spans are well formed in the grown text.\<close>

theorem splice_exact:
  assumes "tail_wf t"
  shows "splice t k delta new = (t', Ok ()) \<longleftrightarrow>
    k \<le> n_tokens t \<and> tl_chars t + char_count delta \<le> u32_max \<and> length (enc_ids new) = length (enc_spans new)
    \<and> list_all (span_ok (tl_chars t + char_count delta)) (enc_spans new)
    \<and> t' = \<lparr>tl_text = tl_text t @ delta, tl_chars = tl_chars t + char_count delta,
            tl_ids = Owned (take k (ids_of t) @ enc_ids new),
            tl_spans = Materialized (take k (fst (spans_of t)) @ map fst (enc_spans new))
                                    (take k (snd (spans_of t)) @ map snd (enc_spans new))\<rparr>"
  unfolding splice_def commit_Ok by (rule splice_state_iff [OF assms])

theorem splice_exact_witness:
  "\<exists>t'. splice sample_tail 1 [98] \<lparr>enc_ids = [9], enc_spans = [(1, 4)]\<rparr> = (t', Ok ())
     \<and> ids_of t' = [0, 9] \<and> tl_text t' = [97, 195, 169, 122, 98]"
proof -
  note f = fill_lazy_state_Ok [OF sample_tail_filled sample_text_valid]
  have f': "tl_text sample_tail = [97, 195, 169, 122]" "ids_of sample_tail = [0, 1]" "tl_chars sample_tail = 3"
    using f sample_tail_wf by (simp_all add: sample_row_def tail_wf_def is_cont_def)
  show ?thesis
    using splice_exact [OF sample_tail_wf, of 1 "[98]" "\<lparr>enc_ids = [9], enc_spans = [(1, 4)]\<rparr>"] f'
    by (simp add: span_ok_def)
qed

section \<open>Offsets\<close>

text \<open>The byte offset of a character, found by the scan from the end of the text with its shortcut
  for pure ASCII, is the length of the characters before it; past the last character it is the length
  of the text.\<close>

theorem byte_ix_exact:
  assumes "valid_utf8 s"
  shows "byte_ix_of_char s (char_count s) n = length (concat (take n (chars s)))"
  using byte_ix_of_char_ok [OF assms, of n] by (simp add: char_off_def)

theorem byte_ix_exact_witness: "byte_ix_of_char [97, 195, 169, 122] 3 2 = 3"
  using byte_ix_exact [OF sample_text_valid, of 2] by (simp add: is_cont_def numeral_3_eq_3)

end
