(* ===== verification/Encoder.thy ===== *)
theory Encoder
  imports TailOps
begin

text \<open>
  The encoder a store operation runs against (\<^verbatim>\<open>trait SessionEncoder\<close> of \<^verbatim>\<open>engine.rs\<close>), a parameter
  of the store: the record of its four methods. An engine error is its message.
\<close>

record encoder =
  eng_encode :: "str \<Rightarrow> (string, encoding) outcome"
  eng_append :: "tail_state \<Rightarrow> str \<Rightarrow> tail_state \<times> (string, append_report) outcome"
  eng_boundary :: "tail_state \<Rightarrow> nat \<Rightarrow> nat \<Rightarrow> (string, boundary_cut option) outcome"
  eng_witness :: witness

text \<open>\<^verbatim>\<open>impl From<EngineError> for StoreError\<close>\<close>

fun from_engine :: "(string, 'a) outcome \<Rightarrow> 'a res" where
  "from_engine (Ok x) = Ok x"
| "from_engine (Err e) = Err (EngineErr e)"
| "from_engine Panic = Panic"

lemma from_engine_eq [simp]:
  "from_engine r = Ok x \<longleftrightarrow> r = Ok x"
  "from_engine r = Panic \<longleftrightarrow> r = Panic"
  by (cases r; simp)+

text \<open>
  \<^verbatim>\<open>trait OverlapRunner\<close>: how often one call of \<^verbatim>\<open>run_joined\<close> runs each of the two closures. The
  documented runner runs both once; the store is written to survive one that skips either.
\<close>

record overlap_runner =
  ov_background :: nat
  ov_foreground :: nat
  ov_worker_count :: nat

end
