(* ===== verification/Format.thy ===== *)
theory Format
  imports Errors
begin

text \<open>
  Store format v1 (\<^verbatim>\<open>format.rs\<close>): the record, its three hash constructions, the writer and the
  strict reader. SHA-256 is a parameter \<open>sha\<close>: the state of a hasher is the bytes it was fed,
  which is what the digest traits document (the result does not depend on how the input is cut
  into updates), and \<open>sha\<close> gives the digest of them.
\<close>

section \<open>Constants\<close>

definition bytes_of :: "string \<Rightarrow> u8 list" where
  "bytes_of s = map (\<lambda>c. of_nat (of_char c)) s"

definition MAGIC :: "u8 list" where "MAGIC = bytes_of ''TOKTIERS''"

abbreviation (input) FORMAT_VERSION :: nat where "FORMAT_VERSION \<equiv> 1"
abbreviation (input) FIXED_HEADER_LEN :: nat where "FIXED_HEADER_LEN \<equiv> 200"
abbreviation (input) HEADER_LEN_MAX :: nat where "HEADER_LEN_MAX \<equiv> 4096"
abbreviation (input) ENDIANNESS_LE :: u8 where "ENDIANNESS_LE \<equiv> 1"
abbreviation (input) MAX_FULL_TEXT_BYTES :: nat where "MAX_FULL_TEXT_BYTES \<equiv> 1099511627776"
abbreviation (input) MAX_TAIL_BYTES_OR_TOKENS :: nat where "MAX_TAIL_BYTES_OR_TOKENS \<equiv> 2147483648"
abbreviation (input) ZERO_HASH :: hash32 where "ZERO_HASH \<equiv> 0"

definition DOMAIN_PAYLOAD :: "u8 list" where "DOMAIN_PAYLOAD = bytes_of ''toktier.store.v1.payload'' @ [0]"
definition DOMAIN_LINK :: "u8 list" where "DOMAIN_LINK = bytes_of ''toktier.store.v1.link'' @ [0]"
definition DOMAIN_RECORD :: "u8 list" where "DOMAIN_RECORD = bytes_of ''toktier.store.v1.record'' @ [0]"

text \<open>The mandatory bits of \<^verbatim>\<open>flags\<close> are the low sixteen.\<close>

definition unknown_mandatory :: "nat \<Rightarrow> nat" where
  "unknown_mandatory flags = flags mod 65536"

section \<open>Identifiers as bytes\<close>

definition u32_le :: "u32 \<Rightarrow> u8 list" where
  "u32_le w = le_bytes 4 (unat w)"

function chunks_of :: "nat \<Rightarrow> 'a list \<Rightarrow> 'a list list" where
  "chunks_of n xs = (if xs = [] \<or> n = 0 then [] else take n xs # chunks_of n (drop n xs))"
  by pat_completeness auto
termination
  by (relation "measure (\<lambda>(n, xs). length xs)") auto

declare chunks_of.simps [simp del]

abbreviation (input) CHUNK_IDS :: nat where "CHUNK_IDS \<equiv> 4096"

text \<open>The blocks handed to \<^verbatim>\<open>consume\<close>, in order.\<close>

definition ids_le_chunks :: "u32 list \<Rightarrow> u8 list list" where
  "ids_le_chunks ids = map (\<lambda>chunk. concat (map u32_le chunk)) (chunks_of CHUNK_IDS ids)"

definition ids_le :: "u32 list \<Rightarrow> u8 list" where
  "ids_le ids = concat (map u32_le ids)"

text \<open>\<^verbatim>\<open>chunks_exact(4)\<close> with \<^verbatim>\<open>u32::from_le_bytes\<close>.\<close>

fun u32s_of :: "u8 list \<Rightarrow> u32 list" where
  "u32s_of (a # b # c # d # rest) = of_nat (of_le [a, b, c, d]) # u32s_of rest"
| "u32s_of _ = []"

section \<open>Hashing\<close>

definition payload_digest_parts :: "(u8 list \<Rightarrow> hash32) \<Rightarrow> u32 list list \<Rightarrow> u8 list \<Rightarrow> hash32" where
  "payload_digest_parts sha id_parts tail_text =
     sha (fold (\<lambda>part h. fold (\<lambda>block h. h @ block) (ids_le_chunks part) h) id_parts DOMAIN_PAYLOAD @ tail_text)"

text \<open>The running hasher of a sealed prefix: the bytes it has absorbed.\<close>

type_synonym payload_hasher = "u8 list"

definition payload_hasher_new :: payload_hasher where
  "payload_hasher_new = DOMAIN_PAYLOAD"

definition update_ids :: "payload_hasher \<Rightarrow> u32 list \<Rightarrow> payload_hasher" where
  "update_ids h ids = fold (\<lambda>block h. h @ block) (ids_le_chunks ids) h"

definition digest_with_tail :: "(u8 list \<Rightarrow> hash32) \<Rightarrow> payload_hasher \<Rightarrow> u32 list \<Rightarrow> u8 list \<Rightarrow> hash32" where
  "digest_with_tail sha h tail_ids tail_text =
     sha (fold (\<lambda>block h. h @ block) (ids_le_chunks tail_ids) h @ tail_text)"

record link_inputs =
  li_prev :: hash32
  li_fingerprint :: hash32
  li_revision :: nat
  li_full :: nat
  li_stable :: nat
  li_tail :: nat
  li_tokens :: nat
  li_replace :: nat
  li_witness :: witness
  li_digest :: hash32

definition link_preimage :: "link_inputs \<Rightarrow> u8 list" where
  "link_preimage i =
     DOMAIN_LINK @ hash_bytes (li_prev i) @ hash_bytes (li_fingerprint i) @ le_bytes 8 (li_revision i)
     @ le_bytes 8 (li_full i) @ le_bytes 8 (li_stable i) @ le_bytes 8 (li_tail i) @ le_bytes 8 (li_tokens i)
     @ le_bytes 8 (li_replace i) @ le_bytes 2 (witness_as_u16 (li_witness i)) @ hash_bytes (li_digest i)"

definition link_hash :: "(u8 list \<Rightarrow> hash32) \<Rightarrow> link_inputs \<Rightarrow> hash32" where
  "link_hash sha i = sha (link_preimage i)"

definition record_checksum :: "(u8 list \<Rightarrow> hash32) \<Rightarrow> u8 list \<Rightarrow> hash32 \<Rightarrow> hash32" where
  "record_checksum sha header_zeroed payload_digest =
     sha (DOMAIN_RECORD @ header_zeroed @ hash_bytes payload_digest)"

section \<open>The record\<close>

record session_record =
  r_fingerprint :: hash32
  r_witness :: witness
  r_revision :: nat
  r_prev :: hash32
  r_curr :: hash32
  r_stable :: nat
  r_replace :: nat
  r_ids :: "u32 list"
  r_tail :: str

definition full_text_bytes :: "session_record \<Rightarrow> nat" where
  "full_text_bytes r = r_stable r + length (r_tail r)"

definition check_writer_obligations :: "session_record \<Rightarrow> unit res" where
  "check_writer_obligations r =
     (let tail_len = length (r_tail r); token_count = length (r_ids r) in
      rbind (ok_or (checked_add64 (r_stable r) tail_len) (MalformedRecord ''full text byte length overflow'')) (\<lambda>full.
      if full > MAX_FULL_TEXT_BYTES then Err (MalformedRecord ''full_text_byte_length exceeds 2^40'')
      else if tail_len > MAX_TAIL_BYTES_OR_TOKENS then Err (MalformedRecord ''text_tail_byte_length exceeds 2^31'')
      else if token_count > MAX_TAIL_BYTES_OR_TOKENS then Err (MalformedRecord ''token_count exceeds 2^31'')
      else if r_replace r > token_count then Err (MalformedRecord ''replace_token_offset exceeds token_count'')
      else if r_witness r = NoneFullReencode \<and> (r_stable r \<noteq> 0 \<or> r_replace r \<noteq> 0)
      then Err (MalformedRecord ''witness category 0 requires zero stable prefix and replace offset'')
      else if (r_revision r = 0) \<noteq> (r_prev r = ZERO_HASH)
      then Err (MalformedRecord ''prev_block_hash must be all-zero exactly at revision 0'')
      else Ok ()))"

definition link_of :: "session_record \<Rightarrow> hash32 \<Rightarrow> link_inputs" where
  "link_of r digest =
     \<lparr>li_prev = r_prev r, li_fingerprint = r_fingerprint r, li_revision = r_revision r,
      li_full = full_text_bytes r, li_stable = r_stable r, li_tail = length (r_tail r),
      li_tokens = length (r_ids r), li_replace = r_replace r, li_witness = r_witness r, li_digest = digest\<rparr>"

definition compute_curr :: "(u8 list \<Rightarrow> hash32) \<Rightarrow> session_record \<Rightarrow> hash32" where
  "compute_curr sha r = link_hash sha (link_of r (payload_digest_parts sha [r_ids r] (r_tail r)))"

text \<open>The 200 header bytes with a given checksum slot.\<close>

definition header_bytes :: "session_record \<Rightarrow> hash32 \<Rightarrow> u8 list \<Rightarrow> u8 list" where
  "header_bytes r link checksum =
     MAGIC @ le_bytes 2 FORMAT_VERSION @ le_bytes 2 FIXED_HEADER_LEN @ le_bytes 4 0 @ [ENDIANNESS_LE] @ [0]
     @ le_bytes 2 (witness_as_u16 (r_witness r)) @ le_bytes 4 0 @ hash_bytes (r_fingerprint r)
     @ le_bytes 8 (r_revision r) @ hash_bytes (r_prev r) @ hash_bytes link
     @ le_bytes 8 (full_text_bytes r) @ le_bytes 8 (r_stable r) @ le_bytes 8 (length (r_tail r))
     @ le_bytes 8 (length (r_ids r)) @ le_bytes 8 (r_replace r) @ checksum"

abbreviation (input) OFF_CHECKSUM :: nat where "OFF_CHECKSUM \<equiv> 168"

definition overwrite :: "u8 list \<Rightarrow> nat \<Rightarrow> u8 list \<Rightarrow> u8 list" where
  "overwrite w off bs = take off w @ bs @ drop (off + length bs) w"

definition record_to_bytes :: "(u8 list \<Rightarrow> hash32) \<Rightarrow> session_record \<Rightarrow> u8 list res" where
  "record_to_bytes sha r =
     rbind (check_writer_obligations r) (\<lambda>_.
       let payload_digest = payload_digest_parts sha [r_ids r] (r_tail r);
           link = link_hash sha (link_of r payload_digest);
           w = header_bytes r link (replicate 32 0);
           checksum = record_checksum sha w payload_digest;
           w' = overwrite w OFF_CHECKSUM (hash_bytes checksum)
       in Ok (fold (\<lambda>block w. w @ block) (ids_le_chunks (r_ids r)) w' @ r_tail r))"

section \<open>Strict decode\<close>

definition bytes_at :: "u8 list \<Rightarrow> nat \<Rightarrow> nat \<Rightarrow> u8 list" where
  "bytes_at bytes off n = take n (drop off bytes)"

abbreviation nat_at :: "u8 list \<Rightarrow> nat \<Rightarrow> nat \<Rightarrow> nat" where
  "nat_at bytes off n \<equiv> of_le (bytes_at bytes off n)"

abbreviation hash_at :: "u8 list \<Rightarrow> nat \<Rightarrow> hash32" where
  "hash_at bytes off \<equiv> hash_of (bytes_at bytes off 32)"

function tlv_scan :: "u8 list \<Rightarrow> nat \<Rightarrow> nat \<Rightarrow> unit res" where
  "tlv_scan bytes hl pos =
     (if pos < hl
      then if pos + 4 > hl then Err (MalformedRecord ''TLV header extends past header_length'')
           else let tlv_len = nat_at bytes (pos + 2) 2 in
                if pos + 4 + tlv_len > hl then Err (MalformedRecord ''TLV value extends past header_length'')
                else tlv_scan bytes hl (pos + 4 + tlv_len)
      else Ok ())"
  by pat_completeness auto
termination
  by (relation "measure (\<lambda>(bytes, hl, pos). hl - pos)") auto

declare tlv_scan.simps [simp del]

text \<open>Step 1, the bounds gate: the header length and the witness category.\<close>

definition decode_gate :: "u8 list \<Rightarrow> (nat \<times> witness) res" where
  "decode_gate bytes =
     (if length bytes < FIXED_HEADER_LEN then Err (Truncated ''header'')
      else if bytes_at bytes 0 8 \<noteq> MAGIC then Err BadMagic
      else let version = nat_at bytes 8 2 in
      if version \<noteq> FORMAT_VERSION then Err (UnsupportedFormatVersion version)
      else let header_length = nat_at bytes 10 2 in
      if \<not> (FIXED_HEADER_LEN \<le> header_length \<and> header_length \<le> HEADER_LEN_MAX)
         \<or> header_length mod 8 \<noteq> 0 \<or> header_length > length bytes
      then Err (BadHeaderLength header_length (length bytes))
      else if bytes ! 16 \<noteq> ENDIANNESS_LE then Err (BadEndianMarker (unat (bytes ! 16)))
      else if bytes ! 17 \<noteq> 0 then Err (MalformedRecord ''reserved0 must be zero'')
      else let unknown = unknown_mandatory (nat_at bytes 12 4) in
      if unknown \<noteq> 0 then Err (UnknownMandatoryFlags unknown)
      else rbind (witness_from_u16 (nat_at bytes 18 2)) (\<lambda>witness.
      if bytes_at bytes 20 4 \<noteq> replicate 4 0 then Err (MalformedRecord ''reserved1 must be zero'')
      else Ok (header_length, witness)))"

text \<open>Step 2, the field bounds; the fields are full, stable, tail, tokens, replace.\<close>

definition decode_fields :: "nat \<Rightarrow> nat \<Rightarrow> nat \<Rightarrow> nat \<Rightarrow> nat \<Rightarrow> unit res" where
  "decode_fields full stable_len tail tokens replace =
     (if full > MAX_FULL_TEXT_BYTES then Err (MalformedRecord ''full_text_byte_length exceeds 2^40'')
      else if stable_len > full then Err (MalformedRecord ''stable_prefix_byte_length exceeds full_text_byte_length'')
      else if tail > MAX_TAIL_BYTES_OR_TOKENS then Err (MalformedRecord ''text_tail_byte_length exceeds 2^31'')
      else if checked_add64 stable_len tail \<noteq> Some full
      then Err (MalformedRecord ''stable prefix + text tail does not equal full text length'')
      else if tokens > MAX_TAIL_BYTES_OR_TOKENS then Err (MalformedRecord ''token_count exceeds 2^31'')
      else if replace > tokens then Err (MalformedRecord ''replace_token_offset exceeds token_count'')
      else Ok ())"

definition size_error :: "nat \<Rightarrow> nat \<Rightarrow> store_error" where
  "size_error n want =
     MalformedRecord (''record size '' @ show_nat n @ '' does not close over header + ids + tail '' @ show_nat want)"

definition record_from_bytes :: "(u8 list \<Rightarrow> hash32) \<Rightarrow> u8 list \<Rightarrow> session_record res" where
  "record_from_bytes sha bytes =
     rbind (decode_gate bytes) (\<lambda>(hl, witness).
     let fingerprint = hash_at bytes 24; revision = nat_at bytes 56 8;
         prev = hash_at bytes 64; stored_curr = hash_at bytes 96;
         full = nat_at bytes 128 8; stable_len = nat_at bytes 136 8; tail = nat_at bytes 144 8;
         tokens = nat_at bytes 152 8; replace = nat_at bytes 160 8 in
     rbind (decode_fields full stable_len tail tokens replace) (\<lambda>_.
     rbind (tlv_scan bytes hl FIXED_HEADER_LEN) (\<lambda>_.
     rbind (ok_or (checked_mul64 tokens 4) (MalformedRecord ''token id array size overflow'')) (\<lambda>ids_bytes.
     rbind (ok_or (Option.bind (checked_add64 hl ids_bytes) (\<lambda>v. checked_add64 v tail))
              (MalformedRecord ''record size overflow'')) (\<lambda>want.
     if length bytes \<noteq> want then Err (size_error (length bytes) want)
     else
       let payload = drop hl bytes;
           payload_digest = sha (DOMAIN_PAYLOAD @ payload);
           header_copy = overwrite (take hl bytes) OFF_CHECKSUM (replicate 32 0) in
       if record_checksum sha header_copy payload_digest \<noteq> hash_at bytes OFF_CHECKSUM then Err ChecksumMismatch
       else if link_hash sha \<lparr>li_prev = prev, li_fingerprint = fingerprint, li_revision = revision,
                 li_full = full, li_stable = stable_len, li_tail = tail, li_tokens = tokens,
                 li_replace = replace, li_witness = witness, li_digest = payload_digest\<rparr> \<noteq> stored_curr
       then Err ChainLinkMismatch
       else if (revision = 0) \<noteq> (prev = ZERO_HASH)
       then Err (MalformedRecord ''prev_block_hash must be all-zero exactly at revision 0'')
       else if witness = NoneFullReencode \<and> (stable_len \<noteq> 0 \<or> replace \<noteq> 0)
       then Err (MalformedRecord ''witness category 0 requires zero stable prefix and replace offset'')
       else case from_utf8 (drop ids_bytes payload) of
              None \<Rightarrow> Err (MalformedRecord ''text tail is not valid UTF-8'')
            | Some tail_text \<Rightarrow>
                Ok \<lparr>r_fingerprint = fingerprint, r_witness = witness, r_revision = revision, r_prev = prev,
                    r_curr = stored_curr, r_stable = stable_len, r_replace = replace,
                    r_ids = u32s_of (take ids_bytes payload), r_tail = tail_text\<rparr>)))))"

end
