(* ===== verification/Codec.thy ===== *)
theory Codec
  imports Errors
begin

text \<open>
  The contract of the strict codecs (record, chain node, session sidecar, recovery binding): what
  the writer accepts is read back, up to the derived fields that the reader recomputes; what the
  reader accepts is well formed; the reader never panics on bytes it does not trust.
\<close>

locale codec =
  fixes enc :: "'r \<Rightarrow> u8 list res"
    and dec :: "u8 list \<Rightarrow> 'r res"
    and rec_ok :: "'r \<Rightarrow> bool"
    and canon :: "'r \<Rightarrow> 'r"
  assumes round_trip: "rec_ok r \<Longrightarrow> \<exists>b. enc r = Ok b \<and> dec b = Ok (canon r)"
    and sound: "dec b = Ok r \<Longrightarrow> rec_ok r \<and> canon r = r"
    and no_panic: "dec b \<noteq> Panic"
begin

lemma reread: "dec b = Ok r \<Longrightarrow> \<exists>b'. enc r = Ok b' \<and> dec b' = Ok r"
  using sound [of b r] round_trip [of r] by auto

lemma enc_determines: "rec_ok r \<Longrightarrow> rec_ok s \<Longrightarrow> enc r = enc s \<Longrightarrow> canon r = canon s"
  using round_trip [of r] round_trip [of s] by auto

lemma canon_ok: "rec_ok r \<Longrightarrow> rec_ok (canon r) \<and> canon (canon r) = canon r"
  using round_trip [of r] sound by blast

lemma accepted_iff: "(\<exists>b. dec b = Ok r) \<longleftrightarrow> rec_ok r \<and> canon r = r"
  using sound round_trip [of r] by auto

end

text \<open>The reader of a codec lets a value through or reports an error.\<close>

lemma outcome_cases_no_panic:
  "x \<noteq> Panic \<Longrightarrow> (\<exists>v. x = Ok v) \<or> (\<exists>e. x = Err e)"
  by (cases x) auto

end
