(* ===== verification/FormatProps.thy ===== *)
theory FormatProps
  imports Format Codec
begin

text \<open>
  What the format promises: the layout of the id row, the independence of the payload digest from
  the way it is fed, the round trip of a record, and what a record that the strict reader accepts
  is known to satisfy.
\<close>

section \<open>Identifier bytes\<close>

lemma length_bytes_of [simp]: "length (bytes_of s) = length s"
  by (simp add: bytes_of_def)

lemma length_MAGIC [simp]: "length MAGIC = 8"
  by (simp add: MAGIC_def)

lemma fold_append [simp]: "fold (\<lambda>block h. h @ block) blocks h = h @ concat blocks"
  by (induction blocks arbitrary: h) auto

lemma concat_chunks_of: "0 < n \<Longrightarrow> concat (chunks_of n xs) = xs"
proof (induction n xs rule: chunks_of.induct)
  case (1 n xs)
  then show ?case by (cases "xs = []") (simp_all add: chunks_of.simps [of n xs] chunks_of.simps [of n "[]"])
qed

lemma concat_map_concat: "concat (map (\<lambda>xs. concat (map f xs)) xss) = concat (map f (concat xss))"
  by (induction xss) auto

lemma concat_ids_le_chunks [simp]: "concat (ids_le_chunks ids) = ids_le ids"
  by (simp add: ids_le_chunks_def ids_le_def concat_map_concat concat_chunks_of)

lemma ids_le_append [simp]: "ids_le (xs @ ys) = ids_le xs @ ids_le ys"
  by (simp add: ids_le_def)

lemma ids_le_simps [simp]: "ids_le [] = []" "ids_le (x # xs) = u32_le x @ ids_le xs"
  by (simp_all add: ids_le_def)

lemma length_u32_le [simp]: "length (u32_le w) = 4"
  by (simp add: u32_le_def)

lemma length_ids_le [simp, codec_simps]: "length (ids_le ids) = 4 * length ids"
  by (induction ids) auto

lemma u32_of_le_le [simp]: "(of_nat (of_le (u32_le w)) :: u32) = w"
proof -
  have "unat w < 2 ^ 32" by (rule order_less_le_trans [OF unsigned_less]) simp
  then show ?thesis by (simp add: u32_le_def of_le_le_bytes)
qed

lemma u32s_of_u32_le_append: "u32s_of (u32_le w @ bs) = w # u32s_of bs"
proof -
  have "length (u32_le w) = Suc (Suc (Suc (Suc 0)))" by simp
  then obtain a b c d where w: "u32_le w = [a, b, c, d]" by (auto simp only: length_Suc_conv length_0_conv)
  then have "u32s_of (u32_le w @ bs) = of_nat (of_le (u32_le w)) # u32s_of bs"
    by (simp only: append.simps u32s_of.simps)
  then show ?thesis by (simp only: u32_of_le_le)
qed

lemma u32s_of_ids_le [simp, codec_simps]: "u32s_of (ids_le ids) = ids"
  by (induction ids) (simp_all add: u32s_of_u32_le_append)

lemma u32_le_of_nat: "length bs = 4 \<Longrightarrow> u32_le (of_nat (of_le bs)) = bs"
proof -
  assume len: "length bs = 4"
  have "of_le bs < 2 ^ 32" using of_le_less [of bs] len by simp
  then have "unat (of_nat (of_le bs) :: u32) = of_le bs" by (simp add: unat_of_nat)
  with len show ?thesis by (simp add: u32_le_def le_bytes_of_le')
qed

lemma ids_le_u32s_of: "length bs mod 4 = 0 \<Longrightarrow> ids_le (u32s_of bs) = bs"
proof (induction bs rule: u32s_of.induct)
  case (1 a b c d rest)
  have "u32_le (of_nat (of_le [a, b, c, d])) = [a, b, c, d]" by (rule u32_le_of_nat) simp
  moreover have "length rest mod 4 = 0" using "1.prems" by simp
  ultimately show ?case using "1.IH" by (simp del: of_le.simps)
qed simp_all

lemma length_u32s_of: "length (u32s_of bs) = length bs div 4"
  by (induction bs rule: u32s_of.induct) auto

section \<open>The payload digest\<close>

lemma fold_parts: "fold (\<lambda>part h. h @ ids_le part) parts h = h @ ids_le (concat parts)"
  by (induction parts arbitrary: h) auto

lemma payload_digest_parts_eq:
  "payload_digest_parts sha parts tail = sha (DOMAIN_PAYLOAD @ ids_le (concat parts) @ tail)"
  by (simp add: payload_digest_parts_def fold_parts)

lemma update_ids_eq [simp]: "update_ids h ids = h @ ids_le ids"
  by (simp add: update_ids_def)

lemma digest_with_tail_eq: "digest_with_tail sha h ids tail = sha (h @ ids_le ids @ tail)"
  by (simp add: digest_with_tail_def)

section \<open>Round trip\<close>

lemma bytes_at_skip: "length xs \<le> off \<Longrightarrow> bytes_at (xs @ ys) off n = bytes_at ys (off - length xs) n"
  by (simp add: bytes_at_def)

lemma bytes_at_skip1: "0 < off \<Longrightarrow> bytes_at (x # xs) off n = bytes_at xs (off - 1) n"
  by (cases off) (simp_all add: bytes_at_def)

lemma bytes_at_hit: "length xs = n \<Longrightarrow> bytes_at (xs @ ys) 0 n = xs"
  by (simp add: bytes_at_def)

lemma nth_skip: "length xs \<le> i \<Longrightarrow> (xs @ ys) ! i = ys ! (i - length xs)"
  by (simp add: nth_append)

lemmas layout = bytes_at_skip bytes_at_skip1 bytes_at_hit nth_skip

lemma length_header_bytes [simp]: "length ck = 32 \<Longrightarrow> length (header_bytes r link ck) = 200"
  by (simp add: header_bytes_def)

lemma overwrite_header:
  "length ck = 32 \<Longrightarrow> length ck' = 32 \<Longrightarrow>
     overwrite (header_bytes r link ck @ rest) OFF_CHECKSUM ck' = header_bytes r link ck' @ rest"
  by (simp add: overwrite_def header_bytes_def)

definition record_ok :: "session_record \<Rightarrow> bool" where
  "record_ok r \<longleftrightarrow>
     check_writer_obligations r = Ok () \<and> r_revision r \<le> u64_max \<and> valid_utf8 (r_tail r)"

lemma obligations_iff:
  "check_writer_obligations r = Ok u \<longleftrightarrow>
     full_text_bytes r \<le> MAX_FULL_TEXT_BYTES \<and> length (r_tail r) \<le> MAX_TAIL_BYTES_OR_TOKENS
     \<and> length (r_ids r) \<le> MAX_TAIL_BYTES_OR_TOKENS \<and> r_replace r \<le> length (r_ids r)
     \<and> (r_witness r = NoneFullReencode \<longrightarrow> r_stable r = 0 \<and> r_replace r = 0)
     \<and> (r_revision r = 0 \<longleftrightarrow> r_prev r = ZERO_HASH)"
  by (auto simp: check_writer_obligations_def full_text_bytes_def rbind_eq_Ok Let_def)

definition record_image :: "(u8 list \<Rightarrow> hash32) \<Rightarrow> session_record \<Rightarrow> u8 list" where
  "record_image sha r =
     (let digest = payload_digest_parts sha [r_ids r] (r_tail r); link = compute_curr sha r;
          ck = record_checksum sha (header_bytes r link (replicate 32 0)) digest
      in header_bytes r link (hash_bytes ck) @ ids_le (r_ids r) @ r_tail r)"

lemma record_to_bytes_eq:
  assumes "check_writer_obligations r = Ok ()"
  shows "record_to_bytes sha r = Ok (record_image sha r)"
proof -
  have "overwrite (header_bytes r link (replicate 32 0)) OFF_CHECKSUM (hash_bytes h)
      = header_bytes r link (hash_bytes h)" for link h
    using overwrite_header [of "replicate 32 0" "hash_bytes h" r link "[]"] by simp
  with assms show ?thesis
    by (simp add: record_to_bytes_def record_image_def compute_curr_def Let_def)
qed

lemma header_slices:
  fixes r :: session_record and link :: hash32 and ck rest :: "u8 list"
  assumes "length ck = 32"
  defines "b \<equiv> header_bytes r link ck @ rest"
  shows "bytes_at b 0 8 = MAGIC" "bytes_at b 8 2 = le_bytes 2 1" "bytes_at b 10 2 = le_bytes 2 200" "bytes_at b 12 4 = le_bytes 4 0"
    "b ! 16 = 1" "b ! 17 = 0" "bytes_at b 18 2 = le_bytes 2 (witness_as_u16 (r_witness r))"
    "bytes_at b 20 4 = le_bytes 4 0" "bytes_at b 24 32 = hash_bytes (r_fingerprint r)"
    "bytes_at b 56 8 = le_bytes 8 (r_revision r)"
    "bytes_at b 64 32 = hash_bytes (r_prev r)" "bytes_at b 96 32 = hash_bytes link"
    "bytes_at b 128 8 = le_bytes 8 (full_text_bytes r)"
    "bytes_at b 136 8 = le_bytes 8 (r_stable r)" "bytes_at b 144 8 = le_bytes 8 (length (r_tail r))"
    "bytes_at b 152 8 = le_bytes 8 (length (r_ids r))"
    "bytes_at b 160 8 = le_bytes 8 (r_replace r)" "bytes_at b 168 32 = ck"
  using assms(1) by (simp_all add: b_def header_bytes_def layout)

lemma le_bytes_zero: "le_bytes n 0 = replicate n 0"
  by (induction n) simp_all

lemma header_fields:
  fixes r :: session_record and link :: hash32 and ck rest :: "u8 list"
  assumes "record_ok r" "length ck = 32"
  defines "b \<equiv> header_bytes r link ck @ rest"
  shows "bytes_at b 0 8 = MAGIC" "nat_at b 8 2 = 1" "nat_at b 10 2 = 200" "nat_at b 12 4 = 0"
    "b ! 16 = 1" "b ! 17 = 0" "nat_at b 18 2 = witness_as_u16 (r_witness r)"
    "bytes_at b 20 4 = replicate 4 0" "hash_at b 24 = r_fingerprint r" "nat_at b 56 8 = r_revision r"
    "hash_at b 64 = r_prev r" "hash_at b 96 = link" "nat_at b 128 8 = full_text_bytes r"
    "nat_at b 136 8 = r_stable r" "nat_at b 144 8 = length (r_tail r)" "nat_at b 152 8 = length (r_ids r)"
    "nat_at b 160 8 = r_replace r" "bytes_at b 168 32 = ck"
proof -
  have p: "(256::nat) ^ 8 = 18446744073709551616" by simp
  note ob = assms(1) [unfolded record_ok_def obligations_iff]
  have small: "full_text_bytes r \<le> 1099511627776" "length (r_tail r) \<le> 2147483648"
    "length (r_ids r) \<le> 2147483648" "r_replace r \<le> length (r_ids r)" "r_revision r \<le> u64_max"
    "r_stable r \<le> full_text_bytes r"
    using ob by (simp_all add: full_text_bytes_def)
  have bounds: "full_text_bytes r < 256 ^ 8" "r_stable r < 256 ^ 8" "length (r_tail r) < 256 ^ 8"
    "length (r_ids r) < 256 ^ 8" "r_replace r < 256 ^ 8" "r_revision r < 256 ^ 8"
    using small unfolding p by linarith+
  note sl = header_slices [OF assms(2), of r link rest, folded b_def]
  show "bytes_at b 0 8 = MAGIC" "b ! 16 = 1" "b ! 17 = 0" "bytes_at b 20 4 = replicate 4 0"
    "hash_at b 24 = r_fingerprint r" "hash_at b 64 = r_prev r" "hash_at b 96 = link" "bytes_at b 168 32 = ck"
    unfolding sl le_bytes_zero by (rule refl hash_of_hash_bytes)+
  show "nat_at b 8 2 = 1" "nat_at b 10 2 = 200" "nat_at b 12 4 = 0" unfolding sl by (simp_all add: of_le_le_bytes)
  show "nat_at b 18 2 = witness_as_u16 (r_witness r)" "nat_at b 56 8 = r_revision r"
    "nat_at b 128 8 = full_text_bytes r" "nat_at b 136 8 = r_stable r"
    "nat_at b 144 8 = length (r_tail r)" "nat_at b 152 8 = length (r_ids r)"
    "nat_at b 160 8 = r_replace r"
    unfolding sl by (rule of_le_le_bytes [OF witness_u16_bound] of_le_le_bytes [OF bounds(1)]
      of_le_le_bytes [OF bounds(2)] of_le_le_bytes [OF bounds(3)] of_le_le_bytes [OF bounds(4)]
      of_le_le_bytes [OF bounds(5)] of_le_le_bytes [OF bounds(6)])+
qed

lemma tlv_scan_none: "hl \<le> pos \<Longrightarrow> tlv_scan bytes hl pos = Ok ()"
  by (simp add: tlv_scan.simps)

lemma record_round_trip:
  assumes ok: "record_ok r"
  shows "record_from_bytes sha (record_image sha r) = Ok (r\<lparr>r_curr := compute_curr sha r\<rparr>)"
proof -
  let ?digest = "payload_digest_parts sha [r_ids r] (r_tail r)" and ?link = "compute_curr sha r"
  let ?h0 = "header_bytes r ?link (replicate 32 0)"
  let ?ck = "hash_bytes (record_checksum sha ?h0 ?digest)"
  let ?rest = "ids_le (r_ids r) @ r_tail r"
  let ?b = "header_bytes r ?link ?ck @ ?rest"
  have img: "record_image sha r = ?b" by (simp add: record_image_def Let_def)
  note f = header_fields [OF ok length_hash_bytes(1), of ?link "record_checksum sha ?h0 ?digest" ?rest]
  note ob = ok [unfolded record_ok_def obligations_iff]
  have gate: "decode_gate ?b = Ok (200, r_witness r)"
    by (simp add: decode_gate_def Let_def f unknown_mandatory_def)
  have fields: "decode_fields (full_text_bytes r) (r_stable r) (length (r_tail r)) (length (r_ids r)) (r_replace r) = Ok ()"
    using ob by (auto simp: decode_fields_def full_text_bytes_def)
  have zeroed: "overwrite (take 200 ?b) OFF_CHECKSUM (replicate 32 0) = ?h0"
    using overwrite_header [of ?ck "replicate 32 0" r ?link "[]"] by simp
  have drop: "drop 200 ?b = ?rest" by simp
  have digest: "sha (DOMAIN_PAYLOAD @ ?rest) = ?digest" by (simp add: payload_digest_parts_eq)
  have link: "link_hash sha \<lparr>li_prev = r_prev r, li_fingerprint = r_fingerprint r, li_revision = r_revision r,
      li_full = full_text_bytes r, li_stable = r_stable r, li_tail = length (r_tail r),
      li_tokens = length (r_ids r), li_replace = r_replace r, li_witness = r_witness r, li_digest = ?digest\<rparr> = ?link"
    by (simp add: compute_curr_def link_of_def)
  have want: "Option.bind (checked_add64 200 (length (r_ids r) * 4)) (\<lambda>v. checked_add64 v (length (r_tail r)))
      = Some (length ?b)"
    using ob by (simp add: checked_add64_def)
  have mul: "checked_mul64 (length (r_ids r)) 4 = Some (length (r_ids r) * 4)"
    using ob by (simp add: checked_mul64_def)
  have payload: "take (length (r_ids r) * 4) ?rest = ids_le (r_ids r)"
    "drop (length (r_ids r) * 4) ?rest = r_tail r" by simp_all
  show ?thesis
    unfolding img record_from_bytes_def gate rbind.simps prod.case Let_def f fields zeroed drop digest link
      mul want ok_or_simps payload tlv_scan_none [OF order_refl]
    using ob ok by (simp add: from_utf8_def record_ok_def)
qed

section \<open>Soundness of the strict reader\<close>

lemma of_le_lt_pow: "length bs \<le> n \<Longrightarrow> of_le bs < 256 ^ n"
  by (rule order_less_le_trans [OF of_le_less]) (simp add: power_increasing)

lemma length_bytes_at_le: "length (bytes_at b off n) \<le> n"
  by (simp add: bytes_at_def)

lemma length_bytes_at: "off + n \<le> length b \<Longrightarrow> length (bytes_at b off n) = n"
  by (simp add: bytes_at_def)

lemma nat_at_lt: "nat_at b off n < 256 ^ n"
  by (rule of_le_lt_pow [OF length_bytes_at_le])

lemma decode_gate_Ok:
  assumes "decode_gate bytes = Ok (hl, w)"
  shows "200 \<le> hl" "hl \<le> length bytes" "bytes_at bytes 0 8 = MAGIC" "nat_at bytes 8 2 = 1"
    "nat_at bytes 10 2 = hl" "bytes ! 16 = 1" "bytes ! 17 = 0" "unknown_mandatory (nat_at bytes 12 4) = 0"
    "nat_at bytes 18 2 = witness_as_u16 w" "bytes_at bytes 20 4 = replicate 4 0"
    "hl \<le> 4096" "hl mod 8 = 0"
  using assms
  by (auto simp: decode_gate_def Let_def rbind_eq_Ok witness_from_u16_Ok split: if_splits)

lemma decode_fields_Ok:
  "decode_fields full s tail tokens replace = Ok u \<longleftrightarrow>
     full \<le> MAX_FULL_TEXT_BYTES \<and> full = s + tail \<and> s + tail \<le> u64_max
     \<and> tail \<le> MAX_TAIL_BYTES_OR_TOKENS \<and> tokens \<le> MAX_TAIL_BYTES_OR_TOKENS \<and> replace \<le> tokens"
  by (auto simp: decode_fields_def)

text \<open>What a successful decode went through, with the payload cut into ids and tail.\<close>

definition decoded :: "(u8 list \<Rightarrow> hash32) \<Rightarrow> u8 list \<Rightarrow> nat \<Rightarrow> session_record \<Rightarrow> bool" where
  "decoded sha bytes hl r \<longleftrightarrow>
     decode_gate bytes = Ok (hl, r_witness r) \<and> drop hl bytes = ids_le (r_ids r) @ r_tail r
     \<and> r_fingerprint r = hash_at bytes 24 \<and> r_revision r = nat_at bytes 56 8
     \<and> r_prev r = hash_at bytes 64 \<and> r_curr r = hash_at bytes 96
     \<and> full_text_bytes r = nat_at bytes 128 8 \<and> r_stable r = nat_at bytes 136 8
     \<and> length (r_tail r) = nat_at bytes 144 8 \<and> length (r_ids r) = nat_at bytes 152 8
     \<and> r_replace r = nat_at bytes 160 8 \<and> valid_utf8 (r_tail r)
     \<and> record_checksum sha (overwrite (take hl bytes) OFF_CHECKSUM (replicate 32 0))
         (payload_digest_parts sha [r_ids r] (r_tail r)) = hash_at bytes OFF_CHECKSUM"

lemma record_from_bytes_sound:
  assumes "record_from_bytes sha bytes = Ok r"
  shows "record_ok r" "r_curr r = compute_curr sha r" "\<exists>hl. decoded sha bytes hl r"
proof -
  let ?full = "nat_at bytes 128 8" and ?stable = "nat_at bytes 136 8" and ?tail = "nat_at bytes 144 8"
  let ?tokens = "nat_at bytes 152 8" and ?replace = "nat_at bytes 160 8"
  from assms obtain hl w where gate: "decode_gate bytes = Ok (hl, w)"
    by (auto simp: record_from_bytes_def rbind_eq_Ok)
  let ?payload = "drop hl bytes"
  let ?digest = "sha (DOMAIN_PAYLOAD @ ?payload)"
  note run = assms [unfolded record_from_bytes_def gate rbind.simps prod.case Let_def]
  from run have fields: "decode_fields ?full ?stable ?tail ?tokens ?replace = Ok ()"
    by (auto simp: rbind_eq_Ok)
  note fb = fields [unfolded decode_fields_Ok]
  have mul: "?tokens * 4 \<le> u64_max" using fb by simp
  from run have size: "length bytes = hl + ?tokens * 4 + ?tail"
    by (auto simp: rbind_eq_Ok fields bind_eq_Some_conv split: if_splits)
  from run have r: "record_checksum sha (overwrite (take hl bytes) OFF_CHECKSUM (replicate 32 0)) ?digest
        = hash_at bytes OFF_CHECKSUM \<and>
      link_hash sha \<lparr>li_prev = hash_at bytes 64, li_fingerprint = hash_at bytes 24,
        li_revision = nat_at bytes 56 8, li_full = ?full, li_stable = ?stable, li_tail = ?tail,
        li_tokens = ?tokens, li_replace = ?replace, li_witness = w, li_digest = ?digest\<rparr> = hash_at bytes 96
      \<and> ((nat_at bytes 56 8 = 0) = (hash_at bytes 64 = ZERO_HASH))
      \<and> (w = NoneFullReencode \<longrightarrow> ?stable = 0 \<and> ?replace = 0)
      \<and> valid_utf8 (drop (?tokens * 4) ?payload)
      \<and> r = \<lparr>r_fingerprint = hash_at bytes 24, r_witness = w, r_revision = nat_at bytes 56 8,
            r_prev = hash_at bytes 64, r_curr = hash_at bytes 96, r_stable = ?stable, r_replace = ?replace,
            r_ids = u32s_of (take (?tokens * 4) ?payload), r_tail = drop (?tokens * 4) ?payload\<rparr>"
    by (auto simp: rbind_eq_Ok fields bind_eq_Some_conv from_utf8_def split: if_splits)
  note g = decode_gate_Ok [OF gate]
  have lp: "length ?payload = ?tokens * 4 + ?tail" using size g(2) by simp
  have ids: "ids_le (u32s_of (take (?tokens * 4) ?payload)) = take (?tokens * 4) ?payload"
  proof (rule ids_le_u32s_of)
    have "length (take (?tokens * 4) ?payload) = ?tokens * 4" using lp by simp
    then show "length (take (?tokens * 4) ?payload) mod 4 = 0" by simp
  qed
  have payload: "?payload = ids_le (r_ids r) @ r_tail r"
  proof -
    have cut_at: "ids_le (r_ids r) = take (?tokens * 4) ?payload" "r_tail r = drop (?tokens * 4) ?payload"
      using r ids by simp_all
    show ?thesis unfolding cut_at by (rule append_take_drop_id [symmetric])
  qed
  have lens: "length (r_ids r) = ?tokens" "length (r_tail r) = ?tail"
    using r lp by (simp_all add: length_u32s_of)
  have full: "full_text_bytes r = ?full" using r lens fb by (simp add: full_text_bytes_def)
  have digest: "?digest = payload_digest_parts sha [r_ids r] (r_tail r)"
    by (simp add: payload_digest_parts_eq payload)
  have rev: "nat_at bytes 56 8 \<le> u64_max"
  proof -
    have "(256::nat) ^ 8 = 18446744073709551616" by simp
    then show ?thesis using nat_at_lt [of bytes 56 8] by linarith
  qed
  have sel: "r_witness r = w" "r_fingerprint r = hash_at bytes 24" "r_revision r = nat_at bytes 56 8"
    "r_prev r = hash_at bytes 64" "r_curr r = hash_at bytes 96" "r_stable r = ?stable" "r_replace r = ?replace"
    "valid_utf8 (r_tail r)"
    using r by simp_all
  show "record_ok r"
    using r lens fb full rev sel by (simp add: record_ok_def obligations_iff)
  have "link_hash sha (link_of r ?digest) = hash_at bytes 96"
    unfolding link_of_def sel lens full using r by blast
  then show "r_curr r = compute_curr sha r" by (simp only: compute_curr_def digest sel)
  have "decoded sha bytes hl r"
    unfolding decoded_def digest [symmetric] sel lens full payload [symmetric]
    using r gate sel(8) by blast
  then show "\<exists>hl. decoded sha bytes hl r" by blast
qed

lemma tlv_scan_no_panic [simp]: "tlv_scan bytes hl pos \<noteq> Panic"
proof (induction bytes hl pos rule: tlv_scan.induct)
  case (1 bytes hl pos)
  then show ?case by (simp add: tlv_scan.simps [of bytes hl pos] Let_def)
qed

lemma record_from_bytes_no_panic: "record_from_bytes sha bytes \<noteq> Panic"
  by (auto simp: record_from_bytes_def decode_gate_def decode_fields_def rbind_eq_Panic Let_def
      split: if_splits option.splits)

text \<open>
  A record with the fixed header and no optional flag bits is the only encoding of its content:
  writing the decoded record gives the same bytes back.
\<close>

lemma bytes_at_join: "bytes_at b off n @ bytes_at b (off + n) m = bytes_at b off (n + m)"
  by (simp only: bytes_at_def take_add drop_drop add.commute [of n off])

lemma le_bytes_nat_at: "off + n \<le> length b \<Longrightarrow> le_bytes n (nat_at b off n) = bytes_at b off n"
  by (rule le_bytes_of_le') (rule length_bytes_at)

lemma hash_bytes_hash_at: "off + 32 \<le> length b \<Longrightarrow> hash_bytes (hash_at b off) = bytes_at b off 32"
  by (rule hash_bytes_hash_of) (rule length_bytes_at)

lemma bytes_at_single: "off < length b \<Longrightarrow> bytes_at b off 1 = [b ! off]"
  by (simp add: bytes_at_def take_Suc_conv_app_nth hd_drop_conv_nth take_Suc)

lemma header_of_decoded:
  assumes d: "decoded sha bytes 200 r" and flags: "nat_at bytes 12 4 = 0"
  shows "header_bytes r (r_curr r) (bytes_at bytes 168 32) = take 200 bytes"
proof -
  note d' = d [unfolded decoded_def]
  note g = decode_gate_Ok [OF d' [THEN conjunct1]]
  have len: "200 \<le> length bytes" using g(2) .
  have one: "bytes_at bytes 16 1 = [1]" "bytes_at bytes 17 1 = [0]"
    using bytes_at_single [of 16 bytes] bytes_at_single [of 17 bytes] len g(6,7) by simp_all
  have small: "le_bytes 2 1 = bytes_at bytes 8 2" "le_bytes 2 200 = bytes_at bytes 10 2"
    "le_bytes 4 0 = bytes_at bytes 12 4" "le_bytes 2 (witness_as_u16 (r_witness r)) = bytes_at bytes 18 2"
    using le_bytes_nat_at [of 8 2 bytes] le_bytes_nat_at [of 10 2 bytes] le_bytes_nat_at [of 12 4 bytes]
      le_bytes_nat_at [of 18 2 bytes] len g(4,5,9) flags by simp_all
  have res: "le_bytes 4 0 = bytes_at bytes 20 4" using g(10) by (simp only: le_bytes_zero)
  have fields: "le_bytes 8 (r_revision r) = bytes_at bytes 56 8" "le_bytes 8 (full_text_bytes r) = bytes_at bytes 128 8"
    "le_bytes 8 (r_stable r) = bytes_at bytes 136 8" "le_bytes 8 (length (r_tail r)) = bytes_at bytes 144 8"
    "le_bytes 8 (length (r_ids r)) = bytes_at bytes 152 8" "le_bytes 8 (r_replace r) = bytes_at bytes 160 8"
    "hash_bytes (r_fingerprint r) = bytes_at bytes 24 32" "hash_bytes (r_prev r) = bytes_at bytes 64 32"
    "hash_bytes (r_curr r) = bytes_at bytes 96 32"
    using d' len by (simp_all add: le_bytes_nat_at hash_bytes_hash_at)
  have "take 200 bytes = bytes_at bytes 0 (8 + (2 + (2 + (4 + (1 + (1 + (2 + (4 + (32 + (8 + (32 + (32
      + (8 + (8 + (8 + (8 + (8 + 32)))))))))))))))))"
    by (simp add: bytes_at_def)
  also have "\<dots> = MAGIC @ bytes_at bytes 8 2 @ bytes_at bytes 10 2 @ bytes_at bytes 12 4
      @ bytes_at bytes 16 1 @ bytes_at bytes 17 1 @ bytes_at bytes 18 2 @ bytes_at bytes 20 4
      @ bytes_at bytes 24 32 @ bytes_at bytes 56 8 @ bytes_at bytes 64 32 @ bytes_at bytes 96 32
      @ bytes_at bytes 128 8 @ bytes_at bytes 136 8 @ bytes_at bytes 144 8 @ bytes_at bytes 152 8
      @ bytes_at bytes 160 8 @ bytes_at bytes 168 32"
    by (simp only: bytes_at_join [symmetric] g(3)) simp
  also have "\<dots> = header_bytes r (r_curr r) (bytes_at bytes 168 32)"
    unfolding header_bytes_def one fields small(1,2,4) res [symmetric] small(3) [symmetric] by simp
  finally show ?thesis by simp
qed

lemma record_reencode:
  assumes dec: "record_from_bytes sha bytes = Ok r"
    and canon: "nat_at bytes 10 2 = 200" "nat_at bytes 12 4 = 0"
  shows "record_to_bytes sha r = Ok bytes"
proof -
  note s = record_from_bytes_sound [OF dec]
  from s(3) obtain hl where d0: "decoded sha bytes hl r" by blast
  then have "hl = 200" using canon(1) decode_gate_Ok(5) by (auto simp: decoded_def)
  with d0 have d: "decoded sha bytes 200 r" by simp
  note d' = d [unfolded decoded_def]
  have len: "200 \<le> length bytes" using decode_gate_Ok(2) [OF d' [THEN conjunct1]] .
  have l32: "length (bytes_at bytes 168 32) = 32" using len by (simp add: length_bytes_at)
  note h = header_of_decoded [OF d canon(2)]
  have z: "overwrite (take 200 bytes) OFF_CHECKSUM (replicate 32 0) = header_bytes r (r_curr r) (replicate 32 0)"
    using overwrite_header [OF l32, of "replicate 32 0" r "r_curr r" "[]"] by (simp add: h)
  have ck: "hash_bytes (record_checksum sha (header_bytes r (r_curr r) (replicate 32 0))
      (payload_digest_parts sha [r_ids r] (r_tail r))) = bytes_at bytes 168 32"
  proof -
    have "record_checksum sha (header_bytes r (r_curr r) (replicate 32 0))
        (payload_digest_parts sha [r_ids r] (r_tail r)) = hash_at bytes 168"
      using d' unfolding z by blast
    then show ?thesis using len by (simp only: hash_bytes_hash_at)
  qed
  have "record_image sha r = take 200 bytes @ drop 200 bytes"
    unfolding record_image_def Let_def s(2) [symmetric] ck h
    using d' [THEN conjunct2, THEN conjunct1] by simp
  then show ?thesis using s(1) by (simp add: record_to_bytes_eq record_ok_def)
qed

interpretation record_codec: codec "record_to_bytes sha" "record_from_bytes sha" record_ok
    "\<lambda>r. r\<lparr>r_curr := compute_curr sha r\<rparr>" for sha
proof
  fix r assume "record_ok r"
  then show "\<exists>b. record_to_bytes sha r = Ok b \<and> record_from_bytes sha b = Ok (r\<lparr>r_curr := compute_curr sha r\<rparr>)"
    using record_to_bytes_eq record_round_trip by (auto simp: record_ok_def)
next
  fix b r assume "record_from_bytes sha b = Ok r"
  then show "record_ok r \<and> r\<lparr>r_curr := compute_curr sha r\<rparr> = r"
    using record_from_bytes_sound by (metis (no_types, lifting) session_record.surjective session_record.update_convs(5))
qed (rule record_from_bytes_no_panic)

end
