(* ===== verification/Recovery.thy ===== *)
theory Recovery
  imports FormatProps
begin

text \<open>
  Recovery bindings (\<^verbatim>\<open>recovery_binding.rs\<close>): the incremental content digest with its checkpoint
  marks at 4096, 8192, ... bytes, and the codec of the TKFR v1 binding. BLAKE2b with the index
  personalisation is the parameter \<open>blake\<close>; its state is the bytes absorbed.
\<close>

abbreviation (input) MARK_FLOOR_BYTES :: nat where "MARK_FLOOR_BYTES \<equiv> 4096"
abbreviation (input) CONTENT_DIGEST_BYTES :: nat where "CONTENT_DIGEST_BYTES \<equiv> 16"
definition TKFR :: "u8 list" where "TKFR = bytes_of ''TKFR''"
abbreviation (input) VERSION :: nat where "VERSION \<equiv> 1"
abbreviation (input) MAX_MARKS :: nat where "MAX_MARKS \<equiv> 64"
definition STATE_DOMAIN :: "u8 list" where
  "STATE_DOMAIN = bytes_of ''toktier.facade.v1.recovery-state'' @ [0]"
abbreviation (input) HEADER_BYTES :: nat where "HEADER_BYTES \<equiv> 98"
abbreviation (input) MARK_BYTES :: nat where "MARK_BYTES \<equiv> 24"
abbreviation (input) CHECKSUM_BYTES :: nat where "CHECKSUM_BYTES \<equiv> 32"

section \<open>The content digest\<close>

record content_index_entry =
  ce_byte_length :: nat
  ce_end_digest :: hash16
  ce_marks :: "(nat \<times> hash16) list"

record content_digest =
  cd_state :: "u8 list"
  cd_byte_length :: nat
  cd_marks :: "(nat \<times> hash16) list"
  cd_next_mark :: nat

definition content_empty :: content_digest where
  "content_empty = \<lparr>cd_state = [], cd_byte_length = 0, cd_marks = [], cd_next_mark = MARK_FLOOR_BYTES\<rparr>"

text \<open>
  The loop of \<^verbatim>\<open>append\<close>: each turn absorbs the bytes up to the next mark. The state is kept on
  an error, as the method mutates in place. A mark of zero would loop forever in Rust as it
  would here; the marks double from 4096, so the guard on the measure never fires.
\<close>

function content_marks_loop ::
  "(u8 list \<Rightarrow> hash16) \<Rightarrow> u8 list \<Rightarrow> nat \<Rightarrow> content_digest \<Rightarrow> nat \<Rightarrow> content_digest \<times> nat res"
where
  "content_marks_loop blake delta end d consumed =
     (if cd_next_mark d < end then
        case checked_sub64 (cd_next_mark d) (cd_byte_length d) of
          None \<Rightarrow> (d, Err (Internal ''content mark moved backwards''))
        | Some n \<Rightarrow>
            (case checked_add64 consumed n of
               None \<Rightarrow> (d, Err (Internal ''content slice overflow''))
             | Some next \<Rightarrow>
                 (if next > length delta then (d, Panic)
                  else
                    let state = cd_state d @ take n (drop consumed delta);
                        d' = \<lparr>cd_state = state, cd_byte_length = cd_next_mark d,
                             cd_marks = cd_marks d @ [(cd_next_mark d, blake state)],
                             cd_next_mark = cd_next_mark d\<rparr> in
                    case checked_mul64 (cd_next_mark d) 2 of
                      None \<Rightarrow> (d', Err (InvalidInput ''content mark exceeds u64''))
                    | Some m \<Rightarrow>
                        if m \<le> cd_next_mark d then (d', Panic)
                        else content_marks_loop blake delta end (d'\<lparr>cd_next_mark := m\<rparr>) next))
      else (d, Ok consumed))"
  by pat_completeness auto
termination
  by (relation "measure (\<lambda>(blake, delta, end, d, consumed). end - cd_next_mark d)") (auto simp: Let_def)

declare content_marks_loop.simps [simp del]

definition content_append ::
  "(u8 list \<Rightarrow> hash16) \<Rightarrow> content_digest \<Rightarrow> u8 list \<Rightarrow> content_digest \<times> unit res" where
  "content_append blake d delta =
     (case checked_add64 (cd_byte_length d) (length delta) of
        None \<Rightarrow> (d, Err (InvalidInput ''text byte length exceeds u64''))
      | Some end \<Rightarrow>
          (case content_marks_loop blake delta end d 0 of
             (d', Ok consumed) \<Rightarrow>
               (d'\<lparr>cd_state := cd_state d' @ drop consumed delta, cd_byte_length := end\<rparr>, Ok ())
           | (d', Err e) \<Rightarrow> (d', Err e)
           | (d', Panic) \<Rightarrow> (d', Panic)))"

definition content_from_bytes :: "(u8 list \<Rightarrow> hash16) \<Rightarrow> u8 list \<Rightarrow> content_digest res" where
  "content_from_bytes blake data =
     (case content_append blake content_empty data of
        (d, Ok _) \<Rightarrow> Ok d | (_, Err e) \<Rightarrow> Err e | (_, Panic) \<Rightarrow> Panic)"

definition content_entry :: "(u8 list \<Rightarrow> hash16) \<Rightarrow> content_digest \<Rightarrow> content_index_entry" where
  "content_entry blake d =
     \<lparr>ce_byte_length = cd_byte_length d, ce_end_digest = blake (cd_state d), ce_marks = cd_marks d\<rparr>"

section \<open>The binding\<close>

record recovery_binding =
  rb_record_hash :: hash32
  rb_text_digest :: hash32
  rb_index_entry :: content_index_entry

fun validate_marks :: "nat \<Rightarrow> nat \<Rightarrow> (nat \<times> hash16) list \<Rightarrow> nat res" where
  "validate_marks byte_length expected [] = Ok expected"
| "validate_marks byte_length expected ((position, _) # marks) =
     (if position \<noteq> expected \<or> position \<ge> byte_length
      then Err (InvalidInput ''checkpoint positions are not canonical'')
      else rbind (ok_or (checked_mul64 expected 2) (InvalidInput ''checkpoint position overflow'')) (\<lambda>expected'.
             validate_marks byte_length expected' marks))"

definition validate_entry :: "content_index_entry \<Rightarrow> unit res" where
  "validate_entry e =
     (if length (ce_marks e) > MAX_MARKS then Err (InvalidInput ''too many recovery checkpoints'')
      else rbind (validate_marks (ce_byte_length e) MARK_FLOOR_BYTES (ce_marks e)) (\<lambda>expected.
        if expected < ce_byte_length e then Err (InvalidInput ''checkpoint positions are incomplete'')
        else Ok ()))"

definition mark_bytes :: "(nat \<times> hash16) list \<Rightarrow> u8 list" where
  "mark_bytes marks = concat (map (\<lambda>(position, digest). le_bytes 8 position @ hash16_bytes digest) marks)"

definition binding_to_bytes :: "(u8 list \<Rightarrow> hash32) \<Rightarrow> recovery_binding \<Rightarrow> u8 list res" where
  "binding_to_bytes sha b =
     (let e = rb_index_entry b in
      rbind (validate_entry e) (\<lambda>_.
      let body = TKFR @ le_bytes 2 VERSION @ hash_bytes (rb_record_hash b) @ le_bytes 8 (ce_byte_length e)
            @ hash_bytes (rb_text_digest b) @ hash16_bytes (ce_end_digest e)
            @ le_bytes 4 (length (ce_marks e)) @ mark_bytes (ce_marks e)
      in Ok (body @ hash_bytes (sha (STATE_DOMAIN @ body)))))"

text \<open>\<^verbatim>\<open>take::<N>\<close> on the body, with the cursor passed along.\<close>

definition bind_take :: "nat \<Rightarrow> u8 list \<Rightarrow> nat \<Rightarrow> (u8 list \<times> nat) res" where
  "bind_take n raw cursor =
     rbind (ok_or (checked_add64 cursor n) (InvalidInput ''recovery binding offset overflow'')) (\<lambda>end.
       if end > length raw then Err (InvalidInput ''recovery binding is truncated'')
       else Ok (take n (drop cursor raw), end))"

fun read_marks :: "nat \<Rightarrow> u8 list \<Rightarrow> nat \<Rightarrow> (nat \<times> hash16) list res" where
  "read_marks 0 body cursor = Ok []"
| "read_marks (Suc n) body cursor =
     rbind (bind_take 8 body cursor) (\<lambda>(position, cursor).
     rbind (bind_take 16 body cursor) (\<lambda>(digest, cursor).
     rbind (read_marks n body cursor) (\<lambda>marks. Ok ((of_le position, hash16_of digest) # marks))))"

definition binding_from_bytes :: "(u8 list \<Rightarrow> hash32) \<Rightarrow> u8 list \<Rightarrow> recovery_binding res" where
  "binding_from_bytes sha raw =
     (if length raw < HEADER_BYTES + CHECKSUM_BYTES then Err (InvalidInput ''recovery binding is truncated'')
      else
        let body_len = length raw - CHECKSUM_BYTES; body = take body_len raw; observed = drop body_len raw in
        if hash_bytes (sha (STATE_DOMAIN @ body)) \<noteq> observed
        then Err (InvalidInput ''recovery binding checksum mismatch'')
        else
          rbind (bind_take 4 body 0) (\<lambda>(magic, cursor).
          if magic \<noteq> TKFR then Err (InvalidInput ''recovery binding has bad magic'')
          else rbind (bind_take 2 body cursor) (\<lambda>(version, cursor).
          if of_le version \<noteq> VERSION then Err (InvalidInput ''recovery binding version is unsupported'')
          else rbind (bind_take 32 body cursor) (\<lambda>(record_hash, cursor).
          rbind (bind_take 8 body cursor) (\<lambda>(byte_length, cursor).
          rbind (bind_take 32 body cursor) (\<lambda>(text_digest, cursor).
          rbind (bind_take 16 body cursor) (\<lambda>(end_digest, cursor).
          rbind (bind_take 4 body cursor) (\<lambda>(mark_count_le, cursor).
          let mark_count = of_le mark_count_le in
          if mark_count > MAX_MARKS then Err (InvalidInput ''recovery binding has too many checkpoints'')
          else if length body \<noteq> HEADER_BYTES + mark_count * MARK_BYTES
          then Err (InvalidInput ''recovery binding size does not close'')
          else rbind (read_marks mark_count body cursor) (\<lambda>marks.
          let entry = \<lparr>ce_byte_length = of_le byte_length, ce_end_digest = hash16_of end_digest, ce_marks = marks\<rparr> in
          rbind (validate_entry entry) (\<lambda>_.
            Ok \<lparr>rb_record_hash = hash_of record_hash, rb_text_digest = hash_of text_digest,
                rb_index_entry = entry\<rparr>))))))))))"

definition binding_from_states ::
  "(u8 list \<Rightarrow> hash16) \<Rightarrow> hash32 \<Rightarrow> hash32 \<Rightarrow> content_digest \<Rightarrow> recovery_binding" where
  "binding_from_states blake record_hash text_digest content =
     \<lparr>rb_record_hash = record_hash, rb_text_digest = text_digest, rb_index_entry = content_entry blake content\<rparr>"

section \<open>The incremental digest is the digest of the whole\<close>

text \<open>The marks a text of \<open>n\<close> bytes has, from a mark \<open>m\<close> on.\<close>

function marks_from :: "(u8 list \<Rightarrow> hash16) \<Rightarrow> u8 list \<Rightarrow> nat \<Rightarrow> (nat \<times> hash16) list" where
  "marks_from blake data m =
     (if 0 < m \<and> m < length data then (m, blake (take m data)) # marks_from blake data (2 * m) else [])"
  by pat_completeness auto
termination by (relation "measure (\<lambda>(blake, data, m). length data - m)") auto

declare marks_from.simps [simp del]

function mark_after :: "nat \<Rightarrow> nat \<Rightarrow> nat" where
  "mark_after n m = (if 0 < m \<and> m < n then mark_after n (2 * m) else m)"
  by pat_completeness auto
termination by (relation "measure (\<lambda>(n, m). n - m)") auto

declare mark_after.simps [simp del]

text \<open>The digest state that has absorbed \<open>data\<close>.\<close>

definition content_of :: "(u8 list \<Rightarrow> hash16) \<Rightarrow> u8 list \<Rightarrow> content_digest" where
  "content_of blake data =
     \<lparr>cd_state = data, cd_byte_length = length data, cd_marks = marks_from blake data MARK_FLOOR_BYTES,
      cd_next_mark = mark_after (length data) MARK_FLOOR_BYTES\<rparr>"

lemma content_empty_of: "content_empty = content_of blake []"
  by (simp add: content_empty_def content_of_def marks_from.simps mark_after.simps)

lemma marks_from_append:
  "0 < m \<Longrightarrow> marks_from blake (data @ delta) m =
     marks_from blake data m @ marks_from blake (data @ delta) (mark_after (length data) m)"
proof (induction "length data" m rule: mark_after.induct)
  case (1 m)
  show ?case
  proof (cases "m < length data")
    case True
    then show ?thesis using 1
      by (simp add: marks_from.simps [of blake "data @ delta" m] marks_from.simps [of blake data m]
          mark_after.simps [of "length data" m])
  next
    case False
    then show ?thesis by (simp add: marks_from.simps [of blake data m] mark_after.simps [of "length data" m])
  qed
qed

lemma mark_after_append: "0 < m \<Longrightarrow> n \<le> k \<Longrightarrow> mark_after k (mark_after n m) = mark_after k m"
proof (induction n m rule: mark_after.induct)
  case (1 n m)
  then show ?case
    by (cases "m < n") (simp_all add: mark_after.simps [of n m] mark_after.simps [of k m])
qed

lemma mark_after_ge: "0 < m \<Longrightarrow> n \<le> mark_after n m"
  by (induction n m rule: mark_after.induct) (simp add: mark_after.simps)

lemma mark_after_pos: "0 < m \<Longrightarrow> 0 < mark_after n m"
  by (induction n m rule: mark_after.induct) (simp add: mark_after.simps)

text \<open>
  The loop invariant: the state has absorbed a prefix, of \<open>data @ take consumed delta\<close>. The marks
  stay below \<open>2^63\<close> as long as the length does, so the doubling does not overflow.
\<close>

lemma content_marks_loop_ok:
  assumes "cd_state d = data @ take consumed delta" "consumed \<le> length delta"
    "cd_byte_length d = length data + consumed" "cd_byte_length d \<le> cd_next_mark d" "0 < cd_next_mark d"
    "length (data @ delta) \<le> u64_max div 2"
  shows "\<exists>d' c. content_marks_loop blake delta (length (data @ delta)) d consumed = (d', Ok c)
    \<and> c \<le> length delta \<and> cd_state d' = data @ take c delta
    \<and> cd_marks d' = cd_marks d @ marks_from blake (data @ delta) (cd_next_mark d)
    \<and> cd_next_mark d' = mark_after (length (data @ delta)) (cd_next_mark d)"
  using assms
proof (induction "length (data @ delta) - cd_next_mark d" arbitrary: d consumed rule: less_induct)
  case (less d consumed)
  let ?whole = "data @ delta" and ?m = "cd_next_mark d"
  show ?case
  proof (cases "?m < length ?whole")
    case False
    then show ?thesis using less.prems
      by (intro exI [of _ d] exI [of _ consumed])
        (simp add: content_marks_loop.simps [of blake delta _ d] marks_from.simps [of blake ?whole ?m]
          mark_after.simps [of "length data + length delta" ?m])
  next
    case True
    let ?n = "?m - cd_byte_length d"
    let ?next = "consumed + ?n"
    let ?st = "cd_state d @ take ?n (drop consumed delta)"
    let ?d = "\<lparr>cd_state = ?st, cd_byte_length = ?m, cd_marks = cd_marks d @ [(?m, blake ?st)], cd_next_mark = ?m * 2\<rparr>"
    have nxt: "?next \<le> length delta" "length data + ?next = ?m" using less.prems True by simp_all
    have st: "?st = data @ take ?next delta" using less.prems(1) by (simp add: take_add)
    have "take (length data + ?next) ?whole = data @ take ?next delta" by simp
    then have tk: "take ?m ?whole = ?st" by (simp only: st nxt(2))
    have step: "content_marks_loop blake delta (length ?whole) d consumed
        = content_marks_loop blake delta (length ?whole) ?d ?next"
      using less.prems True nxt
      by (subst content_marks_loop.simps) (simp add: Let_def checked_sub64_def checked_add64_def checked_mul64_def)
    have "\<exists>d' c. content_marks_loop blake delta (length ?whole) ?d ?next = (d', Ok c)
      \<and> c \<le> length delta \<and> cd_state d' = data @ take c delta
      \<and> cd_marks d' = cd_marks ?d @ marks_from blake ?whole (cd_next_mark ?d)
      \<and> cd_next_mark d' = mark_after (length ?whole) (cd_next_mark ?d)"
      using less.prems True nxt st by (intro less.hyps) simp_all
    moreover have "marks_from blake ?whole ?m = (?m, blake ?st) # marks_from blake ?whole (?m * 2)"
      using True less.prems(5) tk by (subst marks_from.simps) (simp only: simp_thms if_True mult.commute length_append)
    moreover have "mark_after (length ?whole) ?m = mark_after (length ?whole) (?m * 2)"
      using True less.prems(5) by (subst mark_after.simps) (simp add: mult.commute)
    ultimately show ?thesis unfolding step by (simp only: content_digest.simps append_assoc append.simps)
  qed
qed

lemma content_append_ok:
  assumes "length (data @ delta) \<le> u64_max div 2"
  shows "content_append blake (content_of blake data) delta = (content_of blake (data @ delta), Ok ())"
proof -
  let ?d = "content_of blake data"
  have floor: "(0::nat) < MARK_FLOOR_BYTES" by simp
  have nm: "0 < cd_next_mark ?d" "length data \<le> cd_next_mark ?d"
    using mark_after_pos [OF floor] mark_after_ge [OF floor] by (simp_all add: content_of_def)
  obtain d' c where loop: "content_marks_loop blake delta (length (data @ delta)) ?d 0 = (d', Ok c)"
    "c \<le> length delta" "cd_state d' = data @ take c delta"
    "cd_marks d' = cd_marks ?d @ marks_from blake (data @ delta) (cd_next_mark ?d)"
    "cd_next_mark d' = mark_after (length (data @ delta)) (cd_next_mark ?d)"
    using content_marks_loop_ok [of ?d data 0 delta blake] assms nm by (auto simp: content_of_def)
  have marks: "cd_marks d' = marks_from blake (data @ delta) MARK_FLOOR_BYTES"
    unfolding loop(4) using marks_from_append [OF floor, of blake data delta] by (simp add: content_of_def)
  have nxt: "cd_next_mark d' = mark_after (length (data @ delta)) MARK_FLOOR_BYTES"
    unfolding loop(5) using mark_after_append [OF floor, of "length data" "length (data @ delta)"]
    by (simp add: content_of_def)
  have st: "cd_state d' @ drop c delta = data @ delta" by (simp add: loop(3))
  have len: "checked_add64 (cd_byte_length ?d) (length delta) = Some (length (data @ delta))"
    using assms by (simp add: content_of_def)
  have "d'\<lparr>cd_state := cd_state d' @ drop c delta, cd_byte_length := length (data @ delta)\<rparr>
      = content_of blake (data @ delta)"
    using st marks nxt by (simp add: content_of_def)
  then show ?thesis unfolding content_append_def len option.case loop(1) prod.case outcome.case by simp
qed

lemma content_from_bytes_ok:
  "length data \<le> u64_max div 2 \<Longrightarrow> content_from_bytes blake data = Ok (content_of blake data)"
  using content_append_ok [of "[]" data blake]
  by (simp add: content_from_bytes_def content_empty_of [of blake, symmetric])

section \<open>Canonical marks\<close>

lemma checked_mul_double: "e * 2 \<le> u64_max \<Longrightarrow> checked_mul64 e 2 = Some (e * 2)"
  by (simp add: checked_mul64_def)

lemma validate_marks_from:
  "0 < m \<Longrightarrow> length data \<le> u64_max div 2 \<Longrightarrow>
     validate_marks (length data) m (marks_from blake data m) = Ok (mark_after (length data) m)"
proof (induction blake data m rule: marks_from.induct)
  case (1 blake data m)
  show ?case
  proof (cases "m < length data")
    case True
    then show ?thesis
      using "1.prems" "1.IH"
      by (simp add: marks_from.simps [of blake data m] mark_after.simps [of "length data" m]
          checked_mul64_def mult.commute)
  next
    case False
    then show ?thesis by (simp add: marks_from.simps [of blake data m] mark_after.simps [of "length data" m])
  qed
qed

lemma marks_from_length: "0 < m \<Longrightarrow> length data \<le> 2 ^ k * m \<Longrightarrow> length (marks_from blake data m) \<le> k"
proof (induction k arbitrary: m)
  case 0
  then show ?case by (simp add: marks_from.simps)
next
  case (Suc k)
  then show ?case by (simp add: marks_from.simps [of blake data m])
qed

lemma content_entry_valid:
  assumes "length data \<le> u64_max div 2"
  shows "validate_entry (content_entry blake (content_of blake data)) = Ok ()"
proof -
  have floor: "(0::nat) < MARK_FLOOR_BYTES" by simp
  have "length data \<le> 2 ^ 63" using assms by simp
  also have "\<dots> \<le> 2 ^ 63 * MARK_FLOOR_BYTES" by simp
  finally have "length (marks_from blake data MARK_FLOOR_BYTES) \<le> 63"
    by (intro marks_from_length) simp_all
  then show ?thesis
    using validate_marks_from [OF floor assms, of blake] mark_after_ge [OF floor, of "length data"]
    by (simp add: validate_entry_def content_entry_def content_of_def)
qed

section \<open>The binding codec\<close>

definition binding_ok :: "recovery_binding \<Rightarrow> bool" where
  "binding_ok b \<longleftrightarrow> validate_entry (rb_index_entry b) = Ok () \<and> ce_byte_length (rb_index_entry b) \<le> u64_max"

lemma validate_marks_no_panic [simp]: "validate_marks n e marks \<noteq> Panic"
  by (induction n e marks rule: validate_marks.induct) (auto simp: rbind_eq_Panic)

lemma validate_entry_no_panic [simp]: "validate_entry e \<noteq> Panic"
  by (auto simp: validate_entry_def rbind_eq_Panic)

lemma validate_marks_below: "validate_marks n e marks = Ok x \<Longrightarrow> \<forall>(p, h) \<in> set marks. p < n"
  by (induction n e marks rule: validate_marks.induct) (auto simp: rbind_eq_Ok split: if_splits)

lemma validate_entry_unit: "validate_entry e = Ok u \<longleftrightarrow> validate_entry e = Ok ()"
  by simp

lemma mark_bytes_simps [simp]:
  "mark_bytes [] = []" "mark_bytes ((p, h) # marks) = le_bytes 8 p @ hash16_bytes h @ mark_bytes marks"
  by (simp_all add: mark_bytes_def)

lemma length_mark_bytes [simp]: "length (mark_bytes marks) = 24 * length marks"
  by (induction marks) auto

lemma length_TKFR [simp]: "length TKFR = 4"
  by (simp add: TKFR_def)

lemma bind_take_at:
  "length pre = cursor \<Longrightarrow> length xs = n \<Longrightarrow> length pre + length xs \<le> u64_max \<Longrightarrow>
     bind_take n (pre @ xs @ rest) cursor = Ok (xs, cursor + n)"
  by (simp add: bind_take_def checked_add64_def)

lemma read_marks_at:
  "length marks = n \<Longrightarrow> \<forall>(p, h) \<in> set marks. p \<le> u64_max \<Longrightarrow> length pre = cursor \<Longrightarrow>
     length pre + 24 * length marks \<le> u64_max \<Longrightarrow>
     read_marks n (pre @ mark_bytes marks) cursor = Ok marks"
proof (induction marks arbitrary: n pre cursor)
  case Nil
  then show ?case by simp
next
  case (Cons m marks)
  obtain p h where m: "m = (p, h)" by (cases m)
  let ?rest = "hash16_bytes h @ mark_bytes marks"
  have p: "p < 256 ^ 8" using Cons.prems(2) m by simp
  have 1: "bind_take 8 (pre @ le_bytes 8 p @ ?rest) cursor = Ok (le_bytes 8 p, cursor + 8)"
    using Cons.prems by (intro bind_take_at) simp_all
  have 2: "bind_take 16 (pre @ le_bytes 8 p @ ?rest) (cursor + 8) = Ok (hash16_bytes h, cursor + 24)"
    using bind_take_at [of "pre @ le_bytes 8 p" "cursor + 8" "hash16_bytes h" 16 "mark_bytes marks"] Cons.prems
    by simp
  have 3: "read_marks (length marks) (pre @ le_bytes 8 p @ ?rest) (cursor + 24) = Ok marks"
    using Cons.IH [of "length marks" "pre @ le_bytes 8 p @ hash16_bytes h" "cursor + 24"] Cons.prems by simp
  have n: "n = Suc (length marks)" using Cons.prems(1) by simp
  show ?case unfolding m n using 1 2 3 of_le_le_bytes [OF p] by simp
qed

lemma bind_take_Ok: "bind_take n raw c = Ok (bs, c') \<Longrightarrow> length bs = n"
  by (auto simp: bind_take_def rbind_eq_Ok split: if_splits)

lemma bind_take_no_panic [simp]: "bind_take n raw c \<noteq> Panic"
  by (auto simp: bind_take_def rbind_eq_Panic)

lemma read_marks_no_panic [simp]: "read_marks n body c \<noteq> Panic"
  by (induction n body c rule: read_marks.induct) (auto simp: rbind_eq_Panic)

lemma binding_from_bytes_no_panic: "binding_from_bytes sha raw \<noteq> Panic"
  unfolding binding_from_bytes_def by (auto simp: rbind_eq_Panic Let_def split: if_splits)

lemma le8_bound: "length bs = 8 \<Longrightarrow> of_le bs \<le> u64_max"
proof -
  have p: "(256::nat) ^ 8 = 18446744073709551616" by simp
  assume "length bs = 8"
  then show ?thesis using of_le_less [of bs] p by simp
qed

lemma binding_from_bytes_sound: "binding_from_bytes sha raw = Ok b \<Longrightarrow> binding_ok b"
  unfolding binding_from_bytes_def binding_ok_def
  by (auto simp: rbind_eq_Ok Let_def split: if_splits dest: bind_take_Ok intro!: le8_bound)

lemma bind_take_bytes:
  "c + n \<le> length raw \<Longrightarrow> length raw \<le> u64_max \<Longrightarrow> bind_take n raw c = Ok (bytes_at raw c n, c + n)"
  by (simp add: bind_take_def checked_add64_def bytes_at_def)

definition binding_body :: "recovery_binding \<Rightarrow> u8 list" where
  "binding_body b =
     (let e = rb_index_entry b in
      TKFR @ le_bytes 2 VERSION @ hash_bytes (rb_record_hash b) @ le_bytes 8 (ce_byte_length e)
      @ hash_bytes (rb_text_digest b) @ hash16_bytes (ce_end_digest e)
      @ le_bytes 4 (length (ce_marks e)) @ mark_bytes (ce_marks e))"

lemma binding_slices:
  fixes b :: recovery_binding
  defines "raw \<equiv> binding_body b"
  shows "bytes_at raw 0 4 = TKFR" "bytes_at raw 4 2 = le_bytes 2 1" "bytes_at raw 6 32 = hash_bytes (rb_record_hash b)"
    "bytes_at raw 38 8 = le_bytes 8 (ce_byte_length (rb_index_entry b))"
    "bytes_at raw 46 32 = hash_bytes (rb_text_digest b)"
    "bytes_at raw 78 16 = hash16_bytes (ce_end_digest (rb_index_entry b))"
    "bytes_at raw 94 4 = le_bytes 4 (length (ce_marks (rb_index_entry b)))"
  by (simp_all add: raw_def binding_body_def Let_def layout)

lemma length_binding_body: "length (binding_body b) = 98 + 24 * length (ce_marks (rb_index_entry b))"
  by (simp add: binding_body_def Let_def)

lemma binding_round_trip:
  assumes ok: "binding_ok b"
  shows "\<exists>raw. binding_to_bytes sha b = Ok raw \<and> binding_from_bytes sha raw = Ok b"
proof -
  let ?body = "binding_body b" and ?e = "rb_index_entry b"
  let ?raw = "?body @ hash_bytes (sha (STATE_DOMAIN @ ?body))"
  have valid: "validate_entry ?e = Ok ()" and bl: "ce_byte_length ?e \<le> u64_max"
    using ok by (simp_all add: binding_ok_def)
  have few: "length (ce_marks ?e) \<le> 64" using valid by (auto simp: validate_entry_def split: if_splits)
  have "\<forall>(p, h) \<in> set (ce_marks ?e). p < ce_byte_length ?e"
    using valid by (auto simp: validate_entry_def rbind_eq_Ok split: if_splits dest!: validate_marks_below)
  then have pos: "\<forall>(p, h) \<in> set (ce_marks ?e). p \<le> u64_max" using bl by fastforce
  have enc: "binding_to_bytes sha b = Ok ?raw"
    by (simp add: binding_to_bytes_def binding_body_def Let_def valid)
  have marks: "read_marks (length (ce_marks ?e)) ?body 98 = Ok (ce_marks ?e)"
  proof -
    let ?pre = "take 98 ?body"
    have "?body = ?pre @ mark_bytes (ce_marks ?e)"
      by (simp add: binding_body_def Let_def)
    then show ?thesis
      using read_marks_at [of "ce_marks ?e" "length (ce_marks ?e)" ?pre 98] few pos length_binding_body [of b] by simp
  qed
  have len: "length ?body = 98 + 24 * length (ce_marks ?e)" by (rule length_binding_body)
  have small: "length ?body \<le> u64_max" using len few by simp
  have takes: "bind_take 4 ?body 0 = Ok (TKFR, 4)" "bind_take 2 ?body 4 = Ok (le_bytes 2 1, 6)"
    "bind_take 32 ?body 6 = Ok (hash_bytes (rb_record_hash b), 38)"
    "bind_take 8 ?body 38 = Ok (le_bytes 8 (ce_byte_length ?e), 46)"
    "bind_take 32 ?body 46 = Ok (hash_bytes (rb_text_digest b), 78)"
    "bind_take 16 ?body 78 = Ok (hash16_bytes (ce_end_digest ?e), 94)"
    "bind_take 4 ?body 94 = Ok (le_bytes 4 (length (ce_marks ?e)), 98)"
    using len small by (simp_all add: bind_take_bytes binding_slices)
  have nums: "of_le (le_bytes 2 1) = 1" "of_le (le_bytes 4 (length (ce_marks ?e))) = length (ce_marks ?e)"
    "of_le (le_bytes 8 (ce_byte_length ?e)) = ce_byte_length ?e"
    using few bl by (simp_all add: of_le_le_bytes)
  have cutb: "take (length ?raw - 32) ?raw = ?body" "drop (length ?raw - 32) ?raw = hash_bytes (sha (STATE_DOMAIN @ ?body))"
    by simp_all
  have big: "\<not> length ?raw < 130" using len by simp
  have close: "\<not> 64 < length (ce_marks ?e)" "length ?body = 98 + length (ce_marks ?e) * 24" using few len by simp_all
  have eta: "\<lparr>ce_byte_length = ce_byte_length ?e, ce_end_digest = ce_end_digest ?e, ce_marks = ce_marks ?e\<rparr> = ?e"
    "\<lparr>rb_record_hash = rb_record_hash b, rb_text_digest = rb_text_digest b, rb_index_entry = ?e\<rparr> = b"
    by simp_all
  have "binding_from_bytes sha ?raw = Ok b"
    unfolding binding_from_bytes_def Let_def cutb using big close
    by (simp add: takes nums(1) [unfolded One_nat_def] nums(2,3) marks valid eta)
  then show ?thesis using enc by blast
qed

interpretation binding_codec: codec "binding_to_bytes sha" "binding_from_bytes sha" binding_ok "\<lambda>b. b" for sha
  by unfold_locales
    (auto intro: binding_round_trip dest: binding_from_bytes_sound simp: binding_from_bytes_no_panic)

end
