(* ===== verification/Sidecar.thy ===== *)
theory Sidecar
  imports FormatProps
begin

text \<open>
  The cache structures beside the record format (\<^verbatim>\<open>sidecar.rs\<close>): the content address of a chain
  node, the checked reader, and the codecs of \<^verbatim>\<open>NodeCacheRecord\<close> and \<^verbatim>\<open>SessionSidecar\<close>, both a
  body followed by its domain-tagged checksum.
\<close>

section \<open>Constants and addresses\<close>

definition NODE_MAGIC :: "u8 list" where "NODE_MAGIC = bytes_of ''TKNC''"
definition SIDECAR_MAGIC :: "u8 list" where "SIDECAR_MAGIC = bytes_of ''TKSS''"
abbreviation (input) CACHE_VERSION :: nat where "CACHE_VERSION \<equiv> 1"
abbreviation (input) CHECKSUM_LEN :: nat where "CHECKSUM_LEN \<equiv> 32"
definition DOMAIN_NODE_KEY :: "u8 list" where "DOMAIN_NODE_KEY = bytes_of ''toktier.store.v1.node'' @ [0]"
definition DOMAIN_NODE_CACHE :: "u8 list" where "DOMAIN_NODE_CACHE = bytes_of ''toktier.store.v1.nodecache'' @ [0]"
definition DOMAIN_SIDECAR :: "u8 list" where "DOMAIN_SIDECAR = bytes_of ''toktier.store.v1.sidecar'' @ [0]"

definition len_u32 :: "nat \<Rightarrow> string \<Rightarrow> nat res" where
  "len_u32 n what =
     (if n \<le> u32_max then Ok n else Err (InvalidInput (what @ '' length '' @ show_nat n @ '' exceeds u32'')))"

definition checksum :: "(u8 list \<Rightarrow> hash32) \<Rightarrow> u8 list \<Rightarrow> u8 list \<Rightarrow> hash32" where
  "checksum sha domain body = sha (domain @ body)"

definition opt_hash_tagged :: "hash32 option \<Rightarrow> u8 list" where
  "opt_hash_tagged h = (case h of Some p \<Rightarrow> 1 # hash_bytes p | None \<Rightarrow> 0 # hash_bytes ZERO_HASH)"

definition node_key :: "(u8 list \<Rightarrow> hash32) \<Rightarrow> hash32 option \<Rightarrow> hash32 \<Rightarrow> nat \<Rightarrow> u8 list \<Rightarrow> hash32" where
  "node_key sha parent fingerprint block_index block_bytes =
     sha (DOMAIN_NODE_KEY
       @ (case parent of Some p \<Rightarrow> [1] @ hash_bytes p | None \<Rightarrow> [0] @ hash_bytes ZERO_HASH)
       @ le_bytes 8 block_index @ hash_bytes fingerprint @ block_bytes)"

section \<open>The checked reader\<close>

record reader =
  rd_buf :: "u8 list"
  rd_ix :: nat

definition reader_new :: "u8 list \<Rightarrow> reader" where
  "reader_new buf = \<lparr>rd_buf = buf, rd_ix = 0\<rparr>"

definition rd_take :: "reader \<Rightarrow> nat \<Rightarrow> string \<Rightarrow> (u8 list \<times> reader) res" where
  "rd_take r n context =
     rbind (ok_or (checked_add64 (rd_ix r) n) (Truncated context)) (\<lambda>end.
       if end > length (rd_buf r) then Err (Truncated context)
       else Ok (take n (drop (rd_ix r) (rd_buf r)), r\<lparr>rd_ix := end\<rparr>))"

definition rd_u8 :: "reader \<Rightarrow> string \<Rightarrow> (nat \<times> reader) res" where
  "rd_u8 r context = rbind (rd_take r 1 context) (\<lambda>(bs, r'). Ok (unat (bs ! 0), r'))"

definition rd_u16 :: "reader \<Rightarrow> string \<Rightarrow> (nat \<times> reader) res" where
  "rd_u16 r context = rbind (rd_take r 2 context) (\<lambda>(bs, r'). Ok (of_le bs, r'))"

definition rd_u32 :: "reader \<Rightarrow> string \<Rightarrow> (nat \<times> reader) res" where
  "rd_u32 r context = rbind (rd_take r 4 context) (\<lambda>(bs, r'). Ok (of_le bs, r'))"

definition rd_u64 :: "reader \<Rightarrow> string \<Rightarrow> (nat \<times> reader) res" where
  "rd_u64 r context = rbind (rd_take r 8 context) (\<lambda>(bs, r'). Ok (of_le bs, r'))"

definition rd_hash :: "reader \<Rightarrow> string \<Rightarrow> (hash32 \<times> reader) res" where
  "rd_hash r context = rbind (rd_take r CHECKSUM_LEN context) (\<lambda>(bs, r'). Ok (hash_of bs, r'))"

definition rd_ids :: "reader \<Rightarrow> nat \<Rightarrow> string \<Rightarrow> (u32 list \<times> reader) res" where
  "rd_ids r n context =
     rbind (ok_or (checked_mul64 n 4) (Truncated context)) (\<lambda>total.
     rbind (rd_take r total context) (\<lambda>(raw, r'). Ok (u32s_of raw, r')))"

text \<open>
  The message of a UTF-8 error: the index of the first bad sequence, and its length unless the
  input ends inside it.
\<close>

fun utf8_bad :: "nat \<Rightarrow> u8 list \<Rightarrow> (nat \<times> nat option) option" where
  "utf8_bad i [] = None"
| "utf8_bad i (a # bs) =
     (if a < 0x80 then utf8_bad (i + 1) bs
      else if 0xC2 \<le> a \<and> a \<le> 0xDF then
        (case bs of [] \<Rightarrow> Some (i, None)
         | b # rest \<Rightarrow> if is_cont b then utf8_bad (i + 2) rest else Some (i, Some 1))
      else if 0xE0 \<le> a \<and> a \<le> 0xEF then
        (case bs of [] \<Rightarrow> Some (i, None)
         | b # bs' \<Rightarrow>
             if \<not> is_cont b \<or> (a = 0xE0 \<and> b < 0xA0) \<or> (a = 0xED \<and> 0x9F < b) then Some (i, Some 1)
             else (case bs' of [] \<Rightarrow> Some (i, None)
                   | c # rest \<Rightarrow> if is_cont c then utf8_bad (i + 3) rest else Some (i, Some 2)))
      else if 0xF0 \<le> a \<and> a \<le> 0xF4 then
        (case bs of [] \<Rightarrow> Some (i, None)
         | b # bs' \<Rightarrow>
             if \<not> is_cont b \<or> (a = 0xF0 \<and> b < 0x90) \<or> (a = 0xF4 \<and> 0x8F < b) then Some (i, Some 1)
             else (case bs' of [] \<Rightarrow> Some (i, None)
                   | c # bs'' \<Rightarrow>
                       if \<not> is_cont c then Some (i, Some 2)
                       else (case bs'' of [] \<Rightarrow> Some (i, None)
                             | d # rest \<Rightarrow> if is_cont d then utf8_bad (i + 4) rest else Some (i, Some 3))))
      else Some (i, Some 1))"

definition utf8_error :: "u8 list \<Rightarrow> string" where
  "utf8_error bs =
     (case utf8_bad 0 bs of
        Some (i, Some n) \<Rightarrow> ''invalid utf-8 sequence of '' @ show_nat n @ '' bytes from index '' @ show_nat i
      | Some (i, None) \<Rightarrow> ''incomplete utf-8 byte sequence from index '' @ show_nat i
      | None \<Rightarrow> '''')"

definition rd_utf8 :: "reader \<Rightarrow> nat \<Rightarrow> string \<Rightarrow> (str \<times> reader) res" where
  "rd_utf8 r n context =
     rbind (rd_take r n context) (\<lambda>(raw, r').
     rbind (ok_or (from_utf8 raw) (MalformedRecord (''invalid UTF-8 in '' @ context @ '': '' @ utf8_error raw))) (\<lambda>s.
       Ok (s, r')))"

definition rd_finish :: "reader \<Rightarrow> unit res" where
  "rd_finish r =
     (if rd_ix r \<noteq> length (rd_buf r)
      then Err (MalformedRecord (show_nat (length (rd_buf r) - rd_ix r) @ '' trailing bytes''))
      else Ok ())"

definition read_opt_hash :: "reader \<Rightarrow> string \<Rightarrow> (hash32 option \<times> reader) res" where
  "read_opt_hash r context =
     rbind (rd_u8 r context) (\<lambda>(tag, r).
     rbind (rd_hash r context) (\<lambda>(raw, r).
       if tag = 0 then Ok (None, r)
       else if tag = 1 then Ok (Some raw, r)
       else Err (MalformedRecord (''bad option tag '' @ show_nat tag @ '' in '' @ context))))"

text \<open>\<^verbatim>\<open>split_at\<close> and the comparison of the trailing checksum.\<close>

definition split_checksum :: "(u8 list \<Rightarrow> hash32) \<Rightarrow> u8 list \<Rightarrow> string \<Rightarrow> u8 list \<Rightarrow> u8 list res" where
  "split_checksum sha domain context bytes =
     (if length bytes < CHECKSUM_LEN then Err (Truncated context)
      else let body = take (length bytes - CHECKSUM_LEN) bytes;
               cs = drop (length bytes - CHECKSUM_LEN) bytes in
           if hash_bytes (checksum sha domain body) \<noteq> cs then Err ChecksumMismatch else Ok body)"

section \<open>Chain nodes\<close>

record node_record =
  n_fingerprint :: hash32
  n_witness :: witness
  n_parent :: "hash32 option"
  n_key :: hash32
  n_block_index :: nat
  n_end_char :: nat
  n_safe_char :: nat
  n_ids_base :: nat
  n_end_byte :: nat
  n_ids :: "u32 list"
  n_text_tail :: str

definition node_body :: "node_record \<Rightarrow> u8 list res" where
  "node_body n =
     rbind (len_u32 (length (n_ids n)) ''node ids'') (\<lambda>n_ids_len.
     rbind (len_u32 (length (n_text_tail n)) ''node text tail'') (\<lambda>tail_len.
       Ok (NODE_MAGIC @ le_bytes 2 CACHE_VERSION @ le_bytes 2 (witness_as_u16 (n_witness n))
         @ hash_bytes (n_fingerprint n) @ opt_hash_tagged (n_parent n) @ hash_bytes (n_key n)
         @ le_bytes 8 (n_block_index n) @ le_bytes 8 (n_end_char n) @ le_bytes 8 (n_safe_char n)
         @ le_bytes 8 (n_ids_base n) @ le_bytes 8 (n_end_byte n) @ le_bytes 4 n_ids_len
         @ le_bytes 4 tail_len @ ids_le (n_ids n) @ n_text_tail n)))"

definition node_to_bytes :: "(u8 list \<Rightarrow> hash32) \<Rightarrow> node_record \<Rightarrow> u8 list res" where
  "node_to_bytes sha n =
     rbind (node_body n) (\<lambda>w. Ok (w @ hash_bytes (checksum sha DOMAIN_NODE_CACHE w)))"

definition node_from_bytes :: "(u8 list \<Rightarrow> hash32) \<Rightarrow> u8 list \<Rightarrow> node_record res" where
  "node_from_bytes sha bytes =
     rbind (split_checksum sha DOMAIN_NODE_CACHE ''node cache'' bytes) (\<lambda>body.
     rbind (rd_take (reader_new body) 4 ''node magic'') (\<lambda>(magic, r).
     if magic \<noteq> NODE_MAGIC then Err BadMagic
     else rbind (rd_u16 r ''node version'') (\<lambda>(version, r).
     if version \<noteq> CACHE_VERSION then Err (UnsupportedFormatVersion version)
     else rbind (rd_u16 r ''node witness'') (\<lambda>(wv, r).
     rbind (witness_from_u16 wv) (\<lambda>witness.
     rbind (rd_take r 32 ''node fingerprint'') (\<lambda>(fp, r).
     rbind (read_opt_hash r ''node parent'') (\<lambda>(parent, r).
     rbind (rd_hash r ''node key'') (\<lambda>(key, r).
     rbind (rd_u64 r ''node block_index'') (\<lambda>(block_index, r).
     rbind (rd_u64 r ''node end_char'') (\<lambda>(end_char, r).
     rbind (rd_u64 r ''node safe_char'') (\<lambda>(safe_char, r).
     rbind (rd_u64 r ''node ids_base'') (\<lambda>(ids_base, r).
     rbind (rd_u64 r ''node end_byte'') (\<lambda>(end_byte, r).
     rbind (rd_u32 r ''node id count'') (\<lambda>(n_ids, r).
     rbind (rd_u32 r ''node tail length'') (\<lambda>(tail_len, r).
     rbind (rd_ids r n_ids ''node ids'') (\<lambda>(ids, r).
     rbind (rd_utf8 r tail_len ''node text tail'') (\<lambda>(text_tail, r).
     rbind (rd_finish r) (\<lambda>_.
     if safe_char > end_char then Err (MalformedRecord ''node safe_char exceeds end_char'')
     else if tail_len > end_byte then Err (MalformedRecord ''node text tail longer than end_byte'')
     else if checked_add64 ids_base n_ids = None then Err (MalformedRecord ''node token count overflow'')
     else Ok \<lparr>n_fingerprint = hash_of fp, n_witness = witness, n_parent = parent, n_key = key,
            n_block_index = block_index, n_end_char = end_char, n_safe_char = safe_char,
            n_ids_base = ids_base, n_end_byte = end_byte, n_ids = ids, n_text_tail = text_tail\<rparr>))))))))))))))))))"

section \<open>Session sidecar\<close>

record sidecar =
  sc_record_curr :: hash32
  sc_total_chars :: nat
  sc_safe_char :: nat
  sc_safe_byte :: nat
  sc_blocks_end :: nat
  sc_blocks_end_byte :: nat
  sc_scan_floor :: nat
  sc_chain_base_safe :: nat
  sc_chain_base_idx :: nat
  sc_chain_tail :: "hash32 option"
  sc_chain_ok :: bool
  sc_sealed_count :: nat
  sc_last_replace_from :: nat
  sc_buf :: str
  sc_seal_log :: "(nat \<times> nat) list"

definition log_bytes :: "(nat \<times> nat) list \<Rightarrow> u8 list" where
  "log_bytes log = concat (map (\<lambda>(c, i). le_bytes 8 c @ le_bytes 8 i) log)"

definition sidecar_body :: "sidecar \<Rightarrow> u8 list res" where
  "sidecar_body s =
     rbind (len_u32 (length (sc_buf s)) ''sidecar buf'') (\<lambda>buf_len.
     rbind (len_u32 (length (sc_seal_log s)) ''seal log'') (\<lambda>n_log.
       Ok (SIDECAR_MAGIC @ le_bytes 2 CACHE_VERSION @ hash_bytes (sc_record_curr s)
         @ le_bytes 8 (sc_total_chars s) @ le_bytes 8 (sc_safe_char s) @ le_bytes 8 (sc_safe_byte s)
         @ le_bytes 8 (sc_blocks_end s) @ le_bytes 8 (sc_blocks_end_byte s) @ le_bytes 8 (sc_scan_floor s)
         @ le_bytes 8 (sc_chain_base_safe s) @ le_bytes 8 (sc_chain_base_idx s)
         @ opt_hash_tagged (sc_chain_tail s) @ [if sc_chain_ok s then 1 else 0]
         @ le_bytes 8 (sc_sealed_count s) @ le_bytes 8 (sc_last_replace_from s)
         @ le_bytes 4 buf_len @ le_bytes 4 n_log @ sc_buf s @ log_bytes (sc_seal_log s))))"

definition sidecar_to_bytes :: "(u8 list \<Rightarrow> hash32) \<Rightarrow> sidecar \<Rightarrow> u8 list res" where
  "sidecar_to_bytes sha s =
     rbind (sidecar_body s) (\<lambda>w. Ok (w @ hash_bytes (checksum sha DOMAIN_SIDECAR w)))"

text \<open>The loop over the seal log entries.\<close>

fun rd_log :: "nat \<Rightarrow> reader \<Rightarrow> ((nat \<times> nat) list \<times> reader) res" where
  "rd_log 0 r = Ok ([], r)"
| "rd_log (Suc n) r =
     rbind (rd_u64 r ''seal log entry'') (\<lambda>(c, r).
     rbind (rd_u64 r ''seal log entry'') (\<lambda>(i, r).
     rbind (rd_log n r) (\<lambda>(log, r). Ok ((c, i) # log, r))))"

definition rd_flag :: "reader \<Rightarrow> (bool \<times> reader) res" where
  "rd_flag r =
     rbind (rd_u8 r ''sidecar chain_ok'') (\<lambda>(b, r).
       if b = 0 then Ok (False, r) else if b = 1 then Ok (True, r)
       else Err (MalformedRecord (''bad chain_ok flag '' @ show_nat b)))"

definition sidecar_from_bytes :: "(u8 list \<Rightarrow> hash32) \<Rightarrow> u8 list \<Rightarrow> sidecar res" where
  "sidecar_from_bytes sha bytes =
     rbind (split_checksum sha DOMAIN_SIDECAR ''session sidecar'' bytes) (\<lambda>body.
     rbind (rd_take (reader_new body) 4 ''sidecar magic'') (\<lambda>(magic, r).
     if magic \<noteq> SIDECAR_MAGIC then Err BadMagic
     else rbind (rd_u16 r ''sidecar version'') (\<lambda>(version, r).
     if version \<noteq> CACHE_VERSION then Err (UnsupportedFormatVersion version)
     else rbind (rd_hash r ''sidecar record binding'') (\<lambda>(record_curr, r).
     rbind (rd_u64 r ''sidecar total_chars'') (\<lambda>(total_chars, r).
     rbind (rd_u64 r ''sidecar safe_char'') (\<lambda>(safe_char, r).
     rbind (rd_u64 r ''sidecar safe_byte'') (\<lambda>(safe_byte, r).
     rbind (rd_u64 r ''sidecar blocks_end'') (\<lambda>(blocks_end, r).
     rbind (rd_u64 r ''sidecar blocks_end_byte'') (\<lambda>(blocks_end_byte, r).
     rbind (rd_u64 r ''sidecar scan_floor'') (\<lambda>(scan_floor, r).
     rbind (rd_u64 r ''sidecar chain_base_safe'') (\<lambda>(chain_base_safe, r).
     rbind (rd_u64 r ''sidecar chain_base_idx'') (\<lambda>(chain_base_idx, r).
     rbind (read_opt_hash r ''sidecar chain_tail'') (\<lambda>(chain_tail, r).
     rbind (rd_flag r) (\<lambda>(chain_ok, r).
     rbind (rd_u64 r ''sidecar sealed_count'') (\<lambda>(sealed_count, r).
     rbind (rd_u64 r ''sidecar last_replace_from'') (\<lambda>(last_replace_from, r).
     rbind (rd_u32 r ''sidecar buf length'') (\<lambda>(buf_len, r).
     rbind (rd_u32 r ''seal log count'') (\<lambda>(n_log, r).
     rbind (rd_utf8 r buf_len ''sidecar buf'') (\<lambda>(buf, r).
     rbind (rd_log n_log r) (\<lambda>(seal_log, r).
     rbind (rd_finish r) (\<lambda>_.
     if safe_char > total_chars then Err (MalformedRecord ''sidecar safe_char exceeds total_chars'')
     else if blocks_end > total_chars then Err (MalformedRecord ''sidecar blocks_end exceeds total_chars'')
     else Ok \<lparr>sc_record_curr = record_curr, sc_total_chars = total_chars, sc_safe_char = safe_char,
            sc_safe_byte = safe_byte, sc_blocks_end = blocks_end, sc_blocks_end_byte = blocks_end_byte,
            sc_scan_floor = scan_floor, sc_chain_base_safe = chain_base_safe,
            sc_chain_base_idx = chain_base_idx, sc_chain_tail = chain_tail, sc_chain_ok = chain_ok,
            sc_sealed_count = sealed_count, sc_last_replace_from = last_replace_from, sc_buf = buf,
            sc_seal_log = seal_log\<rparr>)))))))))))))))))))))"

section \<open>Reading what was written\<close>

text \<open>The reader after \<open>pre\<close>, with \<open>rest\<close> still to come.\<close>

definition rd_at :: "u8 list \<Rightarrow> u8 list \<Rightarrow> reader" where
  "rd_at pre rest = \<lparr>rd_buf = pre @ rest, rd_ix = length pre\<rparr>"

lemma reader_new_at: "reader_new b = rd_at [] b"
  by (simp add: reader_new_def rd_at_def)

named_theorems reads \<open>one read of what one write produced\<close>

lemma rd_take_at [reads]:
  "length xs = n \<Longrightarrow> length pre + length xs + length rest \<le> u64_max \<Longrightarrow>
     rd_take (rd_at pre (xs @ rest)) n ctx = Ok (xs, rd_at (pre @ xs) rest)"
  by (simp add: rd_take_def rd_at_def checked_add64_def)

lemma rd_u8_at [reads]:
  "Suc (length pre + length rest) \<le> u64_max \<Longrightarrow>
     rd_u8 (rd_at pre (x # rest)) ctx = Ok (unat x, rd_at (pre @ [x]) rest)"
  using rd_take_at [of "[x]" 1 pre rest ctx] by (simp add: rd_u8_def)

lemma rd_u16_at [reads]:
  "v < 256 ^ 2 \<Longrightarrow> length pre + 2 + length rest \<le> u64_max \<Longrightarrow>
     rd_u16 (rd_at pre (le_bytes 2 v @ rest)) ctx = Ok (v, rd_at (pre @ le_bytes 2 v) rest)"
  using rd_take_at [of "le_bytes 2 v" 2 pre rest ctx] by (simp add: rd_u16_def of_le_le_bytes)

lemma rd_u32_at [reads]:
  "v \<le> u32_max \<Longrightarrow> length pre + 4 + length rest \<le> u64_max \<Longrightarrow>
     rd_u32 (rd_at pre (le_bytes 4 v @ rest)) ctx = Ok (v, rd_at (pre @ le_bytes 4 v) rest)"
  using rd_take_at [of "le_bytes 4 v" 4 pre rest ctx] by (simp add: rd_u32_def of_le_le_bytes)

lemma rd_u64_at [reads]:
  "v \<le> u64_max \<Longrightarrow> length pre + 8 + length rest \<le> u64_max \<Longrightarrow>
     rd_u64 (rd_at pre (le_bytes 8 v @ rest)) ctx = Ok (v, rd_at (pre @ le_bytes 8 v) rest)"
  using rd_take_at [of "le_bytes 8 v" 8 pre rest ctx] by (simp add: rd_u64_def of_le_le_bytes)

lemma rd_hash_at [reads]:
  "length pre + 32 + length rest \<le> u64_max \<Longrightarrow>
     rd_hash (rd_at pre (hash_bytes h @ rest)) ctx = Ok (h, rd_at (pre @ hash_bytes h) rest)"
  using rd_take_at [of "hash_bytes h" 32 pre rest ctx] by (simp add: rd_hash_def)

lemma rd_ids_at [reads]:
  "length ids = n \<Longrightarrow> length pre + 4 * length ids + length rest \<le> u64_max \<Longrightarrow>
     rd_ids (rd_at pre (ids_le ids @ rest)) n ctx = Ok (ids, rd_at (pre @ ids_le ids) rest)"
  using rd_take_at [of "ids_le ids" "n * 4" pre rest ctx] by (simp add: rd_ids_def checked_mul64_def)

lemma rd_utf8_at [reads]:
  "length s = n \<Longrightarrow> valid_utf8 s \<Longrightarrow> length pre + length s + length rest \<le> u64_max \<Longrightarrow>
     rd_utf8 (rd_at pre (s @ rest)) n ctx = Ok (s, rd_at (pre @ s) rest)"
  using rd_take_at [of s n pre rest ctx] by (simp add: rd_utf8_def from_utf8_def)

lemma rd_finish_at [reads]: "rd_finish (rd_at pre []) = Ok ()"
  by (simp add: rd_finish_def rd_at_def)

lemma length_opt_hash_tagged [simp]: "length (opt_hash_tagged h) = 33"
  by (simp add: opt_hash_tagged_def split: option.splits)

lemma read_opt_hash_at [reads]:
  "length pre + 33 + length rest \<le> u64_max \<Longrightarrow>
     read_opt_hash (rd_at pre (opt_hash_tagged h @ rest)) ctx = Ok (h, rd_at (pre @ opt_hash_tagged h) rest)"
  by (cases h) (simp_all add: read_opt_hash_def opt_hash_tagged_def reads)

lemma log_bytes_simps [simp]:
  "log_bytes [] = []" "log_bytes ((c, i) # log) = le_bytes 8 c @ le_bytes 8 i @ log_bytes log"
  by (simp_all add: log_bytes_def)

lemma length_log_bytes [simp]: "length (log_bytes log) = 16 * length log"
  by (induction log) auto

lemma rd_log_at [reads]:
  "length log = n \<Longrightarrow> \<forall>(c, i) \<in> set log. c \<le> u64_max \<and> i \<le> u64_max \<Longrightarrow>
     length pre + 16 * length log + length rest \<le> u64_max \<Longrightarrow>
     rd_log n (rd_at pre (log_bytes log @ rest)) = Ok (log, rd_at (pre @ log_bytes log) rest)"
  by (induction log arbitrary: n pre) (auto simp: reads)

lemma rd_flag_at [reads]:
  "Suc (length pre + length rest) \<le> u64_max \<Longrightarrow>
     rd_flag (rd_at pre ((if c then 1 else 0) # rest)) = Ok (c, rd_at (pre @ [if c then 1 else 0]) rest)"
  by (simp add: rd_flag_def reads)

lemma split_checksum_at:
  "split_checksum sha domain ctx (body @ hash_bytes (checksum sha domain body)) = Ok body"
  by (simp add: split_checksum_def)

end
