(* ===== verification/SidecarProps.thy ===== *)
theory SidecarProps
  imports Sidecar
begin

text \<open>
  The codec contract for the two cache structures. A decoded option tag of zero drops the hash
  bytes after it, so a node that is read may have come from other bytes than the writer's; what
  it means is read back unchanged.
\<close>

section \<open>Well-formed cache structures\<close>

definition node_ok :: "node_record \<Rightarrow> bool" where
  "node_ok n \<longleftrightarrow>
     length (n_ids n) \<le> u32_max \<and> length (n_text_tail n) \<le> u32_max \<and> valid_utf8 (n_text_tail n)
     \<and> n_block_index n \<le> u64_max \<and> n_end_char n \<le> u64_max \<and> n_end_byte n \<le> u64_max
     \<and> n_safe_char n \<le> n_end_char n \<and> length (n_text_tail n) \<le> n_end_byte n
     \<and> n_ids_base n + length (n_ids n) \<le> u64_max"

definition sidecar_ok :: "sidecar \<Rightarrow> bool" where
  "sidecar_ok s \<longleftrightarrow>
     length (sc_buf s) \<le> u32_max \<and> valid_utf8 (sc_buf s) \<and> length (sc_seal_log s) \<le> u32_max
     \<and> (\<forall>(c, i) \<in> set (sc_seal_log s). c \<le> u64_max \<and> i \<le> u64_max)
     \<and> sc_total_chars s \<le> u64_max \<and> sc_safe_byte s \<le> u64_max
     \<and> sc_blocks_end_byte s \<le> u64_max \<and> sc_scan_floor s \<le> u64_max
     \<and> sc_chain_base_safe s \<le> u64_max \<and> sc_chain_base_idx s \<le> u64_max
     \<and> sc_sealed_count s \<le> u64_max \<and> sc_last_replace_from s \<le> u64_max
     \<and> sc_safe_char s \<le> sc_total_chars s \<and> sc_blocks_end s \<le> sc_total_chars s"

section \<open>Round trips\<close>

lemma length_magics [simp]: "length NODE_MAGIC = 4" "length SIDECAR_MAGIC = 4"
  by (simp_all add: NODE_MAGIC_def SIDECAR_MAGIC_def)

lemma len_u32_Ok [simp]: "len_u32 n what = Ok m \<longleftrightarrow> m = n \<and> n \<le> u32_max"
  by (auto simp: len_u32_def)

lemma len_u32_no_panic [simp]: "len_u32 n what \<noteq> Panic"
  by (simp add: len_u32_def)

lemma len_u32_fits [simp]: "n \<le> u32_max \<Longrightarrow> len_u32 n what = Ok n"
  by simp

lemma rd_utf8_end [reads]:
  "length s = n \<Longrightarrow> valid_utf8 s \<Longrightarrow> length pre + length s \<le> u64_max \<Longrightarrow>
     rd_utf8 (rd_at pre s) n ctx = Ok (s, rd_at (pre @ s) [])"
  using rd_utf8_at [of s n pre "[]" ctx] by simp

lemma rd_log_end [reads]:
  "length log = n \<Longrightarrow> \<forall>(c, i) \<in> set log. c \<le> u64_max \<and> i \<le> u64_max \<Longrightarrow>
     length pre + 16 * length log \<le> u64_max \<Longrightarrow>
     rd_log n (rd_at pre (log_bytes log)) = Ok (log, rd_at (pre @ log_bytes log) [])"
  using rd_log_at [of log n pre "[]"] by simp

lemma of_le_witness: "witness_as_u16 w < 65536"
  using witness_u16_bound [of w] by simp

lemma node_round_trip:
  assumes "node_ok n"
  shows "\<exists>b. node_to_bytes sha n = Ok b \<and> node_from_bytes sha b = Ok n"
proof -
  have ok: "length (n_ids n) \<le> u32_max" "length (n_text_tail n) \<le> u32_max" "valid_utf8 (n_text_tail n)"
    "n_block_index n \<le> u64_max" "n_end_char n \<le> u64_max" "n_end_byte n \<le> u64_max"
    "n_safe_char n \<le> n_end_char n" "n_safe_char n \<le> u64_max" "n_ids_base n \<le> u64_max"
    "length (n_text_tail n) \<le> n_end_byte n" "n_ids_base n + length (n_ids n) \<le> u64_max"
    using assms by (simp_all add: node_ok_def)
  from ok obtain body where body: "node_body n = Ok body" by (simp add: node_body_def)
  let ?b = "body @ hash_bytes (checksum sha DOMAIN_NODE_CACHE body)"
  have bd: "body = (case node_body n of Ok w \<Rightarrow> w | _ \<Rightarrow> [])" using body by simp
  have "node_from_bytes sha ?b = Ok n"
    unfolding node_from_bytes_def split_checksum_at rbind.simps bd using ok
    by (simp add: reader_new_at node_body_def reads of_le_witness
        checked_add64_def)
  then show ?thesis using body by (simp add: node_to_bytes_def)
qed

lemma sidecar_round_trip:
  assumes "sidecar_ok s"
  shows "\<exists>b. sidecar_to_bytes sha s = Ok b \<and> sidecar_from_bytes sha b = Ok s"
proof -
  have ok: "length (sc_buf s) \<le> u32_max" "valid_utf8 (sc_buf s)" "length (sc_seal_log s) \<le> u32_max"
    "\<forall>(c, i) \<in> set (sc_seal_log s). c \<le> u64_max \<and> i \<le> u64_max" "sc_total_chars s \<le> u64_max"
    "sc_safe_byte s \<le> u64_max" "sc_blocks_end_byte s \<le> u64_max" "sc_scan_floor s \<le> u64_max"
    "sc_chain_base_safe s \<le> u64_max" "sc_chain_base_idx s \<le> u64_max" "sc_sealed_count s \<le> u64_max"
    "sc_last_replace_from s \<le> u64_max" "sc_safe_char s \<le> sc_total_chars s"
    "sc_blocks_end s \<le> sc_total_chars s" "sc_safe_char s \<le> u64_max" "sc_blocks_end s \<le> u64_max"
    using assms by (simp_all add: sidecar_ok_def)
  from ok obtain body where body: "sidecar_body s = Ok body" by (simp add: sidecar_body_def)
  let ?b = "body @ hash_bytes (checksum sha DOMAIN_SIDECAR body)"
  have bd: "body = (case sidecar_body s of Ok w \<Rightarrow> w | _ \<Rightarrow> [])" using body by simp
  have "sidecar_from_bytes sha ?b = Ok s"
    unfolding sidecar_from_bytes_def split_checksum_at rbind.simps bd using ok
    by (simp add: reader_new_at sidecar_body_def reads)
  then show ?thesis using body by (simp add: sidecar_to_bytes_def)
qed

section \<open>What an accepted structure satisfies\<close>

lemma rd_take_Ok: "rd_take r n ctx = Ok (bs, r') \<Longrightarrow> length bs = n"
  by (auto simp: rd_take_def rbind_eq_Ok split: if_splits)

lemma rd_take_no_panic [simp]: "rd_take r n ctx \<noteq> Panic"
  by (auto simp: rd_take_def rbind_eq_Panic)

lemma le_bound: "length bs = n \<Longrightarrow> of_le bs < 256 ^ n"
  using of_le_less by blast

lemma rd_u64_Ok: "rd_u64 r ctx = Ok (v, r') \<Longrightarrow> v \<le> u64_max"
proof -
  have p: "(256::nat) ^ 8 = 18446744073709551616" by simp
  assume "rd_u64 r ctx = Ok (v, r')"
  then obtain bs where "rd_take r 8 ctx = Ok (bs, r')" "v = of_le bs" by (auto simp: rd_u64_def rbind_eq_Ok)
  then show ?thesis using le_bound [OF rd_take_Ok] p by fastforce
qed

lemma rd_u32_Ok: "rd_u32 r ctx = Ok (v, r') \<Longrightarrow> v \<le> u32_max"
proof -
  have p: "(256::nat) ^ 4 = 4294967296" by simp
  assume "rd_u32 r ctx = Ok (v, r')"
  then obtain bs where "rd_take r 4 ctx = Ok (bs, r')" "v = of_le bs" by (auto simp: rd_u32_def rbind_eq_Ok)
  then show ?thesis using le_bound [OF rd_take_Ok] p by fastforce
qed

lemma rd_ids_Ok: "rd_ids r n ctx = Ok (ids, r') \<Longrightarrow> length ids = n"
  by (auto simp: rd_ids_def rbind_eq_Ok length_u32s_of dest: rd_take_Ok)

lemma rd_utf8_Ok: "rd_utf8 r n ctx = Ok (s, r') \<Longrightarrow> length s = n \<and> valid_utf8 s"
  by (auto simp: rd_utf8_def rbind_eq_Ok from_utf8_def dest: rd_take_Ok split: if_splits)

lemma rd_log_Ok:
  "rd_log n r = Ok (log, r') \<Longrightarrow> length log = n \<and> (\<forall>(c, i) \<in> set log. c \<le> u64_max \<and> i \<le> u64_max)"
proof (induction n r arbitrary: log r' rule: rd_log.induct)
  case (1 r)
  then show ?case by simp
next
  case (2 n r)
  from "2.prems" obtain c r1 i r2 rest r3 where
    c: "rd_u64 r ''seal log entry'' = Ok (c, r1)" and i: "rd_u64 r1 ''seal log entry'' = Ok (i, r2)"
    and rest: "rd_log n r2 = Ok (rest, r3)" and log: "log = (c, i) # rest"
    by (auto simp: rbind_eq_Ok)
  have "length rest = n \<and> (\<forall>(c, i) \<in> set rest. c \<le> u64_max \<and> i \<le> u64_max)"
    using "2.IH" c i rest by blast
  then show ?case using log rd_u64_Ok [OF c] rd_u64_Ok [OF i] by simp
qed

lemma node_from_bytes_sound: "node_from_bytes sha b = Ok n \<Longrightarrow> node_ok n"
  unfolding node_from_bytes_def node_ok_def
  by (auto simp: rbind_eq_Ok checked_add64_def split: if_splits
      dest!: rd_u64_Ok rd_u32_Ok rd_ids_Ok rd_utf8_Ok)

lemma sidecar_from_bytes_sound: "sidecar_from_bytes sha b = Ok s \<Longrightarrow> sidecar_ok s"
  unfolding sidecar_from_bytes_def sidecar_ok_def
  by (auto simp: rbind_eq_Ok split: if_splits dest!: rd_u64_Ok rd_u32_Ok rd_utf8_Ok rd_log_Ok)

lemma reads_no_panic [simp]:
  "rd_u8 r ctx \<noteq> Panic" "rd_u16 r ctx \<noteq> Panic" "rd_u32 r ctx \<noteq> Panic" "rd_u64 r ctx \<noteq> Panic"
  "rd_hash r ctx \<noteq> Panic" "rd_ids r n ctx \<noteq> Panic" "rd_utf8 r n ctx \<noteq> Panic" "rd_finish r \<noteq> Panic"
  by (auto simp: rd_u8_def rd_u16_def rd_u32_def rd_u64_def rd_hash_def rd_ids_def rd_utf8_def
      rd_finish_def rbind_eq_Panic)

lemma compound_reads_no_panic [simp]:
  "read_opt_hash r ctx \<noteq> Panic" "rd_flag r \<noteq> Panic" "split_checksum sha domain ctx b \<noteq> Panic"
  by (auto simp: read_opt_hash_def rd_flag_def split_checksum_def rbind_eq_Panic Let_def split: if_splits)

lemma rd_log_no_panic [simp]: "rd_log n r \<noteq> Panic"
  by (induction n r rule: rd_log.induct) (auto simp: rbind_eq_Panic)

lemma node_from_bytes_no_panic: "node_from_bytes sha b \<noteq> Panic"
  unfolding node_from_bytes_def by (auto simp: rbind_eq_Panic split: if_splits)

lemma sidecar_from_bytes_no_panic: "sidecar_from_bytes sha b \<noteq> Panic"
  unfolding sidecar_from_bytes_def by (auto simp: rbind_eq_Panic split: if_splits)

interpretation node_codec: codec "node_to_bytes sha" "node_from_bytes sha" node_ok "\<lambda>n. n" for sha
  by unfold_locales
    (auto intro: node_round_trip dest: node_from_bytes_sound simp: node_from_bytes_no_panic)

interpretation sidecar_codec: codec "sidecar_to_bytes sha" "sidecar_from_bytes sha" sidecar_ok "\<lambda>s. s" for sha
  by unfold_locales
    (auto intro: sidecar_round_trip dest: sidecar_from_bytes_sound simp: sidecar_from_bytes_no_panic)

end
