(* ===== verification/Table.thy ===== *)
theory Table
  imports Main "HOL-Library.AList"
begin

text \<open>
  The hash maps of the store. A \<^verbatim>\<open>HashMap\<close> is used through \<^verbatim>\<open>get\<close>, \<^verbatim>\<open>insert\<close>, \<^verbatim>\<open>remove\<close>, \<^verbatim>\<open>len\<close> and its
  keys; the locale states what the store relies on, the association lists of the library provide it.
\<close>

locale hash_map =
  fixes get :: "'m \<Rightarrow> 'k \<Rightarrow> 'v option"
    and put :: "'m \<Rightarrow> 'k \<Rightarrow> 'v \<Rightarrow> 'm"
    and del :: "'m \<Rightarrow> 'k \<Rightarrow> 'm"
    and ks :: "'m \<Rightarrow> 'k list"
    and map_ok :: "'m \<Rightarrow> bool"
  assumes get_put: "get (put m k v) l = (if l = k then Some v else get m l)"
    and get_del: "get (del m k) l = (if l = k then None else get m l)"
    and keys_get: "set (ks m) = {k. get m k \<noteq> None}"
    and keys_distinct: "map_ok m \<Longrightarrow> distinct (ks m)"
    and put_ok: "map_ok m \<Longrightarrow> map_ok (put m k v)"
    and del_ok: "map_ok m \<Longrightarrow> map_ok (del m k)"
begin

abbreviation size_of :: "'m \<Rightarrow> nat" where "size_of m \<equiv> length (ks m)"

lemma size_card: "map_ok m \<Longrightarrow> size_of m = card {k. get m k \<noteq> None}"
  using distinct_card [OF keys_distinct] keys_get by metis

lemma finite_keys: "finite {k. get m k \<noteq> None}"
  using finite_set keys_get by metis

lemma size_put_new:
  assumes "map_ok m" "get m k = None"
  shows "size_of (put m k v) = Suc (size_of m)"
proof -
  have "{l. get (put m k v) l \<noteq> None} = insert k {l. get m l \<noteq> None}" by (auto simp: get_put)
  with assms size_card [OF put_ok [OF assms(1)]] size_card [OF assms(1)] finite_keys show ?thesis by simp
qed

lemma size_put_old:
  assumes "map_ok m" "get m k \<noteq> None"
  shows "size_of (put m k v) = size_of m"
proof -
  have "{l. get (put m k v) l \<noteq> None} = {l. get m l \<noteq> None}" using assms(2) by (auto simp: get_put)
  with size_card [OF put_ok [OF assms(1)]] size_card [OF assms(1)] show ?thesis by simp
qed

lemma size_del:
  assumes "map_ok m" "get m k \<noteq> None"
  shows "Suc (size_of (del m k)) = size_of m"
proof -
  have "{l. get m l \<noteq> None} = insert k {l. get (del m k) l \<noteq> None}" using assms(2) by (auto simp: get_del)
  moreover have "k \<notin> {l. get (del m k) l \<noteq> None}" by (simp add: get_del)
  ultimately show ?thesis
    using size_card [OF del_ok [OF assms(1)]] size_card [OF assms(1)] finite_keys
    by (metis card_insert_disjoint)
qed

lemma get_None_iff: "get m k = None \<longleftrightarrow> k \<notin> set (ks m)"
  by (simp add: keys_get)

end

section \<open>Association lists\<close>

type_synonym ('k, 'v) table = "('k \<times> 'v) list"

definition tbl_get :: "('k, 'v) table \<Rightarrow> 'k \<Rightarrow> 'v option" where
  "tbl_get t k = map_of t k"

definition tbl_put :: "('k, 'v) table \<Rightarrow> 'k \<Rightarrow> 'v \<Rightarrow> ('k, 'v) table" where
  "tbl_put t k v = AList.update k v t"

definition tbl_del :: "('k, 'v) table \<Rightarrow> 'k \<Rightarrow> ('k, 'v) table" where
  "tbl_del t k = AList.delete k t"

definition tbl_keys :: "('k, 'v) table \<Rightarrow> 'k list" where
  "tbl_keys t = map fst t"

definition tbl_ok :: "('k, 'v) table \<Rightarrow> bool" where
  "tbl_ok t \<longleftrightarrow> distinct (map fst t)"

interpretation tbl: hash_map tbl_get tbl_put tbl_del tbl_keys tbl_ok
proof
  fix t :: "('k, 'v) table" and k l v
  show "tbl_get (tbl_put t k v) l = (if l = k then Some v else tbl_get t l)"
    by (simp add: tbl_get_def tbl_put_def update_conv')
  show "tbl_get (tbl_del t k) l = (if l = k then None else tbl_get t l)"
    by (simp add: tbl_get_def tbl_del_def delete_conv')
  show "set (tbl_keys t) = {k. tbl_get t k \<noteq> None}"
    by (auto simp: tbl_keys_def tbl_get_def map_of_eq_None_iff)
  show "tbl_ok t \<Longrightarrow> distinct (tbl_keys t)" by (simp add: tbl_ok_def tbl_keys_def)
  show "tbl_ok t \<Longrightarrow> tbl_ok (tbl_put t k v)" by (simp add: tbl_ok_def tbl_put_def distinct_update)
  show "tbl_ok t \<Longrightarrow> tbl_ok (tbl_del t k)" by (simp add: tbl_ok_def tbl_del_def distinct_delete)
qed

lemma tbl_Nil [simp]: "tbl_get [] k = None" "tbl_keys [] = []" "tbl_ok []"
  by (simp_all add: tbl_get_def tbl_keys_def tbl_ok_def)

lemma tbl_ok_put [simp]: "tbl_ok (tbl_put t k v) = tbl_ok t"
  by (simp add: tbl_ok_def tbl_put_def update_keys)

lemma tbl_put_twice [simp]: "tbl_put (tbl_put t k v) k w = tbl_put t k w"
  by (simp add: tbl_put_def update_last)

lemmas tbl_simps [simp] = tbl.get_put tbl.get_del
lemmas tbl_oks [intro] = tbl.put_ok tbl.del_ok

end
