(* ===== verification/Session.thy ===== *)
theory Session
  imports Encoder Recovery SidecarProps Table
begin

text \<open>
  The per-session state of \<^verbatim>\<open>store.rs\<close>: the sealed token stream, the recovery digest, the chain
  node entries, the session record and its commit hash. SHA-256 is the parameter \<open>sha\<close>.
\<close>

section \<open>Configuration, keys and counters\<close>

record config =
  c_block_chars :: nat
  c_soft_cap :: nat
  c_hard_cap :: nat
  c_node_cap :: nat
  c_max_sessions :: nat

definition default_config :: config where
  "default_config = \<lparr>c_block_chars = 4096, c_soft_cap = 65536, c_hard_cap = 1048576,
     c_node_cap = 65536, c_max_sessions = 1024\<rparr>"

definition config_validate :: "config \<Rightarrow> unit res" where
  "config_validate cfg =
     (if c_block_chars cfg = 0 then Err (InvalidConfig ''block_chars must be > 0'')
      else if c_soft_cap cfg > c_hard_cap cfg
      then Err (InvalidConfig ''tail_soft_cap_bytes must be <= tail_hard_cap_bytes'')
      else if c_max_sessions cfg = 0 then Err (InvalidConfig ''max_sessions must be > 0'')
      else Ok ())"

record key_ctx =
  k_fingerprint :: hash32
  k_guard :: nat

record stats =
  st_puts :: nat
  st_extends :: nat
  st_forks :: nat
  st_lookups :: nat
  st_lookup_hits :: nat
  st_lookup_misses :: nat
  st_checksum_rejects :: nat
  st_k_cap_overflows :: nat
  st_hard_cap_degrades :: nat
  st_seals :: nat
  st_sealed_tokens :: nat
  st_sessions_evicted :: nat
  st_nodes_skipped :: nat
  st_chain_detaches :: nat
  st_import_rejects :: nat
  st_revision_conflicts :: nat
  st_path_counts :: "(string, nat) table"

definition stats_zero :: stats where
  "stats_zero = \<lparr>st_puts = 0, st_extends = 0, st_forks = 0, st_lookups = 0, st_lookup_hits = 0,
     st_lookup_misses = 0, st_checksum_rejects = 0, st_k_cap_overflows = 0, st_hard_cap_degrades = 0,
     st_seals = 0, st_sealed_tokens = 0, st_sessions_evicted = 0, st_nodes_skipped = 0,
     st_chain_detaches = 0, st_import_rejects = 0, st_revision_conflicts = 0, st_path_counts = []\<rparr>"

definition bump_path :: "stats \<Rightarrow> string \<Rightarrow> stats" where
  "bump_path s path =
     s\<lparr>st_path_counts := tbl_put (st_path_counts s) path
        ((case tbl_get (st_path_counts s) path of Some n \<Rightarrow> n | None \<Rightarrow> 0) + 1)\<rparr>"

section \<open>The sealed stream\<close>

record sealed_ids =
  sl_blocks :: "shared_ids list"
  sl_owned :: "u32 list"
  sl_len :: nat

definition sealed_default :: sealed_ids where
  "sealed_default = \<lparr>sl_blocks = [], sl_owned = [], sl_len = 0\<rparr>"

definition sealed_is_empty :: "sealed_ids \<Rightarrow> bool" where
  "sealed_is_empty s \<longleftrightarrow> sl_len s = 0"

text \<open>\<open>a\<close> is the address of the allocation that freezing the owned suffix makes.\<close>

definition push_shared :: "nat \<Rightarrow> sealed_ids \<Rightarrow> shared_ids \<Rightarrow> sealed_ids" where
  "push_shared a s ids =
     (if shared_is_empty ids then s
      else
        let s' = (if sl_owned s \<noteq> []
                  then s\<lparr>sl_blocks := sl_blocks s @ [shared_from_vec a (sl_owned s)], sl_owned := []\<rparr>
                  else s)
        in s'\<lparr>sl_len := sl_len s' + shared_len ids, sl_blocks := sl_blocks s' @ [ids]\<rparr>)"

definition sealed_extend :: "sealed_ids \<Rightarrow> u32 list \<Rightarrow> sealed_ids" where
  "sealed_extend s ids = s\<lparr>sl_owned := sl_owned s @ ids, sl_len := sl_len s + length ids\<rparr>"

definition sealed_from_vec :: "u32 list \<Rightarrow> sealed_ids" where
  "sealed_from_vec ids = \<lparr>sl_blocks = [], sl_owned = ids, sl_len = length ids\<rparr>"

definition sealed_parts :: "sealed_ids \<Rightarrow> u32 list list" where
  "sealed_parts s = map as_slice (sl_blocks s) @ (if sl_owned s \<noteq> [] then [sl_owned s] else [])"

text \<open>The loop over the parts: what goes to \<open>out\<close> past the absolute index \<open>from_ix\<close>.\<close>

fun extend_suffix :: "nat \<Rightarrow> nat \<Rightarrow> u32 list list \<Rightarrow> u32 list" where
  "extend_suffix base from_ix [] = []"
| "extend_suffix base from_ix (part # parts) =
     (if base + length part > from_ix then drop (from_ix - base) part else [])
     @ extend_suffix (base + length part) from_ix parts"

definition extend_suffix_into :: "sealed_ids \<Rightarrow> u32 list \<Rightarrow> nat \<Rightarrow> u32 list" where
  "extend_suffix_into s out from_ix = out @ extend_suffix 0 from_ix (sealed_parts s)"

definition suffix_to_vec :: "sealed_ids \<Rightarrow> nat \<Rightarrow> u32 list" where
  "suffix_to_vec s from_ix = extend_suffix_into s [] from_ix"

definition as_single_shared :: "sealed_ids \<Rightarrow> shared_ids option" where
  "as_single_shared s =
     (case (sl_blocks s, sl_owned s) of ([single], []) \<Rightarrow> Some single | _ \<Rightarrow> None)"

section \<open>The recovery digest\<close>

definition RECOVERY_TEXT_DOMAIN :: "u8 list" where
  "RECOVERY_TEXT_DOMAIN = bytes_of ''toktier.facade.v1.recovery-text'' @ [0]"

record recovery_digest =
  rd_hasher :: "u8 list"
  rd_text_bytes :: nat

record recovery_material =
  rm_record_hash :: hash32
  rm_text_bytes :: nat
  rm_text_digest :: hash32

definition recovery_empty :: recovery_digest where
  "recovery_empty = \<lparr>rd_hasher = RECOVERY_TEXT_DOMAIN, rd_text_bytes = 0\<rparr>"

definition recovery_append :: "recovery_digest \<Rightarrow> str \<Rightarrow> recovery_digest res" where
  "recovery_append d delta =
     rbind (ok_or (checked_add64 (rd_text_bytes d) (length delta)) (InvalidInput ''text byte length exceeds u64''))
       (\<lambda>next. Ok \<lparr>rd_hasher = rd_hasher d @ delta, rd_text_bytes = next\<rparr>)"

definition recovery_from_text :: "str \<Rightarrow> recovery_digest res" where
  "recovery_from_text text = recovery_append recovery_empty text"

definition recovery_material_of :: "(u8 list \<Rightarrow> hash32) \<Rightarrow> recovery_digest \<Rightarrow> hash32 \<Rightarrow> recovery_material" where
  "recovery_material_of sha d record_hash =
     \<lparr>rm_record_hash = record_hash, rm_text_bytes = rd_text_bytes d, rm_text_digest = sha (rd_hasher d)\<rparr>"

section \<open>Chain node entries\<close>

record node_entry =
  ne_rec :: node_record
  ne_checksum :: hash32

definition trailing_checksum :: "u8 list \<Rightarrow> hash32 res" where
  "trailing_checksum bytes =
     (if length bytes < 32 then Err (Internal ''serialized cache record shorter than its checksum'')
      else Ok (hash_of (drop (length bytes - 32) bytes)))"

definition entry_create :: "(u8 list \<Rightarrow> hash32) \<Rightarrow> node_record \<Rightarrow> node_entry res" where
  "entry_create sha r =
     rbind (node_to_bytes sha r) (\<lambda>bytes.
     rbind (trailing_checksum bytes) (\<lambda>cs. Ok \<lparr>ne_rec = r, ne_checksum = cs\<rparr>))"

definition entry_verify :: "(u8 list \<Rightarrow> hash32) \<Rightarrow> node_entry \<Rightarrow> bool" where
  "entry_verify sha e =
     (case node_to_bytes sha (ne_rec e) of
        Ok bytes \<Rightarrow> (case trailing_checksum bytes of Ok cs \<Rightarrow> cs = ne_checksum e | _ \<Rightarrow> False)
      | _ \<Rightarrow> False)"

section \<open>Sessions\<close>

record session =
  s_key_id :: nat
  s_witness :: witness
  s_revision :: nat
  s_prev_hash :: hash32
  s_record_hash :: hash32
  s_last_replace :: nat
  s_total_chars :: nat
  s_safe_char :: nat
  s_safe_byte :: nat
  s_sealed :: sealed_ids
  s_payload :: payload_hasher
  s_generation :: nat
  s_snapshot :: "(nat \<times> shared_ids) option"
  s_blocks_end :: nat
  s_blocks_end_byte :: nat
  s_buf :: str
  s_chain_tail :: "hash32 option"
  s_base_safe :: nat
  s_base_idx :: nat
  s_chain_ok :: bool
  s_seal_log :: "(nat \<times> nat) list"
  s_scan_floor :: nat
  s_tail :: tail_state
  s_recovery :: "recovery_digest option"
  s_content :: "content_digest option"
  s_last_used :: nat

definition fresh :: "nat \<Rightarrow> witness \<Rightarrow> nat \<Rightarrow> session" where
  "fresh key_id wit clock =
     \<lparr>s_key_id = key_id, s_witness = wit, s_revision = 0, s_prev_hash = ZERO_HASH,
      s_record_hash = ZERO_HASH, s_last_replace = 0, s_total_chars = 0, s_safe_char = 0,
      s_safe_byte = 0, s_sealed = sealed_default, s_payload = payload_hasher_new, s_generation = 0,
      s_snapshot = None, s_blocks_end = 0, s_blocks_end_byte = 0, s_buf = [], s_chain_tail = None,
      s_base_safe = 0, s_base_idx = 0, s_chain_ok = True, s_seal_log = [(0, 0)], s_scan_floor = 0,
      s_tail = tail_new, s_recovery = None, s_content = None, s_last_used = clock\<rparr>"

definition sess_token_count :: "session \<Rightarrow> nat" where
  "sess_token_count s = sl_len (s_sealed s) + n_tokens (s_tail s)"

definition bump_generation :: "session \<Rightarrow> session" where
  "bump_generation s = s\<lparr>s_generation := s_generation s + 1, s_snapshot := None\<rparr>"

definition recorded_replace :: "session \<Rightarrow> nat" where
  "recorded_replace s = (if s_witness s = NoneFullReencode then 0 else s_last_replace s)"

definition commit_hash :: "(u8 list \<Rightarrow> hash32) \<Rightarrow> session \<Rightarrow> hash32 \<Rightarrow> hash32" where
  "commit_hash sha s fingerprint =
     (let digest = digest_with_tail sha (s_payload s) (ids_of (s_tail s)) (tl_text (s_tail s));
          tail_len = text_bytes (s_tail s) in
      link_hash sha \<lparr>li_prev = s_prev_hash s, li_fingerprint = fingerprint, li_revision = s_revision s,
        li_full = add64 (s_safe_byte s) tail_len, li_stable = s_safe_byte s, li_tail = tail_len,
        li_tokens = sess_token_count s, li_replace = recorded_replace s, li_witness = s_witness s,
        li_digest = digest\<rparr>)"

text \<open>\<^verbatim>\<open>materialize_all_ids\<close>\<close>

definition materialize_all_ids :: "session \<Rightarrow> u32 list" where
  "materialize_all_ids s = concat (sealed_parts (s_sealed s)) @ ids_of (s_tail s)"

end
