(* ===== verification/Sealing.thy ===== *)
theory Sealing
  imports Session
begin

text \<open>
  The bookkeeping after a session's text grew (\<^verbatim>\<open>store.rs\<close>): the text helpers, the block hash
  chain (\<^verbatim>\<open>seal_blocks\<close>), the move of a certified head into the sealed stream (\<^verbatim>\<open>seal_tail\<close>) and
  their composition \<^verbatim>\<open>post_text_ops\<close>. \<open>work\<close> is what these functions borrow mutably, with the
  address the next allocation gets.
\<close>

section \<open>Text helpers\<close>

fun char_to_byte_scan :: "nat \<Rightarrow> nat \<Rightarrow> nat \<Rightarrow> (nat \<times> nat) list \<Rightarrow> nat" where
  "char_to_byte_scan len count target [] = len"
| "char_to_byte_scan len count target ((ix, _) # rest) =
     (if count = target then ix else char_to_byte_scan len (Suc count) target rest)"

definition char_to_byte :: "str \<Rightarrow> nat \<Rightarrow> nat" where
  "char_to_byte s n = (if n = 0 then 0 else char_to_byte_scan (length s) 0 n (char_indices s))"

text \<open>The state of the loop is \<^verbatim>\<open>prev\<close> and \<^verbatim>\<open>count\<close>; every slice lies between two characters.\<close>

fun block_scan :: "str \<Rightarrow> nat \<Rightarrow> nat \<Rightarrow> nat \<Rightarrow> (nat \<times> nat) list \<Rightarrow> str list" where
  "block_scan text block_chars prev count [] =
     (if count \<noteq> 0 \<and> count mod block_chars = 0 then [drop prev text] else [])"
| "block_scan text block_chars prev count ((ix, _) # rest) =
     (if count \<noteq> 0 \<and> count mod block_chars = 0
      then take (ix - prev) (drop prev text) # block_scan text block_chars ix (Suc count) rest
      else block_scan text block_chars prev (Suc count) rest)"

definition block_slices :: "str \<Rightarrow> nat \<Rightarrow> str list" where
  "block_slices text block_chars = block_scan text block_chars 0 0 (char_indices text)"

definition char_u32 :: "nat \<Rightarrow> nat res" where
  "char_u32 n = (if n \<le> u32_max then Ok n else Err (Internal ''char index exceeds u32''))"

definition tail_byte_ix :: "tail_state \<Rightarrow> nat \<Rightarrow> nat" where
  "tail_byte_ix t n = byte_ix_of_char (tl_text t) (tl_chars t) n"

definition text_range :: "session \<Rightarrow> nat \<Rightarrow> nat \<Rightarrow> str res" where
  "text_range s a b =
     (if a > b \<or> b > s_total_chars s
      then Err (Internal (''text_range ['' @ show_nat a @ '', '' @ show_nat b @ '') out of bounds''))
      else
        rbind (if a < s_safe_char s
               then if a < s_blocks_end s
                    then Err (Internal (''text_range start '' @ show_nat a @ '' precedes blocks_end ''
                           @ show_nat (s_blocks_end s)))
                    else str_slice (s_buf s) (char_to_byte (s_buf s) (a - s_blocks_end s))
                           (char_to_byte (s_buf s) (min b (s_safe_char s) - s_blocks_end s))
               else Ok []) (\<lambda>out.
        if b > s_safe_char s
        then
          rbind (char_u32 (max a (s_safe_char s) - s_safe_char s)) (\<lambda>lo_char.
          rbind (char_u32 (b - s_safe_char s)) (\<lambda>hi_char.
          rbind (str_slice (tl_text (s_tail s)) (tail_byte_ix (s_tail s) lo_char) (tail_byte_ix (s_tail s) hi_char))
            (\<lambda>piece. Ok (out @ piece))))
        else Ok out))"

section \<open>Working state\<close>

record work =
  wk_sess :: session
  wk_nodes :: "(hash32, node_entry) table"
  wk_stats :: stats
  wk_next_alloc :: nat

definition upd_stats :: "(stats \<Rightarrow> stats) \<Rightarrow> work \<Rightarrow> work" where
  "upd_stats f w = w\<lparr>wk_stats := f (wk_stats w)\<rparr>"

definition upd_sess :: "(session \<Rightarrow> session) \<Rightarrow> work \<Rightarrow> work" where
  "upd_sess f w = w\<lparr>wk_sess := f (wk_sess w)\<rparr>"

definition detach_chain :: "work \<Rightarrow> work" where
  "detach_chain w =
     upd_stats (\<lambda>st. st\<lparr>st_chain_detaches := st_chain_detaches st + 1\<rparr>)
       (upd_sess (\<lambda>s. s\<lparr>s_chain_ok := False, s_buf := []\<rparr>) w)"

section \<open>The block hash chain\<close>

text \<open>The walk back over the seal log: while entries are at or past the node's safe point.\<close>

definition adopts :: "(nat \<times> nat) list \<Rightarrow> node_record \<Rightarrow> nat \<Rightarrow> bool" where
  "adopts log n cum_end \<longleftrightarrow>
     (\<exists>e \<in> set (takeWhile (\<lambda>(c, _). c \<ge> n_safe_char n) (rev log)). fst e = n_safe_char n \<and> snd e = cum_end)"

definition chain_node :: "session \<Rightarrow> key_ctx \<Rightarrow> hash32 \<Rightarrow> nat \<Rightarrow> nat \<Rightarrow> nat \<Rightarrow> str \<Rightarrow> node_record" where
  "chain_node s key key_hash index end_char end_byte text_tail =
     \<lparr>n_fingerprint = k_fingerprint key, n_witness = s_witness s, n_parent = s_chain_tail s,
      n_key = key_hash, n_block_index = index, n_end_char = end_char, n_safe_char = s_safe_char s,
      n_ids_base = s_base_idx s, n_end_byte = end_byte,
      n_ids = suffix_to_vec (s_sealed s) (s_base_idx s), n_text_tail = text_tail\<rparr>"

text \<open>The node of a completed block is adopted or written; False leaves the loop.\<close>

definition adopt_node :: "hash32 \<Rightarrow> node_record \<Rightarrow> work \<Rightarrow> work \<times> bool res" where
  "adopt_node key_hash existing w =
     (let cum_end = add64 (n_ids_base existing) (length (n_ids existing)) in
      if \<not> adopts (s_seal_log (wk_sess w)) existing cum_end then (detach_chain w, Ok False)
      else (upd_sess (\<lambda>s. s\<lparr>s_chain_tail := Some key_hash, s_base_safe := n_safe_char existing,
                           s_base_idx := cum_end\<rparr>) w, Ok True))"

definition write_node ::
  "(u8 list \<Rightarrow> hash32) \<Rightarrow> config \<Rightarrow> key_ctx \<Rightarrow> hash32 \<Rightarrow> nat \<Rightarrow> nat \<Rightarrow> nat \<Rightarrow> work \<Rightarrow> work \<times> bool res" where
  "write_node sha cfg key key_hash index end_char end_byte w =
     (let s = wk_sess w in
      if s_safe_char s > end_char then (w, Err (Internal ''safe_char beyond a completing block''))
      else attempt w (text_range s (s_safe_char s) end_char) (\<lambda>text_tail.
      if length text_tail > c_node_cap cfg
      then (detach_chain (upd_stats (\<lambda>st. st\<lparr>st_nodes_skipped := st_nodes_skipped st + 1\<rparr>) w), Ok False)
      else if s_base_idx s > sl_len (s_sealed s)
      then (w, Err (Internal ''chain base index exceeds the sealed stream''))
      else attempt w (entry_create sha (chain_node s key key_hash index end_char end_byte text_tail)) (\<lambda>entry.
        (upd_sess (\<lambda>s. s\<lparr>s_chain_tail := Some key_hash, s_base_safe := s_safe_char s,
                        s_base_idx := sl_len (s_sealed s)\<rparr>)
           (w\<lparr>wk_nodes := tbl_put (wk_nodes w) key_hash entry\<rparr>), Ok True))))"

text \<open>One turn of the loop; the result says whether to go on. A division by zero panics.\<close>

definition seal_block_step ::
  "(u8 list \<Rightarrow> hash32) \<Rightarrow> config \<Rightarrow> key_ctx \<Rightarrow> work \<Rightarrow> work \<times> bool res" where
  "seal_block_step sha cfg key w =
     (let s = wk_sess w in
      case checked_add64 (s_blocks_end s) (c_block_chars cfg) of
        None \<Rightarrow> (w, Ok False)
      | Some end_char \<Rightarrow>
          if \<not> (s_chain_ok s \<and> end_char \<le> s_total_chars s) then (w, Ok False)
          else if c_block_chars cfg = 0 then (w, Panic)
          else
            let index = s_blocks_end s div c_block_chars cfg in
            attempt w (text_range s (s_blocks_end s) end_char) (\<lambda>block.
            let key_hash = node_key sha (s_chain_tail s) (k_fingerprint key) index block in
            attempt w (ok_or (checked_add64 (s_blocks_end_byte s) (length block))
                        (Internal ''block byte accounting overflow'')) (\<lambda>end_byte.
            andthen
              (case tbl_get (wk_nodes w) key_hash of
                 Some existing \<Rightarrow> adopt_node key_hash (ne_rec existing) w
               | None \<Rightarrow> write_node sha cfg key key_hash index end_char end_byte w)
              (\<lambda>w go_on.
                 if go_on
                 then (upd_sess (\<lambda>s. s\<lparr>s_blocks_end := end_char, s_blocks_end_byte := end_byte,
                         s_buf := drop (char_to_byte (s_buf s) (c_block_chars cfg)) (s_buf s)\<rparr>) w, Ok True)
                 else (w, Ok False)))))"

lemma wk_simps [simp]:
  "wk_sess (upd_sess f w) = f (wk_sess w)" "wk_stats (upd_sess f w) = wk_stats w"
  "wk_nodes (upd_sess f w) = wk_nodes w" "wk_next_alloc (upd_sess f w) = wk_next_alloc w"
  "wk_sess (upd_stats g w) = wk_sess w" "wk_stats (upd_stats g w) = g (wk_stats w)"
  "wk_nodes (upd_stats g w) = wk_nodes w" "wk_next_alloc (upd_stats g w) = wk_next_alloc w"
  by (simp_all add: upd_sess_def upd_stats_def)

text \<open>What a turn that goes on does to the session: enough for the loop to end.\<close>

definition chain_move :: "config \<Rightarrow> session \<Rightarrow> session \<Rightarrow> bool" where
  "chain_move cfg s s' \<longleftrightarrow>
     (\<exists>ct bs bi eb. s' = s\<lparr>s_chain_tail := ct, s_base_safe := bs, s_base_idx := bi,
        s_blocks_end := s_blocks_end s + c_block_chars cfg, s_blocks_end_byte := eb,
        s_buf := drop (char_to_byte (s_buf s) (c_block_chars cfg)) (s_buf s)\<rparr>)
     \<and> s_blocks_end s + c_block_chars cfg \<le> s_total_chars s \<and> 0 < c_block_chars cfg \<and> s_chain_ok s"

lemma adopt_node_True:
  "adopt_node kh existing w = (w', Ok True) \<Longrightarrow> w' = upd_sess (\<lambda>s. s\<lparr>s_chain_tail := Some kh,
     s_base_safe := n_safe_char existing, s_base_idx := add64 (n_ids_base existing) (length (n_ids existing))\<rparr>) w"
  by (auto simp: adopt_node_def Let_def split: if_splits)

lemma write_node_True:
  "write_node sha cfg key kh index end_char end_byte w = (w', Ok True) \<Longrightarrow>
     \<exists>nodes. w' = upd_sess (\<lambda>s. s\<lparr>s_chain_tail := Some kh, s_base_safe := s_safe_char s,
       s_base_idx := sl_len (s_sealed s)\<rparr>) (w\<lparr>wk_nodes := nodes\<rparr>)"
  by (auto simp: write_node_def Let_def attempt_eq_Ok split: if_splits)

lemma seal_block_step_True:
  assumes "seal_block_step sha cfg key w = (w', Ok True)"
  shows "chain_move cfg (wk_sess w) (wk_sess w')"
proof -
  let ?stop = "s_blocks_end (wk_sess w) + c_block_chars cfg"
  from assms have guards: "?stop \<le> s_total_chars (wk_sess w)" "0 < c_block_chars cfg" "s_chain_ok (wk_sess w)"
    by (auto simp: seal_block_step_def Let_def split: option.splits if_splits)
  from assms obtain kh index eb w1 where
    node: "(\<exists>e. adopt_node kh e w = (w1, Ok True)) \<or> write_node sha cfg key kh index ?stop eb w = (w1, Ok True)"
    and w': "w' = upd_sess (\<lambda>s. s\<lparr>s_blocks_end := ?stop, s_blocks_end_byte := eb,
         s_buf := drop (char_to_byte (s_buf s) (c_block_chars cfg)) (s_buf s)\<rparr>) w1"
    by (auto simp: seal_block_step_def Let_def attempt_eq_Ok andthen_eq_Ok split: option.splits if_splits; blast)
  from node obtain ct bs bi where
    "wk_sess w1 = (wk_sess w)\<lparr>s_chain_tail := ct, s_base_safe := bs, s_base_idx := bi\<rparr>"
    by (auto dest!: adopt_node_True write_node_True)
  then have "wk_sess w' = (wk_sess w)\<lparr>s_chain_tail := ct, s_base_safe := bs, s_base_idx := bi,
      s_blocks_end := ?stop, s_blocks_end_byte := eb,
      s_buf := drop (char_to_byte (s_buf (wk_sess w)) (c_block_chars cfg)) (s_buf (wk_sess w))\<rparr>"
    by (simp add: w')
  with guards show ?thesis unfolding chain_move_def by blast
qed

function seal_blocks ::
  "(u8 list \<Rightarrow> hash32) \<Rightarrow> config \<Rightarrow> key_ctx \<Rightarrow> work \<Rightarrow> work \<times> unit res" where
  "seal_blocks sha cfg key w =
     (case seal_block_step sha cfg key w of
        (w', Ok True) \<Rightarrow> seal_blocks sha cfg key w'
      | (w', Ok False) \<Rightarrow> (w', Ok ())
      | (w', Err e) \<Rightarrow> (w', Err e)
      | (w', Panic) \<Rightarrow> (w', Panic))"
  by pat_completeness auto
termination
  by (relation "measure (\<lambda>(sha, cfg, key, w). s_total_chars (wk_sess w) - s_blocks_end (wk_sess w))")
    (auto simp: chain_move_def dest!: seal_block_step_True [OF sym])

declare seal_blocks.simps [simp del]

section \<open>Sealing the tail\<close>

definition seal_head :: "nat \<Rightarrow> shared_ids option \<Rightarrow> u32 list \<Rightarrow> session \<Rightarrow> session" where
  "seal_head a head_shared head_ids s =
     (case head_shared of
        Some view \<Rightarrow>
          s\<lparr>s_payload := update_ids (s_payload s) (as_slice view), s_sealed := push_shared a (s_sealed s) view\<rparr>
      | None \<Rightarrow>
          s\<lparr>s_payload := update_ids (s_payload s) head_ids, s_sealed := sealed_extend (s_sealed s) head_ids\<rparr>)"

text \<open>The unhashed part of the sealed head enters \<^verbatim>\<open>buf\<close>.\<close>

definition retain_head :: "nat \<Rightarrow> session \<Rightarrow> session res" where
  "retain_head bix s =
     (if s_chain_ok s
      then rbind (str_slice (tl_text (s_tail s)) 0 bix) (\<lambda>head_text.
           let skip = char_to_byte head_text (s_blocks_end s - s_safe_char s) in
           rbind (str_slice head_text skip (length head_text)) (\<lambda>kept. Ok (s\<lparr>s_buf := s_buf s @ kept\<rparr>)))
      else Ok s)"

definition rebased_tail ::
  "tail_state \<Rightarrow> nat \<Rightarrow> nat \<Rightarrow> nat \<Rightarrow> shared_ids option \<Rightarrow> nat list \<Rightarrow> nat list \<Rightarrow> tail_state res" where
  "rebased_tail t cut_ix cut32 bix rest_shared win_starts win_ends =
     rbind (str_slice (tl_text t) bix (text_bytes t)) (\<lambda>rest_text.
     let rest_starts = map (\<lambda>start. sub32 start cut32) (drop 1 win_starts);
         rest_ends = map (\<lambda>end. sub32 end cut32) (drop 1 win_ends) in
     case rest_shared of
       Some view \<Rightarrow> fill_shared_state rest_text view rest_starts rest_ends
     | None \<Rightarrow> fill_soa_state rest_text
         \<lparr>soa_ids = drop cut_ix (ids_of t), soa_starts = rest_starts, soa_ends = rest_ends\<rparr>)"

definition opt_slice :: "shared_ids option \<Rightarrow> nat \<Rightarrow> nat \<Rightarrow> shared_ids option res" where
  "opt_slice view lo hi =
     (case view of None \<Rightarrow> Ok None | Some v \<Rightarrow> rbind (shared_slice v lo hi) (\<lambda>x. Ok (Some x)))"

definition seal_tail :: "boundary_cut \<Rightarrow> work \<Rightarrow> work \<times> unit res" where
  "seal_tail c w =
     (let s = wk_sess w; t = s_tail s; cut_ix = cut_tokens c; n = n_tokens t in
      if cut_char c > u32_max then (w, Err (Internal ''seal cut_char exceeds u32''))
      else let cut32 = cut_char c in
      if cut_ix = 0 \<or> cut_ix \<ge> n
      then (w, Err (Internal (''seal cut_tokens '' @ show_nat cut_ix @ '' out of range'')))
      else attempt w (span_window t (cut_ix - 1) n) (\<lambda>(win_starts, win_ends).
      attempt w (vec_get win_starts 1) (\<lambda>next_start.
      if next_start \<noteq> cut32 then (w, Err (Internal ''seal cut_char is not the next token start''))
      else attempt w (vec_get win_ends 0) (\<lambda>head_end.
      if head_end > cut32 then (w, Err (Internal ''seal cut would split a token group mid-char''))
      else let bix = tail_byte_ix t cut32 in
      attempt w (opt_slice (tail_shared_ids t) 0 cut_ix) (\<lambda>head_shared.
      attempt w (opt_slice (tail_shared_ids t) cut_ix n) (\<lambda>rest_shared.
      let w1 = upd_sess (seal_head (wk_next_alloc w) head_shared (take cut_ix (ids_of t)))
                 (upd_stats (\<lambda>st. st\<lparr>st_seals := st_seals st + 1,
                                    st_sealed_tokens := st_sealed_tokens st + cut_ix\<rparr>)
                   (w\<lparr>wk_next_alloc := Suc (wk_next_alloc w)\<rparr>)) in
      attempt w1 (retain_head bix (wk_sess w1)) (\<lambda>s2.
      let s3 = s2\<lparr>s_safe_char := add64 (s_safe_char s2) (cut_char c),
                  s_safe_byte := add64 (s_safe_byte s2) bix\<rparr>;
          s4 = s3\<lparr>s_seal_log := s_seal_log s3 @ [(s_safe_char s3, sl_len (s_sealed s3))]\<rparr>;
          w4 = w1\<lparr>wk_sess := s4\<rparr> in
      attempt w4 (rebased_tail t cut_ix cut32 bix rest_shared win_starts win_ends) (\<lambda>rebased.
        (upd_sess (\<lambda>s. s\<lparr>s_tail := rebased\<rparr>) w4, Ok ())))))))))"

section \<open>After the text grew\<close>

text \<open>The attempt to advance the certified seal point.\<close>

definition advance_seal :: "config \<Rightarrow> key_ctx \<Rightarrow> encoder \<Rightarrow> nat \<Rightarrow> work \<Rightarrow> work \<times> unit res" where
  "advance_seal cfg key engine tail_chars w =
     (let s = wk_sess w; tail_bytes = text_bytes (s_tail s); ceil = tail_chars - k_guard key in
      if (tail_chars > c_block_chars cfg \<or> tail_bytes > c_soft_cap cfg) \<and> ceil > s_scan_floor s
      then attempt w (from_engine (eng_boundary engine (s_tail s) (s_scan_floor s) ceil)) (\<lambda>found.
           case found of
             Some c \<Rightarrow>
               andthen (seal_tail c w) (\<lambda>w2 _.
                 (upd_sess (\<lambda>s. s\<lparr>s_scan_floor := sub64 ceil (cut_char c)\<rparr>) w2, Ok ()))
           | None \<Rightarrow> (upd_sess (\<lambda>s. s\<lparr>s_scan_floor := ceil\<rparr>) w, Ok ()))
      else (w, Ok ()))"

definition post_text_ops ::
  "(u8 list \<Rightarrow> hash32) \<Rightarrow> config \<Rightarrow> key_ctx \<Rightarrow> encoder \<Rightarrow> work \<Rightarrow> work \<times> unit res" where
  "post_text_ops sha cfg key engine w =
     (let tail_chars = tl_chars (s_tail (wk_sess w));
          w0 = upd_sess (\<lambda>s. s\<lparr>s_total_chars := add64 (s_safe_char s) tail_chars\<rparr>) w in
      andthen (if s_chain_ok (wk_sess w0) then seal_blocks sha cfg key w0 else (w0, Ok ())) (\<lambda>w1 _.
      andthen (advance_seal cfg key engine tail_chars w1) (\<lambda>w3 _.
      if text_bytes (s_tail (wk_sess w3)) > c_soft_cap cfg
      then (upd_stats (\<lambda>st. st\<lparr>st_k_cap_overflows := st_k_cap_overflows st + 1\<rparr>) w3, Ok ())
      else (w3, Ok ()))))"

end
