(* ===== verification/SessionProps.thy ===== *)
theory SessionProps
  imports Sealing
begin

text \<open>
  The sealed stream refines a list of ids, the running payload hasher refines the digest of the
  whole stream, and the bookkeeping of \<^verbatim>\<open>seal_blocks\<close> touches only the chain attachment of a session.
\<close>

section \<open>The sealed stream as a list\<close>

text \<open>
  What a session asks of its sealed storage: the stream it stands for, its length, a suffix of
  it, and growth at the end only.
\<close>

locale id_stream =
  fixes stream :: "'s \<Rightarrow> u32 list"
    and size_of :: "'s \<Rightarrow> nat"
    and suffix :: "'s \<Rightarrow> nat \<Rightarrow> u32 list"
    and extend :: "'s \<Rightarrow> u32 list \<Rightarrow> 's"
    and adopt :: "nat \<Rightarrow> 's \<Rightarrow> shared_ids \<Rightarrow> 's"
    and wf :: "'s \<Rightarrow> bool"
  assumes size_ok: "wf s \<Longrightarrow> size_of s = length (stream s)"
    and suffix_ok: "wf s \<Longrightarrow> suffix s n = drop n (stream s)"
    and extend_ok: "wf s \<Longrightarrow> wf (extend s ids) \<and> stream (extend s ids) = stream s @ ids"
    and adopt_ok: "wf s \<Longrightarrow> shared_wf v \<Longrightarrow> wf (adopt a s v) \<and> stream (adopt a s v) = stream s @ as_slice v"
begin

lemma stable_prefix:
  "wf s \<Longrightarrow> take (size_of s) (stream (extend s ids)) = stream s"
  "wf s \<Longrightarrow> shared_wf v \<Longrightarrow> take (size_of s) (stream (adopt a s v)) = stream s"
  by (simp_all add: extend_ok adopt_ok size_ok)

lemma suffix_of_growth:
  "wf s \<Longrightarrow> suffix (extend s ids) (size_of s) = ids"
  "wf s \<Longrightarrow> shared_wf v \<Longrightarrow> suffix (adopt a s v) (size_of s) = as_slice v"
  by (simp_all add: extend_ok adopt_ok size_ok suffix_ok)

lemma growth_agrees:
  "wf s \<Longrightarrow> shared_wf v \<Longrightarrow> stream (adopt a s v) = stream (extend s (as_slice v))"
  by (simp add: extend_ok adopt_ok)

end

definition sealed_stream :: "sealed_ids \<Rightarrow> u32 list" where
  "sealed_stream s = concat (sealed_parts s)"

definition sealed_wf :: "sealed_ids \<Rightarrow> bool" where
  "sealed_wf s \<longleftrightarrow> sl_len s = length (sealed_stream s) \<and> list_all shared_wf (sl_blocks s)"

lemma extend_suffix_ok: "extend_suffix base from_ix parts = drop (from_ix - base) (concat parts)"
proof (induction base from_ix parts rule: extend_suffix.induct)
  case (1 base from_ix)
  then show ?case by simp
next
  case (2 base from_ix part parts)
  then show ?case by (cases "base + length part > from_ix") simp_all
qed

lemma suffix_to_vec_ok: "suffix_to_vec s n = drop n (sealed_stream s)"
  by (simp add: suffix_to_vec_def extend_suffix_into_def extend_suffix_ok sealed_stream_def)

lemma extend_suffix_into_ok: "extend_suffix_into s out n = out @ drop n (sealed_stream s)"
  by (simp add: extend_suffix_into_def extend_suffix_ok sealed_stream_def)

lemma sealed_stream_eq: "sealed_stream s = concat (map as_slice (sl_blocks s)) @ sl_owned s"
  by (simp add: sealed_stream_def sealed_parts_def)

lemma sealed_extend_ok:
  "sealed_wf s \<Longrightarrow> sealed_wf (sealed_extend s ids) \<and> sealed_stream (sealed_extend s ids) = sealed_stream s @ ids"
  by (simp add: sealed_wf_def sealed_stream_eq sealed_extend_def)

lemma push_shared_ok:
  assumes "sealed_wf s" "shared_wf v"
  shows "sealed_wf (push_shared a s v) \<and> sealed_stream (push_shared a s v) = sealed_stream s @ as_slice v"
  using assms
  by (auto simp: sealed_wf_def sealed_stream_eq push_shared_def Let_def shared_is_empty_iff)

lemma sealed_default_ok [simp]: "sealed_wf sealed_default" "sealed_stream sealed_default = []"
  by (simp_all add: sealed_wf_def sealed_stream_eq sealed_default_def)

lemma sealed_from_vec_ok [simp]: "sealed_wf (sealed_from_vec ids)" "sealed_stream (sealed_from_vec ids) = ids"
  by (simp_all add: sealed_wf_def sealed_stream_eq sealed_from_vec_def)

lemma as_single_shared_ok: "as_single_shared s = Some v \<Longrightarrow> sealed_stream s = as_slice v"
  by (auto simp: as_single_shared_def sealed_stream_eq split: list.splits)

lemma as_single_shared_wf: "sealed_wf s \<Longrightarrow> as_single_shared s = Some v \<Longrightarrow> shared_wf v"
  by (auto simp: as_single_shared_def sealed_wf_def split: list.splits)

interpretation sealed: id_stream sealed_stream sl_len suffix_to_vec sealed_extend push_shared sealed_wf
proof
  show "sealed_wf s \<Longrightarrow> sl_len s = length (sealed_stream s)" for s by (simp add: sealed_wf_def)
qed (simp_all add: suffix_to_vec_ok sealed_extend_ok push_shared_ok)

section \<open>Well-formed sessions\<close>

definition snapshot_ok :: "session \<Rightarrow> bool" where
  "snapshot_ok s \<longleftrightarrow>
     (\<forall>g v. s_snapshot s = Some (g, v) \<longrightarrow> g = s_generation s \<longrightarrow> shared_wf v \<and> as_slice v = materialize_all_ids s)"

text \<open>
  The token spans of a tail start in text order. Engines produce them so; sealing rebases them by
  a subtraction that is exact only then.
\<close>

definition ordered :: "tail_state \<Rightarrow> bool" where
  "ordered t \<longleftrightarrow> sorted (fst (spans_of t))"

lemma tail_new_ordered [simp]: "ordered tail_new"
  by (simp add: ordered_def tail_new_def spans_of_def)

definition sess_wf :: "session \<Rightarrow> bool" where
  "sess_wf s \<longleftrightarrow>
     tail_wf (s_tail s) \<and> ordered (s_tail s) \<and> sealed_wf (s_sealed s)
     \<and> s_payload s = DOMAIN_PAYLOAD @ ids_le (sealed_stream (s_sealed s)) \<and> snapshot_ok s"

lemma materialize_eq: "materialize_all_ids s = sealed_stream (s_sealed s) @ ids_of (s_tail s)"
  by (simp add: materialize_all_ids_def sealed_stream_def)

lemma fresh_wf [simp]: "sess_wf (fresh k w c)"
  by (simp add: sess_wf_def fresh_def payload_hasher_new_def snapshot_ok_def)

lemma fresh_ids [simp]: "materialize_all_ids (fresh k w c) = []"
  by (simp add: materialize_eq) (simp add: fresh_def)

lemma token_count_ok: "sess_wf s \<Longrightarrow> sess_token_count s = length (materialize_all_ids s)"
  by (simp add: sess_token_count_def materialize_eq sess_wf_def sealed_wf_def)

text \<open>The debug assertion of \<^verbatim>\<open>commit_hash\<close>: the running hasher agrees with the recomputation.\<close>

lemma commit_digest:
  "sess_wf s \<Longrightarrow>
     digest_with_tail sha (s_payload s) (ids_of (s_tail s)) (tl_text (s_tail s))
     = payload_digest_parts sha [materialize_all_ids s] (tl_text (s_tail s))"
  by (simp add: sess_wf_def digest_with_tail_eq payload_digest_parts_eq materialize_eq)

section \<open>Chain bookkeeping\<close>

text \<open>The two sessions differ only in the fields of the chain attachment.\<close>

definition chain_only :: "session \<Rightarrow> session \<Rightarrow> bool" where
  "chain_only s s' \<longleftrightarrow>
     s' = s\<lparr>s_chain_tail := s_chain_tail s', s_base_safe := s_base_safe s', s_base_idx := s_base_idx s',
        s_blocks_end := s_blocks_end s', s_blocks_end_byte := s_blocks_end_byte s', s_buf := s_buf s',
        s_chain_ok := s_chain_ok s'\<rparr>"

lemma chain_only_refl [simp]: "chain_only s s"
  by (simp add: chain_only_def)

lemma chain_only_sel:
  assumes "chain_only s s'"
  shows "s_key_id s' = s_key_id s" "s_witness s' = s_witness s" "s_revision s' = s_revision s"
    "s_prev_hash s' = s_prev_hash s" "s_record_hash s' = s_record_hash s"
    "s_last_replace s' = s_last_replace s" "s_total_chars s' = s_total_chars s"
    "s_safe_char s' = s_safe_char s" "s_safe_byte s' = s_safe_byte s" "s_sealed s' = s_sealed s"
    "s_payload s' = s_payload s" "s_generation s' = s_generation s" "s_snapshot s' = s_snapshot s"
    "s_seal_log s' = s_seal_log s" "s_scan_floor s' = s_scan_floor s" "s_tail s' = s_tail s"
    "s_recovery s' = s_recovery s" "s_content s' = s_content s" "s_last_used s' = s_last_used s"
  using assms by (cases s; cases s'; simp add: chain_only_def)+

lemma chain_only_iff:
  "chain_only s s' \<longleftrightarrow>
     s_key_id s' = s_key_id s \<and> s_witness s' = s_witness s \<and> s_revision s' = s_revision s
     \<and> s_prev_hash s' = s_prev_hash s \<and> s_record_hash s' = s_record_hash s
     \<and> s_last_replace s' = s_last_replace s \<and> s_total_chars s' = s_total_chars s
     \<and> s_safe_char s' = s_safe_char s \<and> s_safe_byte s' = s_safe_byte s \<and> s_sealed s' = s_sealed s
     \<and> s_payload s' = s_payload s \<and> s_generation s' = s_generation s \<and> s_snapshot s' = s_snapshot s
     \<and> s_seal_log s' = s_seal_log s \<and> s_scan_floor s' = s_scan_floor s \<and> s_tail s' = s_tail s
     \<and> s_recovery s' = s_recovery s \<and> s_content s' = s_content s \<and> s_last_used s' = s_last_used s"
  by (cases s; cases s') (auto simp: chain_only_def)

lemma chain_only_trans: "chain_only s s' \<Longrightarrow> chain_only s' s'' \<Longrightarrow> chain_only s s''"
  by (simp add: chain_only_iff)

lemma chain_only_wf:
  assumes "chain_only s s'" "sess_wf s"
  shows "sess_wf s'" "materialize_all_ids s' = materialize_all_ids s"
  using assms by (auto simp: sess_wf_def snapshot_ok_def materialize_all_ids_def chain_only_sel)

lemma chain_only_upd [simp]:
  "chain_only s (t\<lparr>s_chain_tail := ct\<rparr>) = chain_only s t" "chain_only s (t\<lparr>s_base_safe := n\<rparr>) = chain_only s t"
  "chain_only s (t\<lparr>s_base_idx := n\<rparr>) = chain_only s t" "chain_only s (t\<lparr>s_blocks_end := n\<rparr>) = chain_only s t"
  "chain_only s (t\<lparr>s_blocks_end_byte := n\<rparr>) = chain_only s t" "chain_only s (t\<lparr>s_buf := b\<rparr>) = chain_only s t"
  "chain_only s (t\<lparr>s_chain_ok := c\<rparr>) = chain_only s t"
  by (simp_all add: chain_only_iff)

text \<open>What a step of the chain may do to the working state.\<close>

abbreviation chain_work :: "work \<Rightarrow> work \<Rightarrow> bool" where
  "chain_work w w' \<equiv> chain_only (wk_sess w) (wk_sess w')"

lemmas chain_states = attempt_state [where P = "chain_work w" for w] andthen_state [where P = "chain_work w" for w]

lemma detach_chain_only [simp]: "chain_only s (wk_sess (detach_chain w)) = chain_only s (wk_sess w)"
  by (simp add: detach_chain_def)

lemma adopt_node_only: "chain_work w (fst (adopt_node kh existing w))"
  by (simp add: adopt_node_def Let_def)

lemma write_node_only: "chain_work w (fst (write_node sha cfg key kh index e eb w))"
  unfolding write_node_def Let_def by (auto intro!: chain_states)

lemma node_step_eqs:
  "adopt_node kh existing w = (w', r) \<Longrightarrow> chain_work w w'"
  "write_node sha cfg key kh index e eb w = (w', r2) \<Longrightarrow> chain_work w w'"
  using adopt_node_only [of w kh existing] write_node_only [of w sha cfg key kh index e eb] by simp_all

lemma seal_block_step_only: "chain_work w (fst (seal_block_step sha cfg key w))"
proof -
  have last: "chain_work w (fst (if g then (upd_sess f w1, Ok True) else (w1, Ok False)))"
    if "chain_work w w1" "chain_only (wk_sess w1) (f (wk_sess w1))" for g f w1
    using that chain_only_trans by auto
  show ?thesis
    unfolding seal_block_step_def Let_def
    by (auto split: option.splits intro!: chain_states last
        simp: adopt_node_only write_node_only dest: node_step_eqs)
qed

end
