(* ===== verification/SealProps.thy ===== *)
theory SealProps
  imports SessionProps
begin

text \<open>
  Sealing keeps the token stream: \<^verbatim>\<open>seal_tail\<close> moves a head of the tail into the sealed stream, and
  neither it nor the chain bookkeeping changes the concatenation, for every outcome.
\<close>

section \<open>Text helpers\<close>

lemma char_to_byte_scan_ok:
  "char_to_byte_scan len count target (zip (offsets_from k cs) ls) =
     (if count \<le> target \<and> target - count < length cs \<and> length cs = length ls
      then k + length (concat (take (target - count) cs)) else len)"
  if "length cs = length ls"
  using that
proof (induction cs arbitrary: count k ls)
  case Nil
  then show ?case by simp
next
  case (Cons c cs)
  then obtain l ls' where ls: "ls = l # ls'" "length cs = length ls'" by (cases ls) auto
  show ?case
  proof (cases "count = target")
    case True
    then show ?thesis using ls by simp
  next
    case False
    show ?thesis
    proof (cases "count < target")
      case True
      then obtain d where "target - count = Suc d" "target - Suc count = d" by (metis Suc_diff_Suc)
      then show ?thesis using Cons.IH [OF ls(2), of "Suc count" "k + length c"] ls True by auto
    next
      case False
      then show ?thesis using Cons.IH [OF ls(2), of "Suc count" "k + length c"] ls \<open>count \<noteq> target\<close> by simp
    qed
  qed
qed

lemma char_to_byte_ok: "char_to_byte s n = char_off s n"
  by (cases "n < char_count s"; cases "n = 0")
    (auto simp: char_to_byte_def char_indices_def char_to_byte_scan_ok char_off_def)

lemma tail_byte_ix_ok: "tail_wf t \<Longrightarrow> tail_byte_ix t n = char_off (tl_text t) n"
  by (simp add: tail_byte_ix_def tail_wf_def byte_ix_of_char_ok)

lemma str_slice_off_no_panic: "m \<le> n \<Longrightarrow> str_slice s (char_off s m) (char_off s n) \<noteq> Panic"
  by (simp add: str_slice_off)

lemma text_range_no_panic:
  assumes "tail_wf (s_tail s)"
  shows "text_range s a b \<noteq> Panic"
proof -
  have buf: "str_slice (s_buf s) (char_to_byte (s_buf s) m) (char_to_byte (s_buf s) n) \<noteq> Panic" if "m \<le> n" for m n
    using that by (simp add: char_to_byte_ok str_slice_off_no_panic)
  have tail: "str_slice (tl_text (s_tail s)) (tail_byte_ix (s_tail s) m) (tail_byte_ix (s_tail s) n) \<noteq> Panic"
    if "m \<le> n" for m n
    using that by (simp add: tail_byte_ix_ok [OF assms] str_slice_off_no_panic)
  show ?thesis
    by (auto simp: text_range_def rbind_eq_Panic char_u32_def split: if_splits
        dest!: buf [THEN notE, rotated] tail [THEN notE, rotated])
qed

section \<open>The chain\<close>

lemma seal_blocks_only: "chain_work w (fst (seal_blocks sha cfg key w))"
proof (induction sha cfg key w rule: seal_blocks.induct)
  case (1 sha cfg key w)
  obtain w' r where step: "seal_block_step sha cfg key w = (w', r)" by (cases "seal_block_step sha cfg key w")
  have only: "chain_work w w'" using seal_block_step_only [of w sha cfg key] step by simp
  show ?case
  proof (cases r)
    case (Ok b)
    show ?thesis
    proof (cases b)
      case True
      have "chain_work w' (fst (seal_blocks sha cfg key w'))"
        by (rule "1.IH") (use step Ok True in auto)
      then show ?thesis using step Ok True only chain_only_trans by (simp add: seal_blocks.simps [of sha cfg key w])
    qed (use step Ok only in \<open>simp add: seal_blocks.simps [of sha cfg key w]\<close>)
  qed (use step only in \<open>simp_all add: seal_blocks.simps [of sha cfg key w]\<close>)
qed

section \<open>Sealing the tail\<close>

text \<open>The tokens past the cut lie past the cut character.\<close>

definition cut_covers :: "tail_state \<Rightarrow> boundary_cut \<Rightarrow> bool" where
  "cut_covers t c \<longleftrightarrow> list_all (\<lambda>x. cut_char c \<le> x) (drop (cut_tokens c) (fst (spans_of t)))"

text \<open>The spans of the tokens past the cut, counted from the cut.\<close>

definition shifted :: "nat \<Rightarrow> nat \<Rightarrow> nat list \<times> nat list \<Rightarrow> nat list \<times> nat list" where
  "shifted k n p = (map (\<lambda>x. x - n) (drop k (fst p)), map (\<lambda>x. x - n) (drop k (snd p)))"

lemma shifted_sorted: "sorted (fst p) \<Longrightarrow> sorted (fst (shifted k n p))"
  by (auto simp: shifted_def sorted_iff_nth_mono intro!: diff_le_mono)

lemma ordered_covers:
  assumes "ordered t" "cut_tokens c < length (fst (spans_of t))" "fst (spans_of t) ! cut_tokens c = cut_char c"
  shows "cut_covers t c"
  using assms sorted_nth_mono [of "fst (spans_of t)" "cut_tokens c"]
  by (auto simp: ordered_def cut_covers_def list_all_length less_diff_conv add.commute)

definition moved :: "session \<Rightarrow> nat \<Rightarrow> nat \<Rightarrow> session \<Rightarrow> bool" where
  "moved s k n s' \<longleftrightarrow>
     sess_wf s' \<and> 0 < k \<and> k < n_tokens (s_tail s)
     \<and> sealed_stream (s_sealed s') = sealed_stream (s_sealed s) @ take k (ids_of (s_tail s))
     \<and> ids_of (s_tail s') = drop k (ids_of (s_tail s))
     \<and> tl_text (s_tail s') = drop (char_off (tl_text (s_tail s)) n) (tl_text (s_tail s))
     \<and> spans_of (s_tail s') = shifted k n (spans_of (s_tail s))
     \<and> s_key_id s' = s_key_id s \<and> s_witness s' = s_witness s \<and> s_revision s' = s_revision s
     \<and> s_prev_hash s' = s_prev_hash s \<and> s_record_hash s' = s_record_hash s
     \<and> s_last_replace s' = s_last_replace s \<and> s_generation s' = s_generation s
     \<and> s_snapshot s' = s_snapshot s \<and> s_recovery s' = s_recovery s \<and> s_content s' = s_content s
     \<and> s_last_used s' = s_last_used s"

lemma moved_ids: "moved s k n s' \<Longrightarrow> materialize_all_ids s' = materialize_all_ids s"
  by (simp add: moved_def materialize_eq)

lemma tail_shared_Some:
  "tail_wf t \<Longrightarrow> tail_shared_ids t = Some v \<Longrightarrow> shared_wf v \<and> ids_of t = as_slice v"
  by (auto simp: tail_shared_ids_def tail_wf_def split: tail_ids.splits)

text \<open>The span arithmetic of the rebase is exact, so the rebased tail validates.\<close>

lemma rebased_tail_ok:
  assumes wf: "tail_wf t" and k: "0 < k" "k < n_tokens t" and cc: "fst (spans_of t) ! k = cut_char c"
    and cov: "cut_covers t c" and kc: "cut_tokens c = k"
    and rest: "rest = None \<or> (\<exists>v. rest = Some v \<and> shared_wf v \<and> as_slice v = drop k (ids_of t))"
  defines "bix \<equiv> char_off (tl_text t) (cut_char c)"
  shows "\<exists>t'. rebased_tail t k (cut_char c) bix rest (drop (k - 1) (fst (spans_of t))) (drop (k - 1) (snd (spans_of t))) = Ok t'
    \<and> tail_wf t' \<and> ids_of t' = drop k (ids_of t) \<and> tl_text t' = drop bix (tl_text t)
    \<and> spans_of t' = shifted k (cut_char c) (spans_of t)"
proof -
  let ?ss = "fst (spans_of t)" and ?es = "snd (spans_of t)" and ?cc = "cut_char c" and ?n = "tl_chars t"
  note sp = spans_of_wf [OF wf]
  have chars: "?n = char_count (tl_text t)" "?n \<le> u32_max" "valid_utf8 (tl_text t)"
    using wf by (simp_all add: tail_wf_def)
  have span: "?ss ! j \<le> ?es ! j \<and> ?es ! j \<le> ?n" if "j < n_tokens t" for j
    using that sp by (auto simp: list_all_length span_ok_def)
  have low: "?cc \<le> ?ss ! j" if "k \<le> j" "j < n_tokens t" for j
    using cov that sp kc by (auto simp: cut_covers_def list_all_length dest: spec [of _ "j - k"])
  let ?rs = "map (\<lambda>x. sub32 x ?cc) (drop k ?ss)" and ?re = "map (\<lambda>x. sub32 x ?cc) (drop k ?es)"
  have exact: "(?rs, ?re) = shifted k ?cc (spans_of t)"
    unfolding shifted_def prod.inject
  proof (intro conjI nth_equalityI; (simp; fail)?)
    fix j assume "j < length ?rs"
    then have j: "k + j < n_tokens t" using sp by simp
    have "?cc \<le> ?ss ! (k + j)" "?ss ! (k + j) \<le> u32_max"
      using low [of "k + j"] span [OF j] j chars(2) by simp_all
    then show "?rs ! j = map (\<lambda>x. x - ?cc) (drop k ?ss) ! j" using j sp by (simp add: sub32_exact)
  next
    fix j assume "j < length ?re"
    then have j: "k + j < n_tokens t" using sp by simp
    have "?cc \<le> ?es ! (k + j)" "?es ! (k + j) \<le> u32_max"
      using low [of "k + j"] span [OF j] j chars(2) by simp_all
    then show "?re ! j = map (\<lambda>x. x - ?cc) (drop k ?es) ! j" using j sp by (simp add: sub32_exact)
  qed
  have d1: "drop 1 (drop (k - 1) ?ss) = drop k ?ss" "drop 1 (drop (k - 1) ?es) = drop k ?es"
    using k by simp_all
  have rlen: "length ?rs = n_tokens t - k" "length ?re = n_tokens t - k" using sp by simp_all
  have rspans: "list_all (span_ok (?n - ?cc)) (zip ?rs ?re)"
    unfolding list_all_length
  proof (intro allI impI)
    fix j assume "j < length (zip ?rs ?re)"
    then have j: "k + j < n_tokens t" using rlen by simp
    have "?cc \<le> ?ss ! (k + j)" "?ss ! (k + j) \<le> ?es ! (k + j)" "?es ! (k + j) \<le> ?n"
      using low [of "k + j"] span [OF j] j by simp_all
    then show "span_ok (?n - ?cc) (zip ?rs ?re ! j)"
      using j rlen sp chars(2) by (auto simp: span_ok_def sub32_exact intro: diff_le_mono)
  qed
  have slice: "str_slice (tl_text t) bix (text_bytes t) = Ok (drop bix (tl_text t))"
  proof -
    have "char_off (tl_text t) (char_count (tl_text t) + ?cc) = text_bytes t" by (rule char_off_end) simp
    moreover have "char_off (tl_text t) ?cc \<le> text_bytes t" by (rule char_off_le)
    moreover have "is_char_boundary (tl_text t) (text_bytes t)" by (simp add: is_char_boundary_def)
    ultimately show ?thesis unfolding bix_def by (simp add: str_slice_def boundary_char_off)
  qed
  have valid: "valid_utf8 (drop bix (tl_text t))" using chars(3) by (simp add: bix_def)
  have count: "char_count (drop bix (tl_text t)) = ?n - ?cc" by (simp add: bix_def chars_drop_off chars(1))
  have cu: "chars_u32 (drop bix (tl_text t)) = Ok (?n - ?cc)" using count chars(2) by simp
  show ?thesis
  proof (cases rest)
    case None
    let ?soa = "\<lparr>soa_ids = drop k (ids_of t), soa_starts = ?rs, soa_ends = ?re\<rparr>"
    obtain t' where t': "fill_soa_state (drop bix (tl_text t)) ?soa = Ok t'"
      using rspans rlen cu by (auto simp: fill_soa_state_def rbind_eq_Ok)
    from fill_soa_state_Ok [OF t' valid] t' show ?thesis
      unfolding rebased_tail_def slice rbind.simps d1 Let_def None exact [symmetric] by simp
  next
    case (Some v)
    then have v: "shared_wf v" "as_slice v = drop k (ids_of t)" using rest by simp_all
    have vl: "shared_len v = n_tokens t - k" using length_as_slice [OF v(1)] v(2) by simp
    obtain t' where t': "fill_shared_state (drop bix (tl_text t)) v ?rs ?re = Ok t'"
      using rspans rlen cu vl by (auto simp: fill_shared_state_def rbind_eq_Ok)
    from fill_shared_state_Ok [OF t' valid v(1)] t' v show ?thesis
      unfolding rebased_tail_def slice rbind.simps d1 Let_def Some exact [symmetric] by simp
  qed
qed

lemma opt_slice_tail:
  assumes wf: "tail_wf t" and b: "lo \<le> hi" "hi \<le> n_tokens t"
  shows "\<exists>r. opt_slice (tail_shared_ids t) lo hi = Ok r \<and>
    (r = None \<or> (\<exists>v. r = Some v \<and> shared_wf v \<and> as_slice v = take (hi - lo) (drop lo (ids_of t))))"
proof (cases "tail_shared_ids t")
  case None
  then show ?thesis by (simp add: opt_slice_def)
next
  case (Some v)
  from tail_shared_Some [OF wf Some] have v: "shared_wf v" "ids_of t = as_slice v" by simp_all
  from b v obtain u where u: "shared_slice v lo hi = Ok u"
    using shared_slice_exists [of lo hi v] by auto
  from shared_slice_Ok [OF v(1) u] u v Some show ?thesis by (simp add: opt_slice_def)
qed

lemma retain_head_ok:
  assumes "tail_wf (s_tail s)"
  shows "\<exists>b. retain_head (char_off (tl_text (s_tail s)) n) s = Ok (s\<lparr>s_buf := b\<rparr>)"
proof (cases "s_chain_ok s")
  case False
  then show ?thesis by (auto simp: retain_head_def intro: exI [of _ "s_buf s"])
next
  case True
  let ?x = "tl_text (s_tail s)"
  have one: "str_slice ?x 0 (char_off ?x n) = Ok (take (char_off ?x n) ?x)"
    using char_off_le [of ?x n] by (simp add: str_slice_def boundary_char_off) (simp add: is_char_boundary_def)
  let ?h = "take (char_off ?x n) ?x" and ?m = "s_blocks_end s - s_safe_char s"
  have two: "str_slice ?h (char_off ?h ?m) (length ?h) = Ok (drop (char_off ?h ?m) ?h)"
    using char_off_le [of ?h ?m] by (simp add: str_slice_def boundary_char_off) (simp add: is_char_boundary_def)
  show ?thesis
    unfolding retain_head_def one rbind.simps Let_def char_to_byte_ok two using True by auto
qed

lemma seal_head_ok:
  assumes "sess_wf s" "h = None \<or> (\<exists>v. h = Some v \<and> shared_wf v \<and> as_slice v = ids)"
  shows "\<exists>p sl. seal_head a h ids s = s\<lparr>s_payload := p, s_sealed := sl\<rparr> \<and> sealed_wf sl
    \<and> sealed_stream sl = sealed_stream (s_sealed s) @ ids
    \<and> p = DOMAIN_PAYLOAD @ ids_le (sealed_stream (s_sealed s) @ ids)"
  using assms
  by (auto simp: seal_head_def sess_wf_def sealed.adopt_ok sealed.extend_ok)

lemma seal_tail_cases:
  assumes wf: "sess_wf (wk_sess w)"
  shows "(\<exists>e. seal_tail c w = (w, Err e)) \<or>
    (\<exists>w'. seal_tail c w = (w', Ok ()) \<and> moved (wk_sess w) (cut_tokens c) (cut_char c) (wk_sess w'))"
proof -
  let ?s = "wk_sess w" and ?k = "cut_tokens c" and ?cc = "cut_char c"
  let ?t = "s_tail ?s"
  let ?n = "n_tokens ?t" and ?ids = "ids_of ?t" and ?ss = "fst (spans_of ?t)" and ?es = "snd (spans_of ?t)"
  have tw: "tail_wf ?t" and ord: "ordered ?t" using wf by (simp_all add: sess_wf_def)
  note sp = spans_of_wf [OF tw]
  show ?thesis
  proof (cases "?cc \<le> u32_max \<and> 0 < ?k \<and> ?k < ?n")
    case False
    then show ?thesis by (auto simp: seal_tail_def Let_def)
  next
    case True
    then have k: "?cc \<le> u32_max" "0 < ?k" "?k < ?n" by auto
    then have le: "?k - 1 \<le> ?n" by simp
    have win: "span_window ?t (?k - 1) ?n = Ok (drop (?k - 1) ?ss, drop (?k - 1) ?es)"
      using span_window_ok [OF tw le order_refl] sp by simp
    have g1: "vec_get (drop (?k - 1) ?ss) 1 = Ok (?ss ! ?k)" "vec_get (drop (?k - 1) ?es) 0 = Ok (?es ! (?k - 1))"
      using k sp by (simp_all add: vec_get_def)
    show ?thesis
    proof (cases "?ss ! ?k = ?cc \<and> ?es ! (?k - 1) \<le> ?cc")
      case False
      have guards: "\<not> ?cc > u32_max" "\<not> (?k = 0 \<or> ?k \<ge> ?n)" using k by auto
      have "\<exists>e. seal_tail c w = (w, Err e)"
        unfolding seal_tail_def Let_def if_not_P [OF guards(1)] if_not_P [OF guards(2)] win attempt.simps prod.case g1
        using False by (cases "?ss ! ?k = ?cc") simp_all
      then show ?thesis by blast
    next
      case cut: True
      let ?bix = "char_off (tl_text ?t) ?cc"
      obtain h where h: "opt_slice (tail_shared_ids ?t) 0 ?k = Ok h"
        "h = None \<or> (\<exists>v. h = Some v \<and> shared_wf v \<and> as_slice v = take ?k ?ids)"
        using opt_slice_tail [OF tw, of 0 ?k] True by auto
      obtain r where r: "opt_slice (tail_shared_ids ?t) ?k ?n = Ok r"
        "r = None \<or> (\<exists>v. r = Some v \<and> shared_wf v \<and> as_slice v = drop ?k ?ids)"
        using opt_slice_tail [OF tw, of ?k ?n] True by auto
      obtain t' where t': "rebased_tail ?t ?k ?cc ?bix r (drop (?k - 1) ?ss) (drop (?k - 1) ?es) = Ok t'"
        "tail_wf t'" "ids_of t' = drop ?k ?ids" "tl_text t' = drop ?bix (tl_text ?t)"
        "spans_of t' = shifted ?k ?cc (spans_of ?t)"
        using rebased_tail_ok [OF tw _ _ _ ordered_covers [OF ord] refl r(2)] True cut sp by auto
      have ot: "ordered t'" using t'(5) ord shifted_sorted by (simp add: ordered_def)
      obtain p sl where sh: "seal_head (wk_next_alloc w) h (take ?k ?ids) ?s = ?s\<lparr>s_payload := p, s_sealed := sl\<rparr>"
        "sealed_wf sl" "sealed_stream sl = sealed_stream (s_sealed ?s) @ take ?k ?ids"
        "p = DOMAIN_PAYLOAD @ ids_le (sealed_stream (s_sealed ?s) @ take ?k ?ids)"
        using seal_head_ok [OF wf h(2)] by blast
      let ?s1 = "?s\<lparr>s_payload := p, s_sealed := sl\<rparr>"
      obtain b where b: "retain_head ?bix ?s1 = Ok (?s1\<lparr>s_buf := b\<rparr>)"
        using retain_head_ok [of ?s1 ?cc] tw by auto
      let ?sc = "add64 (s_safe_char ?s) ?cc"
      let ?s' = "?s1\<lparr>s_buf := b, s_safe_char := ?sc, s_safe_byte := add64 (s_safe_byte ?s) ?bix,
          s_seal_log := s_seal_log ?s @ [(?sc, sl_len sl)], s_tail := t'\<rparr>"
      have guards: "\<not> ?cc > u32_max" "\<not> (?k = 0 \<or> ?k \<ge> ?n)" "\<not> ?ss ! ?k \<noteq> ?cc" "\<not> ?es ! (?k - 1) > ?cc"
        using k cut by auto
      have run: "\<exists>w'. seal_tail c w = (w', Ok ()) \<and> wk_sess w' = ?s'"
        unfolding seal_tail_def Let_def if_not_P [OF guards(1)] if_not_P [OF guards(2)] win attempt.simps prod.case g1
          if_not_P [OF guards(3)] if_not_P [OF guards(4)] tail_byte_ix_ok [OF tw] h(1) r(1) wk_simps work.simps
          session.simps t'(1)
        by (simp add: sh(1) b)
      have "materialize_all_ids ?s' = materialize_all_ids ?s"
        using sh(3) t'(3) by (simp add: materialize_eq)
      then have "moved ?s ?k ?cc ?s'"
        using True sh t' ot wf by (simp add: moved_def sess_wf_def snapshot_ok_def)
      with run show ?thesis by metis
    qed
  qed
qed

section \<open>After the text grew\<close>

definition same_core :: "session \<Rightarrow> session \<Rightarrow> bool" where
  "same_core s s' \<longleftrightarrow>
     s_key_id s' = s_key_id s \<and> s_witness s' = s_witness s \<and> s_revision s' = s_revision s
     \<and> s_prev_hash s' = s_prev_hash s \<and> s_record_hash s' = s_record_hash s
     \<and> s_last_replace s' = s_last_replace s \<and> s_generation s' = s_generation s
     \<and> s_snapshot s' = s_snapshot s \<and> s_recovery s' = s_recovery s \<and> s_content s' = s_content s
     \<and> s_last_used s' = s_last_used s"

lemma same_core_refl [simp]: "same_core s s"
  by (simp add: same_core_def)

lemma same_core_trans: "same_core s s' \<Longrightarrow> same_core s' s'' \<Longrightarrow> same_core s s''"
  by (simp add: same_core_def)

text \<open>
  What the bookkeeping does to a session: the tokens stay, or a head of the tail, cut where the
  engine certified it, moves to the sealed stream.
\<close>

definition settled :: "encoder \<Rightarrow> nat \<Rightarrow> session \<Rightarrow> session \<Rightarrow> bool" where
  "settled engine guard s s' \<longleftrightarrow>
     sess_wf s' \<and> same_core s s' \<and>
     ((s_sealed s' = s_sealed s \<and> s_tail s' = s_tail s) \<or>
      (\<exists>floor ceil c. ceil + guard \<le> tl_chars (s_tail s) \<and> floor < ceil
         \<and> eng_boundary engine (s_tail s) floor ceil = Ok (Some c)
         \<and> moved s (cut_tokens c) (cut_char c) s'))"

lemma settled_ids: "settled engine guard s s' \<Longrightarrow> materialize_all_ids s' = materialize_all_ids s"
  by (auto simp: settled_def moved_ids) (simp add: materialize_eq)

lemma moved_core: "moved s k n s' \<Longrightarrow> same_core s s'"
  by (simp add: moved_def same_core_def)

lemma moved_from:
  "same_core s0 s \<Longrightarrow> s_sealed s = s_sealed s0 \<Longrightarrow> s_tail s = s_tail s0 \<Longrightarrow> moved s k n s' \<Longrightarrow> moved s0 k n s'"
  by (simp add: moved_def same_core_def)

definition plain :: "session \<Rightarrow> session \<Rightarrow> bool" where
  "plain s s' \<longleftrightarrow> sess_wf s' \<and> same_core s s' \<and> s_sealed s' = s_sealed s \<and> s_tail s' = s_tail s"

lemma plain_settled: "plain s s' \<Longrightarrow> settled engine guard s s'"
  by (simp add: plain_def settled_def)

lemma plain_upd:
  assumes "plain s s'"
  shows "plain s (s'\<lparr>s_total_chars := n\<rparr>)" "plain s (s'\<lparr>s_scan_floor := n\<rparr>)"
  using assms by (auto simp: plain_def same_core_def sess_wf_def snapshot_ok_def materialize_eq)

lemma plain_chain: "plain s s' \<Longrightarrow> chain_only s' s'' \<Longrightarrow> plain s s''"
  using chain_only_wf chain_only_sel by (simp add: plain_def same_core_def)

lemma settled_floor: "settled engine guard s s' \<Longrightarrow> settled engine guard s (s'\<lparr>s_scan_floor := n\<rparr>)"
  by (auto simp: settled_def same_core_def moved_def sess_wf_def snapshot_ok_def materialize_eq)

lemma advance_seal_settled:
  assumes p: "plain s (wk_sess w)"
  shows "settled engine (k_guard key) s (wk_sess (fst (advance_seal cfg key engine (tl_chars (s_tail s)) w)))"
proof -
  let ?st = "settled engine (k_guard key) s" and ?n = "tl_chars (s_tail s)" and ?floor = "s_scan_floor (wk_sess w)"
  let ?ceil = "?n - k_guard key"
  have t: "s_tail (wk_sess w) = s_tail s" and wf: "sess_wf (wk_sess w)"
    and core: "same_core s (wk_sess w)" and sl: "s_sealed (wk_sess w) = s_sealed s"
    using p by (simp_all add: plain_def)
  have stay: "?st (wk_sess w)" "?st ((wk_sess w)\<lparr>s_scan_floor := x\<rparr>)" for x
    using plain_settled [OF p] plain_settled [OF plain_upd(2) [OF p]] by simp_all
  have seal: "?st (wk_sess (fst (andthen (seal_tail c w) (\<lambda>w2 _. (upd_sess (\<lambda>s. s\<lparr>s_scan_floor := x\<rparr>) w2, Ok ())))))"
    if b: "eng_boundary engine (s_tail s) ?floor ?ceil = Ok (Some c)" and lt: "?floor < ?ceil" for c x
  proof -
    from seal_tail_cases [OF wf, of c] consider e where "seal_tail c w = (w, Err e)"
      | w2 where "seal_tail c w = (w2, Ok ())" "moved (wk_sess w) (cut_tokens c) (cut_char c) (wk_sess w2)"
      by blast
    then show ?thesis
    proof cases
      case 1
      then show ?thesis using stay(1) by simp
    next
      case 2
      have mv: "moved s (cut_tokens c) (cut_char c) (wk_sess w2)" by (rule moved_from [OF core sl t 2(2)])
      have "?ceil + k_guard key \<le> ?n" using lt by simp
      then have "?st (wk_sess w2)"
        using mv b lt moved_core [OF mv] unfolding settled_def moved_def by blast
      then show ?thesis using 2(1) settled_floor by simp
    qed
  qed
  show ?thesis
  proof (cases "(?n > c_block_chars cfg \<or> text_bytes (s_tail s) > c_soft_cap cfg) \<and> ?ceil > ?floor")
    case False
    then show ?thesis using stay(1) by (simp only: advance_seal_def Let_def t if_False fst_conv)
  next
    case True
    then have lt: "?floor < ?ceil" by blast
    show ?thesis
    proof (cases "eng_boundary engine (s_tail s) ?floor ?ceil")
      case (Ok found)
      then show ?thesis using True stay seal [OF _ lt] by (cases found) (simp_all add: advance_seal_def Let_def t)
    qed (use True stay in \<open>simp_all add: advance_seal_def Let_def t\<close>)
  qed
qed

lemma post_text_ops_settled:
  assumes wf: "sess_wf (wk_sess w)"
  shows "settled engine (k_guard key) (wk_sess w) (wk_sess (fst (post_text_ops sha cfg key engine w)))"
proof -
  let ?s = "wk_sess w" and ?st = "settled engine (k_guard key)"
  let ?w0 = "upd_sess (\<lambda>s. s\<lparr>s_total_chars := add64 (s_safe_char s) (tl_chars (s_tail ?s))\<rparr>) w"
  let ?m = "if s_chain_ok (wk_sess ?w0) then seal_blocks sha cfg key ?w0 else (?w0, Ok ())"
  have p0: "plain ?s (wk_sess ?w0)"
    using plain_upd(1) [of ?s ?s] wf by (simp add: plain_def)
  have m: "plain ?s (wk_sess (fst ?m))"
    using p0 plain_chain [OF p0 seal_blocks_only [of ?w0 sha cfg key]] by simp
  show ?thesis
    unfolding post_text_ops_def Let_def
  proof (rule andthen_state [where P = "\<lambda>w'. ?st ?s (wk_sess w')"])
    show "?st ?s (wk_sess (fst ?m))" by (rule plain_settled [OF m])
  next
    fix w1 u assume "?m = (w1, Ok u)"
    with m have p: "plain ?s (wk_sess w1)" by (simp only: fst_conv)
    note adv = advance_seal_settled [OF p, of engine key cfg]
    show "?st ?s (wk_sess (fst (andthen (advance_seal cfg key engine (tl_chars (s_tail ?s)) w1)
        (\<lambda>w3 _. if text_bytes (s_tail (wk_sess w3)) > c_soft_cap cfg
           then (upd_stats (\<lambda>st. st\<lparr>st_k_cap_overflows := st_k_cap_overflows st + 1\<rparr>) w3, Ok ())
           else (w3, Ok ())))))"
    proof (rule andthen_state [where P = "\<lambda>w'. ?st ?s (wk_sess w')"], rule adv)
      fix w3 v assume eq: "advance_seal cfg key engine (tl_chars (s_tail ?s)) w1 = (w3, Ok v)"
      from adv have "?st ?s (wk_sess w3)" by (simp only: eq fst_conv)
      then show "?st ?s (wk_sess (fst (if text_bytes (s_tail (wk_sess w3)) > c_soft_cap cfg
           then (upd_stats (\<lambda>st. st\<lparr>st_k_cap_overflows := st_k_cap_overflows st + 1\<rparr>) w3, Ok ())
           else (w3, Ok ()))))" by simp
    qed
  qed
qed

end
