(* ===== verification/Store.thy ===== *)
theory Store
  imports Sealing
begin

text \<open>
  The session store (\<^verbatim>\<open>SessionStore\<close> of \<^verbatim>\<open>store.rs\<close>): construction, key interning, capacity
  eviction, and the session operations put, append, lookup, fork and evict, each returning the
  store it leaves behind with its outcome. \<open>sha\<close> is SHA-256, \<open>blake\<close> the content digest.
\<close>

section \<open>State\<close>

record key_rec =
  kr_fingerprint :: hash32
  kr_guard :: nat

record store =
  ss_cfg :: config
  ss_recovery_tracking :: bool
  ss_content_tracking :: bool
  ss_overlap :: "overlap_runner option"
  ss_fault :: "string option"
  ss_keys :: "key_rec list"
  ss_nodes :: "(hash32, node_entry) table"
  ss_sessions :: "(nat, session) table"
  ss_next_handle :: nat
  ss_clock :: nat
  ss_stats :: stats
  ss_materializations :: nat
  ss_next_alloc :: nat

definition store_new :: "config \<Rightarrow> store res" where
  "store_new cfg =
     rbind (config_validate cfg) (\<lambda>_.
       Ok \<lparr>ss_cfg = cfg, ss_recovery_tracking = False, ss_content_tracking = False, ss_overlap = None,
           ss_fault = None, ss_keys = [], ss_nodes = [], ss_sessions = [], ss_next_handle = 1,
           ss_clock = 0, ss_stats = stats_zero, ss_materializations = 0, ss_next_alloc = 0\<rparr>)"

definition with_defaults :: "store res" where
  "with_defaults = (case store_new default_config of Ok s \<Rightarrow> Ok s | _ \<Rightarrow> Panic)"

definition stat :: "(stats \<Rightarrow> stats) \<Rightarrow> store \<Rightarrow> store" where
  "stat f s = s\<lparr>ss_stats := f (ss_stats s)\<rparr>"

definition count_materialization :: "store \<Rightarrow> store" where
  "count_materialization s = s\<lparr>ss_materializations := ss_materializations s + 1\<rparr>"

definition tick :: "store \<Rightarrow> store" where
  "tick s = s\<lparr>ss_clock := ss_clock s + 1\<rparr>"

definition enable_recovery_tracking :: "store \<Rightarrow> store \<times> unit res" where
  "enable_recovery_tracking s =
     (if ss_sessions s \<noteq> []
      then (s, Err (InvalidInput ''recovery tracking must be enabled before sessions exist''))
      else (s\<lparr>ss_recovery_tracking := True\<rparr>, Ok ()))"

definition enable_content_tracking :: "store \<Rightarrow> store \<times> unit res" where
  "enable_content_tracking s =
     (if ss_sessions s \<noteq> []
      then (s, Err (InvalidInput ''content tracking must be enabled before sessions exist''))
      else (s\<lparr>ss_content_tracking := True\<rparr>, Ok ()))"

definition set_seed_overlap :: "store \<Rightarrow> overlap_runner option \<Rightarrow> store" where
  "set_seed_overlap s r = s\<lparr>ss_overlap := r\<rparr>"

definition inject_content_digest_fault :: "store \<Rightarrow> string option \<Rightarrow> store" where
  "inject_content_digest_fault s m = s\<lparr>ss_fault := m\<rparr>"

definition content_digest_fault :: "store \<Rightarrow> store_error option" where
  "content_digest_fault s = (case ss_fault s of Some m \<Rightarrow> Some (InvalidInput m) | None \<Rightarrow> None)"

definition seed_content_digest :: "(u8 list \<Rightarrow> hash16) \<Rightarrow> store \<Rightarrow> str \<Rightarrow> content_digest res" where
  "seed_content_digest blake s text =
     (case content_digest_fault s of Some e \<Rightarrow> Err e | None \<Rightarrow> content_from_bytes blake text)"

definition key_of :: "store \<Rightarrow> nat \<Rightarrow> key_ctx res" where
  "key_of s key_id =
     (if key_id < length (ss_keys s)
      then let k = ss_keys s ! key_id in Ok \<lparr>k_fingerprint = kr_fingerprint k, k_guard = kr_guard k\<rparr>
      else Err (UnknownKey key_id))"

definition session_of :: "store \<Rightarrow> nat \<Rightarrow> session res" where
  "session_of s handle = ok_or (tbl_get (ss_sessions s) handle) (UnknownSession handle)"

definition put_session :: "store \<Rightarrow> nat \<Rightarrow> session \<Rightarrow> store" where
  "put_session s handle sess = s\<lparr>ss_sessions := tbl_put (ss_sessions s) handle sess\<rparr>"

section \<open>Eviction and insertion\<close>

text \<open>\<^verbatim>\<open>min_by_key\<close> on (last use, handle).\<close>

fun lru :: "(nat \<times> session) list \<Rightarrow> (nat \<times> nat) option" where
  "lru [] = None"
| "lru ((h, x) # rest) =
     (case lru rest of
        None \<Rightarrow> Some (s_last_used x, h)
      | Some (u, h') \<Rightarrow>
          if s_last_used x < u \<or> (s_last_used x = u \<and> h \<le> h') then Some (s_last_used x, h) else Some (u, h'))"

lemma lru_in: "lru t = Some (u, h) \<Longrightarrow> \<exists>x. (h, x) \<in> set t \<and> u = s_last_used x"
  by (induction t arbitrary: u h rule: lru.induct) (auto split: option.splits if_splits)

lemma delete_shorter: "h \<in> fst ` set t \<Longrightarrow> length (AList.delete h t) < length t"
  by (auto simp: AList.delete_eq intro: length_filter_less)

function evict_for_capacity :: "store \<Rightarrow> store" where
  "evict_for_capacity s =
     (if length (ss_sessions s) \<ge> c_max_sessions (ss_cfg s)
      then case lru (ss_sessions s) of
             None \<Rightarrow> s
           | Some (_, h) \<Rightarrow>
               evict_for_capacity
                 (stat (\<lambda>st. st\<lparr>st_sessions_evicted := st_sessions_evicted st + 1\<rparr>)
                    (s\<lparr>ss_sessions := tbl_del (ss_sessions s) h\<rparr>))
      else s)"
  by pat_completeness auto
termination
  by (relation "measure (\<lambda>s. length (ss_sessions s))")
    (auto simp: stat_def tbl_del_def dest!: lru_in intro!: delete_shorter rev_image_eqI)

declare evict_for_capacity.simps [simp del]

definition insert_session :: "store \<Rightarrow> session \<Rightarrow> store \<times> nat" where
  "insert_session s sess =
     (let handle = ss_next_handle s in
      (put_session (s\<lparr>ss_next_handle := handle + 1\<rparr>) handle sess, handle))"

section \<open>Keys\<close>

fun find_key :: "hash32 \<Rightarrow> nat \<Rightarrow> key_rec list \<Rightarrow> nat option" where
  "find_key fp ix [] = None"
| "find_key fp ix (k # ks) = (if kr_fingerprint k = fp then Some ix else find_key fp (Suc ix) ks)"

definition register_fingerprint :: "store \<Rightarrow> hash32 \<Rightarrow> nat \<Rightarrow> store \<times> nat res" where
  "register_fingerprint s fingerprint guard =
     (case find_key fingerprint 0 (ss_keys s) of
        Some ix \<Rightarrow>
          if kr_guard (ss_keys s ! ix) \<noteq> guard then (s, Err GuardMismatch) else (s, Ok ix)
      | None \<Rightarrow>
          if length (ss_keys s) > u32_max then (s, Err (InvalidInput ''key table full''))
          else (s\<lparr>ss_keys := ss_keys s @ [\<lparr>kr_fingerprint = fingerprint, kr_guard = guard\<rparr>]\<rparr>,
                Ok (length (ss_keys s))))"

definition export_fingerprints :: "store \<Rightarrow> (nat \<times> hash32 \<times> nat) list" where
  "export_fingerprints s =
     map (\<lambda>(i, k). (i, kr_fingerprint k, kr_guard k)) (enumerate 0 (ss_keys s))"

section \<open>Shared checks\<close>

definition append_violation :: "string \<Rightarrow> store_error" where
  "append_violation msg = EngineErr (''append contract violation: '' @ msg)"

definition verify_append_shape :: "tail_state \<Rightarrow> nat \<Rightarrow> str \<Rightarrow> u32 list \<Rightarrow> nat \<Rightarrow> unit res" where
  "verify_append_shape t old_text_len delta old_ids kept =
     (if delta = [] then Ok ()
      else rbind (ok_or (checked_add64 old_text_len (length delta)) (Internal ''text length overflow'')) (\<lambda>want_len.
      if text_bytes t \<noteq> want_len \<or> \<not> ends_with (tl_text t) delta
      then Err (append_violation ''tail text is not old text + delta'')
      else if kept > length old_ids \<or> kept > n_tokens t \<or> take kept (ids_of t) \<noteq> take kept old_ids
      then Err (append_violation ''kept token prefix does not match'')
      else Ok ()))"

definition byte_offset_at_char :: "str \<Rightarrow> nat \<Rightarrow> nat res" where
  "byte_offset_at_char text target =
     (if target = 0 then Ok 0
      else if target < length (char_indices text) then Ok (fst (char_indices text ! target))
      else if char_count text = target then Ok (length text)
      else Err (Internal ''character offset exceeds text length''))"

definition constant_time_eq :: "u8 list \<Rightarrow> u8 list \<Rightarrow> bool" where
  "constant_time_eq left right =
     (if length left \<noteq> length right then False
      else fold (\<lambda>(a, b) difference. or difference (xor a b)) (zip left right) 0 = 0)"

text \<open>The parts of the store that sealing borrows, and their way back.\<close>

definition work_of :: "store \<Rightarrow> session \<Rightarrow> work" where
  "work_of s sess = \<lparr>wk_sess = sess, wk_nodes = ss_nodes s, wk_stats = ss_stats s, wk_next_alloc = ss_next_alloc s\<rparr>"

definition return_work :: "store \<Rightarrow> work \<Rightarrow> store" where
  "return_work s w = s\<lparr>ss_nodes := wk_nodes w, ss_stats := wk_stats w, ss_next_alloc := wk_next_alloc w\<rparr>"

section \<open>Put\<close>

record put_outcome =
  po_handle :: nat
  po_revision :: nat
  po_token_count :: nat

text \<open>The foreground closure, run \<open>n\<close> times; the slot keeps the last result.\<close>

fun run_foreground ::
  "encoder \<Rightarrow> str \<Rightarrow> nat \<Rightarrow> tail_state \<Rightarrow> tail_state \<times> (string, append_report) outcome option" where
  "run_foreground engine text 0 t = (t, None)"
| "run_foreground engine text (Suc n) t =
     (let (t1, slot) = run_foreground engine text n t in
      if slot = Some Panic then (t1, slot)
      else let (t2, r) = eng_append engine t1 text in (t2, Some r))"

text \<open>
  The seed encode of \<^verbatim>\<open>put\<close>: the tail, the joined digest slot, the report. The digest does not
  depend on the tail nor the encode on the digest, so the two closures may run in any order.
\<close>

definition seed_encode ::
  "(u8 list \<Rightarrow> hash16) \<Rightarrow> store \<Rightarrow> encoder \<Rightarrow> str \<Rightarrow> tail_state \<times> content_digest res option \<times> append_report res" where
  "seed_encode blake s engine text =
     (case ss_overlap s of
        Some runner \<Rightarrow>
          if ss_content_tracking s
          then
            let digest = (if ov_background runner = 0 then None
                          else Some (case content_digest_fault s of
                                 Some e \<Rightarrow> Err e | None \<Rightarrow> content_from_bytes blake text));
                (t, slot) = run_foreground engine text (ov_foreground runner) tail_new
            in (t, digest,
                case slot of
                  None \<Rightarrow> Err (Internal ''the overlap runner skipped the foreground encode'')
                | Some r \<Rightarrow> from_engine r)
          else let (t, r) = eng_append engine tail_new text in (t, None, from_engine r)
      | None \<Rightarrow> let (t, r) = eng_append engine tail_new text in (t, None, from_engine r))"

text \<open>The text part of \<^verbatim>\<open>put\<close>: the store left behind, and the session with the digest slot.\<close>

definition seed_session ::
  "(u8 list \<Rightarrow> hash32) \<Rightarrow> (u8 list \<Rightarrow> hash16) \<Rightarrow> store \<Rightarrow> key_ctx \<Rightarrow> encoder \<Rightarrow> str \<Rightarrow> session
     \<Rightarrow> store \<times> (session \<times> content_digest res option) res" where
  "seed_session sha blake s key engine text sess =
     (if text = [] then (s, Ok (sess, None))
      else
        let (t, overlap_digest, report) = seed_encode blake s engine text in
        attempt s report (\<lambda>rp.
        attempt s (verify_append_shape t 0 text [] (rp_kept rp)) (\<lambda>_.
        let s1 = stat (\<lambda>st. bump_path st (rp_path rp)) s;
            (w, r) = post_text_ops sha (ss_cfg s1) key engine (work_of s1 (sess\<lparr>s_tail := t\<rparr>));
            s2 = return_work s1 w in
        attempt s2 r (\<lambda>_. (s2, Ok (wk_sess w, overlap_digest))))))"

text \<open>The digests of the seeded session, its first record hash, and its insertion.\<close>

definition put_finish ::
  "(u8 list \<Rightarrow> hash32) \<Rightarrow> (u8 list \<Rightarrow> hash16) \<Rightarrow> store \<Rightarrow> key_ctx \<Rightarrow> str \<Rightarrow> session
     \<Rightarrow> content_digest res option \<Rightarrow> store \<times> put_outcome res" where
  "put_finish sha blake s key text sess overlap_digest =
     attempt s (if ss_recovery_tracking s then rbind (recovery_from_text text) (\<lambda>d. Ok (Some d)) else Ok None)
       (\<lambda>recovery.
     attempt s (if ss_content_tracking s
                then rbind (case overlap_digest of Some digest \<Rightarrow> digest | None \<Rightarrow> seed_content_digest blake s text)
                       (\<lambda>d. Ok (Some d))
                else Ok None) (\<lambda>content.
     let sess1 = sess\<lparr>s_recovery := recovery, s_content := content\<rparr>;
         sess2 = sess1\<lparr>s_record_hash := commit_hash sha sess1 (k_fingerprint key)\<rparr>;
         (s1, handle) = insert_session s sess2 in
     (s1, Ok \<lparr>po_handle = handle, po_revision = 0, po_token_count = sess_token_count sess2\<rparr>)))"

definition put ::
  "(u8 list \<Rightarrow> hash32) \<Rightarrow> (u8 list \<Rightarrow> hash16) \<Rightarrow> store \<Rightarrow> nat \<Rightarrow> str \<Rightarrow> encoder \<Rightarrow> store \<times> put_outcome res" where
  "put sha blake s key_id text engine =
     attempt s (key_of s key_id) (\<lambda>key.
     let s0 = evict_for_capacity (tick s);
         s1 = stat (\<lambda>st. st\<lparr>st_puts := st_puts st + 1\<rparr>) s0 in
     andthen (seed_session sha blake s1 key engine text (fresh key_id (eng_witness engine) (ss_clock s0)))
       (\<lambda>s2 (sess, overlap_digest). put_finish sha blake s2 key text sess overlap_digest))"

section \<open>Append\<close>

record patch_outcome =
  pa_path :: string
  pa_revision :: nat
  pa_replace_from :: nat
  pa_replacement :: "u32 list"
  pa_token_count :: nat

record append_outcome =
  ao_path :: string
  ao_revision :: nat
  ao_replace_from :: nat
  ao_replacement :: "u32 list"
  ao_all_ids :: "u32 list"

text \<open>The growth of the tail: noop, hard-cap degradation, or the engine's append.\<close>

definition grow_tail ::
  "config \<Rightarrow> encoder \<Rightarrow> tail_state \<Rightarrow> str \<Rightarrow> tail_state \<times> (string \<times> nat) res" where
  "grow_tail cfg engine t delta =
     (if delta = [] then (t, Ok (''noop'', n_tokens t))
      else if text_bytes t > c_hard_cap cfg
      then
        let full = tl_text t @ delta in
        attempt t (from_engine (eng_encode engine full)) (\<lambda>enc.
        andthen (fill t full enc) (\<lambda>t' _. (t', Ok (''degraded_full_reencode'', 0))))
      else
        let (t', r) = eng_append engine t delta in
        attempt t' (from_engine r) (\<lambda>rp. (t', Ok (rp_path rp, rp_kept rp))))"

definition append_digests ::
  "(u8 list \<Rightarrow> hash16) \<Rightarrow> str \<Rightarrow> session \<Rightarrow> session \<times> unit res" where
  "append_digests blake delta sess =
     andthen (case s_recovery sess of
                None \<Rightarrow> (sess, Ok ())
              | Some d \<Rightarrow> attempt sess (recovery_append d delta) (\<lambda>d'. (sess\<lparr>s_recovery := Some d'\<rparr>, Ok ())))
       (\<lambda>sess _.
         case s_content sess of
           None \<Rightarrow> (sess, Ok ())
         | Some d \<Rightarrow> let (d', r) = content_append blake d delta in (sess\<lparr>s_content := Some d'\<rparr>, r))"

text \<open>Where the append writes: the store, and the session put back into its table.\<close>

definition with_session :: "store \<Rightarrow> nat \<Rightarrow> session \<times> 'a res \<Rightarrow> store \<times> 'a res" where
  "with_session s handle m = (put_session s handle (fst m), snd m)"

definition replacement_of :: "session \<Rightarrow> nat \<Rightarrow> u32 list res" where
  "replacement_of sess replace =
     (let sealed = sl_len (s_sealed sess) in
      if replace < sealed
      then Ok (extend_suffix_into (s_sealed sess) [] replace @ ids_of (s_tail sess))
      else vec_slice (ids_of (s_tail sess)) (replace - sealed) (n_tokens (s_tail sess)))"

text \<open>The new revision: the commit of the append.\<close>

definition commit_append ::
  "(u8 list \<Rightarrow> hash32) \<Rightarrow> key_ctx \<Rightarrow> string \<Rightarrow> nat \<Rightarrow> session \<Rightarrow> session \<times> patch_outcome res" where
  "commit_append sha key path replace_from sess =
     (let sess1 = sess\<lparr>s_revision := add64 (s_revision sess) 1, s_prev_hash := s_record_hash sess,
                       s_last_replace := replace_from\<rparr>;
          sess2 = sess1\<lparr>s_record_hash := commit_hash sha sess1 (k_fingerprint key)\<rparr> in
      attempt sess2 (ok_or (checked_add64 (sl_len (s_sealed sess2)) (n_tokens (s_tail sess2)))
                      (Internal ''token count overflow'')) (\<lambda>token_count.
      if replace_from > token_count then (sess2, Err (Internal ''replace_from exceeds the new token count''))
      else attempt sess2 (replacement_of sess2 replace_from) (\<lambda>replacement.
        (sess2, Ok \<lparr>pa_path = path, pa_revision = s_revision sess2, pa_replace_from = replace_from,
                    pa_replacement = replacement, pa_token_count = token_count\<rparr>))))"

text \<open>The body of the append on the session \<open>sess\<close>, whose revision was checked.\<close>

definition append_body ::
  "(u8 list \<Rightarrow> hash32) \<Rightarrow> (u8 list \<Rightarrow> hash16) \<Rightarrow> store \<Rightarrow> nat \<Rightarrow> key_ctx \<Rightarrow> session \<Rightarrow> str \<Rightarrow> encoder
     \<Rightarrow> store \<times> patch_outcome res" where
  "append_body sha blake s handle key sess delta engine =
     (let old_sealed = sl_len (s_sealed sess); old_tail_ids = ids_of (s_tail sess);
          old_len = text_bytes (s_tail sess);
          sess1 = (if delta \<noteq> [] then bump_generation sess else sess);
          (t, grown) = grow_tail (ss_cfg s) engine (s_tail sess1) delta;
          sess2 = sess1\<lparr>s_tail := t\<rparr>; s2 = put_session s handle sess2 in
      attempt s2 grown (\<lambda>(path, kept).
      attempt s2 (verify_append_shape t old_len delta old_tail_ids kept) (\<lambda>_.
      let (w, r) = (if delta \<noteq> [] then post_text_ops sha (ss_cfg s) key engine (work_of s2 sess2)
                    else (work_of s2 sess2, Ok ()));
          s3 = put_session (return_work s2 w) handle (wk_sess w) in
      attempt s3 r (\<lambda>_.
      let s4 = (if path = ''degraded_full_reencode''
                then stat (\<lambda>st. st\<lparr>st_hard_cap_degrades := st_hard_cap_degrades st + 1\<rparr>) s3 else s3);
          s5 = stat (\<lambda>st. bump_path st path) s4;
          (sess3, digests) = append_digests blake delta (wk_sess w);
          s6 = put_session s5 handle sess3 in
      attempt s6 digests (\<lambda>_.
        with_session s6 handle (commit_append sha key path (old_sealed + kept) sess3))))))"

definition append_patch ::
  "(u8 list \<Rightarrow> hash32) \<Rightarrow> (u8 list \<Rightarrow> hash16) \<Rightarrow> store \<Rightarrow> nat \<Rightarrow> str \<Rightarrow> nat \<Rightarrow> encoder
     \<Rightarrow> store \<times> patch_outcome res" where
  "append_patch sha blake s handle delta expected engine =
     attempt s (session_of s handle) (\<lambda>sess.
     attempt s (key_of s (s_key_id sess)) (\<lambda>key.
     if s_witness sess \<noteq> eng_witness engine
     then (s, Err (WitnessCategoryMismatch (s_witness sess) (eng_witness engine)))
     else if s_revision sess \<noteq> expected
     then (stat (\<lambda>st. st\<lparr>st_revision_conflicts := st_revision_conflicts st + 1\<rparr>) s,
           Err (RevisionConflict expected (s_revision sess)))
     else
       let s1 = stat (\<lambda>st. st\<lparr>st_extends := st_extends st + 1\<rparr>) (tick s);
           sess1 = sess\<lparr>s_last_used := ss_clock s1\<rparr> in
       append_body sha blake (put_session s1 handle sess1) handle key sess1 delta engine))"

definition collect_all_ids :: "store \<Rightarrow> nat \<Rightarrow> store \<times> u32 list res" where
  "collect_all_ids s handle =
     (let s1 = count_materialization s in
      attempt s1 (session_of s1 handle) (\<lambda>sess. (s1, Ok (materialize_all_ids sess))))"

definition append_session ::
  "(u8 list \<Rightarrow> hash32) \<Rightarrow> (u8 list \<Rightarrow> hash16) \<Rightarrow> store \<Rightarrow> nat \<Rightarrow> str \<Rightarrow> nat \<Rightarrow> encoder
     \<Rightarrow> store \<times> append_outcome res" where
  "append_session sha blake s handle delta expected engine =
     andthen (append_patch sha blake s handle delta expected engine) (\<lambda>s1 patch.
     andthen (collect_all_ids s1 handle) (\<lambda>s2 ids.
       (s2, Ok \<lparr>ao_path = pa_path patch, ao_revision = pa_revision patch,
                ao_replace_from = pa_replace_from patch, ao_replacement = pa_replacement patch,
                ao_all_ids = ids\<rparr>)))"

end
