(* ===== verification/Queries.thy ===== *)
theory Queries
  imports Store
begin

text \<open>
  The rest of the session operations of \<^verbatim>\<open>store.rs\<close>: prefix lookup, fork, explicit eviction, the
  complete rows and the introspection snapshots.
\<close>

section \<open>Lookup\<close>

record lookup_hit =
  lh_handle :: nat
  lh_matched :: nat
  lh_revision :: nat

record walk =
  lw_parent :: "hash32 option"
  lw_cum_safe :: nat
  lw_cum_idx :: nat
  lw_cum_end_byte :: nat
  lw_path :: "(hash32 \<times> node_record) list"

definition walk_start :: walk where
  "walk_start = \<lparr>lw_parent = None, lw_cum_safe = 0, lw_cum_idx = 0, lw_cum_end_byte = 0, lw_path = []\<rparr>"

definition node_fits ::
  "(u8 list \<Rightarrow> hash32) \<Rightarrow> key_ctx \<Rightarrow> witness \<Rightarrow> nat \<Rightarrow> nat \<Rightarrow> walk \<Rightarrow> node_entry \<Rightarrow> bool" where
  "node_fits sha key wit index end_char wk entry =
     (let n = ne_rec entry in
      entry_verify sha entry \<and> n_fingerprint n = k_fingerprint key \<and> n_witness n = wit
      \<and> n_parent n = lw_parent wk \<and> n_block_index n = index \<and> n_end_char n = end_char
      \<and> n_safe_char n \<ge> lw_cum_safe wk \<and> n_safe_char n \<le> end_char
      \<and> n_ids_base n = lw_cum_idx wk \<and> n_end_byte n > lw_cum_end_byte wk)"

definition walk_on :: "walk \<Rightarrow> hash32 \<Rightarrow> node_record \<Rightarrow> walk" where
  "walk_on wk key_hash n =
     \<lparr>lw_parent = Some key_hash, lw_cum_safe = n_safe_char n,
      lw_cum_idx = add64 (lw_cum_idx wk) (length (n_ids n)), lw_cum_end_byte = n_end_byte n,
      lw_path = lw_path wk @ [(key_hash, n)]\<rparr>"

text \<open>The walk over the blocks; the flag says whether a node was rejected.\<close>

fun lookup_walk ::
  "(u8 list \<Rightarrow> hash32) \<Rightarrow> nat \<Rightarrow> (hash32, node_entry) table \<Rightarrow> key_ctx \<Rightarrow> witness \<Rightarrow> nat \<Rightarrow> walk
     \<Rightarrow> str list \<Rightarrow> walk \<times> bool" where
  "lookup_walk sha block_chars nodes key wit index wk [] = (wk, False)"
| "lookup_walk sha block_chars nodes key wit index wk (block # blocks) =
     (let key_hash = node_key sha (lw_parent wk) (k_fingerprint key) index block in
      case tbl_get nodes key_hash of
        None \<Rightarrow> (wk, False)
      | Some entry \<Rightarrow>
          (case Option.bind (checked_add64 index 1) (\<lambda>n. checked_mul64 n block_chars) of
             None \<Rightarrow> (wk, False)
           | Some end_char \<Rightarrow>
               if \<not> node_fits sha key wit index end_char wk entry then (wk, True)
               else lookup_walk sha block_chars nodes key wit (Suc index)
                      (walk_on wk key_hash (ne_rec entry)) blocks))"

definition matched_prefix :: "str \<Rightarrow> nat \<Rightarrow> str res" where
  "matched_prefix text end_char = rbind (byte_offset_at_char text end_char) (\<lambda>m. str_slice text 0 m)"

text \<open>The session a hit materialises, before its digests.\<close>

definition hit_session ::
  "nat \<Rightarrow> witness \<Rightarrow> nat \<Rightarrow> hash32 \<Rightarrow> node_record \<Rightarrow> u32 list \<Rightarrow> nat \<Rightarrow> nat \<Rightarrow> tail_state \<Rightarrow> session" where
  "hit_session key_id wit clock deep_key deep sealed cum_idx safe_byte t =
     (fresh key_id wit clock)\<lparr>s_total_chars := n_end_char deep, s_safe_char := n_safe_char deep,
        s_safe_byte := safe_byte, s_payload := update_ids payload_hasher_new sealed,
        s_sealed := sealed_from_vec sealed, s_blocks_end := n_end_char deep,
        s_blocks_end_byte := n_end_byte deep, s_chain_tail := Some deep_key,
        s_base_safe := n_safe_char deep, s_base_idx := cum_idx,
        s_seal_log := [(0, 0)] @ (if n_safe_char deep > 0 then [(n_safe_char deep, cum_idx)] else []),
        s_tail := t\<rparr>"

definition lookup ::
  "(u8 list \<Rightarrow> hash32) \<Rightarrow> (u8 list \<Rightarrow> hash16) \<Rightarrow> store \<Rightarrow> nat \<Rightarrow> str \<Rightarrow> encoder
     \<Rightarrow> store \<times> lookup_hit option res" where
  "lookup sha blake s key_id text engine =
     attempt s (key_of s key_id) (\<lambda>key.
     let s1 = stat (\<lambda>st. st\<lparr>st_lookups := st_lookups st + 1\<rparr>) s;
         wit = eng_witness engine;
         (wk, rejected) = lookup_walk sha (c_block_chars (ss_cfg s1)) (ss_nodes s1) key wit 0 walk_start
                            (block_slices text (c_block_chars (ss_cfg s1)));
         s2 = (if rejected then stat (\<lambda>st. st\<lparr>st_checksum_rejects := st_checksum_rejects st + 1\<rparr>) s1 else s1)
     in
     if lw_path wk = []
     then (stat (\<lambda>st. st\<lparr>st_lookup_misses := st_lookup_misses st + 1\<rparr>) s2, Ok None)
     else
       let (deep_key, deep) = last (lw_path wk);
           sealed = concat (map (\<lambda>(_, n). n_ids n) (lw_path wk)) in
       attempt s2 (from_engine (eng_encode engine (n_text_tail deep))) (\<lambda>enc.
       attempt s2 (fill_state (n_text_tail deep) enc) (\<lambda>t.
       let s3 = evict_for_capacity (tick s2) in
       attempt s3 (ok_or (checked_sub64 (n_end_byte deep) (text_bytes t))
                    (Internal ''node byte accounting underflow'')) (\<lambda>safe_byte.
       let sess = hit_session key_id wit (ss_clock s3) deep_key deep sealed (lw_cum_idx wk) safe_byte t in
       attempt s3 (if ss_recovery_tracking s3
                   then rbind (matched_prefix text (n_end_char deep)) (\<lambda>p.
                        rbind (recovery_from_text p) (\<lambda>d. Ok (Some d)))
                   else Ok None) (\<lambda>recovery.
       attempt s3 (if ss_content_tracking s3
                   then rbind (matched_prefix text (n_end_char deep)) (\<lambda>p.
                        rbind (content_from_bytes blake p) (\<lambda>d. Ok (Some d)))
                   else Ok None) (\<lambda>content.
       let sess1 = sess\<lparr>s_recovery := recovery, s_content := content\<rparr>;
           sess2 = sess1\<lparr>s_record_hash := commit_hash sha sess1 (k_fingerprint key)\<rparr>;
           (s4, handle) = insert_session s3 sess2;
           s5 = stat (\<lambda>st. st\<lparr>st_lookup_hits := st_lookup_hits st + 1\<rparr>) s4 in
       (s5, Ok (Some \<lparr>lh_handle = handle, lh_matched = n_end_char deep, lh_revision = 0\<rparr>))))))))"

section \<open>Fork and evict\<close>

definition fork_session :: "(u8 list \<Rightarrow> hash32) \<Rightarrow> key_ctx \<Rightarrow> session \<Rightarrow> session" where
  "fork_session sha key sess =
     (let cloned = sess\<lparr>s_revision := 0, s_prev_hash := ZERO_HASH, s_record_hash := ZERO_HASH,
                        s_last_replace := 0\<rparr>
      in cloned\<lparr>s_record_hash := commit_hash sha cloned (k_fingerprint key)\<rparr>)"

definition fork :: "(u8 list \<Rightarrow> hash32) \<Rightarrow> store \<Rightarrow> nat \<Rightarrow> store \<times> nat res" where
  "fork sha s handle =
     (let s1 = tick s in
      attempt s1 (session_of s1 handle) (\<lambda>sess.
      attempt s1 (key_of s1 (s_key_id sess)) (\<lambda>key.
      let sess1 = sess\<lparr>s_last_used := ss_clock s1\<rparr>;
          s2 = stat (\<lambda>st. st\<lparr>st_forks := st_forks st + 1\<rparr>) (put_session s1 handle sess1);
          (s3, h) = insert_session (evict_for_capacity s2) (fork_session sha key sess1) in
      (s3, Ok h))))"

definition evict :: "store \<Rightarrow> nat \<Rightarrow> store \<times> bool" where
  "evict s handle =
     (s\<lparr>ss_sessions := tbl_del (ss_sessions s) handle\<rparr>, tbl_get (ss_sessions s) handle \<noteq> None)"

section \<open>Complete rows\<close>

definition all_ids :: "store \<Rightarrow> nat \<Rightarrow> store \<times> u32 list res" where
  "all_ids s handle =
     (let s1 = tick s in
      attempt s1 (session_of s1 handle) (\<lambda>sess.
        (count_materialization (put_session s1 handle (sess\<lparr>s_last_used := ss_clock s1\<rparr>)),
         Ok (materialize_all_ids sess))))"

text \<open>The row without a copy, where the sealed prefix and the tail allow it.\<close>

definition adjacent_row :: "session \<Rightarrow> shared_ids option" where
  "adjacent_row sess =
     (case (as_single_shared (s_sealed sess), tail_shared_ids (s_tail sess)) of
        (Some sealed, Some t) \<Rightarrow> if n_tokens (s_tail sess) = shared_len t then join_adjacent sealed t else None
      | (None, Some t) \<Rightarrow>
          if sealed_is_empty (s_sealed sess) \<and> n_tokens (s_tail sess) = shared_len t then Some t else None
      | _ \<Rightarrow> None)"

definition cached_row :: "session \<Rightarrow> shared_ids option" where
  "cached_row sess =
     (case s_snapshot sess of
        Some (generation, snapshot) \<Rightarrow> if generation = s_generation sess then Some snapshot else None
      | None \<Rightarrow> None)"

definition snapshot_row :: "store \<Rightarrow> session \<Rightarrow> store \<times> shared_ids" where
  "snapshot_row s sess =
     (case adjacent_row sess of
        Some row \<Rightarrow> (s, row)
      | None \<Rightarrow> ((count_materialization s)\<lparr>ss_next_alloc := Suc (ss_next_alloc s)\<rparr>,
                 shared_from_vec (ss_next_alloc s) (materialize_all_ids sess)))"

definition shared_all_ids :: "store \<Rightarrow> nat \<Rightarrow> store \<times> shared_ids res" where
  "shared_all_ids s handle =
     (let s1 = tick s in
      attempt s1 (session_of s1 handle) (\<lambda>sess.
      let sess1 = sess\<lparr>s_last_used := ss_clock s1\<rparr>; s2 = put_session s1 handle sess1 in
      case cached_row sess1 of
        Some snapshot \<Rightarrow> (s2, Ok snapshot)
      | None \<Rightarrow>
          let (s3, row) = snapshot_row s2 sess1 in
          (put_session s3 handle (sess1\<lparr>s_snapshot := Some (s_generation sess1, row)\<rparr>), Ok row)))"

section \<open>Introspection\<close>

definition revision :: "store \<Rightarrow> nat \<Rightarrow> nat res" where
  "revision s handle = rbind (session_of s handle) (\<lambda>sess. Ok (s_revision sess))"

record session_info =
  si_key_id :: nat
  si_witness :: witness
  si_revision :: nat
  si_total_chars :: nat
  si_safe_char :: nat
  si_stable_bytes :: nat
  si_token_count :: nat
  si_sealed_tokens :: nat
  si_tail_chars :: nat
  si_tail_bytes :: nat
  si_buf_bytes :: nat
  si_blocks_end :: nat
  si_chain_ok :: bool
  si_last_replace :: nat
  si_approx_bytes :: nat

definition session_info_of :: "store \<Rightarrow> nat \<Rightarrow> session_info res" where
  "session_info_of s handle =
     rbind (session_of s handle) (\<lambda>x.
       Ok \<lparr>si_key_id = s_key_id x, si_witness = s_witness x, si_revision = s_revision x,
           si_total_chars = s_total_chars x, si_safe_char = s_safe_char x, si_stable_bytes = s_safe_byte x,
           si_token_count = sess_token_count x, si_sealed_tokens = sl_len (s_sealed x),
           si_tail_chars = tl_chars (s_tail x), si_tail_bytes = text_bytes (s_tail x),
           si_buf_bytes = length (s_buf x), si_blocks_end = s_blocks_end x, si_chain_ok = s_chain_ok x,
           si_last_replace = s_last_replace x,
           si_approx_bytes = sl_len (s_sealed x) * 4 + text_bytes (s_tail x)
             + n_tokens (s_tail x) * 12 + length (s_buf x)\<rparr>)"

definition list_handles :: "store \<Rightarrow> nat list" where
  "list_handles s = sort (tbl_keys (ss_sessions s))"

text \<open>\<^verbatim>\<open>stats()\<close>; the hit rate is kept as the two operands of its division.\<close>

record stats_snapshot =
  sn_format :: string
  sn_block_chars :: nat
  sn_soft_cap :: nat
  sn_hard_cap :: nat
  sn_max_sessions :: nat
  sn_session_count :: nat
  sn_node_count :: nat
  sn_counters :: stats
  sn_hit_rate :: "(nat \<times> nat) option"

definition stats_of :: "store \<Rightarrow> stats_snapshot" where
  "stats_of s =
     \<lparr>sn_format = ''toktier.store.v1'', sn_block_chars = c_block_chars (ss_cfg s),
      sn_soft_cap = c_soft_cap (ss_cfg s), sn_hard_cap = c_hard_cap (ss_cfg s),
      sn_max_sessions = c_max_sessions (ss_cfg s), sn_session_count = length (ss_sessions s),
      sn_node_count = length (ss_nodes s), sn_counters = ss_stats s,
      sn_hit_rate = (if st_lookups (ss_stats s) > 0
                     then Some (st_lookup_hits (ss_stats s), st_lookups (ss_stats s)) else None)\<rparr>"

end
