(* ===== verification/Contract.thy ===== *)
theory Contract
  imports SealProps Queries
begin

text \<open>
  The contract of \<^verbatim>\<open>trait SessionEncoder\<close>, in two steps: what every well-behaved engine does to a
  tail, and what one does that computes a reference encoding and certifies its cuts. Inside the
  locales, the growth of a session and its bookkeeping keep the session's tokens the reference
  encoding of the session's text.
\<close>

section \<open>The three ways a tail grows\<close>

lemma grow_tail_append:
  "delta \<noteq> [] \<Longrightarrow> text_bytes t \<le> c_hard_cap cfg \<Longrightarrow> eng_append engine t delta = (t', r) \<Longrightarrow>
     grow_tail cfg engine t delta =
       (t', case r of Ok rp \<Rightarrow> Ok (rp_path rp, rp_kept rp) | Err e \<Rightarrow> Err (EngineErr e) | Panic \<Rightarrow> Panic)"
  by (cases r) (simp_all add: grow_tail_def)

lemma grow_tail_degraded:
  "delta \<noteq> [] \<Longrightarrow> c_hard_cap cfg < text_bytes t \<Longrightarrow>
     grow_tail cfg engine t delta =
       (case eng_encode engine (tl_text t @ delta) of
          Ok enc \<Rightarrow> (case fill_state (tl_text t @ delta) enc of
                       Ok t' \<Rightarrow> (t', Ok (''degraded_full_reencode'', 0)) | Err e \<Rightarrow> (t, Err e) | Panic \<Rightarrow> (t, Panic))
        | Err e \<Rightarrow> (t, Err (EngineErr e)) | Panic \<Rightarrow> (t, Panic))"
  by (cases "eng_encode engine (tl_text t @ delta)")
    (simp_all add: grow_tail_def Let_def fill_def split: outcome.splits)

lemma grow_tail_noop: "grow_tail cfg engine t [] = (t, Ok (''noop'', n_tokens t))"
  by (simp add: grow_tail_def)

section \<open>Engines that keep tails well formed\<close>

text \<open>
  A tail can only be changed through the methods of \<^verbatim>\<open>TailState\<close>, which keep its invariant; beyond
  that an engine delivers the spans of its tokens in text order.
\<close>

definition tail_ok :: "tail_state \<Rightarrow> bool" where
  "tail_ok t \<longleftrightarrow> tail_wf t \<and> ordered t"

lemma sess_tail_ok: "sess_wf s \<Longrightarrow> tail_ok (s_tail s)"
  by (simp add: sess_wf_def tail_ok_def)

lemma fill_ok:
  "fill_state text enc = Ok t \<Longrightarrow> valid_utf8 text \<Longrightarrow> sorted (map fst (enc_spans enc)) \<Longrightarrow> tail_ok t"
  using fill_state_Ok [of "text" enc t] by (simp add: tail_ok_def ordered_def)

lemma fill_count: "fill_state text enc = Ok t \<Longrightarrow> char_count text \<le> u32_max"
  by (auto simp: fill_state_def rbind_eq_Ok)

locale tail_engine =
  fixes engine :: encoder
  assumes append_ok: "tail_ok t \<Longrightarrow> valid_utf8 d \<Longrightarrow> tail_ok (fst (eng_append engine t d))"
    and encode_sorted: "valid_utf8 x \<Longrightarrow> char_count x \<le> u32_max \<Longrightarrow> eng_encode engine x = Ok e \<Longrightarrow>
      sorted (map fst (enc_spans e))"
begin

lemma grow_tail_ok:
  assumes "tail_ok t" "valid_utf8 delta"
  shows "tail_ok (fst (grow_tail cfg engine t delta))"
proof -
  have full: "valid_utf8 (tl_text t @ delta)" using assms by (simp add: tail_wf_def tail_ok_def)
  show ?thesis
  proof (cases "delta = []")
    case True
    then show ?thesis using assms(1) by (simp add: grow_tail_noop)
  next
    case False
    show ?thesis
    proof (cases "c_hard_cap cfg < text_bytes t")
      case True
      have "tail_ok t'" if "eng_encode engine (tl_text t @ delta) = Ok enc" "fill_state (tl_text t @ delta) enc = Ok t'"
        for enc t'
        using that fill_ok full encode_sorted fill_count by blast
      then show ?thesis
        using assms(1) by (auto simp: grow_tail_degraded True False split: outcome.splits)
    next
      case hc: False
      obtain t' r where "eng_append engine t delta = (t', r)" by (cases "eng_append engine t delta")
      then show ?thesis using append_ok [OF assms] False hc by (simp add: grow_tail_append)
    qed
  qed
qed

lemma settle:
  "sess_wf (wk_sess w) \<Longrightarrow> settled engine (k_guard key) (wk_sess w) (wk_sess (fst (post_text_ops sha cfg key engine w)))"
  by (rule post_text_ops_settled)

end

section \<open>Reference encodings\<close>

text \<open>
  The reference encoding of a text is its tokens with their spans. A tail is faithful when it
  holds the reference encoding of its text; a session represents a text when its tail is faithful
  and its sealed stream is what the reference tokens of the text start with, whatever is appended.
\<close>

definition faithful :: "(str \<Rightarrow> encoding) \<Rightarrow> tail_state \<Rightarrow> bool" where
  "faithful R t \<longleftrightarrow> ids_of t = enc_ids (R (tl_text t))
     \<and> spans_of t = (map fst (enc_spans (R (tl_text t))), map snd (enc_spans (R (tl_text t))))"

definition represents :: "(str \<Rightarrow> encoding) \<Rightarrow> session \<Rightarrow> str \<Rightarrow> bool" where
  "represents R s T \<longleftrightarrow>
     sess_wf s \<and> faithful R (s_tail s) \<and> (\<exists>p. T = p @ tl_text (s_tail s))
     \<and> (\<forall>d. valid_utf8 d \<longrightarrow>
          enc_ids (R (T @ d)) = sealed_stream (s_sealed s) @ enc_ids (R (tl_text (s_tail s) @ d)))"

lemma represents_ids: "represents R s T \<Longrightarrow> materialize_all_ids s = enc_ids (R T)"
  unfolding represents_def materialize_eq faithful_def by (metis append_Nil2 valid_Nil)

lemma represents_same:
  assumes "represents R s T" "sess_wf s'" "s_sealed s' = s_sealed s" "s_tail s' = s_tail s"
  shows "represents R s' T"
  using assms by (simp add: represents_def)

text \<open>
  The correctness contract: the reference encoding, appends that extend it (a refused one leaves
  the tail alone), and cuts that are safe for every continuation once they keep \<open>guard\<close>
  characters from the end of the tail: the tokens before the cut stay, and the text after it
  encodes on its own.
\<close>

locale session_encoder = tail_engine +
  fixes R :: "str \<Rightarrow> encoding" and guard :: nat
  assumes ref_empty: "R [] = \<lparr>enc_ids = [], enc_spans = []\<rparr>"
    and encode_ref: "valid_utf8 x \<Longrightarrow> eng_encode engine x = Ok e \<Longrightarrow> e = R x"
    and append_ref: "tail_ok t \<Longrightarrow> faithful R t \<Longrightarrow> valid_utf8 d \<Longrightarrow>
      eng_append engine t d = (t', Ok rp) \<Longrightarrow> tl_text t' = tl_text t @ d \<and> faithful R t'"
    and append_err: "tail_ok t \<Longrightarrow> eng_append engine t d = (t', r) \<Longrightarrow> (\<And>rp. r \<noteq> Ok rp) \<Longrightarrow> t' = t"
    and boundary_safe: "tail_ok t \<Longrightarrow> faithful R t \<Longrightarrow> ceil + guard \<le> tl_chars t \<Longrightarrow>
      eng_boundary engine t floor ceil = Ok (Some c) \<Longrightarrow> valid_utf8 d \<Longrightarrow>
      enc_ids (R (tl_text t @ d)) = take (cut_tokens c) (ids_of t)
        @ enc_ids (R (drop (char_off (tl_text t) (cut_char c)) (tl_text t) @ d))"
    and boundary_spans: "tail_ok t \<Longrightarrow> faithful R t \<Longrightarrow> ceil + guard \<le> tl_chars t \<Longrightarrow>
      eng_boundary engine t floor ceil = Ok (Some c) \<Longrightarrow>
      (let rest = enc_spans (R (drop (char_off (tl_text t) (cut_char c)) (tl_text t)))
       in (map fst rest, map snd rest)) = shifted (cut_tokens c) (cut_char c) (spans_of t)"
begin

lemma settled_represents:
  assumes rep: "represents R s T" and st: "settled engine g s s'" and g: "guard \<le> g"
  shows "represents R s' T"
proof -
  let ?t = "s_tail s"
  note r = rep [unfolded represents_def]
  have tw: "tail_ok ?t" and f: "faithful R ?t" using r sess_tail_ok by blast+
  from st consider "s_sealed s' = s_sealed s" "s_tail s' = s_tail s" "sess_wf s'"
    | floor ceil c where "ceil + g \<le> tl_chars ?t" "eng_boundary engine ?t floor ceil = Ok (Some c)"
        "moved s (cut_tokens c) (cut_char c) s'"
    by (auto simp: settled_def)
  then show ?thesis
  proof cases
    case 1
    then show ?thesis using rep represents_same by blast
  next
    case 2
    let ?off = "char_off (tl_text ?t) (cut_char c)" and ?k = "cut_tokens c"
    let ?rest = "drop ?off (tl_text ?t)"
    have ceil: "ceil + guard \<le> tl_chars ?t" using 2(1) g by simp
    have safe: "enc_ids (R (tl_text ?t @ d)) = take ?k (ids_of ?t) @ enc_ids (R (?rest @ d))" if "valid_utf8 d" for d
      using boundary_safe [OF tw f ceil 2(2) that] .
    note m = 2(3) [unfolded moved_def]
    have "enc_ids (R ?rest) = drop ?k (ids_of ?t)"
    proof -
      have "ids_of ?t = take ?k (ids_of ?t) @ enc_ids (R ?rest)"
        using safe [of "[]"] f by (simp add: faithful_def)
      then have "take ?k (ids_of ?t) @ drop ?k (ids_of ?t) = take ?k (ids_of ?t) @ enc_ids (R ?rest)"
        by simp
      then show ?thesis by (metis same_append_eq)
    qed
    then have f': "faithful R (s_tail s')"
      using m boundary_spans [OF tw f ceil 2(2)] by (simp add: faithful_def Let_def)
    obtain p where "T = p @ tl_text ?t" using r by blast
    then have "T = (p @ take ?off (tl_text ?t)) @ ?rest" by simp
    moreover have "enc_ids (R (T @ d)) = sealed_stream (s_sealed s') @ enc_ids (R (?rest @ d))" if "valid_utf8 d" for d
      using r that safe [OF that] m by simp
    ultimately show ?thesis using m f' unfolding represents_def by metis
  qed
qed

lemma grow_represents:
  assumes rep: "represents R s T" and d: "valid_utf8 delta" and snap: "delta \<noteq> [] \<Longrightarrow> s_snapshot s = None"
    and grow: "grow_tail cfg engine (s_tail s) delta = (t, Ok pk)"
  shows "represents R (s\<lparr>s_tail := t\<rparr>) (T @ delta)"
proof (cases "delta = []")
  case True
  then have "t = s_tail s" using grow by (simp add: grow_tail_def)
  then show ?thesis using rep True by simp
next
  case False
  let ?x = "tl_text (s_tail s)"
  note r = rep [unfolded represents_def]
  have tw: "tail_ok (s_tail s)" using r sess_tail_ok by blast
  have full: "valid_utf8 (?x @ delta)" using tw d by (simp add: tail_wf_def tail_ok_def)
  have wf: "tail_ok t" using grow_tail_ok [OF tw d, of cfg] grow by simp
  have t: "tl_text t = ?x @ delta \<and> faithful R t"
  proof (cases "c_hard_cap cfg < text_bytes (s_tail s)")
    case True
    then obtain enc where e: "eng_encode engine (?x @ delta) = Ok enc" "fill_state (?x @ delta) enc = Ok t"
      using grow by (auto simp: grow_tail_degraded False split: outcome.splits)
    show ?thesis using fill_state_Ok [OF e(2) full] encode_ref [OF full e(1)] by (simp add: faithful_def)
  next
    case hc: False
    obtain t' ra where ea: "eng_append engine (s_tail s) delta = (t', ra)"
      by (cases "eng_append engine (s_tail s) delta")
    then obtain rp where "t' = t" "ra = Ok rp"
      using grow hc by (cases ra) (simp_all add: grow_tail_append False)
    then show ?thesis using append_ref [OF tw _ d, of t rp] r ea by simp
  qed
  have "sess_wf (s\<lparr>s_tail := t\<rparr>)" using r wf snap [OF False] by (simp add: sess_wf_def snapshot_ok_def tail_ok_def)
  moreover have "enc_ids (R ((T @ delta) @ e)) = sealed_stream (s_sealed s) @ enc_ids (R ((?x @ delta) @ e))" if "valid_utf8 e" for e
    using r d that by simp
  moreover obtain p where "T = p @ ?x" using r by blast
  ultimately show ?thesis using t unfolding represents_def by simp
qed

lemma grow_refused:
  assumes "tail_ok t" "grow_tail cfg engine t delta = (t', r)" "\<And>pk. r \<noteq> Ok pk"
  shows "t' = t"
proof (cases "delta = []")
  case True
  then show ?thesis using assms by (simp add: grow_tail_def)
next
  case False
  show ?thesis
  proof (cases "c_hard_cap cfg < text_bytes t")
    case True
    then show ?thesis using assms(2,3) by (auto simp: grow_tail_degraded False split: outcome.splits)
  next
    case hc: False
    obtain t1 ra where ea: "eng_append engine t delta = (t1, ra)" by (cases "eng_append engine t delta")
    have "t' = t1" "ra \<noteq> Ok rp" for rp
      using ea hc assms(2) assms(3) [of "(rp_path rp, rp_kept rp)"] by (auto simp: grow_tail_append False)
    then show ?thesis using append_err [OF assms(1) ea] by simp
  qed
qed

end

end
