(* ===== verification/AppendProps.thy ===== *)
theory AppendProps
  imports Contract
begin

text \<open>
  What an append does: the patch it returns rebuilds the new stream from the old one, the new
  revision is committed under its link hash, a conflict changes nothing but its counter, and under
  the encoder contract the stream stays the reference encoding of the accumulated text.
\<close>

section \<open>Store bookkeeping\<close>

lemma store_simps [simp]:
  "ss_sessions (stat f s) = ss_sessions s" "ss_keys (stat f s) = ss_keys s" "ss_cfg (stat f s) = ss_cfg s"
  "ss_nodes (stat f s) = ss_nodes s" "ss_next_handle (stat f s) = ss_next_handle s" "ss_clock (stat f s) = ss_clock s"
  "ss_sessions (tick s) = ss_sessions s" "ss_keys (tick s) = ss_keys s" "ss_cfg (tick s) = ss_cfg s"
  "ss_nodes (tick s) = ss_nodes s" "ss_next_handle (tick s) = ss_next_handle s" "ss_clock (tick s) = Suc (ss_clock s)"
  "ss_keys (put_session s h x) = ss_keys s" "ss_cfg (put_session s h x) = ss_cfg s"
  "ss_sessions (put_session s h x) = tbl_put (ss_sessions s) h x"
  "ss_nodes (put_session s h x) = ss_nodes s" "ss_next_handle (put_session s h x) = ss_next_handle s"
  "ss_clock (put_session s h x) = ss_clock s"
  "ss_sessions (return_work s w) = ss_sessions s" "ss_keys (return_work s w) = ss_keys s"
  "ss_cfg (return_work s w) = ss_cfg s" "ss_next_handle (return_work s w) = ss_next_handle s"
  "ss_clock (return_work s w) = ss_clock s" "ss_nodes (return_work s w) = wk_nodes w"
  "ss_sessions (count_materialization s) = ss_sessions s" "ss_keys (count_materialization s) = ss_keys s"
  "ss_cfg (count_materialization s) = ss_cfg s" "ss_next_handle (count_materialization s) = ss_next_handle s"
  "ss_clock (count_materialization s) = ss_clock s" "ss_nodes (count_materialization s) = ss_nodes s"
  by (simp_all add: stat_def tick_def put_session_def return_work_def count_materialization_def)

lemma work_of_sess [simp]: "wk_sess (work_of s x) = x"
  by (simp add: work_of_def)

lemma session_of_Ok [simp]: "session_of s h = Ok x \<longleftrightarrow> tbl_get (ss_sessions s) h = Some x"
  by (simp add: session_of_def)

section \<open>Sessions through the steps of an append\<close>

lemma sess_wf_upd:
  assumes "sess_wf x"
  shows "sess_wf (x\<lparr>s_last_used := n\<rparr>)" "sess_wf (x\<lparr>s_recovery := r\<rparr>)" "sess_wf (x\<lparr>s_content := c\<rparr>)"
    "sess_wf (bump_generation x)"
    "sess_wf (x\<lparr>s_revision := a, s_prev_hash := b, s_last_replace := d\<rparr>)" "sess_wf (x\<lparr>s_record_hash := e\<rparr>)"
  using assms by (simp_all add: sess_wf_def snapshot_ok_def materialize_eq bump_generation_def)

definition digests_only :: "session \<Rightarrow> session \<Rightarrow> bool" where
  "digests_only x x' \<longleftrightarrow> x' = x\<lparr>s_recovery := s_recovery x', s_content := s_content x'\<rparr>"

lemma digests_only_simps [simp]:
  "digests_only x x" "digests_only x (y\<lparr>s_recovery := r\<rparr>) = digests_only x y"
  "digests_only x (y\<lparr>s_content := c\<rparr>) = digests_only x y"
  by (cases x; cases y; auto simp: digests_only_def)+

lemma append_digests_keeps: "digests_only x (fst (append_digests blake delta x))"
  unfolding append_digests_def
  by (rule andthen_state [where P = "digests_only x"])
      (auto split: option.splits prod.splits intro!: attempt_state [where P = "digests_only x"] simp: attempt_eq_Ok)

lemma digests_only_sel:
  assumes "digests_only x x'"
  shows "s_revision x' = s_revision x" "s_record_hash x' = s_record_hash x" "s_sealed x' = s_sealed x"
    "s_tail x' = s_tail x" "s_key_id x' = s_key_id x" "s_witness x' = s_witness x" "s_payload x' = s_payload x"
    "s_safe_byte x' = s_safe_byte x" "s_generation x' = s_generation x" "s_snapshot x' = s_snapshot x"
    "s_last_used x' = s_last_used x" "s_prev_hash x' = s_prev_hash x" "s_last_replace x' = s_last_replace x"
  using assms by (cases x; cases x'; simp add: digests_only_def)+

lemma digests_only_wf: "digests_only x x' \<Longrightarrow> sess_wf x \<Longrightarrow> sess_wf x'"
  by (simp add: sess_wf_def snapshot_ok_def materialize_eq digests_only_sel)

lemma fst_attempt: "(\<And>x. fst (f x) = s) \<Longrightarrow> fst (attempt s r f) = s"
  by (cases r) auto

lemma commit_append_state:
  "\<exists>rh. fst (commit_append sha key path n x)
     = x\<lparr>s_revision := add64 (s_revision x) 1, s_prev_hash := s_record_hash x, s_last_replace := n, s_record_hash := rh\<rparr>"
proof -
  let ?x1 = "x\<lparr>s_revision := add64 (s_revision x) 1, s_prev_hash := s_record_hash x, s_last_replace := n\<rparr>"
  let ?x2 = "?x1\<lparr>s_record_hash := commit_hash sha ?x1 (k_fingerprint key)\<rparr>"
  have "fst (commit_append sha key path n x) = ?x2"
    unfolding commit_append_def Let_def
    by (intro fst_attempt) (simp add: fst_attempt)
  then show ?thesis by blast
qed

lemma commit_hash_record_hash [simp]: "commit_hash sha (x\<lparr>s_record_hash := h\<rparr>) fp = commit_hash sha x fp"
  by (simp add: commit_hash_def sess_token_count_def recorded_replace_def)

lemma replacement_ok:
  assumes "sess_wf x" "replacement_of x n = Ok r"
  shows "r = drop n (materialize_all_ids x)"
proof -
  have len: "sl_len (s_sealed x) = length (sealed_stream (s_sealed x))"
    using assms(1) by (simp add: sess_wf_def sealed_wf_def)
  show ?thesis
    using assms(2)
    by (auto simp: replacement_of_def Let_def len extend_suffix_into_ok materialize_eq vec_slice_def split: if_splits)
qed

lemma commit_append_Ok:
  assumes run: "commit_append sha key path n x = (x', Ok out)" and wf: "sess_wf x"
  shows "pa_path out = path" "pa_revision out = add64 (s_revision x) 1" "pa_replace_from out = n"
    "pa_replacement out = drop n (materialize_all_ids x)" "pa_token_count out = length (materialize_all_ids x)"
    "n \<le> length (materialize_all_ids x)"
    "s_record_hash x' = commit_hash sha x' (k_fingerprint key)"
proof -
  let ?x1 = "x\<lparr>s_revision := add64 (s_revision x) 1, s_prev_hash := s_record_hash x, s_last_replace := n\<rparr>"
  let ?x2 = "?x1\<lparr>s_record_hash := commit_hash sha ?x1 (k_fingerprint key)\<rparr>"
  have wf2: "sess_wf ?x2" using sess_wf_upd(6) [OF sess_wf_upd(5) [OF wf]] .
  have same: "materialize_all_ids ?x2 = materialize_all_ids x" by (simp add: materialize_eq)
  have count: "sl_len (s_sealed ?x2) + n_tokens (s_tail ?x2) = length (materialize_all_ids x)"
    using token_count_ok [OF wf] by (simp add: sess_token_count_def)
  from run obtain rep where x': "x' = ?x2" and le: "n \<le> sl_len (s_sealed ?x2) + n_tokens (s_tail ?x2)"
    and rep: "replacement_of ?x2 n = Ok rep"
    and out: "out = \<lparr>pa_path = path, pa_revision = s_revision ?x2, pa_replace_from = n,
      pa_replacement = rep, pa_token_count = sl_len (s_sealed ?x2) + n_tokens (s_tail ?x2)\<rparr>"
    by (auto simp: commit_append_def Let_def attempt_eq_Ok split: if_splits)
  show "pa_path out = path" "pa_revision out = add64 (s_revision x) 1" "pa_replace_from out = n"
    by (simp_all add: out)
  show "pa_replacement out = drop n (materialize_all_ids x)"
    using replacement_ok [OF wf2 rep] same by (simp add: out)
  show "pa_token_count out = length (materialize_all_ids x)" using count by (simp add: out)
  show "n \<le> length (materialize_all_ids x)" using le count by simp
  show "s_record_hash x' = commit_hash sha x' (k_fingerprint key)" by (simp add: x')
qed

section \<open>The body of an append\<close>

text \<open>The session an append works on, before and after its tail grew.\<close>

definition opened :: "session \<Rightarrow> str \<Rightarrow> session" where
  "opened x delta = (if delta \<noteq> [] then bump_generation x else x)"

lemma opened_simps [simp]:
  "s_tail (opened x d) = s_tail x" "s_sealed (opened x d) = s_sealed x" "s_payload (opened x d) = s_payload x"
  "s_revision (opened x d) = s_revision x" "s_record_hash (opened x d) = s_record_hash x"
  "s_key_id (opened x d) = s_key_id x" "s_witness (opened x d) = s_witness x"
  "d \<noteq> [] \<Longrightarrow> s_snapshot (opened x d) = None"
  by (simp_all add: opened_def bump_generation_def)

definition settle_step :: "(u8 list \<Rightarrow> hash32) \<Rightarrow> config \<Rightarrow> key_ctx \<Rightarrow> encoder \<Rightarrow> str \<Rightarrow> work \<Rightarrow> work \<times> unit res" where
  "settle_step sha cfg key engine delta w =
     (if delta \<noteq> [] then post_text_ops sha cfg key engine w else (w, Ok ()))"

text \<open>An append that returns went through every step.\<close>

lemma append_body_Ok:
  assumes "append_body sha blake s h key x delta engine = (s', Ok out)"
  obtains t path kept w x3 x4 s2 where
    "grow_tail (ss_cfg s) engine (s_tail x) delta = (t, Ok (path, kept))"
    "verify_append_shape t (text_bytes (s_tail x)) delta (ids_of (s_tail x)) kept = Ok ()"
    "wk_sess s2 = (opened x delta)\<lparr>s_tail := t\<rparr>"
    "settle_step sha (ss_cfg s) key engine delta s2 = (w, Ok ())"
    "append_digests blake delta (wk_sess w) = (x3, Ok ())"
    "commit_append sha key path (sl_len (s_sealed x) + kept) x3 = (x4, Ok out)"
    "tbl_get (ss_sessions s') h = Some x4"
proof -
  obtain t grown where g: "grow_tail (ss_cfg s) engine (s_tail x) delta = (t, grown)"
    by (cases "grow_tail (ss_cfg s) engine (s_tail x) delta")
  let ?x2 = "(opened x delta)\<lparr>s_tail := t\<rparr>"
  let ?w2 = "work_of (put_session s h ?x2) ?x2"
  obtain w r where w: "settle_step sha (ss_cfg s) key engine delta ?w2 = (w, r)"
    by (cases "settle_step sha (ss_cfg s) key engine delta ?w2")
  obtain x3 dr where d: "append_digests blake delta (wk_sess w) = (x3, dr)"
    by (cases "append_digests blake delta (wk_sess w)")
  note run = assms [unfolded append_body_def Let_def opened_def [symmetric] settle_step_def [symmetric]
      opened_simps(1) g prod.case w d attempt_eq_Ok with_session_def]
  from run obtain path kept where pk: "grown = Ok (path, kept)" by (auto split: prod.splits)
  obtain x4 cr where c: "commit_append sha key path (sl_len (s_sealed x) + kept) x3 = (x4, cr)"
    by (cases "commit_append sha key path (sl_len (s_sealed x) + kept) x3")
  from run have oks: "verify_append_shape t (text_bytes (s_tail x)) delta (ids_of (s_tail x)) kept = Ok ()"
    "r = Ok ()" "dr = Ok ()" "cr = Ok out" "tbl_get (ss_sessions s') h = Some x4"
    by (auto simp: pk c attempt_eq_Ok)
  show thesis
    by (rule that [of t path kept ?w2 w x3 x4]) (use g pk oks w d c in simp_all)
qed

text \<open>What an append leaves alone, whatever its outcome.\<close>

definition frame :: "store \<Rightarrow> nat \<Rightarrow> store \<Rightarrow> bool" where
  "frame s h s' \<longleftrightarrow>
     ss_keys s' = ss_keys s \<and> ss_cfg s' = ss_cfg s \<and> ss_next_handle s' = ss_next_handle s
     \<and> tbl_ok (ss_sessions s') = tbl_ok (ss_sessions s)
     \<and> (\<forall>k. k \<noteq> h \<longrightarrow> tbl_get (ss_sessions s') k = tbl_get (ss_sessions s) k)"

lemma frame_simps [simp]:
  "frame s h s" "frame s h (put_session s1 h y) = frame s h s1" "frame s h (stat f s1) = frame s h s1"
  "frame s h (return_work s1 w) = frame s h s1" "frame s h (tick s1) = frame s h s1"
  "frame s h (count_materialization s1) = frame s h s1"
  by (auto simp: frame_def)

text \<open>The store left behind has at \<open>h\<close> a session that satisfies \<open>J\<close>, and is framed.\<close>

definition held :: "(session \<Rightarrow> bool) \<Rightarrow> store \<Rightarrow> nat \<Rightarrow> store \<Rightarrow> bool" where
  "held J s h s' \<longleftrightarrow> (\<exists>y. tbl_get (ss_sessions s') h = Some y \<and> J y) \<and> frame s h s'"

text \<open>The same for a property of the session together with the node cache.\<close>

definition kept_at :: "(session \<Rightarrow> (hash32, node_entry) table \<Rightarrow> bool) \<Rightarrow> store \<Rightarrow> nat \<Rightarrow> store \<Rightarrow> bool" where
  "kept_at K s h s' \<longleftrightarrow> (\<exists>y. tbl_get (ss_sessions s') h = Some y \<and> K y (ss_nodes s')) \<and> frame s h s'"

lemma held_kept: "held J s h s' = kept_at (\<lambda>y _. J y) s h s'"
  by (simp add: held_def kept_at_def)

lemma nodes_sel [simp]:
  "ss_nodes (put_session s h x) = ss_nodes s" "ss_nodes (stat f s) = ss_nodes s" "ss_nodes (tick s) = ss_nodes s"
  "ss_nodes (return_work s w) = wk_nodes w" "ss_nodes (count_materialization s) = ss_nodes s"
  "wk_nodes (work_of s x) = ss_nodes s"
  by (simp_all add: put_session_def stat_def tick_def return_work_def count_materialization_def work_of_def)

lemma kept_put: "frame s h s1 \<Longrightarrow> K y (ss_nodes s1) \<Longrightarrow> kept_at K s h (put_session s1 h y)"
  by (simp add: kept_at_def)

text \<open>The session left at the handle, and the node cache, satisfy what every stage keeps.\<close>

lemma append_body_kept:
  assumes grow: "\<And>t r. grow_tail (ss_cfg s) engine (s_tail x) delta = (t, r) \<Longrightarrow>
      K ((opened x delta)\<lparr>s_tail := t\<rparr>) (ss_nodes s)"
    and post: "\<And>w. K (wk_sess w) (wk_nodes w) \<Longrightarrow>
      K (wk_sess (fst (settle_step sha (ss_cfg s) key engine delta w)))
        (wk_nodes (fst (settle_step sha (ss_cfg s) key engine delta w)))"
    and digests: "\<And>y n. K y n \<Longrightarrow> K (fst (append_digests blake delta y)) n"
    and commit: "\<And>y n path i. K y n \<Longrightarrow> K (fst (commit_append sha key path i y)) n"
  shows "kept_at K s h (fst (append_body sha blake s h key x delta engine))"
proof -
  obtain t grown where g: "grow_tail (ss_cfg s) engine (s_tail x) delta = (t, grown)"
    by (cases "grow_tail (ss_cfg s) engine (s_tail x) delta")
  let ?x2 = "(opened x delta)\<lparr>s_tail := t\<rparr>"
  let ?s2 = "put_session s h ?x2"
  have K2: "K ?x2 (ss_nodes s)" using grow g by blast
  obtain w r where w: "settle_step sha (ss_cfg s) key engine delta (work_of ?s2 ?x2) = (w, r)"
    by (cases "settle_step sha (ss_cfg s) key engine delta (work_of ?s2 ?x2)")
  have Kw: "K (wk_sess w) (wk_nodes w)" using post [of "work_of ?s2 ?x2"] K2 w by simp
  obtain x3 dr where d: "append_digests blake delta (wk_sess w) = (x3, dr)"
    by (cases "append_digests blake delta (wk_sess w)")
  have K3: "K x3 (wk_nodes w)" using digests [OF Kw] d by simp
  show ?thesis
    unfolding append_body_def Let_def opened_def [symmetric] settle_step_def [symmetric] opened_simps(1) g
      prod.case w d with_session_def
    apply (rule attempt_state [where P = "kept_at K s h"])
     apply (simp add: kept_put K2)
    apply (simp only: case_prod_beta)
    apply (rule attempt_state [where P = "kept_at K s h"])
     apply (simp add: kept_put K2)
    apply (rule attempt_state [where P = "kept_at K s h"])
     apply (simp add: kept_put Kw)
    apply (rule attempt_state [where P = "kept_at K s h"])
     apply (simp add: kept_put K3)
    apply (simp add: kept_put commit K3)
    done
qed

lemma append_body_state:
  assumes "\<And>t r. grow_tail (ss_cfg s) engine (s_tail x) delta = (t, r) \<Longrightarrow> J ((opened x delta)\<lparr>s_tail := t\<rparr>)"
    and "\<And>w. J (wk_sess w) \<Longrightarrow> J (wk_sess (fst (settle_step sha (ss_cfg s) key engine delta w)))"
    and "\<And>y. J y \<Longrightarrow> J (fst (append_digests blake delta y))"
    and "\<And>y path n. J y \<Longrightarrow> J (fst (commit_append sha key path n y))"
  shows "held J s h (fst (append_body sha blake s h key x delta engine))"
  unfolding held_kept by (rule append_body_kept) (use assms in blast)+

end
