(* ===== verification/StoreProps.thy ===== *)
theory StoreProps
  imports AppendProps
begin

text \<open>
  Store-level facts: capacity eviction removes the least recently used sessions and no other,
  insertion uses a new handle, and the frozen invariant of the append patch.
\<close>

section \<open>Eviction\<close>

lemma lru_None: "lru t = None \<longleftrightarrow> t = []"
  by (cases t rule: lru.cases) (auto split: option.splits)

lemma lru_min:
  "lru t = Some (u, h) \<Longrightarrow> (k, x) \<in> set t \<Longrightarrow> u < s_last_used x \<or> (u = s_last_used x \<and> h \<le> k)"
proof (induction t arbitrary: u h rule: lru.induct)
  case 1
  then show ?case by simp
next
  case (2 h0 x0 rest)
  show ?case
  proof (cases "lru rest")
    case None
    then show ?thesis using 2 by (auto simp: lru_None)
  next
    case (Some p)
    then obtain u1 h1 where p: "lru rest = Some (u1, h1)" by (cases p) auto
    show ?thesis using "2.IH" [OF p] "2.prems" p by (auto split: if_splits)
  qed
qed

lemma length_keys: "length (tbl_keys t) = length t"
  by (simp add: tbl_keys_def)

lemma lru_get: "tbl_ok t \<Longrightarrow> lru t = Some (u, h) \<Longrightarrow> \<exists>x. tbl_get t h = Some x \<and> s_last_used x = u"
  using lru_in [of t u h] by (auto simp: tbl_get_def tbl_ok_def)

lemma get_in: "tbl_get t k = Some x \<Longrightarrow> (k, x) \<in> set t"
  by (simp add: tbl_get_def map_of_SomeD)

text \<open>What eviction keeps, and that the removed sessions were used before the kept ones.\<close>

definition lru_subset :: "(nat, session) table \<Rightarrow> (nat, session) table \<Rightarrow> bool" where
  "lru_subset t t' \<longleftrightarrow>
     tbl_ok t' \<and> (\<forall>k x. tbl_get t' k = Some x \<longrightarrow> tbl_get t k = Some x)
     \<and> (\<forall>k x l y. tbl_get t' k = Some x \<longrightarrow> tbl_get t l = Some y \<longrightarrow> tbl_get t' l = None \<longrightarrow>
          s_last_used y < s_last_used x \<or> (s_last_used y = s_last_used x \<and> l \<le> k))"

definition count_evicted :: "nat \<Rightarrow> store \<Rightarrow> store" where
  "count_evicted n = stat (\<lambda>st. st\<lparr>st_sessions_evicted := st_sessions_evicted st + n\<rparr>)"

definition evicted_from :: "store \<Rightarrow> store \<Rightarrow> bool" where
  "evicted_from s s' \<longleftrightarrow>
     (\<exists>t' n. s' = count_evicted n (s\<lparr>ss_sessions := t'\<rparr>) \<and> lru_subset (ss_sessions s) t'
        \<and> length t' + n = length (ss_sessions s))"

lemma lru_subset_refl: "tbl_ok t \<Longrightarrow> lru_subset t t"
  by (simp add: lru_subset_def)

lemma lru_subset_step:
  assumes ok: "tbl_ok t" and l: "lru t = Some (u, h)" and sub: "lru_subset (tbl_del t h) t'"
  shows "lru_subset t t'"
proof -
  obtain xh where xh: "tbl_get t h = Some xh" "s_last_used xh = u" using lru_get [OF ok l] by blast
  have keep: "k \<noteq> h \<and> tbl_get t k = Some x" if "tbl_get t' k = Some x" for k x
  proof -
    have "tbl_get (tbl_del t h) k = Some x" using sub that by (simp add: lru_subset_def)
    then show ?thesis by (auto split: if_splits)
  qed
  have older: "s_last_used y < s_last_used x \<or> (s_last_used y = s_last_used x \<and> l' \<le> k)"
    if "tbl_get t' k = Some x" "tbl_get t l' = Some y" "tbl_get t' l' = None" for k x l' y
  proof (cases "l' = h")
    case True
    then show ?thesis using lru_min [OF l get_in] keep [OF that(1)] that(2) xh by auto
  next
    case False
    then have "tbl_get (tbl_del t h) l' = Some y" using that(2) by simp
    then show ?thesis using sub that unfolding lru_subset_def by blast
  qed
  show ?thesis using sub keep older unfolding lru_subset_def by blast
qed

lemma evict_step:
  assumes ok: "tbl_ok (ss_sessions s)" and l: "lru (ss_sessions s) = Some (u, h)"
    and ev: "evicted_from (count_evicted 1 (s\<lparr>ss_sessions := tbl_del (ss_sessions s) h\<rparr>)) s'"
  shows "evicted_from s s'"
proof -
  have len: "Suc (length (tbl_del (ss_sessions s) h)) = length (ss_sessions s)"
    using tbl.size_del [OF ok] lru_get [OF ok l] by (auto simp: length_keys)
  from ev obtain t' n where s': "s' = count_evicted n ((count_evicted 1 (s\<lparr>ss_sessions := tbl_del (ss_sessions s) h\<rparr>))\<lparr>ss_sessions := t'\<rparr>)"
    and sub: "lru_subset (tbl_del (ss_sessions s) h) t'" and n: "length t' + n = length (tbl_del (ss_sessions s) h)"
    by (auto simp: evicted_from_def count_evicted_def)
  have "s' = count_evicted (Suc n) (s\<lparr>ss_sessions := t'\<rparr>)"
    by (simp add: s' count_evicted_def stat_def)
  moreover have "length t' + Suc n = length (ss_sessions s)" using n len by simp
  ultimately show ?thesis using lru_subset_step [OF ok l sub] unfolding evicted_from_def by blast
qed

lemma evict_for_capacity_ok:
  assumes "tbl_ok (ss_sessions s)" "0 < c_max_sessions (ss_cfg s)"
  shows "evicted_from s (evict_for_capacity s)"
    and "length (ss_sessions (evict_for_capacity s)) < c_max_sessions (ss_cfg s)"
proof -
  have "evicted_from s (evict_for_capacity s) \<and> length (ss_sessions (evict_for_capacity s)) < c_max_sessions (ss_cfg s)"
    using assms
  proof (induction s rule: evict_for_capacity.induct)
    case (1 s)
    show ?case
    proof (cases "length (ss_sessions s) \<ge> c_max_sessions (ss_cfg s)")
      case False
      have "s = count_evicted 0 (s\<lparr>ss_sessions := ss_sessions s\<rparr>)"
        by (simp add: count_evicted_def stat_def)
      then have "evicted_from s s" using lru_subset_refl [OF "1.prems"(1)] unfolding evicted_from_def
        by (intro exI [of _ "ss_sessions s"] exI [of _ 0]) simp
      then show ?thesis using False by (simp add: evict_for_capacity.simps [of s])
    next
      case True
      then have "ss_sessions s \<noteq> []" using "1.prems" by auto
      then obtain u h where l: "lru (ss_sessions s) = Some (u, h)" by (cases "lru (ss_sessions s)") (auto simp: lru_None)
      let ?s1 = "count_evicted 1 (s\<lparr>ss_sessions := tbl_del (ss_sessions s) h\<rparr>)"
      have run: "evict_for_capacity s = evict_for_capacity ?s1"
        using True l by (simp add: evict_for_capacity.simps [of s] count_evicted_def)
      have "evicted_from ?s1 (evict_for_capacity ?s1)
          \<and> length (ss_sessions (evict_for_capacity ?s1)) < c_max_sessions (ss_cfg ?s1)"
        unfolding count_evicted_def by (rule "1.IH" [OF True l refl]) (use "1.prems" tbl.del_ok in auto)
      then show ?thesis using evict_step [OF "1.prems"(1) l] run by (simp add: count_evicted_def)
    qed
  qed
  then show "evicted_from s (evict_for_capacity s)"
    "length (ss_sessions (evict_for_capacity s)) < c_max_sessions (ss_cfg s)" by simp_all
qed

lemma evicted_sel:
  assumes "evicted_from s s'"
  shows "ss_keys s' = ss_keys s" "ss_cfg s' = ss_cfg s" "ss_next_handle s' = ss_next_handle s"
    "ss_clock s' = ss_clock s" "ss_nodes s' = ss_nodes s" "ss_recovery_tracking s' = ss_recovery_tracking s"
    "ss_content_tracking s' = ss_content_tracking s" "tbl_ok (ss_sessions s')"
    "tbl_get (ss_sessions s') k = Some x \<Longrightarrow> tbl_get (ss_sessions s) k = Some x"
  using assms by (auto simp: evicted_from_def count_evicted_def stat_def lru_subset_def)

section \<open>An append that returns\<close>

lemma append_patch_body:
  assumes "append_patch sha blake s h delta expected engine = (s', Ok out)"
  obtains x key s1 where "tbl_get (ss_sessions s) h = Some x" "key_of s (s_key_id x) = Ok key"
    "s_witness x = eng_witness engine" "s_revision x = expected" "ss_cfg s1 = ss_cfg s"
    "append_body sha blake s1 h key (x\<lparr>s_last_used := Suc (ss_clock s)\<rparr>) delta engine = (s', Ok out)"
proof -
  let ?s1 = "stat (\<lambda>st. st\<lparr>st_extends := st_extends st + 1\<rparr>) (tick s)"
  from assms obtain x key where "tbl_get (ss_sessions s) h = Some x" "key_of s (s_key_id x) = Ok key"
    "s_witness x = eng_witness engine" "s_revision x = expected"
    "append_body sha blake (put_session ?s1 h (x\<lparr>s_last_used := ss_clock ?s1\<rparr>)) h key
       (x\<lparr>s_last_used := ss_clock ?s1\<rparr>) delta engine = (s', Ok out)"
    by (auto simp: append_patch_def Let_def attempt_eq_Ok split: if_splits)
  then show thesis by (intro that [of x key]) simp_all
qed

lemma verify_append_shape_Ok:
  assumes "verify_append_shape t n delta old kept = Ok u" "delta \<noteq> []"
  shows "text_bytes t = n + length delta" "ends_with (tl_text t) delta" "kept \<le> length old" "kept \<le> n_tokens t"
    "take kept (ids_of t) = take kept old"
  using assms by (auto simp: verify_append_shape_def rbind_eq_Ok split: if_splits)

text \<open>The session an append that returned leaves, against the one it found.\<close>

definition patched :: "(u8 list \<Rightarrow> hash32) \<Rightarrow> key_ctx \<Rightarrow> session \<Rightarrow> session \<Rightarrow> patch_outcome \<Rightarrow> bool" where
  "patched sha key x x' out \<longleftrightarrow>
     sess_wf x'
     \<and> materialize_all_ids x' = take (pa_replace_from out) (materialize_all_ids x) @ pa_replacement out
     \<and> pa_replace_from out \<le> length (materialize_all_ids x)
     \<and> pa_token_count out = length (materialize_all_ids x')
     \<and> pa_revision out = add64 (s_revision x) 1 \<and> s_revision x' = pa_revision out
     \<and> s_prev_hash x' = s_record_hash x \<and> s_last_replace x' = pa_replace_from out
     \<and> s_record_hash x' = commit_hash sha x' (k_fingerprint key)
     \<and> s_key_id x' = s_key_id x \<and> s_witness x' = s_witness x"

context tail_engine
begin

lemma append_body_patched:
  assumes run: "append_body sha blake s h key x delta engine = (s', Ok out)"
    and wf: "sess_wf x" and d: "valid_utf8 delta"
  shows "\<exists>x'. tbl_get (ss_sessions s') h = Some x' \<and> patched sha key x x' out"
proof -
  from run obtain t path kept w x3 x4 s2 where
    g: "grow_tail (ss_cfg s) engine (s_tail x) delta = (t, Ok (path, kept))" and
    v: "verify_append_shape t (text_bytes (s_tail x)) delta (ids_of (s_tail x)) kept = Ok ()" and
    s2: "wk_sess s2 = (opened x delta)\<lparr>s_tail := t\<rparr>" and
    w: "settle_step sha (ss_cfg s) key engine delta s2 = (w, Ok ())" and
    dg: "append_digests blake delta (wk_sess w) = (x3, Ok ())" and
    cm: "commit_append sha key path (sl_len (s_sealed x) + kept) x3 = (x4, Ok out)" and
    get: "tbl_get (ss_sessions s') h = Some x4"
    by (rule append_body_Ok)
  have sl: "sl_len (s_sealed x) = length (sealed_stream (s_sealed x))"
    using wf by (simp add: sess_wf_def sealed_wf_def)
  have t: "tail_ok t" using grow_tail_ok [OF sess_tail_ok [OF wf] d, of "ss_cfg s"] g by simp
  have x2: "sess_wf (wk_sess s2)"
  proof (cases "delta = []")
    case True
    then have "wk_sess s2 = x" using g s2 by (simp add: grow_tail_noop opened_def)
    then show ?thesis using wf by simp
  next
    case False
    then show ?thesis using wf t s2 by (simp add: sess_wf_def snapshot_ok_def tail_ok_def)
  qed
  have mid: "sess_wf (wk_sess w) \<and> materialize_all_ids (wk_sess w) = materialize_all_ids (wk_sess s2)
      \<and> same_core (wk_sess s2) (wk_sess w)"
  proof (cases "delta = []")
    case True
    then show ?thesis using w x2 by (simp add: settle_step_def)
  next
    case False
    then have "settled engine (k_guard key) (wk_sess s2) (wk_sess w)"
      using settle [OF x2, of key sha "ss_cfg s"] w by (simp add: settle_step_def)
    then show ?thesis using settled_ids settled_def by blast
  qed
  have only: "digests_only (wk_sess w) x3" using append_digests_keeps [of "wk_sess w" blake delta] dg by simp
  note sel = digests_only_sel [OF only]
  have wf3: "sess_wf x3" using digests_only_wf [OF only] mid by blast
  have ids3: "materialize_all_ids x3 = sealed_stream (s_sealed x) @ ids_of t"
    using mid s2 sel by (simp add: materialize_eq)
  have kept: "kept \<le> n_tokens (s_tail x)" "take kept (ids_of t) = take kept (ids_of (s_tail x))"
  proof (atomize (full), cases "delta = []")
    case True
    then show "kept \<le> n_tokens (s_tail x) \<and> take kept (ids_of t) = take kept (ids_of (s_tail x))"
      using g by (auto simp: grow_tail_noop)
  next
    case False
    then show "kept \<le> n_tokens (s_tail x) \<and> take kept (ids_of t) = take kept (ids_of (s_tail x))"
      using verify_append_shape_Ok [OF v] by simp
  qed
  note c = commit_append_Ok [OF cm wf3]
  from commit_append_state [of sha key path "sl_len (s_sealed x) + kept" x3] cm obtain rh where
    x4: "x4 = x3\<lparr>s_revision := add64 (s_revision x3) 1, s_prev_hash := s_record_hash x3,
        s_last_replace := sl_len (s_sealed x) + kept, s_record_hash := rh\<rparr>" by auto
  have ids4: "materialize_all_ids x4 = materialize_all_ids x3" by (simp add: x4 materialize_eq)
  have wf4: "sess_wf x4" unfolding x4 by (intro sess_wf_upd(5,6) wf3)
  have old: "take (sl_len (s_sealed x) + kept) (materialize_all_ids x3)
      = take (sl_len (s_sealed x) + kept) (materialize_all_ids x)"
    by (simp add: ids3 materialize_eq [of x] sl kept(2))
  have "patched sha key x x4 out"
    unfolding patched_def
  proof (intro conjI)
    show "materialize_all_ids x4 = take (pa_replace_from out) (materialize_all_ids x) @ pa_replacement out"
      using c(3,4) old ids4 by (metis append_take_drop_id)
    show "pa_replace_from out \<le> length (materialize_all_ids x)"
      using c(3) kept(1) sl by (simp add: materialize_eq)
    show "s_key_id x4 = s_key_id x" "s_witness x4 = s_witness x" "s_prev_hash x4 = s_record_hash x"
      "pa_revision out = add64 (s_revision x) 1" "s_revision x4 = pa_revision out"
      using sel mid s2 c(2) by (simp_all add: x4 same_core_def)
  qed (use wf4 c ids4 x4 in simp_all)
  with get show ?thesis by blast
qed

end

section \<open>Appends under the correctness contract\<close>

context session_encoder
begin

lemma opened_represents: "represents R x T \<Longrightarrow> represents R (opened x d) T"
  using sess_wf_upd(4) [of x] by (auto simp: represents_def opened_def) (simp_all add: bump_generation_def)

lemma settle_step_represents:
  assumes "represents R (wk_sess w) T" "guard \<le> k_guard key"
  shows "represents R (wk_sess (fst (settle_step sha cfg key engine delta w))) T"
proof (cases "delta = []")
  case True
  then show ?thesis using assms(1) by (simp add: settle_step_def)
next
  case False
  have "sess_wf (wk_sess w)" using assms(1) by (simp add: represents_def)
  from settled_represents [OF assms(1) settle [OF this] assms(2)] False show ?thesis
    by (simp add: settle_step_def)
qed

lemma append_digests_represents:
  "represents R y T \<Longrightarrow> represents R (fst (append_digests blake delta y)) T"
  using append_digests_keeps [of y blake delta] digests_only_wf digests_only_sel
  by (auto simp: represents_def)

lemma commit_append_represents:
  assumes "represents R y T"
  shows "represents R (fst (commit_append sha key path n y)) T"
proof -
  from commit_append_state obtain rh where
    c: "fst (commit_append sha key path n y) = y\<lparr>s_revision := add64 (s_revision y) 1, s_prev_hash := s_record_hash y,
      s_last_replace := n, s_record_hash := rh\<rparr>" by blast
  have "sess_wf y" using assms by (simp add: represents_def)
  then have "sess_wf (y\<lparr>s_revision := add64 (s_revision y) 1, s_prev_hash := s_record_hash y,
      s_last_replace := n, s_record_hash := rh\<rparr>)" by (intro sess_wf_upd(5,6))
  with assms show ?thesis unfolding c by (simp add: represents_def)
qed

lemma settle_step_key:
  assumes "sess_wf (wk_sess w)"
  shows "s_key_id (wk_sess (fst (settle_step sha cfg key engine delta w))) = s_key_id (wk_sess w)"
  using settle [OF assms, of key sha cfg] by (simp add: settle_step_def settled_def same_core_def)

lemma commit_append_key: "s_key_id (fst (commit_append sha key path n y)) = s_key_id y"
proof -
  from commit_append_state obtain rh where
    "fst (commit_append sha key path n y) = y\<lparr>s_revision := add64 (s_revision y) 1, s_prev_hash := s_record_hash y,
      s_last_replace := n, s_record_hash := rh\<rparr>" by blast
  then show ?thesis by simp
qed

text \<open>Whatever the outcome, the session left represents the old text or the grown one.\<close>

lemma append_body_represents:
  assumes rep: "represents R x T" and d: "valid_utf8 delta" and g: "guard \<le> k_guard key"
  shows "held (\<lambda>y. s_key_id y = s_key_id x \<and> (represents R y T \<or> represents R y (T @ delta))) s h
    (fst (append_body sha blake s h key x delta engine))"
proof (rule append_body_state)
  fix t r assume gr: "grow_tail (ss_cfg s) engine (s_tail x) delta = (t, r)"
  have op: "represents R (opened x delta) T" by (rule opened_represents [OF rep])
  have tw: "tail_ok (s_tail x)" using rep sess_tail_ok by (auto simp: represents_def)
  have "represents R ((opened x delta)\<lparr>s_tail := t\<rparr>) T \<or> represents R ((opened x delta)\<lparr>s_tail := t\<rparr>) (T @ delta)"
  proof (cases "\<exists>pk. r = Ok pk")
    case True
    then show ?thesis using grow_represents [OF op d, of "ss_cfg s" t] gr by auto
  next
    case False
    then have "t = s_tail x" using grow_refused [OF tw gr] by blast
    then have "(opened x delta)\<lparr>s_tail := t\<rparr> = opened x delta" by simp
    then show ?thesis using op by simp
  qed
  then show "s_key_id ((opened x delta)\<lparr>s_tail := t\<rparr>) = s_key_id x \<and>
      (represents R ((opened x delta)\<lparr>s_tail := t\<rparr>) T \<or> represents R ((opened x delta)\<lparr>s_tail := t\<rparr>) (T @ delta))"
    by simp
next
  fix w :: work
  assume w: "s_key_id (wk_sess w) = s_key_id x \<and> (represents R (wk_sess w) T \<or> represents R (wk_sess w) (T @ delta))"
  then have "sess_wf (wk_sess w)" by (auto simp: represents_def)
  with w show "s_key_id (wk_sess (fst (settle_step sha (ss_cfg s) key engine delta w))) = s_key_id x \<and>
      (represents R (wk_sess (fst (settle_step sha (ss_cfg s) key engine delta w))) T \<or>
       represents R (wk_sess (fst (settle_step sha (ss_cfg s) key engine delta w))) (T @ delta))"
    using settle_step_represents [OF _ g] settle_step_key by auto
next
  fix y assume "s_key_id y = s_key_id x \<and> (represents R y T \<or> represents R y (T @ delta))"
  then show "s_key_id (fst (append_digests blake delta y)) = s_key_id x \<and>
      (represents R (fst (append_digests blake delta y)) T \<or> represents R (fst (append_digests blake delta y)) (T @ delta))"
    using append_digests_represents digests_only_sel(5) [OF append_digests_keeps [of y blake delta]] by auto
next
  fix y path n assume "s_key_id y = s_key_id x \<and> (represents R y T \<or> represents R y (T @ delta))"
  then show "s_key_id (fst (commit_append sha key path n y)) = s_key_id x \<and>
      (represents R (fst (commit_append sha key path n y)) T \<or>
       represents R (fst (commit_append sha key path n y)) (T @ delta))"
    using commit_append_represents commit_append_key by auto
qed

lemma append_body_Ok_represents:
  assumes rep: "represents R x T" and d: "valid_utf8 delta" and g: "guard \<le> k_guard key"
    and run: "append_body sha blake s h key x delta engine = (s', Ok out)"
  shows "\<exists>x'. tbl_get (ss_sessions s') h = Some x' \<and> represents R x' (T @ delta)"
proof -
  from run obtain t path kept w x3 x4 s2 where
    gr: "grow_tail (ss_cfg s) engine (s_tail x) delta = (t, Ok (path, kept))" and
    s2: "wk_sess s2 = (opened x delta)\<lparr>s_tail := t\<rparr>" and
    w: "settle_step sha (ss_cfg s) key engine delta s2 = (w, Ok ())" and
    dg: "append_digests blake delta (wk_sess w) = (x3, Ok ())" and
    cm: "commit_append sha key path (sl_len (s_sealed x) + kept) x3 = (x4, Ok out)" and
    get: "tbl_get (ss_sessions s') h = Some x4"
    by (rule append_body_Ok)
  have "represents R (wk_sess s2) (T @ delta)"
    unfolding s2 by (rule grow_represents [OF opened_represents [OF rep] d]) (use gr in simp_all)
  from settle_step_represents [OF this g, of sha "ss_cfg s" delta] w
  have "represents R (wk_sess w) (T @ delta)" by simp
  from append_digests_represents [OF this, of blake delta] dg have "represents R x3 (T @ delta)" by simp
  from commit_append_represents [OF this, of sha key path "sl_len (s_sealed x) + kept"] cm
  have "represents R x4 (T @ delta)" by simp
  with get show ?thesis by blast
qed

end

end
