(* ===== verification/Sessions.thy ===== *)
theory Sessions
  imports StoreProps
begin

text \<open>
  The session operations other than append: what put, fork, evict, lookup and the complete rows do
  to the session table, and that a new session represents the text it was seeded with.
\<close>

section \<open>Seeding\<close>

lemma verify_seed:
  assumes "verify_append_shape t 0 x [] kept = Ok u" "x \<noteq> []"
  shows "tl_text t = x"
proof -
  have "length (tl_text t) = length x" "ends_with (tl_text t) x"
    using verify_append_shape_Ok [OF assms] by simp_all
  then obtain p where "tl_text t = p @ x" "length (p @ x) = length x" by (auto simp: ends_with_append)
  then show ?thesis by simp
qed

lemma from_engine_Ok: "from_engine r = Ok x \<Longrightarrow> r = Ok x"
  by simp

text \<open>Every way of seeding ends with a tail the engine's appends made.\<close>

lemma run_foreground_state:
  assumes "P t0" "\<And>t. P t \<Longrightarrow> P (fst (eng_append engine t x))"
  shows "P (fst (run_foreground engine x n t0))"
  using assms by (induction n) (auto simp: case_prod_beta Let_def)

lemma seed_encode_state:
  assumes "P tail_new" "\<And>t. P t \<Longrightarrow> P (fst (eng_append engine t x))"
  shows "P (fst (seed_encode blake s engine x))"
  using assms run_foreground_state [of P tail_new engine x]
  by (auto simp: seed_encode_def Let_def case_prod_beta split: option.splits)

text \<open>Bookkeeping that leaves the sessions, the keys and the configuration alone.\<close>

definition quiet :: "store \<Rightarrow> store \<Rightarrow> bool" where
  "quiet s s' \<longleftrightarrow>
     ss_sessions s' = ss_sessions s \<and> ss_keys s' = ss_keys s \<and> ss_cfg s' = ss_cfg s
     \<and> ss_next_handle s' = ss_next_handle s \<and> ss_clock s' = ss_clock s
     \<and> ss_recovery_tracking s' = ss_recovery_tracking s \<and> ss_content_tracking s' = ss_content_tracking s"

lemma quiet_simps [simp]:
  "quiet s s" "quiet s (stat f s1) = quiet s s1" "quiet s (return_work s1 w) = quiet s s1"
  "quiet s (count_materialization s1) = quiet s s1" "quiet s (s1\<lparr>ss_next_alloc := n\<rparr>) = quiet s s1"
  by (simp_all add: quiet_def stat_def return_work_def count_materialization_def)

lemma seed_session_quiet: "quiet s (fst (seed_session sha blake s key engine x sess))"
proof (cases "x = []")
  case True
  then show ?thesis by (simp add: seed_session_def)
next
  case False
  show ?thesis
    unfolding seed_session_def if_not_P [OF False]
    by (simp only: case_prod_beta Let_def) (intro attempt_state [where P = "quiet s"]; simp)
qed

lemma seed_session_Ok:
  assumes "seed_session sha blake s key engine x sess = (s', Ok (sess', d))" "x \<noteq> []"
  obtains t s1 w rp where "fst (seed_encode blake s engine x) = t" "tl_text t = x"
    "verify_append_shape t 0 x [] (rp_kept rp) = Ok ()" "snd (snd (seed_encode blake s engine x)) = Ok rp"
    "ss_cfg s1 = ss_cfg s" "post_text_ops sha (ss_cfg s1) key engine (work_of s1 (sess\<lparr>s_tail := t\<rparr>)) = (w, Ok ())"
    "sess' = wk_sess w"
proof -
  obtain t od report where e: "seed_encode blake s engine x = (t, od, report)" by (cases "seed_encode blake s engine x")
  from assms obtain rp where rp: "report = Ok rp" "verify_append_shape t 0 x [] (rp_kept rp) = Ok ()"
    and run: "(let s1 = stat (\<lambda>st. bump_path st (rp_path rp)) s;
            (w, r) = post_text_ops sha (ss_cfg s1) key engine (work_of s1 (sess\<lparr>s_tail := t\<rparr>));
            s2 = return_work s1 w in
        attempt s2 r (\<lambda>_. (s2, Ok (wk_sess w, od)))) = (s', Ok (sess', d))"
    by (auto simp: seed_session_def e attempt_eq_Ok)
  let ?s1 = "stat (\<lambda>st. bump_path st (rp_path rp)) s"
  obtain w r where w: "post_text_ops sha (ss_cfg ?s1) key engine (work_of ?s1 (sess\<lparr>s_tail := t\<rparr>)) = (w, r)"
    by (cases "post_text_ops sha (ss_cfg ?s1) key engine (work_of ?s1 (sess\<lparr>s_tail := t\<rparr>))")
  with run have "r = Ok ()" "sess' = wk_sess w" by (auto simp: Let_def attempt_eq_Ok)
  with w rp e verify_seed [OF rp(2) assms(2)] show thesis by (intro that [of t rp ?s1 w]) simp_all
qed

section \<open>Put\<close>

text \<open>
  What an operation that evicts for capacity leaves of the table, and the table after it inserted a
  session under a new handle.
\<close>

definition shrunk :: "store \<Rightarrow> store \<Rightarrow> bool" where
  "shrunk s s' \<longleftrightarrow>
     lru_subset (ss_sessions s) (ss_sessions s') \<and> length (ss_sessions s') \<le> length (ss_sessions s)
     \<and> ss_keys s' = ss_keys s \<and> ss_cfg s' = ss_cfg s \<and> ss_next_handle s' = ss_next_handle s"

definition inserted :: "store \<Rightarrow> store \<Rightarrow> nat \<Rightarrow> session \<Rightarrow> bool" where
  "inserted s s' h x \<longleftrightarrow>
     (\<exists>t. lru_subset (ss_sessions s) t \<and> length t < c_max_sessions (ss_cfg s) \<and> ss_sessions s' = tbl_put t h x)
     \<and> h = ss_next_handle s \<and> ss_next_handle s' = Suc h \<and> ss_keys s' = ss_keys s \<and> ss_cfg s' = ss_cfg s"

lemma shrunk_refl: "tbl_ok (ss_sessions s) \<Longrightarrow> shrunk s s"
  by (simp add: shrunk_def lru_subset_refl)

lemma quiet_shrunk: "quiet s1 s2 \<Longrightarrow> shrunk s s1 \<Longrightarrow> shrunk s s2"
  by (simp add: shrunk_def quiet_def)

lemma evict_shrunk:
  assumes "tbl_ok (ss_sessions s)" "0 < c_max_sessions (ss_cfg s)"
  shows "shrunk s (evict_for_capacity s)"
proof -
  from evict_for_capacity_ok(1) [OF assms] obtain t' n where e: "evict_for_capacity s = count_evicted n (s\<lparr>ss_sessions := t'\<rparr>)"
    "lru_subset (ss_sessions s) t'" "length t' + n = length (ss_sessions s)" by (auto simp: evicted_from_def)
  then show ?thesis by (simp add: shrunk_def count_evicted_def)
qed

lemma shrunk_tick [simp]:
  "shrunk (tick s) s' = shrunk s s'" "shrunk (stat f s) s' = shrunk s s'" "shrunk s (stat f s') = shrunk s s'"
  by (simp_all add: shrunk_def)

lemma insert_inserted:
  assumes "shrunk s s1" "length (ss_sessions s1) < c_max_sessions (ss_cfg s)" "quiet s1 s2"
  shows "inserted s (fst (insert_session s2 x)) (snd (insert_session s2 x)) x"
  using assms by (auto simp: inserted_def insert_session_def shrunk_def quiet_def Let_def)

lemma put_finish_cases:
  obtains "fst (put_finish sha blake s key x sess d) = s" "\<forall>out. snd (put_finish sha blake s key x sess d) \<noteq> Ok out"
  | recovery content xn where
    "xn = sess\<lparr>s_recovery := recovery, s_content := content,
        s_record_hash := commit_hash sha (sess\<lparr>s_recovery := recovery, s_content := content\<rparr>) (k_fingerprint key)\<rparr>"
    "put_finish sha blake s key x sess d = (fst (insert_session s xn),
       Ok \<lparr>po_handle = snd (insert_session s xn), po_revision = 0, po_token_count = sess_token_count xn\<rparr>)"
    "\<forall>c. content = Some c \<longrightarrow> d = Some (Ok c) \<or> seed_content_digest blake s x = Ok c"
proof -
  let ?rec = "if ss_recovery_tracking s then rbind (recovery_from_text x) (\<lambda>d. Ok (Some d)) else Ok None"
  let ?con = "if ss_content_tracking s
      then rbind (case d of Some digest \<Rightarrow> digest | None \<Rightarrow> seed_content_digest blake s x) (\<lambda>d. Ok (Some d))
      else Ok None"
  consider r c where "?rec = Ok r" "?con = Ok c" | "\<And>r c. ?rec = Ok r \<Longrightarrow> ?con \<noteq> Ok c" by blast
  then show thesis
  proof cases
    case 1
    show thesis
    proof (rule that(2) [OF refl, where recovery = r and content = c])
      show "\<forall>y. c = Some y \<longrightarrow> d = Some (Ok y) \<or> seed_content_digest blake s x = Ok y"
        using 1(2) by (auto simp: rbind_eq_Ok split: if_splits option.splits)
    qed (simp only: put_finish_def 1 attempt.simps Let_def case_prod_beta session.simps)
  next
    case 2
    have "put_finish sha blake s key x sess d = (s, rr) \<Longrightarrow> (\<And>out. rr \<noteq> Ok out) \<Longrightarrow> thesis" for rr
      by (rule that(1)) simp_all
    then show thesis
      unfolding put_finish_def using 2 by (cases ?rec; cases ?con) auto
  qed
qed

text \<open>The store a put seeds the session in.\<close>

definition put_start :: "store \<Rightarrow> store" where
  "put_start s = stat (\<lambda>st. st\<lparr>st_puts := st_puts st + 1\<rparr>) (evict_for_capacity (tick s))"

lemma put_eq:
  "key_of s k = Ok key \<Longrightarrow> put sha blake s k x engine =
     andthen (seed_session sha blake (put_start s) key engine x (fresh k (eng_witness engine) (ss_clock (put_start s))))
       (\<lambda>s2 p. put_finish sha blake s2 key x (fst p) (snd p))"
  by (simp add: put_def put_start_def Let_def case_prod_unfold)

lemma put_start_ok:
  assumes "tbl_ok (ss_sessions s)" "0 < c_max_sessions (ss_cfg s)"
  shows "shrunk s (put_start s)" "length (ss_sessions (put_start s)) < c_max_sessions (ss_cfg s)"
    "ss_clock (put_start s) = Suc (ss_clock s)" "ss_content_tracking (put_start s) = ss_content_tracking s"
    "ss_overlap (put_start s) = ss_overlap s"
proof -
  have e: "evicted_from (tick s) (evict_for_capacity (tick s))"
    using evict_for_capacity_ok(1) [of "tick s"] assms by simp
  show "shrunk s (put_start s)" using evict_shrunk [of "tick s"] assms by (simp add: put_start_def)
  show "length (ss_sessions (put_start s)) < c_max_sessions (ss_cfg s)"
    using evict_for_capacity_ok(2) [of "tick s"] assms by (simp add: put_start_def)
  show "ss_clock (put_start s) = Suc (ss_clock s)" "ss_content_tracking (put_start s) = ss_content_tracking s"
    "ss_overlap (put_start s) = ss_overlap s"
    using e by (auto simp: evicted_from_def count_evicted_def put_start_def stat_def tick_def)
qed

lemma put_error:
  assumes ok: "tbl_ok (ss_sessions s)" "0 < c_max_sessions (ss_cfg s)"
    and run: "put sha blake s k x engine = (s', r)" and no: "\<And>out. r \<noteq> Ok out"
  shows "shrunk s s'"
proof (cases "key_of s k")
  case (Ok key)
  obtain s2 sr where seed: "seed_session sha blake (put_start s) key engine x
      (fresh k (eng_witness engine) (ss_clock (put_start s))) = (s2, sr)" by (cases "seed_session sha blake (put_start s) key engine x
      (fresh k (eng_witness engine) (ss_clock (put_start s)))")
  have s2: "shrunk s s2"
    using quiet_shrunk [OF seed_session_quiet put_start_ok(1) [OF ok]] seed by (metis fst_conv)
  show ?thesis
  proof (cases sr)
    case (Ok p)
    have "(s', r) = put_finish sha blake s2 key x (fst p) (snd p)"
      using run by (simp add: put_eq [OF \<open>key_of s k = Ok key\<close>] seed Ok)
    then show ?thesis using s2 no put_finish_cases [of sha blake s2 key x "fst p" "snd p"] by (metis fst_conv snd_conv)
  qed (use run s2 in \<open>simp_all add: put_eq [OF Ok] seed\<close>)
qed (use ok shrunk_refl run in \<open>simp_all add: put_def\<close>)

lemma put_Ok:
  assumes ok: "tbl_ok (ss_sessions s)" "0 < c_max_sessions (ss_cfg s)"
    and run: "put sha blake s k x engine = (s', Ok out)"
  obtains key s2 sess d recovery content xn where "key_of s k = Ok key" "inserted s s' (po_handle out) xn"
    "seed_session sha blake (put_start s) key engine x (fresh k (eng_witness engine) (Suc (ss_clock s))) = (s2, Ok (sess, d))"
    "xn = sess\<lparr>s_recovery := recovery, s_content := content,
        s_record_hash := commit_hash sha (sess\<lparr>s_recovery := recovery, s_content := content\<rparr>) (k_fingerprint key)\<rparr>"
    "po_revision out = 0" "po_token_count out = sess_token_count xn"
proof -
  from run obtain key where key: "key_of s k = Ok key" by (auto simp: put_def attempt_eq_Ok)
  from run obtain s2 p where
    seed: "seed_session sha blake (put_start s) key engine x (fresh k (eng_witness engine) (ss_clock (put_start s))) = (s2, Ok p)"
    and fin: "put_finish sha blake s2 key x (fst p) (snd p) = (s', Ok out)"
    by (auto simp: put_eq [OF key] andthen_eq_Ok)
  note st = put_start_ok [OF ok]
  have q: "quiet (put_start s) s2" using seed_session_quiet seed by (metis fst_conv)
  show thesis
  proof (rule put_finish_cases [of sha blake s2 key x "fst p" "snd p"], goal_cases)
    case 1
    then show thesis using fin by simp
  next
    case (2 recovery content xn)
    then have out: "s' = fst (insert_session s2 xn)" "out = \<lparr>po_handle = snd (insert_session s2 xn), po_revision = 0,
        po_token_count = sess_token_count xn\<rparr>" using fin by simp_all
    show thesis
    proof (rule that [OF key _ _ 2(1)])
      show "inserted s s' (po_handle out) xn"
        using insert_inserted [OF st(1,2) q, of xn] by (simp add: out)
      show "seed_session sha blake (put_start s) key engine x (fresh k (eng_witness engine) (Suc (ss_clock s)))
          = (s2, Ok (fst p, snd p))" using seed st(3) by simp
    qed (simp_all add: out)
  qed
qed

section \<open>The seeded session\<close>

lemma fresh_sel [simp]:
  "s_sealed (fresh k w c) = sealed_default" "s_tail (fresh k w c) = tail_new" "s_key_id (fresh k w c) = k"
  "s_revision (fresh k w c) = 0" "s_witness (fresh k w c) = w" "s_snapshot (fresh k w c) = None"
  by (simp_all add: fresh_def)

lemma settled_key: "settled engine g s s' \<Longrightarrow> s_key_id s' = s_key_id s \<and> s_witness s' = s_witness s \<and> s_revision s' = s_revision s"
  by (simp add: settled_def same_core_def)

context tail_engine
begin

lemma seed_encode_ok: "valid_utf8 x \<Longrightarrow> tail_ok (fst (seed_encode blake s engine x))"
  by (rule seed_encode_state [where P = tail_ok]) (simp_all add: append_ok, simp add: tail_ok_def)

lemma seed_session_settled:
  assumes run: "seed_session sha blake s key engine x (fresh k w c) = (s', Ok (sess, d))"
    and ne: "x \<noteq> []" and v: "valid_utf8 x"
  obtains t where "t = fst (seed_encode blake s engine x)" "tl_text t = x" "sess_wf ((fresh k w c)\<lparr>s_tail := t\<rparr>)"
    "settled engine (k_guard key) ((fresh k w c)\<lparr>s_tail := t\<rparr>) sess"
proof -
  from seed_session_Ok [OF run ne] obtain t s1 wk rp where
    t: "fst (seed_encode blake s engine x) = t" "tl_text t = x" and
    w: "post_text_ops sha (ss_cfg s1) key engine (work_of s1 ((fresh k w c)\<lparr>s_tail := t\<rparr>)) = (wk, Ok ())" "sess = wk_sess wk"
    by metis
  have "tail_ok t" using seed_encode_ok [OF v, of blake s] t(1) by simp
  moreover have "sess_wf (fresh k w c)" by simp
  ultimately have wf: "sess_wf ((fresh k w c)\<lparr>s_tail := t\<rparr>)"
    by (simp add: sess_wf_def snapshot_ok_def tail_ok_def)
  have "settled engine (k_guard key) ((fresh k w c)\<lparr>s_tail := t\<rparr>) sess"
    using settle [of "work_of s1 ((fresh k w c)\<lparr>s_tail := t\<rparr>)" key sha "ss_cfg s1"] wf w by simp
  then show thesis using that [of t] t wf by simp
qed

end

context session_encoder
begin

lemma new_faithful: "faithful R tail_new"
  by (simp add: faithful_def ref_empty spans_of_def) (simp add: tail_new_def)

lemma append_faithful:
  assumes "tail_ok t \<and> faithful R t" "valid_utf8 d"
  shows "tail_ok (fst (eng_append engine t d)) \<and> faithful R (fst (eng_append engine t d))"
proof -
  obtain t' r where e: "eng_append engine t d = (t', r)" by (cases "eng_append engine t d")
  have "faithful R t'"
  proof (cases "\<exists>rp. r = Ok rp")
    case True
    then show ?thesis using append_ref [OF _ _ assms(2)] assms(1) e by blast
  next
    case False
    then have "t' = t" using append_err [OF _ e] assms(1) by blast
    then show ?thesis using assms(1) by simp
  qed
  then show ?thesis using append_ok [of t d] assms e by simp
qed

text \<open>Seeding represents the text, whichever way the seed encode ran.\<close>

lemma seed_session_represents:
  assumes run: "seed_session sha blake s key engine x (fresh k w c) = (s', Ok (sess, d))"
    and v: "valid_utf8 x" and g: "guard \<le> k_guard key"
  shows "represents R sess x \<and> s_key_id sess = k \<and> s_witness sess = w \<and> s_revision sess = 0"
proof (cases "x = []")
  case True
  then have s: "sess = fresh k w c" using run by (simp add: seed_session_def)
  with s new_faithful True show ?thesis by (simp add: represents_def)
next
  case False
  obtain t where t: "t = fst (seed_encode blake s engine x)" "tl_text t = x" "sess_wf ((fresh k w c)\<lparr>s_tail := t\<rparr>)"
    "settled engine (k_guard key) ((fresh k w c)\<lparr>s_tail := t\<rparr>) sess"
    by (rule seed_session_settled [OF run False v])
  have "tail_ok t \<and> faithful R t"
    unfolding t(1) by (rule seed_encode_state) (use new_faithful append_faithful v in \<open>simp_all add: tail_ok_def\<close>)
  then have "represents R ((fresh k w c)\<lparr>s_tail := t\<rparr>) x"
    using t(2,3) by (simp add: represents_def)
  then show ?thesis using settled_represents [OF _ t(4) g] settled_key [OF t(4)] by simp
qed

lemma put_represents:
  assumes ok: "tbl_ok (ss_sessions s)" "0 < c_max_sessions (ss_cfg s)"
    and run: "put sha blake s k x engine = (s', Ok out)" and v: "valid_utf8 x"
    and g: "\<And>key. key_of s k = Ok key \<Longrightarrow> guard \<le> k_guard key"
  shows "\<exists>xn. inserted s s' (po_handle out) xn \<and> represents R xn x \<and> s_key_id xn = k
    \<and> s_witness xn = eng_witness engine \<and> s_revision xn = 0 \<and> po_token_count out = length (enc_ids (R x))"
proof (rule put_Ok [OF ok run])
  fix key s2 sess d recovery content xn
  assume key: "key_of s k = Ok key" and ins: "inserted s s' (po_handle out) xn"
    and seed: "seed_session sha blake (put_start s) key engine x (fresh k (eng_witness engine) (Suc (ss_clock s))) = (s2, Ok (sess, d))"
    and xn: "xn = sess\<lparr>s_recovery := recovery, s_content := content,
        s_record_hash := commit_hash sha (sess\<lparr>s_recovery := recovery, s_content := content\<rparr>) (k_fingerprint key)\<rparr>"
    and tc: "po_token_count out = sess_token_count xn"
  have r: "represents R sess x \<and> s_key_id sess = k \<and> s_witness sess = eng_witness engine \<and> s_revision sess = 0"
    by (rule seed_session_represents [OF seed v g [OF key]])
  have "sess_wf xn" unfolding xn using r by (intro sess_wf_upd) (simp add: represents_def)
  then have rep: "represents R xn x" using r represents_same [of R sess x xn] by (simp add: xn)
  have "po_token_count out = length (enc_ids (R x))"
    using tc token_count_ok [OF \<open>sess_wf xn\<close>] represents_ids [OF rep] by simp
  with rep r ins show ?thesis by (intro exI [of _ xn]) (simp add: xn)
qed

end

section \<open>Fork\<close>

definition touched :: "session \<Rightarrow> session \<Rightarrow> bool" where
  "touched x y \<longleftrightarrow> y = x\<lparr>s_last_used := s_last_used y\<rparr>"

lemma represents_touch: "represents R x T \<Longrightarrow> represents R (x\<lparr>s_last_used := n\<rparr>) T"
  using sess_wf_upd(1) [of x n] by (auto simp: represents_def)

lemma fork_session_sel [simp]:
  "s_sealed (fork_session sha key x) = s_sealed x" "s_tail (fork_session sha key x) = s_tail x"
  "s_key_id (fork_session sha key x) = s_key_id x" "s_witness (fork_session sha key x) = s_witness x"
  "s_revision (fork_session sha key x) = 0" "s_prev_hash (fork_session sha key x) = ZERO_HASH"
  "s_content (fork_session sha key x) = s_content x" "s_recovery (fork_session sha key x) = s_recovery x"
  by (simp_all add: fork_session_def Let_def)

lemma fork_session_wf: "sess_wf x \<Longrightarrow> sess_wf (fork_session sha key x)"
  by (simp add: fork_session_def Let_def sess_wf_def snapshot_ok_def materialize_eq)

lemma fork_represents: "represents R x T \<Longrightarrow> represents R (fork_session sha key x) T"
  using fork_session_wf [of x sha key] by (auto simp: represents_def)

lemma key_of_same [simp]: "key_of (tick s) k = key_of s k" "key_of (stat f s) k = key_of s k"
  by (simp_all add: key_of_def)

lemma fork_Ok:
  assumes ok: "tbl_ok (ss_sessions s)" "0 < c_max_sessions (ss_cfg s)" and run: "fork sha s h = (s', Ok h')"
  obtains x key where "tbl_get (ss_sessions s) h = Some x" "key_of s (s_key_id x) = Ok key"
    "inserted (put_session (tick s) h (x\<lparr>s_last_used := Suc (ss_clock s)\<rparr>)) s' h'
       (fork_session sha key (x\<lparr>s_last_used := Suc (ss_clock s)\<rparr>))"
proof -
  from run obtain x key where x: "tbl_get (ss_sessions s) h = Some x" and key: "key_of s (s_key_id x) = Ok key"
    by (auto simp: fork_def Let_def attempt_eq_Ok)
  let ?y = "x\<lparr>s_last_used := Suc (ss_clock s)\<rparr>"
  let ?s1 = "put_session (tick s) h ?y"
  let ?s2 = "stat (\<lambda>st. st\<lparr>st_forks := st_forks st + 1\<rparr>) ?s1"
  have key': "key_of (tick s) (s_key_id x) = Ok key" using key by simp
  have get: "session_of (tick s) h = Ok x" using x by simp
  have out: "s' = fst (insert_session (evict_for_capacity ?s2) (fork_session sha key ?y))"
    "h' = snd (insert_session (evict_for_capacity ?s2) (fork_session sha key ?y))"
    using run unfolding fork_def Let_def get key' attempt.simps by (auto simp: case_prod_unfold)
  have ok2: "tbl_ok (ss_sessions ?s2)" "0 < c_max_sessions (ss_cfg ?s2)" using ok tbl.put_ok by simp_all
  have "inserted ?s1 s' h' (fork_session sha key ?y)"
    unfolding out
    by (rule insert_inserted [where ?s1.0 = "evict_for_capacity ?s2"])
      (use evict_shrunk [OF ok2] evict_for_capacity_ok(2) [OF ok2] in simp_all)
  then show thesis using that x key by blast
qed

text \<open>
  The complete token rows: the copy of \<^verbatim>\<open>all_ids\<close> and the shared row of \<^verbatim>\<open>shared_all_ids\<close>, which joins
  adjacent ranges of one allocation, reuses a snapshot, or copies once, hold the same tokens.
\<close>

section \<open>Copied rows\<close>

lemma all_ids_Ok:
  assumes "all_ids s h = (s', Ok ids)"
  obtains x where "tbl_get (ss_sessions s) h = Some x" "ids = materialize_all_ids x"
    "ss_sessions s' = tbl_put (ss_sessions s) h (x\<lparr>s_last_used := Suc (ss_clock s)\<rparr>)" "ss_keys s' = ss_keys s"
    "ss_cfg s' = ss_cfg s" "ss_next_handle s' = ss_next_handle s"
  using assms by (auto simp: all_ids_def Let_def attempt_eq_Ok)

section \<open>Shared rows\<close>

lemma adjacent_row_ok:
  assumes wf: "sess_wf x" and row: "adjacent_row x = Some row"
  shows "shared_wf row \<and> as_slice row = materialize_all_ids x"
proof -
  have sw: "sealed_wf (s_sealed x)" and tw: "tail_wf (s_tail x)" using wf by (simp_all add: sess_wf_def)
  show ?thesis
  proof (cases "tail_shared_ids (s_tail x)")
    case None
    then show ?thesis using row by (auto simp: adjacent_row_def split: option.splits)
  next
    case (Some t)
    have t: "shared_wf t" "ids_of (s_tail x) = as_slice t" using tail_shared_Some [OF tw Some] by simp_all
    show ?thesis
    proof (cases "as_single_shared (s_sealed x)")
      case None
      then have "row = t" "sl_len (s_sealed x) = 0"
        using row Some by (auto simp: adjacent_row_def sealed_is_empty_def split: if_splits)
      then show ?thesis using t sw by (simp add: materialize_eq sealed_wf_def)
    next
      case (Some sealed)
      note joined = join_adjacent_Some [of sealed t row]
      have "shared_wf sealed" "as_slice sealed = sealed_stream (s_sealed x)"
        using as_single_shared_wf [OF sw Some] as_single_shared_ok [OF Some] sw by simp_all
      then show ?thesis
        using joined row t Some \<open>tail_shared_ids (s_tail x) = Some t\<close>
        by (auto simp: adjacent_row_def materialize_eq split: if_splits)
    qed
  qed
qed

lemma snapshot_row_ok:
  assumes "sess_wf x" "snapshot_row s x = (s', row)"
  shows "shared_wf row" "as_slice row = materialize_all_ids x" "quiet s s'"
  using assms adjacent_row_ok [OF assms(1)]
  by (auto simp: snapshot_row_def split: option.splits)

lemma cached_row_ok:
  "sess_wf x \<Longrightarrow> cached_row x = Some row \<Longrightarrow> shared_wf row \<and> as_slice row = materialize_all_ids x"
  by (auto simp: cached_row_def sess_wf_def snapshot_ok_def split: option.splits prod.splits if_splits)

lemma snapshot_wf:
  assumes "sess_wf x" "shared_wf row" "as_slice row = materialize_all_ids x"
  shows "sess_wf (x\<lparr>s_snapshot := Some (s_generation x, row)\<rparr>)"
  using assms by (simp add: sess_wf_def snapshot_ok_def materialize_eq)

text \<open>What a read of the shared row does: the row holds the tokens, the session only its snapshot.\<close>

lemma shared_all_ids_Ok:
  assumes run: "shared_all_ids s h = (s', Ok row)" and wf: "\<And>x. tbl_get (ss_sessions s) h = Some x \<Longrightarrow> sess_wf x"
  obtains x y where "tbl_get (ss_sessions s) h = Some x" "shared_wf row" "as_slice row = materialize_all_ids x"
    "ss_sessions s' = tbl_put (ss_sessions s) h y"
    "sess_wf y" "\<exists>sn. y = x\<lparr>s_last_used := Suc (ss_clock s), s_snapshot := sn\<rparr>"
    "ss_keys s' = ss_keys s" "ss_cfg s' = ss_cfg s" "ss_next_handle s' = ss_next_handle s"
proof -
  from run obtain x where x: "tbl_get (ss_sessions s) h = Some x"
    by (auto simp: shared_all_ids_def Let_def attempt_eq_Ok)
  let ?x1 = "x\<lparr>s_last_used := Suc (ss_clock s)\<rparr>"
  let ?s2 = "put_session (tick s) h ?x1"
  have w1: "sess_wf ?x1" by (rule sess_wf_upd(1) [OF wf [OF x]])
  have m1: "materialize_all_ids ?x1 = materialize_all_ids x" by (simp add: materialize_eq)
  have get: "session_of (tick s) h = Ok x" using x by simp
  note run' = run [unfolded shared_all_ids_def Let_def get attempt.simps store_simps(12)]
  show thesis
  proof (cases "cached_row ?x1")
    case (Some snapshot)
    then have "s' = ?s2" "row = snapshot" using run' by simp_all
    then show thesis
      using cached_row_ok [OF w1 Some] m1 x w1
      by (intro that [of x ?x1]) (auto intro: exI [of _ "s_snapshot x"])
  next
    case None
    obtain s3 r where sr: "snapshot_row ?s2 ?x1 = (s3, r)" by (cases "snapshot_row ?s2 ?x1")
    note ok = snapshot_row_ok [OF w1 sr]
    have s': "row = r" "s' = put_session s3 h (?x1\<lparr>s_snapshot := Some (s_generation ?x1, r)\<rparr>)"
      using run' None sr by auto
    show thesis
    proof (rule that [OF x])
      show "shared_wf row" "as_slice row = materialize_all_ids x" using ok m1 s' by simp_all
      show "sess_wf (?x1\<lparr>s_snapshot := Some (s_generation ?x1, r)\<rparr>)"
        by (rule snapshot_wf [OF w1]) (use ok in simp_all)
      show "\<exists>sn. ?x1\<lparr>s_snapshot := Some (s_generation ?x1, r)\<rparr>
          = x\<lparr>s_last_used := Suc (ss_clock s), s_snapshot := sn\<rparr>" by blast
      show "ss_sessions s' = tbl_put (ss_sessions s) h (?x1\<lparr>s_snapshot := Some (s_generation ?x1, r)\<rparr>)"
        using ok(3) s' by (simp add: quiet_def)
      show "ss_keys s' = ss_keys s" "ss_cfg s' = ss_cfg s" "ss_next_handle s' = ss_next_handle s"
        using ok(3) s' by (simp_all add: quiet_def)
    qed
  qed
qed

end
