(* ===== verification/Population.thy ===== *)
theory Population
  imports Sessions
begin

text \<open>
  A property of every session of a store, with the bounds of the table: how it survives what the
  operations do to the table, an eviction, an insertion under the next handle, a change at one handle.
\<close>

definition populated :: "(nat \<Rightarrow> session \<Rightarrow> bool) \<Rightarrow> store \<Rightarrow> bool" where
  "populated J s \<longleftrightarrow>
     tbl_ok (ss_sessions s) \<and> (\<forall>h x. tbl_get (ss_sessions s) h = Some x \<longrightarrow> h < ss_next_handle s \<and> J h x)
     \<and> config_validate (ss_cfg s) = Ok () \<and> length (ss_sessions s) \<le> c_max_sessions (ss_cfg s)"

lemma length_put: "tbl_ok t \<Longrightarrow> length (tbl_put t h x) = (if tbl_get t h = None then Suc (length t) else length t)"
  using tbl.size_put_new [of t h x] tbl.size_put_old [of t h x] by (auto simp: length_keys)

lemma populated_get: "populated J s \<Longrightarrow> tbl_get (ss_sessions s) h = Some x \<Longrightarrow> J h x"
  by (simp add: populated_def)

lemma populated_ok: "populated J s \<Longrightarrow> tbl_ok (ss_sessions s)" "populated J s \<Longrightarrow> 0 < c_max_sessions (ss_cfg s)"
  "populated J s \<Longrightarrow> 0 < c_block_chars (ss_cfg s)"
  by (auto simp: populated_def config_validate_def split: if_splits)

lemma populated_same:
  "ss_sessions s' = ss_sessions s \<Longrightarrow> ss_next_handle s' = ss_next_handle s \<Longrightarrow> ss_cfg s' = ss_cfg s \<Longrightarrow>
     populated J s' = populated J s"
  by (simp add: populated_def)

lemma populated_shrunk:
  assumes "populated J s" "shrunk s s'"
  shows "populated J s'"
  using assms by (auto simp: populated_def shrunk_def lru_subset_def)

text \<open>No session is at a new handle, so the property may change there.\<close>

lemma populated_inserted:
  assumes p: "populated J s" and ins: "inserted s s' h x" and x: "J' h x"
    and old: "\<And>k y. k < h \<Longrightarrow> J k y \<Longrightarrow> J' k y"
  shows "populated J' s'"
proof -
  from ins obtain t where t: "lru_subset (ss_sessions s) t" "length t < c_max_sessions (ss_cfg s)"
    "ss_sessions s' = tbl_put t h x" "h = ss_next_handle s" "ss_next_handle s' = Suc h" "ss_cfg s' = ss_cfg s"
    by (auto simp: inserted_def)
  have ok: "tbl_ok t" using t(1) by (simp add: lru_subset_def)
  have "k < Suc h \<and> J' k y" if "tbl_get (ss_sessions s') k = Some y" for k y
  proof (cases "k = h")
    case False
    then have "tbl_get (ss_sessions s) k = Some y" using that t by (simp add: lru_subset_def)
    then have "k < h" "J k y" using p t(4) by (simp_all add: populated_def)
    then show ?thesis using old by simp
  qed (use that t x in simp)
  then show ?thesis using p t ok length_put [OF ok, of h x] by (simp add: populated_def)
qed

lemma populated_framed:
  assumes p: "populated J s" and x: "tbl_get (ss_sessions s) h = Some x" and fr: "frame s h s'"
    and y: "tbl_get (ss_sessions s') h = Some y" "J' h y" and old: "\<And>k z. k \<noteq> h \<Longrightarrow> J k z \<Longrightarrow> J' k z"
  shows "populated J' s'"
proof -
  have ok: "tbl_ok (ss_sessions s)" "tbl_ok (ss_sessions s')" using p fr by (simp_all add: populated_def frame_def)
  have get: "tbl_get (ss_sessions s') k = (if k = h then Some y else tbl_get (ss_sessions s) k)" for k
    using fr y(1) by (simp add: frame_def)
  then have "{k. tbl_get (ss_sessions s') k \<noteq> None} = {k. tbl_get (ss_sessions s) k \<noteq> None}" using x by auto
  then have "length (ss_sessions s') = length (ss_sessions s)"
    using tbl.size_card [OF ok(1)] tbl.size_card [OF ok(2)] by (simp add: length_keys)
  moreover have "k < ss_next_handle s \<and> J' k z" if "tbl_get (ss_sessions s') k = Some z" for k z
    using that get p x y(2) old by (cases "k = h") (auto simp: populated_def)
  ultimately show ?thesis using p ok(2) fr by (simp add: populated_def frame_def)
qed

lemma populated_touch:
  assumes "populated J s" "tbl_get (ss_sessions s) h = Some x" "ss_sessions s' = tbl_put (ss_sessions s) h y" "J h y"
    and "ss_keys s' = ss_keys s" "ss_cfg s' = ss_cfg s" "ss_next_handle s' = ss_next_handle s"
  shows "populated J s'"
  by (rule populated_framed [OF assms(1,2)]) (use assms in \<open>simp_all add: frame_def\<close>)

lemma populated_evict:
  assumes p: "populated J s"
  shows "populated J (fst (evict s h))"
proof -
  have "length (tbl_del (ss_sessions s) h) \<le> length (ss_sessions s)" by (simp add: tbl_del_def length_delete_le)
  then show ?thesis using p tbl.del_ok by (auto simp: evict_def populated_def)
qed

lemma populated_new: "store_new cfg = Ok s \<Longrightarrow> populated J s"
  by (auto simp: store_new_def rbind_eq_Ok populated_def config_validate_def split: if_splits)

text \<open>What a read of the rows touches.\<close>

lemma all_ids_touch:
  assumes p: "populated J s" and run: "all_ids s h = (s', r)"
    and J: "\<And>x. tbl_get (ss_sessions s) h = Some x \<Longrightarrow> J h x \<Longrightarrow> J h (x\<lparr>s_last_used := Suc (ss_clock s)\<rparr>)"
  shows "populated J s'"
proof (cases "tbl_get (ss_sessions s) h")
  case None
  then have "s' = tick s" using run by (auto simp: all_ids_def Let_def session_of_def)
  then show ?thesis using p by (simp add: populated_def)
next
  case (Some x)
  then obtain ids where "r = Ok ids" using run by (auto simp: all_ids_def Let_def session_of_def)
  with run show ?thesis
    using J [OF Some populated_get [OF p Some]] Some by (auto elim!: all_ids_Ok intro!: populated_touch [OF p Some])
qed

lemma shared_all_ids_touch:
  assumes p: "populated J s" and run: "shared_all_ids s h = (s', r)"
    and wf: "\<And>x. tbl_get (ss_sessions s) h = Some x \<Longrightarrow> sess_wf x"
    and J: "\<And>x sn. tbl_get (ss_sessions s) h = Some x \<Longrightarrow> J h x \<Longrightarrow>
      sess_wf (x\<lparr>s_last_used := Suc (ss_clock s), s_snapshot := sn\<rparr>) \<Longrightarrow>
      J h (x\<lparr>s_last_used := Suc (ss_clock s), s_snapshot := sn\<rparr>)"
  shows "populated J s'"
proof (cases "tbl_get (ss_sessions s) h")
  case None
  then have "s' = tick s" using run by (auto simp: shared_all_ids_def Let_def session_of_def)
  then show ?thesis using p by (simp add: populated_def)
next
  case (Some x)
  then obtain row where "r = Ok row"
    using run by (auto simp: shared_all_ids_def Let_def session_of_def case_prod_unfold split: option.splits)
  with run have run': "shared_all_ids s h = (s', Ok row)" by simp
  show ?thesis
  proof (rule shared_all_ids_Ok [OF run' wf])
    fix z y :: session
    assume z: "tbl_get (ss_sessions s) h = Some z"
      and new: "ss_sessions s' = tbl_put (ss_sessions s) h y" "sess_wf y"
        "\<exists>sn. y = z\<lparr>s_last_used := Suc (ss_clock s), s_snapshot := sn\<rparr>"
        "ss_keys s' = ss_keys s" "ss_cfg s' = ss_cfg s" "ss_next_handle s' = ss_next_handle s"
    have "J h y" using J [OF z populated_get [OF p z]] new(2,3) by auto
    then show ?thesis using populated_touch [OF p z new(1)] new by blast
  qed
qed

text \<open>
  A store under its clients, as a step relation: every step is one call with its result, and a ghost
  records for each handle the texts its session may stand for, the ones the client knows of. The
  invariant says that each session is well formed, counted, and holds the reference encoding of one
  of its texts.
\<close>

section \<open>The clients\<close>

text \<open>
  Every call on a key passes one of the engines of that key, such as one engine in whatever state its
  earlier calls left it; a key is registered with at least the guard its
  engine needs. A refused append may have grown the tail already, so both texts stay possible.
\<close>

type_synonym world = "store \<times> (nat \<Rightarrow> str set)"

inductive client_step ::
  "(u8 list \<Rightarrow> hash32) \<Rightarrow> (u8 list \<Rightarrow> hash16) \<Rightarrow> (nat \<Rightarrow> encoder set) \<Rightarrow> (nat \<Rightarrow> nat) \<Rightarrow> world \<Rightarrow> world \<Rightarrow> bool"
  for sha blake E need where
  register: "need (length (ss_keys s)) \<le> g \<Longrightarrow> register_fingerprint s f g = (s', r) \<Longrightarrow>
    client_step sha blake E need (s, G) (s', G)"
| put_ok: "engine \<in> E k \<Longrightarrow> valid_utf8 x \<Longrightarrow> put sha blake s k x engine = (s', Ok out) \<Longrightarrow>
    client_step sha blake E need (s, G) (s', G(po_handle out := {x}))"
| put_failed: "engine \<in> E k \<Longrightarrow> valid_utf8 x \<Longrightarrow> put sha blake s k x engine = (s', r) \<Longrightarrow> \<forall>out. r \<noteq> Ok out \<Longrightarrow>
    client_step sha blake E need (s, G) (s', G)"
| append_ok: "valid_utf8 d \<Longrightarrow> tbl_get (ss_sessions s) h = Some x \<Longrightarrow> engine \<in> E (s_key_id x) \<Longrightarrow>
    append_patch sha blake s h d n engine = (s', Ok out) \<Longrightarrow>
    client_step sha blake E need (s, G) (s', G(h := (\<lambda>T. T @ d) ` G h))"
| append_failed: "valid_utf8 d \<Longrightarrow> tbl_get (ss_sessions s) h = Some x \<Longrightarrow> engine \<in> E (s_key_id x) \<Longrightarrow>
    append_patch sha blake s h d n engine = (s', r) \<Longrightarrow> \<forall>out. r \<noteq> Ok out \<Longrightarrow>
    client_step sha blake E need (s, G) (s', G(h := G h \<union> (\<lambda>T. T @ d) ` G h))"
| fork_ok: "fork sha s h = (s', Ok h') \<Longrightarrow> client_step sha blake E need (s, G) (s', G(h' := G h))"
| fork_failed: "fork sha s h = (s', r) \<Longrightarrow> \<forall>h'. r \<noteq> Ok h' \<Longrightarrow> client_step sha blake E need (s, G) (s', G)"
| evict: "evict s h = (s', b) \<Longrightarrow> client_step sha blake E need (s, G) (s', G)"
| all_ids: "all_ids s h = (s', r) \<Longrightarrow> client_step sha blake E need (s, G) (s', G)"
| shared_all_ids: "shared_all_ids s h = (s', r) \<Longrightarrow> client_step sha blake E need (s, G) (s', G)"

inductive_cases client_stepE: "client_step sha blake E need (s, G) w'"

inductive reached ::
  "(u8 list \<Rightarrow> hash32) \<Rightarrow> (u8 list \<Rightarrow> hash16) \<Rightarrow> (nat \<Rightarrow> encoder set) \<Rightarrow> (nat \<Rightarrow> nat) \<Rightarrow> world \<Rightarrow> bool"
  for sha blake E need where
  new: "store_new cfg = Ok s \<Longrightarrow> reached sha blake E need (s, \<lambda>_. {})"
| step: "reached sha blake E need w \<Longrightarrow> client_step sha blake E need w w' \<Longrightarrow> reached sha blake E need w'"

section \<open>The invariant\<close>

definition holds_text :: "(nat \<Rightarrow> str \<Rightarrow> encoding) \<Rightarrow> str set \<Rightarrow> session \<Rightarrow> bool" where
  "holds_text R texts x \<longleftrightarrow> (\<exists>T \<in> texts. represents (R (s_key_id x)) x T)"

definition world_ok :: "(nat \<Rightarrow> str \<Rightarrow> encoding) \<Rightarrow> (nat \<Rightarrow> nat) \<Rightarrow> world \<Rightarrow> bool" where
  "world_ok R need w \<longleftrightarrow>
     (case w of (s, G) \<Rightarrow>
        populated (\<lambda>h. holds_text R (G h)) s \<and> (\<forall>k < length (ss_keys s). need k \<le> kr_guard (ss_keys s ! k)))"

lemma world_ok_iff:
  "world_ok R need (s, G) \<longleftrightarrow>
     populated (\<lambda>h. holds_text R (G h)) s \<and> (\<forall>k < length (ss_keys s). need k \<le> kr_guard (ss_keys s ! k))"
  by (simp add: world_ok_def)

lemma world_ok_table:
  assumes "world_ok R need (s, G)"
  shows "tbl_ok (ss_sessions s)" "0 < c_max_sessions (ss_cfg s)"
  using assms by (auto simp: world_ok_iff dest: populated_ok)

lemma world_ok_shrunk:
  assumes "world_ok R need (s, G)" "shrunk s s'"
  shows "world_ok R need (s', G)"
  using assms populated_shrunk by (auto simp: world_ok_iff shrunk_def)

lemma world_ok_inserted:
  assumes w: "world_ok R need (s, G)" and ins: "inserted s s' h x" and x: "holds_text R T x"
  shows "world_ok R need (s', G(h := T))"
proof -
  have "populated (\<lambda>k. holds_text R ((G(h := T)) k)) s'"
    by (rule populated_inserted [OF _ ins]) (use w x in \<open>auto simp: world_ok_iff\<close>)
  then show ?thesis using w ins by (auto simp: world_ok_iff inserted_def)
qed

lemma world_ok_framed:
  assumes w: "world_ok R need (s, G)" and old: "tbl_get (ss_sessions s) h = Some x"
    and fr: "frame s h s'" and new: "tbl_get (ss_sessions s') h = Some y" "holds_text R T y"
  shows "world_ok R need (s', G(h := T))"
proof -
  have "populated (\<lambda>k. holds_text R ((G(h := T)) k)) s'"
    by (rule populated_framed [OF _ old fr new(1)]) (use w new(2) in \<open>auto simp: world_ok_iff\<close>)
  then show ?thesis using w fr by (simp add: world_ok_iff frame_def)
qed

lemma holds_text_same:
  assumes "holds_text R T x" "sess_wf y" "s_sealed y = s_sealed x" "s_tail y = s_tail x" "s_key_id y = s_key_id x"
  shows "holds_text R T y"
  using assms represents_same [of "R (s_key_id x)" x _ y] by (auto simp: holds_text_def)

lemma world_session:
  "world_ok R need (s, G) \<Longrightarrow> tbl_get (ss_sessions s) h = Some x \<Longrightarrow>
     holds_text R (G h) x \<and> sess_wf x"
  by (auto simp: world_ok_iff holds_text_def represents_def dest: populated_get)

lemma key_guard:
  assumes "world_ok R need (s, G)" "key_of s k = Ok key"
  shows "need k \<le> k_guard key"
  using assms by (auto simp: world_ok_iff key_of_def Let_def split: if_splits)

section \<open>Every step keeps it\<close>

lemma append_patch_cases:
  assumes run: "append_patch sha blake s h d n engine = (s', r)" and x: "tbl_get (ss_sessions s) h = Some x"
  obtains "quiet s s'" "\<forall>out. r \<noteq> Ok out"
  | key s1 where "key_of s (s_key_id x) = Ok key" "ss_cfg s1 = ss_cfg s" "frame s h s1"
    "append_body sha blake s1 h key (x\<lparr>s_last_used := Suc (ss_clock s)\<rparr>) d engine = (s', r)"
proof (cases "key_of s (s_key_id x)")
  case (Ok key)
  let ?s1 = "stat (\<lambda>st. st\<lparr>st_extends := st_extends st + 1\<rparr>) (tick s)"
  have sess: "session_of s h = Ok x" using x by simp
  note run' = run [unfolded append_patch_def sess Ok attempt.simps Let_def]
  show thesis
  proof (cases "s_witness x = eng_witness engine \<and> s_revision x = n")
    case True
    then show thesis using run' by (intro that(2) [OF Ok, of "put_session ?s1 h (x\<lparr>s_last_used := ss_clock ?s1\<rparr>)"]) auto
  next
    case False
    then show thesis using run' by (intro that(1)) (auto split: if_splits)
  qed
qed (use run x in \<open>auto intro!: that(1) simp: append_patch_def attempt_eq_Ok session_of_def\<close>)

text \<open>The engines meet the contract, each with the guard its key is registered with at least.\<close>

abbreviation engines_ok :: "(nat \<Rightarrow> encoder set) \<Rightarrow> (nat \<Rightarrow> str \<Rightarrow> encoding) \<Rightarrow> (nat \<Rightarrow> nat) \<Rightarrow> bool" where
  "engines_ok E R need \<equiv> \<forall>k. \<forall>engine \<in> E k. session_encoder engine (R k) (need k)"

lemma step_append_failed:
  assumes E: "engines_ok E R need" and en: "engine \<in> E (s_key_id x)" and w: "world_ok R need (s, G)" and d: "valid_utf8 d"
    and x: "tbl_get (ss_sessions s) h = Some x" and run: "append_patch sha blake s h d n engine = (s', r)"
  shows "world_ok R need (s', G(h := G h \<union> (\<lambda>T. T @ d) ` G h))"
proof (rule append_patch_cases [OF run x])
  have T: "holds_text R (G h) x" using world_session [OF w x] by simp
  assume q: "quiet s s'"
  have "frame s h s'" "tbl_get (ss_sessions s') h = Some x" using q x by (simp_all add: frame_def quiet_def)
  then show ?thesis using T by (intro world_ok_framed [OF w x]) (auto simp: holds_text_def)
next
  fix key s1
  assume key: "key_of s (s_key_id x) = Ok key" and f: "frame s h s1"
    and body: "append_body sha blake s1 h key (x\<lparr>s_last_used := Suc (ss_clock s)\<rparr>) d engine = (s', r)"
  have enc: "session_encoder engine (R (s_key_id x)) (need (s_key_id x))" using E en by blast
  from world_session [OF w x] obtain T where T: "T \<in> G h" "represents (R (s_key_id x)) x T" by (auto simp: holds_text_def)
  have rep: "represents (R (s_key_id x)) (x\<lparr>s_last_used := Suc (ss_clock s)\<rparr>) T" by (rule represents_touch [OF T(2)])
  from session_encoder.append_body_represents [OF enc rep d key_guard [OF w key],
      where sha = sha and blake = blake and s = s1 and h = h] body
  obtain y where y: "tbl_get (ss_sessions s') h = Some y" "s_key_id y = s_key_id x"
    "represents (R (s_key_id x)) y T \<or> represents (R (s_key_id x)) y (T @ d)" and f': "frame s1 h s'"
    by (auto simp: held_def)
  have "frame s h s'" using f f' by (auto simp: frame_def)
  then show ?thesis
    using T(1) y by (intro world_ok_framed [OF w x _ y(1)]) (auto simp: holds_text_def)
qed

lemma step_append_ok:
  assumes E: "engines_ok E R need" and en: "engine \<in> E (s_key_id x)" and w: "world_ok R need (s, G)" and d: "valid_utf8 d"
    and x: "tbl_get (ss_sessions s) h = Some x" and run: "append_patch sha blake s h d n engine = (s', Ok out)"
  shows "world_ok R need (s', G(h := (\<lambda>T. T @ d) ` G h))"
proof (rule append_patch_cases [OF run x])
  fix key s1
  let ?x1 = "x\<lparr>s_last_used := Suc (ss_clock s)\<rparr>"
  assume key: "key_of s (s_key_id x) = Ok key" and f: "frame s h s1"
    and body: "append_body sha blake s1 h key ?x1 d engine = (s', Ok out)"
  have enc: "session_encoder engine (R (s_key_id x)) (need (s_key_id x))" using E en by blast
  from world_session [OF w x] obtain T where T: "T \<in> G h" "represents (R (s_key_id x)) x T" by (auto simp: holds_text_def)
  have rep: "represents (R (s_key_id x)) ?x1 T" by (rule represents_touch [OF T(2)])
  note held = session_encoder.append_body_represents [OF enc rep d key_guard [OF w key],
      where sha = sha and blake = blake and s = s1 and h = h]
  from session_encoder.append_body_Ok_represents [OF enc rep d key_guard [OF w key] body] obtain y where
    y: "tbl_get (ss_sessions s') h = Some y" "represents (R (s_key_id x)) y (T @ d)" by blast
  have "s_key_id y = s_key_id x" and f': "frame s1 h s'" using held body y(1) by (auto simp: held_def)
  moreover have "frame s h s'" using f f' by (auto simp: frame_def)
  ultimately show ?thesis
    using T(1) y by (intro world_ok_framed [OF w x _ y(1)]) (auto simp: holds_text_def)
qed simp

lemma step_put_ok:
  assumes E: "engines_ok E R need" and en: "engine \<in> E k" and w: "world_ok R need (s, G)" and v: "valid_utf8 x"
    and run: "put sha blake s k x engine = (s', Ok out)"
  shows "world_ok R need (s', G(po_handle out := {x}))"
proof -
  have enc: "session_encoder engine (R k) (need k)" using E en by blast
  note ok = world_ok_table [OF w]
  from session_encoder.put_represents [OF enc ok run v key_guard [OF w]] obtain xn where
    "inserted s s' (po_handle out) xn" "represents (R k) xn x" "s_key_id xn = k" by auto
  then show ?thesis by (intro world_ok_inserted [OF w]) (auto simp: holds_text_def)
qed

lemma world_ok_touch:
  assumes w: "world_ok R need (s, G)" and x: "tbl_get (ss_sessions s) h = Some x"
    and new: "ss_sessions s' = tbl_put (ss_sessions s) h y" "sess_wf y" "s_sealed y = s_sealed x" "s_tail y = s_tail x"
      "s_key_id y = s_key_id x"
    and same: "ss_keys s' = ss_keys s" "ss_cfg s' = ss_cfg s" "ss_next_handle s' = ss_next_handle s"
  shows "world_ok R need (s', G)"
proof -
  have "holds_text R (G h) y" using holds_text_same [of R "G h" x y] world_session [OF w x] new by blast
  then have "world_ok R need (s', G(h := G h))"
    by (intro world_ok_framed [OF w x]) (use new same in \<open>simp_all add: frame_def\<close>)
  then show ?thesis by simp
qed

lemma step_fork_ok:
  assumes w: "world_ok R need (s, G)" and run: "fork sha s h = (s', Ok h')"
  shows "world_ok R need (s', G(h' := G h))"
proof -
  note ok = world_ok_table [OF w]
  show ?thesis
  proof (rule fork_Ok [OF ok run])
    fix x :: session and key
    let ?y = "x\<lparr>s_last_used := Suc (ss_clock s)\<rparr>"
    assume x: "tbl_get (ss_sessions s) h = Some x"
      and ins: "inserted (put_session (tick s) h ?y) s' h' (fork_session sha key ?y)"
    from world_session [OF w x] have xw: "holds_text R (G h) x" "sess_wf x" by simp_all
    have "world_ok R need (put_session (tick s) h ?y, G)"
      by (rule world_ok_touch [OF w x, where y = ?y]) (use xw sess_wf_upd(1) in simp_all)
    moreover have "holds_text R (G h) (fork_session sha key ?y)"
      using holds_text_same [OF xw(1) fork_session_wf [OF sess_wf_upd(1) [OF xw(2)]]] by simp
    ultimately show ?thesis using world_ok_inserted [OF _ ins] by blast
  qed
qed

lemma find_key_bound: "find_key f i ks = Some j \<Longrightarrow> i \<le> j \<and> j < i + length ks \<and> kr_fingerprint (ks ! (j - i)) = f"
proof (induction f i ks rule: find_key.induct)
  case (2 f i k ks)
  show ?case
  proof (cases "kr_fingerprint k = f")
    case False
    then have "Suc i \<le> j \<and> j < Suc i + length ks \<and> kr_fingerprint (ks ! (j - Suc i)) = f" using 2 by simp
    then obtain m where "j = Suc (i + m)" "m < length ks" "kr_fingerprint (ks ! m) = f"
      by (auto simp: le_iff_add)
    then show ?thesis by simp
  qed (use 2 in auto)
qed simp

lemma register_cases:
  assumes "register_fingerprint s f g = (s', r)"
  shows "s' = s \<or> (s' = s\<lparr>ss_keys := ss_keys s @ [\<lparr>kr_fingerprint = f, kr_guard = g\<rparr>]\<rparr> \<and> r = Ok (length (ss_keys s)))"
  using assms by (auto simp: register_fingerprint_def split: option.splits if_splits)

lemma step_register:
  assumes "world_ok R need (s, G)" "need (length (ss_keys s)) \<le> g" "register_fingerprint s f g = (s', r)"
  shows "world_ok R need (s', G)"
  using assms register_cases [OF assms(3)] by (auto simp: world_ok_iff populated_def nth_append less_Suc_eq)

lemma step_fork_failed:
  assumes "world_ok R need (s, G)" "fork sha s h = (s', r)" "\<forall>h'. r \<noteq> Ok h'"
  shows "world_ok R need (s', G)"
proof -
  have "s' = tick s"
  proof (cases "session_of s h")
    case (Ok x)
    then show ?thesis using assms(2,3)
      by (cases "key_of s (s_key_id x)") (auto simp: fork_def Let_def session_of_def insert_session_def)
  qed (use assms(2) in \<open>auto simp: fork_def Let_def session_of_def\<close>)
  then show ?thesis using assms(1) by (simp add: world_ok_iff populated_def)
qed

lemma step_evict:
  assumes "world_ok R need (s, G)" "evict s h = (s', b)"
  shows "world_ok R need (s', G)"
  using assms populated_evict [of "\<lambda>k. holds_text R (G k)" s h] by (auto simp: world_ok_iff evict_def)

lemma step_rows:
  assumes w: "world_ok R need (s, G)"
  shows "all_ids s h = (s', r) \<Longrightarrow> world_ok R need (s', G)" "shared_all_ids s h = (s', r2) \<Longrightarrow> world_ok R need (s', G)"
proof -
  let ?J = "\<lambda>k. holds_text R (G k)"
  have wf: "sess_wf x" if "tbl_get (ss_sessions s) h = Some x" for x using world_session [OF w that] by simp
  have p: "populated ?J s" using w by (simp add: world_ok_iff)
  have same: "?J h y" if "?J h x" "sess_wf y" "s_sealed y = s_sealed x" "s_tail y = s_tail x" "s_key_id y = s_key_id x" for x y
    using holds_text_same [OF that] .
  show "world_ok R need (s', G)" if run: "all_ids s h = (s', r)"
  proof -
    have "ss_keys s' = ss_keys s"
      using run by (cases "tbl_get (ss_sessions s) h") (auto simp: all_ids_def Let_def session_of_def)
    moreover have "populated ?J s'"
      by (rule all_ids_touch [OF p run]) (use same wf sess_wf_upd(1) in simp)
    ultimately show ?thesis using w by (simp add: world_ok_iff)
  qed
  show "world_ok R need (s', G)" if run: "shared_all_ids s h = (s', r2)"
  proof -
    have "ss_keys s' = ss_keys s"
      using run by (cases "tbl_get (ss_sessions s) h")
        (auto simp: shared_all_ids_def snapshot_row_def Let_def session_of_def split: option.splits)
    moreover have "populated ?J s'"
      by (rule shared_all_ids_touch [OF p run wf]) (use same in simp_all)
    ultimately show ?thesis using w by (simp add: world_ok_iff)
  qed
qed

lemma client_step_ok:
  assumes E: "engines_ok E R need" and w: "world_ok R need w" and st: "client_step sha blake E need w w'"
  shows "world_ok R need w'"
proof -
  obtain s G where sG: "w = (s, G)" by (cases w)
  note w' = w [unfolded sG]
  note ok = world_ok_table [OF w']
  from st [unfolded sG] show ?thesis
  proof cases
    case (register g f s' r)
    then show ?thesis using step_register [OF w'] by blast
  next
    case (put_ok engine k x s' out)
    then show ?thesis using step_put_ok [OF E _ w'] by blast
  next
    case (put_failed engine k x s' r)
    have "shrunk s s'" by (rule put_error [OF ok]) (use put_failed in auto)
    then show ?thesis using world_ok_shrunk [OF w'] put_failed by blast
  next
    case (append_ok d h x engine n s' out)
    then show ?thesis using step_append_ok [OF E _ w'] by blast
  next
    case (append_failed d h x engine n s' r)
    then show ?thesis using step_append_failed [OF E _ w'] by blast
  next
    case (fork_ok h s' h')
    then show ?thesis using step_fork_ok [OF w'] by blast
  next
    case (fork_failed h s' r)
    then show ?thesis using step_fork_failed [OF w'] by blast
  next
    case (evict h s' b)
    then show ?thesis using step_evict [OF w'] by blast
  next
    case (all_ids h s' r)
    then show ?thesis using step_rows(1) [OF w'] by blast
  next
    case (shared_all_ids h s' r)
    then show ?thesis using step_rows(2) [OF w'] by blast
  qed
qed

lemma new_world_ok:
  assumes "store_new cfg = Ok s"
  shows "world_ok R need (s, \<lambda>_. {})"
  using populated_new [OF assms] assms by (auto simp: store_new_def rbind_eq_Ok world_ok_iff)

lemma reached_ok:
  assumes E: "engines_ok E R need" and "reached sha blake E need w"
  shows "world_ok R need w"
  using assms(2) by induction (use new_world_ok client_step_ok [OF E] in blast)+

end
