(* ===== verification/Transport.thy ===== *)
theory Transport
  imports Queries
begin

text \<open>
  Record transport of the store (\<^verbatim>\<open>store.rs\<close>): node cache items, session records and sidecars,
  the recovery binding, and the import paths with their gates. Every failed gate is counted.
\<close>

section \<open>Node items\<close>

fun collect_results :: "'a res list \<Rightarrow> 'a list res" where
  "collect_results [] = Ok []"
| "collect_results (r # rs) = rbind r (\<lambda>x. rbind (collect_results rs) (\<lambda>xs. Ok (x # xs)))"

definition export_node_items :: "(u8 list \<Rightarrow> hash32) \<Rightarrow> store \<Rightarrow> (hash32 \<times> u8 list) list res" where
  "export_node_items sha s =
     collect_results (map (\<lambda>k. case tbl_get (ss_nodes s) k of
          Some entry \<Rightarrow> rbind (node_to_bytes sha (ne_rec entry)) (\<lambda>bytes. Ok (k, bytes))
        | None \<Rightarrow> Panic) (sort (tbl_keys (ss_nodes s))))"

definition reject :: "store \<Rightarrow> store" where
  "reject s = stat (\<lambda>st. st\<lparr>st_import_rejects := st_import_rejects st + 1\<rparr>) s"

definition import_node_item :: "(u8 list \<Rightarrow> hash32) \<Rightarrow> store \<Rightarrow> u8 list \<Rightarrow> u8 list \<Rightarrow> store \<times> bool" where
  "import_node_item sha s key_bytes bytes =
     (if length key_bytes \<noteq> 32 then (reject s, False)
      else
        let key = hash_of key_bytes in
        case node_from_bytes sha bytes of
          Ok parsed \<Rightarrow>
            if n_key parsed = key
            then case entry_create sha parsed of
                   Ok entry \<Rightarrow> (s\<lparr>ss_nodes := tbl_put (ss_nodes s) key entry\<rparr>, True)
                 | _ \<Rightarrow> (reject s, False)
            else (reject s, False)
        | _ \<Rightarrow> (reject s, False))"

text \<open>The corruption hook of the test batteries.\<close>

definition corrupt_record :: "node_record \<Rightarrow> node_record" where
  "corrupt_record n =
     (case n_ids n of
        v # vs \<Rightarrow> n\<lparr>n_ids := xor v 1 # vs\<rparr>
      | [] \<Rightarrow> n\<lparr>n_safe_char := (if even (n_safe_char n) then n_safe_char n + 1 else n_safe_char n - 1)\<rparr>)"

definition corrupt_node_for_tests :: "store \<Rightarrow> u8 list \<Rightarrow> store \<times> bool res" where
  "corrupt_node_for_tests s key_bytes =
     (if length key_bytes \<noteq> 32 then (s, Err (InvalidInput ''node_key must be 32 bytes''))
      else
        let key = hash_of key_bytes in
        case tbl_get (ss_nodes s) key of
          None \<Rightarrow> (s, Ok False)
        | Some entry \<Rightarrow>
            (s\<lparr>ss_nodes := tbl_put (ss_nodes s) key (entry\<lparr>ne_rec := corrupt_record (ne_rec entry)\<rparr>)\<rparr>, Ok True))"

section \<open>Exports\<close>

definition record_of :: "session \<Rightarrow> hash32 \<Rightarrow> session_record" where
  "record_of sess fingerprint =
     \<lparr>r_fingerprint = fingerprint, r_witness = s_witness sess, r_revision = s_revision sess,
      r_prev = s_prev_hash sess, r_curr = s_record_hash sess, r_stable = s_safe_byte sess,
      r_replace = recorded_replace sess, r_ids = materialize_all_ids sess, r_tail = tl_text (s_tail sess)\<rparr>"

definition export_session :: "(u8 list \<Rightarrow> hash32) \<Rightarrow> store \<Rightarrow> nat \<Rightarrow> store \<times> u8 list res" where
  "export_session sha s handle =
     attempt s (session_of s handle) (\<lambda>sess.
     attempt s (key_of s (s_key_id sess)) (\<lambda>key.
       (count_materialization s, record_to_bytes sha (record_of sess (k_fingerprint key)))))"

definition sidecar_of :: "session \<Rightarrow> sidecar" where
  "sidecar_of sess =
     \<lparr>sc_record_curr = s_record_hash sess, sc_total_chars = s_total_chars sess,
      sc_safe_char = s_safe_char sess, sc_safe_byte = s_safe_byte sess, sc_blocks_end = s_blocks_end sess,
      sc_blocks_end_byte = s_blocks_end_byte sess, sc_scan_floor = s_scan_floor sess,
      sc_chain_base_safe = s_base_safe sess, sc_chain_base_idx = s_base_idx sess,
      sc_chain_tail = s_chain_tail sess, sc_chain_ok = s_chain_ok sess,
      sc_sealed_count = sl_len (s_sealed sess), sc_last_replace_from = s_last_replace sess,
      sc_buf = s_buf sess, sc_seal_log = s_seal_log sess\<rparr>"

definition export_session_sidecar :: "(u8 list \<Rightarrow> hash32) \<Rightarrow> store \<Rightarrow> nat \<Rightarrow> u8 list res" where
  "export_session_sidecar sha s handle =
     rbind (session_of s handle) (\<lambda>sess. sidecar_to_bytes sha (sidecar_of sess))"

definition represented_bytes :: "session \<Rightarrow> nat res" where
  "represented_bytes sess =
     ok_or (checked_add64 (s_safe_byte sess) (text_bytes (s_tail sess)))
       (Internal ''session text byte length overflow'')"

definition recovery_material_at :: "(u8 list \<Rightarrow> hash32) \<Rightarrow> store \<Rightarrow> nat \<Rightarrow> recovery_material option res" where
  "recovery_material_at sha s handle =
     rbind (session_of s handle) (\<lambda>sess.
     case s_recovery sess of
       None \<Rightarrow> Ok None
     | Some d \<Rightarrow>
         rbind (represented_bytes sess) (\<lambda>represented.
         if rd_text_bytes d \<noteq> represented
         then Err (Internal ''recovery byte length does not match the represented session text'')
         else Ok (Some (recovery_material_of sha d (s_record_hash sess)))))"

definition content_index_entry_of ::
  "(u8 list \<Rightarrow> hash16) \<Rightarrow> store \<Rightarrow> nat \<Rightarrow> content_index_entry option res" where
  "content_index_entry_of blake s handle =
     rbind (session_of s handle) (\<lambda>sess. Ok (map_option (content_entry blake) (s_content sess)))"

definition export_recovery_binding ::
  "(u8 list \<Rightarrow> hash32) \<Rightarrow> (u8 list \<Rightarrow> hash16) \<Rightarrow> store \<Rightarrow> nat \<Rightarrow> u8 list option res" where
  "export_recovery_binding sha blake s handle =
     rbind (session_of s handle) (\<lambda>sess.
     case (s_recovery sess, s_content sess) of
       (Some recovery, Some content) \<Rightarrow>
         let m = recovery_material_of sha recovery (s_record_hash sess) in
         if rm_text_bytes m \<noteq> ce_byte_length (content_entry blake content)
         then Err (Internal ''recovery and content-index byte lengths disagree'')
         else rbind (binding_to_bytes sha
                (binding_from_states blake (s_record_hash sess) (rm_text_digest m) content)) (\<lambda>b. Ok (Some b))
     | _ \<Rightarrow> Ok None)"

section \<open>Tracking restored from a binding\<close>

definition binding_mismatch :: "string \<Rightarrow> store_error" where
  "binding_mismatch what = MalformedRecord (''TKFR-v1 does not bind historical text to the '' @ what)"

definition verified_tracking_state ::
  "(u8 list \<Rightarrow> hash32) \<Rightarrow> (u8 list \<Rightarrow> hash16) \<Rightarrow> store \<Rightarrow> nat \<Rightarrow> str \<Rightarrow> u8 list
     \<Rightarrow> (recovery_digest \<times> content_digest) res" where
  "verified_tracking_state sha blake s handle historical binding_bytes =
     rbind (session_of s handle) (\<lambda>sess.
     rbind (binding_from_bytes sha binding_bytes) (\<lambda>binding.
     rbind (represented_bytes sess) (\<lambda>represented.
     rbind (recovery_from_text historical) (\<lambda>recovery.
     let material = recovery_material_of sha recovery (s_record_hash sess) in
     rbind (content_from_bytes blake historical) (\<lambda>content.
     if constant_time_eq (hash_bytes (rb_record_hash binding)) (hash_bytes (s_record_hash sess))
        \<and> length historical = represented
        \<and> length historical = ce_byte_length (rb_index_entry binding)
        \<and> ends_with historical (tl_text (s_tail sess))
        \<and> constant_time_eq (hash_bytes (rb_text_digest binding)) (hash_bytes (rm_text_digest material))
        \<and> rb_index_entry binding = content_entry blake content
     then Ok (recovery, content)
     else Err (binding_mismatch ''current session''))))))"

definition verify_recovery_binding ::
  "(u8 list \<Rightarrow> hash32) \<Rightarrow> (u8 list \<Rightarrow> hash16) \<Rightarrow> store \<Rightarrow> nat \<Rightarrow> str \<Rightarrow> u8 list \<Rightarrow> unit res" where
  "verify_recovery_binding sha blake s handle historical binding_bytes =
     rbind (verified_tracking_state sha blake s handle historical binding_bytes) (\<lambda>_. Ok ())"

definition restore_tracking_with_binding ::
  "(u8 list \<Rightarrow> hash32) \<Rightarrow> (u8 list \<Rightarrow> hash16) \<Rightarrow> store \<Rightarrow> nat \<Rightarrow> str \<Rightarrow> u8 list \<Rightarrow> store \<times> unit res" where
  "restore_tracking_with_binding sha blake s handle historical binding_bytes =
     attempt s (verified_tracking_state sha blake s handle historical binding_bytes) (\<lambda>(recovery, content).
     attempt s (session_of s handle) (\<lambda>sess.
       (put_session s handle
          (sess\<lparr>s_recovery := (if ss_recovery_tracking s then Some recovery else None),
                s_content := (if ss_content_tracking s then Some content else None)\<rparr>), Ok ())))"

section \<open>Imports\<close>

definition import_record_gates ::
  "(u8 list \<Rightarrow> hash32) \<Rightarrow> store \<Rightarrow> key_ctx \<Rightarrow> u8 list \<Rightarrow> encoder
     \<Rightarrow> store \<times> (session_record \<times> nat \<times> tail_state) res" where
  "import_record_gates sha s key rec_bytes engine =
     attempt (reject s) (record_from_bytes sha rec_bytes) (\<lambda>parsed.
     if r_fingerprint parsed \<noteq> k_fingerprint key then (reject s, Err FingerprintMismatch)
     else if r_witness parsed \<noteq> eng_witness engine
     then (reject s, Err (WitnessCategoryMismatch (r_witness parsed) (eng_witness engine)))
     else attempt s (from_engine (eng_encode engine (r_tail parsed))) (\<lambda>enc.
     let n = length (r_ids parsed); m = length (enc_ids enc) in
     if n < m then (reject s, Err ImportReencodeMismatch)
     else let sealed_count = n - m in
     if drop sealed_count (r_ids parsed) \<noteq> enc_ids enc then (reject s, Err ImportReencodeMismatch)
     else if (sealed_count = 0) \<noteq> (r_stable parsed = 0)
     then (reject s, Err (MalformedRecord ''sealed token count and stable prefix length disagree''))
     else attempt s (fill_state (r_tail parsed) enc) (\<lambda>t. (s, Ok (parsed, sealed_count, t)))))"

definition detached_import_session ::
  "nat \<Rightarrow> session_record \<Rightarrow> nat \<Rightarrow> tail_state \<Rightarrow> nat \<Rightarrow> recovery_digest option \<Rightarrow> content_digest option \<Rightarrow> session"
where
  "detached_import_session key_id parsed sealed_count t clock recovery content =
     (fresh key_id (r_witness parsed) clock)\<lparr>s_revision := r_revision parsed, s_prev_hash := r_prev parsed,
        s_record_hash := r_curr parsed, s_last_replace := r_replace parsed, s_safe_byte := r_stable parsed,
        s_safe_char := 0, s_total_chars := tl_chars t,
        s_payload := update_ids payload_hasher_new (take sealed_count (r_ids parsed)),
        s_sealed := sealed_from_vec (take sealed_count (r_ids parsed)), s_chain_ok := False, s_buf := [],
        s_seal_log := [(0, sealed_count)], s_tail := t, s_recovery := recovery, s_content := content\<rparr>"

text \<open>The digests an import can restart by itself: those of a record without a stable prefix.\<close>

definition bare_digests ::
  "(u8 list \<Rightarrow> hash16) \<Rightarrow> store \<Rightarrow> session_record \<Rightarrow> (recovery_digest option \<times> content_digest option) res" where
  "bare_digests blake s parsed =
     rbind (if ss_recovery_tracking s \<and> r_stable parsed = 0
            then rbind (recovery_from_text (r_tail parsed)) (\<lambda>d. Ok (Some d)) else Ok None) (\<lambda>recovery.
     rbind (if ss_content_tracking s \<and> r_stable parsed = 0
            then rbind (content_from_bytes blake (r_tail parsed)) (\<lambda>d. Ok (Some d)) else Ok None) (\<lambda>content.
       Ok (recovery, content)))"

definition insert_import :: "store \<Rightarrow> session \<Rightarrow> store \<times> nat res" where
  "insert_import s sess = (let (s', h) = insert_session s sess in (s', Ok h))"

definition import_session ::
  "(u8 list \<Rightarrow> hash32) \<Rightarrow> (u8 list \<Rightarrow> hash16) \<Rightarrow> store \<Rightarrow> nat \<Rightarrow> u8 list \<Rightarrow> encoder \<Rightarrow> store \<times> nat res" where
  "import_session sha blake s key_id rec_bytes engine =
     attempt s (key_of s key_id) (\<lambda>key.
     andthen (import_record_gates sha s key rec_bytes engine) (\<lambda>s1 (parsed, sealed_count, t).
     attempt s1 (bare_digests blake s1 parsed) (\<lambda>(recovery, content).
     let s2 = evict_for_capacity (tick s1) in
     insert_import s2 (detached_import_session key_id parsed sealed_count t (ss_clock s2) recovery content))))"

definition record_full_bytes :: "session_record \<Rightarrow> nat res" where
  "record_full_bytes parsed =
     ok_or (checked_add64 (r_stable parsed) (length (r_tail parsed)))
       (Internal ''record full-text byte length overflow'')"

definition import_session_with_recovery ::
  "(u8 list \<Rightarrow> hash32) \<Rightarrow> (u8 list \<Rightarrow> hash16) \<Rightarrow> store \<Rightarrow> nat \<Rightarrow> u8 list \<Rightarrow> str \<Rightarrow> recovery_material \<Rightarrow> encoder
     \<Rightarrow> store \<times> nat res" where
  "import_session_with_recovery sha blake s key_id rec_bytes historical expected engine =
     attempt s (key_of s key_id) (\<lambda>key.
     andthen (import_record_gates sha s key rec_bytes engine) (\<lambda>s1 (parsed, sealed_count, t).
     attempt s1 (record_full_bytes parsed) (\<lambda>full.
     attempt s1 (recovery_from_text historical) (\<lambda>recovery.
     let material = recovery_material_of sha recovery (r_curr parsed) in
     if \<not> (constant_time_eq (hash_bytes (rm_record_hash expected)) (hash_bytes (r_curr parsed))
           \<and> length historical = rm_text_bytes expected \<and> length historical = full
           \<and> ends_with historical (r_tail parsed)
           \<and> constant_time_eq (hash_bytes (rm_text_digest expected)) (hash_bytes (rm_text_digest material)))
     then (reject s1, Err (MalformedRecord ''recovery material does not bind historical text to the record''))
     else
       let s2 = evict_for_capacity (tick s1) in
       attempt s2 (if ss_content_tracking s2
                   then rbind (content_from_bytes blake historical) (\<lambda>d. Ok (Some d)) else Ok None) (\<lambda>content.
       insert_import s2
         (detached_import_session key_id parsed sealed_count t (ss_clock s2) (Some recovery) content))))))"

definition import_session_with_binding ::
  "(u8 list \<Rightarrow> hash32) \<Rightarrow> (u8 list \<Rightarrow> hash16) \<Rightarrow> store \<Rightarrow> nat \<Rightarrow> u8 list \<Rightarrow> str \<Rightarrow> u8 list \<Rightarrow> encoder
     \<Rightarrow> store \<times> nat res" where
  "import_session_with_binding sha blake s key_id rec_bytes historical binding_bytes engine =
     attempt s (key_of s key_id) (\<lambda>key.
     andthen (import_record_gates sha s key rec_bytes engine) (\<lambda>s1 (parsed, sealed_count, t).
     attempt (reject s1) (binding_from_bytes sha binding_bytes) (\<lambda>binding.
     attempt s1 (record_full_bytes parsed) (\<lambda>full.
     attempt s1 (recovery_from_text historical) (\<lambda>recovery.
     let material = recovery_material_of sha recovery (r_curr parsed) in
     attempt s1 (content_from_bytes blake historical) (\<lambda>content.
     if \<not> (constant_time_eq (hash_bytes (rb_record_hash binding)) (hash_bytes (r_curr parsed))
           \<and> length historical = ce_byte_length (rb_index_entry binding) \<and> length historical = full
           \<and> ends_with historical (r_tail parsed)
           \<and> constant_time_eq (hash_bytes (rb_text_digest binding)) (hash_bytes (rm_text_digest material))
           \<and> rb_index_entry binding = content_entry blake content)
     then (reject s1, Err (binding_mismatch ''record''))
     else
       let s2 = evict_for_capacity (tick s1) in
       insert_import s2
         (detached_import_session key_id parsed sealed_count t (ss_clock s2)
            (if ss_recovery_tracking s2 then Some recovery else None)
            (if ss_content_tracking s2 then Some content else None))))))))"

definition import_session_with_binding_candidate ::
  "(u8 list \<Rightarrow> hash32) \<Rightarrow> (u8 list \<Rightarrow> hash16) \<Rightarrow> store \<Rightarrow> nat \<Rightarrow> u8 list \<Rightarrow> str \<Rightarrow> u8 list \<Rightarrow> encoder
     \<Rightarrow> store \<times> (nat \<times> nat) res" where
  "import_session_with_binding_candidate sha blake s key_id rec_bytes candidate binding_bytes engine =
     attempt s (binding_from_bytes sha binding_bytes) (\<lambda>binding.
     let prefix_len = ce_byte_length (rb_index_entry binding) in
     if prefix_len > length candidate then (s, Err (InvalidInput ''candidate is shorter than history''))
     else attempt s (ok_or (from_utf8 (take prefix_len candidate))
                      (InvalidInput ''historical byte length is not a UTF-8 boundary'')) (\<lambda>historical.
     andthen (import_session_with_binding sha blake s key_id rec_bytes historical binding_bytes engine)
       (\<lambda>s1 handle. (s1, Ok (handle, char_count historical)))))"

text \<open>The session restored from a record and its sidecar.\<close>

definition sidecar_session ::
  "nat \<Rightarrow> session_record \<Rightarrow> sidecar \<Rightarrow> nat \<Rightarrow> tail_state \<Rightarrow> nat \<Rightarrow> recovery_digest option \<Rightarrow> content_digest option
     \<Rightarrow> session" where
  "sidecar_session key_id parsed sc sealed_count t clock recovery content =
     (fresh key_id (r_witness parsed) clock)\<lparr>s_revision := r_revision parsed, s_prev_hash := r_prev parsed,
        s_record_hash := r_curr parsed, s_last_replace := sc_last_replace_from sc,
        s_total_chars := sc_total_chars sc, s_safe_char := sc_safe_char sc, s_safe_byte := sc_safe_byte sc,
        s_payload := update_ids payload_hasher_new (take sealed_count (r_ids parsed)),
        s_sealed := sealed_from_vec (take sealed_count (r_ids parsed)),
        s_blocks_end := sc_blocks_end sc, s_blocks_end_byte := sc_blocks_end_byte sc, s_buf := sc_buf sc,
        s_chain_tail := sc_chain_tail sc, s_base_safe := sc_chain_base_safe sc,
        s_base_idx := sc_chain_base_idx sc, s_chain_ok := sc_chain_ok sc, s_seal_log := sc_seal_log sc,
        s_scan_floor := sc_scan_floor sc, s_tail := t, s_recovery := recovery, s_content := content\<rparr>"

definition import_session_with_sidecar ::
  "(u8 list \<Rightarrow> hash32) \<Rightarrow> (u8 list \<Rightarrow> hash16) \<Rightarrow> store \<Rightarrow> nat \<Rightarrow> u8 list \<Rightarrow> u8 list \<Rightarrow> encoder
     \<Rightarrow> store \<times> nat res" where
  "import_session_with_sidecar sha blake s key_id rec_bytes sidecar_bytes engine =
     attempt s (key_of s key_id) (\<lambda>key.
     andthen (import_record_gates sha s key rec_bytes engine) (\<lambda>s1 (parsed, sealed_count, t).
     attempt (reject s1) (sidecar_from_bytes sha sidecar_bytes) (\<lambda>sc.
     if \<not> (sc_record_curr sc = r_curr parsed \<and> sc_sealed_count sc = sealed_count
           \<and> sc_safe_byte sc = r_stable parsed
           \<and> sc_total_chars sc = add64 (sc_safe_char sc) (tl_chars t)
           \<and> sc_chain_base_idx sc \<le> sealed_count)
     then (reject s1, Err (MalformedRecord ''session sidecar does not bind to the record''))
     else attempt s1 (bare_digests blake s1 parsed) (\<lambda>(recovery, content).
     let s2 = evict_for_capacity (tick s1) in
     insert_import s2
       (sidecar_session key_id parsed sc sealed_count t (ss_clock s2) recovery content)))))"

end
