(* ===== verification/Boundary.thy ===== *)
theory Boundary
  imports Engine Utf8
begin

unbundle bit_operations_syntax

text \<open>
  The frozen class table and the synchronizing-transition predicate of the certified tokenizer
  families (\<^verbatim>\<open>BpeSyncBoundary\<close> of the routing crate), with the two backward searches for the last
  certified cut of a token row: over whole span arrays, and over windows of spans fetched on demand.
\<close>

section \<open>Scalar values\<close>

text \<open>
  Rust's \<^verbatim>\<open>char\<close>: a character is kept as its UTF-8 bytes, the element of \<open>chars\<close>; its scalar value
  indexes the tables of the encoders.
\<close>

fun scalar_of :: "str \<Rightarrow> nat" where
  "scalar_of [a] = unat a"
| "scalar_of [a, b] = unat (a AND 0x1F) * 64 + unat (b AND 0x3F)"
| "scalar_of [a, b, c] = unat (a AND 0x0F) * 4096 + unat (b AND 0x3F) * 64 + unat (c AND 0x3F)"
| "scalar_of [a, b, c, d] =
     unat (a AND 0x07) * 262144 + unat (b AND 0x3F) * 4096 + unat (c AND 0x3F) * 64 + unat (d AND 0x3F)"
| "scalar_of _ = 0"

text \<open>The number of Unicode scalar-value slots, \<^verbatim>\<open>N_CODEPOINTS\<close>.\<close>

definition n_codepoints :: nat where
  "n_codepoints = 0x110000"

lemma unat_and_mask: "unat ((a :: u8) AND mask n) = unat a mod 2 ^ n"
  unfolding take_bit_eq_mask [symmetric] unsigned_take_bit_eq by (rule take_bit_eq_mod)

lemma unat_masks:
  "unat ((a :: u8) AND 0x07) = unat a mod 8" "unat (a AND 0x0F) = unat a mod 16"
  "unat (a AND 0x1F) = unat a mod 32" "unat (a AND 0x3F) = unat a mod 64"
  using unat_and_mask [of a 3] unat_and_mask [of a 4] unat_and_mask [of a 5] unat_and_mask [of a 6]
  by (simp_all add: mask_eq_exp_minus_1)

lemma unat_byte_less: "unat (a :: u8) < 256"
  by (rule order_less_le_trans [OF unsigned_less]) simp

lemma mod_above: "(m :: nat) \<le> n \<Longrightarrow> n < m + k \<Longrightarrow> k dvd m \<Longrightarrow> n mod k = n - m"
  by (auto simp: le_iff_add)

lemma scalar_bound: "valid_scalar c \<Longrightarrow> scalar_of c < n_codepoints"
proof (induction c rule: valid_scalar.induct)
  case (4 a b c d)
  have m: "unat b mod 64 < 64" "unat c mod 64 < 64" "unat d mod 64 < 64" by simp_all
  have a: "240 \<le> unat a" "unat a \<le> 244" and b: "128 \<le> unat b" "unat b < 192" and
    top: "unat a = 244 \<longrightarrow> unat b \<le> 143"
    using 4 by (auto simp: is_cont_unat word_le_nat_alt word_unat_eq_iff)
  have "unat a mod 8 = unat a - 240" "unat b mod 64 = unat b - 128" 
    using a b mod_above [of 240 "unat a" 8] mod_above [of 128 "unat b" 64] by simp_all
  then show ?case using a b top m unfolding scalar_of.simps unat_masks n_codepoints_def by linarith
next
  case (1 a)
  then show ?case using unat_byte_less [of a] by (simp add: n_codepoints_def)
next
  case (2 a b)
  have "unat a mod 32 < 32" "unat b mod 64 < 64" by simp_all
  then show ?case unfolding scalar_of.simps unat_masks n_codepoints_def by linarith
next
  case (3 a b c)
  have "unat a mod 16 < 16" "unat b mod 64 < 64" "unat c mod 64 < 64" by simp_all
  then show ?case unfolding scalar_of.simps unat_masks n_codepoints_def by linarith
qed simp_all

section \<open>The class table\<close>

record sync_boundary =
  sb_classes :: "u8 list"

definition sync_new :: "u8 list \<Rightarrow> (string, sync_boundary) outcome" where
  "sync_new classes =
     (if length classes \<noteq> n_codepoints
      then Err (''BPE property table has '' @ show_nat (length classes) @ '' rows, expected ''
             @ show_nat n_codepoints)
      else case filter (\<lambda>(index, value). 4 < value) (zip [0..<length classes] classes) of
             (index, value) # _ \<Rightarrow>
               Err (''BPE property table row '' @ show_nat index @ '' has unknown class ''
                 @ show_nat (unat value))
           | [] \<Rightarrow> Ok \<lparr>sb_classes = classes\<rparr>)"

text \<open>The table has a row for every scalar value, so the index is in range (\<open>sync_class_in_range\<close>).\<close>

definition sync_class :: "sync_boundary \<Rightarrow> str \<Rightarrow> u8" where
  "sync_class b c = sb_classes b ! scalar_of c"

text \<open>\<open>O = 0, S = 1, L = 2, N = 3, M = 4\<close>; the two carve-outs are a line break after \<open>O\<close> and an
  apostrophe after \<open>L\<close>.\<close>

definition sync_accepts :: "sync_boundary \<Rightarrow> str \<Rightarrow> str \<Rightarrow> bool" where
  "sync_accepts b previous current =
     (let pair = (sync_class b previous, sync_class b current);
          in_set = pair \<in> {(2, 3), (2, 0), (2, 1), (3, 2), (3, 0), (3, 1), (0, 3), (0, 1)} in
      in_set
        \<and> \<not> (pair = (0, 1) \<and> (current = [0x0D] \<or> current = [0x0A]))
        \<and> \<not> (pair = (2, 0) \<and> current = [0x27]))"

section \<open>Reverse character lookup\<close>

text \<open>The reversed iterator is the list of the characters still to come.\<close>

record rev_cursor =
  rc_iter :: "str list"
  rc_next :: nat
  rc_cached :: "(nat \<times> str) option"

definition rev_cursor_new :: "str \<Rightarrow> nat \<Rightarrow> rev_cursor" where
  "rev_cursor_new text text_chars =
     \<lparr>rc_iter = rev (chars text), rc_next = text_chars, rc_cached = None\<rparr>"

text \<open>\<^verbatim>\<open>while self.next_index > target\<close>: false when the iterator ends first.\<close>

fun rev_walk :: "nat \<Rightarrow> str list \<Rightarrow> nat \<Rightarrow> (nat \<times> str) option \<Rightarrow> rev_cursor \<times> bool" where
  "rev_walk target [] next_index cached =
     (\<lparr>rc_iter = [], rc_next = next_index, rc_cached = cached\<rparr>, next_index \<le> target)"
| "rev_walk target (value # iter) next_index cached =
     (if target < next_index then rev_walk target iter (next_index - 1) (Some (next_index - 1, value))
      else (\<lparr>rc_iter = value # iter, rc_next = next_index, rc_cached = cached\<rparr>, True))"

definition rev_walked :: "rev_cursor \<Rightarrow> nat \<Rightarrow> rev_cursor \<times> str option" where
  "rev_walked c target =
     (case rev_walk target (rc_iter c) (rc_next c) (rc_cached c) of
        (c', False) \<Rightarrow> (c', None)
      | (c', True) \<Rightarrow>
          (c', case rc_cached c' of
                 Some (index, value) \<Rightarrow> if index = target then Some value else None
               | None \<Rightarrow> None))"

definition rev_char_at :: "rev_cursor \<Rightarrow> nat \<Rightarrow> rev_cursor \<times> str option" where
  "rev_char_at c target =
     (case rc_cached c of
        Some (index, value) \<Rightarrow>
          if index = target then (c, Some value)
          else if target > index then (c, None)
          else rev_walked c target
      | None \<Rightarrow> rev_walked c target)"

section \<open>The search over whole arrays\<close>

text \<open>\<^verbatim>\<open>windows(2).any(|pair| pair[0] > pair[1])\<close>\<close>

fun any_descent :: "nat list \<Rightarrow> bool" where
  "any_descent (a # b # xs) = (a > b \<or> any_descent (b # xs))"
| "any_descent _ = False"

text \<open>\<^verbatim>\<open>while group_start > 0 && span_starts[group_start - 1] == boundary_start\<close>\<close>

fun group_start :: "nat list \<Rightarrow> nat \<Rightarrow> nat \<Rightarrow> nat" where
  "group_start starts v 0 = 0"
| "group_start starts v (Suc g) = (if starts ! g = v then group_start starts v g else Suc g)"

lemma group_start_le: "group_start starts v g \<le> g"
  by (induction g) auto

text \<open>
  The loop on \<^verbatim>\<open>right_index\<close>. Both arrays have the checked common length, and every index stays
  below it.
\<close>

function boundary_search ::
  "sync_boundary \<Rightarrow> nat \<Rightarrow> nat list \<Rightarrow> nat list \<Rightarrow> nat \<Rightarrow> nat \<Rightarrow> nat \<Rightarrow> rev_cursor \<Rightarrow> boundary_cut option"
where
  "boundary_search b text_chars starts ends floor_char ceiling right cursor =
     (if right = 0 then None
      else
        let boundary = starts ! right;
            g = group_start starts boundary right;
            continue = (\<lambda>c. if g = 0 then None
              else boundary_search b text_chars starts ends floor_char ceiling (g - 1) c) in
        if boundary \<le> floor_char then None
        else if boundary \<le> ceiling \<and> 0 < boundary \<and> boundary < text_chars \<and> 0 < g
                \<and> ends ! (g - 1) \<le> boundary
        then case rev_char_at cursor boundary of
               (c1, None) \<Rightarrow> None
             | (c1, Some current) \<Rightarrow>
                 (case rev_char_at c1 (boundary - 1) of
                    (c2, None) \<Rightarrow> None
                  | (c2, Some previous) \<Rightarrow>
                      if sync_accepts b previous current
                      then Some \<lparr>cut_tokens = g, cut_char = boundary\<rparr>
                      else continue c2)
        else continue cursor)"
  by pat_completeness auto
termination
  by (relation "measure (\<lambda>(b, n, starts, ends, f, c, right, cursor). right)")
    (use group_start_le in \<open>auto intro!: diff_less_mono2 order_less_le_trans [OF diff_less]\<close>)

declare boundary_search.simps [simp del]

definition sync_last_boundary ::
  "sync_boundary \<Rightarrow> str \<Rightarrow> nat \<Rightarrow> nat list \<Rightarrow> nat list \<Rightarrow> nat \<Rightarrow> nat \<Rightarrow> boundary_cut option"
where
  "sync_last_boundary b text text_chars starts ends floor_char ceil_char =
     (if length starts \<noteq> length ends \<or> length starts < 2 then None
      else if any_descent starts then None
      else boundary_search b text_chars starts ends floor_char (min ceil_char text_chars)
             (length starts - 1) (rev_cursor_new text text_chars))"

section \<open>Spans fetched in windows\<close>

text \<open>
  The fetched regions, the newest first (the code pushes them at the end and reads them backward).
  \<open>fetch\<close> is the caller's closure.
\<close>

record windowed_spans =
  ws_window :: nat
  ws_chunks :: "(nat \<times> nat list \<times> nat list) list"
  ws_covered :: nat
  ws_monotone :: bool

definition windowed_new :: "nat \<Rightarrow> nat \<Rightarrow> windowed_spans" where
  "windowed_new window n_tokens =
     \<lparr>ws_window = max window 1, ws_chunks = [], ws_covered = n_tokens, ws_monotone = True\<rparr>"

definition seam_descends :: "nat list \<Rightarrow> (nat \<times> nat list \<times> nat list) list \<Rightarrow> bool" where
  "seam_descends starts chunks =
     (starts \<noteq> [] \<and>
       (case chunks of (_, first # _, _) # _ \<Rightarrow> last starts > first | _ \<Rightarrow> False))"

definition ws_push :: "windowed_spans \<Rightarrow> nat \<Rightarrow> nat list \<Rightarrow> nat list \<Rightarrow> windowed_spans" where
  "ws_push ws lo starts ends = ws\<lparr>
     ws_chunks := (lo, starts, ends) # ws_chunks ws,
     ws_covered := lo,
     ws_monotone := ws_monotone ws \<and> \<not> any_descent starts \<and> \<not> seam_descends starts (ws_chunks ws)\<rparr>"

type_synonym 'e span_fetch = "nat \<Rightarrow> nat \<Rightarrow> ('e, nat list \<times> nat list) outcome"

lemma rbind_cong [fundef_cong]:
  "r = r' \<Longrightarrow> (\<And>x. r' = Ok x \<Longrightarrow> f x = f' x) \<Longrightarrow> rbind r f = rbind r' f'"
  by (cases r') simp_all

text \<open>\<^verbatim>\<open>while self.covered_lo > index\<close>\<close>

function spans_ensure :: "'e span_fetch \<Rightarrow> windowed_spans \<Rightarrow> nat \<Rightarrow> ('e, windowed_spans \<times> bool) outcome" where
  "spans_ensure fetch ws index =
     (if ws_covered ws > index
      then
        let hi = ws_covered ws; lo = (hi - 1) - (hi - 1) mod ws_window ws in
        rbind (fetch lo hi) (\<lambda>(starts, ends).
          spans_ensure fetch (ws_push ws lo starts ends) index)
      else Ok (ws, ws_monotone ws))"
  by pat_completeness auto
termination
  by (relation "measure (\<lambda>(fetch, ws, index). ws_covered ws)") (auto simp: ws_push_def)

declare spans_ensure.simps [simp del]

text \<open>\<open>unreachable!\<close> is a panic, and so is an end array shorter than its start array.\<close>

fun spans_bounds :: "(nat \<times> nat list \<times> nat list) list \<Rightarrow> nat \<Rightarrow> ('e, nat \<times> nat) outcome" where
  "spans_bounds [] index = Panic"
| "spans_bounds ((lo, starts, ends) # chunks) index =
     (if lo \<le> index \<and> index - lo < length starts
      then rbind (vec_get ends (index - lo)) (\<lambda>e. Ok (starts ! (index - lo), e))
      else spans_bounds chunks index)"

text \<open>
  The inner loop on \<^verbatim>\<open>group_start\<close>; \<open>None\<close> is the return from the search when a fetched window
  descends.
\<close>

fun windowed_group ::
  "'e span_fetch \<Rightarrow> windowed_spans \<Rightarrow> nat \<Rightarrow> nat \<Rightarrow> ('e, (windowed_spans \<times> nat) option) outcome"
where
  "windowed_group fetch ws v 0 = Ok (Some (ws, 0))"
| "windowed_group fetch ws v (Suc g) =
     rbind (spans_ensure fetch ws g) (\<lambda>(ws1, monotone).
       if \<not> monotone then Ok None
       else rbind (spans_bounds (ws_chunks ws1) g) (\<lambda>(s, _).
         if s \<noteq> v then Ok (Some (ws1, Suc g)) else windowed_group fetch ws1 v g))"

lemma windowed_group_le: "windowed_group fetch ws v g = Ok (Some (ws', h)) \<Longrightarrow> h \<le> g"
proof (induction g arbitrary: ws)
  case 0
  then show ?case by simp
next
  case (Suc g)
  then show ?case by (fastforce simp: rbind_eq_Ok split: if_splits)
qed

function windowed_search ::
  "sync_boundary \<Rightarrow> nat \<Rightarrow> 'e span_fetch \<Rightarrow> nat \<Rightarrow> nat \<Rightarrow> nat \<Rightarrow> windowed_spans \<Rightarrow> rev_cursor
     \<Rightarrow> ('e, boundary_cut option) outcome"
where
  "windowed_search b text_chars fetch floor_char ceiling right ws cursor =
     (if right = 0 then Ok None
      else
        rbind (spans_ensure fetch ws right) (\<lambda>(ws1, monotone).
        if \<not> monotone then Ok None
        else
        rbind (spans_bounds (ws_chunks ws1) right) (\<lambda>(boundary, _).
        rbind (windowed_group fetch ws1 boundary right) (\<lambda>found.
        case found of None \<Rightarrow> Ok None
        | Some (ws2, g) \<Rightarrow>
          if boundary \<le> floor_char then Ok None
          else
            rbind (if boundary \<le> ceiling \<and> 0 < boundary \<and> boundary < text_chars \<and> 0 < g
                   then rbind (spans_bounds (ws_chunks ws2) (g - 1)) (\<lambda>(_, e). Ok (e \<le> boundary))
                   else Ok False) (\<lambda>clean.
            if clean
            then (case rev_char_at cursor boundary of
                   (c1, None) \<Rightarrow> Ok None
                 | (c1, Some current) \<Rightarrow>
                     (case rev_char_at c1 (boundary - 1) of
                        (c2, None) \<Rightarrow> Ok None
                      | (c2, Some previous) \<Rightarrow>
                          if sync_accepts b previous current
                          then Ok (Some \<lparr>cut_tokens = g, cut_char = boundary\<rparr>)
                          else if g = 0 then Ok None
                          else windowed_search b text_chars fetch floor_char ceiling (g - 1) ws2 c2))
            else if g = 0 then Ok None
            else windowed_search b text_chars fetch floor_char ceiling (g - 1) ws2 cursor)))))"
  by pat_completeness auto
termination
  by (relation "measure (\<lambda>(b, n, fetch, f, c, right, ws, cursor). right)")
    (use windowed_group_le in \<open>fastforce+\<close>)

declare windowed_search.simps [simp del]

definition last_boundary_windowed ::
  "sync_boundary \<Rightarrow> str \<Rightarrow> nat \<Rightarrow> nat \<Rightarrow> nat \<Rightarrow> nat \<Rightarrow> nat \<Rightarrow> 'e span_fetch
     \<Rightarrow> ('e, boundary_cut option) outcome"
where
  "last_boundary_windowed b text text_chars n_tokens floor_char ceil_char window_tokens fetch =
     (if n_tokens < 2 then Ok None
      else windowed_search b text_chars fetch floor_char (min ceil_char text_chars) (n_tokens - 1)
             (windowed_new window_tokens n_tokens) (rev_cursor_new text text_chars))"

end
