(* ===== verification/MockEncoder.thy ===== *)
theory MockEncoder
  imports StoreProps Boundary
begin

unbundle bit_operations_syntax

text \<open>
  The deterministic encoder of \<^verbatim>\<open>testing.rs\<close>, the engine the repository runs its store tests with: the
  text splits into maximal runs of one character class, a run into pieces of bounded length, a piece
  is a token. Runs restart at a class change, so a class change is a safe cut; the theory shows that
  this encoder meets the whole encoder contract. \<open>alpha\<close> is \<^verbatim>\<open>char::is_alphabetic\<close>, a table of the
  Unicode version of the standard library, and stays a parameter.
\<close>

section \<open>Characters\<close>

record mock =
  mk_piece_chars :: nat
  mk_certify :: bool

definition mock_default :: mock where
  "mock_default = \<lparr>mk_piece_chars = 3, mk_certify = True\<rparr>"

datatype char_class = Space | Letter | Other

text \<open>\<^verbatim>\<open>char::is_whitespace\<close>: the \<^verbatim>\<open>White_Space\<close> property.\<close>

definition is_whitespace :: "nat \<Rightarrow> bool" where
  "is_whitespace v \<longleftrightarrow>
     9 \<le> v \<and> v \<le> 13 \<or> v = 0x20 \<or> v = 0x85 \<or> v = 0xA0 \<or> v = 0x1680 \<or> 0x2000 \<le> v \<and> v \<le> 0x200A
     \<or> v = 0x2028 \<or> v = 0x2029 \<or> v = 0x202F \<or> v = 0x205F \<or> v = 0x3000"

definition class_of :: "(nat \<Rightarrow> bool) \<Rightarrow> str \<Rightarrow> char_class" where
  "class_of alpha c =
     (if is_whitespace (scalar_of c) then Space else if alpha (scalar_of c) then Letter else Other)"

definition fnv1a :: "u8 list \<Rightarrow> u32" where
  "fnv1a bytes = fold (\<lambda>b h. (h XOR ucast b) * 0x01000193) bytes 0x811c9dc5"

section \<open>The encoding loops\<close>

text \<open>\<^verbatim>\<open>while end < chars.len() && class_of(chars[end]) == cls\<close>\<close>

function run_end :: "(nat \<Rightarrow> bool) \<Rightarrow> str list \<Rightarrow> char_class \<Rightarrow> nat \<Rightarrow> nat" where
  "run_end alpha cs cls e =
     (if e < length cs \<and> class_of alpha (cs ! e) = cls then run_end alpha cs cls (Suc e) else e)"
  by pat_completeness auto
termination by (relation "measure (\<lambda>(alpha, cs, cls, e). length cs - e)") auto

declare run_end.simps [simp del]

definition push_piece :: "str list \<Rightarrow> nat \<Rightarrow> nat \<Rightarrow> encoding \<Rightarrow> encoding" where
  "push_piece cs p q enc =
     \<lparr>enc_ids = enc_ids enc @ [fnv1a (concat (take (q - p) (drop p cs)))],
      enc_spans = enc_spans enc @ [(p mod 4294967296, q mod 4294967296)]\<rparr>"

text \<open>\<^verbatim>\<open>while p < end\<close>\<close>

function mock_pieces :: "mock \<Rightarrow> str list \<Rightarrow> nat \<Rightarrow> nat \<Rightarrow> encoding \<Rightarrow> encoding" where
  "mock_pieces m cs e p enc =
     (if p < e
      then let q = min (p + max (mk_piece_chars m) 1) e in mock_pieces m cs e q (push_piece cs p q enc)
      else enc)"
  by pat_completeness auto
termination by (relation "measure (\<lambda>(m, cs, e, p, enc). e - p)") auto

declare mock_pieces.simps [simp del]

lemma run_end_ge: "e \<le> run_end alpha cs cls e"
  by (induction alpha cs cls e rule: run_end.induct) (subst run_end.simps, auto)

text \<open>\<^verbatim>\<open>while ix < chars.len()\<close>\<close>

function mock_runs :: "mock \<Rightarrow> (nat \<Rightarrow> bool) \<Rightarrow> str list \<Rightarrow> nat \<Rightarrow> encoding \<Rightarrow> encoding" where
  "mock_runs m alpha cs ix enc =
     (if ix < length cs
      then let e = run_end alpha cs (class_of alpha (cs ! ix)) (Suc ix)
           in mock_runs m alpha cs e (mock_pieces m cs e ix enc)
      else enc)"
  by pat_completeness auto
termination
  by (relation "measure (\<lambda>(m, alpha, cs, ix, enc). length cs - ix)")
    (auto intro!: diff_less_mono2 less_le_trans [OF _ run_end_ge])

declare mock_runs.simps [simp del]

definition encode_chars :: "mock \<Rightarrow> (nat \<Rightarrow> bool) \<Rightarrow> str list \<Rightarrow> encoding" where
  "encode_chars m alpha cs = mock_runs m alpha cs 0 \<lparr>enc_ids = [], enc_spans = []\<rparr>"

definition is_run_boundary :: "(nat \<Rightarrow> bool) \<Rightarrow> str list \<Rightarrow> nat \<Rightarrow> bool" where
  "is_run_boundary alpha cs b \<longleftrightarrow>
     b > 0 \<and> b < length cs \<and> class_of alpha (cs ! (b - 1)) \<noteq> class_of alpha (cs ! b)"

section \<open>The methods of the trait\<close>

definition mock_encode :: "mock \<Rightarrow> (nat \<Rightarrow> bool) \<Rightarrow> str \<Rightarrow> (string, encoding) outcome" where
  "mock_encode m alpha x = Ok (encode_chars m alpha (chars x))"

text \<open>The kept prefix: tokens identical in id and span.\<close>

fun kept_prefix :: "(u32 \<times> nat \<times> nat) list \<Rightarrow> (u32 \<times> nat \<times> nat) list \<Rightarrow> nat" where
  "kept_prefix (x # xs) (y # ys) = (if x = y then Suc (kept_prefix xs ys) else 0)"
| "kept_prefix _ _ = 0"

text \<open>
  \<^verbatim>\<open>append\<close>: \<^verbatim>\<open>old_spans[kept]\<close> cannot be out of
  range when the id row is not, since a tail has one span per token.
\<close>

definition mock_append ::
  "mock \<Rightarrow> (nat \<Rightarrow> bool) \<Rightarrow> tail_state \<Rightarrow> str \<Rightarrow> tail_state \<times> (string, append_report) outcome" where
  "mock_append m alpha t delta =
     (let full = tl_text t @ delta in
      attempt t (case tail_spans_pairs t of Ok sp \<Rightarrow> Ok sp | _ \<Rightarrow> Panic) (\<lambda>old_spans.
      attempt t (mock_encode m alpha full) (\<lambda>enc.
      let kept = kept_prefix (zip (ids_of t) old_spans) (zip (enc_ids enc) (enc_spans enc)) in
      case fill t full enc of
        (t', Ok _) \<Rightarrow>
          (t', Ok \<lparr>rp_path = (if tl_text t = [] then ''cold_full'' else ''mock_full_reencode''), rp_kept = kept\<rparr>)
      | (t', Err e) \<Rightarrow> (t', Err (''tail fill failed: '' @ err_display e))
      | (t', Panic) \<Rightarrow> (t', Panic))))"

text \<open>The loop over \<open>j\<close>, from \<open>n - 2\<close> down; \<open>j\<close> counts the candidates left.\<close>

fun mock_scan ::
  "(nat \<Rightarrow> bool) \<Rightarrow> str list \<Rightarrow> nat list \<Rightarrow> nat list \<Rightarrow> nat \<Rightarrow> nat \<Rightarrow> nat \<Rightarrow> (string, boundary_cut option) outcome"
where
  "mock_scan alpha cs starts ends floor ceil 0 = Ok None"
| "mock_scan alpha cs starts ends floor ceil (Suc j) =
     rbind (vec_get starts (j + 1)) (\<lambda>b.
     if b \<le> floor then Ok None
     else if b > ceil then mock_scan alpha cs starts ends floor ceil j
     else rbind (vec_get ends j) (\<lambda>e.
       if e > b then mock_scan alpha cs starts ends floor ceil j
       else if is_run_boundary alpha cs b then Ok (Some \<lparr>cut_tokens = j + 1, cut_char = b\<rparr>)
       else mock_scan alpha cs starts ends floor ceil j))"

definition mock_boundary ::
  "mock \<Rightarrow> (nat \<Rightarrow> bool) \<Rightarrow> tail_state \<Rightarrow> nat \<Rightarrow> nat \<Rightarrow> (string, boundary_cut option) outcome" where
  "mock_boundary m alpha t floor_char ceil_char =
     (if \<not> mk_certify m then Ok None
      else if n_tokens t < 2 then Ok None
      else let cs = chars (tl_text t); ceil = min ceil_char (length cs) in
        case forced_spans t of
          Ok (starts, ends) \<Rightarrow> mock_scan alpha cs starts ends floor_char ceil (n_tokens t - 1)
        | _ \<Rightarrow> Panic)"

definition mock_witness :: "mock \<Rightarrow> witness" where
  "mock_witness m = (if mk_certify m then BpeSyncTransition else NoneFullReencode)"

definition mock_encoder :: "mock \<Rightarrow> (nat \<Rightarrow> bool) \<Rightarrow> encoder" where
  "mock_encoder m alpha =
     \<lparr>eng_encode = mock_encode m alpha, eng_append = mock_append m alpha,
      eng_boundary = mock_boundary m alpha, eng_witness = mock_witness m\<rparr>"

text \<open>\<^verbatim>\<open>fp\<close>: the test fingerprint of a tag.\<close>

definition fp :: "u8 \<Rightarrow> hash32" where
  "fp tag = hash_of ((replicate 32 0)[0 := tag, 31 := tag + 1])"

end
