(* ===== verification/MockProps.thy ===== *)
theory MockProps
  imports MockEncoder
begin

text \<open>
  The deterministic encoder meets the encoder contract: a text encodes to the encodings of its two
  sides at every class change, its appends are full encodings, and the cuts its boundary search
  reports are class changes at token starts.
\<close>

section \<open>Runs and pieces as bounds\<close>

text \<open>The pieces as index ranges, which the loops push one by one.\<close>

function piece_bounds :: "mock \<Rightarrow> nat \<Rightarrow> nat \<Rightarrow> (nat \<times> nat) list" where
  "piece_bounds m e p =
     (if p < e then (p, min (p + max (mk_piece_chars m) 1) e) # piece_bounds m e (min (p + max (mk_piece_chars m) 1) e)
      else [])"
  by pat_completeness auto
termination by (relation "measure (\<lambda>(m, e, p). e - p)") auto

declare piece_bounds.simps [simp del]

function run_bounds :: "mock \<Rightarrow> (nat \<Rightarrow> bool) \<Rightarrow> str list \<Rightarrow> nat \<Rightarrow> (nat \<times> nat) list" where
  "run_bounds m alpha cs ix =
     (if ix < length cs
      then piece_bounds m (run_end alpha cs (class_of alpha (cs ! ix)) (Suc ix)) ix
        @ run_bounds m alpha cs (run_end alpha cs (class_of alpha (cs ! ix)) (Suc ix))
      else [])"
  by pat_completeness auto
termination
  by (relation "measure (\<lambda>(m, alpha, cs, ix). length cs - ix)")
    (auto intro!: diff_less_mono2 less_le_trans [OF _ run_end_ge])

declare run_bounds.simps [simp del]

definition piece_id :: "str list \<Rightarrow> nat \<times> nat \<Rightarrow> u32" where
  "piece_id cs b = fnv1a (concat (take (snd b - fst b) (drop (fst b) cs)))"

definition span32 :: "nat \<times> nat \<Rightarrow> nat \<times> nat" where
  "span32 b = (fst b mod 4294967296, snd b mod 4294967296)"

lemma mock_pieces_eq:
  "mock_pieces m cs e p enc =
     \<lparr>enc_ids = enc_ids enc @ map (piece_id cs) (piece_bounds m e p),
      enc_spans = enc_spans enc @ map span32 (piece_bounds m e p)\<rparr>"
proof (induction m cs e p enc rule: mock_pieces.induct)
  case (1 m cs e p enc)
  show ?case
  proof (cases "p < e")
    case True
    then show ?thesis
      using "1.IH" [OF True refl]
      by (simp add: mock_pieces.simps [of m cs e p enc] piece_bounds.simps [of m e p] push_piece_def piece_id_def
          span32_def Let_def)
  next
    case False
    then show ?thesis by (simp add: mock_pieces.simps [of m cs e p enc] piece_bounds.simps [of m e p])
  qed
qed

lemma mock_runs_eq:
  "mock_runs m alpha cs ix enc =
     \<lparr>enc_ids = enc_ids enc @ map (piece_id cs) (run_bounds m alpha cs ix),
      enc_spans = enc_spans enc @ map span32 (run_bounds m alpha cs ix)\<rparr>"
proof (induction m alpha cs ix enc rule: mock_runs.induct)
  case (1 m alpha cs ix enc)
  show ?case
  proof (cases "ix < length cs")
    case True
    then show ?thesis
      using "1.IH" [OF True refl]
      by (simp add: mock_runs.simps [of m alpha cs ix enc] run_bounds.simps [of m alpha cs ix] mock_pieces_eq Let_def)
  next
    case False
    then show ?thesis by (simp add: mock_runs.simps [of m alpha cs ix enc] run_bounds.simps [of m alpha cs ix])
  qed
qed

lemma encode_chars_eq:
  "encode_chars m alpha cs =
     \<lparr>enc_ids = map (piece_id cs) (run_bounds m alpha cs 0), enc_spans = map span32 (run_bounds m alpha cs 0)\<rparr>"
  by (simp add: encode_chars_def mock_runs_eq)

section \<open>The bounds tile the text\<close>

text \<open>Consecutive nonempty ranges from \<open>p\<close> to \<open>e\<close>.\<close>

fun tiles :: "nat \<Rightarrow> nat \<Rightarrow> (nat \<times> nat) list \<Rightarrow> bool" where
  "tiles p e [] \<longleftrightarrow> p = e"
| "tiles p e (b # bs) \<longleftrightarrow> fst b = p \<and> p < snd b \<and> tiles (snd b) e bs"

lemma tiles_append: "tiles p k xs \<Longrightarrow> tiles k e ys \<Longrightarrow> tiles p e (xs @ ys)"
  by (induction xs arbitrary: p) auto

lemma tiles_le: "tiles p e bs \<Longrightarrow> p \<le> e"
  by (induction bs arbitrary: p) fastforce+

lemma tiles_bounds: "tiles p e bs \<Longrightarrow> b \<in> set bs \<Longrightarrow> p \<le> fst b \<and> fst b < snd b \<and> snd b \<le> e"
  by (induction bs arbitrary: p) (auto dest: tiles_le, force+)

lemma tiles_sorted: "tiles p e bs \<Longrightarrow> sorted_wrt (<) (map fst bs)"
proof (induction bs arbitrary: p)
  case Nil
  then show ?case by simp
next
  case (Cons b bs)
  then show ?case using tiles_bounds [of "snd b" e bs] by fastforce
qed

lemma piece_bounds_tiles: "p \<le> e \<Longrightarrow> tiles p e (piece_bounds m e p)"
  by (induction m e p rule: piece_bounds.induct) (subst piece_bounds.simps, auto)

lemma run_end_le: "e \<le> length cs \<Longrightarrow> run_end alpha cs cls e \<le> length cs"
  by (induction alpha cs cls e rule: run_end.induct) (subst run_end.simps, auto)

lemma run_bounds_tiles: "ix \<le> length cs \<Longrightarrow> tiles ix (length cs) (run_bounds m alpha cs ix)"
proof (induction m alpha cs ix rule: run_bounds.induct)
  case (1 m alpha cs ix)
  show ?case
  proof (cases "ix < length cs")
    case True
    let ?e = "run_end alpha cs (class_of alpha (cs ! ix)) (Suc ix)"
    have e: "ix \<le> ?e" "?e \<le> length cs" using run_end_ge [of "Suc ix"] run_end_le [of "Suc ix" cs] True
      by (auto intro: Suc_leD)
    show ?thesis
      using True tiles_append [OF piece_bounds_tiles [OF e(1)] "1.IH" [OF True e(2)]]
      by (simp add: run_bounds.simps [of m alpha cs ix])
  next
    case False
    then show ?thesis using "1.prems" by (simp add: run_bounds.simps [of m alpha cs "length cs"])
  qed
qed

section \<open>Class changes split the encoding\<close>

abbreviation shift_by :: "nat \<Rightarrow> nat \<times> nat \<Rightarrow> nat \<times> nat" where
  "shift_by k b \<equiv> (k + fst b, k + snd b)"

lemma piece_bounds_shift: "piece_bounds m (k + e) (k + p) = map (shift_by k) (piece_bounds m e p)"
proof (induction m e p rule: piece_bounds.induct)
  case (1 m e p)
  have q: "min (k + p + max (mk_piece_chars m) 1) (k + e) = k + min (p + max (mk_piece_chars m) 1) e" by simp
  show ?case
    using "1.IH"
    by (cases "p < e") (simp_all only: piece_bounds.simps [of m "k + e" "k + p"] piece_bounds.simps [of m e p] q
        list.map fst_conv snd_conv nat_add_left_cancel_less if_True if_False)
qed

lemma run_end_drop:
  "k \<le> length cs \<Longrightarrow> run_end alpha cs cls (k + e) = k + run_end alpha (drop k cs) cls e"
proof (induction alpha "drop k cs" cls e rule: run_end.induct)
  case (1 alpha cls e)
  have c: "k + e < length cs \<longleftrightarrow> e < length (drop k cs)" using "1.prems" by auto
  show ?case
    using "1.hyps" "1.prems" c
    by (subst run_end.simps [of alpha cs], subst run_end.simps [of alpha "drop k cs"]) auto
qed

lemma run_bounds_drop:
  "k \<le> length cs \<Longrightarrow> run_bounds m alpha cs (k + ix) = map (shift_by k) (run_bounds m alpha (drop k cs) ix)"
proof (induction m alpha "drop k cs" ix rule: run_bounds.induct)
  case (1 m alpha ix)
  let ?e = "run_end alpha (drop k cs) (class_of alpha (drop k cs ! ix)) (Suc ix)"
  show ?case
  proof (cases "ix < length (drop k cs)")
    case True
    then have lt: "k + ix < length cs" by simp
    have nth: "cs ! (k + ix) = drop k cs ! ix" using "1.prems" by simp
    have e: "run_end alpha cs (class_of alpha (cs ! (k + ix))) (Suc (k + ix)) = k + ?e"
      using run_end_drop [OF "1.prems", of alpha _ "Suc ix"] by (simp only: nth add_Suc_right)
    show ?thesis
      using True lt "1.hyps" [OF True "1.prems"]
      by (simp only: run_bounds.simps [of m alpha cs "k + ix"] run_bounds.simps [of m alpha "drop k cs" ix] e
          piece_bounds_shift map_append if_True)
  next
    case False
    then have "\<not> k + ix < length cs" by simp
    with False show ?thesis
      by (simp only: run_bounds.simps [of m alpha cs "k + ix"] run_bounds.simps [of m alpha "drop k cs" ix]
          if_False list.map)
  qed
qed

text \<open>A run that starts before a class change ends there at the latest.\<close>

lemma run_end_take:
  assumes "is_run_boundary alpha cs b" "0 < e" "e \<le> b" "class_of alpha (cs ! (e - 1)) = cls"
  shows "run_end alpha (take b cs) cls e = run_end alpha cs cls e \<and> run_end alpha cs cls e \<le> b"
  using assms
proof (induction alpha cs cls e rule: run_end.induct)
  case (1 alpha cs cls e)
  have b: "b < length cs" using "1.prems"(1) by (simp add: is_run_boundary_def)
  show ?case
  proof (cases "e = b")
    case True
    have "class_of alpha (cs ! b) \<noteq> cls" using "1.prems"(1,4) True unfolding is_run_boundary_def by blast
    then show ?thesis
      using True b by (simp add: run_end.simps [of alpha "take b cs" cls b] run_end.simps [of alpha cs cls b])
  next
    case False
    then have lt: "e < b" using "1.prems" by simp
    show ?thesis
    proof (cases "class_of alpha (cs ! e) = cls")
      case True
      have "e < length cs \<and> class_of alpha (cs ! e) = cls" using lt b True by simp
      from "1.IH" [OF this "1.prems"(1)] lt True show ?thesis
        using b by (simp add: run_end.simps [of alpha "take b cs" cls e] run_end.simps [of alpha cs cls e])
    next
      case other: False
      then show ?thesis
        using lt b by (simp add: run_end.simps [of alpha "take b cs" cls e] run_end.simps [of alpha cs cls e])
    qed
  qed
qed

lemma run_bounds_split:
  assumes "is_run_boundary alpha cs b" "ix \<le> b"
  shows "run_bounds m alpha cs ix = run_bounds m alpha (take b cs) ix @ run_bounds m alpha cs b"
  using assms
proof (induction m alpha cs ix rule: run_bounds.induct)
  case (1 m alpha cs ix)
  have b: "b < length cs" using "1.prems"(1) by (simp add: is_run_boundary_def)
  show ?case
  proof (cases "ix = b")
    case True
    then show ?thesis by (simp add: run_bounds.simps [of m alpha "take b cs" b])
  next
    case False
    then have lt: "ix < b" "ix < length cs" using "1.prems" b by simp_all
    let ?cls = "class_of alpha (cs ! ix)"
    have e: "run_end alpha (take b cs) ?cls (Suc ix) = run_end alpha cs ?cls (Suc ix)"
      "run_end alpha cs ?cls (Suc ix) \<le> b"
      using run_end_take [OF "1.prems"(1), of "Suc ix" ?cls] lt by simp_all
    show ?thesis
      using "1.IH" [OF lt(2) "1.prems"(1) e(2)] lt e(1) b
      by (simp add: run_bounds.simps [of m alpha cs ix] run_bounds.simps [of m alpha "take b cs" ix])
  qed
qed

lemma piece_id_take: "snd x \<le> b \<Longrightarrow> piece_id (take b cs) x = piece_id cs x"
  by (simp add: piece_id_def drop_take min_def)

lemma piece_id_drop: "piece_id (drop k cs) x = piece_id cs (shift_by k x)"
  by (simp add: piece_id_def add.commute)

text \<open>The pieces left and right of a class change.\<close>

lemma boundary_bounds:
  fixes m :: mock
  assumes "is_run_boundary alpha cs b"
  defines "left \<equiv> run_bounds m alpha (take b cs) 0" and "right \<equiv> run_bounds m alpha (drop b cs) 0"
  shows "run_bounds m alpha cs 0 = left @ map (shift_by b) right"
    and "tiles 0 b left" and "tiles 0 (length cs - b) right" and "right \<noteq> []"
proof -
  have b: "b < length cs" using assms(1) by (simp add: is_run_boundary_def)
  show "run_bounds m alpha cs 0 = left @ map (shift_by b) right"
    using run_bounds_split [OF assms(1), of 0 m] run_bounds_drop [of b cs m alpha 0] b by (simp add: left_def right_def)
  show "tiles 0 b left" using run_bounds_tiles [of 0 "take b cs" m alpha] b by (simp add: left_def)
  show r: "tiles 0 (length cs - b) right" using run_bounds_tiles [of 0 "drop b cs" m alpha] by (simp add: right_def)
  then show "right \<noteq> []" using b by auto
qed

lemma encode_split:
  assumes "is_run_boundary alpha cs b"
  shows "enc_ids (encode_chars m alpha cs)
    = enc_ids (encode_chars m alpha (take b cs)) @ enc_ids (encode_chars m alpha (drop b cs))"
proof -
  note bb = boundary_bounds [OF assms, of m]
  have "map (piece_id (take b cs)) (run_bounds m alpha (take b cs) 0)
      = map (piece_id cs) (run_bounds m alpha (take b cs) 0)"
    using tiles_bounds [OF bb(2)] by (auto intro!: piece_id_take)
  then show ?thesis by (simp add: encode_chars_eq bb(1) piece_id_drop)
qed

lemma run_boundary_append: "is_run_boundary alpha cs b \<Longrightarrow> is_run_boundary alpha (cs @ ds) b"
  by (auto simp: is_run_boundary_def nth_append)

section \<open>The boundary search\<close>

lemma mock_scan_Some:
  assumes "mock_scan alpha cs starts ends floor ceil j = Ok (Some c)"
  shows "0 < cut_tokens c \<and> cut_tokens c < length starts \<and> cut_char c = starts ! cut_tokens c
    \<and> is_run_boundary alpha cs (cut_char c)"
  using assms
  by (induction j) (auto simp: rbind_eq_Ok split: if_splits)

lemma strict_nth_inj:
  "sorted_wrt (<) (xs :: nat list) \<Longrightarrow> i < length xs \<Longrightarrow> j < length xs \<Longrightarrow> xs ! i = xs ! j \<Longrightarrow> i = j"
  by (metis nat_neq_iff sorted_wrt_nth_less)

lemma span32_exact: "tiles p e bs \<Longrightarrow> e \<le> u32_max \<Longrightarrow> map span32 bs = bs"
proof (rule map_idI)
  fix x assume "tiles p e bs" "e \<le> u32_max" "x \<in> set bs"
  with tiles_bounds [of p e bs x] have "fst x < 4294967296" "snd x < 4294967296" by auto
  then show "span32 x = x" by (simp add: span32_def)
qed

lemma encode_sorted_chars: "length cs \<le> u32_max \<Longrightarrow> sorted (map fst (enc_spans (encode_chars m alpha cs)))"
  using span32_exact [OF run_bounds_tiles [of 0 cs m alpha]]
    strict_sorted_imp_sorted [OF tiles_sorted [OF run_bounds_tiles [of 0 cs m alpha]]]
  by (simp add: encode_chars_eq)

text \<open>A token that starts at a class change is the first one of the right side.\<close>

lemma start_at_boundary:
  assumes b: "is_run_boundary alpha cs b" and k: "k < length (run_bounds m alpha cs 0)"
    and at: "fst (run_bounds m alpha cs 0 ! k) = b"
  shows "k = length (run_bounds m alpha (take b cs) 0)"
proof -
  let ?l = "run_bounds m alpha (take b cs) 0" and ?r = "run_bounds m alpha (drop b cs) 0"
    and ?a = "run_bounds m alpha cs 0"
  note bb = boundary_bounds [OF b, of m]
  have sorted: "sorted_wrt (<) (map fst ?a)" using run_bounds_tiles [of 0 cs m alpha] tiles_sorted by blast
  have len: "length ?l < length ?a" using bb(1,4) by simp
  have "fst (?a ! length ?l) = b" using bb(1,3,4) by (cases ?r) (auto simp: nth_append)
  then show ?thesis using strict_nth_inj [OF sorted, of k "length ?l"] k len at by simp
qed

text \<open>What a reported cut is, on a tail that holds the encoding of its text.\<close>

lemma mock_boundary_Some:
  assumes t: "tail_wf t" and f: "faithful (\<lambda>x. encode_chars m alpha (chars x)) t"
    and cut: "mock_boundary m alpha t floor ceil = Ok (Some c)"
  shows "is_run_boundary alpha (chars (tl_text t)) (cut_char c)
    \<and> cut_tokens c = length (run_bounds m alpha (take (cut_char c) (chars (tl_text t))) 0)"
proof -
  let ?cs = "chars (tl_text t)" and ?a = "run_bounds m alpha (chars (tl_text t)) 0"
  have u: "length ?cs \<le> u32_max" using t by (simp add: tail_wf_def)
  have sp: "spans_of t = (map fst ?a, map snd ?a)"
    using f span32_exact [OF run_bounds_tiles u] by (simp add: faithful_def encode_chars_eq)
  from cut have "mock_scan alpha ?cs (map fst ?a) (map snd ?a) floor (min ceil (length ?cs)) (n_tokens t - 1) = Ok (Some c)"
    by (simp add: mock_boundary_def Let_def forced_spans_ok [OF t] sp split: if_splits)
  from mock_scan_Some [OF this] have "is_run_boundary alpha ?cs (cut_char c)" "cut_tokens c < length ?a"
    "fst (?a ! cut_tokens c) = cut_char c" by auto
  then show ?thesis using start_at_boundary [of alpha ?cs "cut_char c" "cut_tokens c" m] by blast
qed

section \<open>The contract\<close>

abbreviation mock_ref :: "mock \<Rightarrow> (nat \<Rightarrow> bool) \<Rightarrow> str \<Rightarrow> encoding" where
  "mock_ref m alpha x \<equiv> encode_chars m alpha (chars x)"

lemma mock_encoder_simps [simp]:
  "eng_encode (mock_encoder m alpha) x = Ok (mock_ref m alpha x)"
  "eng_append (mock_encoder m alpha) = mock_append m alpha"
  "eng_boundary (mock_encoder m alpha) = mock_boundary m alpha"
  "eng_witness (mock_encoder m alpha) = mock_witness m"
  by (simp_all add: mock_encoder_def mock_encode_def)

lemma mock_append_cases:
  assumes "tail_wf t"
  shows "(\<exists>t' rp. fill_state (tl_text t @ d) (mock_ref m alpha (tl_text t @ d)) = Ok t'
      \<and> mock_append m alpha t d = (t', Ok rp))
    \<or> (\<exists>e. mock_append m alpha t d = (t, Err e))"
proof -
  have sp: "tail_spans_pairs t = Ok (zip (fst (spans_of t)) (snd (spans_of t)))"
    using forced_spans_ok [OF assms] by (simp add: tail_spans_pairs_def case_prod_beta)
  show ?thesis
    by (cases "fill_state (tl_text t @ d) (mock_ref m alpha (tl_text t @ d))")
      (auto simp: mock_append_def mock_encode_def sp fill_def Let_def)
qed

interpretation mock: session_encoder "mock_encoder m alpha" "mock_ref m alpha" 0
proof
  fix t d
  assume t: "tail_ok t" and d: "valid_utf8 (d :: str)"
  then have full: "valid_utf8 (tl_text t @ d)" by (simp add: tail_ok_def tail_wf_def)
  have "tail_ok t'" if "fill_state (tl_text t @ d) (mock_ref m alpha (tl_text t @ d)) = Ok t'" for t'
    using fill_ok [OF that full encode_sorted_chars [OF fill_count [OF that]]] .
  then show "tail_ok (fst (eng_append (mock_encoder m alpha) t d))"
    using mock_append_cases [of t d m alpha] t by (auto simp: tail_ok_def)
next
  fix x e
  assume "char_count x \<le> u32_max" "eng_encode (mock_encoder m alpha) x = Ok e"
  then show "sorted (map fst (enc_spans e))" using encode_sorted_chars [of "chars x" m alpha] by auto
next
  show "mock_ref m alpha [] = \<lparr>enc_ids = [], enc_spans = []\<rparr>" by (simp add: encode_chars_eq run_bounds.simps)
next
  fix t d t' rp
  assume t: "tail_ok t" and d: "valid_utf8 (d :: str)" and "eng_append (mock_encoder m alpha) t d = (t', Ok rp)"
  then have "fill_state (tl_text t @ d) (mock_ref m alpha (tl_text t @ d)) = Ok t'"
    using mock_append_cases [of t d m alpha] by (auto simp: tail_ok_def)
  then show "tl_text t' = tl_text t @ d \<and> faithful (mock_ref m alpha) t'"
    using fill_state_Ok [of "tl_text t @ d" _ t'] t d by (simp add: faithful_def tail_ok_def tail_wf_def)
next
  fix t d t' r
  assume "tail_ok t" "eng_append (mock_encoder m alpha) t d = (t', r)" "\<And>rp. r \<noteq> Ok rp"
  then show "t' = t" using mock_append_cases [of t d m alpha] by (auto simp: tail_ok_def)
next
  fix t ceil floor c d
  assume t: "tail_ok t" and f: "faithful (mock_ref m alpha) t" and d: "valid_utf8 (d :: str)"
    and "eng_boundary (mock_encoder m alpha) t floor ceil = Ok (Some c)"
  then have c: "is_run_boundary alpha (chars (tl_text t)) (cut_char c)"
    "cut_tokens c = length (run_bounds m alpha (take (cut_char c) (chars (tl_text t))) 0)"
    using mock_boundary_Some [of t m alpha floor ceil c] by (simp_all add: tail_ok_def)
  let ?b = "cut_char c" and ?cs = "chars (tl_text t)"
  have le: "?b \<le> length ?cs" using c(1) by (simp add: is_run_boundary_def)
  have "take (cut_tokens c) (ids_of t) = enc_ids (encode_chars m alpha (take ?b ?cs))"
    using f encode_split [OF c(1), of m] c(2) by (simp add: faithful_def) (simp add: encode_chars_eq)
  then show "enc_ids (mock_ref m alpha (tl_text t @ d)) = take (cut_tokens c) (ids_of t)
      @ enc_ids (mock_ref m alpha (drop (char_off (tl_text t) ?b) (tl_text t) @ d))"
    using encode_split [OF run_boundary_append [OF c(1)], of m "chars d"] d le
    by (simp add: chars_append_valid chars_drop_off)
next
  fix t ceil floor c
  assume t: "tail_ok t" and f: "faithful (mock_ref m alpha) t"
    and "eng_boundary (mock_encoder m alpha) t floor ceil = Ok (Some c)"
  then have c: "is_run_boundary alpha (chars (tl_text t)) (cut_char c)"
    "cut_tokens c = length (run_bounds m alpha (take (cut_char c) (chars (tl_text t))) 0)"
    using mock_boundary_Some [of t m alpha floor ceil c] by (simp_all add: tail_ok_def)
  let ?b = "cut_char c" and ?cs = "chars (tl_text t)"
  note bb = boundary_bounds [OF c(1), of m]
  have u: "length ?cs \<le> u32_max" using t by (simp add: tail_ok_def tail_wf_def)
  have r: "map span32 (run_bounds m alpha (drop ?b ?cs) 0) = run_bounds m alpha (drop ?b ?cs) 0"
    using span32_exact [OF bb(3)] u by simp
  have "spans_of t = (map fst (run_bounds m alpha ?cs 0), map snd (run_bounds m alpha ?cs 0))"
    using f span32_exact [OF run_bounds_tiles u] by (simp add: faithful_def encode_chars_eq)
  then show "(let rest = enc_spans (mock_ref m alpha (drop (char_off (tl_text t) ?b) (tl_text t)))
      in (map fst rest, map snd rest)) = shifted (cut_tokens c) ?b (spans_of t)"
    using c(2) by (simp add: shifted_def bb(1) encode_chars_eq r chars_drop_off comp_def Let_def)
qed simp

end
