(* ===== verification/Demo.thy ===== *)
theory Demo
  imports Population Transport MockProps
begin

text \<open>
  A concrete run to try the properties of the store on: the default configuration, one key with the
  reference encoder, a session for the text "ab c", then an append of "d". The hash functions are
  constants here, since no property depends on what they compute.
\<close>

section \<open>The engine and the texts\<close>

definition letters :: "nat \<Rightarrow> bool" where
  "letters v \<longleftrightarrow> 97 \<le> v \<and> v \<le> 122"

abbreviation demo_engine :: encoder where "demo_engine \<equiv> mock_encoder mock_default letters"
abbreviation demo_ref :: "str \<Rightarrow> encoding" where "demo_ref \<equiv> mock_ref mock_default letters"
abbreviation (input) demo_sha :: "u8 list \<Rightarrow> hash32" where "demo_sha \<equiv> \<lambda>_. 5"
abbreviation (input) demo_blake :: "u8 list \<Rightarrow> hash16" where "demo_blake \<equiv> \<lambda>_. 6"
abbreviation (input) demo_text :: str where "demo_text \<equiv> [97, 98, 32, 99]"
abbreviation (input) demo_delta :: str where "demo_delta \<equiv> [100]"

lemma demo_valid [simp]: "valid_utf8 [97, 98, 32, 99]" "valid_utf8 [100]"
  by (simp_all add: valid_utf8_def is_cont_def)

lemma demo_engines: "engines_ok (\<lambda>_. {demo_engine}) (\<lambda>_. demo_ref) (\<lambda>_. 0)"
  using mock.session_encoder_axioms by blast

section \<open>Evaluation\<close>

lemmas mock_eval = mock_encode_def mock_append_def mock_boundary_def encode_chars_def mock_runs.simps
  mock_pieces.simps run_end.simps push_piece_def fnv1a_def class_of_def is_whitespace_def letters_def
  mock_default_def mock_witness_def is_cont_def

lemmas tail_eval = tail_spans_pairs_def forced_spans_def tail_new_def fill_def fill_state_def chars_u32_def
  encoding_validate_def span_ok_def Let_def

lemmas store_eval = tick_def stat_def put_session_def return_work_def work_of_def key_of_def session_of_def
  insert_session_def fresh_def payload_hasher_new_def sess_token_count_def tbl_get_def tbl_put_def tbl_del_def
  sealed_default_def upd_sess_def upd_stats_def bump_path_def stats_zero_def commit_hash_def link_hash_def
  post_text_ops_def verify_append_shape_def ends_with_def

lemma seal_blocks_short:
  "s_total_chars (wk_sess w) < s_blocks_end (wk_sess w) + c_block_chars cfg \<Longrightarrow> seal_blocks sha cfg key w = (w, Ok ())"
  by (subst seal_blocks.simps) (simp add: seal_block_step_def Let_def checked_add64_def)

lemma advance_seal_short:
  "n \<le> c_block_chars cfg \<Longrightarrow> text_bytes (s_tail (wk_sess w)) \<le> c_soft_cap cfg \<Longrightarrow>
     advance_seal cfg key engine n w = (w, Ok ())"
  by (simp add: advance_seal_def Let_def)

lemmas run_eval = mock_eval tail_eval store_eval seal_blocks_short advance_seal_short add64_def checked_add64_def

section \<open>The run\<close>

text \<open>The empty store of a configuration, and the one with a registered key.\<close>

definition demo_empty :: "config \<Rightarrow> store" where
  "demo_empty cfg =
     \<lparr>ss_cfg = cfg, ss_recovery_tracking = False, ss_content_tracking = False, ss_overlap = None,
      ss_fault = None, ss_keys = [], ss_nodes = [], ss_sessions = [], ss_next_handle = 1,
      ss_clock = 0, ss_stats = stats_zero, ss_materializations = 0, ss_next_alloc = 0\<rparr>"

definition demo_keyed :: "config \<Rightarrow> store" where
  "demo_keyed cfg = (demo_empty cfg)\<lparr>ss_keys := [\<lparr>kr_fingerprint = 7, kr_guard = 0\<rparr>]\<rparr>"

definition demo_tail :: tail_state where
  "demo_tail = \<lparr>tl_text = demo_text, tl_chars = 4, tl_ids = Owned [fnv1a [97, 98], fnv1a [32], fnv1a [99]],
     tl_spans = Materialized [0, 2, 3] [2, 3, 4]\<rparr>"

definition demo_session :: session where
  "demo_session = (fresh 0 BpeSyncTransition 1)\<lparr>s_record_hash := 5, s_total_chars := 4, s_tail := demo_tail\<rparr>"

definition demo_store :: "config \<Rightarrow> store" where
  "demo_store cfg = (demo_keyed cfg)\<lparr>ss_sessions := [(1, demo_session)], ss_next_handle := 2, ss_clock := 1,
     ss_stats := stats_zero\<lparr>st_puts := 1, st_path_counts := [(''cold_full'', 1)]\<rparr>\<rparr>"

lemma demo_new: "config_validate cfg = Ok () \<Longrightarrow> store_new cfg = Ok (demo_empty cfg)"
  by (simp add: store_new_def demo_empty_def)

lemma default_config_ok: "config_validate default_config = Ok ()"
  by (simp add: config_validate_def default_config_def)

lemma demo_register: "register_fingerprint (demo_empty cfg) 7 0 = (demo_keyed cfg, Ok 0)"
  by (simp add: register_fingerprint_def demo_keyed_def demo_empty_def)

lemma demo_put:
  assumes "0 < c_max_sessions cfg" "4 < c_block_chars cfg" "4 \<le> c_soft_cap cfg"
  shows "put demo_sha demo_blake (demo_keyed cfg) 0 demo_text demo_engine
     = (demo_store cfg, Ok \<lparr>po_handle = 1, po_revision = 0, po_token_count = 3\<rparr>)"
  using assms
  by (simp add: demo_keyed_def demo_empty_def demo_store_def demo_session_def demo_tail_def put_def put_finish_def
      evict_for_capacity.simps seed_session_def seed_encode_def run_eval)

lemma demo_put_default:
  "put demo_sha demo_blake (demo_keyed default_config) 0 demo_text demo_engine
     = (demo_store default_config, Ok \<lparr>po_handle = 1, po_revision = 0, po_token_count = 3\<rparr>)"
  by (rule demo_put) (simp_all add: default_config_def)

lemma demo_get: "tbl_get (ss_sessions (demo_store cfg)) 1 = Some demo_session"
  by (simp add: demo_store_def tbl_get_def)

definition demo_next :: store where
  "demo_next = fst (append_patch demo_sha demo_blake (demo_store default_config) 1 demo_delta 0 demo_engine)"

lemma demo_append:
  "append_patch demo_sha demo_blake (demo_store default_config) 1 demo_delta 0 demo_engine
     = (demo_next, Ok \<lparr>pa_path = ''mock_full_reencode'', pa_revision = 1, pa_replace_from = 2,
          pa_replacement = [fnv1a [99, 100]], pa_token_count = 3\<rparr>)"
proof -
  have "snd (append_patch demo_sha demo_blake (demo_store default_config) 1 demo_delta 0 demo_engine)
     = Ok \<lparr>pa_path = ''mock_full_reencode'', pa_revision = 1, pa_replace_from = 2,
          pa_replacement = [fnv1a [99, 100]], pa_token_count = 3\<rparr>"
    by (simp add: demo_store_def demo_session_def demo_tail_def demo_keyed_def demo_empty_def default_config_def
        append_patch_def append_body_def grow_tail_def append_digests_def commit_append_def replacement_of_def
        with_session_def bump_generation_def vec_slice_def run_eval)
  then show ?thesis by (simp add: demo_next_def prod_eq_iff)
qed

section \<open>The run as client steps\<close>

lemma demo_reached_put:
  "reached demo_sha demo_blake (\<lambda>_. {demo_engine}) (\<lambda>_. 0) (demo_store default_config, (\<lambda>_. {})(1 := {demo_text}))"
proof -
  have a: "reached demo_sha demo_blake (\<lambda>_. {demo_engine}) (\<lambda>_. 0) (demo_empty default_config, \<lambda>_. {})"
    by (rule reached.new [OF demo_new [OF default_config_ok]])
  have b: "reached demo_sha demo_blake (\<lambda>_. {demo_engine}) (\<lambda>_. 0) (demo_keyed default_config, \<lambda>_. {})"
    by (rule reached.step [OF a client_step.register [OF _ demo_register]]) simp
  show ?thesis
    using reached.step [OF b client_step.put_ok [where engine = demo_engine, OF _ demo_valid(1) demo_put_default]] by simp
qed

lemma demo_reached_append:
  "reached demo_sha demo_blake (\<lambda>_. {demo_engine}) (\<lambda>_. 0) (demo_next, (\<lambda>_. {})(1 := {demo_text @ demo_delta}))"
  using reached.step [OF demo_reached_put
      client_step.append_ok [where n = 0 and engine = demo_engine, OF demo_valid(2) demo_get]] demo_append by simp

lemma demo_world: "world_ok (\<lambda>_. demo_ref) (\<lambda>_. 0) (demo_store default_config, (\<lambda>_. {})(1 := {demo_text}))"
  by (rule reached_ok [OF demo_engines demo_reached_put])

lemma demo_represents: "represents demo_ref demo_session demo_text"
  using world_session [OF demo_world demo_get] by (simp add: holds_text_def)

lemma demo_wf: "sess_wf demo_session"
  using demo_represents by (simp add: represents_def)

end
