(* ===== verification/StoreFacts.thy ===== *)
theory StoreFacts
  imports Demo
begin

text \<open>
  The properties of the session operations of the store: what a put, an append, a fork, a row and
  an eviction leave behind, on success and on failure.
\<close>

section \<open>Appends\<close>

lemma append_body_framed:
  assumes "append_body sha blake s h key x d engine = (s', r)"
  shows "frame s h s'"
proof -
  have "held (\<lambda>_. True) s h (fst (append_body sha blake s h key x d engine))"
    by (rule append_body_state) simp_all
  then show ?thesis using assms by (simp add: held_def)
qed

lemma append_patch_framed:
  assumes x: "tbl_get (ss_sessions s) h = Some x" and run: "append_patch sha blake s h d n engine = (s', r)"
  shows "frame s h s'"
proof (rule append_patch_cases [OF run x])
  assume "quiet s s'"
  then show ?thesis by (simp add: frame_def quiet_def)
next
  fix key s1
  assume "frame s h s1" "append_body sha blake s1 h key (x\<lparr>s_last_used := Suc (ss_clock s)\<rparr>) d engine = (s', r)"
  with append_body_framed [OF this(2)] show ?thesis by (auto simp: frame_def)
qed

text \<open>The patch of an append, against the session it found.\<close>

lemma append_patch_patched:
  assumes eng: "tail_engine engine" and x: "tbl_get (ss_sessions s) h = Some x" "sess_wf x"
    and d: "valid_utf8 d" and run: "append_patch sha blake s h d n engine = (s', Ok out)"
  shows "n = s_revision x \<and> (\<exists>x' key. tbl_get (ss_sessions s') h = Some x' \<and> key_of s (s_key_id x) = Ok key
    \<and> patched sha key x x' out)"
proof (rule append_patch_body [OF run])
  fix y :: session and key s1
  let ?y = "y\<lparr>s_last_used := Suc (ss_clock s)\<rparr>"
  assume y: "tbl_get (ss_sessions s) h = Some y" "key_of s (s_key_id y) = Ok key" "s_revision y = n"
    and body: "append_body sha blake s1 h key ?y d engine = (s', Ok out)"
  have "y = x" using x y by simp
  moreover have "sess_wf ?y" using x(2) sess_wf_upd(1) \<open>y = x\<close> by simp
  from tail_engine.append_body_patched [OF eng body this d] obtain x' where
    "tbl_get (ss_sessions s') h = Some x'" "patched sha key ?y x' out" by blast
  moreover have touch: "materialize_all_ids ?y = materialize_all_ids y" by (simp add: materialize_eq)
  moreover have "patched sha key y x' out" if "patched sha key ?y x' out" for x'
    using that touch by (simp add: patched_def)
  ultimately show ?thesis using y by blast
qed

lemma demo_tail_engine: "tail_engine demo_engine"
  by (rule mock.tail_engine_axioms)

text \<open>C9 An append that returns advances the revision by one, chains the new record hash to the old
  one, and returns a patch that turns the old token row into the new one: the kept prefix of the old
  tokens followed by the replacement is exactly the new row, whose length is the token count. The
  expected revision was the current one, and no other session changed.\<close>

theorem append_returns_patch:
  assumes "tail_engine engine" "tbl_get (ss_sessions s) h = Some x" "sess_wf x" "valid_utf8 d"
    and "append_patch sha blake s h d n engine = (s', Ok out)"
  shows "\<exists>x' key. tbl_get (ss_sessions s') h = Some x' \<and> sess_wf x'
     \<and> materialize_all_ids x' = take (pa_replace_from out) (materialize_all_ids x) @ pa_replacement out
     \<and> pa_replace_from out \<le> length (materialize_all_ids x)
     \<and> pa_token_count out = length (materialize_all_ids x')
     \<and> n = s_revision x \<and> pa_revision out = add64 n 1 \<and> s_revision x' = add64 n 1
     \<and> s_prev_hash x' = s_record_hash x \<and> key_of s (s_key_id x) = Ok key
     \<and> s_record_hash x' = commit_hash sha x' (k_fingerprint key)
     \<and> (\<forall>k. k \<noteq> h \<longrightarrow> tbl_get (ss_sessions s') k = tbl_get (ss_sessions s) k)"
  using append_patch_patched [OF assms] append_patch_framed [OF assms(2,5)]
  by (auto simp: patched_def frame_def)

theorem append_returns_patch_witness:
  "\<exists>x'. tbl_get (ss_sessions demo_next) 1 = Some x' \<and> s_revision x' = 1 \<and> s_prev_hash x' = 5
     \<and> materialize_all_ids x' = [fnv1a [97, 98], fnv1a [32], fnv1a [99, 100]]"
proof -
  have "materialize_all_ids demo_session = [fnv1a [97, 98], fnv1a [32], fnv1a [99]]"
    by (simp add: materialize_eq demo_session_def demo_tail_def)
  then show ?thesis
    using append_returns_patch [OF demo_tail_engine demo_get demo_wf demo_valid(2) demo_append]
    by (auto simp: add64_def demo_session_def)
qed

text \<open>C6 Incremental encoding is encoding: under an engine that meets the contract, a session that
  holds the reference encoding of a text holds, after an append that returns, the reference encoding of
  the grown text, whatever was sealed on the way, re-encoded in full past the hard cap, or kept.\<close>

theorem append_is_reencode:
  assumes "session_encoder engine R guard" "tbl_get (ss_sessions s) h = Some x" "represents R x T"
    and "\<And>key. key_of s (s_key_id x) = Ok key \<Longrightarrow> guard \<le> k_guard key"
    and "valid_utf8 d" "append_patch sha blake s h d n engine = (s', Ok out)"
  shows "\<exists>x'. tbl_get (ss_sessions s') h = Some x' \<and> represents R x' (T @ d)
     \<and> materialize_all_ids x' = enc_ids (R (T @ d)) \<and> pa_token_count out = length (enc_ids (R (T @ d)))"
proof -
  have eng: "tail_engine engine" using assms(1) by (simp add: session_encoder_def)
  have wf: "sess_wf x" using assms(3) by (simp add: represents_def)
  from append_patch_patched [OF eng assms(2) wf assms(5,6)] obtain x1 key1 where
    p: "tbl_get (ss_sessions s') h = Some x1" "patched sha key1 x x1 out" by blast
  show ?thesis
  proof (rule append_patch_body [OF assms(6)])
    fix y :: session and key s1
    assume y: "tbl_get (ss_sessions s) h = Some y" "key_of s (s_key_id y) = Ok key"
      and body: "append_body sha blake s1 h key (y\<lparr>s_last_used := Suc (ss_clock s)\<rparr>) d engine = (s', Ok out)"
    have "y = x" "guard \<le> k_guard key" using assms(2,4) y by auto
    then have "represents R x1 (T @ d)"
      using session_encoder.append_body_Ok_represents [OF assms(1) _ assms(5) _ body] represents_touch [OF assms(3)]
        p(1) by fastforce
    then show ?thesis using p represents_ids by (auto simp: patched_def)
  qed
qed

theorem append_is_reencode_witness:
  "\<exists>x'. tbl_get (ss_sessions demo_next) 1 = Some x'
     \<and> materialize_all_ids x' = enc_ids (demo_ref (demo_text @ demo_delta))"
  using append_is_reencode [OF mock.session_encoder_axioms demo_get demo_represents _ demo_valid(2) demo_append]
  by auto

text \<open>C10 A refused append is contained: whatever went wrong, the other sessions, the keys and the handles
  are untouched, and the session still represents the text it had or the grown text (a failure after
  the engine extended the tail leaves the growth in place).\<close>

theorem append_failure_contained:
  assumes "session_encoder engine R guard" "tbl_get (ss_sessions s) h = Some x" "represents R x T"
    and "\<And>key. key_of s (s_key_id x) = Ok key \<Longrightarrow> guard \<le> k_guard key"
    and "valid_utf8 d" "append_patch sha blake s h d n engine = (s', r)" "\<forall>out. r \<noteq> Ok out"
  shows "(\<exists>x'. tbl_get (ss_sessions s') h = Some x' \<and> (represents R x' T \<or> represents R x' (T @ d)))
     \<and> (\<forall>k. k \<noteq> h \<longrightarrow> tbl_get (ss_sessions s') k = tbl_get (ss_sessions s) k)
     \<and> ss_keys s' = ss_keys s \<and> ss_next_handle s' = ss_next_handle s"
proof -
  have f: "frame s h s'" by (rule append_patch_framed [OF assms(2,6)])
  have "\<exists>x'. tbl_get (ss_sessions s') h = Some x' \<and> (represents R x' T \<or> represents R x' (T @ d))"
  proof (rule append_patch_cases [OF assms(6,2)])
    assume "quiet s s'"
    then show ?thesis using assms(2,3) by (auto simp: quiet_def)
  next
    fix key s1
    assume "key_of s (s_key_id x) = Ok key"
      and body: "append_body sha blake s1 h key (x\<lparr>s_last_used := Suc (ss_clock s)\<rparr>) d engine = (s', r)"
    then have "guard \<le> k_guard key" using assms(4) by blast
    from session_encoder.append_body_represents [OF assms(1) represents_touch [OF assms(3)] assms(5) this,
        where sha = sha and blake = blake and s = s1 and h = h and n1 = "Suc (ss_clock s)"] body
    show ?thesis by (auto simp: held_def)
  qed
  with f show ?thesis by (auto simp: frame_def)
qed

text \<open>An engine whose appends fail.\<close>

abbreviation (input) broken_engine :: encoder where
  "broken_engine \<equiv> demo_engine\<lparr>eng_append := \<lambda>t d. (t, Err ''engine failure'')\<rparr>"

lemma stale_append:
  assumes "tbl_get (ss_sessions s) h = Some x" "key_of s (s_key_id x) = Ok key" "s_witness x = eng_witness engine"
    "n \<noteq> s_revision x"
  shows "append_patch sha blake s h d n engine
     = (stat (\<lambda>st. st\<lparr>st_revision_conflicts := st_revision_conflicts st + 1\<rparr>) s, Err (RevisionConflict n (s_revision x)))"
proof -
  have "session_of s h = Ok x" using assms(1) by simp
  then show ?thesis using assms by (simp only: append_patch_def attempt.simps) simp
qed

lemma demo_key: "key_of (demo_store cfg) 0 = Ok \<lparr>k_fingerprint = 7, k_guard = 0\<rparr>"
  by (simp add: key_of_def demo_store_def demo_keyed_def)

theorem append_failure_contained_witness:
  "\<exists>x'. tbl_get (ss_sessions (fst (append_patch demo_sha demo_blake (demo_store default_config) 1 demo_delta 9 demo_engine))) 1
       = Some x' \<and> (represents demo_ref x' demo_text \<or> represents demo_ref x' (demo_text @ demo_delta))"
proof -
  have run: "append_patch demo_sha demo_blake (demo_store default_config) 1 demo_delta 9 demo_engine
     = (stat (\<lambda>st. st\<lparr>st_revision_conflicts := st_revision_conflicts st + 1\<rparr>) (demo_store default_config), Err (RevisionConflict 9 0))"
    using stale_append [OF demo_get, of default_config "\<lparr>k_fingerprint = 7, k_guard = 0\<rparr>" demo_engine 9] demo_key
    by (simp add: demo_session_def fresh_def mock_encoder_def mock_witness_def mock_default_def)
  show ?thesis
    using append_failure_contained [OF mock.session_encoder_axioms demo_get demo_represents _ demo_valid(2) run] run
    by auto
qed

lemma add64_moves: "n \<noteq> add64 n 1"
  by (cases "n < 18446744073709551616") (auto simp: add64_def mod_Suc not_less intro: mod_less_divisor dest: le_imp_less_Suc)

text \<open>C11 No update is lost: once an append at revision n has returned, any other append prepared
  against the same revision is refused with a conflict that names the current revision, and changes
  nothing but the conflict counter.\<close>

theorem lost_update_excluded:
  assumes "tail_engine engine" "tbl_get (ss_sessions s) h = Some x" "sess_wf x" "valid_utf8 d"
    and "append_patch sha blake s h d n engine = (s1, Ok out)"
  shows "append_patch sha blake s1 h d' n engine
     = (stat (\<lambda>st. st\<lparr>st_revision_conflicts := st_revision_conflicts st + 1\<rparr>) s1, Err (RevisionConflict n (add64 n 1)))"
proof -
  have f: "frame s h s1" by (rule append_patch_framed [OF assms(2,5)])
  from append_patch_patched [OF assms] obtain x' key where n: "n = s_revision x"
    and x': "tbl_get (ss_sessions s1) h = Some x'" "key_of s (s_key_id x) = Ok key" "patched sha key x x' out" by blast
  have "s_witness x = eng_witness engine"
    by (rule append_patch_body [OF assms(5)]) (use assms(2) in simp)
  moreover have "key_of s1 = key_of s" using f by (simp add: key_of_def frame_def fun_eq_iff)
  ultimately have "s_witness x' = eng_witness engine" "s_revision x' = add64 n 1" "key_of s1 (s_key_id x') = Ok key"
    using x' n by (simp_all add: patched_def)
  moreover have "n \<noteq> add64 n 1" by (rule add64_moves)
  ultimately show ?thesis using stale_append [OF x'(1)] by simp
qed

theorem lost_update_excluded_witness:
  "snd (append_patch demo_sha demo_blake demo_next 1 [120] 0 demo_engine) = Err (RevisionConflict 0 1)"
  using lost_update_excluded [OF demo_tail_engine demo_get demo_wf demo_valid(2) demo_append] by (simp add: add64_def)

section \<open>Puts\<close>

text \<open>What a table may lose to the capacity bound: nothing used more recently than what it keeps.\<close>

lemma inserted_get:
  assumes "inserted s s' h x"
  shows "tbl_get (ss_sessions s') h = Some x" "h = ss_next_handle s"
    "k \<noteq> h \<Longrightarrow> tbl_get (ss_sessions s') k = Some y \<Longrightarrow> tbl_get (ss_sessions s) k = Some y"
  using assms by (auto simp: inserted_def lru_subset_def)

lemma lru_subset_sub: "lru_subset t t' \<Longrightarrow> tbl_get t' j = Some y \<Longrightarrow> tbl_get t j = Some y"
  by (simp add: lru_subset_def)

lemma lru_subset_order:
  assumes "lru_subset t t'" "tbl_get t' j = Some y" "tbl_get t l = Some z" "tbl_get t' l = None"
  shows "s_last_used z \<le> s_last_used y"
proof -
  have "s_last_used z < s_last_used y \<or> (s_last_used z = s_last_used y \<and> l \<le> j)"
    using assms unfolding lru_subset_def by blast
  then show ?thesis by linarith
qed

text \<open>C12 A put that returns stores, under the next unused handle, a session that represents the text
  it was given, at revision zero, with the token count of the reference encoding, whether the seed ran
  on the calling thread or through the overlap runner. Every other session of the new store was there
  before, and the table stays below its capacity.\<close>

theorem put_represents_text:
  assumes "session_encoder engine R guard" "tbl_ok (ss_sessions s)" "0 < c_max_sessions (ss_cfg s)"
    and "\<And>key. key_of s k = Ok key \<Longrightarrow> guard \<le> k_guard key" "valid_utf8 text"
    and "put sha blake s k text engine = (s', Ok out)"
  shows "\<exists>x. tbl_get (ss_sessions s') (po_handle out) = Some x \<and> represents R x text
     \<and> materialize_all_ids x = enc_ids (R text) \<and> po_token_count out = length (enc_ids (R text))
     \<and> s_key_id x = k \<and> s_revision x = 0 \<and> po_handle out = ss_next_handle s
     \<and> (\<forall>j y. j \<noteq> po_handle out \<longrightarrow> tbl_get (ss_sessions s') j = Some y \<longrightarrow> tbl_get (ss_sessions s) j = Some y)"
proof -
  from session_encoder.put_represents [OF assms(1,2,3,6,5,4)] obtain x where
    x: "inserted s s' (po_handle out) x" "represents R x text" "s_key_id x = k" "s_revision x = 0"
      "po_token_count out = length (enc_ids (R text))" by blast
  show ?thesis
    by (intro exI [of _ x] conjI) (use x inserted_get [OF x(1)] represents_ids [OF x(2)] in simp_all)
qed

lemma demo_keyed_ok: "tbl_ok (ss_sessions (demo_keyed cfg))" "ss_cfg (demo_keyed cfg) = cfg"
  by (simp_all add: demo_keyed_def demo_empty_def)

theorem put_represents_text_witness:
  "tbl_get (ss_sessions (demo_store default_config)) 1 = Some demo_session
   \<and> materialize_all_ids demo_session = enc_ids (demo_ref demo_text)"
  using put_represents_text [OF mock.session_encoder_axioms demo_keyed_ok(1) _ _ demo_valid(1) demo_put_default]
    demo_get [of default_config] by (simp add: demo_keyed_ok default_config_def)

text \<open>A put that fails inserts nothing: no handle is used up, and whatever sessions remain were there
  before. It may have evicted, since the room is made before the encode; what it evicted was used no
  later than what it kept.\<close>

theorem put_failure_inserts_nothing:
  assumes "tbl_ok (ss_sessions s)" "0 < c_max_sessions (ss_cfg s)"
    and "put sha blake s k text engine = (s', r)" "\<forall>out. r \<noteq> Ok out"
  shows "ss_next_handle s' = ss_next_handle s \<and> ss_keys s' = ss_keys s
     \<and> length (ss_sessions s') \<le> length (ss_sessions s)
     \<and> (\<forall>j y. tbl_get (ss_sessions s') j = Some y \<longrightarrow> tbl_get (ss_sessions s) j = Some y)
     \<and> (\<forall>j y l z. tbl_get (ss_sessions s') j = Some y \<longrightarrow> tbl_get (ss_sessions s) l = Some z \<longrightarrow>
          tbl_get (ss_sessions s') l = None \<longrightarrow> s_last_used z \<le> s_last_used y)"
proof -
  have "shrunk s s'" by (rule put_error [OF assms(1-3)]) (use assms(4) in blast)
  then show ?thesis using lru_subset_sub lru_subset_order by (simp add: shrunk_def) blast
qed

text \<open>A store with room for a single session.\<close>

definition tiny_config :: config where
  "tiny_config = default_config\<lparr>c_max_sessions := 1\<rparr>"

definition tiny_after :: "store \<times> put_outcome res" where
  "tiny_after = put demo_sha demo_blake (demo_store tiny_config) 0 [120] broken_engine"

lemma tiny_put_fails: "snd tiny_after = Err (EngineErr ''engine failure'') \<and> ss_sessions (fst tiny_after) = []"
  by (simp add: tiny_after_def put_def evict_for_capacity.simps seed_session_def seed_encode_def demo_store_def
      demo_keyed_def demo_empty_def tiny_config_def default_config_def tick_def stat_def key_of_def tbl_del_def fresh_def)

lemma demo_store_ok: "tbl_ok (ss_sessions (demo_store cfg))" "ss_cfg (demo_store cfg) = cfg" "ss_keys (demo_store cfg) = ss_keys (demo_keyed cfg)"
  by (simp_all add: demo_store_def tbl_ok_def demo_keyed_ok)

lemma tiny_run:
  "put demo_sha demo_blake (demo_store tiny_config) 0 [120] broken_engine = (fst tiny_after, Err (EngineErr ''engine failure''))"
  using tiny_put_fails by (simp add: tiny_after_def prod_eq_iff)

theorem put_failure_inserts_nothing_witness:
  "ss_next_handle (fst tiny_after) = 2 \<and> length (ss_sessions (fst tiny_after)) \<le> 1"
  using put_failure_inserts_nothing [OF demo_store_ok(1) _ tiny_run]
  by (simp add: demo_store_ok tiny_config_def) (simp add: demo_store_def)

text \<open>The room for a new session is made before its text is encoded: a put on a known key that
  fails leaves the table that the eviction made, so in a full store it costs the least recently used
  session although nothing was inserted.\<close>

theorem put_failure_has_evicted:
  assumes "tbl_ok (ss_sessions s)" "0 < c_max_sessions (ss_cfg s)" "key_of s k = Ok key"
    and "put sha blake s k text engine = (s', r)" "\<forall>out. r \<noteq> Ok out"
  shows "ss_sessions s' = ss_sessions (evict_for_capacity (tick s)) \<and> length (ss_sessions s') < c_max_sessions (ss_cfg s)"
proof -
  obtain s2 sr where seed: "seed_session sha blake (put_start s) key engine text
      (fresh k (eng_witness engine) (ss_clock (put_start s))) = (s2, sr)" by fastforce
  have "quiet (put_start s) s2" using seed_session_quiet seed by (metis fst_conv)
  moreover have "ss_sessions s' = ss_sessions s2"
  proof (cases sr)
    case (Ok p)
    have "(s', r) = put_finish sha blake s2 key text (fst p) (snd p)"
      using assms(4) by (simp add: put_eq [OF assms(3)] seed Ok)
    then show ?thesis using assms(5) put_finish_cases [of sha blake s2 key "text" "fst p" "snd p"] by (metis fst_conv snd_conv)
  qed (use assms(4) in \<open>simp_all add: put_eq [OF assms(3)] seed\<close>)
  ultimately have "ss_sessions s' = ss_sessions (put_start s)" by (simp add: quiet_def)
  then show ?thesis using put_start_ok(2) [OF assms(1,2)] by (simp add: put_start_def)
qed

theorem put_failure_has_evicted_witness:
  "tbl_get (ss_sessions (demo_store tiny_config)) 1 \<noteq> None \<and> ss_sessions (fst tiny_after) = []"
  using put_failure_has_evicted [OF demo_store_ok(1) _ demo_key tiny_run] demo_get [of tiny_config]
  by (auto simp: demo_store_ok tiny_config_def)

section \<open>Eviction\<close>

text \<open>Making room evicts just enough, least recently used first with the lower handle on a tie: the
  table ends below the capacity, every kept session is unchanged, every evicted one precedes every kept
  one in the order of last use and handle, the evictions are counted, and nothing happens when there is
  room. The loop ends because the table shrinks.\<close>

theorem eviction_least_recent:
  assumes "tbl_ok (ss_sessions s)" "0 < c_max_sessions (ss_cfg s)"
  shows "\<exists>t n. evict_for_capacity s = count_evicted n (s\<lparr>ss_sessions := t\<rparr>)
     \<and> length t + n = length (ss_sessions s) \<and> length t < c_max_sessions (ss_cfg s)
     \<and> (\<forall>k x. tbl_get t k = Some x \<longrightarrow> tbl_get (ss_sessions s) k = Some x)
     \<and> (\<forall>k x l y. tbl_get t k = Some x \<longrightarrow> tbl_get (ss_sessions s) l = Some y \<longrightarrow> tbl_get t l = None \<longrightarrow>
          s_last_used y < s_last_used x \<or> (s_last_used y = s_last_used x \<and> l \<le> k))
     \<and> (length (ss_sessions s) < c_max_sessions (ss_cfg s) \<longrightarrow> evict_for_capacity s = s)"
proof -
  from evict_for_capacity_ok [OF assms] obtain t n where
    t: "evict_for_capacity s = count_evicted n (s\<lparr>ss_sessions := t\<rparr>)" "lru_subset (ss_sessions s) t"
      "length t + n = length (ss_sessions s)" "length t < c_max_sessions (ss_cfg s)"
    by (auto simp: evicted_from_def count_evicted_def)
  show ?thesis
    by (intro exI [of _ t] exI [of _ n] conjI)
      (use t in \<open>auto simp: lru_subset_def evict_for_capacity.simps [of s]\<close>)
qed

theorem eviction_least_recent_witness:
  "\<exists>t. ss_sessions (evict_for_capacity (demo_store tiny_config)) = t \<and> length t < 1"
  using eviction_least_recent [OF demo_store_ok(1), of tiny_config]
  by (auto simp: demo_store_ok tiny_config_def count_evicted_def)

section \<open>Keys\<close>

lemma find_key_append: "find_key f i (ks @ ls) = (case find_key f i ks of Some j \<Rightarrow> Some j | None \<Rightarrow> find_key f (i + length ks) ls)"
  by (induction f i ks rule: find_key.induct) (simp_all split: option.splits)

lemma find_key_None: "find_key f i ks = None \<longleftrightarrow> f \<notin> kr_fingerprint ` set ks"
  by (induction f i ks rule: find_key.induct) auto

text \<open>Fingerprints are interned: a registration that returns gives the index of a key with that
  fingerprint and guard, keeps every earlier key at its index, keeps the fingerprints distinct, and
  registering the same fingerprint again returns the same index and changes nothing.\<close>

theorem register_interns:
  assumes "register_fingerprint s f g = (s', Ok k)"
  shows "k < length (ss_keys s') \<and> ss_keys s' ! k = \<lparr>kr_fingerprint = f, kr_guard = g\<rparr>
     \<and> (\<exists>new. ss_keys s' = ss_keys s @ new) \<and> ss_sessions s' = ss_sessions s
     \<and> (distinct (map kr_fingerprint (ss_keys s)) \<longrightarrow> distinct (map kr_fingerprint (ss_keys s')))
     \<and> register_fingerprint s' f g = (s', Ok k)"
proof (cases "find_key f 0 (ss_keys s)")
  case None
  then have s': "s' = s\<lparr>ss_keys := ss_keys s @ [\<lparr>kr_fingerprint = f, kr_guard = g\<rparr>]\<rparr>" "k = length (ss_keys s)"
    using assms by (auto simp: register_fingerprint_def split: if_splits)
  moreover have "f \<notin> kr_fingerprint ` set (ss_keys s)" using None by (simp add: find_key_None)
  ultimately show ?thesis using None by (simp add: register_fingerprint_def find_key_append)
next
  case (Some j)
  then have s': "s' = s" "k = j" "kr_guard (ss_keys s ! j) = g"
    using assms by (auto simp: register_fingerprint_def split: if_splits)
  then have "ss_keys s ! k = \<lparr>kr_fingerprint = f, kr_guard = g\<rparr>" "k < length (ss_keys s)"
    using find_key_bound [OF Some] by simp_all
  then show ?thesis using s' Some by (simp add: register_fingerprint_def)
qed

theorem register_interns_witness:
  "register_fingerprint (demo_keyed default_config) 7 0 = (demo_keyed default_config, Ok 0)"
  using register_interns [OF demo_register [of default_config]] by blast

section \<open>Forks\<close>

text \<open>A fork that returns gives a new handle to a session with the same tokens, text and digests at
  revision zero with a fresh chain, and leaves the parent as it was but for its last use: the two
  then evolve apart, since an append changes only the session at its handle.\<close>

theorem fork_copies:
  assumes "tbl_ok (ss_sessions s)" "1 < c_max_sessions (ss_cfg s)" "fork sha s h = (s', Ok h')"
  shows "\<exists>x y key. tbl_get (ss_sessions s) h = Some x \<and> tbl_get (ss_sessions s') h' = Some y
     \<and> h' = ss_next_handle s \<and> materialize_all_ids y = materialize_all_ids x \<and> s_tail y = s_tail x
     \<and> s_sealed y = s_sealed x \<and> s_recovery y = s_recovery x \<and> s_content y = s_content x
     \<and> s_revision y = 0 \<and> s_prev_hash y = ZERO_HASH \<and> key_of s (s_key_id x) = Ok key
     \<and> s_record_hash y = commit_hash sha y (k_fingerprint key)
     \<and> (\<forall>j z. j \<noteq> h' \<longrightarrow> j \<noteq> h \<longrightarrow> tbl_get (ss_sessions s') j = Some z \<longrightarrow> tbl_get (ss_sessions s) j = Some z)
     \<and> (\<forall>z. h \<noteq> h' \<longrightarrow> tbl_get (ss_sessions s') h = Some z \<longrightarrow> z = x\<lparr>s_last_used := Suc (ss_clock s)\<rparr>)"
proof (rule fork_Ok [OF assms(1) _ assms(3)])
  show "0 < c_max_sessions (ss_cfg s)" using assms(2) by simp
next
  fix x :: session and key
  let ?y = "x\<lparr>s_last_used := Suc (ss_clock s)\<rparr>"
  assume x: "tbl_get (ss_sessions s) h = Some x" "key_of s (s_key_id x) = Ok key"
    and ins: "inserted (put_session (tick s) h ?y) s' h' (fork_session sha key ?y)"
  note g = inserted_get [OF ins]
  have old: "tbl_get (ss_sessions s) j = Some z" if "j \<noteq> h'" "j \<noteq> h" "tbl_get (ss_sessions s') j = Some z" for j z
    using g(3) [OF that(1,3)] that(2) by simp
  have parent: "z = ?y" if "h \<noteq> h'" "tbl_get (ss_sessions s') h = Some z" for z
    using g(3) [OF that] by simp
  have m: "materialize_all_ids (fork_session sha key ?y) = materialize_all_ids x" by (simp add: materialize_eq)
  have rh: "s_record_hash (fork_session sha key ?y)
      = commit_hash sha (fork_session sha key ?y) (k_fingerprint key)"
    by (simp add: fork_session_def Let_def commit_hash_def sess_token_count_def recorded_replace_def)
  show ?thesis
    by (rule exI [of _ x], rule exI [of _ "fork_session sha key ?y"], rule exI [of _ key], intro conjI)
      (use x g(1,2) old parent m rh in \<open>simp_all\<close>)
qed

definition demo_fork :: "store \<times> nat res" where
  "demo_fork = fork demo_sha (demo_store default_config) 1"

lemma demo_fork_run: "fork demo_sha (demo_store default_config) 1 = (fst demo_fork, Ok 2)"
proof -
  have "snd demo_fork = Ok 2"
    by (simp add: demo_fork_def fork_def evict_for_capacity.simps demo_store_def demo_keyed_def demo_empty_def
        default_config_def demo_session_def tick_def stat_def key_of_def session_of_def tbl_get_def tbl_put_def
        put_session_def insert_session_def fresh_def Let_def)
  then show ?thesis by (simp add: demo_fork_def prod_eq_iff)
qed

theorem fork_copies_witness:
  "\<exists>y. tbl_get (ss_sessions (fst demo_fork)) 2 = Some y \<and> s_tail y = demo_tail \<and> s_revision y = 0"
  using fork_copies [OF demo_store_ok(1) _ demo_fork_run] demo_get [of default_config]
  by (simp add: demo_store_ok default_config_def) (auto simp: demo_session_def)

section \<open>Rows\<close>

lemma shared_row_exists:
  "tbl_get (ss_sessions s) h = Some x \<Longrightarrow> \<exists>row. snd (shared_all_ids s h) = Ok row"
  by (auto simp: shared_all_ids_def Let_def session_of_def case_prod_unfold split: option.splits)

lemma cached_row_touch: "cached_row (y\<lparr>s_last_used := n\<rparr>) = cached_row y"
  by (cases "s_snapshot y") (simp_all add: cached_row_def split_def)

lemma shared_row_cached:
  assumes "shared_all_ids s h = (s', Ok row)"
  shows "snd (shared_all_ids s' h) = Ok row \<and> ss_materializations (fst (shared_all_ids s' h)) = ss_materializations s'"
proof -
  from assms obtain y where y: "tbl_get (ss_sessions s') h = Some y" "cached_row y = Some row"
    by (cases "tbl_get (ss_sessions s) h")
      (auto simp: shared_all_ids_def Let_def session_of_def cached_row_def case_prod_unfold split: option.splits prod.splits if_splits)
  then have "cached_row (y\<lparr>s_last_used := Suc (ss_clock s')\<rparr>) = Some row" by (simp add: cached_row_touch)
  then show ?thesis using y
    by (simp add: shared_all_ids_def Let_def session_of_def tick_def put_session_def)
qed

text \<open>The copied row and the shared row of a session hold the same tokens, its sealed stream and its
  tail; a second shared read returns the very same row and copies nothing.\<close>

theorem rows_agree:
  assumes "tbl_get (ss_sessions s) h = Some x" "sess_wf x"
  shows "snd (all_ids s h) = Ok (materialize_all_ids x)
     \<and> (\<exists>row s'. shared_all_ids s h = (s', Ok row) \<and> shared_wf row \<and> as_slice row = materialize_all_ids x
          \<and> snd (shared_all_ids s' h) = Ok row
          \<and> ss_materializations (fst (shared_all_ids s' h)) = ss_materializations s')"
proof
  show "snd (all_ids s h) = Ok (materialize_all_ids x)"
    using assms(1) by (simp add: all_ids_def Let_def session_of_def)
  obtain s' row where run: "shared_all_ids s h = (s', Ok row)"
    using shared_row_exists [OF assms(1)] by (metis prod.collapse)
  have "shared_wf row \<and> as_slice row = materialize_all_ids x"
  proof (rule shared_all_ids_Ok [OF run])
    show "sess_wf z" if "tbl_get (ss_sessions s) h = Some z" for z using that assms by simp
  next
    fix z y :: session
    assume "tbl_get (ss_sessions s) h = Some z" "shared_wf row" "as_slice row = materialize_all_ids z"
    then show ?thesis using assms(1) by simp
  qed
  then show "\<exists>row s'. shared_all_ids s h = (s', Ok row) \<and> shared_wf row \<and> as_slice row = materialize_all_ids x
      \<and> snd (shared_all_ids s' h) = Ok row \<and> ss_materializations (fst (shared_all_ids s' h)) = ss_materializations s'"
    using run shared_row_cached [OF run] by blast
qed

theorem rows_agree_witness:
  "snd (all_ids (demo_store default_config) 1) = Ok [fnv1a [97, 98], fnv1a [32], fnv1a [99]]"
  using rows_agree [OF demo_get demo_wf] by (simp add: materialize_eq demo_session_def demo_tail_def)

text \<open>A handle that names no session is an error of every operation on sessions, and none of them
  touches the table.\<close>

theorem unknown_handle_refused:
  assumes "tbl_get (ss_sessions s) h = None"
  shows "append_patch sha blake s h d n engine = (s, Err (UnknownSession h))
     \<and> snd (append_session sha blake s h d n engine) = Err (UnknownSession h)
     \<and> fork sha s h = (tick s, Err (UnknownSession h)) \<and> all_ids s h = (tick s, Err (UnknownSession h))
     \<and> shared_all_ids s h = (tick s, Err (UnknownSession h)) \<and> revision s h = Err (UnknownSession h)
     \<and> session_info_of s h = Err (UnknownSession h) \<and> export_session sha s h = (s, Err (UnknownSession h))
     \<and> export_session_sidecar sha s h = Err (UnknownSession h) \<and> snd (evict s h) = False"
  using assms
  by (simp add: append_patch_def append_session_def fork_def all_ids_def shared_all_ids_def revision_def
      session_info_of_def export_session_def export_session_sidecar_def evict_def session_of_def Let_def)

theorem unknown_handle_refused_witness:
  "append_patch demo_sha demo_blake (demo_store default_config) 9 demo_delta 0 demo_engine
     = (demo_store default_config, Err (UnknownSession 9))"
  using unknown_handle_refused [of "demo_store default_config" 9] by (simp add: demo_store_def tbl_get_def)

section \<open>Sealing\<close>

text \<open>The bookkeeping after a text change (writing chain nodes, searching a boundary, moving tokens
  from the tail to the sealed stream) never changes the token row, the revision or the hashes, and keeps
  the session well formed, whatever the engine answers and whether or not it ends in an error.\<close>

theorem bookkeeping_keeps_tokens:
  assumes "sess_wf (wk_sess w)" "post_text_ops sha cfg key engine w = (w', r)"
  shows "sess_wf (wk_sess w') \<and> materialize_all_ids (wk_sess w') = materialize_all_ids (wk_sess w)
     \<and> same_core (wk_sess w) (wk_sess w')"
proof -
  have st: "settled engine (k_guard key) (wk_sess w) (wk_sess w')"
    using post_text_ops_settled [OF assms(1), of engine key sha cfg] assms(2) by simp
  show ?thesis using settled_ids [OF st] st by (simp add: settled_def)
qed

theorem bookkeeping_keeps_tokens_witness:
  "materialize_all_ids (wk_sess (fst (post_text_ops demo_sha default_config \<lparr>k_fingerprint = 7, k_guard = 0\<rparr> demo_engine
     (work_of (demo_store default_config) demo_session)))) = [fnv1a [97, 98], fnv1a [32], fnv1a [99]]"
  using bookkeeping_keeps_tokens [where w = "work_of (demo_store default_config) demo_session" and sha = demo_sha
      and cfg = default_config and key = "\<lparr>k_fingerprint = 7, k_guard = 0\<rparr>" and engine = demo_engine] demo_wf
  by (simp add: prod_eq_iff) (simp add: materialize_eq demo_session_def demo_tail_def)

text \<open>C20 Sealing is safe: if the engine certifies its cuts, a session that represents a text still
  represents it after the bookkeeping, so the sealed tokens stay right for every continuation.\<close>

theorem sealing_keeps_reference:
  assumes "session_encoder engine R guard" "represents R (wk_sess w) T" "guard \<le> k_guard key"
  shows "represents R (wk_sess (fst (post_text_ops sha cfg key engine w))) T"
proof -
  have "sess_wf (wk_sess w)" using assms(2) by (simp add: represents_def)
  from session_encoder.settled_represents [OF assms(1,2) post_text_ops_settled [OF this] assms(3)]
  show ?thesis .
qed

theorem sealing_keeps_reference_witness:
  "represents demo_ref (wk_sess (fst (post_text_ops demo_sha default_config \<lparr>k_fingerprint = 7, k_guard = 0\<rparr> demo_engine
     (work_of (demo_store default_config) demo_session)))) demo_text"
  by (rule sealing_keeps_reference [OF mock.session_encoder_axioms]) (simp_all add: demo_represents)

end
