(* ===== verification/FormatFacts.thy ===== *)
theory FormatFacts
  imports FormatProps SidecarProps Recovery
begin

text \<open>
  The properties of the persistent formats: session records, chain nodes, session sidecars, recovery
  bindings and the content digest they carry. The hash functions are parameters throughout; where a
  property rests on a hash, its statement names the two messages that must not collide.
\<close>

section \<open>Session records\<close>

text \<open>A record to try the statements on: revision 3 of a text whose tail is "abc", in two tokens.\<close>

definition sample_record :: session_record where
  "sample_record = \<lparr>r_fingerprint = 7, r_witness = BpeSyncTransition, r_revision = 3, r_prev = 5, r_curr = 0,
     r_stable = 10, r_replace = 1, r_ids = [65, 70000], r_tail = [97, 98, 99]\<rparr>"

lemma sample_record_ok: "record_ok sample_record"
  by (simp add: record_ok_def obligations_iff sample_record_def full_text_bytes_def valid_utf8_def is_cont_def)

lemma sample_record_decodes:
  "record_from_bytes sha (record_image sha sample_record) = Ok (sample_record\<lparr>r_curr := compute_curr sha sample_record\<rparr>)"
  by (rule record_round_trip [OF sample_record_ok])

text \<open>C27 The writer of session records accepts exactly the records that satisfy the writer
  obligations, and the strict reader returns what was written, field by field, with the chain link
  recomputed: the records that survive a write and a read unchanged are the well-formed ones that
  carry their own link.\<close>

theorem record_codec_exact:
  "(\<exists>b. record_to_bytes sha r = Ok b \<and> record_from_bytes sha b = Ok r) \<longleftrightarrow>
     record_ok r \<and> r_curr r = compute_curr sha r"
proof
  assume "\<exists>b. record_to_bytes sha r = Ok b \<and> record_from_bytes sha b = Ok r"
  then show "record_ok r \<and> r_curr r = compute_curr sha r" using record_from_bytes_sound by blast
next
  assume "record_ok r \<and> r_curr r = compute_curr sha r"
  moreover from this have "r\<lparr>r_curr := compute_curr sha r\<rparr> = r" by (cases r) simp
  ultimately show "\<exists>b. record_to_bytes sha r = Ok b \<and> record_from_bytes sha b = Ok r"
    using record_codec.round_trip [of r sha] by auto
qed

text \<open>What the strict reader lets through: the payload after the header is exactly the token
  identifiers and the text tail of the record, every length field of the header agrees with it, the
  checksum slot holds the checksum of the image, and the stored link is the recomputed one.\<close>

theorem record_reader_sound:
  assumes "record_from_bytes sha b = Ok r"
  shows "record_ok r \<and> r_curr r = compute_curr sha r \<and> (\<exists>hl. decoded sha b hl r)"
  using record_from_bytes_sound [OF assms] by blast

theorem record_reader_sound_witness:
  "record_ok (sample_record\<lparr>r_curr := compute_curr (\<lambda>_. 0) sample_record\<rparr>)
   \<and> (\<exists>hl. decoded (\<lambda>_. 0) (record_image (\<lambda>_. 0) sample_record) hl
        (sample_record\<lparr>r_curr := compute_curr (\<lambda>_. 0) sample_record\<rparr>))"
  using record_reader_sound [OF sample_record_decodes [of "\<lambda>_. 0"]] by blast

text \<open>A record image has one reading and one writing: an accepted image with the plain header
  (no extension area, no optional flag) is reproduced byte for byte by the writer.\<close>

theorem record_image_canonical:
  assumes "record_from_bytes sha b = Ok r" "nat_at b 10 2 = FIXED_HEADER_LEN" "nat_at b 12 4 = 0"
  shows "record_to_bytes sha r = Ok b"
  using record_reencode assms by blast

theorem record_image_canonical_witness:
  "record_to_bytes (\<lambda>_. 0) (sample_record\<lparr>r_curr := compute_curr (\<lambda>_. 0) sample_record\<rparr>)
     = Ok (record_image (\<lambda>_. 0) sample_record)"
  by (rule record_image_canonical [OF sample_record_decodes])
    (simp_all add: record_image_def Let_def header_slices of_le_le_bytes)

section \<open>The chain link\<close>

lemma bytes_inj: "length a = length b \<Longrightarrow> a @ x = b @ y \<longleftrightarrow> a = b \<and> x = y"
  by simp

lemma le_bytes_eq: "a < 256 ^ n \<Longrightarrow> b < 256 ^ n \<Longrightarrow> le_bytes n a = le_bytes n b \<longleftrightarrow> a = b"
  by (metis of_le_le_bytes)

lemma hash_bytes_eq: "hash_bytes a = hash_bytes b \<longleftrightarrow> a = b"
  by (metis hash_of_hash_bytes)

lemma witness_u16_eq: "witness_as_u16 a = witness_as_u16 b \<longleftrightarrow> a = b"
  by (cases a; cases b) simp_all

lemma link_preimage_eq:
  assumes "li_revision i < 256 ^ 8" "li_full i < 256 ^ 8" "li_stable i < 256 ^ 8" "li_tail i < 256 ^ 8"
    "li_tokens i < 256 ^ 8" "li_replace i < 256 ^ 8" "li_revision j < 256 ^ 8" "li_full j < 256 ^ 8"
    "li_stable j < 256 ^ 8" "li_tail j < 256 ^ 8" "li_tokens j < 256 ^ 8" "li_replace j < 256 ^ 8"
    and eq: "link_preimage i = link_preimage j"
  shows "i = j"
proof -
  note le = le_bytes_eq [where n = 8] and wit = le_bytes_eq [where n = 2, OF witness_u16_bound witness_u16_bound]
  have "hash_bytes (li_prev i) = hash_bytes (li_prev j) \<and> hash_bytes (li_fingerprint i) = hash_bytes (li_fingerprint j)
      \<and> le_bytes 8 (li_revision i) = le_bytes 8 (li_revision j) \<and> le_bytes 8 (li_full i) = le_bytes 8 (li_full j)
      \<and> le_bytes 8 (li_stable i) = le_bytes 8 (li_stable j) \<and> le_bytes 8 (li_tail i) = le_bytes 8 (li_tail j)
      \<and> le_bytes 8 (li_tokens i) = le_bytes 8 (li_tokens j) \<and> le_bytes 8 (li_replace i) = le_bytes 8 (li_replace j)
      \<and> le_bytes 2 (witness_as_u16 (li_witness i)) = le_bytes 2 (witness_as_u16 (li_witness j))
      \<and> hash_bytes (li_digest i) = hash_bytes (li_digest j)"
    using eq by (simp only: link_preimage_def bytes_inj length_hash_bytes length_le_bytes same_append_eq)
  then show ?thesis
    unfolding hash_bytes_eq wit witness_u16_eq le [OF assms(1,7)] le [OF assms(2,8)] le [OF assms(3,9)]
      le [OF assms(4,10)] le [OF assms(5,11)] le [OF assms(6,12)]
    by (intro link_inputs.equality) simp_all
qed

lemma record_ok_small:
  assumes "record_ok r"
  shows "r_revision r < 256 ^ 8" "full_text_bytes r < 256 ^ 8" "r_stable r < 256 ^ 8" "length (r_tail r) < 256 ^ 8"
    "length (r_ids r) < 256 ^ 8" "r_replace r < 256 ^ 8"
  using assms by (auto simp: record_ok_def obligations_iff full_text_bytes_def)

lemma ids_le_inj: "length a = length b \<Longrightarrow> ids_le a @ x = ids_le b @ y \<Longrightarrow> a = b \<and> x = y"
  by (metis append_eq_append_conv length_ids_le u32s_of_ids_le)

text \<open>The message that the payload digest of a record hashes.\<close>

definition payload_preimage :: "session_record \<Rightarrow> u8 list" where
  "payload_preimage r = DOMAIN_PAYLOAD @ ids_le (r_ids r) @ r_tail r"

definition link_message :: "(u8 list \<Rightarrow> hash32) \<Rightarrow> session_record \<Rightarrow> u8 list" where
  "link_message sha r = link_preimage (link_of r (sha (payload_preimage r)))"

lemma compute_curr_message: "compute_curr sha r = sha (link_message sha r)"
  by (simp add: compute_curr_def link_hash_def link_message_def payload_preimage_def payload_digest_parts_eq)

text \<open>C30 The chain link commits to the record: two accepted images with the same link hold the same
  record, unless the hash collides on the two payloads or on the two link messages. Since a link
  hashes the link of the revision before it, the newest link commits to the whole history.\<close>

theorem record_link_commits:
  assumes "record_from_bytes sha a = Ok r" "record_from_bytes sha b = Ok q" "r_curr r = r_curr q"
    and "sha (link_message sha r) = sha (link_message sha q) \<Longrightarrow> link_message sha r = link_message sha q"
    and "sha (payload_preimage r) = sha (payload_preimage q) \<Longrightarrow> payload_preimage r = payload_preimage q"
  shows "r = q"
proof -
  note r = record_from_bytes_sound(1,2) [OF assms(1)] and q = record_from_bytes_sound(1,2) [OF assms(2)]
  have "link_message sha r = link_message sha q" using assms(3,4) r(2) q(2) by (simp add: compute_curr_message)
  then have "link_of r (sha (payload_preimage r)) = link_of q (sha (payload_preimage q))"
    unfolding link_message_def
    using record_ok_small [OF r(1)] record_ok_small [OF q(1)] by (intro link_preimage_eq) (simp_all add: link_of_def)
  then have l: "r_prev r = r_prev q" "r_fingerprint r = r_fingerprint q" "r_revision r = r_revision q"
    "r_stable r = r_stable q" "length (r_ids r) = length (r_ids q)" "r_replace r = r_replace q"
    "r_witness r = r_witness q" "sha (payload_preimage r) = sha (payload_preimage q)"
    by (simp_all add: link_of_def)
  then have "ids_le (r_ids r) @ r_tail r = ids_le (r_ids q) @ r_tail q"
    using assms(5) by (simp add: payload_preimage_def)
  with l(5) have "r_ids r = r_ids q \<and> r_tail r = r_tail q" by (rule ids_le_inj)
  with l assms(3) show ?thesis by (intro session_record.equality) simp_all
qed

theorem record_link_commits_witness:
  "(\<exists>a. record_from_bytes (\<lambda>_. 0) a = Ok (sample_record\<lparr>r_curr := compute_curr (\<lambda>_. 0) sample_record\<rparr>))
   \<and> sample_record\<lparr>r_curr := compute_curr (\<lambda>_. 0) sample_record\<rparr> = sample_record\<lparr>r_curr := compute_curr (\<lambda>_. 0) sample_record\<rparr>"
  using record_link_commits [OF sample_record_decodes [of "\<lambda>_. 0"] sample_record_decodes [of "\<lambda>_. 0"] refl]
    sample_record_decodes [of "\<lambda>_. 0"] by blast

section \<open>Chain nodes and sidecars\<close>

text \<open>Chain nodes: the node records that survive a write and a strict read are exactly those
  whose lengths fit their 32-bit fields, whose counters fit 64 bits, whose safe cut lies inside the
  block, whose text tail fits before the block end and is UTF-8.\<close>

theorem node_codec_exact:
  "(\<exists>b. node_to_bytes sha n = Ok b \<and> node_from_bytes sha b = Ok n) \<longleftrightarrow> node_ok n"
  using node_codec.round_trip [of n sha] node_from_bytes_sound by blast

text \<open>Session sidecars: the sidecars that survive a write and a strict read are exactly those
  with UTF-8 buffers, lengths and counters in their fields' range, and cuts within the text.\<close>

theorem sidecar_codec_exact:
  "(\<exists>b. sidecar_to_bytes sha s = Ok b \<and> sidecar_from_bytes sha b = Ok s) \<longleftrightarrow> sidecar_ok s"
  using sidecar_codec.round_trip [of s sha] sidecar_from_bytes_sound by blast

section \<open>Recovery bindings\<close>

text \<open>Recovery bindings: the bindings that survive a write and a strict read are exactly those
  whose checkpoints are canonical (4096 doubling, complete, below the length).\<close>

theorem binding_codec_exact:
  "(\<exists>b'. binding_to_bytes sha b = Ok b' \<and> binding_from_bytes sha b' = Ok b) \<longleftrightarrow> binding_ok b"
  using binding_codec.round_trip [of b sha] binding_from_bytes_sound by blast


section \<open>The content digest\<close>

text \<open>The incremental content digest does not depend on how the text was cut: feeding the parts
  one by one leaves the digest, the checkpoints and the next checkpoint of the whole text, and no
  part fails, as long as the whole stays below 2^63 bytes.\<close>

theorem content_digest_incremental:
  assumes "length (concat parts) \<le> u64_max div 2"
  shows "foldl (\<lambda>m part. andthen m (\<lambda>d _. content_append blake d part)) (content_empty, Ok ()) parts
     = (content_of blake (concat parts), Ok ())"
  using assms
proof (induction parts rule: rev_induct)
  case Nil
  then show ?case by (simp add: content_empty_of)
next
  case (snoc part parts)
  then show ?case using content_append_ok [of "concat parts" part blake] by simp
qed

theorem content_digest_incremental_witness:
  "foldl (\<lambda>m part. andthen m (\<lambda>d _. content_append (\<lambda>_. 0) d part)) (content_empty, Ok ()) [[1, 2], [], [3]]
     = (content_of (\<lambda>_. 0) [1, 2, 3], Ok ())"
  using content_digest_incremental [of "[[1, 2], [], [3]]" "\<lambda>_. 0"] by simp

end
