(* ===== verification/TransportFacts.thy ===== *)
theory TransportFacts
  imports StoreFacts FormatFacts
begin

text \<open>
  The properties of record transport: the session hash is the link of the exported record, an exported
  session is imported as a session that represents the same text, the gates of the imports, and the
  recovery binding.
\<close>

section \<open>The record of a session\<close>

lemma commit_hash_link:
  assumes "sess_wf x" "s_safe_byte x + text_bytes (s_tail x) \<le> u64_max"
  shows "commit_hash sha x f = compute_curr sha (record_of x f)"
  using assms token_count_ok [OF assms(1)] commit_digest [OF assms(1), of sha]
  by (simp add: commit_hash_def compute_curr_def link_of_def record_of_def full_text_bytes_def add64_def Let_def)

text \<open>The record that an export writes, and what its reader makes of it.\<close>

lemma export_session_Ok:
  assumes "export_session sha s h = (s', Ok bytes)" "tbl_get (ss_sessions s) h = Some x"
    "key_of s (s_key_id x) = Ok key"
  shows "record_to_bytes sha (record_of x (k_fingerprint key)) = Ok bytes"
proof -
  have "session_of s h = Ok x" using assms(2) by simp
  then show ?thesis using assms(1,3) by (simp only: export_session_def attempt.simps) simp
qed

lemma exported_record:
  assumes wf: "sess_wf x" and rev: "s_revision x \<le> u64_max" and hash: "s_record_hash x = commit_hash sha x f"
    and b: "record_to_bytes sha (record_of x f) = Ok bytes"
  shows "record_from_bytes sha bytes = Ok (record_of x f)" "record_ok (record_of x f)"
proof -
  let ?r = "record_of x f"
  have ob: "check_writer_obligations ?r = Ok ()" using b by (auto simp: record_to_bytes_def rbind_eq_Ok)
  then show ok: "record_ok ?r"
    using wf rev by (simp add: record_ok_def) (simp add: record_of_def sess_wf_def tail_wf_def)
  have "s_safe_byte x + text_bytes (s_tail x) \<le> u64_max"
    using ob by (simp add: obligations_iff full_text_bytes_def record_of_def)
  then have "compute_curr sha ?r = s_record_hash x" using commit_hash_link [OF wf] hash by simp
  then have "?r\<lparr>r_curr := compute_curr sha ?r\<rparr> = ?r" by (simp add: record_of_def)
  moreover have "bytes = record_image sha ?r" using record_to_bytes_eq [OF ob, of sha] b by simp
  ultimately show "record_from_bytes sha bytes = Ok ?r" using record_round_trip [OF ok, of sha] by simp
qed

section \<open>Export and import\<close>

text \<open>What the import gates make of the record of a faithful session.\<close>

lemma refill:
  assumes wf: "tail_wf t" and f: "faithful R t"
  shows "\<exists>t'. fill_state (tl_text t) (R (tl_text t)) = Ok t'"
proof -
  note sp = spans_of_wf [OF wf]
  have e: "spans_of t = (map fst (enc_spans (R (tl_text t))), map snd (enc_spans (R (tl_text t))))"
    "ids_of t = enc_ids (R (tl_text t))" using f by (simp_all add: faithful_def)
  have "length (enc_ids (R (tl_text t))) = length (enc_spans (R (tl_text t)))" using sp(1) e by simp
  moreover have "list_all (span_ok (char_count (tl_text t))) (enc_spans (R (tl_text t)))"
    using sp(3) e wf by (simp add: zip_map_fst_snd tail_wf_def)
  ultimately show ?thesis using wf by (simp add: fill_state_def chars_u32_def tail_wf_def rbind_eq_Ok)
qed

lemma gates_pass:
  assumes read: "record_from_bytes sha bytes = Ok (record_of x f)" and fp: "k_fingerprint key = f"
    and w: "s_witness x = eng_witness engine" and enc: "eng_encode engine (tl_text (s_tail x)) = Ok (R (tl_text (s_tail x)))"
    and wf: "sess_wf x" and faith: "faithful R (s_tail x)"
    and stable: "sl_len (s_sealed x) = 0 \<longleftrightarrow> s_safe_byte x = 0"
  shows "\<exists>t'. fill_state (tl_text (s_tail x)) (R (tl_text (s_tail x))) = Ok t'
    \<and> import_record_gates sha s key bytes engine = (s, Ok (record_of x f, sl_len (s_sealed x), t'))"
proof -
  obtain t' where t': "fill_state (tl_text (s_tail x)) (R (tl_text (s_tail x))) = Ok t'"
    using refill [OF _ faith] wf by (auto simp: sess_wf_def)
  have ids: "r_ids (record_of x f) = sealed_stream (s_sealed x) @ enc_ids (R (tl_text (s_tail x)))"
    using faith by (simp add: record_of_def materialize_eq faithful_def)
  have sl: "length (sealed_stream (s_sealed x)) = sl_len (s_sealed x)" using wf by (simp add: sess_wf_def sealed_wf_def)
  have r: "r_fingerprint (record_of x f) = f" "r_witness (record_of x f) = s_witness x"
    "r_tail (record_of x f) = tl_text (s_tail x)" "r_stable (record_of x f) = s_safe_byte x"
    by (simp_all add: record_of_def)
  have "import_record_gates sha s key bytes engine = (s, Ok (record_of x f, sl_len (s_sealed x), t'))"
    using fp w stable by (simp add: import_record_gates_def read r enc ids sl t' Let_def)
  with t' show ?thesis by blast
qed

lemma bare_digests_Ok:
  assumes "length (r_tail r) \<le> MAX_TAIL_BYTES_OR_TOKENS"
  shows "\<exists>d. bare_digests blake s r = Ok d"
  using assms content_from_bytes_ok [of "r_tail r" blake]
  by (auto simp: bare_digests_def recovery_from_text_def recovery_append_def recovery_empty_def checked_add64_def)

text \<open>The imported session represents what the exported one did.\<close>

lemma detached_represents:
  assumes rep: "represents R x T" and t: "fill_state (tl_text (s_tail x)) (R (tl_text (s_tail x))) = Ok t"
  shows "represents R (detached_import_session k (record_of x f) (sl_len (s_sealed x)) t c rc cc) T"
proof -
  note r = rep [unfolded represents_def]
  have wf: "sess_wf x" and faith: "faithful R (s_tail x)" using r by blast+
  have v: "valid_utf8 (tl_text (s_tail x))" using wf by (simp add: sess_wf_def tail_wf_def)
  note ft = fill_state_Ok [OF t v]
  have ids: "take (sl_len (s_sealed x)) (r_ids (record_of x f)) = sealed_stream (s_sealed x)"
    using wf by (simp add: record_of_def materialize_eq sess_wf_def sealed_wf_def)
  let ?y = "detached_import_session k (record_of x f) (sl_len (s_sealed x)) t c rc cc"
  have y: "s_tail ?y = t" "sealed_stream (s_sealed ?y) = sealed_stream (s_sealed x)"
    "sealed_wf (s_sealed ?y)" "s_payload ?y = DOMAIN_PAYLOAD @ ids_le (sealed_stream (s_sealed ?y))" "s_snapshot ?y = None"
    by (simp_all add: detached_import_session_def ids fresh_def payload_hasher_new_def)
  have "sorted (map fst (enc_spans (R (tl_text (s_tail x)))))"
    using wf faith by (simp add: sess_wf_def ordered_def faithful_def)
  then have "tail_ok t" by (rule fill_ok [OF t v])
  then have "sess_wf ?y" using y by (simp add: sess_wf_def tail_ok_def snapshot_ok_def)
  moreover have "faithful R t" using ft faith by (simp add: faithful_def)
  ultimately show ?thesis using r y ft(2) by (simp add: represents_def)
qed

text \<open>The parts of an export and of the import of what it wrote, as one statement.\<close>

lemma import_exported:
  assumes x: "represents R x T" "s_revision x \<le> u64_max"
    "s_record_hash x = commit_hash sha x f" "sl_len (s_sealed x) = 0 \<longleftrightarrow> s_safe_byte x = 0"
    and out: "record_to_bytes sha (record_of x f) = Ok bytes"
    and t: "tbl_ok (ss_sessions t)" "0 < c_max_sessions (ss_cfg t)" "key_of t k = Ok key" "k_fingerprint key = f"
    and e: "s_witness x = eng_witness engine" "eng_encode engine (tl_text (s_tail x)) = Ok (R (tl_text (s_tail x)))"
  shows "\<exists>t' h y. import_session sha blake t k bytes engine = (t', Ok h) \<and> inserted t t' h y \<and> represents R y T
    \<and> s_revision y = s_revision x \<and> s_prev_hash y = s_prev_hash x \<and> s_record_hash y = s_record_hash x
    \<and> s_last_replace y = recorded_replace x"
proof -
  have wf: "sess_wf x" and faith: "faithful R (s_tail x)" using x(1) by (simp_all add: represents_def)
  note rec = exported_record [OF wf x(2,3) out]
  obtain u where u: "fill_state (tl_text (s_tail x)) (R (tl_text (s_tail x))) = Ok u"
    "import_record_gates sha t key bytes engine = (t, Ok (record_of x f, sl_len (s_sealed x), u))"
    using gates_pass [OF rec(1) t(4) e wf faith x(4)] by blast
  have "length (r_tail (record_of x f)) \<le> MAX_TAIL_BYTES_OR_TOKENS"
    using rec(2) by (simp add: record_ok_def obligations_iff)
  then obtain rc cc where d: "bare_digests blake t (record_of x f) = Ok (rc, cc)"
    using bare_digests_Ok by (metis surj_pair)
  let ?y = "detached_import_session k (record_of x f) (sl_len (s_sealed x)) u (Suc (ss_clock t)) rc cc"
  let ?t1 = "evict_for_capacity (tick t)"
  have clock: "ss_clock ?t1 = Suc (ss_clock t)"
    using evicted_sel(4) [OF evict_for_capacity_ok(1), of "tick t"] t(1,2) by simp
  have run: "import_session sha blake t k bytes engine = (fst (insert_session ?t1 ?y), Ok (snd (insert_session ?t1 ?y)))"
    by (simp add: import_session_def t(3) u(2) d Let_def clock insert_import_def case_prod_unfold)
  have ins: "inserted t (fst (insert_session ?t1 ?y)) (snd (insert_session ?t1 ?y)) ?y"
    by (rule insert_inserted [where ?s1.0 = ?t1])
      (use t(1,2) evict_shrunk [of "tick t"] evict_for_capacity_ok(2) [of "tick t"] in simp_all)
  have "s_revision ?y = s_revision x" "s_prev_hash ?y = s_prev_hash x" "s_record_hash ?y = s_record_hash x"
    "s_last_replace ?y = recorded_replace x" by (simp_all add: detached_import_session_def record_of_def)
  with run ins detached_represents [OF x(1) u(1)] show ?thesis by metis
qed

text \<open>C19 Export and import carry a session over: under an engine that meets the contract and encodes the
  tail, the record that a committed session exports is accepted by any store that knows the fingerprint,
  and the imported session represents the same text, with the same tokens, at the same revision and on
  the same hash chain. The hash a session commits to is the link of its record.\<close>

theorem export_import_represents:
  assumes "session_encoder engine R guard" "tbl_get (ss_sessions s) h = Some x" "represents R x T"
    and "s_revision x \<le> u64_max" "key_of s (s_key_id x) = Ok key"
    and "s_record_hash x = commit_hash sha x (k_fingerprint key)" "sl_len (s_sealed x) = 0 \<longleftrightarrow> s_safe_byte x = 0"
    and "export_session sha s h = (s', Ok bytes)"
    and "tbl_ok (ss_sessions t)" "0 < c_max_sessions (ss_cfg t)" "key_of t k = Ok key'" "k_fingerprint key' = k_fingerprint key"
    and "s_witness x = eng_witness engine" "eng_encode engine (tl_text (s_tail x)) = Ok e"
  shows "\<exists>t' h' y. import_session sha blake t k bytes engine = (t', Ok h') \<and> tbl_get (ss_sessions t') h' = Some y
     \<and> represents R y T \<and> materialize_all_ids y = materialize_all_ids x \<and> s_revision y = s_revision x
     \<and> s_prev_hash y = s_prev_hash x \<and> s_record_hash y = s_record_hash x"
proof -
  have v: "valid_utf8 (tl_text (s_tail x))" using assms(3) by (simp add: represents_def sess_wf_def tail_wf_def)
  have "eng_encode engine (tl_text (s_tail x)) = Ok (R (tl_text (s_tail x)))"
    using session_encoder.encode_ref [OF assms(1) v assms(14)] assms(14) by simp
  from import_exported [OF assms(3,4,6,7) export_session_Ok [OF assms(8,2,5)] assms(9,10,11,12,13) this, of blake]
  obtain t' h' y where "import_session sha blake t k bytes engine = (t', Ok h')" "inserted t t' h' y"
    "represents R y T" "s_revision y = s_revision x" "s_prev_hash y = s_prev_hash x" "s_record_hash y = s_record_hash x"
    by blast
  then show ?thesis using inserted_get(1) represents_ids [OF assms(3)] represents_ids by metis
qed

definition demo_bytes :: "u8 list" where
  "demo_bytes = record_image demo_sha (record_of demo_session 7)"

lemma demo_record_written: "record_to_bytes demo_sha (record_of demo_session 7) = Ok demo_bytes"
  unfolding demo_bytes_def
  by (rule record_to_bytes_eq)
    (simp add: obligations_iff record_of_def demo_session_def demo_tail_def full_text_bytes_def fresh_def
      recorded_replace_def materialize_eq)

lemma demo_export: "export_session demo_sha (demo_store cfg) 1
    = (count_materialization (demo_store cfg), Ok demo_bytes)"
proof -
  have "session_of (demo_store cfg) 1 = Ok demo_session" using demo_get by simp
  moreover have "key_of (demo_store cfg) (s_key_id demo_session) = Ok \<lparr>k_fingerprint = 7, k_guard = 0\<rparr>"
    using demo_key by (simp add: demo_session_def)
  ultimately show ?thesis by (simp only: export_session_def attempt.simps key_ctx.simps demo_record_written)
qed

lemma demo_committed:
  "key_of (demo_store default_config) (s_key_id demo_session) = Ok \<lparr>k_fingerprint = 7, k_guard = 0\<rparr>"
  "key_of (demo_keyed default_config) 0 = Ok \<lparr>k_fingerprint = 7, k_guard = 0\<rparr>"
  "s_witness demo_session = eng_witness demo_engine"
  "eng_encode demo_engine (tl_text (s_tail demo_session)) = Ok (demo_ref demo_text)"
  "s_revision demo_session \<le> u64_max"
  "s_record_hash demo_session = commit_hash demo_sha demo_session (k_fingerprint \<lparr>k_fingerprint = 7, k_guard = 0\<rparr>)"
  "sl_len (s_sealed demo_session) = 0 \<longleftrightarrow> s_safe_byte demo_session = 0"
  "0 < c_max_sessions (ss_cfg (demo_keyed default_config))"
proof -
  show "key_of (demo_store default_config) (s_key_id demo_session) = Ok \<lparr>k_fingerprint = 7, k_guard = 0\<rparr>"
    using demo_key by (simp add: demo_session_def)
  show "s_witness demo_session = eng_witness demo_engine"
    by (simp add: demo_session_def fresh_def mock_encoder_def mock_witness_def mock_default_def)
  show "eng_encode demo_engine (tl_text (s_tail demo_session)) = Ok (demo_ref demo_text)"
    by (simp add: demo_session_def demo_tail_def)
qed (simp_all add: demo_session_def fresh_def key_of_def demo_keyed_def commit_hash_def link_hash_def sealed_default_def
    Let_def demo_empty_def default_config_def)

theorem export_import_represents_witness:
  "\<exists>t' h' y. import_session demo_sha demo_blake (demo_keyed default_config) 0 demo_bytes demo_engine = (t', Ok h')
     \<and> tbl_get (ss_sessions t') h' = Some y \<and> represents demo_ref y demo_text"
  using export_import_represents [OF mock.session_encoder_axioms demo_get demo_represents demo_committed(5,1,6,7)
      demo_export demo_keyed_ok(1) demo_committed(8,2) refl demo_committed(3,4), where blake = demo_blake] by blast

text \<open>The commit hash of a session, computed from the running hash of its sealed tokens, is the
  chain link that the record format recomputes from the whole exported record.\<close>

theorem commit_hash_is_link:
  assumes "sess_wf x" "s_safe_byte x + text_bytes (s_tail x) \<le> u64_max"
  shows "commit_hash sha x f = compute_curr sha (record_of x f)"
  by (rule commit_hash_link [OF assms])

theorem commit_hash_is_link_witness:
  "commit_hash demo_sha demo_session 7 = compute_curr demo_sha (record_of demo_session 7)"
  by (rule commit_hash_is_link [OF demo_wf]) (simp add: demo_session_def demo_tail_def fresh_def)

section \<open>The gates of an import\<close>

lemma reject_quiet [simp]: "quiet s (reject s1) = quiet s s1"
  by (simp add: reject_def)

lemma gates_quiet: "quiet s (fst (import_record_gates sha s key bytes engine))"
  unfolding import_record_gates_def Let_def
  by (intro attempt_state [where P = "quiet s"]) (simp_all add: attempt_state [where P = "quiet s"] split: if_splits)

lemma gates_Ok:
  assumes "import_record_gates sha s key bytes engine = (s', Ok (p, n, t))"
  obtains enc where "s' = s" "record_from_bytes sha bytes = Ok p" "r_fingerprint p = k_fingerprint key"
    "r_witness p = eng_witness engine" "eng_encode engine (r_tail p) = Ok enc" "fill_state (r_tail p) enc = Ok t"
    "r_ids p = take n (r_ids p) @ enc_ids enc" "n \<le> length (r_ids p)" "n = 0 \<longleftrightarrow> r_stable p = 0"
proof -
  from assms obtain enc where e: "s' = s" "record_from_bytes sha bytes = Ok p" "r_fingerprint p = k_fingerprint key"
    "r_witness p = eng_witness engine" "eng_encode engine (r_tail p) = Ok enc" "fill_state (r_tail p) enc = Ok t"
    "drop n (r_ids p) = enc_ids enc" "n = length (r_ids p) - length (enc_ids enc)" "n = 0 \<longleftrightarrow> r_stable p = 0"
    by (auto simp: import_record_gates_def Let_def attempt_eq_Ok split: if_splits)
  then have "r_ids p = take n (r_ids p) @ enc_ids enc" by (metis append_take_drop_id)
  with e show thesis using that by simp
qed

lemma import_session_cases:
  assumes run: "import_session sha blake s k bytes engine = (s', r)"
  obtains "quiet s s'" "\<forall>h. r \<noteq> Ok h"
  | key p n t rc cc where "key_of s k = Ok key" "import_record_gates sha s key bytes engine = (s, Ok (p, n, t))"
    "(s', r) = insert_import (evict_for_capacity (tick s))
       (detached_import_session k p n t (ss_clock (evict_for_capacity (tick s))) rc cc)"
proof (cases "key_of s k")
  case (Ok key)
  obtain s1 g where g: "import_record_gates sha s key bytes engine = (s1, g)"
    by (cases "import_record_gates sha s key bytes engine")
  have q: "quiet s s1" using gates_quiet [of s sha key bytes engine] g by simp
  show thesis
  proof (cases g)
    case gOk: (Ok x)
    obtain p n t where x: "x = (p, n, t)" by (cases x) auto
    have g': "import_record_gates sha s key bytes engine = (s1, Ok (p, n, t))" using g gOk x by simp
    then have s1: "s1 = s" by (rule gates_Ok)
    show thesis
    proof (cases "bare_digests blake s p")
      case dOk: (Ok d)
      then show thesis
        using run g' s1 Ok
        by (intro that(2) [where key = key and p = p and n = n and t = t and rc = "fst d" and cc = "snd d"])
          (simp_all add: import_session_def Let_def case_prod_unfold)
    qed (use run g' s1 Ok that(1) in \<open>auto simp: import_session_def\<close>)
  qed (use run g q Ok that(1) in \<open>auto simp: import_session_def\<close>)
qed (use run that(1) in \<open>auto simp: import_session_def\<close>)

text \<open>C26 What an import lets in: the record is accepted by the strict reader, belongs to the key and
  to the engine's witness category, its last tokens are what the engine makes of its tail, and it has
  sealed tokens exactly when it has a sealed text. The imported session has the tokens of the record and
  continues its hash chain at its revision, detached from the node chain.\<close>

theorem import_gates_hold:
  assumes "import_session sha blake s k bytes engine = (s', Ok h)" "tbl_ok (ss_sessions s)" "0 < c_max_sessions (ss_cfg s)"
  shows "\<exists>p key enc n y. key_of s k = Ok key \<and> record_from_bytes sha bytes = Ok p \<and> r_curr p = compute_curr sha p
     \<and> r_fingerprint p = k_fingerprint key \<and> r_witness p = eng_witness engine
     \<and> eng_encode engine (r_tail p) = Ok enc \<and> r_ids p = take n (r_ids p) @ enc_ids enc \<and> (n = 0 \<longleftrightarrow> r_stable p = 0)
     \<and> inserted s s' h y \<and> materialize_all_ids y = r_ids p \<and> tl_text (s_tail y) = r_tail p
     \<and> s_revision y = r_revision p \<and> s_prev_hash y = r_prev p \<and> s_record_hash y = r_curr p \<and> \<not> s_chain_ok y"
proof (rule import_session_cases [OF assms(1)])
  fix key p n t rc cc
  let ?t1 = "evict_for_capacity (tick s)"
  let ?y = "detached_import_session k p n t (ss_clock ?t1) rc cc"
  assume key: "key_of s k = Ok key" and g: "import_record_gates sha s key bytes engine = (s, Ok (p, n, t))"
    and out: "(s', Ok h) = insert_import ?t1 ?y"
  from gates_Ok [OF g] obtain enc where
    e: "record_from_bytes sha bytes = Ok p" "r_fingerprint p = k_fingerprint key"
    "r_witness p = eng_witness engine" "eng_encode engine (r_tail p) = Ok enc" "fill_state (r_tail p) enc = Ok t"
    "r_ids p = take n (r_ids p) @ enc_ids enc" "n = 0 \<longleftrightarrow> r_stable p = 0" by metis
  have "valid_utf8 (r_tail p)" using record_from_bytes_sound(1) [OF e(1)] by (simp add: record_ok_def)
  note f = fill_state_Ok [OF e(5) this]
  have "s' = fst (insert_session ?t1 ?y)" "h = snd (insert_session ?t1 ?y)"
    using out by (simp_all add: insert_import_def case_prod_unfold Let_def)
  then have ins: "inserted s s' h ?y"
    using insert_inserted [where ?s1.0 = ?t1 and ?s2.0 = ?t1 and x = ?y and s = s]
      evict_shrunk [of "tick s"] evict_for_capacity_ok(2) [of "tick s"] assms(2,3) by simp
  have y: "materialize_all_ids ?y = r_ids p" "tl_text (s_tail ?y) = r_tail p"
    using f e(6) by (simp_all add: materialize_eq detached_import_session_def)
  have z: "s_revision ?y = r_revision p" "s_prev_hash ?y = r_prev p" "s_record_hash ?y = r_curr p" "\<not> s_chain_ok ?y"
    by (simp_all add: detached_import_session_def)
  have c: "r_curr p = compute_curr sha p" by (rule record_from_bytes_sound(2) [OF e(1)])
  show ?thesis
    by (rule exI [of _ p], rule exI [of _ key], rule exI [of _ enc], rule exI [of _ n], rule exI [of _ ?y],
        intro conjI; fact)
qed simp

lemma demo_import_returns:
  "\<exists>t' h'. import_session demo_sha demo_blake (demo_keyed default_config) 0 demo_bytes demo_engine = (t', Ok h')"
proof -
  have e: "eng_encode demo_engine (tl_text (s_tail demo_session)) = Ok (demo_ref (tl_text (s_tail demo_session)))"
    by (simp add: demo_session_def demo_tail_def)
  have "record_to_bytes demo_sha (record_of demo_session (k_fingerprint \<lparr>k_fingerprint = 7, k_guard = 0\<rparr>)) = Ok demo_bytes"
    by (simp add: demo_record_written)
  from import_exported [OF demo_represents demo_committed(5,6,7) this demo_keyed_ok(1) demo_committed(8,2) refl
      demo_committed(3) e] show ?thesis by blast
qed

theorem import_gates_hold_witness:
  "\<exists>s' h y. inserted (demo_keyed default_config) s' h y \<and> s_revision y = 0 \<and> \<not> s_chain_ok y
     \<and> materialize_all_ids y = [fnv1a [97, 98], fnv1a [32], fnv1a [99]]"
proof -
  obtain s' h where run: "import_session demo_sha demo_blake (demo_keyed default_config) 0 demo_bytes demo_engine = (s', Ok h)"
    using demo_import_returns by blast
  have "record_to_bytes demo_sha (record_of demo_session 7) = Ok demo_bytes" by (rule demo_record_written)
  note rec = exported_record(1) [OF demo_wf demo_committed(5) _ this]
  have "record_from_bytes demo_sha demo_bytes = Ok (record_of demo_session 7)"
    by (rule rec) (use demo_committed(6) in simp)
  moreover have "r_revision (record_of demo_session 7) = 0"
    "r_ids (record_of demo_session 7) = [fnv1a [97, 98], fnv1a [32], fnv1a [99]]"
    by (simp_all add: record_of_def demo_session_def fresh_def materialize_eq demo_tail_def)
  ultimately show ?thesis
    using import_gates_hold [OF run demo_keyed_ok(1) demo_committed(8)] by auto
qed

lemma gates_error:
  assumes "import_record_gates sha s key bytes engine = (s', r)" "\<forall>x. r \<noteq> Ok x"
  shows "s' = reject s \<or> s' = s" "\<forall>p. record_from_bytes sha bytes \<noteq> Ok p \<Longrightarrow> s' = reject s"
proof -
  show "s' = reject s \<or> s' = s"
  proof (cases "record_from_bytes sha bytes")
    case (Ok p)
    then show ?thesis
    proof (cases "eng_encode engine (r_tail p)")
      case e: (Ok enc)
      show ?thesis using assms Ok e
        by (cases "fill_state (r_tail p) enc") (auto simp: import_record_gates_def Let_def split: if_splits)
    qed (use assms Ok in \<open>auto simp: import_record_gates_def Let_def split: if_splits\<close>)
  qed (use assms in \<open>auto simp: import_record_gates_def\<close>)
  show "s' = reject s" if "\<forall>p. record_from_bytes sha bytes \<noteq> Ok p"
    using that assms by (cases "record_from_bytes sha bytes") (auto simp: import_record_gates_def)
qed

text \<open>An import that fails leaves the store as it was, except that a rejection by a gate is counted
  once; bytes that the strict reader refuses are always counted.\<close>

theorem import_failure_counted:
  assumes "import_session sha blake s k bytes engine = (s', r)" "\<forall>h. r \<noteq> Ok h"
  shows "(s' = s \<or> s' = reject s)
     \<and> ((\<exists>key. key_of s k = Ok key) \<and> (\<forall>p. record_from_bytes sha bytes \<noteq> Ok p) \<longrightarrow> s' = reject s)"
proof (cases "key_of s k")
  case (Ok key)
  obtain s1 g where g: "import_record_gates sha s key bytes engine = (s1, g)"
    by (cases "import_record_gates sha s key bytes engine")
  show ?thesis
  proof (cases g)
    case gOk: (Ok x)
    obtain p n t where x: "x = (p, n, t)" by (cases x) auto
    have g': "import_record_gates sha s key bytes engine = (s1, Ok (p, n, t))" using g gOk x by simp
    then have s1: "s1 = s" "record_from_bytes sha bytes = Ok p" using gates_Ok [OF g'] by auto
    then have "s' = s"
      using assms g' Ok by (cases "bare_digests blake s p") (auto simp: import_session_def insert_import_def Let_def case_prod_unfold)
    then show ?thesis using s1(2) by simp
  next
    case (Err e)
    then have "s' = s1" using assms(1) g Ok by (simp add: import_session_def)
    then show ?thesis using gates_error [OF g] Err by auto
  next
    case Panic
    then have "s' = s1" using assms(1) g Ok by (simp add: import_session_def)
    then show ?thesis using gates_error [OF g] Panic by auto
  qed
qed (use assms in \<open>auto simp: import_session_def\<close>)

theorem import_failure_counted_witness:
  "fst (import_session demo_sha demo_blake (demo_keyed default_config) 0 [] demo_engine) = reject (demo_keyed default_config)"
proof -
  have "record_from_bytes demo_sha [] \<noteq> Ok p" for p
    by (auto simp: record_from_bytes_def decode_gate_def rbind_eq_Ok)
  then obtain e where bad: "record_from_bytes demo_sha [] = Err e"
    using record_from_bytes_no_panic [of demo_sha "[]"] by (cases "record_from_bytes demo_sha []") auto
  then have run: "import_session demo_sha demo_blake (demo_keyed default_config) 0 [] demo_engine = (reject (demo_keyed default_config), Err e)"
    using demo_committed(2) by (simp add: import_session_def import_record_gates_def)
  show ?thesis using import_failure_counted [OF run] bad run by simp
qed

end
