(* ===== verification/BindingFacts.thy ===== *)
theory BindingFacts
  imports TransportFacts
begin

text \<open>
  The properties of recovery tracking: the constant-time comparison, the digests a session tracks, and
  the binding that lets a caller with the historical text restore them.
\<close>

section \<open>Constant-time comparison\<close>

lemma fold_differences:
  "length a = length b \<Longrightarrow>
     fold (\<lambda>(x, y) d. or d (xor x y)) (zip a b) (d :: u8) = 0 \<longleftrightarrow> d = 0 \<and> a = b"
proof (induction a b arbitrary: d rule: list_induct2)
  case (Cons x xs y ys)
  have "or d (xor x y) = 0 \<longleftrightarrow> d = 0 \<and> x = y"
    by (auto simp: bit_eq_iff bit_or_iff bit_xor_iff)
  with Cons show ?case by auto
qed simp

lemma constant_time_eq_iff: "constant_time_eq a b \<longleftrightarrow> a = b"
  using fold_differences [of a b 0] by (auto simp: constant_time_eq_def)

text \<open>The comparison that takes the same time on every pair of equal length decides equality.\<close>

theorem constant_time_eq_exact: "constant_time_eq a b \<longleftrightarrow> a = b"
  by (rule constant_time_eq_iff)

section \<open>The binding of a session\<close>

text \<open>A session that tracks the digests of a text, whose tail is the end of it.\<close>

definition tracks :: "(u8 list \<Rightarrow> hash16) \<Rightarrow> session \<Rightarrow> str \<Rightarrow> bool" where
  "tracks blake x text \<longleftrightarrow>
     recovery_from_text text = Ok (the (s_recovery x)) \<and> s_recovery x \<noteq> None
     \<and> s_content x = Some (content_of blake text)
     \<and> ends_with text (tl_text (s_tail x)) \<and> s_safe_byte x + text_bytes (s_tail x) = length text"

lemma recovery_from_text_Ok:
  "recovery_from_text text = Ok d \<longleftrightarrow>
     length text \<le> u64_max \<and> d = \<lparr>rd_hasher = RECOVERY_TEXT_DOMAIN @ text, rd_text_bytes = length text\<rparr>"
  by (auto simp: recovery_from_text_def recovery_append_def recovery_empty_def rbind_eq_Ok)

lemma tracks_digests:
  assumes "tracks blake x text"
  shows "s_recovery x = Some \<lparr>rd_hasher = RECOVERY_TEXT_DOMAIN @ text, rd_text_bytes = length text\<rparr>"
    "s_content x = Some (content_of blake text)" "length text \<le> u64_max"
  using assms by (auto simp: tracks_def recovery_from_text_Ok)

text \<open>The binding that a tracking session exports.\<close>

definition binding_of :: "(u8 list \<Rightarrow> hash32) \<Rightarrow> (u8 list \<Rightarrow> hash16) \<Rightarrow> session \<Rightarrow> str \<Rightarrow> recovery_binding" where
  "binding_of sha blake x text =
     binding_from_states blake (s_record_hash x) (sha (RECOVERY_TEXT_DOMAIN @ text)) (content_of blake text)"

lemma export_binding_Ok:
  assumes x: "tbl_get (ss_sessions s) h = Some x" and t: "tracks blake x text" and small: "length text \<le> u64_max div 2"
  shows "\<exists>b. export_recovery_binding sha blake s h = Ok (Some b) \<and> binding_from_bytes sha b = Ok (binding_of sha blake x text)"
proof -
  note d = tracks_digests [OF t]
  have "binding_ok (binding_of sha blake x text)"
    using content_entry_valid [OF small, of blake] small
    by (simp add: binding_of_def binding_ok_def binding_from_states_def content_entry_def content_of_def)
  then obtain b where b: "binding_to_bytes sha (binding_of sha blake x text) = Ok b"
    "binding_from_bytes sha b = Ok (binding_of sha blake x text)"
    using binding_codec.round_trip [of "binding_of sha blake x text" sha] by blast
  have "export_recovery_binding sha blake s h = Ok (Some b)"
    using x d b(1)
    by (simp add: export_recovery_binding_def session_of_def ok_or_def Let_def recovery_material_of_def content_entry_def
        content_of_def binding_of_def)
  with b(2) show ?thesis by blast
qed

lemma verified_iff:
  assumes x: "tbl_get (ss_sessions s) h = Some x" and b: "binding_from_bytes sha raw = Ok b"
  shows "verify_recovery_binding sha blake s h hist raw = Ok () \<longleftrightarrow>
    s_safe_byte x + text_bytes (s_tail x) \<le> u64_max \<and> (\<exists>rec con. recovery_from_text hist = Ok rec \<and> content_from_bytes blake hist = Ok con
      \<and> rb_record_hash b = s_record_hash x \<and> length hist = s_safe_byte x + text_bytes (s_tail x)
      \<and> length hist = ce_byte_length (rb_index_entry b) \<and> ends_with hist (tl_text (s_tail x))
      \<and> rb_text_digest b = sha (rd_hasher rec) \<and> rb_index_entry b = content_entry blake con)"
proof -
  have sess: "session_of s h = Ok x" using x by simp
  have rep: "represented_bytes x = Ok n \<longleftrightarrow> n = s_safe_byte x + text_bytes (s_tail x) \<and> n \<le> u64_max" for n
    by (auto simp: represented_bytes_def)
  have v: "verify_recovery_binding sha blake s h hist raw = Ok ()
      \<longleftrightarrow> (\<exists>rec con. verified_tracking_state sha blake s h hist raw = Ok (rec, con))"
    by (auto simp: verify_recovery_binding_def rbind_eq_Ok)
  have "verified_tracking_state sha blake s h hist raw = Ok (rec, con) \<longleftrightarrow>
      s_safe_byte x + text_bytes (s_tail x) \<le> u64_max \<and> recovery_from_text hist = Ok rec \<and> content_from_bytes blake hist = Ok con
      \<and> rb_record_hash b = s_record_hash x \<and> length hist = s_safe_byte x + text_bytes (s_tail x)
      \<and> length hist = ce_byte_length (rb_index_entry b) \<and> ends_with hist (tl_text (s_tail x))
      \<and> rb_text_digest b = sha (rd_hasher rec) \<and> rb_index_entry b = content_entry blake con" for rec con
    unfolding verified_tracking_state_def sess b rbind.simps
    by (auto simp: rbind_eq_Ok rep constant_time_eq_iff hash_bytes_eq Let_def recovery_material_of_def split: if_splits)
  then show ?thesis unfolding v by blast
qed

text \<open>C34 A binding stands for one text: what a session that tracks a text exports is accepted, later and
  under the same record, for exactly that text, unless the hash collides on the two texts. The index
  entry, the lengths and the tail are compared as well, so a wrong text is refused before that.\<close>

theorem binding_verifies_exactly:
  assumes "tbl_get (ss_sessions s) h = Some x" "tracks blake x text" "length text \<le> u64_max div 2"
    and "sha (RECOVERY_TEXT_DOMAIN @ hist) = sha (RECOVERY_TEXT_DOMAIN @ text) \<Longrightarrow> hist = text"
  shows "\<exists>b. export_recovery_binding sha blake s h = Ok (Some b)
     \<and> (verify_recovery_binding sha blake s h hist b = Ok () \<longleftrightarrow> hist = text)"
proof -
  from export_binding_Ok [OF assms(1-3), of sha] obtain b where
    b: "export_recovery_binding sha blake s h = Ok (Some b)" "binding_from_bytes sha b = Ok (binding_of sha blake x text)"
    by blast
  note v = verified_iff [OF assms(1) b(2), of blake hist]
  have "hist = text" if "verify_recovery_binding sha blake s h hist b = Ok ()"
    using that assms(4) unfolding v by (auto simp: binding_of_def binding_from_states_def recovery_from_text_Ok)
  moreover have "verify_recovery_binding sha blake s h hist b = Ok ()" if "hist = text"
    using that assms(2) tracks_digests(3) [OF assms(2)] content_from_bytes_ok [OF assms(3), of blake] unfolding v
    by (simp add: recovery_from_text_Ok binding_of_def binding_from_states_def content_entry_def content_of_def tracks_def)
  ultimately show ?thesis using b(1) by blast
qed

text \<open>A tracking session on the text of the demonstration run.\<close>

definition tracked_session :: session where
  "tracked_session = demo_session\<lparr>s_recovery := Some \<lparr>rd_hasher = RECOVERY_TEXT_DOMAIN @ demo_text, rd_text_bytes = 4\<rparr>,
     s_content := Some (content_of demo_blake demo_text)\<rparr>"

abbreviation (input) length_sha :: "u8 list \<Rightarrow> hash32" where "length_sha \<equiv> \<lambda>bs. of_nat (length bs)"

lemma tracked: "tracks demo_blake tracked_session demo_text"
  by (simp add: tracks_def tracked_session_def recovery_from_text_Ok demo_session_def demo_tail_def fresh_def ends_with_def)

theorem binding_verifies_exactly_witness:
  "\<exists>b. export_recovery_binding length_sha demo_blake (put_session (demo_store default_config) 1 tracked_session) 1 = Ok (Some b)
     \<and> verify_recovery_binding length_sha demo_blake (put_session (demo_store default_config) 1 tracked_session) 1 [97] b \<noteq> Ok ()
     \<and> verify_recovery_binding length_sha demo_blake (put_session (demo_store default_config) 1 tracked_session) 1 demo_text b = Ok ()"
proof -
  have x: "tbl_get (ss_sessions (put_session (demo_store default_config) 1 tracked_session)) 1 = Some tracked_session"
    by simp
  have ne: "length_sha (RECOVERY_TEXT_DOMAIN @ [97]) \<noteq> length_sha (RECOVERY_TEXT_DOMAIN @ demo_text)"
    by (simp add: RECOVERY_TEXT_DOMAIN_def)
  show ?thesis
    using binding_verifies_exactly [OF x tracked, of length_sha "[97]"] ne
      binding_verifies_exactly [OF x tracked, of length_sha demo_text] by auto
qed

section \<open>Digests follow the text\<close>

text \<open>The digests that a session tracks follow its text: after an append they are the digests that
  the whole grown text has from scratch, below 2^63 bytes.\<close>

theorem digests_follow_append:
  assumes "recovery_from_text text = Ok d" "content_from_bytes blake text = Ok c"
    and "s_recovery x = Some d" "s_content x = Some c" "length (text @ delta) \<le> u64_max div 2"
  shows "\<exists>x'. append_digests blake delta x = (x', Ok ()) \<and> recovery_from_text (text @ delta) = Ok (the (s_recovery x'))
     \<and> content_from_bytes blake (text @ delta) = Ok (the (s_content x')) \<and> digests_only x x'"
proof -
  have c: "c = content_of blake text" using assms(2) content_from_bytes_ok [of "text" blake] assms(5) by simp
  have "append_digests blake delta x = (x\<lparr>s_recovery := Some \<lparr>rd_hasher = RECOVERY_TEXT_DOMAIN @ text @ delta,
      rd_text_bytes = length (text @ delta)\<rparr>, s_content := Some (content_of blake (text @ delta))\<rparr>, Ok ())"
    using assms(1,3,4,5) content_append_ok [OF assms(5), of blake] c
    by (auto simp: append_digests_def recovery_from_text_Ok recovery_append_def checked_add64_def ok_or_def)
  then show ?thesis
    using assms(5) content_from_bytes_ok [OF assms(5), of blake] append_digests_keeps [of x blake delta]
    by (auto simp: recovery_from_text_Ok)
qed

theorem digests_follow_append_witness:
  "\<exists>x'. append_digests demo_blake demo_delta tracked_session = (x', Ok ())
     \<and> recovery_from_text (demo_text @ demo_delta) = Ok (the (s_recovery x'))"
  using digests_follow_append [of demo_text _ demo_blake _ tracked_session demo_delta]
    content_from_bytes_ok [of demo_text demo_blake]
  by (auto simp: recovery_from_text_Ok tracked_session_def)

end
