(* ===== verification/LookupFacts.thy ===== *)
theory LookupFacts
  imports StoreFacts
begin

text \<open>
  The properties of prefix lookup: the blocks a text is cut into, the verified path that a lookup
  walks, and the session that a hit materialises.
\<close>

section \<open>Blocks\<close>


text \<open>Block \<open>j\<close> of a text: its characters from \<open>j * n\<close> on, \<open>n\<close> of them.\<close>

abbreviation block_at :: "str \<Rightarrow> nat \<Rightarrow> nat \<Rightarrow> str" where
  "block_at text n j \<equiv> concat (take n (drop (j * n) (chars text)))"

lemma between_offs:
  assumes "a \<le> b"
  shows "take (char_off s b - char_off s a) (drop (char_off s a) s) = concat (take (b - a) (drop a (chars s)))"
proof -
  have "take b (chars s) = take a (chars s) @ take (b - a) (drop a (chars s))"
    using assms by (metis take_add le_add_diff_inverse)
  then have l: "char_off s b - char_off s a = length (concat (take (b - a) (drop a (chars s))))"
    by (simp add: char_off_def)
  have "drop (char_off s a) s = concat (take (b - a) (drop a (chars s))) @ concat (drop (b - a) (drop a (chars s)))"
    by (simp only: drop_char_off concat_append [symmetric] append_take_drop_id)
  then show ?thesis unfolding l by simp
qed

lemma block_scan_ok:
  assumes n: "0 < n" and i: "i = 0 \<and> p = 0 \<or> p * n < i \<and> i \<le> Suc p * n" "i \<le> char_count text"
  shows "block_scan text n (char_off text (p * n)) i (drop i (char_indices text))
    = map (block_at text n) [p ..< char_count text div n]"
  using i
proof (induction "char_count text - i" arbitrary: i p)
  case 0
  then have e: "i = char_count text" by simp
  have scan: "block_scan text n (char_off text (p * n)) i (drop i (char_indices text))
    = (if i \<noteq> 0 \<and> i mod n = 0 then [drop (char_off text (p * n)) text] else [])" using e by simp
  show ?case
  proof (cases "i \<noteq> 0 \<and> i mod n = 0")
    case True
    then have ip: "i = Suc p * n" using 0(2) n
      by (metis Suc_leI dvd_div_mult_self dvd_eq_mod_eq_0 le_antisym le_neq_implies_less less_le_not_le mult_le_mono1 nonzero_mult_div_cancel_right not_less_eq_eq mult_less_cancel2)
    then have "char_count text div n = Suc p" using e n by (metis nonzero_mult_div_cancel_right less_numeral_extra(3))
    moreover have "drop (char_off text (p * n)) text = block_at text n p" using e ip by (simp add: drop_char_off)
    ultimately show ?thesis using True scan by simp
  next
    case False
    then have "i < Suc p * n" using 0(2) n by (metis le_neq_implies_less mod_mult_self2_is_0 mult_pos_pos zero_less_Suc)
    then have "char_count text div n \<le> p" using e n by (simp add: div_less_iff_less_mult less_Suc_eq_le [symmetric])
    then show ?thesis using False scan by simp
  qed
next
  case (Suc d)
  then have il: "i < char_count text" by simp
  then obtain len where dr: "drop i (char_indices text) = (char_off text i, len) # drop (Suc i) (char_indices text)"
    using char_indices_nth [of i "text"] by (metis Cons_nth_drop_Suc length_char_indices)
  show ?case
  proof (cases "i \<noteq> 0 \<and> i mod n = 0")
    case True
    then have ip: "i = Suc p * n" using Suc(3) n
      by (metis Suc_leI dvd_div_mult_self dvd_eq_mod_eq_0 le_antisym le_neq_implies_less less_le_not_le mult_le_mono1 nonzero_mult_div_cancel_right not_less_eq_eq mult_less_cancel2)
    have "block_scan text n (char_off text (Suc p * n)) (Suc i) (drop (Suc i) (char_indices text))
        = map (block_at text n) [Suc p ..< char_count text div n]"
      by (rule Suc(1)) (use Suc(2) il ip n in auto)
    moreover have "take (char_off text i - char_off text (p * n)) (drop (char_off text (p * n)) text) = block_at text n p"
      using between_offs [of "p * n" i "text"] ip by simp
    moreover have "p < char_count text div n"
      using il ip n by (metis Suc_le_lessD less_eq_div_iff_mult_less_eq less_imp_le)
    ultimately show ?thesis using True ip unfolding dr by (simp add: upt_conv_Cons)
  next
    case False
    have "Suc i \<le> Suc p * n" using Suc(3) n False
      by (metis Suc_leI le_neq_implies_less mod_mult_self2_is_0 mult_pos_pos zero_less_Suc)
    then have "block_scan text n (char_off text (p * n)) (Suc i) (drop (Suc i) (char_indices text))
        = map (block_at text n) [p ..< char_count text div n]"
      using Suc(3) by (intro Suc(1)) (use Suc(2) il in auto)
    then show ?thesis using False unfolding dr by auto
  qed
qed

text \<open>The blocks a text is cut into are its complete runs of \<open>n\<close> characters, in order, each of
  exactly \<open>n\<close> characters; the characters after the last complete block are in none.\<close>

theorem block_slices_exact:
  assumes "0 < n"
  shows "block_slices text n = map (\<lambda>j. concat (take n (drop (j * n) (chars text)))) [0 ..< char_count text div n]
     \<and> (\<forall>b \<in> set (block_slices text n). char_count b = n)
     \<and> concat (block_slices text n) = concat (take (char_count text div n * n) (chars text))"
proof -
  have eq: "block_slices text n = map (block_at text n) [0 ..< char_count text div n]"
    using block_scan_ok [OF assms, of 0 0 "text"] by (simp add: block_slices_def)
  have count: "char_count (block_at text n j) = n" if "j < char_count text div n" for j
  proof -
    have "chars (concat (drop (j * n) (chars text))) = drop (j * n) (chars text)" by (rule chars_concat_drop)
    then have "chars (block_at text n j) = take n (drop (j * n) (chars text))"
      using chars_concat_take [of n "concat (drop (j * n) (chars text))"] by simp
    moreover have "Suc j * n \<le> char_count text" using that assms by (metis Suc_leI less_eq_div_iff_mult_less_eq)
    ultimately show ?thesis by simp
  qed
  have "concat (map (block_at text n) [0 ..< k]) = concat (take (k * n) (chars text))" for k
    by (induction k) (simp_all add: take_add add.commute [of n])
  then show ?thesis using eq count by auto
qed

theorem block_slices_exact_witness: "block_slices [97, 195, 169, 122, 98, 99] 2 = [[97, 195, 169], [122, 98]]"
  using block_slices_exact [of 2 "[97, 195, 169, 122, 98, 99]"] by (simp add: is_cont_def upt_rec)

section \<open>The walk over the chain\<close>

definition parent_of :: "(hash32 \<times> node_record) list \<Rightarrow> nat \<Rightarrow> hash32 option" where
  "parent_of path i = (if i = 0 then None else Some (fst (path ! (i - 1))))"

text \<open>
  Node \<open>i\<close> of a path: it is stored, intact, under the key of block \<open>i\<close> after the node before, and its
  fields repeat what the key commits to.
\<close>

definition backed ::
  "(u8 list \<Rightarrow> hash32) \<Rightarrow> nat \<Rightarrow> (hash32, node_entry) table \<Rightarrow> key_ctx \<Rightarrow> witness \<Rightarrow> str list
     \<Rightarrow> (hash32 \<times> node_record) list \<Rightarrow> nat \<Rightarrow> bool" where
  "backed sha block_chars nodes key wit blocks path i \<longleftrightarrow>
     (case path ! i of (kh, n) \<Rightarrow>
        kh = node_key sha (parent_of path i) (k_fingerprint key) i (blocks ! i)
        \<and> (\<exists>e. tbl_get nodes kh = Some e \<and> entry_verify sha e \<and> ne_rec e = n)
        \<and> n_fingerprint n = k_fingerprint key \<and> n_witness n = wit \<and> n_parent n = parent_of path i
        \<and> n_block_index n = i \<and> n_end_char n = Suc i * block_chars \<and> n_safe_char n \<le> n_end_char n
        \<and> (0 < i \<longrightarrow> n_end_byte (snd (path ! (i - 1))) < n_end_byte n \<and> n_safe_char (snd (path ! (i - 1))) \<le> n_safe_char n))"

definition walk_ok ::
  "(u8 list \<Rightarrow> hash32) \<Rightarrow> nat \<Rightarrow> (hash32, node_entry) table \<Rightarrow> key_ctx \<Rightarrow> witness \<Rightarrow> str list \<Rightarrow> walk \<Rightarrow> bool" where
  "walk_ok sha block_chars nodes key wit blocks wk \<longleftrightarrow>
     length (lw_path wk) \<le> length blocks
     \<and> lw_parent wk = parent_of (lw_path wk) (length (lw_path wk))
     \<and> (lw_path wk \<noteq> [] \<longrightarrow> lw_cum_end_byte wk = n_end_byte (snd (last (lw_path wk)))
          \<and> lw_cum_safe wk = n_safe_char (snd (last (lw_path wk))))
     \<and> (\<forall>i < length (lw_path wk). backed sha block_chars nodes key wit blocks (lw_path wk) i)"

lemma backed_append:
  "i < length path \<Longrightarrow> backed sha bc nodes key wit blocks (path @ ps) i = backed sha bc nodes key wit blocks path i"
  by (auto simp: backed_def parent_of_def nth_append split: prod.splits)

lemma walk_step:
  assumes ok: "walk_ok sha bc nodes key wit blocks wk" and i: "i = length (lw_path wk)" "i < length blocks"
    and kh: "kh = node_key sha (lw_parent wk) (k_fingerprint key) i (blocks ! i)"
    and e: "tbl_get nodes kh = Some e" and fits: "node_fits sha key wit i (Suc i * bc) wk e"
  shows "walk_ok sha bc nodes key wit blocks (walk_on wk kh (ne_rec e))"
proof -
  let ?path = "lw_path wk @ [(kh, ne_rec e)]"
  have parent: "parent_of ?path i = lw_parent wk"
    using ok i by (simp add: walk_ok_def parent_of_def nth_append)
  have "backed sha bc nodes key wit blocks ?path i"
    using fits e kh parent i ok
    by (auto simp: backed_def node_fits_def Let_def nth_append walk_ok_def last_conv_nth)
  then have "backed sha bc nodes key wit blocks ?path j" if "j < Suc (length (lw_path wk))" for j
    using ok i that by (cases "j = i") (simp_all add: backed_append walk_ok_def)
  then show ?thesis using i by (simp add: walk_ok_def walk_on_def parent_of_def nth_append)
qed

lemma lookup_walk_ok:
  assumes "walk_ok sha bc nodes key wit blocks wk" "lookup_walk sha bc nodes key wit index wk rest = (wk', rej)"
    "index = length (lw_path wk)" "rest = drop index blocks"
  shows "walk_ok sha bc nodes key wit blocks wk'"
  using assms
proof (induction sha bc nodes key wit index wk rest rule: lookup_walk.induct)
  case (2 sha bc nodes key wit index wk block rest)
  have i: "index < length blocks" "blocks ! index = block" "rest = drop (Suc index) blocks"
    using "2.prems"(4) by (metis Cons_nth_drop_Suc drop_all list.distinct(1) list.inject not_le)+
  let ?kh = "node_key sha (lw_parent wk) (k_fingerprint key) index block"
  show ?case
  proof (cases "tbl_get nodes ?kh")
    case (Some e)
    show ?thesis
    proof (cases "Option.bind (checked_add64 index 1) (\<lambda>n. checked_mul64 n bc)")
      case b: (Some end_char)
      then have ec: "end_char = Suc index * bc" by (auto simp: checked_add64_def checked_mul64_def split: if_splits)
      show ?thesis
      proof (cases "node_fits sha key wit index end_char wk e")
        case True
        have ok: "walk_ok sha bc nodes key wit blocks (walk_on wk ?kh (ne_rec e))"
          by (rule walk_step [OF "2.prems"(1,3) i(1) _ Some]) (use True ec i in simp_all)
        show ?thesis
          by (rule "2.IH" [OF refl Some b _ ok]) (use "2.prems"(2,3) True Some b i(3) in \<open>simp_all add: Let_def walk_on_def\<close>)
      qed (use "2.prems"(1,2) Some b in \<open>simp add: Let_def\<close>)
    qed (use "2.prems"(1,2) Some in \<open>simp add: Let_def\<close>)
  qed (use "2.prems"(1,2) in \<open>simp add: Let_def\<close>)
qed simp

lemma walk_start_ok: "walk_ok sha bc nodes key wit blocks walk_start"
  by (simp add: walk_ok_def walk_start_def parent_of_def)

section \<open>Hits\<close>

text \<open>What a lookup that hits found: the walk, and the session it inserted.\<close>

lemma hit_fields [simp]:
  "s_sealed (hit_session k w c kh n ids ix b t) = sealed_from_vec ids" "s_tail (hit_session k w c kh n ids ix b t) = t"
  "s_payload (hit_session k w c kh n ids ix b t) = DOMAIN_PAYLOAD @ ids_le ids"
  "s_snapshot (hit_session k w c kh n ids ix b t) = None" "s_key_id (hit_session k w c kh n ids ix b t) = k"
  "s_witness (hit_session k w c kh n ids ix b t) = w" "s_revision (hit_session k w c kh n ids ix b t) = 0"
  "s_safe_byte (hit_session k w c kh n ids ix b t) = b" "s_total_chars (hit_session k w c kh n ids ix b t) = n_end_char n"
  by (simp_all add: hit_session_def fresh_def payload_hasher_new_def)

lemma lookup_hit_cases:
  assumes run: "lookup sha blake s k text engine = (s', Ok (Some hit))" and key: "key_of s k = Ok key"
    and walk: "lookup_walk sha (c_block_chars (ss_cfg s)) (ss_nodes s) key (eng_witness engine) 0 walk_start
       (block_slices text (c_block_chars (ss_cfg s))) = (wk, rej)"
  defines "deep \<equiv> snd (last (lw_path wk))"
  shows "lw_path wk \<noteq> [] \<and> lh_matched hit = n_end_char deep \<and> lh_revision hit = 0
    \<and> (\<exists>enc t y. eng_encode engine (n_text_tail deep) = Ok enc \<and> fill_state (n_text_tail deep) enc = Ok t
      \<and> text_bytes t \<le> n_end_byte deep \<and> tbl_get (ss_sessions s') (lh_handle hit) = Some y
      \<and> s_sealed y = sealed_from_vec (concat (map (\<lambda>(_, n). n_ids n) (lw_path wk))) \<and> s_tail y = t
      \<and> s_payload y = DOMAIN_PAYLOAD @ ids_le (concat (map (\<lambda>(_, n). n_ids n) (lw_path wk))) \<and> s_snapshot y = None
      \<and> s_key_id y = k \<and> s_witness y = eng_witness engine \<and> s_revision y = 0
      \<and> s_safe_byte y + text_bytes t = n_end_byte deep \<and> s_total_chars y = n_end_char deep)"
  using run
  unfolding lookup_def key attempt.simps Let_def store_simps walk prod.case deep_def
  by (auto simp: attempt_eq_Ok insert_session_def Let_def case_prod_unfold walk split: if_splits)

text \<open>An entry verifies when it holds the checksum of its node.\<close>

lemma entry_verify_iff:
  "entry_verify sha e \<longleftrightarrow> (\<exists>body. node_body (ne_rec e) = Ok body \<and> ne_checksum e = checksum sha DOMAIN_NODE_CACHE body)"
  by (cases "node_body (ne_rec e)") (auto simp: entry_verify_def node_to_bytes_def trailing_checksum_def)

text \<open>C21 A lookup that hits rests on verified nodes only: node after node, each is stored under the key
  that commits to the fingerprint, the block of the text and the node before, passes its checksum, and
  carries the fingerprint, the witness category, the parent and the block it stands for, with growing
  byte ends and safe cuts. The session of the hit holds the tokens of those nodes followed by what the
  engine makes of the last node's tail, and the match is the characters of the blocks walked.\<close>

theorem lookup_hit_verified:
  assumes "lookup sha blake s k text engine = (s', Ok (Some hit))"
  shows "\<exists>key path enc y. key_of s k = Ok key \<and> path \<noteq> []
     \<and> length path \<le> length (block_slices text (c_block_chars (ss_cfg s)))
     \<and> (\<forall>i < length path. backed sha (c_block_chars (ss_cfg s)) (ss_nodes s) key (eng_witness engine)
          (block_slices text (c_block_chars (ss_cfg s))) path i)
     \<and> lh_matched hit = length path * c_block_chars (ss_cfg s)
     \<and> eng_encode engine (n_text_tail (snd (last path))) = Ok enc
     \<and> tbl_get (ss_sessions s') (lh_handle hit) = Some y
     \<and> materialize_all_ids y = concat (map (\<lambda>(_, n). n_ids n) path) @ enc_ids enc
     \<and> tl_text (s_tail y) = n_text_tail (snd (last path)) \<and> s_revision y = 0"
proof -
  from assms obtain key where key: "key_of s k = Ok key" by (auto simp: lookup_def attempt_eq_Ok)
  let ?bc = "c_block_chars (ss_cfg s)"
  obtain wk rej where walk: "lookup_walk sha ?bc (ss_nodes s) key (eng_witness engine) 0 walk_start (block_slices text ?bc) = (wk, rej)"
    by fastforce
  have "walk_ok sha ?bc (ss_nodes s) key (eng_witness engine) (block_slices text ?bc) wk"
    by (rule lookup_walk_ok [OF walk_start_ok walk]) (simp_all add: walk_start_def)
  note w = this [unfolded walk_ok_def]
  from lookup_hit_cases [OF assms key walk] obtain enc t y where
    h: "lw_path wk \<noteq> []" "lh_matched hit = n_end_char (snd (last (lw_path wk)))"
    "eng_encode engine (n_text_tail (snd (last (lw_path wk)))) = Ok enc"
    "fill_state (n_text_tail (snd (last (lw_path wk)))) enc = Ok t"
    "tbl_get (ss_sessions s') (lh_handle hit) = Some y" "s_tail y = t" "s_revision y = 0"
    "s_sealed y = sealed_from_vec (concat (map (\<lambda>(_, n). n_ids n) (lw_path wk)))" by auto
  have "backed sha ?bc (ss_nodes s) key (eng_witness engine) (block_slices text ?bc) (lw_path wk) (length (lw_path wk) - 1)"
    using w h(1) by simp
  then have "lh_matched hit = length (lw_path wk) * ?bc"
    using h(1,2) by (auto simp: backed_def last_conv_nth split: prod.splits)
  moreover have "ids_of t = enc_ids enc" "tl_text t = n_text_tail (snd (last (lw_path wk)))"
    using h(4) by (auto simp: fill_state_def rbind_eq_Ok)
  then have "materialize_all_ids y = concat (map (\<lambda>(_, n). n_ids n) (lw_path wk)) @ enc_ids enc"
    "tl_text (s_tail y) = n_text_tail (snd (last (lw_path wk)))"
    using h(6,8) by (simp_all add: materialize_eq)
  ultimately show ?thesis
    by (intro exI [of _ key] exI [of _ "lw_path wk"] exI [of _ enc] exI [of _ y] conjI) (use key w h in simp_all)
qed

section \<open>A hit, in numbers\<close>

text \<open>One block of two characters, "ab", with no token sealed and the whole block as its tail.\<close>

definition demo_node :: node_record where
  "demo_node = \<lparr>n_fingerprint = 7, n_witness = BpeSyncTransition, n_parent = None, n_key = 5, n_block_index = 0,
     n_end_char = 2, n_safe_char = 0, n_ids_base = 0, n_end_byte = 2, n_ids = [], n_text_tail = [97, 98]\<rparr>"

definition demo_noded :: store where
  "demo_noded = (demo_keyed (default_config\<lparr>c_block_chars := 2\<rparr>))
     \<lparr>ss_nodes := [(5, \<lparr>ne_rec = demo_node, ne_checksum = 5\<rparr>)]\<rparr>"

lemma demo_node_fields [simp]: "n_end_char demo_node = 2" "n_end_byte demo_node = 2" "n_ids demo_node = []"
  "n_text_tail demo_node = [97, 98]"
  by (simp_all add: demo_node_def)

lemma demo_blocks: "block_slices [97, 98, 99] 2 = [[97, 98]]"
  by (simp add: block_slices_def char_indices_def is_cont_def)

lemma demo_hit:
  "snd (lookup demo_sha demo_blake demo_noded 0 [97, 98, 99] demo_engine)
     = Ok (Some \<lparr>lh_handle = 1, lh_matched = 2, lh_revision = 0\<rparr>)"
proof -
  have v: "entry_verify demo_sha \<lparr>ne_rec = demo_node, ne_checksum = 5\<rparr>"
    by (auto simp: entry_verify_iff node_body_def demo_node_def len_u32_def checksum_def)
  have w: "lookup_walk demo_sha 2 [(5, \<lparr>ne_rec = demo_node, ne_checksum = 5\<rparr>)] \<lparr>k_fingerprint = 7, k_guard = 0\<rparr>
      BpeSyncTransition 0 walk_start [[97, 98]]
    = (\<lparr>lw_parent = Some 5, lw_cum_safe = 0, lw_cum_idx = 0, lw_cum_end_byte = 2, lw_path = [(5, demo_node)]\<rparr>, False)"
    using v by (simp add: node_fits_def walk_start_def walk_on_def demo_node_def node_key_def tbl_get_def
        checked_add64_def checked_mul64_def add64_def)
  show ?thesis
    by (simp add: lookup_def demo_noded_def demo_keyed_def demo_empty_def default_config_def demo_blocks w
        run_eval evict_for_capacity.simps checked_sub64_def del: lookup_walk.simps)
qed

theorem lookup_hit_verified_witness:
  "\<exists>key path. key_of demo_noded 0 = Ok key \<and> length path = 1
     \<and> backed demo_sha 2 (ss_nodes demo_noded) key BpeSyncTransition [[97, 98]] path 0"
proof -
  have c: "c_block_chars (ss_cfg demo_noded) = 2" by (simp add: demo_noded_def demo_keyed_def demo_empty_def)
  obtain s' where r: "lookup demo_sha demo_blake demo_noded 0 [97, 98, 99] demo_engine
     = (s', Ok (Some \<lparr>lh_handle = 1, lh_matched = 2, lh_revision = 0\<rparr>))"
    using demo_hit by (metis prod.collapse)
  show ?thesis
    using lookup_hit_verified [OF r] unfolding demo_blocks c by (auto simp: mock_witness_def mock_default_def Suc_le_eq le_Suc_eq)
qed

end
