(* ===== verification/Cache.thy ===== *)
theory Cache
  imports Sessions Transport
begin

text \<open>
  What the type system of the code guarantees of the strings in a session and in the node cache, and
  that every cached node verifies under its own key: the bookkeeping that follows a text change keeps
  both.
\<close>

section \<open>The invariants\<close>

text \<open>A cached node lies under its key, passes its checksum, and its tail is a string.\<close>

definition node_fine :: "(u8 list \<Rightarrow> hash32) \<Rightarrow> hash32 \<Rightarrow> node_entry \<Rightarrow> bool" where
  "node_fine sha k e \<longleftrightarrow> n_key (ne_rec e) = k \<and> entry_verify sha e \<and> valid_utf8 (n_text_tail (ne_rec e))"

definition cache_ok :: "(u8 list \<Rightarrow> hash32) \<Rightarrow> (hash32, node_entry) table \<Rightarrow> bool" where
  "cache_ok sha nodes \<longleftrightarrow> tbl_ok nodes \<and> (\<forall>k e. tbl_get nodes k = Some e \<longrightarrow> node_fine sha k e)"

text \<open>
  A session in good order: well formed, its retained text a string, and the next mark of its content
  digest positive, so that doubling it moves on.
\<close>

definition digest_fine :: "content_digest option \<Rightarrow> bool" where
  "digest_fine ct \<longleftrightarrow> (\<forall>d. ct = Some d \<longrightarrow> 0 < cd_next_mark d)"

definition sess_fine :: "session \<Rightarrow> bool" where
  "sess_fine s \<longleftrightarrow> sess_wf s \<and> valid_utf8 (s_buf s) \<and> digest_fine (s_content s)"

definition work_ok :: "(u8 list \<Rightarrow> hash32) \<Rightarrow> work \<Rightarrow> bool" where
  "work_ok sha w \<longleftrightarrow> sess_fine (wk_sess w) \<and> cache_ok sha (wk_nodes w)"

lemma digest_fine_None [simp]: "digest_fine None"
  by (simp add: digest_fine_def)

lemma content_marks_positive:
  "0 < cd_next_mark d \<Longrightarrow> 0 < cd_next_mark (fst (content_marks_loop blake delta e d consumed))"
proof (induction blake delta e d consumed rule: content_marks_loop.induct)
  case (1 blake delta e d consumed)
  show ?case
    using "1.IH" "1.prems" by (subst content_marks_loop.simps) (auto simp: Let_def checked_mul64_def split: option.splits)
qed

lemma content_append_positive:
  assumes "0 < cd_next_mark d"
  shows "0 < cd_next_mark (fst (content_append blake d delta))"
  using content_marks_positive [OF assms, of blake delta "cd_byte_length d + length delta" 0] assms
  by (auto simp: content_append_def checked_add64_def split: outcome.splits prod.splits)

lemma content_from_bytes_fine: "content_from_bytes blake x = Ok c \<Longrightarrow> digest_fine (Some c)"
  using content_append_positive [of content_empty blake x]
  by (auto simp: content_from_bytes_def content_empty_def digest_fine_def split: outcome.splits prod.splits)

lemma append_digests_fine:
  assumes "digest_fine (s_content s)"
  shows "digest_fine (s_content (fst (append_digests blake delta s)))"
  unfolding append_digests_def
proof (rule andthen_state [where P = "\<lambda>y. digest_fine (s_content y)"], goal_cases)
  case 1
  then show ?case using assms by (cases "s_recovery s") (auto intro!: attempt_state [where P = "\<lambda>y. digest_fine (s_content y)"])
next
  case (2 y u)
  then have y: "s_content y = s_content s" by (auto simp: attempt_eq_Ok split: option.splits)
  show ?case
  proof (cases "s_content s")
    case (Some d)
    then show ?thesis using assms content_append_positive [of d blake delta] y by (simp add: digest_fine_def case_prod_beta)
  qed (use y in simp)
qed

lemma cache_ok_Nil [simp]: "cache_ok sha []"
  by (simp add: cache_ok_def)

lemma cache_ok_put: "cache_ok sha nodes \<Longrightarrow> node_fine sha k e \<Longrightarrow> cache_ok sha (tbl_put nodes k e)"
  by (auto simp: cache_ok_def)

lemma entry_create_Ok: "entry_create sha n = Ok e \<Longrightarrow> ne_rec e = n \<and> entry_verify sha e"
  by (auto simp: entry_create_def entry_verify_def rbind_eq_Ok)

section \<open>Strings\<close>

lemma valid_str_slice: "str_slice s a b = Ok t \<Longrightarrow> valid_utf8 s \<Longrightarrow> valid_utf8 t"
proof -
  assume v: "valid_utf8 s" and t: "str_slice s a b = Ok t"
  note b = str_slice_Ok [OF t]
  then have "valid_utf8 (take b s)" using v valid_take_drop by blast
  moreover have "is_char_boundary (take b s) a" using b by (auto simp: is_char_boundary_def)
  ultimately have "valid_utf8 (drop a (take b s))" using b valid_take_drop by (metis length_take min_absorb2)
  then show ?thesis using b by (simp add: drop_take)
qed

lemma text_range_valid:
  assumes "sess_fine s" "text_range s a b = Ok t"
  shows "valid_utf8 t"
  using assms
  by (auto simp: text_range_def rbind_eq_Ok sess_fine_def sess_wf_def tail_wf_def split: if_splits
      intro!: valid_append dest: valid_str_slice)

section \<open>The chain\<close>

lemma work_ok_chain:
  "work_ok sha w \<Longrightarrow> chain_work w w' \<Longrightarrow> valid_utf8 (s_buf (wk_sess w')) \<Longrightarrow> cache_ok sha (wk_nodes w') \<Longrightarrow> work_ok sha w'"
  by (auto simp: work_ok_def sess_fine_def chain_only_sel intro: chain_only_wf)

lemma work_ok_stats [simp]: "work_ok sha (upd_stats f w) = work_ok sha w"
  by (simp add: work_ok_def)

lemma detach_chain_ok [simp]: "work_ok sha w \<Longrightarrow> work_ok sha (detach_chain w)"
  by (rule work_ok_chain [of _ w]) (simp, simp, simp_all add: detach_chain_def work_ok_def)

lemma adopt_node_ok: "work_ok sha w \<Longrightarrow> work_ok sha (fst (adopt_node kh n w))"
  by (rule work_ok_chain [OF _ adopt_node_only])
    (auto simp: adopt_node_def Let_def work_ok_def sess_fine_def detach_chain_def)

lemma write_node_ok:
  assumes w: "work_ok sha w"
  shows "work_ok sha (fst (write_node sha cfg key kh index e eb w))"
proof -
  have fine: "node_fine sha kh entry"
    if "text_range (wk_sess w) a b = Ok t" "entry_create sha (chain_node (wk_sess w) key kh index e eb t) = Ok entry"
    for a b t entry
    using entry_create_Ok [OF that(2)] text_range_valid [OF _ that(1)] w
    by (simp add: node_fine_def chain_node_def work_ok_def)
  have put: "work_ok sha (upd_sess (\<lambda>s. s\<lparr>s_chain_tail := c s, s_base_safe := i s, s_base_idx := j s\<rparr>)
      (w\<lparr>wk_nodes := tbl_put (wk_nodes w) kh entry\<rparr>))" if "node_fine sha kh entry" for c i j entry
    by (rule work_ok_chain [OF w]) (use w that in \<open>simp_all add: work_ok_def sess_fine_def cache_ok_put\<close>)
  show ?thesis
    unfolding write_node_def Let_def
    by (auto intro!: attempt_state [where P = "work_ok sha"] put fine simp: w)
qed

lemma node_step_ok:
  "adopt_node kh n w = (w', r) \<Longrightarrow> work_ok sha w \<Longrightarrow> work_ok sha w'"
  "write_node sha cfg key kh index e eb w = (w', r2) \<Longrightarrow> work_ok sha w \<Longrightarrow> work_ok sha w'"
  using adopt_node_ok [of sha w kh n] write_node_ok [of sha w cfg key kh index e eb] by simp_all

lemma seal_block_step_ok:
  assumes w: "work_ok sha w"
  shows "work_ok sha (fst (seal_block_step sha cfg key w))"
proof -
  have adv: "work_ok sha (upd_sess (\<lambda>s. s\<lparr>s_blocks_end := a, s_blocks_end_byte := b,
      s_buf := drop (char_to_byte (s_buf s) n) (s_buf s)\<rparr>) w')" if "work_ok sha w'" for a b n w'
    by (rule work_ok_chain [OF that]) (use that in \<open>simp_all add: work_ok_def sess_fine_def char_to_byte_ok\<close>)
  show ?thesis
    unfolding seal_block_step_def Let_def
    by (auto split: option.splits intro!: attempt_state [where P = "work_ok sha"] andthen_state [where P = "work_ok sha"]
        simp: w adopt_node_ok write_node_ok dest: node_step_ok [OF _ w] intro!: adv)
qed

lemma seal_blocks_ok: "work_ok sha w \<Longrightarrow> work_ok sha (fst (seal_blocks sha cfg key w))"
proof (induction sha cfg key w rule: seal_blocks.induct)
  case (1 sha cfg key w)
  obtain w' r where step: "seal_block_step sha cfg key w = (w', r)" by (cases "seal_block_step sha cfg key w")
  have ok: "work_ok sha w'" using seal_block_step_ok [OF "1.prems", of cfg key] step by simp
  show ?case using "1.IH" [OF step [symmetric]] ok step
    by (subst seal_blocks.simps) (auto split: outcome.splits bool.splits)
qed

section \<open>Sealing\<close>

lemma retain_head_buf:
  "retain_head b s = Ok s' \<Longrightarrow> valid_utf8 (tl_text (s_tail s)) \<Longrightarrow> valid_utf8 (s_buf s) \<Longrightarrow> valid_utf8 (s_buf s')"
  by (auto simp: retain_head_def Let_def rbind_eq_Ok split: if_splits intro!: valid_append dest!: valid_str_slice)

lemma seal_head_buf [simp]: "s_buf (seal_head a v ids s) = s_buf s" "s_tail (seal_head a v ids s) = s_tail s"
  by (simp_all add: seal_head_def split: option.splits)

definition buf_ok :: "(hash32, node_entry) table \<Rightarrow> work \<Rightarrow> bool" where
  "buf_ok nodes v \<longleftrightarrow> valid_utf8 (s_buf (wk_sess v)) \<and> wk_nodes v = nodes"

lemma buf_ok_simps [simp]:
  "buf_ok nodes (upd_stats f v) = buf_ok nodes v" "buf_ok nodes (v\<lparr>wk_next_alloc := n\<rparr>) = buf_ok nodes v"
  "buf_ok nodes (upd_sess (seal_head a h ids) v) = buf_ok nodes v"
  "buf_ok nodes (upd_sess (s_tail_update g) v) = buf_ok nodes v"
  "buf_ok nodes (upd_sess (s_scan_floor_update k) v) = buf_ok nodes v"
  by (simp_all add: buf_ok_def)

lemmas buf_states = attempt_state [where P = "buf_ok nodes" for nodes] andthen_state [where P = "buf_ok nodes" for nodes]

lemma seal_tail_buf:
  assumes "buf_ok nodes w" "valid_utf8 (tl_text (s_tail (wk_sess w)))"
  shows "buf_ok nodes (fst (seal_tail c w))"
proof -
  have last: "buf_ok nodes (v\<lparr>wk_sess := s2\<lparr>s_safe_char := a, s_safe_byte := b, s_seal_log := l\<rparr>\<rparr>)"
    if "retain_head bix (seal_head x h ids (wk_sess w)) = Ok s2" "wk_nodes v = wk_nodes w" for v s2 a b l bix x h ids
    using retain_head_buf [OF that(1)] that(2) assms by (simp add: buf_ok_def)
  show ?thesis
    unfolding seal_tail_def Let_def
    by (simp only: case_prod_beta if_distrib [of fst] wk_simps)
      (auto intro!: buf_states last simp: assms(1))
qed

lemma advance_seal_buf:
  assumes "buf_ok nodes w" "valid_utf8 (tl_text (s_tail (wk_sess w)))"
  shows "buf_ok nodes (fst (advance_seal cfg key engine n w))"
proof -
  have seal: "buf_ok nodes w2" if "seal_tail c w = (w2, r)" for c w2 r
    using seal_tail_buf [OF assms, of c] that by simp
  show ?thesis
    unfolding advance_seal_def Let_def
    by (auto intro!: buf_states simp: assms seal_tail_buf split: option.splits; erule seal)
qed

lemma post_text_ops_fine:
  assumes w: "work_ok sha w"
  shows "work_ok sha (fst (post_text_ops sha cfg key engine w))"
proof -
  let ?w0 = "upd_sess (\<lambda>s. s\<lparr>s_total_chars := add64 (s_safe_char s) (tl_chars (s_tail (wk_sess w)))\<rparr>) w"
  let ?Q = "\<lambda>v. valid_utf8 (s_buf (wk_sess v)) \<and> cache_ok sha (wk_nodes v)"
  have w0: "work_ok sha ?w0" using w by (simp add: work_ok_def sess_fine_def sess_wf_def snapshot_ok_def materialize_eq)
  have sealed: "work_ok sha (fst (if c then seal_blocks sha cfg key ?w0 else (?w0, Ok ())))" for c
    using w0 seal_blocks_ok by simp
  have adv: "?Q (fst (advance_seal cfg key engine n w1))" if "work_ok sha w1" for n w1
  proof -
    have "valid_utf8 (tl_text (s_tail (wk_sess w1)))" "buf_ok (wk_nodes w1) w1"
      using that by (simp_all add: work_ok_def sess_fine_def sess_wf_def tail_wf_def buf_ok_def)
    from advance_seal_buf [OF this(2,1), of cfg key engine n] show ?thesis using that by (simp add: buf_ok_def work_ok_def)
  qed
  have "?Q (fst (post_text_ops sha cfg key engine w))"
    unfolding post_text_ops_def Let_def
  proof (rule andthen_state [where P = ?Q])
    fix w1 u
    let ?m = "if s_chain_ok (wk_sess ?w0) then seal_blocks sha cfg key ?w0 else (?w0, Ok ())"
    assume "?m = (w1, Ok u)"
    then have w1: "work_ok sha w1" using sealed [of "s_chain_ok (wk_sess ?w0)"] by simp
    show "?Q (fst (andthen (advance_seal cfg key engine (tl_chars (s_tail (wk_sess w))) w1) (\<lambda>w3 _.
        if text_bytes (s_tail (wk_sess w3)) > c_soft_cap cfg
        then (upd_stats (\<lambda>st. st\<lparr>st_k_cap_overflows := st_k_cap_overflows st + 1\<rparr>) w3, Ok ()) else (w3, Ok ()))))"
      by (rule andthen_state [where P = ?Q, OF adv [OF w1]]) (use adv [OF w1, of "tl_chars (s_tail (wk_sess w))"] in simp)
  qed (use sealed [of "s_chain_ok (wk_sess ?w0)"] in \<open>simp add: work_ok_def sess_fine_def\<close>)
  moreover have "sess_wf (wk_sess (fst (post_text_ops sha cfg key engine w)))"
    "s_content (wk_sess (fst (post_text_ops sha cfg key engine w))) = s_content (wk_sess w)"
    using post_text_ops_settled [of w engine key sha cfg] w
    by (simp_all add: work_ok_def sess_fine_def settled_def same_core_def)
  ultimately show ?thesis using w by (simp add: work_ok_def sess_fine_def)
qed

end
