(* ===== verification/Intact.thy ===== *)
theory Intact
  imports Cache TransportFacts
begin

text \<open>
  The store under any use of its whole interface, with any engines that keep tails well formed: lookups,
  imports from untrusted bytes and node exchange included. Every session stays well formed under a
  registered key, and every cached node verifies under its own key.
\<close>

section \<open>The invariant\<close>

definition sess_intact :: "nat \<Rightarrow> session \<Rightarrow> bool" where
  "sess_intact n x \<longleftrightarrow> sess_fine x \<and> s_key_id x < n"

definition intact :: "(u8 list \<Rightarrow> hash32) \<Rightarrow> store \<Rightarrow> bool" where
  "intact sha s \<longleftrightarrow> populated (\<lambda>_. sess_intact (length (ss_keys s))) s \<and> cache_ok sha (ss_nodes s)"

lemma key_of_bound: "key_of s k = Ok key \<Longrightarrow> k < length (ss_keys s)"
  by (auto simp: key_of_def split: if_splits)

lemma intact_ok:
  assumes "intact sha s"
  shows "tbl_ok (ss_sessions s)" "0 < c_max_sessions (ss_cfg s)" "cache_ok sha (ss_nodes s)"
  using assms by (auto simp: intact_def dest: populated_ok)

lemma intact_get: "intact sha s \<Longrightarrow> tbl_get (ss_sessions s) h = Some x \<Longrightarrow> sess_intact (length (ss_keys s)) x"
  by (auto simp: intact_def dest: populated_get)

lemma intact_shrunk: "intact sha s \<Longrightarrow> shrunk s s' \<Longrightarrow> cache_ok sha (ss_nodes s') \<Longrightarrow> intact sha s'"
  using populated_shrunk [of "\<lambda>_. sess_intact (length (ss_keys s))" s s'] by (simp add: intact_def shrunk_def)

lemma intact_inserted:
  assumes s: "intact sha s" and ins: "inserted s s' h x" and x: "sess_fine x" "s_key_id x < length (ss_keys s)"
    and c: "cache_ok sha (ss_nodes s')"
  shows "intact sha s'"
proof -
  have "populated (\<lambda>_. sess_intact (length (ss_keys s))) s'"
    by (rule populated_inserted [where J = "\<lambda>_. sess_intact (length (ss_keys s))", OF _ ins]) (use s x in \<open>simp_all add: intact_def sess_intact_def\<close>)
  then show ?thesis using ins c by (simp add: intact_def inserted_def)
qed

lemma intact_framed:
  assumes s: "intact sha s" and x: "tbl_get (ss_sessions s) h = Some x" and fr: "frame s h s'"
    and y: "tbl_get (ss_sessions s') h = Some y" "sess_fine y" "s_key_id y = s_key_id x" and c: "cache_ok sha (ss_nodes s')"
  shows "intact sha s'"
proof -
  have "populated (\<lambda>_. sess_intact (length (ss_keys s))) s'"
    by (rule populated_framed [where J = "\<lambda>_. sess_intact (length (ss_keys s))", OF _ x fr y(1)]) (use s y intact_get [OF s x] in \<open>simp_all add: intact_def sess_intact_def\<close>)
  then show ?thesis using fr c by (simp add: intact_def frame_def)
qed

lemma intact_quiet:
  assumes "intact sha s" "ss_sessions s' = ss_sessions s" "ss_keys s' = ss_keys s" "ss_cfg s' = ss_cfg s"
    "ss_next_handle s' = ss_next_handle s" "ss_nodes s' = ss_nodes s"
  shows "intact sha s'"
  using assms populated_same [of s' s] by (simp add: intact_def)

lemma sess_fine_upd:
  assumes "sess_fine x"
  shows "sess_fine (x\<lparr>s_last_used := n\<rparr>)" "sess_fine (x\<lparr>s_recovery := r\<rparr>)"
    "digest_fine c \<Longrightarrow> sess_fine (x\<lparr>s_content := c\<rparr>)"
    "sess_fine (bump_generation x)" "sess_fine (x\<lparr>s_record_hash := e\<rparr>)"
    "sess_fine (x\<lparr>s_revision := a, s_prev_hash := b, s_last_replace := d\<rparr>)"
  using assms sess_wf_upd [of x] by (simp_all add: sess_fine_def bump_generation_def)

lemma fresh_fine [simp]: "sess_fine (fresh k w c)"
  by (simp add: sess_fine_def) (simp add: fresh_def)

lemma insert_nodes [simp]: "ss_nodes (fst (insert_session s x)) = ss_nodes s"
  by (simp add: insert_session_def Let_def)

lemma evict_nodes [simp]:
  assumes "tbl_ok (ss_sessions s)" "0 < c_max_sessions (ss_cfg s)"
  shows "ss_nodes (evict_for_capacity s) = ss_nodes s"
  using evict_for_capacity_ok(1) [OF assms] by (auto simp: evicted_from_def count_evicted_def)

section \<open>Put\<close>

lemma seed_session_fine:
  assumes eng: "tail_engine engine" and v: "valid_utf8 x" and c: "cache_ok sha (ss_nodes s)"
    and run: "seed_session sha blake s key engine x (fresh k wt n) = (s', r)"
  shows "cache_ok sha (ss_nodes s') \<and> (\<forall>sess d. r = Ok (sess, d) \<longrightarrow>
    sess_fine sess \<and> s_key_id sess = k \<and> (\<forall>c. d = Some (Ok c) \<longrightarrow> digest_fine (Some c)))"
proof (cases "x = []")
  case True
  then show ?thesis using run c by (auto simp: seed_session_def)
next
  case False
  obtain t d report where e: "seed_encode blake s engine x = (t, d, report)" by (cases "seed_encode blake s engine x")
  have "tail_ok t" using tail_engine.seed_encode_ok [OF eng v, of blake s] e by simp
  then have fine: "sess_fine ((fresh k wt n)\<lparr>s_tail := t\<rparr>)"
    using fresh_fine [of k wt n] by (simp add: sess_fine_def sess_wf_def tail_ok_def snapshot_ok_def)
  have joined: "digest_fine (Some c)" if "d = Some (Ok c)" for c
    using e that content_from_bytes_fine [of blake x c]
    by (auto simp: seed_encode_def Let_def split: option.splits if_splits prod.splits)
  let ?s1 = "\<lambda>rp. stat (\<lambda>st. bump_path st (rp_path rp)) s"
  have post: "cache_ok sha (wk_nodes w) \<and> sess_fine (wk_sess w) \<and> s_key_id (wk_sess w) = k"
    if "post_text_ops sha cfg key engine (work_of (?s1 rp) ((fresh k wt n)\<lparr>s_tail := t\<rparr>)) = (w, pr)" for cfg rp w pr
  proof -
    have w0: "work_ok sha (work_of (?s1 rp) ((fresh k wt n)\<lparr>s_tail := t\<rparr>))" using fine c by (simp add: work_ok_def)
    have "sess_wf (wk_sess (work_of (?s1 rp) ((fresh k wt n)\<lparr>s_tail := t\<rparr>)))" using fine by (simp add: sess_fine_def)
    from post_text_ops_settled [OF this, of engine key sha cfg] post_text_ops_fine [OF w0, of cfg key engine] that
    show ?thesis by (auto simp: work_ok_def settled_def same_core_def)
  qed
  show ?thesis
  proof (cases report)
    case (Ok rp)
    obtain w pr where w: "post_text_ops sha (ss_cfg (?s1 rp)) key engine (work_of (?s1 rp) ((fresh k wt n)\<lparr>s_tail := t\<rparr>)) = (w, pr)"
      by (cases "post_text_ops sha (ss_cfg (?s1 rp)) key engine (work_of (?s1 rp) ((fresh k wt n)\<lparr>s_tail := t\<rparr>))")
    show ?thesis
    proof (cases "verify_append_shape t 0 x [] (rp_kept rp)")
      case v: (Ok u)
      show ?thesis using run post [OF w] False c unfolding seed_session_def e Ok v prod.case attempt.simps Let_def w
        by (cases pr) (auto intro: joined)
    qed (use run False c in \<open>auto simp: seed_session_def e Ok\<close>)
  qed (use run False c in \<open>auto simp: seed_session_def e\<close>)
qed

lemma put_intact:
  assumes s: "intact sha s" and eng: "tail_engine engine" and v: "valid_utf8 x"
    and run: "put sha blake s k x engine = (s', r)"
  shows "intact sha s'"
proof (cases "key_of s k")
  case (Ok key)
  note ok = intact_ok [OF s]
  note st = put_start_ok [OF ok(1,2)]
  have cs: "cache_ok sha (ss_nodes (put_start s))" using ok by (simp add: put_start_def)
  obtain s2 sr where seed: "seed_session sha blake (put_start s) key engine x
      (fresh k (eng_witness engine) (ss_clock (put_start s))) = (s2, sr)" by (cases "seed_session sha blake (put_start s) key engine x
      (fresh k (eng_witness engine) (ss_clock (put_start s)))")
  note sf = seed_session_fine [OF eng v cs seed]
  have q: "quiet (put_start s) s2" using seed_session_quiet seed by (metis fst_conv)
  have s2: "intact sha s2" by (rule intact_shrunk [OF s quiet_shrunk [OF q st(1)]]) (use sf in simp)
  show ?thesis
  proof (cases sr)
    case (Ok p)
    obtain sess d where p: "p = (sess, d)" by (cases p)
    have fin: "(s', r) = put_finish sha blake s2 key x sess d"
      using run by (simp add: put_eq [OF \<open>key_of s k = Ok key\<close>] seed Ok p)
    show ?thesis
    proof (rule put_finish_cases [of sha blake s2 key x sess d], goal_cases)
      case 1
      then show ?thesis using fin s2 by (metis fst_conv)
    next
      case (2 recovery content xn)
      have "inserted s s' (snd (insert_session s2 xn)) xn" using insert_inserted [OF st(1,2) q, of xn] 2 fin by simp
      moreover have "digest_fine content"
        using 2(3) sf Ok p content_from_bytes_fine [of blake x]
        by (cases content) (auto simp: seed_content_digest_def split: option.splits)
      then have "sess_fine xn" "s_key_id xn = k" using 2(1) sf Ok p by (auto intro!: sess_fine_upd)
      moreover have "cache_ok sha (ss_nodes s')" using 2 fin sf by simp
      ultimately show ?thesis using intact_inserted [OF s] key_of_bound [OF \<open>key_of s k = Ok key\<close>] by blast
    qed
  qed (use run s2 in \<open>simp_all add: put_eq [OF Ok] seed\<close>)
qed (use s run in \<open>simp_all add: put_def\<close>)

section \<open>Append\<close>

lemma append_body_intact:
  assumes s: "intact sha s" and eng: "tail_engine engine" and x: "sess_fine x" and v: "valid_utf8 delta"
    and c: "cache_ok sha (ss_nodes s1)" and cfg: "ss_cfg s1 = ss_cfg s"
  shows "kept_at (\<lambda>y n. (sess_fine y \<and> s_key_id y = s_key_id x) \<and> cache_ok sha n) s1 h
    (fst (append_body sha blake s1 h key x delta engine))"
proof (rule append_body_kept)
  fix t r assume g: "grow_tail (ss_cfg s1) engine (s_tail x) delta = (t, r)"
  have xw: "sess_wf x" using x by (simp add: sess_fine_def)
  have "tail_ok t" using tail_engine.grow_tail_ok [OF eng sess_tail_ok [OF xw] v, of "ss_cfg s1"] g by simp
  moreover have "delta = [] \<Longrightarrow> t = s_tail x" using g by (simp add: grow_tail_noop)
  ultimately have "sess_wf ((opened x delta)\<lparr>s_tail := t\<rparr>)"
    using xw by (cases "delta = []") (simp_all add: opened_def bump_generation_def sess_wf_def snapshot_ok_def tail_ok_def)
  then show "(sess_fine ((opened x delta)\<lparr>s_tail := t\<rparr>) \<and> s_key_id ((opened x delta)\<lparr>s_tail := t\<rparr>) = s_key_id x)
      \<and> cache_ok sha (ss_nodes s1)"
    using x c by (simp add: sess_fine_def opened_def bump_generation_def)
next
  fix w :: work
  assume w: "(sess_fine (wk_sess w) \<and> s_key_id (wk_sess w) = s_key_id x) \<and> cache_ok sha (wk_nodes w)"
  let ?m = "settle_step sha (ss_cfg s1) key engine delta w"
  have "work_ok sha w" using w by (simp add: work_ok_def)
  then have "work_ok sha (fst ?m)" using post_text_ops_fine by (simp add: settle_step_def)
  moreover have "s_key_id (wk_sess (fst ?m)) = s_key_id (wk_sess w)"
    using post_text_ops_settled [of w engine key sha "ss_cfg s1"] w
    by (auto simp: settle_step_def sess_fine_def settled_def same_core_def)
  ultimately show "(sess_fine (wk_sess (fst ?m)) \<and> s_key_id (wk_sess (fst ?m)) = s_key_id x) \<and> cache_ok sha (wk_nodes (fst ?m))"
    using w by (simp add: work_ok_def)
next
  fix y n assume y: "(sess_fine y \<and> s_key_id y = s_key_id x) \<and> cache_ok sha n"
  obtain r c where d: "fst (append_digests blake delta y) = y\<lparr>s_recovery := r, s_content := c\<rparr>"
    using append_digests_keeps [of y blake delta] unfolding digests_only_def by blast
  then have "digest_fine c" using append_digests_fine [of y blake delta] y by (simp add: sess_fine_def)
  with y d show "(sess_fine (fst (append_digests blake delta y)) \<and> s_key_id (fst (append_digests blake delta y)) = s_key_id x)
      \<and> cache_ok sha n" by (simp add: sess_fine_upd)
next
  fix y n path i assume y: "(sess_fine y \<and> s_key_id y = s_key_id x) \<and> cache_ok sha n"
  show "(sess_fine (fst (commit_append sha key path i y)) \<and> s_key_id (fst (commit_append sha key path i y)) = s_key_id x)
      \<and> cache_ok sha n"
    using y commit_append_state [of sha key path i y] sess_fine_upd(5,6) by fastforce
qed

lemma append_patch_intact:
  assumes s: "intact sha s" and eng: "tail_engine engine" and v: "valid_utf8 delta"
    and run: "append_patch sha blake s h delta n engine = (s', r)"
  shows "intact sha s'"
proof (cases "tbl_get (ss_sessions s) h")
  case None
  then show ?thesis using run s by (simp add: append_patch_def session_of_def)
next
  case (Some x)
  then have sess: "session_of s h = Ok x" by simp
  have x: "sess_fine x" "s_key_id x < length (ss_keys s)" using intact_get [OF s Some] by (simp_all add: sess_intact_def)
  show ?thesis
  proof (cases "key_of s (s_key_id x)")
    case (Ok key)
    note run' = run [unfolded append_patch_def sess Ok attempt.simps Let_def]
    show ?thesis
    proof (cases "s_witness x = eng_witness engine \<and> s_revision x = n")
      case False
      then have "s' = s \<or> s' = stat (\<lambda>st. st\<lparr>st_revision_conflicts := st_revision_conflicts st + 1\<rparr>) s"
        using run' by (auto split: if_splits)
      then show ?thesis using s by (auto intro: intact_quiet [OF s])
    next
      case True
      let ?x1 = "x\<lparr>s_last_used := Suc (ss_clock s)\<rparr>"
      let ?s1 = "put_session (stat (\<lambda>st. st\<lparr>st_extends := st_extends st + 1\<rparr>) (tick s)) h ?x1"
      have "s' = fst (append_body sha blake ?s1 h key ?x1 delta engine)" using run' True by simp
      moreover have "kept_at (\<lambda>y n. (sess_fine y \<and> s_key_id y = s_key_id ?x1) \<and> cache_ok sha n) ?s1 h
          (fst (append_body sha blake ?s1 h key ?x1 delta engine))"
        by (rule append_body_intact [OF s eng sess_fine_upd(1) [OF x(1)] v]) (use intact_ok [OF s] in simp_all)
      moreover have "frame s h ?s1" by simp
      ultimately obtain y where "tbl_get (ss_sessions s') h = Some y" "sess_fine y" "s_key_id y = s_key_id x"
        "frame s h s'" "cache_ok sha (ss_nodes s')"
        by (auto simp: kept_at_def frame_def)
      then show ?thesis using intact_framed [OF s Some] by blast
    qed
  qed (use run sess s in \<open>simp_all add: append_patch_def\<close>)
qed

section \<open>New sessions\<close>

lemma intact_evict:
  assumes s: "intact sha s"
  shows "intact sha (evict_for_capacity s)" "length (ss_sessions (evict_for_capacity s)) < c_max_sessions (ss_cfg s)"
    "ss_keys (evict_for_capacity s) = ss_keys s" "ss_cfg (evict_for_capacity s) = ss_cfg s"
proof -
  note ok = intact_ok [OF s]
  have sh: "shrunk s (evict_for_capacity s)" by (rule evict_shrunk [OF ok(1,2)])
  then show "intact sha (evict_for_capacity s)" using intact_shrunk [OF s] ok by simp
  show "length (ss_sessions (evict_for_capacity s)) < c_max_sessions (ss_cfg s)" by (rule evict_for_capacity_ok(2) [OF ok(1,2)])
  show "ss_keys (evict_for_capacity s) = ss_keys s" "ss_cfg (evict_for_capacity s) = ss_cfg s"
    using sh by (simp_all add: shrunk_def)
qed

lemma intact_insert:
  assumes s: "intact sha s" and room: "length (ss_sessions s) < c_max_sessions (ss_cfg s)"
    and x: "sess_fine x" "s_key_id x < length (ss_keys s)"
  shows "intact sha (fst (insert_session s x))"
proof -
  have "inserted s (fst (insert_session s x)) (snd (insert_session s x)) x"
    by (rule insert_inserted [OF shrunk_refl room]) (use intact_ok [OF s] in simp_all)
  from intact_inserted [OF s this x] show ?thesis using intact_ok [OF s] by simp
qed

lemma intact_bump: "intact sha s \<Longrightarrow> intact sha (stat f s)" "intact sha s \<Longrightarrow> intact sha (tick s)"
  "intact sha s \<Longrightarrow> intact sha (count_materialization s)"
  by (erule intact_quiet; simp)+

text \<open>A session rebuilt from tokens and a tail text, the way a hit and the imports do.\<close>

lemma rebuilt_fine:
  assumes eng: "tail_engine engine" and v: "valid_utf8 x" and e: "eng_encode engine x = Ok enc" and t: "fill_state x enc = Ok t"
    and y: "s_tail y = t" "s_sealed y = sealed_from_vec ids" "s_payload y = DOMAIN_PAYLOAD @ ids_le ids"
      "s_snapshot y = None" "valid_utf8 (s_buf y)" "digest_fine (s_content y)"
  shows "sess_fine y"
proof -
  have "tail_ok t" using fill_ok [OF t v] tail_engine.encode_sorted [OF eng v fill_count [OF t] e] .
  then show ?thesis using y by (simp add: sess_fine_def sess_wf_def tail_ok_def snapshot_ok_def)
qed

text \<open>The digests that a hit or an import starts.\<close>

lemma tracked_fine:
  "(if b then rbind r (\<lambda>p. rbind (content_from_bytes blake p) (\<lambda>d. Ok (Some d))) else Ok None) = Ok ct \<Longrightarrow> digest_fine ct"
  "(if b then rbind (content_from_bytes blake x) (\<lambda>d. Ok (Some d)) else Ok None) = Ok ct \<Longrightarrow> digest_fine ct"
  "rbind (content_from_bytes blake x) (\<lambda>d. Ok (Some d)) = Ok ct \<Longrightarrow> digest_fine ct"
  by (auto simp: rbind_eq_Ok content_from_bytes_fine split: if_splits)

lemma bare_digests_fine: "bare_digests blake s p = Ok (rc, ct) \<Longrightarrow> digest_fine ct"
  by (auto simp: bare_digests_def rbind_eq_Ok content_from_bytes_fine split: if_splits)

lemma walk_from_cache:
  assumes c: "cache_ok sha nodes" and run: "lookup_walk sha bc nodes key wit i wk blocks = (wk', rej)"
    and ok: "\<forall>x \<in> set (lw_path wk). valid_utf8 (n_text_tail (snd x))"
  shows "\<forall>x \<in> set (lw_path wk'). valid_utf8 (n_text_tail (snd x))"
  using c run ok
proof (induction sha bc nodes key wit i wk blocks rule: lookup_walk.induct)
  case (2 sha bc nodes key wit index wk block rest)
  let ?kh = "node_key sha (lw_parent wk) (k_fingerprint key) index block"
  show ?case
  proof (cases "tbl_get nodes ?kh")
    case (Some e)
    show ?thesis
    proof (cases "Option.bind (checked_add64 index 1) (\<lambda>n. checked_mul64 n bc)")
      case b: (Some end_char)
      show ?thesis
      proof (cases "node_fits sha key wit index end_char wk e")
        case True
        have "node_fine sha ?kh e" using "2.prems"(1) Some unfolding cache_ok_def by blast
        then have "valid_utf8 (n_text_tail (ne_rec e))" by (simp add: node_fine_def)
        then have ok': "\<forall>x \<in> set (lw_path (walk_on wk ?kh (ne_rec e))). valid_utf8 (n_text_tail (snd x))"
          using "2.prems"(3) by (simp add: walk_on_def)
        have "\<not> \<not> node_fits sha key wit index end_char wk e" using True by simp
        from "2.IH" [OF refl Some b this "2.prems"(1) _ ok'] show ?thesis using "2.prems"(2) True Some b by (simp add: Let_def)
      qed (use "2.prems" Some b in \<open>simp add: Let_def\<close>)
    qed (use "2.prems" Some in \<open>simp add: Let_def\<close>)
  qed (use "2.prems" in \<open>simp add: Let_def\<close>)
qed simp

lemma lookup_intact:
  assumes s: "intact sha s" and eng: "tail_engine engine" and run: "lookup sha blake s k x engine = (s', r)"
  shows "intact sha s'"
proof (cases "key_of s k")
  case (Ok key)
  let ?bc = "c_block_chars (ss_cfg s)"
  obtain wk rej where walk: "lookup_walk sha ?bc (ss_nodes s) key (eng_witness engine) 0 walk_start (block_slices x ?bc) = (wk, rej)"
    by fastforce
  have strings: "\<forall>y \<in> set (lw_path wk). valid_utf8 (n_text_tail (snd y))"
    by (rule walk_from_cache [OF intact_ok(3) [OF s] walk]) (simp add: walk_start_def)
  define s1 where "s1 = stat (\<lambda>st. st\<lparr>st_lookups := st_lookups st + 1\<rparr>) s"
  define s2 where "s2 = (if rej then stat (\<lambda>st. st\<lparr>st_checksum_rejects := st_checksum_rejects st + 1\<rparr>) s1 else s1)"
  have s2: "intact sha s2" "ss_keys s2 = ss_keys s" using s by (simp_all add: s2_def s1_def intact_bump)
  define s3 where "s3 = evict_for_capacity (tick s2)"
  note ev = intact_evict [OF intact_bump(2) [OF s2(1)]]
  have s3: "intact sha s3" "length (ss_sessions s3) < c_max_sessions (ss_cfg s3)" "ss_keys s3 = ss_keys s"
    using ev s2(2) by (simp_all add: s3_def)
  have ins: "intact sha (fst (insert_session s3 y))" if "sess_fine y" "s_key_id y = k" for y
    by (rule intact_insert [OF s3(1,2) that(1)]) (use that(2) s3(3) key_of_bound [OF Ok] in simp)
  have fine: "sess_fine ((hit_session k wt c dk (snd (last (lw_path wk))) ids ix b t)\<lparr>s_recovery := rc, s_content := ct\<rparr>)"
    if "lw_path wk \<noteq> []" "eng_encode engine (n_text_tail (snd (last (lw_path wk)))) = Ok enc"
      "fill_state (n_text_tail (snd (last (lw_path wk)))) enc = Ok t" "digest_fine ct" for wt c dk ids ix b t rc ct enc
    by (rule rebuilt_fine [OF eng _ that(2,3)]) (use strings that(1,4) in \<open>simp_all add: hit_session_def fresh_def payload_hasher_new_def\<close>)
  have fine': "sess_fine (y\<lparr>s_record_hash := e\<rparr>)" if "sess_fine y" for y e using that by (rule sess_fine_upd(5))
  have "intact sha (fst (lookup sha blake s k x engine))"
    unfolding lookup_def Ok attempt.simps Let_def store_simps nodes_sel walk prod.case
    unfolding s1_def [symmetric] unfolding s2_def [symmetric] unfolding s3_def [symmetric] case_prod_beta
  proof (cases "lw_path wk = []", goal_cases)
    case 1
    then show ?case using intact_bump(1) [OF s2(1)] by simp
  next
    case 2
    show ?case
      unfolding if_not_P [OF 2]
      by (intro attempt_state [where P = "intact sha"] s2(1) s3(1), unfold fst_conv)
        (intro intact_bump(1) ins fine' fine [OF 2]; (erule tracked_fine | simp add: hit_session_def))
  qed
  then show ?thesis using run by simp
qed (use s run in \<open>simp_all add: lookup_def\<close>)

lemma fork_intact:
  assumes s: "intact sha s" and run: "fork sha s h = (s', r)"
  shows "intact sha s'"
proof (cases "tbl_get (ss_sessions s) h")
  case (Some x)
  then have sess: "session_of (tick s) h = Ok x" by simp
  have x: "sess_fine x" "s_key_id x < length (ss_keys s)" using intact_get [OF s Some] by (simp_all add: sess_intact_def)
  let ?x1 = "x\<lparr>s_last_used := Suc (ss_clock s)\<rparr>"
  let ?s1 = "put_session (tick s) h ?x1"
  have s1: "intact sha ?s1"
    by (rule intact_framed [OF s Some, where y = ?x1]) (use x sess_fine_upd(1) intact_ok [OF s] in simp_all)
  show ?thesis
  proof (cases "key_of (tick s) (s_key_id x)")
    case (Ok key)
    let ?s2 = "stat (\<lambda>st. st\<lparr>st_forks := st_forks st + 1\<rparr>) ?s1"
    have s2: "intact sha ?s2" by (rule intact_bump(1) [OF s1])
    have "sess_fine (fork_session sha key ?x1)" "s_key_id (fork_session sha key ?x1) = s_key_id x"
      using x(1) fork_session_wf [of ?x1] sess_fine_upd(1)
      by (simp_all add: sess_fine_def) (simp add: fork_session_def Let_def)
    then have "intact sha (fst (insert_session (evict_for_capacity ?s2) (fork_session sha key ?x1)))"
      using intact_evict [OF s2] x(2) by (intro intact_insert) simp_all
    moreover have "s' = fst (insert_session (evict_for_capacity ?s2) (fork_session sha key ?x1))"
      using run unfolding fork_def Let_def sess Ok attempt.simps case_prod_beta by auto
    ultimately show ?thesis by simp
  qed (use run sess intact_bump(2) [OF s] in \<open>simp_all add: fork_def Let_def\<close>)
qed (use run intact_bump(2) [OF s] in \<open>simp add: fork_def session_of_def Let_def\<close>)

section \<open>Imports\<close>

lemma intact_reject: "intact sha s \<Longrightarrow> intact sha (reject s)"
  unfolding reject_def by (rule intact_bump(1))

lemma gates_intact:
  assumes "intact sha s"
  shows "intact sha (fst (import_record_gates sha s key bytes engine))"
  unfolding import_record_gates_def Let_def
  by (auto intro!: attempt_state [where P = "intact sha"] intact_reject assms)

lemma gates_fine:
  assumes eng: "tail_engine engine" and g: "import_record_gates sha s key bytes engine = (s1, Ok (p, n, t))"
  shows "s1 = s"
    and "s_tail y = t \<Longrightarrow> s_sealed y = sealed_from_vec (take n (r_ids p)) \<Longrightarrow>
      s_payload y = DOMAIN_PAYLOAD @ ids_le (take n (r_ids p)) \<Longrightarrow> s_snapshot y = None \<Longrightarrow>
      valid_utf8 (s_buf y) \<Longrightarrow> digest_fine (s_content y) \<Longrightarrow> sess_fine y"
proof -
  obtain enc where e: "s1 = s" "record_from_bytes sha bytes = Ok p" "eng_encode engine (r_tail p) = Ok enc"
    "fill_state (r_tail p) enc = Ok t" by (rule gates_Ok [OF g])
  then show "s1 = s" by simp
  have "valid_utf8 (r_tail p)" using record_from_bytes_sound(1) [OF e(2)] by (simp add: record_ok_def)
  then show "sess_fine y" if "s_tail y = t" "s_sealed y = sealed_from_vec (take n (r_ids p))"
      "s_payload y = DOMAIN_PAYLOAD @ ids_le (take n (r_ids p))" "s_snapshot y = None" "valid_utf8 (s_buf y)"
      "digest_fine (s_content y)"
    using rebuilt_fine [OF eng _ e(3,4) that] by simp
qed

lemma insert_import_intact:
  assumes s: "intact sha s" and y: "sess_fine y" "s_key_id y < length (ss_keys s)"
  shows "intact sha (fst (insert_import (evict_for_capacity (tick s)) y))"
  using intact_insert [OF intact_evict(1) [OF intact_bump(2) [OF s]], of y] intact_evict(2-4) [OF intact_bump(2) [OF s]] y
  by (simp add: insert_import_def case_prod_beta)

lemma detached_intact:
  assumes "intact sha s" "tail_engine engine" "import_record_gates sha s key bytes engine = (s1, Ok (p, n, t))"
    and "key_of s k = Ok key" "digest_fine ct"
  shows "intact sha (fst (insert_import (evict_for_capacity (tick s1)) (detached_import_session k p n t c rc ct)))"
proof -
  note g = gates_fine [OF assms(2,3)]
  have "sess_fine (detached_import_session k p n t c rc ct)" "s_key_id (detached_import_session k p n t c rc ct) = k"
    by (rule g(2), simp_all add: detached_import_session_def fresh_def payload_hasher_new_def assms(5))
  then show ?thesis using insert_import_intact [OF assms(1)] key_of_bound [OF assms(4)] g(1) by simp
qed

lemma import_intact:
  assumes s: "intact sha s" and eng: "tail_engine engine"
  shows "intact sha (fst (import_session sha blake s k bytes engine))"
    "intact sha (fst (import_session_with_recovery sha blake s k bytes hist m engine))"
    "intact sha (fst (import_session_with_binding sha blake s k bytes hist b engine))"
    "intact sha (fst (import_session_with_sidecar sha blake s k bytes side engine))"
proof -
  have gates: "intact sha s1" if "import_record_gates sha s key bytes engine = (s1, r)" for key s1 r
    using gates_intact [OF s, of key bytes engine] that by simp
  have ins: "intact sha (fst (insert_import (evict_for_capacity (tick s1)) (detached_import_session k p n t c rc ct)))"
    if "key_of s k = Ok key" "import_record_gates sha s key bytes engine = (s1, Ok (p, n, t))" "digest_fine ct"
    for key s1 p n t c rc ct
    by (rule detached_intact [OF s eng that(2,1,3)])
  have ins': "intact sha (fst (insert_import (evict_for_capacity (tick s1)) (sidecar_session k p sc n t c rc ct)))"
    if "key_of s k = Ok key" "import_record_gates sha s key bytes engine = (s1, Ok (p, n, t))"
      "sidecar_from_bytes sha side = Ok sc" "digest_fine ct" for key s1 p n t c rc ct sc
  proof -
    note g = gates_fine [OF eng that(2)]
    have "valid_utf8 (sc_buf sc)" using sidecar_from_bytes_sound [OF that(3)] by (simp add: sidecar_ok_def)
    then have "sess_fine (sidecar_session k p sc n t c rc ct)" "s_key_id (sidecar_session k p sc n t c rc ct) = k"
      by (intro g(2), simp_all add: sidecar_session_def fresh_def payload_hasher_new_def that(4))
    then show ?thesis using insert_import_intact [OF s] key_of_bound [OF that(1)] g(1) by simp
  qed
  note states = attempt_state [where P = "intact sha"] andthen_state [where P = "intact sha"]
  show "intact sha (fst (import_session sha blake s k bytes engine))"
    unfolding import_session_def Let_def by (auto intro!: states s gates_intact ins dest: gates bare_digests_fine)
  show "intact sha (fst (import_session_with_recovery sha blake s k bytes hist m engine))"
    unfolding import_session_with_recovery_def Let_def
    by (auto intro!: states s gates_intact intact_evict(1) intact_bump(2) intact_reject ins dest: gates tracked_fine(3))
  show "intact sha (fst (import_session_with_binding sha blake s k bytes hist b engine))"
    unfolding import_session_with_binding_def Let_def
    by (auto intro!: states s gates_intact intact_evict(1) intact_bump(2) intact_reject ins dest: gates content_from_bytes_fine)
  show "intact sha (fst (import_session_with_sidecar sha blake s k bytes side engine))"
    unfolding import_session_with_sidecar_def Let_def
    by (auto intro!: states s gates_intact intact_evict(1) intact_bump(2) intact_reject ins' dest: gates bare_digests_fine)
qed

section \<open>The whole interface\<close>

text \<open>
  One call of the public interface, with whatever result. Texts are strings; engines only have to keep
  tails well formed. The one entry left out is the hook that corrupts a node for the tests.
\<close>

inductive store_step :: "(u8 list \<Rightarrow> hash32) \<Rightarrow> (u8 list \<Rightarrow> hash16) \<Rightarrow> store \<Rightarrow> store \<Rightarrow> bool"
  for sha blake where
  "register_fingerprint s f g = (s', r) \<Longrightarrow> store_step sha blake s s'"
| "tail_engine engine \<Longrightarrow> valid_utf8 x \<Longrightarrow> put sha blake s k x engine = (s', r) \<Longrightarrow> store_step sha blake s s'"
| "tail_engine engine \<Longrightarrow> valid_utf8 d \<Longrightarrow> append_patch sha blake s h d n engine = (s', r) \<Longrightarrow> store_step sha blake s s'"
| "tail_engine engine \<Longrightarrow> valid_utf8 d \<Longrightarrow> append_session sha blake s h d n engine = (s', r) \<Longrightarrow> store_step sha blake s s'"
| "tail_engine engine \<Longrightarrow> lookup sha blake s k x engine = (s', r) \<Longrightarrow> store_step sha blake s s'"
| "fork sha s h = (s', r) \<Longrightarrow> store_step sha blake s s'"
| "evict s h = (s', b) \<Longrightarrow> store_step sha blake s s'"
| "all_ids s h = (s', r) \<Longrightarrow> store_step sha blake s s'"
| "shared_all_ids s h = (s', r) \<Longrightarrow> store_step sha blake s s'"
| "export_session sha s h = (s', r) \<Longrightarrow> store_step sha blake s s'"
| "import_node_item sha s kb bytes = (s', b) \<Longrightarrow> store_step sha blake s s'"
| "tail_engine engine \<Longrightarrow> import_session sha blake s k bytes engine = (s', r) \<Longrightarrow> store_step sha blake s s'"
| "tail_engine engine \<Longrightarrow> import_session_with_recovery sha blake s k bytes x m engine = (s', r) \<Longrightarrow> store_step sha blake s s'"
| "tail_engine engine \<Longrightarrow> import_session_with_binding sha blake s k bytes x b engine = (s', r) \<Longrightarrow> store_step sha blake s s'"
| "tail_engine engine \<Longrightarrow> import_session_with_binding_candidate sha blake s k bytes x b engine = (s', rc) \<Longrightarrow>
     store_step sha blake s s'"
| "tail_engine engine \<Longrightarrow> import_session_with_sidecar sha blake s k bytes side engine = (s', r) \<Longrightarrow> store_step sha blake s s'"
| "restore_tracking_with_binding sha blake s h x b = (s', r) \<Longrightarrow> store_step sha blake s s'"
| "enable_recovery_tracking s = (s', r) \<Longrightarrow> store_step sha blake s s'"
| "enable_content_tracking s = (s', r) \<Longrightarrow> store_step sha blake s s'"
| "store_step sha blake s (set_seed_overlap s runner)"
| "store_step sha blake s (inject_content_digest_fault s message)"

inductive used :: "(u8 list \<Rightarrow> hash32) \<Rightarrow> (u8 list \<Rightarrow> hash16) \<Rightarrow> store \<Rightarrow> bool" for sha blake where
  new: "store_new cfg = Ok s \<Longrightarrow> used sha blake s"
| step: "used sha blake s \<Longrightarrow> store_step sha blake s s' \<Longrightarrow> used sha blake s'"

lemma register_intact:
  assumes s: "intact sha s" and run: "register_fingerprint s f g = (s', r)"
  shows "intact sha s'"
proof -
  let ?ks = "ss_keys s @ [\<lparr>kr_fingerprint = f, kr_guard = g\<rparr>]"
  have "populated (\<lambda>_. sess_intact (length ?ks)) (s\<lparr>ss_keys := ?ks\<rparr>)"
    using s by (auto simp: intact_def populated_def sess_intact_def intro: less_SucI)
  then have "intact sha (s\<lparr>ss_keys := ?ks\<rparr>)" using s by (simp add: intact_def)
  then show ?thesis using register_cases [OF run] s by auto
qed

lemma rows_intact:
  assumes s: "intact sha s"
  shows "all_ids s h = (s', r) \<Longrightarrow> intact sha s'" "shared_all_ids s h = (s', r2) \<Longrightarrow> intact sha s'"
proof -
  let ?J = "\<lambda>_. sess_intact (length (ss_keys s))"
  have p: "populated ?J s" using s by (simp add: intact_def)
  have wf: "sess_wf x" if "tbl_get (ss_sessions s) h = Some x" for x
    using intact_get [OF s that] by (simp add: sess_intact_def sess_fine_def)
  show "intact sha s'" if run: "all_ids s h = (s', r)"
  proof -
    have "ss_keys s' = ss_keys s \<and> ss_nodes s' = ss_nodes s"
      using run by (cases "tbl_get (ss_sessions s) h") (auto simp: all_ids_def Let_def session_of_def)
    moreover have "populated ?J s'"
      by (rule all_ids_touch [OF p run]) (simp add: sess_intact_def sess_fine_upd)
    ultimately show ?thesis using s by (simp add: intact_def)
  qed
  show "intact sha s'" if run: "shared_all_ids s h = (s', r2)"
  proof -
    have "ss_keys s' = ss_keys s \<and> ss_nodes s' = ss_nodes s"
      using run by (cases "tbl_get (ss_sessions s) h")
        (auto simp: shared_all_ids_def snapshot_row_def Let_def session_of_def split: option.splits)
    moreover have "populated ?J s'"
      by (rule shared_all_ids_touch [OF p run wf]) (simp_all add: sess_intact_def sess_fine_def)
    ultimately show ?thesis using s by (simp add: intact_def)
  qed
qed

lemma node_item_intact:
  assumes s: "intact sha s"
  shows "intact sha (fst (import_node_item sha s kb bytes))"
proof -
  have "intact sha (s\<lparr>ss_nodes := tbl_put (ss_nodes s) k e\<rparr>)"
    if "node_from_bytes sha bytes = Ok n" "entry_create sha n = Ok e" "n_key n = k" for n e k
  proof -
    have "node_fine sha k e"
      using node_from_bytes_sound [OF that(1)] entry_create_Ok [OF that(2)] that(3) by (simp add: node_fine_def node_ok_def)
    then have "cache_ok sha (tbl_put (ss_nodes s) k e)" using cache_ok_put intact_ok(3) [OF s] by blast
    then show ?thesis using s populated_same [of "s\<lparr>ss_nodes := tbl_put (ss_nodes s) k e\<rparr>" s] by (simp add: intact_def)
  qed
  then show ?thesis using intact_reject [OF s] by (auto simp: import_node_item_def Let_def split: outcome.splits)
qed

lemma restore_intact:
  assumes s: "intact sha s"
  shows "intact sha (fst (restore_tracking_with_binding sha blake s h x b))"
proof -
  have put: "intact sha (put_session s h (y\<lparr>s_recovery := rc, s_content := ct\<rparr>))"
    if "tbl_get (ss_sessions s) h = Some y" "digest_fine ct" for y rc ct
    by (rule intact_framed [OF s that(1), where y = "y\<lparr>s_recovery := rc, s_content := ct\<rparr>"])
      (use intact_get [OF s that(1)] intact_ok [OF s] that(2) in \<open>simp_all add: sess_intact_def sess_fine_upd\<close>)
  have "digest_fine (Some ct)" if "verified_tracking_state sha blake s h x b = Ok (rc, ct)" for rc ct
    using that content_from_bytes_fine [of blake x]
    by (auto simp: verified_tracking_state_def Let_def rbind_eq_Ok split: if_splits)
  then show ?thesis using s unfolding restore_tracking_with_binding_def
    by (auto intro!: attempt_state [where P = "intact sha"] put)
qed

lemma append_session_intact:
  assumes "intact sha s" "tail_engine engine" "valid_utf8 d"
  shows "intact sha (fst (append_session sha blake s h d n engine))"
proof -
  have patch: "intact sha s1" if "append_patch sha blake s h d n engine = (s1, r)" for s1 r
    by (rule append_patch_intact [OF assms that])
  then have "intact sha (fst (append_patch sha blake s h d n engine))" by (cases "append_patch sha blake s h d n engine") simp
  then show ?thesis
    unfolding append_session_def collect_all_ids_def Let_def
    by (auto intro!: andthen_state [where P = "intact sha"] attempt_state [where P = "intact sha"] intact_bump(3)
        dest: patch simp: attempt_eq_Ok)
qed

lemma interface_intact:
  assumes s: "intact sha s"
  shows "intact sha (fst (export_session sha s h))" "intact sha (fst (evict s h))"
    "intact sha (fst (enable_recovery_tracking s))" "intact sha (fst (enable_content_tracking s))"
    "intact sha (set_seed_overlap s runner)" "intact sha (inject_content_digest_fault s m)"
proof -
  show "intact sha (fst (export_session sha s h))"
    unfolding export_session_def by (auto intro!: attempt_state [where P = "intact sha"] intact_bump(3) s)
  have "ss_keys (fst (evict s h)) = ss_keys s" "ss_nodes (fst (evict s h)) = ss_nodes s" by (simp_all add: evict_def)
  then show "intact sha (fst (evict s h))" using s by (simp add: intact_def populated_evict)
  show "intact sha (fst (enable_recovery_tracking s))" "intact sha (fst (enable_content_tracking s))"
    "intact sha (set_seed_overlap s runner)" "intact sha (inject_content_digest_fault s m)"
    using s by (auto simp: enable_recovery_tracking_def enable_content_tracking_def set_seed_overlap_def
        inject_content_digest_fault_def intro: intact_quiet [OF s])
qed

lemma candidate_intact:
  assumes "intact sha s" "tail_engine engine"
  shows "intact sha (fst (import_session_with_binding_candidate sha blake s k bytes x b engine))"
proof -
  have "intact sha s1" if "import_session_with_binding sha blake s k bytes hist b engine = (s1, r)" for hist s1 r
    using import_intact(3) [OF assms, of blake k bytes hist b] that by simp
  then show ?thesis
    unfolding import_session_with_binding_candidate_def Let_def
    by (auto intro!: attempt_state [where P = "intact sha"] andthen_state [where P = "intact sha"] assms(1) import_intact(3) assms)
qed

lemma store_step_intact:
  assumes s: "intact sha s" and "store_step sha blake s s'"
  shows "intact sha s'"
proof -
  note ops = append_session_intact interface_intact candidate_intact import_intact node_item_intact restore_intact
  from assms(2) show ?thesis
    by cases (use s put_intact append_patch_intact lookup_intact fork_intact rows_intact register_intact ops
        in \<open>(metis fst_conv | blast)\<close>)+
qed

lemma used_intact: "used sha blake s \<Longrightarrow> intact sha s"
proof (induction rule: used.induct)
  case (new cfg s)
  then have "ss_nodes s = []" by (auto simp: store_new_def rbind_eq_Ok)
  then show ?case using populated_new [OF new] by (simp add: intact_def)
qed (rule store_step_intact)

end
