(* ===== verification/EngineFacts.thy ===== *)
theory EngineFacts
  imports Demo
begin

text \<open>
  The properties of the deterministic engine of \<^verbatim>\<open>testing.rs\<close>, which meets the contract the store
  is proved against.
\<close>

section \<open>The encoding\<close>

text \<open>A token of the engine: one character class, no longer than the piece bound.\<close>

definition uniform :: "mock \<Rightarrow> (nat \<Rightarrow> bool) \<Rightarrow> str list \<Rightarrow> nat \<times> nat \<Rightarrow> bool" where
  "uniform m alpha cs = (\<lambda>(a, b). b - a \<le> max (mk_piece_chars m) 1
     \<and> (\<forall>i. a \<le> i \<longrightarrow> i < b \<longrightarrow> class_of alpha (cs ! i) = class_of alpha (cs ! a)))"

lemma run_end_class:
  "e \<le> i \<Longrightarrow> i < run_end alpha cs cls e \<Longrightarrow> class_of alpha (cs ! i) = cls"
proof (induction alpha cs cls e rule: run_end.induct)
  case (1 alpha cs cls e)
  note eq = run_end.simps [of alpha cs cls e]
  show ?case
  proof (cases "e < length cs \<and> class_of alpha (cs ! e) = cls")
    case True
    then have "i < run_end alpha cs cls (Suc e)" using "1.prems"(2) unfolding eq by simp
    then show ?thesis using "1.IH" [OF True] "1.prems"(1) True by (cases "i = e") simp_all
  next
    case False
    then have "run_end alpha cs cls e = e" unfolding eq by (rule if_not_P)
    then show ?thesis using "1.prems" by simp
  qed
qed

lemma piece_bounds_small: "x \<in> set (piece_bounds m e p) \<Longrightarrow> snd x - fst x \<le> max (mk_piece_chars m) 1"
proof (induction m e p rule: piece_bounds.induct)
  case (1 m e p)
  have "p < e" using "1.prems" unfolding piece_bounds.simps [of m e p] by (simp split: if_splits)
  then show ?case using "1.IH" "1.prems" unfolding piece_bounds.simps [of m e p] by auto
qed

lemma run_bounds_uniform: "x \<in> set (run_bounds m alpha cs ix) \<Longrightarrow> uniform m alpha cs x"
proof (induction m alpha cs ix rule: run_bounds.induct)
  case (1 m alpha cs ix)
  note eq = run_bounds.simps [of m alpha cs ix]
  have ix: "ix < length cs" using "1.prems" unfolding eq by (simp split: if_splits)
  let ?cls = "class_of alpha (cs ! ix)"
  let ?e = "run_end alpha cs ?cls (Suc ix)"
  from "1.prems" consider "x \<in> set (piece_bounds m ?e ix)" | "x \<in> set (run_bounds m alpha cs ?e)"
    unfolding eq using ix by auto
  then show ?case
  proof cases
    case 1
    have "ix \<le> ?e" using run_end_ge [of "Suc ix" alpha cs ?cls] by simp
    then have b: "ix \<le> fst x" "fst x < snd x" "snd x \<le> ?e" using tiles_bounds [OF piece_bounds_tiles 1] by auto
    have cls: "class_of alpha (cs ! i) = ?cls" if "ix \<le> i" "i < ?e" for i
      using run_end_class [of "Suc ix" i alpha cs ?cls] that by (cases "i = ix") simp_all
    have "class_of alpha (cs ! i) = class_of alpha (cs ! fst x)" if "fst x \<le> i" "i < snd x" for i
      by (rule trans [OF cls cls [symmetric]]) (use b that in linarith)+
    then show ?thesis using piece_bounds_small [OF 1] unfolding uniform_def split_def by blast
  next
    case 2
    then show ?thesis using "1.IH" ix by blast
  qed
qed

text \<open>The tokens of the test engine tile the text: they start at character zero, each begins where
  the one before ends, and the last one ends with the text. Each stays inside one character class and
  the piece bound, and its id is the hash of its bytes. A class change encodes left and right on its
  own.\<close>

theorem mock_encoding_tiles:
  assumes "length cs \<le> u32_max"
  shows "tiles 0 (length cs) (enc_spans (encode_chars m alpha cs))
     \<and> (\<forall>x \<in> set (enc_spans (encode_chars m alpha cs)). uniform m alpha cs x)
     \<and> enc_ids (encode_chars m alpha cs)
         = map (\<lambda>(a, b). fnv1a (concat (take (b - a) (drop a cs)))) (enc_spans (encode_chars m alpha cs))
     \<and> (\<forall>b. is_run_boundary alpha cs b \<longrightarrow>
          enc_ids (encode_chars m alpha cs)
            = enc_ids (encode_chars m alpha (take b cs)) @ enc_ids (encode_chars m alpha (drop b cs)))"
proof -
  have t: "tiles 0 (length cs) (run_bounds m alpha cs 0)" by (rule run_bounds_tiles) simp
  then have "map span32 (run_bounds m alpha cs 0) = run_bounds m alpha cs 0" by (rule span32_exact [OF _ assms])
  then show ?thesis using t encode_split run_bounds_uniform by (auto simp: encode_chars_eq piece_id_def)
qed

theorem mock_encoding_tiles_witness:
  "tiles 0 4 (enc_spans (demo_ref demo_text)) \<and> enc_spans (demo_ref demo_text) = [(0, 2), (2, 3), (3, 4)]"
  using mock_encoding_tiles [of "chars demo_text" mock_default letters] by (simp add: mock_eval)

section \<open>The contract\<close>

lemma kept_prefix_take: "take (kept_prefix xs ys) xs = take (kept_prefix xs ys) ys \<and> kept_prefix xs ys \<le> length xs"
  by (induction xs ys rule: kept_prefix.induct) auto

lemma mock_append_Ok:
  assumes "tail_wf t" "mock_append m alpha t d = (t', Ok rp)"
  shows "fill_state (tl_text t @ d) (mock_ref m alpha (tl_text t @ d)) = Ok t'
     \<and> rp_kept rp = kept_prefix (zip (ids_of t) (zip (fst (spans_of t)) (snd (spans_of t))))
          (zip (enc_ids (mock_ref m alpha (tl_text t @ d))) (enc_spans (mock_ref m alpha (tl_text t @ d))))"
proof -
  have sp: "tail_spans_pairs t = Ok (zip (fst (spans_of t)) (snd (spans_of t)))"
    using forced_spans_ok [OF assms(1)] by (simp add: tail_spans_pairs_def case_prod_beta)
  show ?thesis
    using assms(2) by (cases "fill_state (tl_text t @ d) (mock_ref m alpha (tl_text t @ d))")
      (auto simp: mock_append_def mock_encode_def sp fill_def Let_def)
qed

text \<open>The test engine keeps the promises of the engine trait: an append leaves in the tail the encoding of the
  whole text, the tokens it reports kept are the first ones before and after; and a cut it reports is
  safe for every continuation: the tokens before it stay and the text after it encodes on its own.\<close>

theorem mock_engine_sound:
  assumes "tail_wf t" "ordered t" "faithful (\<lambda>x. encode_chars m alpha (chars x)) t" "valid_utf8 d"
  shows "(\<forall>t' rp. mock_append m alpha t d = (t', Ok rp) \<longrightarrow>
       tl_text t' = tl_text t @ d \<and> ids_of t' = enc_ids (encode_chars m alpha (chars (tl_text t @ d)))
       \<and> rp_kept rp \<le> n_tokens t \<and> take (rp_kept rp) (ids_of t') = take (rp_kept rp) (ids_of t))
     \<and> (\<forall>floor ceil c. mock_boundary m alpha t floor ceil = Ok (Some c) \<longrightarrow> ceil \<le> tl_chars t \<longrightarrow>
         enc_ids (encode_chars m alpha (chars (tl_text t @ d))) = take (cut_tokens c) (ids_of t)
           @ enc_ids (encode_chars m alpha (chars (drop (char_off (tl_text t) (cut_char c)) (tl_text t) @ d))))"
proof (intro conjI allI impI)
  fix t' rp assume run: "mock_append m alpha t d = (t', Ok rp)"
  have full: "valid_utf8 (tl_text t @ d)" using assms(1,4) by (simp add: tail_wf_def)
  note ap = mock_append_Ok [OF assms(1) run]
  let ?e = "mock_ref m alpha (tl_text t @ d)"
  let ?old = "zip (ids_of t) (zip (fst (spans_of t)) (snd (spans_of t)))" and ?new = "zip (enc_ids ?e) (enc_spans ?e)"
  have f: "tl_text t' = tl_text t @ d" "ids_of t' = enc_ids ?e" "length (enc_ids ?e) = length (enc_spans ?e)"
    using fill_state_Ok [of "tl_text t @ d" ?e t'] ap full by (simp_all add: encode_chars_eq)
  then show "tl_text t' = tl_text t @ d" "ids_of t' = enc_ids ?e" by simp_all
  have len: "length (fst (spans_of t)) = n_tokens t" "length (snd (spans_of t)) = n_tokens t" "length (ids_of t) = n_tokens t"
    using spans_of_wf [OF assms(1)] by simp_all
  then have "map fst ?old = ids_of t" by simp
  moreover have "map fst ?new = enc_ids ?e" using f(3) by simp
  moreover have k: "take (rp_kept rp) ?old = take (rp_kept rp) ?new" "rp_kept rp \<le> length ?old"
    using kept_prefix_take [of ?old ?new] ap by simp_all
  then have "map fst (take (rp_kept rp) ?old) = map fst (take (rp_kept rp) ?new)" by simp
  ultimately show "take (rp_kept rp) (ids_of t') = take (rp_kept rp) (ids_of t)"
    using f(2) by (simp add: take_map [symmetric])
  show "rp_kept rp \<le> n_tokens t" using k(2) len by simp
next
  fix floor ceil c
  assume "mock_boundary m alpha t floor ceil = Ok (Some c)" "ceil \<le> tl_chars t"
  then show "enc_ids (mock_ref m alpha (tl_text t @ d)) = take (cut_tokens c) (ids_of t)
      @ enc_ids (mock_ref m alpha (drop (char_off (tl_text t) (cut_char c)) (tl_text t) @ d))"
    using mock.boundary_safe [of t m alpha ceil floor c d] assms by (simp add: tail_ok_def)
qed

theorem mock_engine_sound_witness:
  "\<exists>t' rp. mock_append mock_default letters demo_tail demo_delta = (t', Ok rp)
     \<and> tl_text t' = [97, 98, 32, 99, 100] \<and> take (rp_kept rp) (ids_of t') = take (rp_kept rp) (ids_of demo_tail)"
proof -
  have tail: "s_tail demo_session = demo_tail" by (simp add: demo_session_def)
  have t: "tail_wf demo_tail" "ordered demo_tail" "faithful demo_ref demo_tail"
    using demo_wf demo_represents by (simp_all add: sess_wf_def represents_def tail)
  have "snd (mock_append mock_default letters demo_tail demo_delta) = Ok \<lparr>rp_path = ''mock_full_reencode'', rp_kept = 2\<rparr>"
    by (simp add: demo_tail_def run_eval)
  then obtain t' where r: "mock_append mock_default letters demo_tail demo_delta
     = (t', Ok \<lparr>rp_path = ''mock_full_reencode'', rp_kept = 2\<rparr>)" by (metis prod.collapse)
  have "tl_text demo_tail @ demo_delta = [97, 98, 32, 99, 100]" by (simp add: demo_tail_def)
  then show ?thesis using r mock_engine_sound [OF t demo_valid(2)] by metis
qed

end
