(* ===== verification/Calm.thy ===== *)
theory Calm
  imports Intact EngineFacts
begin

text \<open>
  No operation panics: with an engine that keeps tails well formed and does not panic itself, every call
  on a store in good order returns a value or an error. Panics of the code are the slices, the index
  expressions and the divisions of the model that are out of range.
\<close>

section \<open>Engines\<close>

definition calm :: "('e, 'a) outcome \<Rightarrow> bool" where
  "calm r \<longleftrightarrow> r \<noteq> Panic"

lemma calm_simps [simp]: "calm (Ok x)" "calm (Err e)" "\<not> calm Panic"
  by (simp_all add: calm_def)

lemma calm_ok_or [simp]: "calm (ok_or x e)"
  by (simp add: calm_def)

lemma attempt_calm: "calm r \<Longrightarrow> (\<And>x. r = Ok x \<Longrightarrow> calm (snd (f x))) \<Longrightarrow> calm (snd (attempt s r f))"
  by (cases r) auto

lemma andthen_calm:
  "calm (snd m) \<Longrightarrow> (\<And>s x. m = (s, Ok x) \<Longrightarrow> calm (snd (f s x))) \<Longrightarrow> calm (snd (andthen m f))"
  by (cases m rule: prod.exhaust; rename_tac s r; case_tac r) auto

lemma rbind_calm: "calm r \<Longrightarrow> (\<And>x. r = Ok x \<Longrightarrow> calm (f x)) \<Longrightarrow> calm (rbind r f)"
  by (cases r) auto

lemmas calm_intros = attempt_calm andthen_calm rbind_calm

locale calm_engine = tail_engine +
  assumes encode_calm: "valid_utf8 x \<Longrightarrow> calm (eng_encode engine x)"
    and append_calm: "tail_ok t \<Longrightarrow> valid_utf8 d \<Longrightarrow> calm (snd (eng_append engine t d))"
    and boundary_calm: "tail_ok t \<Longrightarrow> calm (eng_boundary engine t floor ceil)"

lemma mock_scan_calm:
  "length starts = n \<Longrightarrow> length ends = n \<Longrightarrow> j < n \<Longrightarrow> calm (mock_scan alpha cs starts ends floor ceil j)"
proof (induction j)
  case (Suc j)
  then show ?case by (auto simp: vec_get_def intro!: calm_intros)
qed simp

interpretation mock: calm_engine "mock_encoder m alpha"
proof
  fix t d assume "tail_ok t"
  then have t: "tail_wf t" by (simp add: tail_ok_def)
  show "calm (snd (eng_append (mock_encoder m alpha) t d))" for d
    using mock_append_cases [OF t, of d m alpha] by auto
  show "calm (eng_boundary (mock_encoder m alpha) t floor ceil)" for floor ceil
    using mock_scan_calm [of "fst (spans_of t)" "n_tokens t" "snd (spans_of t)" "n_tokens t - 1" alpha] spans_of_wf [OF t]
    by (auto simp: mock_boundary_def Let_def forced_spans_ok [OF t] split: prod.splits)
qed simp_all

section \<open>Parts\<close>

lemma content_marks_calm:
  assumes "cd_byte_length d + length delta = stop + consumed" "consumed \<le> length delta" "0 < cd_next_mark d"
  shows "calm (snd (content_marks_loop blake delta stop d consumed))"
  using assms
proof (induction blake delta stop d consumed rule: content_marks_loop.induct)
  case (1 blake delta stop d consumed)
  show ?case
    using "1.IH" "1.prems" by (subst content_marks_loop.simps) (auto simp: Let_def split: option.splits)
qed

lemma content_append_calm: "0 < cd_next_mark d \<Longrightarrow> calm (snd (content_append blake d delta))"
  using content_marks_calm [of d delta "cd_byte_length d + length delta" 0 blake]
  by (auto simp: content_append_def checked_add64_def split: outcome.splits prod.splits)

lemma content_from_bytes_calm: "calm (content_from_bytes blake x)"
  using content_append_calm [of content_empty blake x]
  by (auto simp: content_from_bytes_def content_empty_def split: outcome.splits prod.splits)

lemma recovery_calm [simp]: "calm (recovery_append d x)" "calm (recovery_from_text x)"
  by (auto simp: recovery_append_def recovery_from_text_def intro!: calm_intros)

lemma key_session_calm [simp]: "calm (key_of s k)" "calm (session_of s h)"
  by (auto simp: key_of_def session_of_def Let_def split: option.splits)

lemma node_create_calm [simp]: "calm (node_to_bytes sha n)" "calm (entry_create sha n)"
  by (auto simp: node_to_bytes_def node_body_def entry_create_def trailing_checksum_def len_u32_def intro!: calm_intros)

lemma from_engine_calm [simp]: "calm (from_engine r) = calm r"
  by (cases r) simp_all

lemma append_digests_calm: "digest_fine (s_content x) \<Longrightarrow> calm (snd (append_digests blake d x))"
  unfolding append_digests_def
proof (rule andthen_calm, goal_cases)
  case 1
  then show ?case by (cases "s_recovery x") (auto intro!: calm_intros)
next
  case (2 y u)
  then have y: "s_content y = s_content x" by (auto simp: attempt_eq_Ok split: option.splits)
  then show ?case using 2(1) content_append_calm
    by (cases "s_content x") (simp_all add: digest_fine_def case_prod_beta Let_def)
qed

lemma commit_append_calm: "calm (snd (commit_append sha key path n x))"
  unfolding commit_append_def Let_def
  by (auto intro!: calm_intros simp: replacement_of_def vec_slice_def Let_def checked_add64_def split: if_splits)

section \<open>Sealing\<close>

lemma seal_block_step_calm:
  assumes "0 < c_block_chars cfg" "tail_wf (s_tail (wk_sess w))"
  shows "calm (snd (seal_block_step sha cfg key w))"
proof -
  have "calm (snd (adopt_node kh n w))" "calm (snd (write_node sha cfg key kh i e eb w))" for kh n i e eb
    using text_range_no_panic [OF assms(2), folded calm_def]
    by (auto simp: adopt_node_def write_node_def Let_def intro!: calm_intros)
  then show ?thesis
    using assms text_range_no_panic [OF assms(2), folded calm_def]
    by (auto simp: seal_block_step_def Let_def intro!: calm_intros split: option.splits)
qed

lemma seal_blocks_calm:
  assumes "0 < c_block_chars cfg" "tail_wf (s_tail (wk_sess w))"
  shows "calm (snd (seal_blocks sha cfg key w))"
  using assms
proof (induction sha cfg key w rule: seal_blocks.induct)
  case (1 sha cfg key w)
  obtain w' r where step: "seal_block_step sha cfg key w = (w', r)" by (cases "seal_block_step sha cfg key w")
  have "s_tail (wk_sess w') = s_tail (wk_sess w)" using seal_block_step_only [of w sha cfg key] step chain_only_sel by simp
  then show ?case
    using "1.IH" [OF step [symmetric]] "1.prems" seal_block_step_calm [OF "1.prems", of sha key] step
    by (subst seal_blocks.simps) (auto split: outcome.splits bool.splits)
qed

lemma readers_calm [simp]:
  "calm (record_from_bytes sha bytes)" "calm (sidecar_from_bytes sha bytes)" "calm (binding_from_bytes sha bytes)"
  "calm (node_from_bytes sha bytes)"
  using record_from_bytes_no_panic sidecar_from_bytes_no_panic binding_from_bytes_no_panic node_from_bytes_no_panic
  by (simp_all add: calm_def)

lemma writers_calm [simp]:
  "calm (fill_state x enc)" "calm (verify_append_shape t n d ids k)" "calm (check_writer_obligations r)"
  "calm (record_to_bytes sha r)" "calm (sidecar_to_bytes sha sc)" "calm (represented_bytes y)" "calm (record_full_bytes p)"
  by (auto simp: calm_def verify_append_shape_def check_writer_obligations_def record_to_bytes_def sidecar_to_bytes_def
      sidecar_body_def represented_bytes_def record_full_bytes_def rbind_eq_Panic Let_def)

context calm_engine
begin

lemma advance_seal_calm:
  assumes "sess_wf (wk_sess w)"
  shows "calm (snd (advance_seal cfg key engine n w))"
proof -
  have "calm (snd (seal_tail c w))" for c using seal_tail_cases [OF assms, of c] by auto
  then show ?thesis
    using boundary_calm [OF sess_tail_ok [OF assms]]
    by (auto simp: advance_seal_def Let_def intro!: calm_intros split: option.splits)
qed

lemma post_text_ops_calm:
  assumes "0 < c_block_chars cfg" "sess_wf (wk_sess w)"
  shows "calm (snd (post_text_ops sha cfg key engine w))"
proof -
  let ?w0 = "upd_sess (\<lambda>s. s\<lparr>s_total_chars := add64 (s_safe_char s) (tl_chars (s_tail (wk_sess w)))\<rparr>) w"
  have w0: "sess_wf (wk_sess ?w0)" using assms(2) by (simp add: sess_wf_def snapshot_ok_def materialize_eq)
  then have t0: "tail_wf (s_tail (wk_sess ?w0))" by (simp add: sess_wf_def)
  have "sess_wf (wk_sess w1)" if "seal_blocks sha cfg key ?w0 = (w1, r)" for w1 r
    using chain_only_wf(1) [OF seal_blocks_only w0, of sha cfg key] that by simp
  then show ?thesis
    using seal_blocks_calm [OF assms(1) t0, of sha key] w0
    by (auto simp: post_text_ops_def Let_def intro!: calm_intros advance_seal_calm split: if_splits)
qed

lemma grow_tail_calm:
  assumes "tail_ok t" "valid_utf8 d"
  shows "calm (snd (grow_tail cfg engine t d))"
proof -
  have "valid_utf8 (tl_text t @ d)" using assms by (simp add: tail_ok_def tail_wf_def)
  then have e: "calm (eng_encode engine (tl_text t @ d))" by (rule encode_calm)
  have f: "calm (snd (fill t x enc))" for x enc by (cases "fill_state x enc") (simp_all add: fill_def calm_def)
  show ?thesis
    using e f append_calm [OF assms] by (auto simp: grow_tail_def Let_def case_prod_beta intro!: calm_intros)
qed

text \<open>The body of an append, step by step.\<close>

lemma append_body_calm:
  assumes x: "sess_fine x" and v: "valid_utf8 d" and cfg: "0 < c_block_chars (ss_cfg s)"
  shows "calm (snd (append_body sha blake s h key x d engine))"
proof -
  have xw: "sess_wf x" and ct: "digest_fine (s_content x)" using x by (simp_all add: sess_fine_def)
  obtain t grown where g: "grow_tail (ss_cfg s) engine (s_tail x) d = (t, grown)"
    by (cases "grow_tail (ss_cfg s) engine (s_tail x) d")
  have t: "tail_ok t" "calm grown"
    using grow_tail_ok [OF sess_tail_ok [OF xw] v, of "ss_cfg s"] grow_tail_calm [OF sess_tail_ok [OF xw] v, of "ss_cfg s"] g
    by simp_all
  have noop: "d = [] \<Longrightarrow> t = s_tail x" using g by (simp add: grow_tail_noop)
  let ?x2 = "(opened x d)\<lparr>s_tail := t\<rparr>" and ?s2 = "put_session s h ((opened x d)\<lparr>s_tail := t\<rparr>)"
  have x2: "sess_wf ?x2"
    using xw t(1) noop by (cases "d = []") (simp_all add: opened_def bump_generation_def sess_wf_def snapshot_ok_def tail_ok_def)
  obtain w r where w: "settle_step sha (ss_cfg s) key engine d (work_of ?s2 ?x2) = (w, r)"
    by (cases "settle_step sha (ss_cfg s) key engine d (work_of ?s2 ?x2)")
  have "wk_sess (work_of ?s2 ?x2) = ?x2" by (simp add: work_of_def)
  then have "calm r" "s_content (wk_sess w) = s_content x"
    using w x2 post_text_ops_calm [OF cfg, of "work_of ?s2 ?x2" sha key]
      post_text_ops_settled [of "work_of ?s2 ?x2" engine key sha "ss_cfg s"]
    by (auto simp: settle_step_def settled_def same_core_def opened_def bump_generation_def split: if_splits)
  moreover obtain x3 dr where d: "append_digests blake d (wk_sess w) = (x3, dr)"
    by (cases "append_digests blake d (wk_sess w)")
  ultimately have "calm dr" using append_digests_calm [of "wk_sess w" blake d] ct by simp
  then show ?thesis
    unfolding append_body_def Let_def opened_def [symmetric] settle_step_def [symmetric] opened_simps(1) g
      prod.case w d with_session_def
    using t(2) \<open>calm r\<close> commit_append_calm
    by (intro attempt_calm) (auto intro!: attempt_calm)
qed

lemma append_patch_calm:
  assumes s: "intact sha s" and v: "valid_utf8 d"
  shows "calm (snd (append_patch sha blake s h d n engine))"
proof (cases "tbl_get (ss_sessions s) h")
  case (Some x)
  then have sess: "session_of s h = Ok x" by simp
  have x: "sess_fine (x\<lparr>s_last_used := m\<rparr>)" for m
    using intact_get [OF s Some] by (simp add: sess_intact_def sess_fine_upd(1))
  have cfg: "0 < c_block_chars (ss_cfg s)" using s populated_ok(3) by (auto simp: intact_def)
  show ?thesis
    unfolding append_patch_def sess attempt.simps Let_def using x v cfg
    by (auto intro!: attempt_calm append_body_calm)
qed (simp add: append_patch_def session_of_def)

text \<open>Puts, whichever way the seed encode runs.\<close>

lemma run_foreground_calm:
  "valid_utf8 x \<Longrightarrow> tail_ok t \<Longrightarrow> snd (run_foreground engine x n t) = Some r \<Longrightarrow> calm r"
proof (induction n arbitrary: r)
  case (Suc n)
  have "tail_ok (fst (run_foreground engine x n t))"
    by (rule run_foreground_state) (use Suc append_ok in auto)
  then have "calm (snd (eng_append engine (fst (run_foreground engine x n t)) x))" by (rule append_calm) (rule Suc)
  then show ?case using Suc by (auto simp: Let_def case_prod_beta split: if_splits)
qed simp

lemma seed_encode_calm:
  assumes "valid_utf8 x"
  shows "calm (snd (snd (seed_encode blake s engine x)))"
    and "fst (snd (seed_encode blake s engine x)) = Some r \<Longrightarrow> calm r"
proof -
  have t: "tail_ok tail_new" by (simp add: tail_ok_def)
  show "calm (snd (snd (seed_encode blake s engine x)))"
    using append_calm [OF t assms] run_foreground_calm [OF assms t]
    by (auto simp: seed_encode_def Let_def case_prod_beta split: option.splits)
  show "fst (snd (seed_encode blake s engine x)) = Some r \<Longrightarrow> calm r"
    using content_from_bytes_calm by (auto simp: seed_encode_def Let_def case_prod_beta split: option.splits if_splits)
qed

lemma seed_session_calm:
  assumes v: "valid_utf8 x" and cfg: "0 < c_block_chars (ss_cfg s)"
  shows "calm (snd (seed_session sha blake s key engine x (fresh k wt n)))"
    and "snd (seed_session sha blake s key engine x (fresh k wt n)) = Ok (sess, Some r) \<Longrightarrow> calm r"
proof -
  obtain t d report where e: "seed_encode blake s engine x = (t, d, report)" by (cases "seed_encode blake s engine x")
  have "tail_ok t" using seed_encode_ok [OF v, of blake s] e by simp
  then have wf: "sess_wf ((fresh k wt n)\<lparr>s_tail := t\<rparr>)"
    using fresh_wf [of k wt n] by (simp add: sess_wf_def tail_ok_def snapshot_ok_def)
  have "calm (snd (post_text_ops sha (ss_cfg s) key engine (work_of s1 ((fresh k wt n)\<lparr>s_tail := t\<rparr>))))" for s1
    by (rule post_text_ops_calm [OF cfg]) (use wf in \<open>simp add: work_of_def\<close>)
  moreover have "calm report" using seed_encode_calm(1) [OF v, of blake s] e by simp
  ultimately show "calm (snd (seed_session sha blake s key engine x (fresh k wt n)))"
    by (cases "x = []") (auto simp: seed_session_def e Let_def case_prod_beta intro!: attempt_calm)
  show "calm r" if "snd (seed_session sha blake s key engine x (fresh k wt n)) = Ok (sess, Some r)"
  proof -
    have "seed_session sha blake s key engine x (fresh k wt n)
        = (fst (seed_session sha blake s key engine x (fresh k wt n)), Ok (sess, Some r))"
      using that by (simp add: prod_eq_iff)
    then have "d = Some r" by (auto simp: seed_session_def e Let_def case_prod_beta attempt_eq_Ok split: if_splits)
    then show ?thesis using seed_encode_calm(2) [OF v, of blake s r] e by simp
  qed
qed

lemma put_finish_calm:
  assumes "\<And>r. d = Some r \<Longrightarrow> calm r"
  shows "calm (snd (put_finish sha blake s key x sess d))"
proof -
  have "calm (seed_content_digest blake s x)"
    using content_from_bytes_calm by (auto simp: seed_content_digest_def split: option.splits)
  then show ?thesis
    using assms by (auto simp: put_finish_def Let_def case_prod_beta intro!: calm_intros split: option.splits)
qed

lemma put_calm:
  assumes s: "intact sha s" and v: "valid_utf8 x"
  shows "calm (snd (put sha blake s k x engine))"
proof (cases "key_of s k")
  case (Ok key)
  have cfg: "0 < c_block_chars (ss_cfg (put_start s))"
    using put_start_ok(1) [OF intact_ok(1) [OF s] intact_ok(2) [OF s]] s populated_ok(3) by (auto simp: shrunk_def intact_def)
  show ?thesis
    unfolding put_eq [OF Ok]
  proof (rule andthen_calm)
    fix s2 p
    assume "seed_session sha blake (put_start s) key engine x (fresh k (eng_witness engine) (ss_clock (put_start s))) = (s2, Ok p)"
    then have "snd (seed_session sha blake (put_start s) key engine x (fresh k (eng_witness engine) (ss_clock (put_start s)))) = Ok p"
      by simp
    from seed_session_calm(2) [OF v cfg, of sha blake key k "eng_witness engine" "ss_clock (put_start s)" "fst p"] this
    show "calm (snd (put_finish sha blake s2 key x (fst p) (snd p)))"
      by (intro put_finish_calm) (cases p, simp)
  qed (rule seed_session_calm(1) [OF v cfg])
next
  case Panic
  then show ?thesis using key_session_calm(1) [of s k] by simp
qed (simp add: put_def)

text \<open>Lookups and imports.\<close>

lemma matched_prefix_calm: "calm (matched_prefix x n)"
proof -
  have "calm (str_slice x 0 m)" if "byte_offset_at_char x n = Ok m" for m
  proof -
    have "m = 0 \<or> m = char_off x n \<or> m = length x"
      using that char_indices_nth [of n x] by (auto simp: byte_offset_at_char_def split: if_splits)
    moreover have "is_char_boundary x (length x)" "is_char_boundary x 0" by (simp_all add: is_char_boundary_def)
    ultimately show ?thesis using boundary_char_off [of x n] char_off_le [of x n] by (auto simp: str_slice_def)
  qed
  then show ?thesis by (auto simp: matched_prefix_def byte_offset_at_char_def intro!: rbind_calm)
qed

lemma lookup_calm:
  assumes s: "intact sha s"
  shows "calm (snd (lookup sha blake s k x engine))"
proof (cases "key_of s k")
  case (Ok key)
  let ?bc = "c_block_chars (ss_cfg s)"
  obtain wk rej where walk: "lookup_walk sha ?bc (ss_nodes s) key (eng_witness engine) 0 walk_start (block_slices x ?bc) = (wk, rej)"
    by fastforce
  have strings: "\<forall>y \<in> set (lw_path wk). valid_utf8 (n_text_tail (snd y))"
    by (rule walk_from_cache [OF intact_ok(3) [OF s] walk]) (simp add: walk_start_def)
  then have enc: "calm (eng_encode engine (n_text_tail (snd (last (lw_path wk)))))" if "lw_path wk \<noteq> []"
    using that by (intro encode_calm) simp
  show ?thesis
    unfolding lookup_def Ok attempt.simps Let_def store_simps nodes_sel walk prod.case
    unfolding case_prod_beta
  proof (cases "lw_path wk = []", goal_cases)
    case 2
    have m: "calm (matched_prefix x n)" for n by (rule matched_prefix_calm)
    show ?case
      unfolding if_not_P [OF 2]
      by (intro attempt_calm; (simp add: enc [OF 2]; fail)?)
        (auto intro!: rbind_calm m simp: content_from_bytes_calm)
  qed simp
next
  case Panic
  then show ?thesis using key_session_calm(1) [of s k] by simp
qed (simp add: lookup_def)

lemma gates_calm: "calm (snd (import_record_gates sha s key bytes engine))"
proof -
  have "calm (from_engine (eng_encode engine (r_tail p)))" if "record_from_bytes sha bytes = Ok p" for p
    using encode_calm record_from_bytes_sound(1) [OF that] by (simp add: record_ok_def)
  then show ?thesis unfolding import_record_gates_def Let_def by (auto intro!: calm_intros)
qed

lemma imports_calm:
  "calm (snd (import_session sha blake s k bytes engine))"
  "calm (snd (import_session_with_recovery sha blake s k bytes hist m engine))"
  "calm (snd (import_session_with_binding sha blake s k bytes hist b engine))"
  "calm (snd (import_session_with_sidecar sha blake s k bytes side engine))"
  using gates_calm content_from_bytes_calm
  by (auto simp: import_session_def import_session_with_recovery_def import_session_with_binding_def
      import_session_with_sidecar_def bare_digests_def insert_import_def Let_def case_prod_beta intro!: calm_intros)

end

section \<open>Operations without an engine\<close>

lemma collect_calm: "(\<And>r. r \<in> set rs \<Longrightarrow> calm r) \<Longrightarrow> calm (collect_results rs)"
  by (induction rs) (auto intro!: rbind_calm)

lemma export_nodes_calm: "calm (export_node_items sha s)"
proof -
  have "calm (case tbl_get (ss_nodes s) k of Some e \<Rightarrow> rbind (node_to_bytes sha (ne_rec e)) (\<lambda>b. Ok (k, b)) | None \<Rightarrow> Panic)"
    if "k \<in> set (tbl_keys (ss_nodes s))" for k
    using that tbl.keys_get [of "ss_nodes s"] by (auto intro!: rbind_calm)
  then show ?thesis unfolding export_node_items_def by (intro collect_calm) auto
qed

lemma verified_tracking_calm: "calm (verified_tracking_state sha blake s h x b)"
  unfolding verified_tracking_state_def Let_def by (auto intro!: rbind_calm simp: content_from_bytes_calm)

lemma plain_calm:
  "calm (snd (fork sha s h))" "calm (snd (all_ids s h))" "calm (snd (shared_all_ids s h))"
  "calm (snd (export_session sha s h))" "calm (export_session_sidecar sha s h)" "calm (snd (register_fingerprint s f g))"
  "calm (verify_recovery_binding sha blake s h x b)" "calm (snd (restore_tracking_with_binding sha blake s h x b))"
  "calm (snd (collect_all_ids s h))" "calm (session_info_of s h)" "calm (revision s h)"
  using verified_tracking_calm
  by (auto simp: fork_def all_ids_def shared_all_ids_def export_session_def export_session_sidecar_def register_fingerprint_def
      verify_recovery_binding_def restore_tracking_with_binding_def collect_all_ids_def session_info_of_def revision_def
      Let_def case_prod_beta intro!: calm_intros split: option.splits)

end
