(* ===== verification/SafetyFacts.thy ===== *)
theory SafetyFacts
  imports Calm
begin

text \<open>
  What holds of a store however it is used: by any sequence of calls of its whole interface, with any
  engines that keep tails well formed, on any bytes.
\<close>

section \<open>The stores in use\<close>

lemma demo_used: "used demo_sha demo_blake (demo_store default_config)"
proof -
  have "used demo_sha demo_blake (demo_empty default_config)"
    by (rule used.new [OF demo_new [OF default_config_ok]])
  then have "used demo_sha demo_blake (demo_keyed default_config)"
    by (rule used.step [OF _ store_step.intros(1) [OF demo_register]])
  then show ?thesis
    by (rule used.step [OF _ store_step.intros(2) [OF demo_tail_engine demo_valid(1) demo_put_default]])
qed

text \<open>C4 A store is always in good order: however it was used, it is within its capacity, each session sits
  under one handle that was handed out, is well formed and belongs to a registered key; and every node of
  its cache is stored under its own key and passes its checksum.\<close>

theorem store_always_intact:
  assumes "used sha blake s"
  shows "length (ss_sessions s) \<le> c_max_sessions (ss_cfg s) \<and> distinct (tbl_keys (ss_sessions s))
     \<and> (\<forall>h x. tbl_get (ss_sessions s) h = Some x \<longrightarrow>
          h < ss_next_handle s \<and> sess_wf x \<and> sess_token_count x = length (materialize_all_ids x)
          \<and> s_key_id x < length (ss_keys s))
     \<and> (\<forall>k e. tbl_get (ss_nodes s) k = Some e \<longrightarrow> n_key (ne_rec e) = k \<and> entry_verify sha e)"
proof -
  have s: "intact sha s" by (rule used_intact [OF assms])
  then have "\<forall>k e. tbl_get (ss_nodes s) k = Some e \<longrightarrow> n_key (ne_rec e) = k \<and> entry_verify sha e"
    by (simp add: intact_def cache_ok_def node_fine_def)
  then show ?thesis
    using s intact_get [OF s] token_count_ok
    by (auto simp: intact_def populated_def sess_intact_def sess_fine_def tbl_ok_def tbl_keys_def)
qed

theorem store_always_intact_witness:
  "tbl_get (ss_sessions (demo_store default_config)) 1 = Some demo_session \<and> sess_token_count demo_session = 3"
proof -
  have "materialize_all_ids demo_session = [fnv1a [97, 98], fnv1a [32], fnv1a [99]]"
    by (simp add: materialize_eq demo_session_def demo_tail_def)
  then show ?thesis using store_always_intact [OF demo_used] demo_get [of default_config] by auto
qed



end
