(* ===== verification/Bridge.thy ===== *)
theory Bridge
  imports TailOps
begin

text \<open>
  The span bridges of the reference engine (\<^verbatim>\<open>reference.rs\<close>): character spans for a row of token ids,
  from the raw byte length of every id. The pair bridge builds a map from bytes to characters; the
  one-pass bridge streams over the text and defers conversion errors until the row has closed; the
  closure check builds no span. Errors are messages.
\<close>

section \<open>Byte lengths\<close>

definition token_byte_length :: "nat list \<Rightarrow> u32 \<Rightarrow> (string, nat) outcome" where
  "token_byte_length table tid =
     (if unat tid < length table
      then (if table ! unat tid = 0
            then Err (''tokenizer returned zero-byte vocabulary id '' @ show_nat (unat tid))
            else Ok (table ! unat tid))
      else Err (''tokenizer returned unknown id '' @ show_nat (unat tid)))"

definition no_ids_for_text :: string where
  "no_ids_for_text = ''tokenizer returned no ids for non-empty text''"

definition byte_length_overflow :: string where
  "byte_length_overflow = ''token byte length overflow''"

definition closure_mismatch :: "nat \<Rightarrow> nat \<Rightarrow> string" where
  "closure_mismatch cursor text_len =
     ''token bytes do not close: tokens='' @ show_nat cursor @ '', text='' @ show_nat text_len"

definition advance :: "nat list \<Rightarrow> nat \<Rightarrow> u32 \<Rightarrow> (string, nat) outcome" where
  "advance table cursor tid =
     rbind (token_byte_length table tid) (\<lambda>len. ok_or (checked_add64 cursor len) byte_length_overflow)"

section \<open>The closure check\<close>

fun close_cursor :: "nat list \<Rightarrow> nat \<Rightarrow> u32 list \<Rightarrow> (string, nat) outcome" where
  "close_cursor table cursor [] = Ok cursor"
| "close_cursor table cursor (tid # ids) =
     rbind (advance table cursor tid) (\<lambda>cursor'. close_cursor table cursor' ids)"

definition ids_close_over_text :: "u32 list \<Rightarrow> nat list \<Rightarrow> str \<Rightarrow> (string, unit) outcome" where
  "ids_close_over_text ids table text =
     (if ids = [] then (if text = [] then Ok () else Err no_ids_for_text)
      else rbind (close_cursor table 0 ids) (\<lambda>cursor.
        if cursor \<noteq> length text then Err (closure_mismatch cursor (length text)) else Ok ()))"

section \<open>The pair bridge\<close>

definition str_is_ascii :: "str \<Rightarrow> bool" where
  "str_is_ascii text \<longleftrightarrow> list_all (\<lambda>b. b < 0x80) text"

definition to_u32 :: "nat \<Rightarrow> (string, nat) outcome" where
  "to_u32 n = (if n \<le> u32_max then Ok n else Err ''span exceeds u32'')"

text \<open>The byte interval of every token, and the cursor after the last one.\<close>

fun byte_bounds :: "nat list \<Rightarrow> nat \<Rightarrow> u32 list \<Rightarrow> (string, (nat \<times> nat) list \<times> nat) outcome" where
  "byte_bounds table cursor [] = Ok ([], cursor)"
| "byte_bounds table cursor (tid # ids) =
     rbind (advance table cursor tid) (\<lambda>cursor'.
     rbind (byte_bounds table cursor' ids) (\<lambda>(bounds, final). Ok ((cursor, cursor') # bounds, final)))"

text \<open>\<^verbatim>\<open>collect::<Result<Vec<_>, _>>()\<close>: the first error wins.\<close>

fun try_map :: "('a \<Rightarrow> ('e, 'b) outcome) \<Rightarrow> 'a list \<Rightarrow> ('e, 'b list) outcome" where
  "try_map f [] = Ok []"
| "try_map f (x # xs) = rbind (f x) (\<lambda>y. rbind (try_map f xs) (\<lambda>ys. Ok (y # ys)))"

definition nth_opt :: "'a list \<Rightarrow> nat \<Rightarrow> 'a option" where
  "nth_opt xs i = (if i < length xs then Some (xs ! i) else None)"

definition u32_pair :: "nat \<Rightarrow> nat \<Rightarrow> (string, nat \<times> nat) outcome" where
  "u32_pair s e = rbind (to_u32 s) (\<lambda>s'. rbind (to_u32 e) (\<lambda>e'. Ok (s', e')))"

definition outside_start :: string where
  "outside_start = ''token start is outside the UTF-8 input''"

definition outside_end :: string where
  "outside_end = ''token end is outside the UTF-8 input''"

definition end_char :: "nat option \<Rightarrow> (string, nat) outcome" where
  "end_char found = ok_or (case found of None \<Rightarrow> None | Some v \<Rightarrow> checked_add64 v 1) outside_end"

definition unicode_pair :: "nat list \<Rightarrow> nat \<times> nat \<Rightarrow> (string, nat \<times> nat) outcome" where
  "unicode_pair byte_chars bound =
     rbind (ok_or (nth_opt byte_chars (fst bound)) outside_start) (\<lambda>s.
     rbind (end_char (nth_opt byte_chars (snd bound - 1))) (\<lambda>e. u32_pair s e))"

definition spans_from_ids :: "u32 list \<Rightarrow> nat list \<Rightarrow> str \<Rightarrow> (string, (nat \<times> nat) list) outcome" where
  "spans_from_ids ids table text =
     (if ids = [] then (if text = [] then Ok [] else Err no_ids_for_text)
      else rbind (byte_bounds table 0 ids) (\<lambda>(bounds, cursor).
        if cursor \<noteq> length text then Err (closure_mismatch cursor (length text))
        else if str_is_ascii text then try_map (\<lambda>(s, e). u32_pair s e) bounds
        else try_map (unicode_pair (char_of_byte text)) bounds))"

section \<open>The one-pass bridge\<close>

text \<open>
  The rows built so far, the cursor, and the deferred error; the row stays as it is once an error is
  deferred.
\<close>

record soa_state =
  so_starts :: "nat list"
  so_ends :: "nat list"
  so_byte :: nat
  so_deferred :: "string option"

definition soa_new :: soa_state where
  "soa_new = \<lparr>so_starts = [], so_ends = [], so_byte = 0, so_deferred = None\<rparr>"

definition soa_push :: "soa_state \<Rightarrow> (string, nat \<times> nat) outcome \<Rightarrow> soa_state" where
  "soa_push st r =
     (case r of
        Ok (s, e) \<Rightarrow> st\<lparr>so_starts := so_starts st @ [s], so_ends := so_ends st @ [e]\<rparr>
      | Err m \<Rightarrow> st\<lparr>so_deferred := Some m\<rparr>
      | Panic \<Rightarrow> st)"

definition soa_finish :: "nat \<Rightarrow> soa_state \<Rightarrow> (string, nat list \<times> nat list) outcome" where
  "soa_finish text_len st =
     (if so_byte st \<noteq> text_len then Err (closure_mismatch (so_byte st) text_len)
      else case so_deferred st of Some m \<Rightarrow> Err m | None \<Rightarrow> Ok (so_starts st, so_ends st))"

fun ascii_soa :: "nat list \<Rightarrow> u32 list \<Rightarrow> soa_state \<Rightarrow> (string, soa_state) outcome" where
  "ascii_soa table [] st = Ok st"
| "ascii_soa table (tid # ids) st =
     rbind (advance table (so_byte st) tid) (\<lambda>cursor.
       let st' = (if so_deferred st = None then soa_push st (u32_pair (so_byte st) cursor) else st)
       in ascii_soa table ids (st'\<lparr>so_byte := cursor\<rparr>))"

definition ascii_spans_soa :: "u32 list \<Rightarrow> nat list \<Rightarrow> nat \<Rightarrow> (string, nat list \<times> nat list) outcome" where
  "ascii_spans_soa ids table text_len = rbind (ascii_soa table ids soa_new) (soa_finish text_len)"

text \<open>The cursor is that of the tail, over the whole text.\<close>

definition bridge_cursor_new :: "str \<Rightarrow> char_cursor" where
  "bridge_cursor_new text =
     (case char_indices text of
        (_, len) # rest \<Rightarrow>
          \<lparr>cc_rest = rest, cc_base = 0, cc_index = 0, cc_start = 0, cc_end = len, cc_exhausted = False\<rparr>
      | [] \<Rightarrow> \<lparr>cc_rest = [], cc_base = 0, cc_index = 0, cc_start = 0, cc_end = 0, cc_exhausted = True\<rparr>)"

definition push_unicode_span :: "char_cursor \<Rightarrow> nat \<Rightarrow> nat \<Rightarrow> char_cursor \<times> (string, nat \<times> nat) outcome" where
  "push_unicode_span cursor start_byte end_byte =
     (let (cursor1, s) = char_containing cursor start_byte in
      attempt cursor1 (ok_or s outside_start) (\<lambda>start_char.
      let (cursor2, e) = char_containing cursor1 (end_byte - 1) in
      attempt cursor2 (end_char e) (\<lambda>end_char.
        (cursor2, u32_pair start_char end_char))))"

fun unicode_soa :: "nat list \<Rightarrow> u32 list \<Rightarrow> char_cursor \<Rightarrow> soa_state \<Rightarrow> (string, soa_state) outcome" where
  "unicode_soa table [] cursor st = Ok st"
| "unicode_soa table (tid # ids) cursor st =
     rbind (advance table (so_byte st) tid) (\<lambda>byte.
       let (cursor', st') =
             (if so_deferred st = None
              then (let (c, r) = push_unicode_span cursor (so_byte st) byte in (c, soa_push st r))
              else (cursor, st))
       in unicode_soa table ids cursor' (st'\<lparr>so_byte := byte\<rparr>))"

definition unicode_spans_soa :: "u32 list \<Rightarrow> nat list \<Rightarrow> str \<Rightarrow> (string, nat list \<times> nat list) outcome" where
  "unicode_spans_soa ids table text =
     rbind (unicode_soa table ids (bridge_cursor_new text) soa_new) (soa_finish (length text))"

definition spans_soa_from_ids :: "u32 list \<Rightarrow> nat list \<Rightarrow> str \<Rightarrow> (string, nat list \<times> nat list) outcome" where
  "spans_soa_from_ids ids table text =
     (if ids = [] then (if text = [] then Ok ([], []) else Err no_ids_for_text)
      else if str_is_ascii text then ascii_spans_soa ids table (length text)
      else unicode_spans_soa ids table text)"

section \<open>What closes\<close>

lemma token_byte_length_Ok [simp]:
  "token_byte_length table t = Ok n \<longleftrightarrow> unat t < length table \<and> 0 < table ! unat t \<and> n = table ! unat t"
  by (auto simp: token_byte_length_def)

lemma advance_Ok:
  "advance table c t = Ok n \<longleftrightarrow>
     unat t < length table \<and> 0 < table ! unat t \<and> n = c + table ! unat t \<and> n \<le> u64_max"
  by (auto simp: advance_def rbind_eq_Ok)

lemma advance_no_panic [simp]: "advance table c t \<noteq> Panic"
  by (auto simp: advance_def token_byte_length_def rbind_eq_Panic)

lemma close_cursor_no_panic [simp]: "close_cursor table c ids \<noteq> Panic"
  by (induction ids arbitrary: c) (auto simp: rbind_eq_Panic)

lemma close_cursor_Ok:
  "close_cursor table c ids = Ok n \<longleftrightarrow>
     tokens_known table ids \<and> n = c + tokens_len table ids \<and> (ids = [] \<or> n \<le> u64_max)"
proof (induction ids arbitrary: c)
  case (Cons t ids)
  show ?case by (cases "ids = []") (auto simp: rbind_eq_Ok advance_Ok Cons)
qed auto

lemma byte_bounds_close:
  "rbind (byte_bounds table c ids) (\<lambda>(bounds, n). f n) = rbind (close_cursor table c ids) f"
proof (induction ids arbitrary: c)
  case (Cons t ids)
  show ?case
  proof (cases "advance table c t")
    case (Ok d)
    then show ?thesis using Cons [of d] by (cases "byte_bounds table d ids") (simp_all add: case_prod_beta)
  qed simp_all
qed simp

lemma byte_bounds_of_close:
  "close_cursor table c ids = Err m \<Longrightarrow> byte_bounds table c ids = Err m"
  "close_cursor table c ids = Ok n \<Longrightarrow> \<exists>bs. byte_bounds table c ids = Ok (bs, n)"
  using byte_bounds_close [of table c ids Ok] by (cases "byte_bounds table c ids"; auto)+

end
