(* ===== verification/Reference.thy ===== *)
theory Reference
  imports Bridge Encoder Boundary Complex_Main
begin

text \<open>
  The reference engine (\<^verbatim>\<open>reference.rs\<close>): the pinned tokenizer library behind the interface the
  routes use. The library's tokenizer is a parameter, the record of the calls the code makes.
\<close>

section \<open>Parsed documents\<close>

text \<open>
  The part of \<^verbatim>\<open>serde_json::Value\<close> the planner and the reference engine read: parsed documents. A
  string has one character for each byte; a number is the value of its \<^verbatim>\<open>f64\<close>. Parsing and printing are the library's.
\<close>

datatype json =
  JNull
| JBool bool
| JNumber rat
| JString string
| JArray "json list"
| JObject "(string \<times> json) list"

definition string_bytes :: "string \<Rightarrow> str" where
  "string_bytes s = map (\<lambda>c. of_nat (of_char c)) s"

fun as_str :: "json \<Rightarrow> string option" where
  "as_str (JString s) = Some s"
| "as_str _ = None"

fun as_array :: "json \<Rightarrow> json list option" where
  "as_array (JArray xs) = Some xs"
| "as_array _ = None"

fun as_object :: "json \<Rightarrow> (string \<times> json) list option" where
  "as_object (JObject kvs) = Some kvs"
| "as_object _ = None"

text \<open>\<^verbatim>\<open>value.get(key)\<close>: nothing on a value that is not an object.\<close>

definition json_get :: "json \<Rightarrow> string \<Rightarrow> json option" where
  "json_get v key = (case as_object v of Some kvs \<Rightarrow> map_of kvs key | None \<Rightarrow> None)"

definition opt_bind :: "'a option \<Rightarrow> ('a \<Rightarrow> 'b option) \<Rightarrow> 'b option" where
  "opt_bind x f = (case x of None \<Rightarrow> None | Some y \<Rightarrow> f y)"

lemma opt_bind_simps [simp]: "opt_bind None f = None" "opt_bind (Some y) f = f y"
  by (simp_all add: opt_bind_def)

section \<open>The library's tokenizer\<close>

text \<open>An added token: its content and whether it is matched on the normalized text.\<close>

record tokenizer =
  tk_encode :: "str \<Rightarrow> bool \<Rightarrow> (string, u32 list) outcome"
  tk_encode_batch :: "str list \<Rightarrow> bool \<Rightarrow> (string, u32 list list) outcome"
  tk_encode_offsets :: "str \<Rightarrow> (string, u32 list \<times> (nat \<times> nat) list) outcome"
  tk_normalizer :: "(str \<Rightarrow> (string, str) outcome) option"
  tk_vocab :: "(str \<times> u32) list"
  tk_added_vocab :: "(str \<times> u32) list"
  tk_added_decoder :: "(u32 \<times> str \<times> bool) list"

record reference =
  rf_tokenizer :: tokenizer
  rf_identity :: bool
  rf_sha256 :: hash32

text \<open>Whether the document's normalizer section is the identity: absent, null or an empty sequence.\<close>

definition normalizer_identity :: "json option \<Rightarrow> bool" where
  "normalizer_identity document =
     (case opt_bind document (\<lambda>d. json_get d ''normalizer'') of
        None \<Rightarrow> True
      | Some normalizer \<Rightarrow>
          normalizer = JNull
          \<or> (as_object normalizer \<noteq> None
             \<and> opt_bind (json_get normalizer ''type'') as_str = Some ''Sequence''
             \<and> opt_bind (json_get normalizer ''normalizers'') as_array = Some []))"

definition reference_from_bytes ::
  "(u8 list \<Rightarrow> hash32) \<Rightarrow> (u8 list \<Rightarrow> json option) \<Rightarrow> (u8 list \<Rightarrow> (string, tokenizer) outcome)
     \<Rightarrow> u8 list \<Rightarrow> (string, reference) outcome"
where
  "reference_from_bytes sha parse load bytes =
     (case load bytes of
        Ok tok \<Rightarrow> Ok \<lparr>rf_tokenizer = tok, rf_identity = normalizer_identity (parse bytes), rf_sha256 = sha bytes\<rparr>
      | Err e \<Rightarrow> Err (''failed to load tokenizer JSON: '' @ e)
      | Panic \<Rightarrow> Panic)"

section \<open>Encoding\<close>

definition ref_encode_ids :: "reference \<Rightarrow> str \<Rightarrow> bool \<Rightarrow> (string, u32 list) outcome" where
  "ref_encode_ids r text special = tk_encode (rf_tokenizer r) text special"

definition ref_encode_batch :: "reference \<Rightarrow> str list \<Rightarrow> bool \<Rightarrow> (string, u32 list list) outcome" where
  "ref_encode_batch r texts special = tk_encode_batch (rf_tokenizer r) texts special"

text \<open>\<^verbatim>\<open>u32::try_from\<close> of the two offsets of a token.\<close>

definition offset_u32 :: "nat \<times> nat \<Rightarrow> (string, nat \<times> nat) outcome" where
  "offset_u32 p =
     (if fst p > u32_max then Err ''token start offset exceeds store format limits''
      else if snd p > u32_max then Err ''token end offset exceeds store format limits''
      else Ok p)"

definition ref_encode_core :: "reference \<Rightarrow> str \<Rightarrow> (string, encoding) outcome" where
  "ref_encode_core r text =
     rbind (tk_encode_offsets (rf_tokenizer r) text) (\<lambda>(ids, offsets).
     rbind (try_map offset_u32 offsets) (\<lambda>spans. Ok \<lparr>enc_ids = ids, enc_spans = spans\<rparr>))"

fun split_offsets :: "(nat \<times> nat) list \<Rightarrow> nat list \<Rightarrow> nat list \<Rightarrow> (string, nat list \<times> nat list) outcome" where
  "split_offsets [] starts ends = Ok (starts, ends)"
| "split_offsets (p # ps) starts ends =
     (if fst p > u32_max then Err ''token start offset exceeds store format limits''
      else if snd p > u32_max then Err ''token end offset exceeds store format limits''
      else split_offsets ps (starts @ [fst p]) (ends @ [snd p]))"

definition ref_encode_soa :: "reference \<Rightarrow> str \<Rightarrow> (string, soa_encoding) outcome" where
  "ref_encode_soa r text =
     rbind (tk_encode_offsets (rf_tokenizer r) text) (\<lambda>(ids, offsets).
     rbind (split_offsets offsets [] []) (\<lambda>(starts, ends).
       Ok \<lparr>soa_ids = ids, soa_starts = starts, soa_ends = ends\<rparr>))"

definition has_added_id :: "reference \<Rightarrow> u32 list \<Rightarrow> bool" where
  "has_added_id r ids = list_ex (\<lambda>i. map_of (tk_added_decoder (rf_tokenizer r)) i \<noteq> None) ids"

definition ref_core_flag :: "reference \<Rightarrow> str \<Rightarrow> (string, encoding \<times> bool) outcome" where
  "ref_core_flag r text = rbind (ref_encode_core r text) (\<lambda>enc. Ok (enc, has_added_id r (enc_ids enc)))"

definition ref_soa_flag :: "reference \<Rightarrow> str \<Rightarrow> (string, soa_encoding \<times> bool) outcome" where
  "ref_soa_flag r text = rbind (ref_encode_soa r text) (\<lambda>enc. Ok (enc, has_added_id r (soa_ids enc)))"

definition ref_ids_flag :: "reference \<Rightarrow> str \<Rightarrow> (string, u32 list \<times> bool) outcome" where
  "ref_ids_flag r text = rbind (ref_encode_ids r text False) (\<lambda>ids. Ok (ids, has_added_id r ids))"

section \<open>Normalizer and added tokens\<close>

definition ref_has_normalizer :: "reference \<Rightarrow> bool" where
  "ref_has_normalizer r \<longleftrightarrow> tk_normalizer (rf_tokenizer r) \<noteq> None"

definition ref_effective_normalizer :: "reference \<Rightarrow> bool" where
  "ref_effective_normalizer r \<longleftrightarrow> ref_has_normalizer r \<and> \<not> rf_identity r"

definition ref_normalize :: "reference \<Rightarrow> str \<Rightarrow> (string, str) outcome" where
  "ref_normalize r text =
     (case tk_normalizer (rf_tokenizer r) of None \<Rightarrow> Ok text | Some f \<Rightarrow> f text)"

definition ref_added_tokens :: "reference \<Rightarrow> (u32 \<times> str \<times> bool) list" where
  "ref_added_tokens r = sort_key fst (tk_added_decoder (rf_tokenizer r))"

section \<open>The table of raw byte lengths\<close>

text \<open>
  The alphabet of the byte-level encoders: the visible bytes stand for themselves, every other byte
  for the next code point from 256 on.
\<close>

definition visible_bytes :: "nat list" where
  "visible_bytes = [0x21..<0x7f] @ [0xa1..<0xad] @ [0xae..<0x100]"

definition byte_alphabet :: "nat list" where
  "byte_alphabet =
     visible_bytes @ map (\<lambda>k. 256 + k) [0..<length (filter (\<lambda>b. b \<notin> set visible_bytes) [0..<256])]"

definition token_raw_length :: "(str \<times> u32) list \<Rightarrow> str \<Rightarrow> nat" where
  "token_raw_length added token =
     (if map_of added token = None \<and> list_all (\<lambda>c. scalar_of c \<in> set byte_alphabet) (chars token)
      then char_count token else length token)"

text \<open>The loop over the vocabulary: the lengths, and which ids were seen.\<close>

fun fill_lengths ::
  "(str \<times> u32) list \<Rightarrow> (str \<times> u32) list \<Rightarrow> nat list \<Rightarrow> bool list \<Rightarrow> (string, nat list \<times> bool list) outcome"
where
  "fill_lengths added [] lengths seen = Ok (lengths, seen)"
| "fill_lengths added ((token, raw_id) # vocab) lengths seen =
     (let i = unat raw_id in
      if i \<ge> length lengths then Err (''vocabulary id '' @ show_nat i @ '' is out of range'')
      else fill_lengths added vocab (lengths[i := token_raw_length added token]) (seen[i := True]))"

definition build_raw_byte_lengths :: "reference \<Rightarrow> (string, nat list) outcome" where
  "build_raw_byte_lengths r =
     (let tok = rf_tokenizer r; vocab = tk_vocab tok in
      if vocab = [] then Err ''the live tokenizer has an empty vocabulary''
      else
        let max_id = Max (set (map (\<lambda>(_, i). unat i) vocab)) in
        rbind (fill_lengths (tk_added_vocab tok) vocab (replicate (max_id + 1) 0) (replicate (max_id + 1) False))
          (\<lambda>(lengths, seen).
            case filter (\<lambda>i. \<not> seen ! i) [0..<length seen] of
              missing # _ \<Rightarrow>
                Err (''the live tokenizer has no vocabulary entry for id '' @ show_nat missing)
            | [] \<Rightarrow> Ok lengths))"

definition ref_spans_for_ids :: "reference \<Rightarrow> str \<Rightarrow> u32 list \<Rightarrow> (string, (nat \<times> nat) list) outcome" where
  "ref_spans_for_ids r text ids =
     rbind (build_raw_byte_lengths r) (\<lambda>table. spans_from_ids ids table text)"

definition ref_spans_soa_for_ids :: "reference \<Rightarrow> str \<Rightarrow> u32 list \<Rightarrow> (string, nat list \<times> nat list) outcome" where
  "ref_spans_soa_for_ids r text ids =
     rbind (build_raw_byte_lengths r) (\<lambda>table. spans_soa_from_ids ids table text)"

definition ref_verify_ids_close :: "reference \<Rightarrow> str \<Rightarrow> u32 list \<Rightarrow> (string, unit) outcome" where
  "ref_verify_ids_close r text ids =
     rbind (build_raw_byte_lengths r) (\<lambda>table. ids_close_over_text ids table text)"

section \<open>The reference as a session encoder\<close>

text \<open>\<^verbatim>\<open>tail.fill(..).map_err(|error| EngineError(error.to_string()))\<close>\<close>

fun store_err :: "'s \<times> 'a res \<Rightarrow> 's \<times> (string, 'a) outcome" where
  "store_err (s, Ok x) = (s, Ok x)"
| "store_err (s, Err e) = (s, Err (err_display e))"
| "store_err (s, Panic) = (s, Panic)"

definition ref_append :: "reference \<Rightarrow> tail_state \<Rightarrow> str \<Rightarrow> tail_state \<times> (string, append_report) outcome" where
  "ref_append r t delta =
     (let full = tl_text t @ delta in
      attempt t (ref_encode_core r full) (\<lambda>enc.
      andthen (store_err (fill t full enc)) (\<lambda>t' _.
        (t', Ok \<lparr>rp_path = (if tl_text t = [] then ''cold_full_native_hf'' else ''native_hf_full_reencode''),
                 rp_kept = 0\<rparr>))))"

definition reference_encoder :: "reference \<Rightarrow> encoder" where
  "reference_encoder r =
     \<lparr>eng_encode = ref_encode_core r,
      eng_append = ref_append r,
      eng_boundary = (\<lambda>t floor_char ceil_char. Ok None),
      eng_witness = NoneFullReencode\<rparr>"

end
