(* ===== verification/FastCpu.thy ===== *)
theory FastCpu
  imports Reference Boundary
begin

text \<open>
  The corrected CPU engine (\<^verbatim>\<open>fast_cpu.rs\<close>): a full encode through one guarded gate (added-token gate,
  Gigatoken with its closure check, reference fallback), and the append repair, which encodes a
  window at the end of the grown text, aligns its tokens with the tail's and splices behind a run
  that matches. The Gigatoken core is a parameter; a worker is a value of type \<open>'w\<close>, which an encode
  may change (its memo tables). A mutex is only poisoned by a panic, so lock errors do not occur.
\<close>

section \<open>Configuration and state\<close>

record repair_spec =
  fs_family :: string
  fs_sha256 :: string
  fs_margin :: nat
  fs_l_max :: nat
  fs_has_normalizer :: bool
  fs_window_chars :: nat
  fs_max_retries :: nat
  fs_min_match :: nat

definition repair_spec_new :: "string \<Rightarrow> string \<Rightarrow> nat \<Rightarrow> nat \<Rightarrow> bool \<Rightarrow> repair_spec" where
  "repair_spec_new family sha256 margin l_max has_normalizer =
     \<lparr>fs_family = family, fs_sha256 = sha256, fs_margin = margin, fs_l_max = l_max,
      fs_has_normalizer = has_normalizer, fs_window_chars = 512, fs_max_retries = 5, fs_min_match = 2\<rparr>"

record repair_stats =
  st_paths :: "string \<Rightarrow> nat"
  st_window_calls :: nat
  st_window_chars :: nat
  st_last_path :: "string option"
  st_last_reason :: "string option"
  st_last_kept :: nat
  st_last_window :: nat
  st_last_retries :: nat

definition stats_new :: repair_stats where
  "stats_new = \<lparr>st_paths = (\<lambda>_. 0), st_window_calls = 0, st_window_chars = 0, st_last_path = None,
     st_last_reason = None, st_last_kept = 0, st_last_window = 0, st_last_retries = 0\<rparr>"

datatype encode_source = Gigatoken | ReferenceAddedToken | ReferenceEngineGuard

text \<open>The parts of the Gigatoken core that are called.\<close>

record 'w gigatoken =
  gt_encode :: "'w \<Rightarrow> u8 list \<Rightarrow> 'w \<times> u32 list"
  gt_fork :: "'w \<Rightarrow> 'w"
  gt_vocab_size :: "'w \<Rightarrow> nat"
  gt_vocab_entries :: "'w \<Rightarrow> (u32 \<times> u8 list) list"

section \<open>The added-token gate\<close>

text \<open>\<open>occurs_in p t\<close>: the matcher reports a match exactly when a pattern is a factor of the text.\<close>

fun starts_with :: "'a list \<Rightarrow> 'a list \<Rightarrow> bool" where
  "starts_with [] ys = True"
| "starts_with (x # xs) [] = False"
| "starts_with (x # xs) (y # ys) = (x = y \<and> starts_with xs ys)"

fun occurs_in :: "'a list \<Rightarrow> 'a list \<Rightarrow> bool" where
  "occurs_in p [] = (p = [])"
| "occurs_in p (y # ys) = (starts_with p (y # ys) \<or> occurs_in p ys)"

record added_gate =
  ag_patterns :: "str list"
  ag_route_every :: bool

definition added_gate_new :: "reference \<Rightarrow> added_gate" where
  "added_gate_new r =
     (let added = ref_added_tokens r in
      \<lparr>ag_patterns = map (\<lambda>(_, content, _). content)
         (filter (\<lambda>(_, content, normalized).
             content \<noteq> [] \<and> (\<not> normalized \<or> \<not> ref_effective_normalizer r)) added),
       ag_route_every = ref_effective_normalizer r
         \<and> list_ex (\<lambda>(_, content, normalized). normalized \<or> content = []) added\<rparr>)"

definition gate_may_match :: "added_gate \<Rightarrow> str \<Rightarrow> bool" where
  "gate_may_match g text \<longleftrightarrow> ag_route_every g \<or> list_ex (\<lambda>p. occurs_in p text) (ag_patterns g)"

section \<open>The engine\<close>

record 'w fast_engine =
  fe_spec :: repair_spec
  fe_reference :: reference
  fe_boundary :: sync_boundary
  fe_gate :: added_gate
  fe_gigatoken :: "'w gigatoken"

text \<open>What its locks hold: the primary worker, the batch workers, the counters.\<close>

record 'w fast_state =
  fw_primary :: 'w
  fw_workers :: "'w list"
  fw_stats :: repair_stats

text \<open>The loop over the vocabulary entries in \<^verbatim>\<open>verified_byte_lengths\<close>.\<close>

fun fill_verified ::
  "nat \<Rightarrow> (u32 \<times> u8 list) list \<Rightarrow> nat list \<Rightarrow> bool list \<Rightarrow> (string, nat list \<times> bool list) outcome"
where
  "fill_verified expected_size [] lengths seen = Ok (lengths, seen)"
| "fill_verified expected_size ((raw_id, bytes) # entries) lengths seen =
     (let i = unat raw_id in
      if i \<ge> expected_size then Err (''Gigatoken vocabulary id '' @ show_nat i @ '' is invalid'')
      else fill_verified expected_size entries (lengths[i := length bytes]) (seen[i := True]))"

definition verified_byte_lengths :: "'w gigatoken \<Rightarrow> 'w \<Rightarrow> nat \<Rightarrow> (string, nat list) outcome" where
  "verified_byte_lengths gt w expected_size =
     (if gt_vocab_size gt w \<noteq> expected_size
      then Err (''vocabulary sizes differ: HF='' @ show_nat expected_size @ '', Gigatoken='' @ show_nat (gt_vocab_size gt w))
      else rbind (fill_verified expected_size (gt_vocab_entries gt w) (replicate expected_size 0) (replicate expected_size False))
        (\<lambda>(lengths, seen).
          case filter (\<lambda>i. \<not> seen ! i) [0..<expected_size] of
            missing # _ \<Rightarrow> Err (''Gigatoken has no raw vocabulary entry for id '' @ show_nat missing)
          | [] \<Rightarrow> Ok lengths))"

definition show_bool :: "bool \<Rightarrow> string" where
  "show_bool b = (if b then ''true'' else ''false'')"

text \<open>\<^verbatim>\<open>build\<close>, with the worker that the loaded tokenizer document yields (or its load error).\<close>

definition fast_build ::
  "'w gigatoken \<Rightarrow> (string, 'w) outcome \<Rightarrow> reference \<Rightarrow> repair_spec \<Rightarrow> u8 list
     \<Rightarrow> (string, 'w fast_engine \<times> 'w fast_state) outcome"
where
  "fast_build gt loaded r spec pclass =
     (if ref_has_normalizer r \<noteq> fs_has_normalizer spec
      then Err (fs_family spec @ '' normalizer premise differs: registry='' @ show_bool (fs_has_normalizer spec)
             @ '', artifact='' @ show_bool (ref_has_normalizer r))
      else
        rbind (sync_new pclass) (\<lambda>boundary.
        rbind loaded (\<lambda>w.
        rbind (build_raw_byte_lengths r) (\<lambda>expected.
        rbind (verified_byte_lengths gt w (length expected)) (\<lambda>observed.
          if observed \<noteq> expected
          then (let first = hd (filter (\<lambda>i. observed ! i \<noteq> expected ! i) [0..<length expected] @ [0]) in
                Err (''HF/Gigatoken byte-length tables differ at id '' @ show_nat first @ '': ''
                  @ show_nat (expected ! first) @ '' != '' @ show_nat (observed ! first)))
          else Ok (\<lparr>fe_spec = spec, fe_reference = r, fe_boundary = boundary,
                    fe_gate = added_gate_new r, fe_gigatoken = gt\<rparr>,
                   \<lparr>fw_primary = w, fw_workers = [], fw_stats = stats_new\<rparr>))))))"

text \<open>The constructors; \<open>load_hf\<close> is the loader of the Gigatoken core.\<close>

definition show_digest :: "hash32 \<Rightarrow> string" where
  "show_digest h =
     concat (map (\<lambda>b. let d = show_base 16 (unat b) in replicate (2 - length d) CHR ''0'' @ d) (hash_bytes h))"

definition fast_from_json ::
  "(u8 list \<Rightarrow> hash32) \<Rightarrow> (u8 list \<Rightarrow> json option) \<Rightarrow> (u8 list \<Rightarrow> (string, tokenizer) outcome)
     \<Rightarrow> 'w gigatoken \<Rightarrow> (u8 list \<Rightarrow> (string, 'w) outcome) \<Rightarrow> u8 list \<Rightarrow> repair_spec \<Rightarrow> u8 list
     \<Rightarrow> (string, 'w fast_engine \<times> 'w fast_state) outcome"
where
  "fast_from_json sha parse load gt load_hf tokenizer_json spec pclass =
     rbind (reference_from_bytes sha parse load tokenizer_json) (\<lambda>r. fast_build gt (load_hf tokenizer_json) r spec pclass)"

definition fast_from_reference ::
  "(u8 list \<Rightarrow> hash32) \<Rightarrow> 'w gigatoken \<Rightarrow> (u8 list \<Rightarrow> (string, 'w) outcome) \<Rightarrow> u8 list \<Rightarrow> reference
     \<Rightarrow> repair_spec \<Rightarrow> u8 list \<Rightarrow> (string, 'w fast_engine \<times> 'w fast_state) outcome"
where
  "fast_from_reference sha gt load_hf tokenizer_json r spec pclass =
     (if sha tokenizer_json \<noteq> rf_sha256 r then Err ''shared reference engine does not belong to tokenizer_json''
      else if show_digest (sha tokenizer_json) \<noteq> fs_sha256 spec
      then Err ''shared reference/tokenizer bytes do not match the certified artifact digest''
      else fast_build gt (load_hf tokenizer_json) r spec pclass)"

text \<open>\<^verbatim>\<open>while window.saturating_sub(margin) <= l_max\<close>, saturating at the largest \<^verbatim>\<open>usize\<close>.\<close>

function seal_window :: "nat \<Rightarrow> nat \<Rightarrow> nat \<Rightarrow> nat option" where
  "seal_window margin l_max window =
     (if window - margin \<le> l_max
      then if window = 0 \<or> window \<ge> u64_max then None
           else seal_window margin l_max (min (window * 2) u64_max)
      else Some window)"
  by pat_completeness auto
termination by (relation "measure (\<lambda>(m, l, w). u64_max - w)") auto

declare seal_window.simps [simp del]

text \<open>\<open>None\<close>: the loop does not end (a window of zero, or one that no longer grows).\<close>

definition minimum_seal_tail_chars :: "repair_spec \<Rightarrow> nat option" where
  "minimum_seal_tail_chars spec =
     map_option (\<lambda>w. min (w + 1) u64_max) (seal_window (fs_margin spec) (fs_l_max spec) (fs_window_chars spec))"

definition count_path ::
  "repair_stats \<Rightarrow> string \<Rightarrow> string option \<Rightarrow> nat \<Rightarrow> nat \<Rightarrow> nat \<Rightarrow> repair_stats"
where
  "count_path st path reason kept window retries = st\<lparr>
     st_paths := (st_paths st)(path := Suc (st_paths st path)),
     st_last_path := Some path,
     st_last_reason := reason,
     st_last_kept := kept,
     st_last_window := window,
     st_last_retries := retries\<rparr>"

section \<open>The fast path\<close>

definition require_byte_identity :: "'w fast_engine \<Rightarrow> str \<Rightarrow> (string, unit) outcome" where
  "require_byte_identity e text =
     (if fs_has_normalizer (fe_spec e) \<and> \<not> str_is_ascii text
      then rbind (ref_normalize (fe_reference e) text) (\<lambda>normalized.
        if normalized \<noteq> text
        then Err ''the repair window is not invariant under the certified normalizer'' else Ok ())
      else Ok ())"

text \<open>The three fast encoders differ in what they check and return for the same ids.\<close>

definition fast_with ::
  "'w fast_engine \<Rightarrow> (u32 list \<Rightarrow> (string, 'a) outcome) \<Rightarrow> str \<Rightarrow> 'w \<Rightarrow> 'w \<times> (string, 'a) outcome"
where
  "fast_with e finish text w =
     attempt w (require_byte_identity e text) (\<lambda>_.
       let (w', ids) = gt_encode (fe_gigatoken e) w text in (w', finish ids))"

definition fast_encoding_with :: "'w fast_engine \<Rightarrow> str \<Rightarrow> 'w \<Rightarrow> 'w \<times> (string, encoding) outcome" where
  "fast_encoding_with e text =
     fast_with e (\<lambda>ids. rbind (ref_spans_for_ids (fe_reference e) text ids) (\<lambda>spans.
       Ok \<lparr>enc_ids = ids, enc_spans = spans\<rparr>)) text"

definition fast_state_encoding_with :: "'w fast_engine \<Rightarrow> str \<Rightarrow> 'w \<Rightarrow> 'w \<times> (string, soa_encoding) outcome" where
  "fast_state_encoding_with e text =
     fast_with e (\<lambda>ids. rbind (ref_spans_soa_for_ids (fe_reference e) text ids) (\<lambda>(starts, ends).
       Ok \<lparr>soa_ids = ids, soa_starts = starts, soa_ends = ends\<rparr>)) text"

definition fast_ids_with :: "'w fast_engine \<Rightarrow> str \<Rightarrow> 'w \<Rightarrow> 'w \<times> (string, u32 list) outcome" where
  "fast_ids_with e text =
     fast_with e (\<lambda>ids. rbind (ref_verify_ids_close (fe_reference e) text ids) (\<lambda>_. Ok ids)) text"

definition fast_encoding :: "'w fast_engine \<Rightarrow> str \<Rightarrow> 'w fast_state \<Rightarrow> 'w fast_state \<times> (string, encoding) outcome" where
  "fast_encoding e text s =
     attempt s (require_byte_identity e text) (\<lambda>_.
       let (w, r) = fast_encoding_with e text (fw_primary s) in (s\<lparr>fw_primary := w\<rparr>, r))"

definition window_encoding :: "'w fast_engine \<Rightarrow> str \<Rightarrow> 'w fast_state \<Rightarrow> 'w fast_state \<times> (string, encoding) outcome" where
  "window_encoding e text s =
     andthen (fast_encoding e text s) (\<lambda>s' encoded.
       (s'\<lparr>fw_stats := (fw_stats s')\<lparr>
            st_window_calls := st_window_calls (fw_stats s') + 1,
            st_window_chars := st_window_chars (fw_stats s') + char_count text\<rparr>\<rparr>, Ok encoded))"

section \<open>The guarded gate\<close>

text \<open>
  Over the counters and the worker in hand. An error of Gigatoken leads to the reference, an error
  of the reference to the caller.
\<close>

definition guarded_full_with ::
  "'w fast_engine \<Rightarrow> (reference \<Rightarrow> str \<Rightarrow> (string, 'a) outcome) \<Rightarrow> (reference \<Rightarrow> str \<Rightarrow> (string, 'a \<times> bool) outcome)
     \<Rightarrow> (str \<Rightarrow> 'w \<Rightarrow> 'w \<times> (string, 'a) outcome) \<Rightarrow> str \<Rightarrow> repair_stats \<times> 'w
     \<Rightarrow> (repair_stats \<times> 'w) \<times> (string, 'a \<times> encode_source) outcome"
where
  "guarded_full_with e reference_plain reference_with_flag gigatoken_encode text s =
     (let r = fe_reference e; (st, w) = s;
          fast = (\<lambda>candidate.
            case gigatoken_encode text w of
              (w', Ok encoded) \<Rightarrow>
                ((count_path st ''gigatoken_full'' None 0 0 0, w'), Ok (encoded, Gigatoken))
            | (w', Err _) \<Rightarrow>
                attempt (st, w') (case candidate of Some encoded \<Rightarrow> Ok encoded | None \<Rightarrow> reference_plain r text)
                  (\<lambda>encoded.
                    ((count_path st ''hf_full_engine_guard'' (Some ''engine_guard'') 0 0 0, w'),
                     Ok (encoded, ReferenceEngineGuard)))
            | (w', Panic) \<Rightarrow> ((st, w'), Panic));
          added = (\<lambda>encoded.
            ((count_path st ''hf_full_added_token'' (Some ''added_token'') 0 0 0, w),
             Ok (encoded, ReferenceAddedToken))) in
      if ag_route_every (fe_gate e)
      then attempt (st, w) (reference_plain r text) added
      else if gate_may_match (fe_gate e) text
      then attempt (st, w) (reference_with_flag r text) (\<lambda>(encoded, has_added).
        if has_added then added encoded else fast (Some encoded))
      else fast None)"

text \<open>With the primary worker of the engine.\<close>

definition with_primary ::
  "(repair_stats \<times> 'w \<Rightarrow> (repair_stats \<times> 'w) \<times> ('e, 'a) outcome) \<Rightarrow> 'w fast_state \<Rightarrow> 'w fast_state \<times> ('e, 'a) outcome"
where
  "with_primary f s =
     (case f (fw_stats s, fw_primary s) of ((st, w), r) \<Rightarrow> (s\<lparr>fw_stats := st, fw_primary := w\<rparr>, r))"

type_synonym ('w, 'a) gated =
  "repair_stats \<times> 'w \<Rightarrow> (repair_stats \<times> 'w) \<times> (string, 'a \<times> encode_source) outcome"
type_synonym ('w, 'a) primary_call =
  "'w fast_state \<Rightarrow> 'w fast_state \<times> (string, 'a \<times> encode_source) outcome"

definition full_encoding_with_source ::
  "'w fast_engine \<Rightarrow> str \<Rightarrow> ('w, encoding) gated"
where
  "full_encoding_with_source e text =
     guarded_full_with e ref_encode_core ref_core_flag (fast_encoding_with e) text"

definition full_state_with_source ::
  "'w fast_engine \<Rightarrow> str \<Rightarrow> ('w, soa_encoding) gated"
where
  "full_state_with_source e text =
     guarded_full_with e ref_encode_soa ref_soa_flag (fast_state_encoding_with e) text"

definition full_ids_with_source ::
  "'w fast_engine \<Rightarrow> str \<Rightarrow> ('w, u32 list) gated"
where
  "full_ids_with_source e text =
     guarded_full_with e (\<lambda>r x. ref_encode_ids r x False) ref_ids_flag (fast_ids_with e) text"

definition encode_with_source ::
  "'w fast_engine \<Rightarrow> str \<Rightarrow> ('w, encoding) primary_call"
where
  "encode_with_source e text s = with_primary (full_encoding_with_source e text) s"

definition encode_state_with_source ::
  "'w fast_engine \<Rightarrow> str \<Rightarrow> ('w, soa_encoding) primary_call"
where
  "encode_state_with_source e text s = with_primary (full_state_with_source e text) s"

definition encode_ids_with_source ::
  "'w fast_engine \<Rightarrow> str \<Rightarrow> ('w, u32 list) primary_call"
where
  "encode_ids_with_source e text s = with_primary (full_ids_with_source e text) s"

definition fast_encode_ids ::
  "'w fast_engine \<Rightarrow> str \<Rightarrow> 'w fast_state \<Rightarrow> 'w fast_state \<times> (string, u32 list) outcome"
where
  "fast_encode_ids e text s =
     (case encode_ids_with_source e text s of
        (s', Ok (ids, _)) \<Rightarrow> (s', Ok ids) | (s', Err m) \<Rightarrow> (s', Err m) | (s', Panic) \<Rightarrow> (s', Panic))"

text \<open>The seed of a session: ids alone on the fast row, an encoding on a reference row.\<close>

datatype seed_payload = GigatokenIds "u32 list" | ReferenceRow soa_encoding

definition encode_seed_with_source ::
  "'w fast_engine \<Rightarrow> str \<Rightarrow> ('w, seed_payload) primary_call"
where
  "encode_seed_with_source e text s =
     with_primary (guarded_full_with e
       (\<lambda>r x. rbind (ref_encode_soa r x) (\<lambda>enc. Ok (ReferenceRow enc)))
       (\<lambda>r x. rbind (ref_soa_flag r x) (\<lambda>(enc, added). Ok (ReferenceRow enc, added)))
       (\<lambda>x w. case fast_ids_with e x w of
          (w', Ok ids) \<Rightarrow> (w', Ok (GigatokenIds ids)) | (w', Err m) \<Rightarrow> (w', Err m) | (w', Panic) \<Rightarrow> (w', Panic))
       text) s"

definition fast_spans_for_ids :: "'w fast_engine \<Rightarrow> str \<Rightarrow> u32 list \<Rightarrow> (string, (nat \<times> nat) list) outcome" where
  "fast_spans_for_ids e text ids =
     rbind (require_byte_identity e text) (\<lambda>_. ref_spans_for_ids (fe_reference e) text ids)"

end
