(* ===== verification/Repair.thy ===== *)
theory Repair
  imports FastCpu
begin

text \<open>
  The append repair of the corrected CPU engine (\<^verbatim>\<open>fast_cpu.rs\<close>) and its session-encoder interface.
  A window at the end of the grown text is encoded, its tokens are aligned with the tail's by id, span
  and ordinal among equal spans, and the tail is cut behind the longest aligned run when the run is
  long enough and holds a synchronizing transition; otherwise the window doubles, and in the end the
  reference encodes the whole text.
\<close>

section \<open>Aligned tokens\<close>

record token_record =
  rec_index :: nat
  rec_start :: nat
  rec_end :: nat
  rec_id :: u32
  rec_ordinal :: nat

record token_match =
  mt_left :: nat
  mt_right :: nat
  mt_length :: nat
  mt_covered :: nat

text \<open>\<open>ordinals\<close> counts, per span, the records already made.\<close>

fun build_records_loop ::
  "nat \<Rightarrow> nat \<Rightarrow> nat \<Rightarrow> nat \<Rightarrow> (u32 \<times> nat \<times> nat) list \<Rightarrow> (nat \<times> nat \<Rightarrow> nat) \<Rightarrow> token_record list"
where
  "build_records_loop base overlap_start overlap_end index [] ordinals = []"
| "build_records_loop base overlap_start overlap_end index ((tid, local_start, local_end) # rows) ordinals =
     (let s = base + local_start; e = base + local_end in
      if s = e \<or> s < overlap_start \<or> e > overlap_end
      then build_records_loop base overlap_start overlap_end (Suc index) rows ordinals
      else \<lparr>rec_index = index, rec_start = s, rec_end = e, rec_id = tid, rec_ordinal = ordinals (s, e)\<rparr>
        # build_records_loop base overlap_start overlap_end (Suc index) rows
            (ordinals((s, e) := Suc (ordinals (s, e)))))"

definition build_records ::
  "u32 list \<Rightarrow> (nat \<times> nat) list \<Rightarrow> nat \<Rightarrow> nat \<Rightarrow> nat \<Rightarrow> (string, token_record list) outcome"
where
  "build_records ids spans base overlap_start overlap_end =
     (if length ids \<noteq> length spans
      then Err (''ids/spans length mismatch: '' @ show_nat (length ids) @ '' != '' @ show_nat (length spans))
      else Ok (build_records_loop base overlap_start overlap_end 0 (zip ids spans) (\<lambda>_. 0)))"

type_synonym record_key = "nat \<times> nat \<times> nat \<times> u32"

definition record_key_of :: "token_record \<Rightarrow> record_key" where
  "record_key_of r = (rec_start r, rec_end r, rec_ordinal r, rec_id r)"

text \<open>The positions of every key on the right, in order.\<close>

definition index_right :: "token_record list \<Rightarrow> record_key \<Rightarrow> nat list" where
  "index_right right = fold (\<lambda>(i, r) m. m(record_key_of r := m (record_key_of r) @ [i])) (enumerate 0 right) (\<lambda>_. [])"

text \<open>The inner loop: how far two runs agree, and the pairs it has covered.\<close>

function extend_run ::
  "token_record list \<Rightarrow> token_record list \<Rightarrow> nat \<Rightarrow> nat \<Rightarrow> nat \<Rightarrow> (nat \<times> nat) set \<Rightarrow> nat \<times> (nat \<times> nat) set"
where
  "extend_run left right li ri len covered =
     (if li + len < length left \<and> ri + len < length right
         \<and> rec_index (left ! (li + len)) = rec_index (left ! li) + len
         \<and> rec_index (right ! (ri + len)) = rec_index (right ! ri) + len
         \<and> record_key_of (left ! (li + len)) = record_key_of (right ! (ri + len))
      then extend_run left right li ri (Suc len) (insert (li + len, ri + len) covered)
      else (len, covered))"
  by pat_completeness auto
termination by (relation "measure (\<lambda>(left, right, li, ri, len, covered). length left - (li + len))") auto

declare extend_run.simps [simp del]

definition candidate :: "token_record list \<Rightarrow> token_record list \<Rightarrow> nat \<Rightarrow> nat \<Rightarrow> nat \<Rightarrow> token_match" where
  "candidate left right li ri len =
     \<lparr>mt_left = rec_index (left ! li), mt_right = rec_index (right ! ri), mt_length = len,
      mt_covered = rec_end (left ! (li + len - 1)) - rec_start (left ! li)\<rparr>"

definition better :: "token_match \<Rightarrow> token_match option \<Rightarrow> token_match option" where
  "better m best =
     (case best of
        None \<Rightarrow> Some m
      | Some c \<Rightarrow>
          if mt_length c < mt_length m \<or> (mt_length m = mt_length c \<and> mt_covered c < mt_covered m)
          then Some m else best)"

type_synonym match_state = "token_match option \<times> (nat \<times> nat) set"

definition match_at :: "token_record list \<Rightarrow> token_record list \<Rightarrow> nat \<Rightarrow> nat \<Rightarrow> match_state \<Rightarrow> match_state" where
  "match_at left right li ri s =
     (case s of (best, covered) \<Rightarrow>
        if (li, ri) \<in> covered then s
        else (let (len, covered') = extend_run left right li ri 1 covered
              in (better (candidate left right li ri len) best, covered')))"

definition find_match :: "token_record list \<Rightarrow> token_record list \<Rightarrow> token_match option" where
  "find_match left right =
     (let positions = index_right right in
      fst (fold (\<lambda>li. fold (\<lambda>ri. match_at left right li ri) (positions (record_key_of (left ! li))))
             [0..<length left] (None, {})))"

section \<open>Acceptance\<close>

text \<open>\<^verbatim>\<open>slice_chars\<close>: the substring between two character positions.\<close>

definition slice_chars :: "str \<Rightarrow> nat \<Rightarrow> nat \<Rightarrow> str option" where
  "slice_chars text lo hi =
     (if lo > hi \<or> hi > char_count text then None
      else if str_is_ascii text then Some (take (hi - lo) (drop lo text))
      else
        let byte_of = (\<lambda>i. if i = char_count text then length text else fst (char_indices text ! i))
        in case (str_slice text (byte_of lo) (byte_of hi) :: (string, str) outcome) of Ok x \<Rightarrow> Some x | _ \<Rightarrow> None)"

text \<open>The loop over \<open>index in left_start..end\<close>.\<close>

fun sync_witness_loop :: "sync_boundary \<Rightarrow> str list \<Rightarrow> (nat \<times> nat) list \<Rightarrow> nat \<Rightarrow> nat \<Rightarrow> (string, bool) outcome" where
  "sync_witness_loop b cs spans index 0 = Ok False"
| "sync_witness_loop b cs spans index (Suc n) =
     rbind (vec_get spans (index + 1)) (\<lambda>(boundary, _).
       if boundary = 0 \<or> boundary \<ge> length cs then sync_witness_loop b cs spans (index + 1) n
       else if sync_accepts b (cs ! (boundary - 1)) (cs ! boundary) then Ok True
       else sync_witness_loop b cs spans (index + 1) n)"

definition has_sync_witness :: "sync_boundary \<Rightarrow> token_match \<Rightarrow> (nat \<times> nat) list \<Rightarrow> str \<Rightarrow> (string, bool) outcome" where
  "has_sync_witness b m spans text = sync_witness_loop b (chars text) spans (mt_left m) (mt_length m - 1)"

text \<open>The number of characters the run covers, in the normalized text where there is a normalizer;
  \<open>None\<close> is the refusal.\<close>

definition covered_chars :: "'w fast_engine \<Rightarrow> token_match \<Rightarrow> (nat \<times> nat) list \<Rightarrow> str \<Rightarrow> (string, nat option) outcome" where
  "covered_chars e m spans text =
     (if fs_has_normalizer (fe_spec e)
      then rbind (vec_get spans (mt_left m)) (\<lambda>(s, _).
           rbind (vec_get spans (mt_left m + mt_length m - 1)) (\<lambda>(_, t).
             case slice_chars text s t of
               None \<Rightarrow> Ok None
             | Some x \<Rightarrow>
                 (case ref_normalize (fe_reference e) x of
                    Ok normalized \<Rightarrow> Ok (Some (char_count normalized)) | Err _ \<Rightarrow> Ok None | Panic \<Rightarrow> Panic)))
      else Ok (Some (mt_covered m)))"

definition match_accepted :: "'w fast_engine \<Rightarrow> token_match \<Rightarrow> (nat \<times> nat) list \<Rightarrow> str \<Rightarrow> (string, bool) outcome" where
  "match_accepted e m spans text =
     (if mt_length m < fs_min_match (fe_spec e) then Ok False
      else rbind (covered_chars e m spans text) (\<lambda>covered.
        case covered of
          None \<Rightarrow> Ok False
        | Some n \<Rightarrow>
            if n > fs_l_max (fe_spec e) then has_sync_witness (fe_boundary e) m spans text else Ok False))"

section \<open>The repair\<close>

definition reference_full ::
  "'w fast_engine \<Rightarrow> str \<Rightarrow> string \<Rightarrow> 'w fast_state \<Rightarrow> 'w fast_state \<times> (string, encoding) outcome"
where
  "reference_full e text reason s =
     attempt s (ref_encode_core (fe_reference e) text) (\<lambda>encoded.
       (s\<lparr>fw_stats := count_path (fw_stats s) (''hf_full_'' @ reason) (Some reason) 0 0 0\<rparr>, Ok encoded))"

text \<open>A tail operation inside a call on the engine: the state is the pair of both.\<close>

type_synonym 'w repair_state = "'w fast_state \<times> tail_state"

definition repair_fill ::
  "'w fast_state \<Rightarrow> tail_state \<Rightarrow> str \<Rightarrow> encoding \<Rightarrow> 'w repair_state \<times> (string, unit) outcome"
where
  "repair_fill s t text enc = (case store_err (fill t text enc) of (t', r) \<Rightarrow> ((s, t'), r))"

definition fall_back ::
  "'w fast_engine \<Rightarrow> str \<Rightarrow> string \<Rightarrow> 'w fast_state \<Rightarrow> tail_state
     \<Rightarrow> 'w repair_state \<times> (string, append_report \<times> nat option) outcome"
where
  "fall_back e full reason s t =
     (case reference_full e full reason s of
        (s', Ok encoded) \<Rightarrow>
          andthen (repair_fill s' t full encoded) (\<lambda>st _.
            (st, Ok (\<lparr>rp_path = ''hf_full_'' @ reason, rp_kept = 0\<rparr>, None)))
      | (s', Err m) \<Rightarrow> ((s', t), Err m)
      | (s', Panic) \<Rightarrow> ((s', t), Panic))"

definition shift_span :: "nat \<Rightarrow> nat \<times> nat \<Rightarrow> nat \<times> nat" where
  "shift_span by sp =
     ((fst sp + by mod 4294967296) mod 4294967296, (snd sp + by mod 4294967296) mod 4294967296)"

text \<open>
  The accepted match of one window, if there is one. The tail's row and the window's are both read
  within \<open>[overlap_start, previous_chars)\<close>.
\<close>

definition window_match ::
  "'w fast_engine \<Rightarrow> u32 list \<Rightarrow> (nat \<times> nat) list \<Rightarrow> str \<Rightarrow> nat \<Rightarrow> nat \<Rightarrow> encoding
     \<Rightarrow> (string, token_match option) outcome"
where
  "window_match e ids spans full previous_chars window_start encoded =
     (let overlap_start = window_start + fs_margin (fe_spec e) in
      rbind (build_records ids spans 0 overlap_start previous_chars) (\<lambda>left.
      rbind (build_records (enc_ids encoded) (enc_spans encoded) window_start overlap_start previous_chars) (\<lambda>right.
      case find_match left right of
        None \<Rightarrow> Ok None
      | Some m \<Rightarrow>
          rbind (match_accepted e m spans full) (\<lambda>ok. Ok (if ok then Some m else None)))))"

definition spliced ::
  "u32 list \<Rightarrow> (nat \<times> nat) list \<Rightarrow> encoding \<Rightarrow> nat \<Rightarrow> token_match \<Rightarrow> (string, encoding) outcome"
where
  "spliced ids spans encoded window_start m =
     (let left_end = mt_left m + mt_length m; right_end = mt_right m + mt_length m in
      rbind (vec_slice ids 0 left_end) (\<lambda>ids1.
      rbind (vec_slice (enc_ids encoded) right_end (length (enc_ids encoded))) (\<lambda>ids2.
      rbind (vec_slice spans 0 left_end) (\<lambda>spans1.
      rbind (vec_slice (enc_spans encoded) right_end (length (enc_spans encoded))) (\<lambda>spans2.
        Ok \<lparr>enc_ids = ids1 @ ids2, enc_spans = spans1 @ map (shift_span window_start) spans2\<rparr>)))))"

text \<open>
  \<^verbatim>\<open>while window < previous_chars\<close>. The result carries the bytes of the window of a successful repair.
\<close>

function repair_loop ::
  "'w fast_engine \<Rightarrow> tail_state \<Rightarrow> str \<Rightarrow> (nat \<times> nat) list \<Rightarrow> nat \<Rightarrow> nat \<Rightarrow> nat \<Rightarrow> 'w fast_state
     \<Rightarrow> 'w repair_state \<times> (string, append_report \<times> nat option) outcome"
where
  "repair_loop e t full prior_spans previous_chars window retries s =
     (if window < previous_chars
      then
        let window_start = previous_chars - window in
        case slice_chars full window_start (char_count full) of
          None \<Rightarrow> fall_back e full ''window_covers_all'' s t
        | Some window_text \<Rightarrow>
            (case window_encoding e window_text s of
               (s1, Panic) \<Rightarrow> ((s1, t), Panic)
             | (s1, Err _) \<Rightarrow> fall_back e full ''engine_guard'' s1 t
             | (s1, Ok encoded) \<Rightarrow>
                 attempt (s1, t)
                   (window_match e (ids_of t) prior_spans full previous_chars window_start encoded) (\<lambda>found.
                 case found of
                   Some m \<Rightarrow>
                     attempt (s1, t) (spliced (ids_of t) prior_spans encoded window_start m) (\<lambda>enc.
                     andthen (repair_fill s1 t full enc) (\<lambda>(s2, t2) _.
                       let left_end = mt_left m + mt_length m in
                       ((s2\<lparr>fw_stats := count_path (fw_stats s2) ''gigatoken_repair'' None left_end window retries\<rparr>, t2),
                        Ok (\<lparr>rp_path = ''gigatoken_repair'', rp_kept = left_end\<rparr>, Some (length window_text)))))
                 | None \<Rightarrow>
                     if retries \<ge> fs_max_retries (fe_spec e) then fall_back e full ''no_safe_cut'' s1 t
                     else repair_loop e t full prior_spans previous_chars (min (window * 2) u64_max) (retries + 1) s1))
      else fall_back e full ''window_covers_all'' s t)"
  by pat_completeness auto
termination
  by (relation "measure (\<lambda>(e, t, full, spans, n, window, retries, s). Suc (fs_max_retries (fe_spec e)) - retries)") auto

declare repair_loop.simps [simp del]

definition repair_append ::
  "'w fast_engine \<Rightarrow> tail_state \<Rightarrow> str \<Rightarrow> 'w fast_state
     \<Rightarrow> 'w repair_state \<times> (string, append_report \<times> nat option) outcome"
where
  "repair_append e t delta s =
     (if delta = []
      then ((s\<lparr>fw_stats := count_path (fw_stats s) ''gigatoken_repair_noop'' None (n_tokens t) 0 0\<rparr>, t),
            Ok (\<lparr>rp_path = ''gigatoken_repair_noop'', rp_kept = n_tokens t\<rparr>, None))
      else
        let full = tl_text t @ delta in
        attempt (s, t) (case tail_spans_pairs t of Ok sp \<Rightarrow> Ok sp | _ \<Rightarrow> Panic) (\<lambda>prior_spans.
          if n_tokens t \<noteq> length prior_spans then fall_back e full ''invalid_prior_state'' s t
          else repair_loop e t full prior_spans (tl_chars t) (fs_window_chars (fe_spec e)) 0 s))"

definition append_with_repair_input ::
  "'w fast_engine \<Rightarrow> tail_state \<Rightarrow> str \<Rightarrow> 'w fast_state
     \<Rightarrow> 'w repair_state \<times> (string, append_report \<times> nat option) outcome"
where
  "append_with_repair_input e t delta s =
     (if tl_text t = []
      then (case encode_state_with_source e delta s of
              (s', Ok (encoded, _)) \<Rightarrow>
                (case store_err (fill_soa t delta encoded) of
                   (t', Ok _) \<Rightarrow> ((s', t'), Ok (\<lparr>rp_path = ''cold_full'', rp_kept = 0\<rparr>, None))
                 | (t', Err m) \<Rightarrow> ((s', t'), Err m)
                 | (t', Panic) \<Rightarrow> ((s', t'), Panic))
            | (s', Err m) \<Rightarrow> ((s', t), Err m)
            | (s', Panic) \<Rightarrow> ((s', t), Panic))
      else repair_append e t delta s)"

section \<open>The session-encoder interface\<close>

definition fast_encode :: "'w fast_engine \<Rightarrow> str \<Rightarrow> 'w fast_state \<Rightarrow> 'w fast_state \<times> (string, encoding) outcome" where
  "fast_encode e text s =
     (case encode_state_with_source e text s of
        (s', Ok (encoded, _)) \<Rightarrow> (s', Ok (into_pairs encoded))
      | (s', Err m) \<Rightarrow> (s', Err m)
      | (s', Panic) \<Rightarrow> (s', Panic))"

definition fast_append ::
  "'w fast_engine \<Rightarrow> tail_state \<Rightarrow> str \<Rightarrow> 'w fast_state \<Rightarrow> 'w repair_state \<times> (string, append_report) outcome"
where
  "fast_append e t delta s =
     andthen (append_with_repair_input e t delta s) (\<lambda>st (report, _). (st, Ok report))"

text \<open>\<^verbatim>\<open>error.to_string()\<close> of a store error.\<close>

fun of_store :: "'a res \<Rightarrow> (string, 'a) outcome" where
  "of_store (Ok x) = Ok x"
| "of_store (Err m) = Err (err_display m)"
| "of_store Panic = Panic"

text \<open>The searched arrays are the tail's own, or windows of its checkpointed spans.\<close>

definition fast_boundary ::
  "'w fast_engine \<Rightarrow> tail_state \<Rightarrow> nat \<Rightarrow> nat \<Rightarrow> (string, boundary_cut option) outcome"
where
  "fast_boundary e t floor_char ceil_char =
     (if \<not> spans_materialized t
      then of_store (last_boundary_windowed (fe_boundary e) (tl_text t) (tl_chars t) (n_tokens t)
             floor_char ceil_char span_checkpoint_stride (span_window t))
      else
        rbind (case forced_spans t of Ok sp \<Rightarrow> Ok sp | _ \<Rightarrow> Panic) (\<lambda>(starts, ends).
          Ok (sync_last_boundary (fe_boundary e) (tl_text t) (tl_chars t) starts ends floor_char ceil_char)))"

text \<open>
  The engine as the store's encoder, with the state its locks hold when a call is made. The store
  sees the results; the counters and memo tables stay with the engine.
\<close>

definition fast_encoder :: "'w fast_engine \<Rightarrow> 'w fast_state \<Rightarrow> encoder" where
  "fast_encoder e s =
     \<lparr>eng_encode = (\<lambda>text. snd (fast_encode e text s)),
      eng_append = (\<lambda>t delta. case fast_append e t delta s of ((_, t'), r) \<Rightarrow> (t', r)),
      eng_boundary = fast_boundary e,
      eng_witness = BpeSyncTransition\<rparr>"

end
