(* ===== verification/BoundaryProps.thy ===== *)
theory BoundaryProps
  imports Boundary
begin

text \<open>
  What the two searches compute: the last token row index at which a clean, synchronizing cut lies
  between the floor and the ceiling. The reverse cursor reads the characters of the text, the
  windowed search agrees with the search over whole arrays for every window size.
\<close>

section \<open>The table\<close>

lemma sync_new_Ok:
  assumes "sync_new classes = Ok b"
  shows "sb_classes b = classes" "length classes = n_codepoints" "\<forall>v \<in> set classes. v \<le> 4"
proof -
  show "sb_classes b = classes" "length classes = n_codepoints"
    using assms by (auto simp: sync_new_def split: if_splits list.splits)
  have "filter (\<lambda>(index, value). 4 < value) (zip [0..<length classes] classes) = []"
    using assms by (auto simp: sync_new_def split: if_splits list.splits)
  then show "\<forall>v \<in> set classes. v \<le> 4"
    by (force simp: filter_empty_conv set_zip in_set_conv_nth not_less)
qed

lemma sync_class_in_range:
  "sync_new classes = Ok b \<Longrightarrow> valid_scalar c \<Longrightarrow> scalar_of c < length (sb_classes b)"
  by (simp add: sync_new_Ok scalar_bound)

section \<open>The reverse cursor\<close>

definition rev_at :: "str list \<Rightarrow> nat \<Rightarrow> rev_cursor" where
  "rev_at cs t = \<lparr>rc_iter = rev (take t cs), rc_next = t, rc_cached = Some (t, cs ! t)\<rparr>"

definition reaches :: "str list \<Rightarrow> rev_cursor \<Rightarrow> nat \<Rightarrow> bool" where
  "reaches cs c t \<longleftrightarrow>
     c = \<lparr>rc_iter = rev cs, rc_next = length cs, rc_cached = None\<rparr>
     \<or> (\<exists>i \<ge> t. i < length cs \<and> c = rev_at cs i)"

lemma rev_walk_here:
  "rev_walk t xs t cached = (\<lparr>rc_iter = xs, rc_next = t, rc_cached = cached\<rparr>, True)"
  by (cases xs) simp_all

lemma rev_walk_eq:
  "t < n \<Longrightarrow> n \<le> length cs \<Longrightarrow> rev_walk t (rev (take n cs)) n cached = (rev_at cs t, True)"
proof (induction n arbitrary: cached)
  case 0
  then show ?case by simp
next
  case (Suc n)
  then have "rev (take (Suc n) cs) = cs ! n # rev (take n cs)" by (simp add: take_Suc_conv_app_nth)
  then have step: "rev_walk t (rev (take (Suc n) cs)) (Suc n) cached
      = rev_walk t (rev (take n cs)) n (Some (n, cs ! n))"
    using Suc.prems by simp
  show ?case
  proof (cases "t = n")
    case True
    then have "rev_walk t (rev (take n cs)) n (Some (n, cs ! n)) = (rev_at cs n, True)"
      by (simp add: rev_at_def rev_walk_here)
    with step True show ?thesis by simp
  next
    case False
    with Suc show ?thesis unfolding step by simp
  qed
qed

lemma rev_char_at_eq:
  assumes "reaches cs c t" "t < length cs"
  shows "rev_char_at c t = (rev_at cs t, Some (cs ! t))"
  using assms(1) unfolding reaches_def
proof
  assume "c = \<lparr>rc_iter = rev cs, rc_next = length cs, rc_cached = None\<rparr>"
  then show ?thesis
    using rev_walk_eq [OF assms(2) order_refl, of None]
    by (simp add: rev_char_at_def rev_walked_def rev_at_def)
next
  assume "\<exists>i \<ge> t. i < length cs \<and> c = rev_at cs i"
  then obtain i where i: "t \<le> i" "i < length cs" "c = rev_at cs i" by blast
  show ?thesis
  proof (cases "t = i")
    case True
    with i show ?thesis by (simp add: rev_char_at_def rev_at_def)
  next
    case False
    with i rev_walk_eq [of t i cs "Some (i, cs ! i)"] show ?thesis
      by (simp add: rev_char_at_def rev_walked_def rev_at_def)
  qed
qed

lemma reaches_new: "char_count text = n \<Longrightarrow> reaches (chars text) (rev_cursor_new text n) t"
  by (auto simp: reaches_def rev_cursor_new_def)

lemma reaches_at: "u \<le> t \<Longrightarrow> t < length cs \<Longrightarrow> reaches cs (rev_at cs t) u"
  by (auto simp: reaches_def)

lemma reaches_less: "reaches cs c t \<Longrightarrow> u \<le> t \<Longrightarrow> reaches cs c u"
  unfolding reaches_def using order_trans by blast

section \<open>The last certified cut\<close>

text \<open>The largest index below \<open>n\<close> with a property.\<close>

fun last_below :: "(nat \<Rightarrow> bool) \<Rightarrow> nat \<Rightarrow> nat option" where
  "last_below P 0 = None"
| "last_below P (Suc n) = (if P n then Some n else last_below P n)"

lemma last_below_skip:
  "m \<le> n \<Longrightarrow> (\<And>k. m \<le> k \<Longrightarrow> k < n \<Longrightarrow> \<not> P k) \<Longrightarrow> last_below P n = last_below P m"
proof (induction n)
  case 0
  then show ?case by simp
next
  case (Suc n)
  show ?case
  proof (cases "m = Suc n")
    case False
    then have "m \<le> n" using Suc.prems(1) by simp
    with Suc show ?thesis by simp
  qed simp
qed

lemma last_below_None: "last_below P n = None \<longleftrightarrow> (\<forall>k < n. \<not> P k)"
  by (induction n) (auto simp: less_Suc_eq)

lemma last_below_Some:
  "last_below P n = Some k \<longleftrightarrow> k < n \<and> P k \<and> (\<forall>j. k < j \<longrightarrow> j < n \<longrightarrow> \<not> P j)"
proof (induction n)
  case 0
  then show ?case by simp
next
  case (Suc n)
  show ?case
  proof (cases "P n")
    case True
    then show ?thesis by (auto simp: less_Suc_eq)
  next
    case False
    with Suc show ?thesis by (auto simp: less_Suc_eq)
  qed
qed

text \<open>
  A cut before token \<open>k\<close> is certified when the token starts a character of its own (the one before
  starts earlier and ends there at the latest), the position is above the floor, at most the
  ceiling and inside the text, and the characters around it are a synchronizing pair.
\<close>

definition certified_cut ::
  "sync_boundary \<Rightarrow> str list \<Rightarrow> nat list \<Rightarrow> nat list \<Rightarrow> nat \<Rightarrow> nat \<Rightarrow> nat \<Rightarrow> bool"
where
  "certified_cut b cs starts ends floor_char ceil_char k \<longleftrightarrow>
     0 < k \<and> starts ! (k - 1) \<noteq> starts ! k \<and> ends ! (k - 1) \<le> starts ! k
     \<and> floor_char < starts ! k \<and> starts ! k \<le> ceil_char \<and> starts ! k < length cs
     \<and> sync_accepts b (cs ! (starts ! k - 1)) (cs ! (starts ! k))"

definition last_certified ::
  "sync_boundary \<Rightarrow> str list \<Rightarrow> nat list \<Rightarrow> nat list \<Rightarrow> nat \<Rightarrow> nat \<Rightarrow> boundary_cut option"
where
  "last_certified b cs starts ends floor_char ceil_char =
     map_option (\<lambda>k. \<lparr>cut_tokens = k, cut_char = starts ! k\<rparr>)
       (last_below (certified_cut b cs starts ends floor_char ceil_char) (length starts))"

lemma any_descent_sorted: "any_descent xs \<longleftrightarrow> \<not> sorted xs"
  by (induction xs rule: any_descent.induct) (auto simp: sorted1 sorted2 simp del: sorted_wrt.simps(2))

lemma group_start_props:
  "\<lbrakk>g < k; k \<le> r\<rbrakk> \<Longrightarrow> group_start starts v r = g \<Longrightarrow> starts ! (k - 1) = v"
  "group_start starts v r = Suc h \<Longrightarrow> starts ! h \<noteq> v"
proof (induction r)
  case (Suc r)
  {
    case 1
    then show ?case using Suc.IH(1) by (cases "k = Suc r") (auto split: if_splits)
  next
    case 2
    then show ?case using Suc.IH(2) by (auto split: if_splits)
  }
qed simp_all

lemma group_start_eq:
  assumes "group_start starts (starts ! r) r = g" "g \<le> k" "k \<le> r"
  shows "starts ! k = starts ! r"
proof (cases "k = r")
  case False
  then show ?thesis using assms group_start_props(1) [of g "Suc k" r] by simp
qed simp

lemma search_none_below:
  "sorted starts \<Longrightarrow> r < length starts \<Longrightarrow> starts ! r \<le> floor_char \<Longrightarrow>
     last_below (certified_cut b cs starts ends floor_char ceil_char) (Suc r) = None"
proof -
  assume s: "sorted starts" "r < length starts" "starts ! r \<le> floor_char"
  have "starts ! k \<le> starts ! r" if "k \<le> r" for k using s that by (simp add: sorted_nth_mono)
  then have "\<not> floor_char < starts ! k" if "k \<le> r" for k using s(3) that by (meson not_less order_trans)
  then show ?thesis by (simp add: last_below_None certified_cut_def less_Suc_eq_le)
qed

lemma search_group:
  assumes "group_start starts (starts ! r) r = g"
  shows "last_below (certified_cut b cs starts ends floor_char ceil_char) (Suc r)
       = last_below (certified_cut b cs starts ends floor_char ceil_char) (Suc g)"
proof (rule last_below_skip)
  show "Suc g \<le> Suc r" using assms group_start_le by fastforce
  fix k assume "Suc g \<le> k" "k < Suc r"
  then have "starts ! k = starts ! r" "starts ! (k - 1) = starts ! r"
    by (auto intro!: group_start_eq [OF assms])
  then show "\<not> certified_cut b cs starts ends floor_char ceil_char k" by (simp add: certified_cut_def)
qed

lemma boundary_search_eq:
  assumes "sorted starts" "right < length starts" "reaches cs cursor (starts ! right)"
  shows "boundary_search b (length cs) starts ends floor_char ceil_char right cursor
     = map_option (\<lambda>k. \<lparr>cut_tokens = k, cut_char = starts ! k\<rparr>)
         (last_below (certified_cut b cs starts ends floor_char ceil_char) (Suc right))"
  using assms
proof (induction right arbitrary: cursor rule: less_induct)
  case (less right)
  let ?P = "certified_cut b cs starts ends floor_char ceil_char"
  let ?v = "starts ! right"
  define g where "g = group_start starts ?v right"
  have g: "g \<le> right" unfolding g_def by (rule group_start_le)
  have vg: "starts ! g = ?v" using group_start_eq [OF g_def [symmetric] order_refl g] .
  note group = search_group [OF g_def [symmetric], of b cs ends floor_char ceil_char]
  have next_eq: "boundary_search b (length cs) starts ends floor_char ceil_char (g - 1) c
      = map_option (\<lambda>k. \<lparr>cut_tokens = k, cut_char = starts ! k\<rparr>) (last_below ?P g)"
    if g0: "0 < g" and "right \<noteq> 0" and rc: "reaches cs c (?v - 1)" for c
  proof -
    obtain h where h: "g = Suc h" using g0 by (cases g) auto
    have "starts ! h \<noteq> ?v" using group_start_props(2) g_def h by metis
    moreover have "starts ! h \<le> ?v" using less.prems g h by (simp add: sorted_nth_mono)
    ultimately have "reaches cs c (starts ! h)" using rc by (auto elim: reaches_less)
    then show ?thesis using less.IH [of h c] less.prems(1,2) g h by simp
  qed
  show ?case
  proof (cases "right = 0")
    case True
    then show ?thesis by (subst boundary_search.simps) (simp add: certified_cut_def)
  next
    case r: False
    show ?thesis
    proof (cases "?v \<le> floor_char")
      case True
      then show ?thesis using search_none_below [OF less.prems(1,2)] r
        by (simp add: boundary_search.simps [of b _ _ _ _ _ right] Let_def)
    next
      case fl: False
      let ?clean = "?v \<le> ceil_char \<and> 0 < ?v \<and> ?v < length cs \<and> 0 < g \<and> ends ! (g - 1) \<le> ?v"
      note unfold = boundary_search.simps [of b _ _ _ _ _ right] Let_def g_def [symmetric]
      show ?thesis
      proof (cases ?clean)
        case False
        then have nP: "\<not> ?P g" by (auto simp: certified_cut_def vg)
        have rc: "reaches cs cursor (?v - 1)" using less.prems(3) by (auto elim: reaches_less)
        show ?thesis using False fl r nP group next_eq [OF _ r rc] by (auto simp: unfold)
      next
        case True
        then obtain h where h: "g = Suc h" using gr0_implies_Suc [of g] by fastforce
        have "starts ! h \<noteq> ?v" using group_start_props(2) g_def h by metis
        then have P: "?P g \<longleftrightarrow> sync_accepts b (cs ! (?v - 1)) (cs ! ?v)"
          using True fl h vg by (simp add: certified_cut_def)
        have c1: "rev_char_at cursor ?v = (rev_at cs ?v, Some (cs ! ?v))"
          using rev_char_at_eq less.prems(3) True by blast
        have c2: "rev_char_at (rev_at cs ?v) (?v - 1) = (rev_at cs (?v - 1), Some (cs ! (?v - 1)))"
          by (rule rev_char_at_eq) (use True in \<open>auto intro: reaches_at\<close>)
        have rc: "reaches cs (rev_at cs (?v - 1)) (?v - 1)" by (rule reaches_at) (use True in auto)
        have "boundary_search b (length cs) starts ends floor_char ceil_char right cursor
          = (if sync_accepts b (cs ! (?v - 1)) (cs ! ?v) then Some \<lparr>cut_tokens = g, cut_char = ?v\<rparr>
             else boundary_search b (length cs) starts ends floor_char ceil_char (g - 1) (rev_at cs (?v - 1)))"
          by (subst boundary_search.simps)
            (use True fl r in \<open>simp add: Let_def g_def [symmetric] c1 c2 [unfolded One_nat_def]\<close>)
        also have "\<dots> = map_option (\<lambda>k. \<lparr>cut_tokens = k, cut_char = starts ! k\<rparr>) (last_below ?P (Suc g))"
          using P vg next_eq [OF _ r rc] True by simp
        finally show ?thesis unfolding group .
      qed
    qed
  qed
qed

theorem last_boundary_last_certified:
  "sync_last_boundary b text (char_count text) starts ends floor_char ceil_char =
     (if length starts = length ends \<and> 2 \<le> length starts \<and> sorted starts
      then last_certified b (chars text) starts ends floor_char (min ceil_char (char_count text))
      else None)"
proof -
  have "boundary_search b (char_count text) starts ends floor_char c (length starts - 1)
        (rev_cursor_new text (char_count text)) = last_certified b (chars text) starts ends floor_char c"
    if s: "sorted starts" and n: "2 \<le> length starts" for c
  proof -
    have "length starts = Suc (length starts - 1)" and "length starts - 1 < length starts" using n by simp_all
    then show ?thesis
      unfolding last_certified_def using boundary_search_eq [OF s _ reaches_new [OF refl]] by metis
  qed
  then show ?thesis by (auto simp: sync_last_boundary_def any_descent_sorted)
qed

section \<open>The windowed search\<close>

definition span_slice :: "nat \<Rightarrow> nat \<Rightarrow> nat list \<Rightarrow> nat list" where
  "span_slice lo hi xs = take (hi - lo) (drop lo xs)"

lemma slice_props:
  assumes "lo < hi" "hi \<le> length xs"
  shows "length (span_slice lo hi xs) = hi - lo" "i < hi - lo \<Longrightarrow> span_slice lo hi xs ! i = xs ! (lo + i)"
    "span_slice lo hi xs \<noteq> []" "hd (span_slice lo hi xs) = xs ! lo" "last (span_slice lo hi xs) = xs ! (hi - 1)"
    "sorted xs \<Longrightarrow> sorted (span_slice lo hi xs)"
  using assms by (auto simp: span_slice_def hd_conv_nth last_conv_nth sorted_wrt_take sorted_wrt_drop)

fun wcover :: "nat list \<Rightarrow> nat list \<Rightarrow> (nat \<times> nat list \<times> nat list) list \<Rightarrow> nat \<Rightarrow> bool" where
  "wcover S E [] c \<longleftrightarrow> c = length S"
| "wcover S E ((lo, s, e) # rest) c \<longleftrightarrow> c = lo
     \<and> (\<exists>hi. lo < hi \<and> hi \<le> length S \<and> s = span_slice lo hi S \<and> e = span_slice lo hi E \<and> wcover S E rest hi)"

definition ws_ok :: "nat list \<Rightarrow> nat list \<Rightarrow> windowed_spans \<Rightarrow> bool" where
  "ws_ok S E ws \<longleftrightarrow> 0 < ws_window ws \<and> ws_monotone ws \<and> ws_covered ws \<le> length S
     \<and> wcover S E (ws_chunks ws) (ws_covered ws)"

lemma wcover_bounds:
  "wcover S E chunks c \<Longrightarrow> length E = length S \<Longrightarrow> c \<le> i \<Longrightarrow> i < length S \<Longrightarrow>
     spans_bounds chunks i = Ok (S ! i, E ! i)"
  by (induction S E chunks c rule: wcover.induct) (auto simp: slice_props vec_get_def)

definition fetches :: "'e span_fetch \<Rightarrow> nat list \<Rightarrow> nat list \<Rightarrow> bool" where
  "fetches fetch S E \<longleftrightarrow>
     (\<forall>lo hi. lo < hi \<longrightarrow> hi \<le> length S \<longrightarrow> fetch lo hi = Ok (span_slice lo hi S, span_slice lo hi E))"

lemma push_ok:
  assumes "ws_ok S E ws" "sorted S" "lo < ws_covered ws"
  shows "ws_ok S E (ws_push ws lo (span_slice lo (ws_covered ws) S) (span_slice lo (ws_covered ws) E))"
proof -
  let ?hi = "ws_covered ws"
  have hi: "?hi \<le> length S" and cov: "wcover S E (ws_chunks ws) ?hi" using assms by (auto simp: ws_ok_def)
  have "\<not> seam_descends (span_slice lo ?hi S) (ws_chunks ws)"
  proof (cases "ws_chunks ws")
    case (Cons c rest)
    then obtain hi' e where hi': "?hi < hi'" "hi' \<le> length S" and c: "c = (?hi, span_slice ?hi hi' S, e)"
      using cov unfolding Cons by (metis prod_cases3 wcover.simps(2))
    have first: "span_slice ?hi hi' S = S ! ?hi # tl (span_slice ?hi hi' S)"
      using slice_props(3,4) [OF hi'] by (metis list.collapse)
    have "?hi - 1 \<le> ?hi" "?hi < length S" using hi' by simp_all
    then have "last (span_slice lo ?hi S) \<le> S ! ?hi"
      unfolding slice_props(5) [OF assms(3) hi] by (rule sorted_nth_mono [OF assms(2)])
    then show ?thesis unfolding seam_descends_def Cons c by (subst first) simp
  qed (simp add: seam_descends_def)
  with assms hi show ?thesis by (auto simp: ws_ok_def ws_push_def any_descent_sorted slice_props)
qed

lemma ensure_ok:
  assumes "fetches fetch S E" "sorted S" "ws_ok S E ws"
  shows "\<exists>ws'. spans_ensure fetch ws i = Ok (ws', True) \<and> ws_ok S E ws'
     \<and> ws_covered ws' \<le> ws_covered ws \<and> ws_covered ws' \<le> i"
  using assms(3)
proof (induction "ws_covered ws" arbitrary: ws rule: less_induct)
  case less
  show ?case
  proof (cases "ws_covered ws > i")
    case True
    let ?hi = "ws_covered ws"
    let ?lo = "(?hi - 1) - (?hi - 1) mod ws_window ws"
    let ?ws = "ws_push ws ?lo (span_slice ?lo ?hi S) (span_slice ?lo ?hi E)"
    have lo: "?lo < ?hi" using True by simp
    have ok: "ws_ok S E ?ws" by (rule push_ok [OF less.prems assms(2) lo])
    have "fetch ?lo ?hi = Ok (span_slice ?lo ?hi S, span_slice ?lo ?hi E)"
      using assms(1) lo less.prems by (simp add: fetches_def ws_ok_def)
    then have "spans_ensure fetch ws i = spans_ensure fetch ?ws i"
      using True by (subst spans_ensure.simps) (simp add: Let_def)
    moreover have "ws_covered ?ws = ?lo" by (simp add: ws_push_def)
    ultimately show ?thesis using less.hyps [OF _ ok] lo by (metis less_le_not_le order_trans)
  next
    case False
    then show ?thesis using less.prems by (subst spans_ensure.simps) (simp add: ws_ok_def)
  qed
qed

lemma group_ok:
  fixes fetch :: "'e span_fetch"
  assumes "fetches fetch S E" "sorted S" "length E = length S"
  shows "ws_ok S E ws \<Longrightarrow> g \<le> length S \<Longrightarrow>
     \<exists>ws'. windowed_group fetch ws v g = Ok (Some (ws', group_start S v g)) \<and> ws_ok S E ws'
       \<and> (0 < group_start S v g \<longrightarrow> ws_covered ws' \<le> group_start S v g - 1)"
proof (induction g arbitrary: ws)
  case 0
  then show ?case by simp
next
  case (Suc g)
  obtain ws1 where ws1: "spans_ensure fetch ws g = Ok (ws1, True)" "ws_ok S E ws1" "ws_covered ws1 \<le> g"
    using ensure_ok [OF assms(1,2) Suc.prems(1)] by blast
  have "spans_bounds (ws_chunks ws1) g = (Ok (S ! g, E ! g) :: ('e, nat \<times> nat) outcome)"
    using wcover_bounds [of S E "ws_chunks ws1" "ws_covered ws1" g] ws1 assms(3) Suc.prems by (simp add: ws_ok_def)
  with ws1 Suc show ?case by auto
qed

lemma windowed_search_eq:
  fixes fetch :: "'e span_fetch"
  assumes f: "fetches fetch S E" and s: "sorted S" and l: "length E = length S"
  shows "ws_ok S E ws \<Longrightarrow> right < length S \<Longrightarrow>
     windowed_search b n fetch floor_char ceil_char right ws cursor
       = Ok (boundary_search b n S E floor_char ceil_char right cursor)"
proof (induction right arbitrary: ws cursor rule: less_induct)
  case (less right)
  obtain ws1 where ws1: "spans_ensure fetch ws right = Ok (ws1, True)" "ws_ok S E ws1" "ws_covered ws1 \<le> right"
    using ensure_ok [OF f s less.prems(1)] by blast
  have bounds: "spans_bounds (ws_chunks w) i = (Ok (S ! i, E ! i) :: ('e, nat \<times> nat) outcome)"
    if "ws_ok S E w" "ws_covered w \<le> i" "i < length S" for w i
    using wcover_bounds [of S E "ws_chunks w" "ws_covered w" i] that l by (simp add: ws_ok_def)
  let ?g = "group_start S (S ! right) right"
  obtain ws2 where ws2: "windowed_group fetch ws1 (S ! right) right = Ok (Some (ws2, ?g))" "ws_ok S E ws2"
      "0 < ?g \<longrightarrow> ws_covered ws2 \<le> ?g - 1"
    using group_ok [OF f s l ws1(2), of right "S ! right"] less.prems(2) by auto
  have g: "?g \<le> right" by (rule group_start_le)
  have last: "spans_bounds (ws_chunks ws2) (?g - 1) = (Ok (S ! (?g - 1), E ! (?g - 1)) :: ('e, nat \<times> nat) outcome)" if "0 < ?g"
    by (rule bounds [OF ws2(2)]) (use that ws2(3) g less.prems(2) in auto)
  have rec: "windowed_search b n fetch floor_char ceil_char (?g - 1) ws2 c
      = Ok (boundary_search b n S E floor_char ceil_char (?g - 1) c)" if "0 < ?g" for c
    by (rule less.IH [OF _ ws2(2)]) (use that g less.prems(2) in auto)
  show ?case
    by (subst windowed_search.simps, subst boundary_search.simps)
      (auto simp: ws1(1) bounds [OF ws1(2,3) less.prems(2)] ws2(1) last [unfolded One_nat_def] rec [unfolded One_nat_def] Let_def
        split: option.splits prod.splits)
qed

theorem windowed_equals_whole:
  assumes "fetches fetch starts ends" "sorted starts" "length ends = length starts"
  shows "last_boundary_windowed b text text_chars (length starts) floor_char ceil_char window fetch
     = Ok (sync_last_boundary b text text_chars starts ends floor_char ceil_char)"
proof -
  have "ws_ok starts ends (windowed_new window (length starts))" by (simp add: ws_ok_def windowed_new_def)
  then show ?thesis
    using windowed_search_eq [OF assms] assms
    by (simp add: last_boundary_windowed_def sync_last_boundary_def any_descent_sorted)
qed

end
