(* ===== verification/BpeLaws.thy ===== *)
theory BpeLaws
  imports Repair BoundaryProps
begin

text \<open>
  What the repair relies on in a certified tokenizer, as a locale, and what follows: a token row of a
  grown text is a prefix of the old row followed by a suffix of the row of a window, whenever the
  two agree on a run that holds a synchronizing transition and is longer than any literal.
\<close>

section \<open>Token rows\<close>

type_synonym token = "u32 \<times> nat \<times> nat"

abbreviation tok_id :: "token \<Rightarrow> u32" where "tok_id \<equiv> fst"
abbreviation tok_start :: "token \<Rightarrow> nat" where "tok_start t \<equiv> fst (snd t)"
abbreviation tok_end :: "token \<Rightarrow> nat" where "tok_end t \<equiv> snd (snd t)"

definition tok_shift :: "nat \<Rightarrow> token \<Rightarrow> token" where
  "tok_shift k t = (tok_id t, tok_start t + k, tok_end t + k)"

lemma tok_shift_sel [simp]:
  "tok_id (tok_shift k t) = tok_id t" "tok_start (tok_shift k t) = tok_start t + k"
  "tok_end (tok_shift k t) = tok_end t + k"
  by (simp_all add: tok_shift_def)

lemma tok_shift_inj [simp]: "tok_shift k t = tok_shift k u \<longleftrightarrow> t = u"
  by (cases t; cases u) (simp add: tok_shift_def)

lemma tok_shift_shift [simp]: "tok_shift a (tok_shift b t) = tok_shift (b + a) t"
  by (simp add: tok_shift_def add.assoc)

text \<open>The text before and after a character position.\<close>

definition text_upto :: "str \<Rightarrow> nat \<Rightarrow> str" where
  "text_upto x p = take (char_off x p) x"

definition text_from :: "str \<Rightarrow> nat \<Rightarrow> str" where
  "text_from x p = drop (char_off x p) x"

lemma text_split [simp]: "text_upto x p @ text_from x p = x"
  by (simp add: text_upto_def text_from_def)

lemma chars_text_upto [simp]: "chars (text_upto x p) = take p (chars x)"
  and chars_text_from [simp]: "chars (text_from x p) = drop p (chars x)"
  by (simp_all add: text_upto_def text_from_def chars_take_off chars_drop_off)

lemma valid_text_upto [simp]: "valid_utf8 x \<Longrightarrow> valid_utf8 (text_upto x p)"
  and valid_text_from [simp]: "valid_utf8 x \<Longrightarrow> valid_utf8 (text_from x p)"
  by (simp_all add: text_upto_def text_from_def)

lemma text_upto_append: "valid_utf8 d \<Longrightarrow> p \<le> char_count x \<Longrightarrow> text_upto (x @ d) p = text_upto x p"
  by (simp only: text_upto_def take_char_off chars_append_valid) simp

lemma text_from_append: "valid_utf8 d \<Longrightarrow> p \<le> char_count x \<Longrightarrow> text_from (x @ d) p = text_from x p @ d"
  by (simp only: text_from_def drop_char_off chars_append_valid) simp

lemma text_from_from: "text_from (text_from x p) q = text_from x (p + q)"
  by (simp add: text_from_def drop_char_off chars_concat_drop add.commute)

definition splits_at :: "(str \<Rightarrow> token list) \<Rightarrow> str \<Rightarrow> nat \<Rightarrow> bool" where
  "splits_at row x p \<longleftrightarrow> row x = row (text_upto x p) @ map (tok_shift p) (row (text_from x p))"

definition literals :: "(str \<Rightarrow> token list) \<Rightarrow> u32 set \<Rightarrow> str \<Rightarrow> (nat \<times> nat) set" where
  "literals row added x = {(s, e). \<exists>i \<in> added. (i, s, e) \<in> set (row x)}"

section \<open>The laws\<close>

text \<open>
  \<open>row x\<close> is the reference row of a text: ids with character spans. The tokens are in text order and
  not empty; two that start at one character divide its bytes, so that the first ends with it; whether
  a token starts inside a character is a property of its bytes, hence of its id.

  Added tokens are extracted first, leftmost and longest. So an extracted literal is a token that no
  other overlaps; growing the text at its end can only replace literals by one that reaches into the
  new text; and reading a text from a later position on finds the same literals, unless one found
  there covers the start. No literal is longer than \<open>l_max\<close>, in the measure \<open>cover\<close> of the repair.

  Outside literals a synchronizing pair separates what the pre-tokenizer produces. The tokens inside
  one character before a given one are determined by it.
\<close>

locale bpe_reference =
  fixes row :: "str \<Rightarrow> token list"
    and added :: "u32 set"
    and accepts :: "str \<Rightarrow> str \<Rightarrow> bool"
    and inside :: "u32 \<Rightarrow> bool"
    and cover :: "str \<Rightarrow> nat"
    and l_max :: nat
  assumes row_span: "valid_utf8 x \<Longrightarrow> t \<in> set (row x) \<Longrightarrow> tok_start t < tok_end t \<and> tok_end t \<le> char_count x"
    and row_sorted: "valid_utf8 x \<Longrightarrow> i \<le> j \<Longrightarrow> j < length (row x) \<Longrightarrow>
      tok_start (row x ! i) \<le> tok_start (row x ! j)"
    and row_shared: "valid_utf8 x \<Longrightarrow> i < j \<Longrightarrow> j < length (row x) \<Longrightarrow>
      tok_start (row x ! i) = tok_start (row x ! j) \<Longrightarrow> tok_end (row x ! i) = Suc (tok_start (row x ! i))"
    and row_inside: "valid_utf8 x \<Longrightarrow> j < length (row x) \<Longrightarrow>
      inside (tok_id (row x ! j)) \<longleftrightarrow> 0 < j \<and> tok_start (row x ! j) < tok_end (row x ! (j - 1))"
    and literal_alone: "valid_utf8 x \<Longrightarrow> (s, e) \<in> literals row added x \<Longrightarrow> t \<in> set (row x) \<Longrightarrow>
      tok_end t \<le> s \<or> e \<le> tok_start t \<or> (tok_start t = s \<and> tok_end t = e)"
    and literal_short: "valid_utf8 x \<Longrightarrow> (s, e) \<in> literals row added x \<Longrightarrow> e - s \<le> l_max"
    and literal_cover: "valid_utf8 x \<Longrightarrow> (s, e) \<in> literals row added x \<Longrightarrow> s \<le> a \<Longrightarrow> c \<le> e \<Longrightarrow>
      cover (concat (take (c - a) (drop a (chars x)))) \<le> l_max"
    and literal_prefix: "valid_utf8 x \<Longrightarrow> valid_utf8 d \<Longrightarrow> (s, e) \<in> literals row added (x @ d) \<Longrightarrow>
      e \<le> char_count x \<Longrightarrow> (s, e) \<in> literals row added x"
    and literal_extends: "valid_utf8 x \<Longrightarrow> valid_utf8 d \<Longrightarrow> (s, e) \<in> literals row added x \<Longrightarrow>
      (s, e) \<in> literals row added (x @ d)
      \<or> (\<exists>s' e'. (s', e') \<in> literals row added (x @ d) \<and> s' \<le> s \<and> e < e')"
    and literal_suffix: "valid_utf8 x \<Longrightarrow> (s, e) \<in> literals row added x \<Longrightarrow> p \<le> s \<Longrightarrow>
      (s - p, e - p) \<in> literals row added (text_from x p)
      \<or> (\<exists>s' e'. (s', e') \<in> literals row added (text_from x p) \<and> s' < s - p \<and> s - p < e')"
    and sync_or_literal: "valid_utf8 x \<Longrightarrow> 0 < p \<Longrightarrow> p < char_count x \<Longrightarrow>
      accepts (chars x ! (p - 1)) (chars x ! p) \<Longrightarrow>
      splits_at row x p \<or> (\<exists>s e. (s, e) \<in> literals row added x \<and> s < p \<and> p < e)"
    and char_group: "valid_utf8 x \<Longrightarrow> valid_utf8 d \<Longrightarrow> j < length (row x) \<Longrightarrow> j < length (row (x @ d)) \<Longrightarrow>
      row x ! j = row (x @ d) ! j \<Longrightarrow> tok_start (row x ! j) = 0 \<Longrightarrow> tok_end (row x ! j) = 1 \<Longrightarrow>
      take j (row x) = take j (row (x @ d))"
begin

lemma literal_token: "(s, e) \<in> literals row added x \<Longrightarrow> \<exists>i \<in> added. (i, s, e) \<in> set (row x)"
  by (simp add: literals_def)

lemma row_span_nth:
  "valid_utf8 x \<Longrightarrow> i < length (row x) \<Longrightarrow> tok_start (row x ! i) < tok_end (row x ! i)
     \<and> tok_end (row x ! i) \<le> char_count x"
  by (rule row_span) simp_all

text \<open>A token that starts at a synchronizing pair shows that the row splits there.\<close>

lemma splits_at_start:
  assumes x: "valid_utf8 x" and j: "j < length (row x)" "tok_start (row x ! j) = p"
    and p: "0 < p" "p < char_count x" "accepts (chars x ! (p - 1)) (chars x ! p)"
  shows "splits_at row x p"
proof (rule ccontr)
  assume "\<not> splits_at row x p"
  then obtain s e where l: "(s, e) \<in> literals row added x" "s < p" "p < e"
    using sync_or_literal [OF x p] by blast
  have "tok_end (row x ! j) > p" using row_span_nth [OF x j(1)] j(2) by simp
  then show False using literal_alone [OF x l(1), of "row x ! j"] j l(2,3) by fastforce
qed

text \<open>Where a row splits, the tokens before the position are those that start before it.\<close>

lemma split_length:
  assumes x: "valid_utf8 x" and sp: "splits_at row x p" and p: "p \<le> char_count x" and j: "j < length (row x)"
  shows "j < length (row (text_upto x p)) \<longleftrightarrow> tok_start (row x ! j) < p"
    and "j < length (row (text_upto x p)) \<Longrightarrow> tok_end (row x ! j) \<le> p"
proof -
  let ?u = "row (text_upto x p)"
  have r: "row x = ?u @ map (tok_shift p) (row (text_from x p))" using sp by (simp add: splits_at_def)
  have u: "tok_start (row x ! j) < p \<and> tok_end (row x ! j) \<le> p" if "j < length ?u"
  proof -
    have "tok_start (?u ! j) < tok_end (?u ! j)" "tok_end (?u ! j) \<le> char_count (text_upto x p)"
      using row_span_nth [OF valid_text_upto [OF x] that] by simp_all
    moreover have "row x ! j = ?u ! j" by (subst r) (simp add: nth_append that)
    ultimately show ?thesis using p by simp
  qed
  moreover have "p \<le> tok_start (row x ! j)" if "\<not> j < length ?u"
  proof -
    have "j - length ?u < length (row (text_from x p))" using that j by (subst (asm) r) simp
    then have "row x ! j = tok_shift p (row (text_from x p) ! (j - length ?u))"
      by (subst r) (simp add: nth_append that)
    then show ?thesis by simp
  qed
  ultimately show "j < length ?u \<longleftrightarrow> tok_start (row x ! j) < p" by fastforce
  show "j < length ?u \<Longrightarrow> tok_end (row x ! j) \<le> p" using u by simp
qed

text \<open>The last token before the boundary of a split ends there, the first one after it is not inside a
  character.\<close>

lemma split_first:
  assumes x: "valid_utf8 x" and sp: "splits_at row x p" and p: "p \<le> char_count x" and j: "j < length (row x)"
    "tok_start (row x ! j) = p"
  shows "inside (tok_id (row x ! j)) \<longleftrightarrow> length (row (text_upto x p)) < j"
proof -
  let ?k = "length (row (text_upto x p))"
  have kj: "?k \<le> j" using split_length(1) [OF x sp p j(1)] j(2) by simp
  show ?thesis
  proof (cases "?k = j")
    case True
    have "tok_end (row x ! (j - 1)) \<le> p" if "0 < j"
      using split_length(2) [OF x sp p, of "j - 1"] True that j(1) by simp
    then show ?thesis using row_inside [OF x j(1)] True j(2) by auto
  next
    case False
    then have lt: "?k < j" using kj by simp
    then have "p \<le> tok_start (row x ! (j - 1))" using split_length(1) [OF x sp p, of "j - 1"] j(1) lt by linarith
    moreover have "tok_start (row x ! (j - 1)) < tok_end (row x ! (j - 1))"
      using row_span_nth [OF x, of "j - 1"] j(1) by linarith
    ultimately have "p < tok_end (row x ! (j - 1))" by simp
    then show ?thesis using row_inside [OF x j(1)] lt j(2) by auto
  qed
qed

section \<open>Cuts of a tail\<close>

text \<open>A clean cut before a synchronizing pair, further than \<open>l_max\<close> from the end, is a cut whatever follows.\<close>

lemma cut_safe:
  assumes x: "valid_utf8 x" and d: "valid_utf8 d" and k: "0 < k" "k < length (row x)"
    and b: "tok_start (row x ! k) = p" "tok_end (row x ! (k - 1)) \<le> p"
    and p: "0 < p" "p + l_max \<le> char_count x" "p < char_count x" "accepts (chars x ! (p - 1)) (chars x ! p)"
  shows "row (x @ d) = take k (row x) @ map (tok_shift p) (row (text_from x p @ d))"
    and "map (tok_shift p) (row (text_from x p)) = drop k (row x)"
proof -
  have xd: "valid_utf8 (x @ d)" using x d by simp
  have cs: "chars (x @ d) = chars x @ chars d" using d by (rule chars_append_valid)
  have sp: "splits_at row x p" by (rule splits_at_start [OF x k(2) b(1) p(1,3,4)])
  have "splits_at row (x @ d) p"
  proof (rule ccontr)
    assume "\<not> splits_at row (x @ d) p"
    moreover have "accepts (chars (x @ d) ! (p - 1)) (chars (x @ d) ! p)" using p by (simp add: cs nth_append less_imp_diff_less)
    ultimately obtain s e where l: "(s, e) \<in> literals row added (x @ d)" "s < p" "p < e"
      using sync_or_literal [OF xd p(1), of] p(3) cs by auto
    have "e \<le> char_count x" using literal_short [OF xd l(1)] l(2) p(2) by simp
    then have "(s, e) \<in> literals row added x" using literal_prefix [OF x d l(1)] by simp
    then show False
      using literal_alone [OF x, of s e "row x ! k"] row_span_nth [OF x k(2)] k(2) b(1) l(2,3) by fastforce
  qed
  then have "row (x @ d) = row (text_upto x p) @ map (tok_shift p) (row (text_from x p @ d))"
    using p(3) d by (simp add: splits_at_def text_upto_append text_from_append)
  moreover have "length (row (text_upto x p)) = k"
  proof (rule antisym)
    show "length (row (text_upto x p)) \<le> k" using split_length(1) [OF x sp _ k(2)] b(1) p(3) by simp
    have "tok_start (row x ! (k - 1)) < tok_end (row x ! (k - 1))"
      using row_span_nth [OF x, of "k - 1"] k(2) by linarith
    then have "tok_start (row x ! (k - 1)) < p" using b(2) by simp
    then show "k \<le> length (row (text_upto x p))" using split_length(1) [OF x sp, of "k - 1"] k p(3) by linarith
  qed
  moreover have "row x = row (text_upto x p) @ map (tok_shift p) (row (text_from x p))" using sp by (simp add: splits_at_def)
  ultimately show "row (x @ d) = take k (row x) @ map (tok_shift p) (row (text_from x p @ d))"
    and "map (tok_shift p) (row (text_from x p)) = drop k (row x)" by simp_all
qed

end

end
