(* ===== verification/BpeSplice.thy ===== *)
theory BpeSplice
  imports BpeLaws
begin

text \<open>
  The splice of the repair. Two rows that agree on a run, one of the old text and one of a window of the
  grown text, give the row of the grown text when the run holds a synchronizing transition and covers
  more than any literal.
\<close>

section \<open>Runs\<close>

definition ordinal_of :: "token list \<Rightarrow> nat \<Rightarrow> nat" where
  "ordinal_of A j = length (filter (\<lambda>t. snd t = snd (A ! j)) (take j A))"

definition run_of :: "token list \<Rightarrow> token list \<Rightarrow> nat \<Rightarrow> nat \<Rightarrow> nat \<Rightarrow> bool" where
  "run_of A B l r len \<longleftrightarrow> l + len \<le> length A \<and> r + len \<le> length B
     \<and> (\<forall>i < len. A ! (l + i) = B ! (r + i) \<and> ordinal_of A (l + i) = ordinal_of B (r + i))"

lemma run_of_nth: "run_of A B l r len \<Longrightarrow> l \<le> i \<Longrightarrow> i < l + len \<Longrightarrow> A ! i = B ! (r + (i - l))"
  unfolding run_of_def by (metis le_add_diff_inverse nat_add_left_cancel_less)

text \<open>When the tokens from \<open>k\<close> to \<open>j\<close> share the span of \<open>j\<close> and no earlier one does, the ordinal counts them.\<close>

lemma ordinal_group:
  assumes "k \<le> j" "j < length A" "\<And>i. k \<le> i \<Longrightarrow> i < j \<Longrightarrow> snd (A ! i) = snd (A ! j)"
    "\<And>i. i < k \<Longrightarrow> snd (A ! i) \<noteq> snd (A ! j)"
  shows "ordinal_of A j = j - k"
proof -
  have "take j A = take k A @ take (j - k) (drop k A)"
    using assms(1) by (metis le_add_diff_inverse take_add)
  moreover have "filter (\<lambda>t. snd t = snd (A ! j)) (take k A) = []"
    using assms(4) by (fastforce simp: filter_empty_conv in_set_conv_nth)
  moreover have "filter (\<lambda>t. snd t = snd (A ! j)) (take (j - k) (drop k A)) = take (j - k) (drop k A)"
  proof (rule filter_True, rule ballI)
    fix t assume "t \<in> set (take (j - k) (drop k A))"
    then obtain i where "i < j - k" "t = A ! (k + i)" using assms(1,2) by (auto simp: in_set_conv_nth)
    then show "snd t = snd (A ! j)" using assms(3) [of "k + i"] by simp
  qed
  ultimately show ?thesis using assms(1,2) by (simp add: ordinal_of_def)
qed

context bpe_reference
begin

lemma row_empty: "row [] = []"
  using row_span [of "[]"] by (cases "row []") (auto, metis list.set_intros(1) not_less0 le_zero_eq)

lemma splits_at_0: "splits_at row x 0"
  by (simp add: splits_at_def text_upto_def text_from_def row_empty tok_shift_def map_idI)

section \<open>No literal crosses the transition in the grown text\<close>

lemma no_literal_across:
  assumes x: "valid_utf8 x" and d: "valid_utf8 d" and ws: "ws \<le> char_count x"
    and run: "run_of (row x) (map (tok_shift ws) (row (text_from (x @ d) ws))) l r len"
    and w: "l \<le> w" "w < l + len" "tok_start (row x ! w) = b" and l: "ws \<le> tok_start (row x ! l)"
    and cov: "l_max < cover (concat (take (tok_end (row x ! (l + len - 1)) - tok_start (row x ! l))
                                (drop (tok_start (row x ! l)) (chars x))))"
    and lit: "(s, e) \<in> literals row added (x @ d)" "s < b" "b < e"
  shows False
proof -
  let ?W = "text_from (x @ d) ws" and ?A = "row x"
  have xd: "valid_utf8 (x @ d)" and W: "valid_utf8 ?W" using x d by simp_all
  have cs: "chars (x @ d) = chars x @ chars d" using d by (rule chars_append_valid)
  have lenA: "l + len \<le> length ?A" and lenW: "r + len \<le> length (row ?W)" using run by (auto simp: run_of_def)
  have run_nth: "?A ! i = tok_shift ws (row ?W ! (r + (i - l)))" if "l \<le> i" "i < l + len" for i
    using run_of_nth [OF run that] lenW that by simp
  have wA: "w < length ?A" using w lenA by simp
  have bw: "b < tok_end (?A ! w)" using row_span_nth [OF x wA] w(3) by simp
  let ?s = "tok_start (?A ! l)" and ?e = "tok_end (?A ! (l + len - 1))"
  have lA: "l + len - 1 < length ?A" "l < length ?A" using lenA w by simp_all
  have in_x: "\<not> (s' < b \<and> b < e')" if "(s', e') \<in> literals row added x" for s' e'
    using literal_alone [OF x that, of "?A ! w"] wA w(3) bw by fastforce
  show False
  proof (cases "e \<le> char_count x")
    case True
    then show False using in_x literal_prefix [OF x d lit(1)] lit(2,3) by blast
  next
    case beyond: False
    have e_run: "?e \<le> char_count x" using row_span_nth [OF x lA(1)] by simp
    show False
    proof (cases "s \<le> ?s")
      case True
      have "cover (concat (take (?e - ?s) (drop ?s (chars (x @ d))))) \<le> l_max"
        by (rule literal_cover [OF xd lit(1) True]) (use e_run beyond in simp)
      moreover have "take (?e - ?s) (drop ?s (chars (x @ d))) = take (?e - ?s) (drop ?s (chars x))"
        using e_run by (simp add: cs)
      ultimately show False using cov by simp
    next
      case s: False
      let ?J = "row ?W ! (r + (w - l))" and ?L = "row ?W ! r"
      have jW: "r + (w - l) < length (row ?W)" "r < length (row ?W)" using lenW w by simp_all
      have J: "tok_start ?J + ws = b" using run_nth [OF w(1,2)] w(3) by simp
      have Jend: "tok_start ?J < tok_end ?J" using row_span_nth [OF W jW(1)] by simp
      have L: "tok_start ?L + ws = ?s" "tok_end ?L + ws = tok_end (?A ! l)" using run_nth [of l] w by simp_all
      have in_W: "\<not> (s' < tok_start ?J \<and> tok_start ?J < e')" if "(s', e') \<in> literals row added ?W" for s' e'
        using literal_alone [OF W that, of ?J] jW Jend by fastforce
      have "ws \<le> s" using s l by simp
      from literal_suffix [OF xd lit(1) this] consider
          "(s - ws, e - ws) \<in> literals row added ?W"
        | s' e' where "(s', e') \<in> literals row added ?W" "s' < s - ws" "s - ws < e'" by blast
      then show False
      proof cases
        case 1
        then show False using in_W [of "s - ws" "e - ws"] lit(2,3) J \<open>ws \<le> s\<close> by linarith
      next
        case (2 s' e')
        have e': "e' \<le> tok_start ?J" using in_W [OF 2(1)] 2(2) lit(2) J by linarith
        have s': "tok_start ?L \<le> s'"
        proof -
          have "tok_start ?L < tok_end ?L" using row_span_nth [OF W jW(2)] by simp
          moreover have "tok_end ?L \<le> s' \<or> e' \<le> tok_start ?L \<or> (tok_start ?L = s' \<and> tok_end ?L = e')"
            using literal_alone [OF W 2(1)] jW(2) by simp
          ultimately show ?thesis using 2(2,3) s L(1) by linarith
        qed
        obtain i t where i: "i \<in> added" and t: "t < length (row ?W)" "row ?W ! t = (i, s', e')"
          using literal_token [OF 2(1)] by (auto simp: in_set_conv_nth)
        have "(i, s' + ws, e' + ws) \<in> set ?A"
        proof (cases "r \<le> t")
          case True
          have "t < r + (w - l)"
          proof (rule ccontr)
            assume "\<not> t < r + (w - l)"
            then have "tok_start ?J \<le> tok_start (row ?W ! t)" using row_sorted [OF W _ t(1)] by simp
            then show False using t(2) e' 2 by simp
          qed
          then have "?A ! (l + (t - r)) = tok_shift ws (row ?W ! t)"
            using run_nth [of "l + (t - r)"] True w(2) by simp
          moreover have "l + (t - r) < length ?A" using \<open>t < r + (w - l)\<close> True w wA by simp
          ultimately show ?thesis using t(2) by (metis nth_mem tok_shift_def fst_conv snd_conv)
        next
          case False
          have "tok_start (row ?W ! t) \<le> tok_start ?L" using row_sorted [OF W _ jW(2)] False by simp
          then have same: "tok_start ?L = s'" using s' t(2) by simp
          have "tok_end (row ?W ! t) = Suc s'" using row_shared [OF W _ jW(2), of t] False same t(2) by simp
          then show ?thesis using t(2) 2 by simp
        qed
        then have "(s' + ws, e' + ws) \<in> literals row added x" using i by (auto simp: literals_def)
        from literal_extends [OF x d this] obtain s2 e2 where l2: "(s2, e2) \<in> literals row added (x @ d)"
            "s2 \<le> s' + ws" "e' + ws \<le> e2" by auto
        obtain j where "j \<in> added" "(j, s2, e2) \<in> set (row (x @ d))" using literal_token [OF l2(1)] by blast
        then show False using literal_alone [OF xd lit(1), of "(j, s2, e2)"] l2 2(2,3) e' J lit(2,3)
            \<open>ws \<le> s\<close> beyond by auto
      qed
    qed
  qed
qed

section \<open>The runs align at the transition\<close>

text \<open>
  Two rows that split at the same place, \<open>J\<close> and \<open>J'\<close> being tokens that start there: as many tokens of the
  run lie before the place on both sides.
\<close>

lemma group_spans:
  assumes x: "valid_utf8 x" and sp: "splits_at row x p" "p \<le> char_count x"
    and l: "length (row (text_upto x p)) \<le> l" "l < length (row x)" "tok_start (row x ! l) = p"
    and e: "length (row (text_upto x p)) < l \<Longrightarrow> tok_end (row x ! l) = Suc p"
  shows "ordinal_of (row x) l = l - length (row (text_upto x p))"
    and "length (row (text_upto x p)) \<le> i \<Longrightarrow> i < l \<Longrightarrow> row x ! i = (tok_id (row x ! i), p, Suc p)"
proof -
  let ?k = "length (row (text_upto x p))"
  have g: "row x ! i = (tok_id (row x ! i), p, Suc p)" if "?k \<le> i" "i < l" for i
  proof -
    have "p \<le> tok_start (row x ! i)" using split_length(1) [OF x sp, of i] that l(2) by simp
    moreover have "tok_start (row x ! i) \<le> p" using row_sorted [OF x, of i l] that l by simp
    ultimately have "tok_start (row x ! i) = p" by simp
    moreover from this have "tok_end (row x ! i) = Suc p" using row_shared [OF x that(2) l(2)] l(3) by simp
    ultimately show ?thesis by (metis prod.collapse)
  qed
  then show "?k \<le> i \<Longrightarrow> i < l \<Longrightarrow> row x ! i = (tok_id (row x ! i), p, Suc p)" .
  show "ordinal_of (row x) l = l - ?k"
  proof (rule ordinal_group [OF l(1,2)])
    fix i assume i: "?k \<le> i" "i < l"
    then have "snd (row x ! l) = (p, Suc p)" using l(3) e by (metis order_le_less_trans prod.collapse)
    then show "snd (row x ! i) = snd (row x ! l)" using g [OF i] by (metis snd_conv)
  next
    fix i assume "i < ?k"
    then have "tok_start (row x ! i) < p" using split_length(1) [OF x sp, of i] l by simp
    then show "snd (row x ! i) \<noteq> snd (row x ! l)" using l(3) by auto
  qed
qed

lemma runs_align:
  assumes x: "valid_utf8 x" "splits_at row x p" "p \<le> char_count x"
    and y: "valid_utf8 y" "splits_at row y q" "q \<le> char_count y"
    and pq: "p = q + ws"
    and run: "run_of (row x) (map (tok_shift ws) (row y)) l r len"
    and w: "l \<le> w" "w < l + len" "tok_start (row x ! w) = p"
    and shared: "tok_start (row x ! l) = p \<Longrightarrow> l < w"
  defines "k \<equiv> length (row (text_upto x p))" and "k' \<equiv> length (row (text_upto y q))"
  shows "k \<le> w" "k + r = k' + l"
    and "k < l \<Longrightarrow> row x ! l = (tok_id (row x ! l), p, Suc p)"
proof -
  have len: "l + len \<le> length (row x)" "r + len \<le> length (row y)" using run by (auto simp: run_of_def)
  have nth: "row x ! i = tok_shift ws (row y ! (r + (i - l)))" if "l \<le> i" "i < l + len" for i
    using run_of_nth [OF run that] len that by simp
  note sx = split_length(1) [OF x, folded k_def] and sy = split_length(1) [OF y, folded k'_def]
  show kw: "k \<le> w" using sx [of w] w len by simp
  have wy: "r + (w - l) < length (row y)" using w len by simp
  have sw: "tok_start (row y ! (r + (w - l))) = q" using nth [OF w(1,2)] w(3) pq by simp
  have shared_end: "row x ! l = (tok_id (row x ! l), p, Suc p)" if "k \<le> l" "tok_start (row x ! l) = p"
    using row_shared [OF x(1) shared [OF that(2)]] w len that(2) by (metis order_less_le_trans prod.collapse)
  have start_l: "tok_start (row x ! l) = p" if "k \<le> l"
  proof (rule antisym)
    show "tok_start (row x ! l) \<le> p" using row_sorted [OF x(1), of l w] w len by simp
    show "p \<le> tok_start (row x ! l)" using sx [of l] that w len by simp
  qed
  show "k < l \<Longrightarrow> row x ! l = (tok_id (row x ! l), p, Suc p)" using shared_end start_l by simp
  show "k + r = k' + l"
  proof (cases "l < k")
    case True
    have "tok_start (row x ! (k - 1)) < p" using sx [of "k - 1"] True kw w len by simp
    then have "tok_start (row y ! (r + (k - 1 - l))) < q" using nth [of "k - 1"] True kw w pq by simp
    then have a: "r + (k - 1 - l) < k'" using sy [of "r + (k - 1 - l)"] True kw w len by simp
    have "p \<le> tok_start (row x ! k)" using sx [of k] kw w len by simp
    then have "q \<le> tok_start (row y ! (r + (k - l)))" using nth [of k] True kw w pq by simp
    then have "k' \<le> r + (k - l)" using sy [of "r + (k - l)"] True kw w len by linarith
    with a True show ?thesis by simp
  next
    case False
    then have kl: "k \<le> l" by simp
    have lr: "l < length (row x)" "r < length (row y)" using w len by simp_all
    have nl: "row x ! l = tok_shift ws (row y ! r)" using nth [of l] w by simp
    have sl: "tok_start (row x ! l) = p" "tok_start (row y ! r) = q" using start_l [OF kl] nl pq by simp_all
    have kr: "k' \<le> r" using sy [of r] lr sl by simp
    have ex: "tok_end (row x ! l) = Suc p" using shared_end [OF kl sl(1)] by (metis snd_conv)
    then have ey: "tok_end (row y ! r) = Suc q" using nl pq by simp
    have "ordinal_of (row x) l = l - k" unfolding k_def
      by (rule group_spans(1) [OF x _ lr(1) sl(1)]) (use kl ex k_def in auto)
    moreover have "ordinal_of (row y) r = r - k'" unfolding k'_def
      by (rule group_spans(1) [OF y _ lr(2) sl(2)]) (use kr ey k'_def in auto)
    moreover have "ordinal_of (row x) l = ordinal_of (map (tok_shift ws) (row y)) r"
      using run w unfolding run_of_def by (metis add_0_right le_add_diff_inverse nat_add_left_cancel_less not_add_less1 not_gr_zero)
    moreover have "ordinal_of (map (tok_shift ws) (row y)) r = ordinal_of (row y) r"
      using lr(2) by (simp add: ordinal_of_def take_map filter_map comp_def tok_shift_def prod_eq_iff)
    ultimately show ?thesis using kl kr by simp
  qed
qed

section \<open>The spliced row\<close>

theorem splice_row:
  assumes x: "valid_utf8 x" and d: "valid_utf8 d" and ws: "ws \<le> char_count x"
    and run: "run_of (row x) (map (tok_shift ws) (row (text_from (x @ d) ws))) l r len"
    and w: "l < w" "w < l + len" "tok_start (row x ! w) = b" and l: "ws \<le> tok_start (row x ! l)"
    and b: "0 < b" "accepts (chars (x @ d) ! (b - 1)) (chars (x @ d) ! b)"
    and cov: "l_max < cover (concat (take (tok_end (row x ! (l + len - 1)) - tok_start (row x ! l))
                                (drop (tok_start (row x ! l)) (chars x))))"
  shows "row (x @ d) = take (l + len) (row x)
    @ drop (r + len) (map (tok_shift ws) (row (text_from (x @ d) ws)))"
proof -
  let ?T = "x @ d" and ?W = "text_from (x @ d) ws"
  let ?B = "map (tok_shift ws) (row ?W)"
  have T: "valid_utf8 ?T" and W: "valid_utf8 ?W" using x d by simp_all
  have cs: "chars ?T = chars x @ chars d" using d by (rule chars_append_valid)
  have len: "l + len \<le> length (row x)" "r + len \<le> length (row ?W)" using run by (auto simp: run_of_def)
  have wA: "w < length (row x)" using w len by simp
  have bx: "b < char_count x" using row_span_nth [OF x wA] w(3) by simp
  have pair: "accepts (chars x ! (b - 1)) (chars x ! b)" using b bx by (simp add: cs nth_append less_imp_diff_less)
  have spx: "splits_at row x b" by (rule splits_at_start [OF x wA w(3) b(1) bx pair])
  have "ws \<le> b" using row_sorted [OF x _ wA, of l] w l by simp
  define q where "q = b - ws"
  have q: "b = q + ws" using \<open>ws \<le> b\<close> q_def by simp
  have jW: "r + (w - l) < length (row ?W)" using w len by simp
  have jq: "tok_start (row ?W ! (r + (w - l))) = q"
    using run_of_nth [OF run, of w] w len q by simp
  have spW: "splits_at row ?W q"
  proof (cases "q = 0")
    case True
    then show ?thesis by (simp add: splits_at_0)
  next
    case False
    have lT: "ws \<le> length (chars ?T)" "q < length (chars ?T) - ws" using ws q bx cs by simp_all
    have "chars ?W ! i = chars ?T ! (ws + i)" for i using lT(1) by simp
    then have "chars ?W ! (q - 1) = chars ?T ! (b - 1)" "chars ?W ! q = chars ?T ! b"
      using False q ws by (simp_all add: add.commute)
    then show ?thesis using splits_at_start [OF W jW jq] False bx b(2) q cs by simp
  qed
  have spT: "splits_at row ?T b"
  proof (rule ccontr)
    assume "\<not> splits_at row ?T b"
    then obtain s e where "(s, e) \<in> literals row added ?T" "s < b" "b < e"
      using sync_or_literal [OF T b(1) _ b(2)] bx cs by auto
    then show False using no_literal_across [OF x d ws run _ w(2,3) l cov] w(1) by simp
  qed
  let ?k = "length (row (text_upto x b))" and ?k' = "length (row (text_upto ?W q))"
  have "tok_start (row x ! l) = b \<Longrightarrow> l < w" using w(1) .
  note al = runs_align [OF x spx less_imp_le [OF bx] W spW _ q run less_imp_le [OF w(1)] w(2,3) w(1)]
  have kw: "?k \<le> w" and kl: "?k + r = ?k' + l" and grp: "?k < l \<Longrightarrow> row x ! l = (tok_id (row x ! l), b, Suc b)"
    using al q bx cs by simp_all
  let ?v = "text_from x b"
  have v: "valid_utf8 ?v" using x by simp
  have vW: "text_from ?W q = ?v @ d" using q bx d by (simp add: text_from_from add.commute text_from_append)
  have vT: "text_from ?T b = ?v @ d" "text_upto ?T b = text_upto x b" using bx d by (simp_all add: text_from_append text_upto_append)
  have rx: "row x = row (text_upto x b) @ map (tok_shift b) (row ?v)" using spx by (simp add: splits_at_def)
  have rT: "row ?T = row (text_upto x b) @ map (tok_shift b) (row (?v @ d))" using spT vT by (simp add: splits_at_def)
  have rB: "?B = map (tok_shift ws) (row (text_upto ?W q)) @ map (tok_shift b) (row (?v @ d))"
    using spW vW q by (simp add: splits_at_def comp_def)
  define n where "n = l + len - ?k"
  have n: "?k + n = l + len" "?k' + n = r + len" using kw w kl by (simp_all add: n_def)
  have xk: "row x ! (?k + i) = tok_shift b (row ?v ! i)" if "i < length (row ?v)" for i
    using that by (subst rx) (simp add: nth_append)
  have Bk: "?B ! (?k' + i) = tok_shift b (row (?v @ d) ! i)" if "i < length (row (?v @ d))" for i
    using that by (subst rB) (simp add: nth_append)
  have lv: "length (row x) = ?k + length (row ?v)" and lv': "length (row ?W) = ?k' + length (row (?v @ d))"
    using arg_cong [OF rx, of length] arg_cong [OF rB, of length] by simp_all
  have "take n (drop ?k (row x)) = take n (drop ?k' ?B)"
  proof (rule nth_equalityI)
    show "length (take n (drop ?k (row x))) = length (take n (drop ?k' ?B))" using n len by simp
    fix i assume "i < length (take n (drop ?k (row x)))"
    then have i: "i < n" by simp
    have "row x ! (?k + i) = ?B ! (?k' + i)"
    proof (cases "l \<le> ?k + i")
      case True
      have "r + (?k + i - l) = ?k' + i" using True kl by linarith
      moreover have "?k + i < l + len" using i n by linarith
      ultimately show ?thesis using run_of_nth [OF run True] by simp
    next
      case False
      let ?j = "l - ?k"
      have kl': "?k < l" using False by simp
      have j: "?j < length (row ?v)" "?j < length (row (?v @ d))" using len w n lv lv' kl kl' by simp_all
      have jk: "?k + ?j = l" "?k' + ?j = r" using kl kl' by linarith+
      have eq: "row x ! l = ?B ! r" using run_of_nth [OF run, of l] w by simp
      have "tok_shift b (row ?v ! ?j) = tok_shift b (row (?v @ d) ! ?j)"
        using xk [OF j(1)] Bk [OF j(2)] eq jk by simp
      then have same: "row ?v ! ?j = row (?v @ d) ! ?j" by simp
      have "tok_shift b (row ?v ! ?j) = (tok_id (row x ! l), b, Suc b)" using xk [OF j(1)] grp [OF kl'] kl' by simp
      then have "tok_start (row ?v ! ?j) = 0" "tok_end (row ?v ! ?j) = 1"
        by (simp_all add: tok_shift_def)
      from char_group [OF v d j same this] have "take ?j (row ?v) = take ?j (row (?v @ d))" .
      moreover have "i < ?j" using False kl' by simp
      ultimately have "row ?v ! i = row (?v @ d) ! i" by (metis nth_take)
      then show ?thesis using xk Bk \<open>i < ?j\<close> j by simp
    qed
    then show "take n (drop ?k (row x)) ! i = take n (drop ?k' ?B) ! i" using i n len by simp
  qed
  moreover have "row ?T = take ?k (row x) @ drop ?k' ?B"
  proof -
    have "take ?k (row x) = row (text_upto x b)" by (subst rx) simp
    moreover have "drop ?k' ?B = map (tok_shift b) (row (?v @ d))" by (subst rB) simp
    ultimately show ?thesis using rT by simp
  qed
  moreover have "drop ?k' ?B = take n (drop ?k' ?B) @ drop (r + len) ?B" 
    unfolding n(2) [symmetric] by (simp only: drop_drop [symmetric] append_take_drop_id add.commute [of ?k' n])
  moreover have "take (l + len) (row x) = take ?k (row x) @ take n (drop ?k (row x))" 
    unfolding n(1) [symmetric] by (rule take_add)
  ultimately show ?thesis by (simp only: append_assoc)
qed

end

end
