(* ===== verification/RepairProps.thy ===== *)
theory RepairProps
  imports BpeSplice
begin

text \<open>
  What the alignment of the repair finds: a match is a run of tokens that agree in id, span and ordinal,
  inside the region both rows are compared in, and an accepted one holds a synchronizing transition.
\<close>

section \<open>Records\<close>

lemma build_records_loop_props:
  assumes "r \<in> set (build_records_loop base lo hi k rows ords)"
  shows "\<exists>j < length rows. rec_index r = k + j
     \<and> (rec_id r, rec_start r, rec_end r) = tok_shift base (rows ! j)
     \<and> rec_ordinal r = ords (rec_start r, rec_end r)
         + length (filter (\<lambda>t. snd t = (rec_start r, rec_end r)) (take j (map (tok_shift base) rows)))
     \<and> lo \<le> rec_start r \<and> rec_end r \<le> hi"
  using assms
proof (induction rows arbitrary: k ords)
  case Nil
  then show ?case by simp
next
  case (Cons row rows)
  obtain tid s e where row: "row = (tid, s, e)" by (cases row)
  let ?S = "base + s" and ?E = "base + e"
  have sh: "tok_shift base row = (tid, ?S, ?E)" using row by (simp add: tok_shift_def add.commute)
  show ?case
  proof (cases "?S = ?E \<or> ?S < lo \<or> ?E > hi")
    case True
    then have "r \<in> set (build_records_loop base lo hi (Suc k) rows ords)" using Cons.prems row by (simp add: Let_def)
    from Cons.IH [OF this] obtain j where j: "j < length rows" "rec_index r = Suc k + j"
      "(rec_id r, rec_start r, rec_end r) = tok_shift base (rows ! j)" "lo \<le> rec_start r" "rec_end r \<le> hi"
      "rec_ordinal r = ords (rec_start r, rec_end r)
         + length (filter (\<lambda>t. snd t = (rec_start r, rec_end r)) (take j (map (tok_shift base) rows)))" by blast
    have st: "rec_start r < rec_end r \<or> True" by simp
    have "rec_start r \<noteq> rec_end r"
    proof -
      have "r \<in> set (build_records_loop base lo hi (Suc k) rows ords) \<Longrightarrow> rec_start r \<noteq> rec_end r" for k rows ords
        by (induction rows arbitrary: k ords) (auto simp: Let_def split: if_splits)
      then show ?thesis using \<open>r \<in> set (build_records_loop base lo hi (Suc k) rows ords)\<close> .
    qed
    then have "(?S, ?E) \<noteq> (rec_start r, rec_end r)" using True j(4,5) by auto
    then show ?thesis using j sh by (intro exI [of _ "Suc j"]) auto
  next
    case False
    then consider "r = \<lparr>rec_index = k, rec_start = ?S, rec_end = ?E, rec_id = tid, rec_ordinal = ords (?S, ?E)\<rparr>"
      | "r \<in> set (build_records_loop base lo hi (Suc k) rows (ords((?S, ?E) := Suc (ords (?S, ?E)))))"
      using Cons.prems row by (auto simp: Let_def)
    then show ?thesis
    proof cases
      case 1
      then show ?thesis using False sh by (intro exI [of _ 0]) auto
    next
      case 2
      from Cons.IH [OF this] obtain j where j: "j < length rows" "rec_index r = Suc k + j"
        "(rec_id r, rec_start r, rec_end r) = tok_shift base (rows ! j)" "lo \<le> rec_start r" "rec_end r \<le> hi"
        "rec_ordinal r = (ords((?S, ?E) := Suc (ords (?S, ?E)))) (rec_start r, rec_end r)
           + length (filter (\<lambda>t. snd t = (rec_start r, rec_end r)) (take j (map (tok_shift base) rows)))" by blast
      then show ?thesis using sh by (intro exI [of _ "Suc j"]) auto
    qed
  qed
qed

lemma build_records_props:
  assumes "build_records ids spans base lo hi = Ok recs" "r \<in> set recs"
  shows "rec_index r < length ids" "length ids = length spans"
    "map (tok_shift base) (zip ids spans) ! rec_index r = (rec_id r, rec_start r, rec_end r)"
    "rec_ordinal r = ordinal_of (map (tok_shift base) (zip ids spans)) (rec_index r)"
    "lo \<le> rec_start r" "rec_end r \<le> hi"
proof -
  have len: "length ids = length spans" and recs: "recs = build_records_loop base lo hi 0 (zip ids spans) (\<lambda>_. 0)"
    using assms(1) by (auto simp: build_records_def split: if_splits)
  obtain j where j: "j < length (zip ids spans)" "rec_index r = j"
    "(rec_id r, rec_start r, rec_end r) = tok_shift base (zip ids spans ! j)" "lo \<le> rec_start r" "rec_end r \<le> hi"
    "rec_ordinal r = length (filter (\<lambda>t. snd t = (rec_start r, rec_end r)) (take j (map (tok_shift base) (zip ids spans))))"
    using build_records_loop_props [OF assms(2) [unfolded recs]] by auto
  show "rec_index r < length ids" "length ids = length spans" "lo \<le> rec_start r" "rec_end r \<le> hi" using j len by simp_all
  show m: "map (tok_shift base) (zip ids spans) ! rec_index r = (rec_id r, rec_start r, rec_end r)"
    using j by simp
  show "rec_ordinal r = ordinal_of (map (tok_shift base) (zip ids spans)) (rec_index r)"
    unfolding ordinal_of_def m using j(2,6) by simp
qed

section \<open>Matches\<close>

definition aligned :: "token_record list \<Rightarrow> token_record list \<Rightarrow> nat \<Rightarrow> nat \<Rightarrow> nat \<Rightarrow> bool" where
  "aligned left right li ri len \<longleftrightarrow> 0 < len \<and> li + len \<le> length left \<and> ri + len \<le> length right
     \<and> (\<forall>i < len. rec_index (left ! (li + i)) = rec_index (left ! li) + i
          \<and> rec_index (right ! (ri + i)) = rec_index (right ! ri) + i
          \<and> record_key_of (left ! (li + i)) = record_key_of (right ! (ri + i)))"

lemma extend_run_aligned:
  "aligned left right li ri len \<Longrightarrow> extend_run left right li ri len covered = (n, c) \<Longrightarrow> aligned left right li ri n"
proof (induction left right li ri len covered rule: extend_run.induct)
  case (1 left right li ri len covered)
  let ?ext = "li + len < length left \<and> ri + len < length right
    \<and> rec_index (left ! (li + len)) = rec_index (left ! li) + len
    \<and> rec_index (right ! (ri + len)) = rec_index (right ! ri) + len
    \<and> record_key_of (left ! (li + len)) = record_key_of (right ! (ri + len))"
  show ?case
  proof (cases ?ext)
    case True
    have "aligned left right li ri (Suc len)"
      using "1.prems"(1) True by (auto simp: aligned_def less_Suc_eq)
    moreover have "extend_run left right li ri (Suc len) (insert (li + len, ri + len) covered) = (n, c)"
      using "1.prems"(2) True by (subst (asm) extend_run.simps) simp
    ultimately show ?thesis using "1.IH" [OF True] by blast
  next
    case False
    then have "extend_run left right li ri len covered = (len, covered)"
      by (subst extend_run.simps) (simp only: False if_False)
    then show ?thesis using "1.prems" by simp
  qed
qed

lemma index_right_mem:
  "ri \<in> set (index_right right key) \<Longrightarrow> ri < length right \<and> record_key_of (right ! ri) = key"
proof -
  have "ri \<in> set (fold (\<lambda>(i, r) m. m(record_key_of r := m (record_key_of r) @ [i])) (enumerate n rs) m key) \<Longrightarrow>
      ri \<in> set (m key) \<or> (n \<le> ri \<and> ri - n < length rs \<and> record_key_of (rs ! (ri - n)) = key)" for n rs m
  proof (induction rs arbitrary: n m)
    case (Cons r rs)
    show ?case
    proof (cases "n \<le> ri \<and> ri - n < length (r # rs) \<and> record_key_of ((r # rs) ! (ri - n)) = key")
      case False
      have "ri \<in> set ((m(record_key_of r := m (record_key_of r) @ [n])) key)
          \<or> (Suc n \<le> ri \<and> ri - Suc n < length rs \<and> record_key_of (rs ! (ri - Suc n)) = key)"
        using Cons.prems by (intro Cons.IH) simp
      then show ?thesis
      proof
        assume "ri \<in> set ((m(record_key_of r := m (record_key_of r) @ [n])) key)"
        then show ?thesis using False by (auto split: if_splits)
      next
        assume a: "Suc n \<le> ri \<and> ri - Suc n < length rs \<and> record_key_of (rs ! (ri - Suc n)) = key"
        then have "ri - n = Suc (ri - Suc n)" by (auto simp: Suc_diff_le)
        then show ?thesis using a by simp
      qed
    qed simp
  qed simp
  then show "ri \<in> set (index_right right key) \<Longrightarrow> ri < length right \<and> record_key_of (right ! ri) = key"
    by (fastforce simp: index_right_def)
qed

definition found_ok :: "token_record list \<Rightarrow> token_record list \<Rightarrow> token_match option \<Rightarrow> bool" where
  "found_ok left right best \<longleftrightarrow>
     (\<forall>m. best = Some m \<longrightarrow> (\<exists>li ri len. aligned left right li ri len \<and> m = candidate left right li ri len))"

lemma fold_invariant: "P s \<Longrightarrow> (\<And>x s. x \<in> set xs \<Longrightarrow> P s \<Longrightarrow> P (f x s)) \<Longrightarrow> P (fold f xs s)"
  by (induction xs arbitrary: s) simp_all

lemma match_at_ok:
  assumes "li < length left" "ri < length right" "record_key_of (left ! li) = record_key_of (right ! ri)"
    "found_ok left right (fst s)"
  shows "found_ok left right (fst (match_at left right li ri s))"
proof (cases "(li, ri) \<in> snd s")
  case True
  then show ?thesis using assms(4) by (auto simp: match_at_def split: prod.splits)
next
  case False
  obtain best covered where s: "s = (best, covered)" by (cases s)
  obtain len c where ext: "extend_run left right li ri 1 covered = (len, c)" by fastforce
  have "aligned left right li ri 1" using assms(1-3) by (simp add: aligned_def)
  then have "aligned left right li ri len" using extend_run_aligned ext by blast
  then show ?thesis using False s assms(4) ext
    by (auto simp: match_at_def found_ok_def better_def split: option.splits if_splits)
qed

lemma find_match_aligned:
  assumes "find_match left right = Some m"
  shows "\<exists>li ri len. aligned left right li ri len \<and> m = candidate left right li ri len"
proof -
  have "found_ok left right (find_match left right)"
    unfolding find_match_def Let_def
  proof (rule fold_invariant [where P = "\<lambda>s. found_ok left right (fst s)"])
    show "found_ok left right (fst (None, {}))" by (simp add: found_ok_def)
    fix li s assume li: "li \<in> set [0..<length left]" and s: "found_ok left right (fst (s :: match_state))"
    show "found_ok left right (fst (fold (match_at left right li) (index_right right (record_key_of (left ! li))) s))"
    proof (rule fold_invariant [where P = "\<lambda>s. found_ok left right (fst s)", OF s])
      fix ri s' assume "ri \<in> set (index_right right (record_key_of (left ! li)))" "found_ok left right (fst (s' :: match_state))"
      then show "found_ok left right (fst (match_at left right li ri s'))"
        using index_right_mem [of ri right] li by (intro match_at_ok) auto
    qed
  qed
  then show ?thesis using assms by (simp add: found_ok_def)
qed

text \<open>A match as a run of the two token rows.\<close>

lemma match_run:
  assumes L: "build_records ids spans 0 lo hi = Ok left" and R: "build_records wids wspans base lo hi = Ok right"
    and m: "find_match left right = Some m"
  shows "run_of (zip ids spans) (map (tok_shift base) (zip wids wspans)) (mt_left m) (mt_right m) (mt_length m)"
    and "0 < mt_length m" "lo \<le> tok_start (zip ids spans ! mt_left m)"
    and "mt_covered m = tok_end (zip ids spans ! (mt_left m + mt_length m - 1)) - tok_start (zip ids spans ! mt_left m)"
proof -
  let ?A = "zip ids spans" and ?B = "map (tok_shift base) (zip wids wspans)"
  obtain li ri len where al: "aligned left right li ri len" and mc: "m = candidate left right li ri len"
    using find_match_aligned [OF m] by blast
  have m_eq: "mt_left m = rec_index (left ! li)" "mt_right m = rec_index (right ! ri)" "mt_length m = len"
    "mt_covered m = rec_end (left ! (li + len - 1)) - rec_start (left ! li)"
    using mc by (simp_all add: candidate_def)
  have zero: "map (tok_shift 0) ?A = ?A" by (simp add: tok_shift_def map_idI)
  note lp = build_records_props [OF L, unfolded zero] and rp = build_records_props [OF R]
  have at: "rec_index (left ! (li + i)) = mt_left m + i" "rec_index (right ! (ri + i)) = mt_right m + i"
    "record_key_of (left ! (li + i)) = record_key_of (right ! (ri + i))"
    "left ! (li + i) \<in> set left" "right ! (ri + i) \<in> set right" if "i < len" for i
    using al that m_eq by (auto simp: aligned_def)
  have lA: "mt_left m + i < length ids" "length ids = length spans"
    "?A ! (mt_left m + i) = (rec_id (left ! (li + i)), rec_start (left ! (li + i)), rec_end (left ! (li + i)))"
    "ordinal_of ?A (mt_left m + i) = rec_ordinal (left ! (li + i))" if "i < len" for i
    using lp [OF at(4) [OF that]] at(1) [OF that] by simp_all
  have rB: "mt_right m + i < length wids" "length wids = length wspans"
    "?B ! (mt_right m + i) = (rec_id (right ! (ri + i)), rec_start (right ! (ri + i)), rec_end (right ! (ri + i)))"
    "ordinal_of ?B (mt_right m + i) = rec_ordinal (right ! (ri + i))" if "i < len" for i
    using rp [OF at(5) [OF that]] at(2) [OF that] by simp_all
  have len: "0 < len" using al by (simp add: aligned_def)
  have "mt_left m + len \<le> length ?A" "mt_right m + len \<le> length ?B"
    using lA [of "len - 1"] rB [of "len - 1"] len by auto
  moreover have "?A ! (mt_left m + i) = ?B ! (mt_right m + i)
      \<and> ordinal_of ?A (mt_left m + i) = ordinal_of ?B (mt_right m + i)" if "i < len" for i
    using lA(3,4) [OF that] rB(3,4) [OF that] at(3) [OF that] by (simp add: record_key_of_def)
  ultimately show "run_of ?A ?B (mt_left m) (mt_right m) (mt_length m)" by (simp add: run_of_def m_eq(3))
  show "0 < mt_length m" using len m_eq by simp
  show "lo \<le> tok_start (?A ! mt_left m)" using lA(3) [OF len] lp(5) [OF at(4) [OF len]] by simp
  show "mt_covered m = tok_end (?A ! (mt_left m + mt_length m - 1)) - tok_start (?A ! mt_left m)"
    using lA(3) [OF len] lA(3) [of "len - 1"] len m_eq by simp
qed

lemma sync_witness_loop_true:
  "sync_witness_loop b cs spans index n = Ok True \<Longrightarrow>
     \<exists>i. index \<le> i \<and> i < index + n \<and> i + 1 < length spans \<and> 0 < fst (spans ! (i + 1)) \<and> fst (spans ! (i + 1)) < length cs
       \<and> sync_accepts b (cs ! (fst (spans ! (i + 1)) - 1)) (cs ! fst (spans ! (i + 1)))"
proof (induction n arbitrary: index)
  case (Suc n)
  have "index + 1 < length spans" using Suc.prems by (auto simp: rbind_eq_Ok)
  moreover obtain p q where "spans ! (index + 1) = (p, q)" by fastforce
  ultimately have pq: "index + 1 < length spans" "spans ! (index + 1) = (p, q)" .
  show ?case
  proof (cases "0 < p \<and> p < length cs \<and> sync_accepts b (cs ! (p - 1)) (cs ! p)")
    case True
    then show ?thesis using pq by (intro exI [of _ index]) simp
  next
    case False
    then have "sync_witness_loop b cs spans (index + 1) n = Ok True"
      using Suc.prems pq by (auto simp: rbind_eq_Ok split: if_splits)
    from Suc.IH [OF this] obtain i where i: "index + 1 \<le> i" "i < index + 1 + n" "i + 1 < length spans"
      "0 < fst (spans ! (i + 1))" "fst (spans ! (i + 1)) < length cs"
      "sync_accepts b (cs ! (fst (spans ! (i + 1)) - 1)) (cs ! fst (spans ! (i + 1)))" by blast
    then show ?thesis by (intro exI [of _ i]) auto
  qed
qed simp

end
