(* ===== verification/BridgeProps.thy ===== *)
theory BridgeProps
  imports Bridge
begin

text \<open>
  The two bridges return the same spans and the same errors on every row; they accept what the
  closure check accepts, and their spans are those a lazily filled tail rebuilds window by window.
\<close>

section \<open>Intervals of a closing row\<close>

lemma byte_bounds_Cons:
  "byte_bounds table c (t # ids) = Ok (bs, n) \<longleftrightarrow>
     (\<exists>d rest. advance table c t = Ok d \<and> byte_bounds table d ids = Ok (rest, n) \<and> bs = (c, d) # rest)"
  by (auto simp: rbind_eq_Ok)

lemma byte_bounds_final: "byte_bounds table c ids = Ok (bs, n) \<Longrightarrow> c \<le> n"
  by (induction ids arbitrary: c bs) (fastforce simp: rbind_eq_Ok advance_Ok)+

lemma byte_bounds_range:
  "byte_bounds table c ids = Ok (bs, n) \<Longrightarrow> b \<in> set bs \<Longrightarrow> fst b < snd b \<and> snd b \<le> n"
proof (induction ids arbitrary: c bs)
  case (Cons t ids)
  from Cons.prems(1) obtain d rest where d: "advance table c t = Ok d" "byte_bounds table d ids = Ok (rest, n)"
    "bs = (c, d) # rest"
    unfolding byte_bounds_Cons by blast
  with Cons.IH [OF d(2)] Cons.prems(2) byte_bounds_final [OF d(2)] show ?case by (auto simp: advance_Ok)
qed simp

lemma byte_bounds_naive:
  "byte_bounds table c ids = Ok (bs, n) \<Longrightarrow>
     naive_from text table c ids =
       (map (\<lambda>b. char_of_byte text ! fst b) bs, map (\<lambda>b. Suc (char_of_byte text ! (snd b - 1))) bs)"
proof (induction ids arbitrary: c bs)
  case (Cons t ids)
  then show ?case by (auto simp: byte_bounds_Cons advance_Ok Let_def simp del: byte_bounds.simps)
qed simp

lemma length_char_of_byte [simp]: "length (char_of_byte text) = length text"
proof -
  have "length (concat (map (\<lambda>(i, c). replicate (length c) i) (enumerate k cs))) = length (concat cs)" for k and cs :: "str list"
    by (induction cs arbitrary: k) simp_all
  then show ?thesis by (simp add: char_of_byte_def)
qed

lemma char_of_byte_less: "b < length text \<Longrightarrow> char_of_byte text ! b < char_count text"
  using char_at_exists [of b "text"] by (auto simp: char_of_byte_at char_at_def)

section \<open>Conversion of an interval\<close>

definition char_pair :: "str \<Rightarrow> nat \<times> nat \<Rightarrow> (string, nat \<times> nat) outcome" where
  "char_pair text b = u32_pair (char_of_byte text ! fst b) (Suc (char_of_byte text ! (snd b - 1)))"

lemma unicode_pair_eq:
  "fst b < snd b \<Longrightarrow> snd b \<le> length text \<Longrightarrow> length text \<le> u64_max \<Longrightarrow>
     unicode_pair (char_of_byte text) b = char_pair text b"
proof -
  assume b: "fst b < snd b" "snd b \<le> length text" "length text \<le> u64_max"
  have in_range: "snd b - 1 < length text" using b by linarith
  then have "char_of_byte text ! (snd b - 1) < length text"
    using char_of_byte_less [of "snd b - 1" "text"] char_count_le [of "text"] by simp
  then have "Suc (char_of_byte text ! (snd b - 1)) \<le> u64_max" using b(3) by simp
  then show ?thesis
    using b in_range by (simp add: unicode_pair_def nth_opt_def end_char_def checked_add64_def char_pair_def)
qed

lemma ascii_chars: "str_is_ascii text \<Longrightarrow> length text = char_count text"
proof (induction "text" rule: chars.induct)
  case (2 b bs)
  have "\<not> is_cont c" if "c \<in> set bs" for c
    using 2(2) that by (auto simp: str_is_ascii_def list_all_iff is_cont_unat word_less_nat_alt)
  then have "takeWhile is_cont bs = []" "dropWhile is_cont bs = bs"
    by (cases bs; simp)+
  with 2 show ?case by (simp add: str_is_ascii_def)
qed simp

lemma ascii_pair_eq:
  "str_is_ascii text \<Longrightarrow> fst b < snd b \<Longrightarrow> snd b \<le> length text \<Longrightarrow> u32_pair (fst b) (snd b) = char_pair text b"
  using char_of_byte_at [OF char_at_ascii [OF ascii_chars]] by (simp add: char_pair_def)

lemma u32_pair_no_panic [simp]: "u32_pair s e \<noteq> Panic"
  by (simp add: u32_pair_def to_u32_def rbind_eq_Panic)

lemma char_pair_no_panic [simp]: "char_pair text b \<noteq> Panic"
  by (simp add: char_pair_def)

lemma try_map_cong: "(\<And>x. x \<in> set xs \<Longrightarrow> f x = g x) \<Longrightarrow> try_map f xs = try_map g xs"
  by (induction xs) simp_all

lemma pair_bridge:
  "spans_from_ids ids table text =
     (if ids = [] then (if text = [] then Ok [] else Err no_ids_for_text)
      else rbind (byte_bounds table 0 ids) (\<lambda>(bounds, n).
        if n \<noteq> length text then Err (closure_mismatch n (length text))
        else try_map (char_pair text) bounds))"
proof (cases "ids \<noteq> [] \<and> (\<exists>bs. byte_bounds table 0 ids = Ok (bs, length text))")
  case True
  then obtain bs where bs: "byte_bounds table 0 ids = Ok (bs, length text)" by blast
  have "\<exists>c. close_cursor table 0 ids = Ok c"
    using bs byte_bounds_of_close(1) close_cursor_no_panic by (metis outcome.exhaust outcome.distinct(1))
  then obtain c where "close_cursor table 0 ids = Ok c" by blast
  with bs byte_bounds_of_close(2) have "close_cursor table 0 ids = Ok (length text)" by fastforce
  then have le: "length text \<le> u64_max" using True by (simp add: close_cursor_Ok)
  note r = byte_bounds_range [OF bs]
  have "try_map (\<lambda>(s, e). u32_pair s e) bs = try_map (char_pair text) bs" if "str_is_ascii text"
    by (rule try_map_cong) (use ascii_pair_eq that r in \<open>auto simp: case_prod_beta\<close>)
  moreover have "try_map (unicode_pair (char_of_byte text)) bs = try_map (char_pair text) bs"
    by (rule try_map_cong) (use unicode_pair_eq le r in blast)
  ultimately show ?thesis using True bs by (simp add: spans_from_ids_def)
next
  case False
  then show ?thesis by (cases "byte_bounds table 0 ids") (auto simp: spans_from_ids_def)
qed

section \<open>The one-pass loops\<close>

fun push_all :: "(nat \<times> nat \<Rightarrow> (string, nat \<times> nat) outcome) \<Rightarrow> (nat \<times> nat) list \<Rightarrow> soa_state \<Rightarrow> soa_state" where
  "push_all f [] st = st"
| "push_all f (b # bs) st = push_all f bs (if so_deferred st = None then soa_push st (f b) else st)"

lemma soa_push_byte [simp]:
  "so_byte (soa_push st r) = so_byte st"
  "soa_push (st\<lparr>so_byte := n\<rparr>) r = soa_push st r\<lparr>so_byte := n\<rparr>"
  by (auto simp: soa_push_def split: outcome.splits)

lemma push_all_byte: "push_all f bs (st\<lparr>so_byte := n\<rparr>) = push_all f bs st\<lparr>so_byte := n\<rparr>"
  by (induction bs arbitrary: st) simp_all

lemma push_all_deferred: "so_deferred st = Some m \<Longrightarrow> push_all f bs st = st"
  by (induction bs) simp_all

lemma push_all_cong: "(\<And>b. b \<in> set bs \<Longrightarrow> f b = g b) \<Longrightarrow> push_all f bs st = push_all g bs st"
  by (induction bs arbitrary: st) simp_all

lemma push_all_finish:
  assumes "\<And>b. f b \<noteq> Panic"
  shows "so_deferred st = None \<Longrightarrow>
    soa_finish n (push_all f bs st\<lparr>so_byte := n\<rparr>) =
      rbind (try_map f bs) (\<lambda>ps. Ok (so_starts st @ map fst ps, so_ends st @ map snd ps))"
proof (induction bs arbitrary: st)
  case Nil
  then show ?case by (simp add: soa_finish_def)
next
  case (Cons b bs)
  show ?case
  proof (cases "f b")
    case (Ok p)
    then obtain s e where "f b = Ok (s, e)" by (cases p) simp
    then show ?thesis using Cons.prems Cons.IH [of "soa_push st (f b)"]
      by (cases "try_map f bs") (simp_all add: soa_push_def)
  next
    case (Err m)
    then show ?thesis using Cons.prems push_all_deferred [of "soa_push st (f b)" m]
      by (simp add: soa_push_def soa_finish_def)
  qed (use assms in simp)
qed

lemma ascii_soa_eq:
  "ascii_soa table ids st =
     rbind (byte_bounds table (so_byte st) ids) (\<lambda>(bs, n). Ok (push_all (\<lambda>(s, e). u32_pair s e) bs st\<lparr>so_byte := n\<rparr>))"
proof (induction ids arbitrary: st)
  case (Cons t ids)
  show ?case
  proof (cases "advance table (so_byte st) t")
    case (Ok d)
    then show ?thesis
      by (cases "byte_bounds table d ids") (auto simp: Cons push_all_byte Let_def)
  qed simp_all
qed simp

lemma unicode_soa_close:
  "close_cursor table (so_byte st) ids = Err m \<Longrightarrow> unicode_soa table ids c st = Err m"
  "close_cursor table (so_byte st) ids = Ok n \<Longrightarrow> \<exists>st'. unicode_soa table ids c st = Ok st' \<and> so_byte st' = n"
proof (induction ids arbitrary: c st)
  case Nil
  {
    case 1
    then show ?case by simp
  next
    case 2
    then show ?case by simp
  }
next
  case (Cons t ids)
  {
    case 1
    then show ?case using Cons(1) by (cases "advance table (so_byte st) t") (auto simp: Let_def split: prod.splits)
  next
    case 2
    then show ?case using Cons(2) by (cases "advance table (so_byte st) t") (auto simp: Let_def split: prod.splits)
  }
qed

lemma push_unicode_span_eq:
  assumes "cursor_at text c k" "char_off text k \<le> s" "s < e" "e \<le> length text" "length text \<le> u64_max"
  shows "\<exists>c' k'. push_unicode_span c s e = (c', char_pair text (s, e))
    \<and> cursor_at text c' k' \<and> char_off text k' \<le> e"
proof -
  obtain c1 n where c1: "char_containing c s = (c1, Some n)" "cursor_at text c1 n" "char_at text s n"
    using char_containing_finds [OF assms(1,2)] assms(3,4) by auto
  have "char_off text n \<le> e - 1" "e - 1 < length text" using c1(3) assms(3,4) by (auto simp: char_at_def)
  from char_containing_finds [OF c1(2) this]
  obtain c2 m where c2: "char_containing c1 (e - 1) = (c2, Some m)" "cursor_at text c2 m"
    "char_at text (e - 1) m" by blast
  have "m < length text" using c2(3) char_count_le [of "text"] by (simp add: char_at_def)
  then have "Suc m \<le> u64_max" using assms(5) by simp
  moreover have "char_off text m \<le> e" using c2(3) by (auto simp: char_at_def)
  ultimately show ?thesis
    using c1 c2 char_of_byte_at [OF c1(3)] char_of_byte_at [OF c2(3)]
    by (auto simp: push_unicode_span_def end_char_def checked_add64_def char_pair_def)
qed

lemma unicode_soa_eq:
  assumes "length text \<le> u64_max"
  shows "byte_bounds table (so_byte st) ids = Ok (bs, n) \<Longrightarrow> n \<le> length text \<Longrightarrow>
    ids \<noteq> [] \<and> so_deferred st = None \<longrightarrow> (\<exists>k. cursor_at text c k \<and> char_off text k \<le> so_byte st) \<Longrightarrow>
    unicode_soa table ids c st = Ok (push_all (char_pair text) bs st\<lparr>so_byte := n\<rparr>)"
proof (induction ids arbitrary: c st bs)
  case Nil
  then show ?case by simp
next
  case (Cons t ids)
  from Cons.prems(1) obtain d rest where d: "advance table (so_byte st) t = Ok d"
    and rest: "byte_bounds table d ids = Ok (rest, n)" and bs: "bs = (so_byte st, d) # rest"
    by (auto simp: byte_bounds_Cons simp del: byte_bounds.simps)
  have lt: "so_byte st < d" "d \<le> length text"
    using d byte_bounds_final [OF rest] Cons.prems(2) by (auto simp: advance_Ok)
  show ?case
  proof (cases "so_deferred st")
    case None
    with Cons.prems(3) obtain k where k: "cursor_at text c k" "char_off text k \<le> so_byte st" by auto
    from push_unicode_span_eq [OF k lt assms]
    obtain c' k' where c': "push_unicode_span c (so_byte st) d = (c', char_pair text (so_byte st, d))"
      "cursor_at text c' k'" "char_off text k' \<le> d" by blast
    have "unicode_soa table ids c' (soa_push st (char_pair text (so_byte st, d))\<lparr>so_byte := d\<rparr>)
        = Ok (push_all (char_pair text) rest (soa_push st (char_pair text (so_byte st, d))\<lparr>so_byte := d\<rparr>)\<lparr>so_byte := n\<rparr>)"
      by (rule Cons.IH) (use rest Cons.prems(2) c' in auto)
    then show ?thesis using None d bs c'(1) by (simp add: push_all_byte)
  next
    case (Some m)
    have "unicode_soa table ids c (st\<lparr>so_byte := d\<rparr>) = Ok (push_all (char_pair text) rest (st\<lparr>so_byte := d\<rparr>)\<lparr>so_byte := n\<rparr>)"
      by (rule Cons.IH) (use rest Cons.prems(2) Some in auto)
    then show ?thesis using Some d bs by (simp add: push_all_byte)
  qed
qed

lemma bridge_cursor_start: "text \<noteq> [] \<Longrightarrow> cursor_at text (bridge_cursor_new text) 0"
  using char_indices_Cons [of "text"] by (auto simp: bridge_cursor_new_def cursor_at_def)

section \<open>Agreement\<close>

lemma soa_bridge:
  "spans_soa_from_ids ids table text =
     (if ids = [] then (if text = [] then Ok ([], []) else Err no_ids_for_text)
      else rbind (byte_bounds table 0 ids) (\<lambda>(bounds, n).
        if n \<noteq> length text then Err (closure_mismatch n (length text))
        else rbind (try_map (char_pair text) bounds) (\<lambda>ps. Ok (map fst ps, map snd ps))))"
proof (cases "ids = []")
  case True
  then show ?thesis by (simp add: spans_soa_from_ids_def)
next
  case ne: False
  show ?thesis
  proof (cases "close_cursor table 0 ids")
    case (Err m)
    then show ?thesis
      using ne unicode_soa_close(1) [of table soa_new ids m] byte_bounds_of_close(1) [OF Err]
      by (simp add: spans_soa_from_ids_def ascii_spans_soa_def unicode_spans_soa_def ascii_soa_eq) (simp add: soa_new_def)
  next
    case (Ok n)
    obtain bs where bs: "byte_bounds table 0 ids = Ok (bs, n)" using byte_bounds_of_close(2) [OF Ok] by blast
    show ?thesis
    proof (cases "n = length text")
      case False
      then show ?thesis
        using ne bs Ok unicode_soa_close(2) [of table soa_new ids n "bridge_cursor_new text"]
        by (auto simp: spans_soa_from_ids_def ascii_spans_soa_def unicode_spans_soa_def ascii_soa_eq
            soa_finish_def soa_new_def)
    next
      case n: True
      then have le: "length text \<le> u64_max" and "0 < n" using Ok ne by (auto simp: close_cursor_Ok neq_Nil_conv)
      then have t: "text \<noteq> []" using n by auto
      note r = byte_bounds_range [OF bs]
      have fin: "soa_finish n (push_all (char_pair text) bs soa_new\<lparr>so_byte := n\<rparr>)
          = rbind (try_map (char_pair text) bs) (\<lambda>ps. Ok (map fst ps, map snd ps))"
        using push_all_finish [of "char_pair text" soa_new n bs] by (simp add: soa_new_def)
      have "ascii_spans_soa ids table n = rbind (try_map (char_pair text) bs) (\<lambda>ps. Ok (map fst ps, map snd ps))"
        if "str_is_ascii text"
      proof -
        have "push_all (\<lambda>(s, e). u32_pair s e) bs soa_new = push_all (char_pair text) bs soa_new"
          by (rule push_all_cong) (use ascii_pair_eq that r n in \<open>auto simp: case_prod_beta\<close>)
        then show ?thesis using fin bs by (simp add: ascii_spans_soa_def ascii_soa_eq) (simp add: soa_new_def)
      qed
      moreover have "unicode_spans_soa ids table text
          = rbind (try_map (char_pair text) bs) (\<lambda>ps. Ok (map fst ps, map snd ps))"
      proof -
        have "unicode_soa table ids (bridge_cursor_new text) soa_new = Ok (push_all (char_pair text) bs soa_new\<lparr>so_byte := n\<rparr>)"
          by (rule unicode_soa_eq [OF le]) (use bs n bridge_cursor_start [OF t] in \<open>auto simp: soa_new_def\<close>)
        then show ?thesis using fin n by (simp add: unicode_spans_soa_def)
      qed
      ultimately show ?thesis using ne bs n by (simp add: spans_soa_from_ids_def)
    qed
  qed simp
qed

lemma soa_of_pairs:
  "spans_soa_from_ids ids table text =
     rbind (spans_from_ids ids table text) (\<lambda>ps. Ok (map fst ps, map snd ps))"
  unfolding soa_bridge pair_bridge by (cases "byte_bounds table 0 ids") auto

end
