(* ===== verification/BridgeFacts.thy ===== *)
theory BridgeFacts
  imports BridgeProps TailFacts
begin

text \<open>
  The properties of the span bridges: one pass and two passes agree on values and errors, and the
  bridges, the closure check and a lazily filled tail decide and compute the same.
\<close>

text \<open>C28 The one-pass bridge returns, on every row of ids, every table of byte lengths and every text,
  the spans of the pair bridge as two arrays, or the same error message, although it defers its own
  conversion errors until the row has closed.\<close>

theorem bridges_agree:
  "spans_soa_from_ids ids table text =
     (case spans_from_ids ids table text of
        Ok pairs \<Rightarrow> Ok (map fst pairs, map snd pairs) | Err m \<Rightarrow> Err m | Panic \<Rightarrow> Panic)"
  using soa_of_pairs [of ids table "text"] by (cases "spans_from_ids ids table text") simp_all

lemma try_map_fits:
  assumes "\<And>b. b \<in> set bs \<Longrightarrow> fst b < snd b \<and> snd b \<le> length text" "char_count text \<le> u32_max"
  shows "try_map (char_pair text) bs
    = Ok (map (\<lambda>b. (char_of_byte text ! fst b, Suc (char_of_byte text ! (snd b - 1)))) bs)"
  using assms(1)
proof (induction bs)
  case (Cons b bs)
  have "char_of_byte text ! fst b < char_count text" "char_of_byte text ! (snd b - 1) < char_count text"
    using Cons.prems [of b] by (auto intro!: char_of_byte_less)
  then have "char_pair text b = Ok (char_of_byte text ! fst b, Suc (char_of_byte text ! (snd b - 1)))"
    using assms(2) by (simp add: char_pair_def u32_pair_def to_u32_def)
  with Cons show ?case by simp
qed simp

lemma bridge_value:
  assumes "char_count text \<le> u32_max"
  shows "spans_soa_from_ids ids table text =
     (case ids_close_over_text ids table text of
        Ok _ \<Rightarrow> Ok (naive_spans text table ids) | Err m \<Rightarrow> Err m | Panic \<Rightarrow> Panic)"
proof (cases "close_cursor table 0 ids")
  case (Ok n)
  obtain bs where bs: "byte_bounds table 0 ids = Ok (bs, n)" using byte_bounds_of_close(2) [OF Ok] by blast
  show ?thesis
  proof (cases "n = length text")
    case True
    have "try_map (char_pair text) bs
      = Ok (map (\<lambda>b. (char_of_byte text ! fst b, Suc (char_of_byte text ! (snd b - 1)))) bs)"
      by (rule try_map_fits) (use byte_bounds_range [OF bs] True assms in auto)
    then show ?thesis
      using Ok bs True byte_bounds_naive [OF bs, of "text"]
      by (simp add: soa_bridge ids_close_over_text_def naive_spans_def comp_def)
  next
    case False
    then show ?thesis using Ok bs by (simp add: soa_bridge ids_close_over_text_def naive_spans_def)
  qed
next
  case (Err m)
  then show ?thesis using byte_bounds_of_close(1) [OF Err] by (auto simp: soa_bridge ids_close_over_text_def)
qed simp

lemma close_iff:
  assumes "length text \<le> u64_max"
  shows "ids_close_over_text ids table text = Ok u \<longleftrightarrow> tokens_known table ids \<and> tokens_len table ids = length text"
  using assms by (cases "ids = []") (auto simp: ids_close_over_text_def rbind_eq_Ok close_cursor_Ok)

lemma lazy_accepts:
  assumes "length text \<le> u64_max" "char_count text \<le> u32_max"
  shows "(\<exists>t. fill_lazy_state text row table = Ok t) \<longleftrightarrow>
    tokens_known table (as_slice row) \<and> tokens_len table (as_slice row) = length text"
proof
  assume "\<exists>t. fill_lazy_state text row table = Ok t"
  then show "tokens_known table (as_slice row) \<and> tokens_len table (as_slice row) = length text"
    using build_span_checkpoints_known(1,2) by (auto simp: fill_lazy_state_def rbind_eq_Ok)
next
  assume "tokens_known table (as_slice row) \<and> tokens_len table (as_slice row) = length text"
  then show "\<exists>t. fill_lazy_state text row table = Ok t"
    using scan_checkpoints_accepts [of table "as_slice row" 0 "length text = char_count text" 0 "char_walker_new text"]
      assms by (auto simp: fill_lazy_state_def chars_u32_def build_span_checkpoints_def)
qed

lemma ids_close_no_panic [simp]: "ids_close_over_text ids table text \<noteq> Panic"
  by (auto simp: ids_close_over_text_def rbind_eq_Panic)

text \<open>The three ways to spans agree. On a text whose characters count in 32 bits, the bridge refuses a
  row exactly when the closure check refuses it, with its message, and then a lazy fill of a tail
  refuses the row as well; otherwise the lazy fill accepts it and every window the tail rebuilds
  from its checkpoints is the window of the bridge's arrays.\<close>

theorem bridge_closure_and_tail_agree:
  assumes "valid_utf8 text" "shared_wf row" "length text \<le> u64_max" "char_count text \<le> u32_max"
  shows "case spans_soa_from_ids (as_slice row) table text of
      Ok (starts, ends) \<Rightarrow>
        ids_close_over_text (as_slice row) table text = Ok ()
        \<and> (\<exists>t. fill_lazy_state text row table = Ok t
            \<and> (\<forall>lo hi. lo \<le> hi \<and> hi \<le> length (as_slice row) \<longrightarrow>
                 span_window t lo hi = Ok (take (hi - lo) (drop lo starts), take (hi - lo) (drop lo ends))))
    | Err m \<Rightarrow>
        ids_close_over_text (as_slice row) table text = Err m \<and> (\<nexists>t. fill_lazy_state text row table = Ok t)
    | Panic \<Rightarrow> False"
proof (cases "ids_close_over_text (as_slice row) table text")
  case (Ok u)
  then obtain t where t: "fill_lazy_state text row table = Ok t"
    using lazy_accepts [OF assms(3,4)] close_iff [OF assms(3)] by blast
  note f = fill_lazy_state_Ok [OF t assms(1,2)]
  obtain starts ends where se: "naive_spans text table (as_slice row) = (starts, ends)" by fastforce
  have "span_window t lo hi = Ok (take (hi - lo) (drop lo starts), take (hi - lo) (drop lo ends))"
    if "lo \<le> hi" "hi \<le> length (as_slice row)" for lo hi
    using span_window_ok [OF f(1), of lo hi] f se that by simp
  then show ?thesis using Ok t se bridge_value [OF assms(4), of "as_slice row" table] by auto
next
  case (Err m)
  then have "\<nexists>t. fill_lazy_state text row table = Ok t"
    using lazy_accepts [OF assms(3,4), of row table] close_iff [OF assms(3), of "as_slice row" table] by auto
  then show ?thesis using Err bridge_value [OF assms(4), of "as_slice row" table] by simp
qed simp

theorem bridge_closure_and_tail_agree_witness:
  "spans_soa_from_ids [0, 1] [1, 3] [97, 195, 169, 122] = Ok ([0, 1], [1, 3])
   \<and> ids_close_over_text [0, 1] [1, 3] [97, 195, 169, 122] = Ok ()"
proof -
  have "naive_spans [97, 195, 169, 122] [1, 3] [0, 1] = ([0, 1], [1, 3])"
    by (simp add: naive_spans_def char_of_byte_def is_cont_def)
  then have v: "spans_soa_from_ids [0, 1] [1, 3] [97, 195, 169, 122] = Ok ([0, 1], [1, 3])"
    using bridge_value [of "[97, 195, 169, 122]" "[0, 1]" "[1, 3]"]
    by (simp add: is_cont_def ids_close_over_text_def advance_def token_byte_length_def checked_add64_def)
  with bridge_closure_and_tail_agree [OF sample_text_valid, of sample_row "[1, 3]"] show ?thesis
    by (simp add: sample_row_def is_cont_def)
qed

end
