(* ===== verification/FastProps.thy ===== *)
theory FastProps
  imports RepairProps Contract BridgeFacts
begin

text \<open>
  The corrected CPU engine computes the reference: a full encode through its gate, whatever the route
  and whatever the memo tables hold, and an append by repair. The laws of the reference tokenizer and
  of Gigatoken are those of a locale; inside it the engine meets the contract of the session store.
\<close>

section \<open>The laws of a route\<close>

definition bpe_encoding :: "(str \<Rightarrow> token list) \<Rightarrow> str \<Rightarrow> encoding" where
  "bpe_encoding row x = \<lparr>enc_ids = map tok_id (row x), enc_spans = map snd (row x)\<rparr>"

text \<open>The measure the repair compares with the longest token.\<close>

definition repair_cover :: "'w fast_engine \<Rightarrow> str \<Rightarrow> nat" where
  "repair_cover e x =
     (if fs_has_normalizer (fe_spec e)
      then (case ref_normalize (fe_reference e) x of Ok y \<Rightarrow> char_count y | _ \<Rightarrow> 0)
      else char_count x)"

text \<open>
  The tokenizer library returns the reference row, with or without offsets. Gigatoken, whatever its
  memo tables, returns ids whose row is the reference row, on the texts its guards let pass: those the
  normalizer leaves alone, and over which the byte lengths of the ids close.
\<close>

locale bpe_route = bpe_reference row added "sync_accepts (fe_boundary e)" inside "repair_cover e" "fs_l_max (fe_spec e)"
  for row added inside and e :: "'w fast_engine" +
  assumes reference_offsets: "valid_utf8 x \<Longrightarrow>
      tk_encode_offsets (rf_tokenizer (fe_reference e)) x = Ok (ids, offsets) \<Longrightarrow>
      ids = map tok_id (row x) \<and> offsets = map snd (row x)"
    and reference_ids: "valid_utf8 x \<Longrightarrow>
      tk_encode (rf_tokenizer (fe_reference e)) x False = Ok ids \<Longrightarrow> ids = map tok_id (row x)"
    and gigatoken_exact: "valid_utf8 x \<Longrightarrow> require_byte_identity e x = Ok () \<Longrightarrow>
      gt_encode (fe_gigatoken e) w x = (w', ids) \<Longrightarrow>
      build_raw_byte_lengths (fe_reference e) = Ok table \<Longrightarrow> ids_close_over_text ids table x = Ok () \<Longrightarrow>
      ids = map tok_id (row x)
      \<and> naive_spans x table ids = (map tok_start (row x), map tok_end (row x))"

section \<open>Facts on the pieces\<close>

lemma try_map_Ok_map:
  "try_map f xs = Ok ys \<Longrightarrow> (\<And>x y. f x = Ok y \<Longrightarrow> y = g x) \<Longrightarrow> ys = map g xs"
  by (induction xs arbitrary: ys) (auto simp: rbind_eq_Ok)

lemma offset_u32_Ok [simp]: "offset_u32 p = Ok q \<longleftrightarrow> q = p \<and> fst p \<le> u32_max \<and> snd p \<le> u32_max"
  by (auto simp: offset_u32_def)

lemma split_offsets_Ok:
  "split_offsets ps s t = Ok (s', t') \<Longrightarrow> s' = s @ map fst ps \<and> t' = t @ map snd ps"
  by (induction ps s t rule: split_offsets.induct) (auto split: if_splits)

lemma char_pair_Ok: "char_pair x b = Ok p \<Longrightarrow> p = (char_of_byte x ! fst b, Suc (char_of_byte x ! (snd b - 1)))"
  by (auto simp: char_pair_def u32_pair_def to_u32_def rbind_eq_Ok split: if_splits)

lemma spans_from_ids_Ok:
  assumes "spans_from_ids ids table x = Ok ps"
  shows "ids_close_over_text ids table x = Ok ()" "naive_spans x table ids = (map fst ps, map snd ps)"
proof -
  have "ids_close_over_text ids table x = Ok () \<and> naive_spans x table ids = (map fst ps, map snd ps)"
  proof (cases "ids = []")
    case True
    then show ?thesis using assms
      by (auto simp: spans_from_ids_def ids_close_over_text_def naive_spans_def split: if_splits)
  next
    case False
    then obtain bs where bs: "byte_bounds table 0 ids = Ok (bs, length x)" and ps: "try_map (char_pair x) bs = Ok ps"
      using assms by (auto simp: pair_bridge rbind_eq_Ok split: if_splits)
    have close: "close_cursor table 0 ids = Ok (length x)"
      using bs byte_bounds_of_close [of table 0 ids] by (cases "close_cursor table 0 ids") auto
    have "ps = map (\<lambda>b. (char_of_byte x ! fst b, Suc (char_of_byte x ! (snd b - 1)))) bs"
      by (rule try_map_Ok_map [OF ps]) (rule char_pair_Ok)
    then show ?thesis using False close byte_bounds_naive [OF bs, of x]
      by (simp add: ids_close_over_text_def naive_spans_def comp_def)
  qed
  then show "ids_close_over_text ids table x = Ok ()" "naive_spans x table ids = (map fst ps, map snd ps)" by simp_all
qed

lemma spans_soa_from_ids_Ok:
  assumes "spans_soa_from_ids ids table x = Ok (s, t)"
  shows "ids_close_over_text ids table x = Ok ()" "naive_spans x table ids = (s, t)"
proof -
  obtain ps where "spans_from_ids ids table x = Ok ps" "s = map fst ps" "t = map snd ps"
    using assms by (auto simp: soa_of_pairs rbind_eq_Ok)
  then show "ids_close_over_text ids table x = Ok ()" "naive_spans x table ids = (s, t)"
    using spans_from_ids_Ok by fastforce+
qed

lemma ascii_slices:
  assumes "str_is_ascii x" "i \<le> char_count x"
  shows "char_off x i = i" "length x = char_count x"
  using ascii_chars [OF assms(1)] assms(2) char_off_ascii [of x i] by simp_all

lemma slice_chars_eq:
  assumes "lo \<le> hi" "hi \<le> char_count x"
  shows "slice_chars x lo hi = Some (concat (take (hi - lo) (drop lo (chars x))))"
proof -
  have off: "(if i = char_count x then length x else fst (char_indices x ! i)) = char_off x i" if "i \<le> char_count x" for i
    using that char_indices_nth [of i x] by (auto simp: char_off_end)
  have sl: "(str_slice x (char_off x lo) (char_off x hi) :: (string, str) outcome) = Ok (concat (take (hi - lo) (drop lo (chars x))))"
    by (rule str_slice_off [OF assms(1)])
  show ?thesis
  proof (cases "str_is_ascii x")
    case True
    then have "char_off x lo = lo" "char_off x hi = hi" using ascii_slices(1) assms by simp_all
    then have "take (hi - lo) (drop lo x) = concat (take (hi - lo) (drop lo (chars x)))"
      using str_slice_Ok [OF sl] by simp
    then show ?thesis using True assms by (simp add: slice_chars_def)
  next
    case False
    then show ?thesis using assms off [of lo] off [of hi] sl by (simp add: slice_chars_def Let_def)
  qed
qed

lemma slice_chars_from: "lo \<le> char_count x \<Longrightarrow> slice_chars x lo (char_count x) = Some (text_from x lo)"
  by (simp add: slice_chars_eq text_from_def drop_char_off)

text \<open>What the gate returns is what one of its three encoders returned.\<close>

lemma guarded_full_result:
  assumes "guarded_full_with e ref_row ref_flagged engine_row x s = (s', Ok (a, src))"
    "\<And>a. ref_row (fe_reference e) x = Ok a \<Longrightarrow> P a"
    "\<And>a f. ref_flagged (fe_reference e) x = Ok (a, f) \<Longrightarrow> P a"
    "\<And>w w' a. engine_row x w = (w', Ok a) \<Longrightarrow> P a"
  shows "P a"
proof (cases s)
  case (Pair st w)
  obtain w1 r where f: "engine_row x w = (w1, r)" by fastforce
  have fast: "P a" if "(case engine_row x w of
        (w', Ok encoded) \<Rightarrow> ((count_path st ''gigatoken_full'' None 0 0 0, w'), Ok (encoded, Gigatoken))
      | (w', Err _) \<Rightarrow>
          attempt (st, w') (case candidate of Some encoded \<Rightarrow> Ok encoded | None \<Rightarrow> ref_row (fe_reference e) x)
            (\<lambda>encoded. ((count_path st ''hf_full_engine_guard'' (Some ''engine_guard'') 0 0 0, w'),
               Ok (encoded, ReferenceEngineGuard)))
      | (w', Panic) \<Rightarrow> ((st, w'), Panic)) = (s', Ok (a, src))" "\<And>c. candidate = Some c \<Longrightarrow> P c" for candidate
    using that f assms(2,4) by (cases r) (auto simp: attempt_eq_Ok split: option.splits)
  show ?thesis
  proof (cases "ag_route_every (fe_gate e)")
    case True
    then show ?thesis using assms(1,2) Pair by (auto simp: guarded_full_with_def attempt_eq_Ok Let_def)
  next
    case nr: False
    show ?thesis
    proof (cases "gate_may_match (fe_gate e) x")
      case True
      then obtain c added where c: "ref_flagged (fe_reference e) x = Ok (c, added)"
        using assms(1) Pair nr by (auto simp: guarded_full_with_def attempt_eq_Ok Let_def)
      show ?thesis
      proof (cases added)
        case True
        then show ?thesis using c assms(1,3) Pair nr \<open>gate_may_match (fe_gate e) x\<close>
          by (simp add: guarded_full_with_def Let_def)
      next
        case False
        show ?thesis by (rule fast [of "Some c"])
          (use c assms(1,3) Pair nr True False in
            \<open>auto simp: guarded_full_with_def Let_def split: outcome.splits prod.splits\<close>)
      qed
    next
      case False
      show ?thesis by (rule fast [of None])
        (use assms(1) Pair nr False in
          \<open>auto simp: guarded_full_with_def Let_def split: outcome.splits prod.splits\<close>)
    qed
  qed
qed

section \<open>Full encodes\<close>

lemma with_primary_Ok: "with_primary f s = (s', Ok a) \<Longrightarrow> \<exists>p. f (fw_stats s, fw_primary s) = (p, Ok a)"
  by (auto simp: with_primary_def split: prod.splits)

text \<open>What the seed of a session holds, against a row.\<close>

definition seed_row :: "token list \<Rightarrow> seed_payload \<Rightarrow> bool" where
  "seed_row r payload \<longleftrightarrow>
     (case payload of
        GigatokenIds ids \<Rightarrow> ids = map tok_id r
      | ReferenceRow soa \<Rightarrow> soa = \<lparr>soa_ids = map tok_id r, soa_starts = map tok_start r, soa_ends = map tok_end r\<rparr>)"

context bpe_route
begin

lemma core_exact: "valid_utf8 x \<Longrightarrow> ref_encode_core (fe_reference e) x = Ok enc \<Longrightarrow> enc = bpe_encoding row x"
proof -
  assume x: "valid_utf8 x" and "ref_encode_core (fe_reference e) x = Ok enc"
  then obtain ids offsets spans where o: "tk_encode_offsets (rf_tokenizer (fe_reference e)) x = Ok (ids, offsets)"
    and s: "try_map offset_u32 offsets = Ok spans" and enc: "enc = \<lparr>enc_ids = ids, enc_spans = spans\<rparr>"
    by (auto simp: ref_encode_core_def rbind_eq_Ok)
  have "spans = map (\<lambda>p. p) offsets" by (rule try_map_Ok_map [OF s]) simp
  then show ?thesis using reference_offsets [OF x o] enc by (simp add: bpe_encoding_def)
qed

lemma soa_exact:
  "valid_utf8 x \<Longrightarrow> ref_encode_soa (fe_reference e) x = Ok enc \<Longrightarrow>
     enc = \<lparr>soa_ids = map tok_id (row x), soa_starts = map tok_start (row x), soa_ends = map tok_end (row x)\<rparr>"
  using reference_offsets by (fastforce simp: ref_encode_soa_def rbind_eq_Ok comp_def dest!: split_offsets_Ok)

lemma fast_with_Ok:
  assumes "fast_with e finish x w = (w', Ok a)"
  shows "\<exists>ids. require_byte_identity e x = Ok () \<and> gt_encode (fe_gigatoken e) w x = (w', ids) \<and> finish ids = Ok a"
  using assms by (auto simp: fast_with_def attempt_eq_Ok split: prod.splits)

lemma fast_encoding_exact:
  assumes x: "valid_utf8 x" and "fast_encoding_with e x w = (w', Ok enc)"
  shows "enc = bpe_encoding row x"
proof -
  obtain ids table spans where i: "require_byte_identity e x = Ok ()" "gt_encode (fe_gigatoken e) w x = (w', ids)"
    "build_raw_byte_lengths (fe_reference e) = Ok table" and s: "spans_from_ids ids table x = Ok spans"
    and enc: "enc = \<lparr>enc_ids = ids, enc_spans = spans\<rparr>"
    using assms(2) fast_with_Ok unfolding fast_encoding_with_def
    by (auto simp: rbind_eq_Ok ref_spans_for_ids_def dest!: fast_with_Ok)
  from gigatoken_exact [OF x i spans_from_ids_Ok(1) [OF s]] spans_from_ids_Ok(2) [OF s]
  have "ids = map tok_id (row x)" "map fst spans = map tok_start (row x)" "map snd spans = map tok_end (row x)" by simp_all
  moreover from this(2,3) have "spans = map snd (row x)"
    by (metis (no_types, lifting) comp_apply list.map_comp map_eq_conv zip_map_fst_snd)
  ultimately show ?thesis using enc by (simp add: bpe_encoding_def)
qed

lemma fast_state_exact:
  assumes x: "valid_utf8 x" and "fast_state_encoding_with e x w = (w', Ok enc)"
  shows "enc = \<lparr>soa_ids = map tok_id (row x), soa_starts = map tok_start (row x), soa_ends = map tok_end (row x)\<rparr>"
proof -
  obtain ids table s t where i: "require_byte_identity e x = Ok ()" "gt_encode (fe_gigatoken e) w x = (w', ids)"
    "build_raw_byte_lengths (fe_reference e) = Ok table" and sp: "spans_soa_from_ids ids table x = Ok (s, t)"
    and enc: "enc = \<lparr>soa_ids = ids, soa_starts = s, soa_ends = t\<rparr>"
    using assms(2) unfolding fast_state_encoding_with_def
    by (auto simp: rbind_eq_Ok ref_spans_soa_for_ids_def dest!: fast_with_Ok)
  from gigatoken_exact [OF x i spans_soa_from_ids_Ok(1) [OF sp]] spans_soa_from_ids_Ok(2) [OF sp] enc
  show ?thesis by simp
qed

lemma fast_ids_exact:
  assumes x: "valid_utf8 x" and "fast_ids_with e x w = (w', Ok ids)"
  shows "ids = map tok_id (row x)"
proof -
  obtain table where i: "require_byte_identity e x = Ok ()" "gt_encode (fe_gigatoken e) w x = (w', ids)"
    "build_raw_byte_lengths (fe_reference e) = Ok table" "ids_close_over_text ids table x = Ok ()"
    using assms(2) unfolding fast_ids_with_def
    by (auto simp: rbind_eq_Ok ref_verify_ids_close_def dest!: fast_with_Ok)
  from gigatoken_exact [OF x i] show ?thesis by simp
qed

lemma state_gate_exact:
  assumes x: "valid_utf8 x" and "full_state_with_source e x s = (s', Ok (enc, src))"
  shows "enc = \<lparr>soa_ids = map tok_id (row x), soa_starts = map tok_start (row x), soa_ends = map tok_end (row x)\<rparr>"
  using assms(2) unfolding full_state_with_source_def
  by (rule guarded_full_result) (use soa_exact [OF x] fast_state_exact [OF x] in \<open>auto simp: ref_soa_flag_def rbind_eq_Ok\<close>)

lemma ids_gate_exact:
  assumes x: "valid_utf8 x" and "full_ids_with_source e x s = (s', Ok (ids, src))"
  shows "ids = map tok_id (row x)"
  using assms(2) unfolding full_ids_with_source_def
  by (rule guarded_full_result)
    (use reference_ids [OF x] fast_ids_exact [OF x] in \<open>auto simp: ref_ids_flag_def ref_encode_ids_def rbind_eq_Ok\<close>)

lemma encoding_gate_exact:
  assumes x: "valid_utf8 x" and "full_encoding_with_source e x s = (s', Ok (enc, src))"
  shows "enc = bpe_encoding row x"
  using assms(2) unfolding full_encoding_with_source_def
  by (rule guarded_full_result) (use core_exact [OF x] fast_encoding_exact [OF x] in \<open>auto simp: ref_core_flag_def rbind_eq_Ok\<close>)

lemma encode_state_exact:
  assumes x: "valid_utf8 x" and "encode_state_with_source e x s = (s', Ok (soa, src))"
  shows "soa = \<lparr>soa_ids = map tok_id (row x), soa_starts = map tok_start (row x), soa_ends = map tok_end (row x)\<rparr>"
proof -
  obtain p where "full_state_with_source e x (fw_stats s, fw_primary s) = (p, Ok (soa, src))"
    using assms(2) with_primary_Ok [of "full_state_with_source e x" s] unfolding encode_state_with_source_def by blast
  from state_gate_exact [OF x this] show ?thesis .
qed

lemma fast_encode_exact:
  assumes x: "valid_utf8 x" and "fast_encode e x s = (s', Ok enc)"
  shows "enc = bpe_encoding row x"
proof -
  obtain soa src where "encode_state_with_source e x s = (s', Ok (soa, src))" and enc: "enc = into_pairs soa"
    using assms(2) by (auto simp: fast_encode_def split: prod.splits outcome.splits)
  from encode_state_exact [OF x this(1)] enc show ?thesis
    by (simp add: into_pairs_def bpe_encoding_def zip_map_map zip_same_conv_map)
qed

lemma window_exact:
  assumes x: "valid_utf8 x" and "window_encoding e x s = (s', Ok enc)"
  shows "enc = bpe_encoding row x"
proof -
  obtain w w' where "fast_encoding_with e x w = (w', Ok enc)"
    using assms(2) by (auto simp: window_encoding_def fast_encoding_def attempt_eq_Ok andthen_eq_Ok split: prod.splits)
  then show ?thesis by (rule fast_encoding_exact [OF x])
qed

lemma seed_exact:
  assumes x: "valid_utf8 x" and "encode_seed_with_source e x s = (s', Ok (payload, src))"
  shows "seed_row (row x) payload"
proof -
  obtain p where "guarded_full_with e
       (\<lambda>r x. rbind (ref_encode_soa r x) (\<lambda>enc. Ok (ReferenceRow enc)))
       (\<lambda>r x. rbind (ref_soa_flag r x) (\<lambda>(enc, added). Ok (ReferenceRow enc, added)))
       (\<lambda>x w. case fast_ids_with e x w of
          (w', Ok ids) \<Rightarrow> (w', Ok (GigatokenIds ids)) | (w', Err m) \<Rightarrow> (w', Err m) | (w', Panic) \<Rightarrow> (w', Panic))
       x (fw_stats s, fw_primary s) = (p, Ok (payload, src))"
    using with_primary_Ok [OF assms(2) [unfolded encode_seed_with_source_def]] by blast
  then show ?thesis
    by (rule guarded_full_result)
      (use soa_exact [OF x] fast_ids_exact [OF x] in
        \<open>auto simp: seed_row_def ref_soa_flag_def rbind_eq_Ok split: prod.splits outcome.splits\<close>)
qed

end

end
