(* ===== verification/RepairFacts.thy ===== *)
theory RepairFacts
  imports FastProps
begin

text \<open>
  What an append by repair leaves behind: the tail as it was, with the error, or a tail filled with the
  reference encoding of the grown text.
\<close>

section \<open>The outcome of a repair\<close>

text \<open>A call that succeeds leaves a tail that \<open>P\<close> holds of, with the number of kept tokens it reports; one
  that does not leaves the tail alone.\<close>

definition repaired ::
  "(tail_state \<Rightarrow> nat \<Rightarrow> bool) \<Rightarrow> ('a \<Rightarrow> append_report) \<Rightarrow> tail_state \<Rightarrow> ('s \<times> tail_state) \<times> (string, 'a) outcome \<Rightarrow> bool"
where
  "repaired P rp t res \<longleftrightarrow> (case res of ((s', t'), Ok a) \<Rightarrow> P t' (rp_kept (rp a)) | ((s', t'), _) \<Rightarrow> t' = t)"

lemma repaired_simps [simp]:
  "repaired P rp t ((s', t'), Err m) \<longleftrightarrow> t' = t"
  "repaired P rp t ((s', t'), Panic) \<longleftrightarrow> t' = t"
  "repaired P rp t ((s', t'), Ok a) \<longleftrightarrow> P t' (rp_kept (rp a))"
  by (simp_all add: repaired_def)

lemma repair_fill_cases:
  obtains t' where "fill_state full enc = Ok t'" "repair_fill s t full enc = ((s, t'), Ok ())"
  | m where "repair_fill s t full enc = ((s, t), Err m)"
  using that by (cases "fill_state full enc") (auto simp: repair_fill_def fill_def)

lemma fall_back_repaired:
  assumes "\<And>enc t'. ref_encode_core (fe_reference e) full = Ok enc \<Longrightarrow> fill_state full enc = Ok t' \<Longrightarrow> P t' 0"
  shows "repaired P fst t (fall_back e full reason s t)"
proof (cases "ref_encode_core (fe_reference e) full")
  case (Ok enc)
  let ?s = "s\<lparr>fw_stats := count_path (fw_stats s) (''hf_full_'' @ reason) (Some reason) 0 0 0\<rparr>"
  have f: "reference_full e full reason s = (?s, Ok enc)" using Ok by (simp add: reference_full_def)
  note P = assms [OF Ok]
  show ?thesis
    by (rule repair_fill_cases [of full enc ?s t]) (use f P in \<open>auto simp: fall_back_def\<close>)
qed (simp_all add: fall_back_def reference_full_def)

lemma repair_loop_repaired:
  assumes core: "\<And>enc t'. ref_encode_core (fe_reference e) full = Ok enc \<Longrightarrow> fill_state full enc = Ok t' \<Longrightarrow> P t' 0"
    and window: "\<And>ws wt s s1 encoded m enc t'. ws \<le> previous_chars \<Longrightarrow>
      slice_chars full ws (char_count full) = Some wt \<Longrightarrow> window_encoding e wt s = (s1, Ok encoded) \<Longrightarrow>
      window_match e (ids_of t) spans full previous_chars ws encoded = Ok (Some m) \<Longrightarrow>
      spliced (ids_of t) spans encoded ws m = Ok enc \<Longrightarrow> fill_state full enc = Ok t' \<Longrightarrow> P t' (mt_left m + mt_length m)"
  shows "repaired P fst t (repair_loop e t full spans previous_chars window retries s)"
  using core window
proof (induction e t full spans previous_chars window retries s rule: repair_loop.induct)
  case (1 e t full spans previous_chars window retries s)
  let ?ws = "previous_chars - window"
  have fb: "repaired P fst t (fall_back e full reason s' t)" for reason s'
    by (rule fall_back_repaired) (rule "1.prems"(1))
  show ?case
  proof (cases "window < previous_chars")
    case True
    show ?thesis
    proof (cases "slice_chars full ?ws (char_count full)")
      case None
      then show ?thesis using True fb by (subst repair_loop.simps) simp
    next
      case (Some wt)
      obtain s1 r where w: "window_encoding e wt s = (s1, r)" by fastforce
      show ?thesis
      proof (cases r)
        case (Ok encoded)
        show ?thesis
        proof (cases "window_match e (ids_of t) spans full previous_chars ?ws encoded")
          case found: (Ok found)
          show ?thesis
          proof (cases found)
            case None
            have "repaired P fst t (repair_loop e t full spans previous_chars (min (window * 2) u64_max) (retries + 1) s1)"
              if "\<not> fs_max_retries (fe_spec e) \<le> retries"
              by (rule "1.IH" [OF True refl Some w [symmetric] Ok that]; rule "1.prems")
            then show ?thesis using True Some w Ok found None fb by (subst repair_loop.simps) simp
          next
            case m: (Some m)
            show ?thesis
            proof (cases "spliced (ids_of t) spans encoded ?ws m")
              case enc: (Ok enc)
              have P: "P t' (mt_left m + mt_length m)" if "fill_state full enc = Ok t'" for t'
                by (rule "1.prems"(2) [OF _ Some w [unfolded Ok] found [unfolded m] enc that]) simp
              show ?thesis
                by (rule repair_fill_cases [of full enc s1 t])
                  (use True Some w Ok found m enc P in \<open>auto simp: repair_loop.simps [of e t] Let_def\<close>)
            qed (use True Some w Ok found m in \<open>auto simp: repair_loop.simps [of e t]\<close>)
          qed
        qed (use True Some w Ok in \<open>auto simp: repair_loop.simps [of e t]\<close>)
      qed (use True Some w fb in \<open>auto simp: repair_loop.simps [of e t]\<close>)
    qed
  next
    case False
    then show ?thesis using fb by (subst repair_loop.simps) simp
  qed
qed

section \<open>The splice\<close>

lemma shift_span_exact: "snd sp + k \<le> u32_max \<Longrightarrow> fst sp \<le> snd sp \<Longrightarrow> shift_span k sp = (fst sp + k, snd sp + k)"
  by (simp add: shift_span_def)

lemma map_snd_shift: "map snd (map (tok_shift k) ts) = map (\<lambda>t. (tok_start t + k, tok_end t + k)) ts"
  by (simp add: tok_shift_def)

text \<open>The token row of a tail, and what a splice makes of it.\<close>

definition tail_row :: "tail_state \<Rightarrow> token list" where
  "tail_row t = zip (ids_of t) (zip (fst (spans_of t)) (snd (spans_of t)))"

lemma tail_row_props:
  assumes "tail_wf t"
  shows "length (tail_row t) = n_tokens t" "map tok_id (tail_row t) = ids_of t"
    "map snd (tail_row t) = zip (fst (spans_of t)) (snd (spans_of t))"
    "map tok_start (tail_row t) = fst (spans_of t)"
proof -
  show s: "length (tail_row t) = n_tokens t" "map tok_id (tail_row t) = ids_of t"
    "map snd (tail_row t) = zip (fst (spans_of t)) (snd (spans_of t))"
    using spans_of_wf [OF assms] assms by (simp_all add: tail_row_def map_fst_zip map_snd_zip zip_map_fst_snd)
  have "map fst (map snd (tail_row t)) = fst (spans_of t)"
    unfolding s using spans_of_wf [OF assms] by simp
  then show "map tok_start (tail_row t) = fst (spans_of t)" by (simp add: comp_def)
qed

lemma faithful_row: "tail_wf t \<Longrightarrow> faithful (bpe_encoding row) t \<Longrightarrow> tail_row t = row (tl_text t)"
  by (simp add: tail_row_def faithful_def bpe_encoding_def comp_def zip_map_fst_snd zip_map_map zip_same_conv_map)

context bpe_route
begin

lemma splice_shape:
  assumes t: "tail_ok t" and d: "valid_utf8 d" and ws: "ws \<le> tl_chars t"
    and wt: "slice_chars (tl_text t @ d) ws (char_count (tl_text t @ d)) = Some wt"
    and enc: "window_encoding e wt s = (s1, Ok encoded)"
    and wm: "window_match e (ids_of t) (map snd (tail_row t)) (tl_text t @ d) (tl_chars t) ws encoded = Ok (Some m)"
    and spl: "spliced (ids_of t) (map snd (tail_row t)) encoded ws m = Ok out"
    and cnt: "char_count (tl_text t @ d) \<le> u32_max"
  defines "B \<equiv> map (tok_shift ws) (row (text_from (tl_text t @ d) ws))"
    and "C \<equiv> take (mt_left m + mt_length m) (tail_row t)
      @ drop (mt_right m + mt_length m) (map (tok_shift ws) (row (text_from (tl_text t @ d) ws)))"
  shows "run_of (tail_row t) B (mt_left m) (mt_right m) (mt_length m)" "0 < mt_length m"
    "ws + fs_margin (fe_spec e) \<le> tok_start (tail_row t ! mt_left m)"
    "mt_covered m = tok_end (tail_row t ! (mt_left m + mt_length m - 1)) - tok_start (tail_row t ! mt_left m)"
    "match_accepted e m (map snd (tail_row t)) (tl_text t @ d) = Ok True"
    "out = \<lparr>enc_ids = map tok_id C, enc_spans = map snd C\<rparr>"
proof -
  let ?x = "tl_text t" and ?T = "tl_text t @ d" and ?A = "tail_row t"
  have tw: "tail_wf t" using t by (simp add: tail_ok_def)
  then have x: "valid_utf8 ?x" "tl_chars t = char_count ?x" by (simp_all add: tail_wf_def)
  have T: "valid_utf8 ?T" and cs: "chars ?T = chars ?x @ chars d" using x d by (simp_all add: chars_append_valid)
  have ws': "ws \<le> char_count ?T" using ws x cs by simp
  have W: "wt = text_from ?T ws" using wt slice_chars_from [OF ws'] by simp
  have wv: "valid_utf8 wt" using T W by simp
  have e: "encoded = bpe_encoding row wt" by (rule window_exact [OF wv enc])
  have zA: "zip (ids_of t) (map snd ?A) = ?A" using tail_row_props(2) [OF tw] by (metis zip_map_fst_snd)
  have zB: "zip (enc_ids encoded) (enc_spans encoded) = row wt" using e by (simp add: bpe_encoding_def zip_map_fst_snd)
  obtain left right where
      L: "build_records (ids_of t) (map snd ?A) 0 (ws + fs_margin (fe_spec e)) (tl_chars t) = Ok left" and
      R: "build_records (enc_ids encoded) (enc_spans encoded) ws (ws + fs_margin (fe_spec e)) (tl_chars t) = Ok right" and
      m: "find_match left right = Some m" and acc: "match_accepted e m (map snd ?A) ?T = Ok True"
    using wm by (auto simp: window_match_def Let_def rbind_eq_Ok split: option.splits if_splits)
  note run = match_run [OF L R m, unfolded zA zB]
  show run1: "run_of ?A B (mt_left m) (mt_right m) (mt_length m)" using run(1) W by (simp add: B_def)
  show "0 < mt_length m" "ws + fs_margin (fe_spec e) \<le> tok_start (?A ! mt_left m)"
    "mt_covered m = tok_end (?A ! (mt_left m + mt_length m - 1)) - tok_start (?A ! mt_left m)"
    "match_accepted e m (map snd ?A) ?T = Ok True" using run acc by simp_all
  let ?l = "mt_left m + mt_length m" and ?r = "mt_right m + mt_length m"
  have len: "?l \<le> length ?A" "?r \<le> length (row wt)" using run(1) by (auto simp: run_of_def)
  have out: "out = \<lparr>enc_ids = take ?l (ids_of t) @ drop ?r (map tok_id (row wt)),
      enc_spans = take ?l (map snd ?A) @ map (shift_span ws) (drop ?r (map snd (row wt)))\<rparr>"
    using spl len tail_row_props(1) [OF tw] e by (simp add: spliced_def Let_def bpe_encoding_def)
  have "shift_span ws (snd tok) = snd (tok_shift ws tok)" if "tok \<in> set (row wt)" for tok
  proof -
    have "char_count wt + ws = char_count ?T" using W ws' by simp
    then have "tok_start tok < tok_end tok" "tok_end tok + ws \<le> u32_max"
      using row_span [OF wv that] cnt by linarith+
    then show ?thesis using shift_span_exact [of "snd tok" ws] by (simp add: tok_shift_def)
  qed
  then have "map (shift_span ws) (drop ?r (map snd (row wt))) = map snd (drop ?r (map (tok_shift ws) (row wt)))"
    by (auto simp: drop_map dest: in_set_dropD)
  then show "out = \<lparr>enc_ids = map tok_id C, enc_spans = map snd C\<rparr>"
    using out W tail_row_props(2) [OF tw]
    by (simp add: C_def take_map [symmetric] drop_map [symmetric] comp_def)
qed

text \<open>Whatever run was found, the splice has its tokens in text order.\<close>

lemma splice_sorted:
  assumes sA: "sorted (map tok_start A)" and sB: "sorted (map tok_start B)" and run: "run_of A B l r len" and len: "0 < len"
  shows "sorted (map tok_start (take (l + len) A @ drop (r + len) B))"
proof -
  let ?j = "l + len - 1" and ?k = "r + len - 1"
  have le: "l + len \<le> length A" "r + len \<le> length B" using run by (auto simp: run_of_def)
  have same: "A ! ?j = B ! ?k" using run_of_nth [OF run, of ?j] len by simp
  have "tok_start u \<le> tok_start v" if u: "u \<in> set (take (l + len) A)" and v: "v \<in> set (drop (r + len) B)" for u v
  proof -
    obtain i where i: "i < l + len" "u = A ! i" using u le by (auto simp: in_set_conv_nth)
    obtain n where n: "n < length B - (r + len)" "v = B ! (r + len + n)" using v by (auto simp: in_set_conv_nth)
    have "tok_start u \<le> tok_start (A ! ?j)"
      using sorted_nth_mono [OF sA, of i ?j] i le len by simp
    also have "\<dots> \<le> tok_start v"
      using sorted_nth_mono [OF sB, of ?k "r + len + n"] n le len same by simp
    finally show ?thesis .
  qed
  moreover have "sorted (map tok_start (take n A))" "sorted (map tok_start (drop n B))" for n
    using sA sB by (simp_all add: take_map [symmetric] drop_map [symmetric] sorted_wrt_take sorted_wrt_drop)
  ultimately show ?thesis by (fastforce simp: sorted_append)
qed

lemma row_starts_sorted: "valid_utf8 x \<Longrightarrow> sorted (map tok_start (row x))"
  by (auto simp: sorted_iff_nth_mono row_sorted)

lemma row_shift_sorted: "sorted (map tok_start ts) \<Longrightarrow> sorted (map tok_start (map (tok_shift k) ts))"
  by (auto simp: sorted_iff_nth_mono)

text \<open>An accepted run of a faithful tail covers more than any literal and holds a synchronizing pair.\<close>

lemma accepted_cover:
  assumes x: "valid_utf8 x" and d: "valid_utf8 d" and A: "row x = A"
    and acc: "match_accepted e m (map snd A) (x @ d) = Ok True"
    and len: "0 < mt_length m" "mt_left m + mt_length m \<le> length A"
    and cov: "mt_covered m = tok_end (A ! (mt_left m + mt_length m - 1)) - tok_start (A ! mt_left m)"
  shows "fs_l_max (fe_spec e) < repair_cover e (concat (take (tok_end (A ! (mt_left m + mt_length m - 1)) - tok_start (A ! mt_left m))
      (drop (tok_start (A ! mt_left m)) (chars x))))"
    and "has_sync_witness (fe_boundary e) m (map snd A) (x @ d) = Ok True"
proof -
  let ?s = "tok_start (A ! mt_left m)" and ?t = "tok_end (A ! (mt_left m + mt_length m - 1))"
  let ?y = "concat (take (?t - ?s) (drop ?s (chars x)))"
  have j: "mt_left m + mt_length m - 1 < length A" "mt_left m < length A" using len by simp_all
  have cs: "chars (x @ d) = chars x @ chars d" using d by (rule chars_append_valid)
  have t: "?t \<le> char_count x" using row_span_nth [OF x, unfolded A] j by blast
  obtain n where c: "covered_chars e m (map snd A) (x @ d) = Ok (Some n)" and n: "n > fs_l_max (fe_spec e)"
    and w: "has_sync_witness (fe_boundary e) m (map snd A) (x @ d) = Ok True"
    using acc by (auto simp: match_accepted_def rbind_eq_Ok split: option.splits if_splits)
  show "has_sync_witness (fe_boundary e) m (map snd A) (x @ d) = Ok True" by (rule w)
  have "n = repair_cover e ?y"
  proof (cases "fs_has_normalizer (fe_spec e)")
    case True
    then obtain z where z: "slice_chars (x @ d) ?s ?t = Some z"
      and zn: "ref_normalize (fe_reference e) z = Ok y \<Longrightarrow> n = char_count y"
        "\<exists>y. ref_normalize (fe_reference e) z = Ok y" for y
      using c j by (auto simp: covered_chars_def rbind_eq_Ok case_prod_unfold split: option.splits outcome.splits)
    have "?s \<le> ?t" using z by (auto simp: slice_chars_def split: if_splits)
    then have "z = ?y" using z slice_chars_eq [of ?s ?t "x @ d"] t cs by simp
    then show ?thesis using zn True by (auto simp: repair_cover_def)
  next
    case False
    then have "n = ?t - ?s" using c cov by (simp add: covered_chars_def)
    moreover have "char_count ?y = ?t - ?s"
      using t chars_concat_take [of "?t - ?s" "text_from x ?s"] by simp
    ultimately show ?thesis using False by (simp add: repair_cover_def)
  qed
  then show "fs_l_max (fe_spec e) < repair_cover e ?y" using n by simp
qed

section \<open>Appends\<close>

lemma repair_splice_exact:
  assumes t: "tail_ok t" and f: "faithful (bpe_encoding row) t" and d: "valid_utf8 d" and ws: "ws \<le> tl_chars t"
    and wt: "slice_chars (tl_text t @ d) ws (char_count (tl_text t @ d)) = Some wt"
    and enc: "window_encoding e wt s = (s1, Ok encoded)"
    and wm: "window_match e (ids_of t) (map snd (tail_row t)) (tl_text t @ d) (tl_chars t) ws encoded = Ok (Some m)"
    and spl: "spliced (ids_of t) (map snd (tail_row t)) encoded ws m = Ok out"
    and cnt: "char_count (tl_text t @ d) \<le> u32_max"
  shows "out = bpe_encoding row (tl_text t @ d)"
proof -
  let ?x = "tl_text t" and ?A = "tail_row t"
  have tw: "tail_wf t" using t by (simp add: tail_ok_def)
  then have x: "valid_utf8 ?x" "tl_chars t = char_count ?x" by (simp_all add: tail_wf_def)
  have A: "?A = row ?x" using faithful_row tw f by blast
  note sh = splice_shape [OF t d ws wt enc wm spl cnt]
  have len: "mt_left m + mt_length m \<le> length ?A" using sh(1) by (simp add: run_of_def)
  note cov = accepted_cover [OF x(1) d A [symmetric] sh(5,2) len sh(4)]
  obtain i where i: "mt_left m \<le> i" "i < mt_left m + (mt_length m - 1)" "i + 1 < length (map snd ?A)"
    "0 < fst (map snd ?A ! (i + 1))" 
    "sync_accepts (fe_boundary e) (chars (?x @ d) ! (fst (map snd ?A ! (i + 1)) - 1)) (chars (?x @ d) ! fst (map snd ?A ! (i + 1)))"
    using sync_witness_loop_true [OF cov(2) [unfolded has_sync_witness_def]] by blast
  have "row (?x @ d) = take (mt_left m + mt_length m) (row ?x)
      @ drop (mt_right m + mt_length m) (map (tok_shift ws) (row (text_from (?x @ d) ws)))"
  proof (rule splice_row [OF x(1) d])
    show "ws \<le> char_count ?x" using ws x by simp
    show "run_of (row ?x) (map (tok_shift ws) (row (text_from (?x @ d) ws))) (mt_left m) (mt_right m) (mt_length m)"
      using sh(1) A by simp
    show "mt_left m < i + 1" "i + 1 < mt_left m + mt_length m" using i by simp_all
    show "tok_start (row ?x ! (i + 1)) = fst (map snd ?A ! (i + 1))" using i(3) A by simp
    show "ws \<le> tok_start (row ?x ! mt_left m)" using sh(3) A by simp
    show "0 < fst (map snd ?A ! (i + 1))" by (rule i(4))
    show "sync_accepts (fe_boundary e) (chars (?x @ d) ! (fst (map snd ?A ! (i + 1)) - 1)) (chars (?x @ d) ! fst (map snd ?A ! (i + 1)))"
      by (rule i(5))
    show "fs_l_max (fe_spec e) < repair_cover e
       (concat (take (tok_end (row ?x ! (mt_left m + mt_length m - 1)) - tok_start (row ?x ! mt_left m))
         (drop (tok_start (row ?x ! mt_left m)) (chars ?x))))" using cov(1) A by simp
  qed
  then show ?thesis using sh(6) A by (simp add: bpe_encoding_def)
qed

lemma splice_in_order:
  assumes t: "tail_ok t" and d: "valid_utf8 d" and ws: "ws \<le> tl_chars t"
    and wt: "slice_chars (tl_text t @ d) ws (char_count (tl_text t @ d)) = Some wt"
    and enc: "window_encoding e wt s = (s1, Ok encoded)"
    and wm: "window_match e (ids_of t) (map snd (tail_row t)) (tl_text t @ d) (tl_chars t) ws encoded = Ok (Some m)"
    and spl: "spliced (ids_of t) (map snd (tail_row t)) encoded ws m = Ok out"
    and cnt: "char_count (tl_text t @ d) \<le> u32_max"
  shows "sorted (map fst (enc_spans out))"
proof -
  note sh = splice_shape [OF assms]
  have tw: "tail_wf t" "ordered t" using t by (simp_all add: tail_ok_def)
  have "sorted (map tok_start (tail_row t))" using tw tail_row_props(4) by (simp add: ordered_def)
  moreover have "valid_utf8 (text_from (tl_text t @ d) ws)" using tw(1) d by (simp add: tail_wf_def)
  ultimately show ?thesis
    using splice_sorted [OF _ row_shift_sorted [OF row_starts_sorted] sh(1,2)] sh(6) by (simp add: comp_def)
qed

text \<open>An append that grows a tail.\<close>

lemma fast_append_repaired:
  assumes t: "tail_wf t" and noop: "d = [] \<Longrightarrow> P t (n_tokens t)"
    and cold: "\<And>s s' enc src t'. tl_text t = [] \<Longrightarrow> encode_state_with_source e d s = (s', Ok (enc, src)) \<Longrightarrow>
      fill_soa_state d enc = Ok t' \<Longrightarrow> P t' 0"
    and core: "\<And>enc t'. ref_encode_core (fe_reference e) (tl_text t @ d) = Ok enc \<Longrightarrow>
      fill_state (tl_text t @ d) enc = Ok t' \<Longrightarrow> P t' 0"
    and splice: "\<And>ws wt s s1 encoded m out t'. ws \<le> tl_chars t \<Longrightarrow>
      slice_chars (tl_text t @ d) ws (char_count (tl_text t @ d)) = Some wt \<Longrightarrow>
      window_encoding e wt s = (s1, Ok encoded) \<Longrightarrow>
      window_match e (ids_of t) (map snd (tail_row t)) (tl_text t @ d) (tl_chars t) ws encoded = Ok (Some m) \<Longrightarrow>
      spliced (ids_of t) (map snd (tail_row t)) encoded ws m = Ok out \<Longrightarrow>
      fill_state (tl_text t @ d) out = Ok t' \<Longrightarrow> P t' (mt_left m + mt_length m)"
  shows "repaired P (\<lambda>rp. rp) t (fast_append e t d s)"
proof -
  have "repaired P fst t (append_with_repair_input e t d s)"
  proof (cases "tl_text t = []")
    case True
    obtain s' r where c: "encode_state_with_source e d s = (s', r)" by fastforce
    show ?thesis
    proof (cases r)
      case (Ok p)
      obtain enc src where p: "p = (enc, src)" by fastforce
      show ?thesis using True c Ok p cold [OF True, of s s' enc src]
        by (cases "fill_soa_state d enc") (simp_all add: append_with_repair_input_def fill_soa_def)
    qed (use True c in \<open>simp_all add: append_with_repair_input_def\<close>)
  next
    case False
    have sp: "tail_spans_pairs t = Ok (map snd (tail_row t))"
      using forced_spans_ok [OF t] tail_row_props(3) [OF t] by (simp add: tail_spans_pairs_def case_prod_unfold)
    have fb: "repaired P fst t (fall_back e (tl_text t @ d) reason s' t)" for reason s'
      by (rule fall_back_repaired) (rule core)
    have "repaired P fst t (repair_loop e t (tl_text t @ d) (map snd (tail_row t)) (tl_chars t) w 0 s)" for w
      by (rule repair_loop_repaired [OF core splice])
    then show ?thesis using False noop fb
      by (cases "d = []") (simp_all add: append_with_repair_input_def repair_append_def sp Let_def)
  qed
  then show ?thesis
    by (cases "append_with_repair_input e t d s" rule: prod.exhaust; rename_tac st r; case_tac st; case_tac r)
      (auto simp: fast_append_def)
qed

lemma append_faithful:
  assumes t: "tail_ok t" and f: "faithful (bpe_encoding row) t" and d: "valid_utf8 d"
  shows "repaired (\<lambda>t' kept. tl_text t' = tl_text t @ d \<and> faithful (bpe_encoding row) t'
      \<and> kept \<le> n_tokens t \<and> take kept (ids_of t') = take kept (ids_of t)) (\<lambda>rp. rp) t (fast_append e t d s)"
proof (rule fast_append_repaired)
  let ?P = "\<lambda>t' kept. tl_text t' = tl_text t @ d \<and> faithful (bpe_encoding row) t'
      \<and> kept \<le> n_tokens t \<and> take kept (ids_of t') = take kept (ids_of t)"
  show tw: "tail_wf t" using t by (simp add: tail_ok_def)
  then have T: "valid_utf8 (tl_text t @ d)" using d by (simp add: tail_wf_def)
  have filled: "tl_text t' = tl_text t @ d \<and> faithful (bpe_encoding row) t'"
    if "fill_state (tl_text t @ d) (bpe_encoding row (tl_text t @ d)) = Ok t'" for t'
    using fill_state_Ok [OF that T] by (simp add: faithful_def)
  show "?P t (n_tokens t)" if "d = []" using f that by simp
  show "?P t' 0"
    if "tl_text t = []" "encode_state_with_source e d s = (s', Ok (enc, src))" "fill_soa_state d enc = Ok t'"
    for s s' enc src t'
    using fill_soa_state_Ok [OF that(3) d] encode_state_exact [OF d that(2)] that(1)
    by (simp add: faithful_def bpe_encoding_def comp_def)
  show "?P t' 0"
    if "ref_encode_core (fe_reference e) (tl_text t @ d) = Ok enc" "fill_state (tl_text t @ d) enc = Ok t'" for enc t'
    using filled [of t'] that(2) core_exact [OF T that(1)] by simp
  show "?P t' (mt_left m + mt_length m)"
    if w: "ws \<le> tl_chars t" "slice_chars (tl_text t @ d) ws (char_count (tl_text t @ d)) = Some wt"
      "window_encoding e wt s = (s1, Ok encoded)"
      "window_match e (ids_of t) (map snd (tail_row t)) (tl_text t @ d) (tl_chars t) ws encoded = Ok (Some m)"
      "spliced (ids_of t) (map snd (tail_row t)) encoded ws m = Ok out" "fill_state (tl_text t @ d) out = Ok t'"
    for ws wt s s1 encoded m out t'
  proof -
    have out: "out = bpe_encoding row (tl_text t @ d)" by (rule repair_splice_exact [OF t f d w(1-5) fill_count [OF w(6)]])
    note sh = splice_shape [OF t d w(1-5) fill_count [OF w(6)]]
    have len: "mt_left m + mt_length m \<le> n_tokens t" using sh(1) tail_row_props(1) [OF tw] by (simp add: run_of_def)
    then have "take (mt_left m + mt_length m) (ids_of t') = take (mt_left m + mt_length m) (ids_of t)"
      using fill_state_Ok(3) [OF w(6) T] sh(6) tail_row_props [OF tw] by (simp add: take_map [symmetric])
    then show ?thesis using filled [of t'] w(6) out len by blast
  qed
qed

lemma append_well_formed:
  assumes t: "tail_ok t" and d: "valid_utf8 d"
  shows "repaired (\<lambda>t' kept. tail_ok t') (\<lambda>rp. rp) t (fast_append e t d s)"
proof (rule fast_append_repaired)
  show tw: "tail_wf t" using t by (simp add: tail_ok_def)
  then have T: "valid_utf8 (tl_text t @ d)" using d by (simp add: tail_wf_def)
  show "tail_ok t" by (rule t)
  show "tail_ok t'" if "tl_text t = []" "encode_state_with_source e d s = (s', Ok (enc, src))" "fill_soa_state d enc = Ok t'"
    for s s' enc src t'
    using fill_soa_state_Ok [OF that(3) d] encode_state_exact [OF d that(2)] row_starts_sorted [OF d]
    by (simp add: tail_ok_def ordered_def)
  show "tail_ok t'" if "ref_encode_core (fe_reference e) (tl_text t @ d) = Ok enc" "fill_state (tl_text t @ d) enc = Ok t'"
    for enc t'
    using fill_ok [OF that(2) T] core_exact [OF T that(1)] row_starts_sorted [OF T] by (simp add: bpe_encoding_def comp_def)
  show "tail_ok t'"
    if w: "ws \<le> tl_chars t" "slice_chars (tl_text t @ d) ws (char_count (tl_text t @ d)) = Some wt"
      "window_encoding e wt s = (s1, Ok encoded)"
      "window_match e (ids_of t) (map snd (tail_row t)) (tl_text t @ d) (tl_chars t) ws encoded = Ok (Some m)"
      "spliced (ids_of t) (map snd (tail_row t)) encoded ws m = Ok out" "fill_state (tl_text t @ d) out = Ok t'"
    for ws wt s s1 encoded m out t'
    by (rule fill_ok [OF w(6) T splice_in_order [OF t d w(1-5) fill_count [OF w(6)]]])
qed

end

text \<open>
  The engines of the routing crate meet the contract of the session store: the corrected CPU engine
  with its cuts, and the reference wrapper, which never cuts.
\<close>

section \<open>Cuts\<close>

lemma span_window_fetches:
  "tail_wf t \<Longrightarrow> fetches (span_window t) (fst (spans_of t)) (snd (spans_of t))"
  by (auto simp: fetches_def span_slice_def span_window_ok spans_of_wf)

text \<open>Both ways to search a tail give what the search of its whole span row gives.\<close>

lemma fast_boundary_eq:
  assumes "tail_ok t"
  shows "fast_boundary e t floor_char ceil_char =
    Ok (sync_last_boundary (fe_boundary e) (tl_text t) (tl_chars t) (fst (spans_of t)) (snd (spans_of t)) floor_char ceil_char)"
proof -
  have t: "tail_wf t" "sorted (fst (spans_of t))" using assms by (simp_all add: tail_ok_def ordered_def)
  have len: "length (snd (spans_of t)) = length (fst (spans_of t))" "length (fst (spans_of t)) = n_tokens t"
    using spans_of_wf [OF t(1)] by simp_all
  show ?thesis
  proof (cases "spans_materialized t")
    case True
    then show ?thesis using forced_spans_ok [OF t(1)] by (simp add: fast_boundary_def case_prod_unfold)
  next
    case False
    then show ?thesis using windowed_equals_whole [OF span_window_fetches [OF t(1)] t(2) len(1)] len(2)
      by (simp add: fast_boundary_def)
  qed
qed

lemma fast_boundary_certified:
  assumes t: "tail_ok t" and b: "fast_boundary e t floor_char ceil_char = Ok (Some c)"
  shows "cut_tokens c < n_tokens t" "cut_char c = fst (spans_of t) ! cut_tokens c"
    "certified_cut (fe_boundary e) (chars (tl_text t)) (fst (spans_of t)) (snd (spans_of t)) floor_char
       (min ceil_char (tl_chars t)) (cut_tokens c)"
proof -
  have wf: "tail_wf t" using t by (simp add: tail_ok_def)
  then have n: "tl_chars t = char_count (tl_text t)" by (simp add: tail_wf_def)
  have "last_certified (fe_boundary e) (chars (tl_text t)) (fst (spans_of t)) (snd (spans_of t)) floor_char
      (min ceil_char (tl_chars t)) = Some c"
    using b last_boundary_last_certified [of "fe_boundary e" "tl_text t"] by (simp add: fast_boundary_eq [OF t] n split: if_splits)
  then obtain k where k: "last_below (certified_cut (fe_boundary e) (chars (tl_text t)) (fst (spans_of t)) (snd (spans_of t)) floor_char
      (min ceil_char (tl_chars t))) (n_tokens t) = Some k" and c: "c = \<lparr>cut_tokens = k, cut_char = fst (spans_of t) ! k\<rparr>"
    using spans_of_wf(1) [OF wf] by (auto simp: last_certified_def)
  from k [unfolded last_below_Some] c show "cut_tokens c < n_tokens t" "cut_char c = fst (spans_of t) ! cut_tokens c"
    "certified_cut (fe_boundary e) (chars (tl_text t)) (fst (spans_of t)) (snd (spans_of t)) floor_char
       (min ceil_char (tl_chars t)) (cut_tokens c)" by simp_all
qed

context bpe_route
begin

lemma cut_rows:
  assumes t: "tail_ok t" and f: "faithful (bpe_encoding row) t" and ceil_char: "ceil_char + fs_l_max (fe_spec e) \<le> tl_chars t"
    and b: "fast_boundary e t floor_char ceil_char = Ok (Some c)" and d: "valid_utf8 d"
  shows "row (tl_text t @ d) = take (cut_tokens c) (row (tl_text t))
      @ map (tok_shift (cut_char c)) (row (text_from (tl_text t) (cut_char c) @ d))"
    and "map (tok_shift (cut_char c)) (row (text_from (tl_text t) (cut_char c))) = drop (cut_tokens c) (row (tl_text t))"
proof -
  let ?x = "tl_text t" and ?k = "cut_tokens c" and ?p = "cut_char c"
  have wf: "tail_wf t" using t by (simp add: tail_ok_def)
  then have x: "valid_utf8 ?x" "tl_chars t = char_count ?x" by (simp_all add: tail_wf_def)
  note cc = fast_boundary_certified [OF t b]
  have r: "fst (spans_of t) = map tok_start (row ?x)" "snd (spans_of t) = map tok_end (row ?x)"
    using f by (simp_all add: faithful_def bpe_encoding_def comp_def)
  have k: "?k < length (row ?x)" using cc(1) spans_of_wf(1) [OF wf] r by simp
  note cert = cc(3) [unfolded certified_cut_def r]
  have "0 < ?k" "tok_start (row ?x ! ?k) = ?p" "tok_end (row ?x ! (?k - 1)) \<le> ?p" "0 < ?p" 
    "?p + fs_l_max (fe_spec e) \<le> char_count ?x" "?p < char_count ?x"
    "sync_accepts (fe_boundary e) (chars ?x ! (?p - 1)) (chars ?x ! ?p)"
    using cert cc(2) k ceil_char x(2) r by auto
  from cut_safe [OF x(1) d this(1) k this(2-7)]
  show "row (tl_text t @ d) = take (cut_tokens c) (row (tl_text t))
      @ map (tok_shift (cut_char c)) (row (text_from (tl_text t) (cut_char c) @ d))"
    and "map (tok_shift (cut_char c)) (row (text_from (tl_text t) (cut_char c))) = drop (cut_tokens c) (row (tl_text t))" .
qed

end

lemma fast_encoder_sel [simp]:
  "eng_encode (fast_encoder e s) x = snd (fast_encode e x s)"
  "eng_append (fast_encoder e s) t d = (case fast_append e t d s of ((_, t'), r) \<Rightarrow> (t', r))"
  "eng_boundary (fast_encoder e s) = fast_boundary e"
  by (simp_all add: fast_encoder_def)

lemma repaired_append:
  "repaired P (\<lambda>rp. rp) t (fast_append e t d s) \<Longrightarrow> eng_append (fast_encoder e s) t d = (t', Ok rp) \<Longrightarrow> P t' (rp_kept rp)"
  "repaired P (\<lambda>rp. rp) t (fast_append e t d s) \<Longrightarrow> eng_append (fast_encoder e s) t d = (t', r) \<Longrightarrow>
     (\<And>rp. r \<noteq> Ok rp) \<Longrightarrow> t' = t"
  "repaired (\<lambda>t' kept. Q t') (\<lambda>rp. rp) t (fast_append e t d s) \<Longrightarrow> Q t \<Longrightarrow> Q (fst (eng_append (fast_encoder e s) t d))"
  by (auto simp: repaired_def split: prod.splits outcome.splits)

text \<open>The engine meets the contract of the store, whatever its locks hold.\<close>

sublocale bpe_route \<subseteq> fast: session_encoder "fast_encoder e s" "bpe_encoding row" "fs_l_max (fe_spec e)" for s
proof unfold_locales
  show "tail_ok (fst (eng_append (fast_encoder e s) t d))" if "tail_ok t" "valid_utf8 d" for t d
    by (rule repaired_append(3) [OF append_well_formed [OF that] that(1)])
  show enc: "enc = bpe_encoding row x" if "valid_utf8 x" "eng_encode (fast_encoder e s) x = Ok enc" for x enc
    using fast_encode_exact [OF that(1), of s "fst (fast_encode e x s)" enc] that(2) by (simp add: prod_eq_iff)
  show "sorted (map fst (enc_spans enc))"
    if "valid_utf8 x" "char_count x \<le> u32_max" "eng_encode (fast_encoder e s) x = Ok enc" for x enc
    using enc [OF that(1,3)] row_starts_sorted [OF that(1)] by (simp add: bpe_encoding_def comp_def)
  show "bpe_encoding row [] = \<lparr>enc_ids = [], enc_spans = []\<rparr>" by (simp add: bpe_encoding_def row_empty)
  show "tl_text t' = tl_text t @ d \<and> faithful (bpe_encoding row) t'"
    if "tail_ok t" "faithful (bpe_encoding row) t" "valid_utf8 d" "eng_append (fast_encoder e s) t d = (t', Ok rp)" for t d t' rp
    using repaired_append(1) [OF append_faithful [OF that(1-3)] that(4)] by blast
  show "t' = t" if "tail_ok t" "eng_append (fast_encoder e s) t d = (t', r)" "\<And>rp. r \<noteq> Ok rp"
    for t t' :: tail_state and d r
  proof (rule repaired_append(2) [OF _ that(2,3)])
    show "repaired (\<lambda>_ _. True) (\<lambda>rp. rp) t (fast_append e t d s)"
      by (rule fast_append_repaired) (use that(1) in \<open>simp_all add: tail_ok_def\<close>)
  qed
  fix t ceil_char floor_char c assume h: "tail_ok t" "faithful (bpe_encoding row) t" "ceil_char + fs_l_max (fe_spec e) \<le> tl_chars t"
    "eng_boundary (fast_encoder e s) t floor_char ceil_char = Ok (Some c)"
  have b: "fast_boundary e t floor_char ceil_char = Ok (Some c)" using h(4) by simp
  have r: "ids_of t = map tok_id (row (tl_text t))" "spans_of t = (map tok_start (row (tl_text t)), map tok_end (row (tl_text t)))"
    using h(2) by (simp_all add: faithful_def bpe_encoding_def comp_def)
  show "enc_ids (bpe_encoding row (tl_text t @ d)) = take (cut_tokens c) (ids_of t)
      @ enc_ids (bpe_encoding row (drop (char_off (tl_text t) (cut_char c)) (tl_text t) @ d))" if d: "valid_utf8 d" for d
    using cut_rows(1) [OF h(1-3) b d] r by (simp add: bpe_encoding_def text_from_def take_map comp_def)
  let ?rest = "row (drop (char_off (tl_text t) (cut_char c)) (tl_text t))"
  have d: "drop (cut_tokens c) (row (tl_text t)) = map (tok_shift (cut_char c)) ?rest"
    using cut_rows(2) [OF h(1-3) b valid_Nil] by (simp add: text_from_def)
  show "(let rest = enc_spans (bpe_encoding row (drop (char_off (tl_text t) (cut_char c)) (tl_text t)))
     in (map fst rest, map snd rest)) = shifted (cut_tokens c) (cut_char c) (spans_of t)"
    by (simp add: Let_def shifted_def r bpe_encoding_def drop_map [symmetric] d comp_def) (simp add: drop_map d comp_def)
qed

end
