(* ===== verification/FastLive.thy ===== *)
theory FastLive
  imports RepairFacts
begin

text \<open>
  The corrected CPU engine answers whenever the reference does: a fast path that fails falls back, and a
  repair ends with a tail. The library may fail on a text, it does not panic.
\<close>

section \<open>No panic\<close>

lemma fill_lengths_no_panic: "fill_lengths added vocab lengths seen \<noteq> Panic"
  by (induction vocab arbitrary: lengths seen) (auto simp: Let_def split: if_splits)

lemma raw_table_no_panic [simp]: "build_raw_byte_lengths r \<noteq> Panic"
  by (auto simp: build_raw_byte_lengths_def Let_def rbind_eq_Panic fill_lengths_no_panic split: list.splits)

lemma try_map_no_panic: "(\<And>x. f x \<noteq> Panic) \<Longrightarrow> try_map f xs \<noteq> Panic"
  by (induction xs) (auto simp: rbind_eq_Panic)

lemma byte_bounds_no_panic [simp]: "byte_bounds table c ids \<noteq> Panic"
  by (induction ids arbitrary: c) (auto simp: rbind_eq_Panic)

lemma spans_from_ids_no_panic [simp]: "spans_from_ids ids table x \<noteq> Panic"
  unfolding pair_bridge by (auto simp: rbind_eq_Panic try_map_no_panic)

lemma spans_soa_no_panic [simp]: "spans_soa_from_ids ids table x \<noteq> Panic"
  by (auto simp: soa_of_pairs rbind_eq_Panic)

lemma fast_with_no_panic:
  assumes "\<And>x. ref_normalize (fe_reference e) x \<noteq> Panic" "\<And>ids. finish ids \<noteq> Panic"
  shows "fast_with e finish x w \<noteq> (w', Panic)"
proof -
  have "require_byte_identity e x \<noteq> Panic" using assms(1) by (auto simp: require_byte_identity_def rbind_eq_Panic)
  then show ?thesis using assms(2) by (cases "require_byte_identity e x") (auto simp: fast_with_def split: prod.splits)
qed

section \<open>Full encodes\<close>

lemma guarded_full_available:
  assumes "ref_row (fe_reference e) x = Ok y" "ref_flagged (fe_reference e) x = Ok (z, f)"
    "\<And>w w'. engine_row x w \<noteq> (w', Panic)"
  shows "\<exists>s' a src. guarded_full_with e ref_row ref_flagged engine_row x s = (s', Ok (a, src))"
proof -
  obtain st w where s: "s = (st, w)" by fastforce
  obtain w1 r where "engine_row x w = (w1, r)" by fastforce
  then show ?thesis using assms s by (cases r) (auto simp: guarded_full_with_def Let_def)
qed

lemma fast_encode_available:
  assumes lib: "\<And>x. ref_normalize (fe_reference e) x \<noteq> Panic" and r: "ref_encode_soa (fe_reference e) x = Ok y"
  shows "\<exists>s' soa src. encode_state_with_source e x s = (s', Ok (soa, src))" "\<exists>s' enc. fast_encode e x s = (s', Ok enc)"
proof -
  have "fast_state_encoding_with e x w \<noteq> (w', Panic)" for w w'
    unfolding fast_state_encoding_with_def
    by (rule fast_with_no_panic [OF lib]) (auto simp: rbind_eq_Panic ref_spans_soa_for_ids_def)
  then have "\<exists>p a src. full_state_with_source e x (fw_stats s, fw_primary s) = (p, Ok (a, src))"
    unfolding full_state_with_source_def
    using r by (intro guarded_full_available) (auto simp: ref_soa_flag_def)
  then show "\<exists>s' soa src. encode_state_with_source e x s = (s', Ok (soa, src))"
    by (auto simp: encode_state_with_source_def with_primary_def)
  then show "\<exists>s' enc. fast_encode e x s = (s', Ok enc)" by (auto simp: fast_encode_def)
qed

section \<open>Appends\<close>

lemma accepted_answers:
  assumes lib: "\<And>x. ref_normalize (fe_reference e) x \<noteq> Panic" and m: "0 < mt_length m" "mt_left m + mt_length m \<le> length spans"
  shows "\<exists>ok. match_accepted e m spans x = Ok ok"
proof -
  have loop: "index + n < length sp \<Longrightarrow> \<exists>ok. sync_witness_loop b cs sp index n = Ok ok"
    for b cs and sp :: "(nat \<times> nat) list" and index n
    by (induction n arbitrary: index) (auto simp: vec_get_def split: prod.splits)
  have w: "\<exists>ok. has_sync_witness b m spans x = Ok ok" for b
    unfolding has_sync_witness_def by (rule loop) (use m in simp)
  have "\<exists>n. covered_chars e m spans x = Ok n"
    using m lib by (auto simp: covered_chars_def vec_get_def split: prod.splits option.splits outcome.splits)
  then show ?thesis using w by (auto simp: match_accepted_def split: option.splits)
qed

lemma spliced_answers:
  assumes "window_match e ids spans full prev ws encoded = Ok (Some m)"
  shows "spliced ids spans encoded ws m =
    Ok \<lparr>enc_ids = take (mt_left m + mt_length m) ids @ drop (mt_right m + mt_length m) (enc_ids encoded),
        enc_spans = take (mt_left m + mt_length m) spans
          @ map (shift_span ws) (drop (mt_right m + mt_length m) (enc_spans encoded))\<rparr>"
proof -
  let ?lo = "ws + fs_margin (fe_spec e)"
  obtain left right where L: "build_records ids spans 0 ?lo prev = Ok left"
    and R: "build_records (enc_ids encoded) (enc_spans encoded) ws ?lo prev = Ok right"
    and m: "find_match left right = Some m"
    using assms by (auto simp: window_match_def Let_def rbind_eq_Ok split: option.splits if_splits)
  have "length ids = length spans" "length (enc_ids encoded) = length (enc_spans encoded)"
    using L R by (simp_all add: build_records_def split: if_splits)
  then show ?thesis using match_run(1) [OF L R m] by (simp add: run_of_def spliced_def Let_def)
qed

context bpe_route
begin

lemma reference_answers:
  assumes x: "valid_utf8 x" and cnt: "char_count x \<le> u32_max"
    and r: "tk_encode_offsets (rf_tokenizer (fe_reference e)) x = Ok p"
  shows "ref_encode_core (fe_reference e) x = Ok (bpe_encoding row x)"
    "ref_encode_soa (fe_reference e) x
      = Ok \<lparr>soa_ids = map tok_id (row x), soa_starts = map tok_start (row x), soa_ends = map tok_end (row x)\<rparr>"
proof -
  have p: "p = (map tok_id (row x), map snd (row x))"
    using reference_offsets [OF x, of "fst p" "snd p"] r by (simp add: prod_eq_iff)
  have small: "\<forall>q \<in> set (map snd (row x)). fst q \<le> u32_max \<and> snd q \<le> u32_max"
    using row_span [OF x] cnt by fastforce
  have "try_map offset_u32 qs = Ok qs" if "\<forall>q \<in> set qs. fst q \<le> u32_max \<and> snd q \<le> u32_max" for qs
    using that by (induction qs) (auto simp: offset_u32_def)
  then show "ref_encode_core (fe_reference e) x = Ok (bpe_encoding row x)"
    using small by (simp add: ref_encode_core_def r p bpe_encoding_def)
  have "split_offsets qs s t = Ok (s @ map fst qs, t @ map snd qs)" if "\<forall>q \<in> set qs. fst q \<le> u32_max \<and> snd q \<le> u32_max" for qs s t
    using that by (induction qs s t rule: split_offsets.induct) auto
  then show "ref_encode_soa (fe_reference e) x
      = Ok \<lparr>soa_ids = map tok_id (row x), soa_starts = map tok_start (row x), soa_ends = map tok_end (row x)\<rparr>"
    using small by (simp add: ref_encode_soa_def r p comp_def)
qed

lemma row_spans_ok: "valid_utf8 x \<Longrightarrow> list_all (span_ok (char_count x)) (map snd (row x))"
  using row_span by (fastforce simp: list_all_iff span_ok_def)

lemma row_fills:
  assumes x: "valid_utf8 x" and cnt: "char_count x \<le> u32_max"
  shows "\<exists>t. fill_state x (bpe_encoding row x) = Ok t"
    "\<exists>t. fill_soa_state x \<lparr>soa_ids = map tok_id (row x), soa_starts = map tok_start (row x), soa_ends = map tok_end (row x)\<rparr> = Ok t"
proof -
  show "\<exists>t. fill_state x (bpe_encoding row x) = Ok t"
    using cnt row_spans_ok [OF x] by (simp add: fill_state_def chars_u32_def encoding_validate_def bpe_encoding_def rbind_eq_Ok)
  have "zip (map tok_start (row x)) (map tok_end (row x)) = map snd (row x)" by (simp add: zip_map_map zip_same_conv_map)
  then show "\<exists>t. fill_soa_state x \<lparr>soa_ids = map tok_id (row x), soa_starts = map tok_start (row x), soa_ends = map tok_end (row x)\<rparr> = Ok t"
    using cnt row_spans_ok [OF x]
    by (simp add: fill_soa_state_def chars_u32_def soa_validate_def validate_span_arrays_def Let_def rbind_eq_Ok)
qed

lemma fall_back_answers:
  assumes x: "valid_utf8 x" and cnt: "char_count x \<le> u32_max" and r: "tk_encode_offsets (rf_tokenizer (fe_reference e)) x = Ok p"
  shows "\<exists>st a. fall_back e x reason s t = (st, Ok a)"
  using row_fills(1) [OF x cnt] reference_answers(1) [OF x cnt r]
  by (auto simp: fall_back_def reference_full_def repair_fill_def fill_def)

lemma window_encoding_no_panic:
  assumes lib: "\<And>x. ref_normalize (fe_reference e) x \<noteq> Panic"
  shows "window_encoding e x s \<noteq> (s', Panic)"
proof -
  have "fast_encoding_with e x w \<noteq> (w', Panic)" for w w'
    unfolding fast_encoding_with_def
    by (rule fast_with_no_panic [OF lib]) (auto simp: rbind_eq_Panic ref_spans_for_ids_def)
  moreover have "require_byte_identity e x \<noteq> Panic" using lib by (auto simp: require_byte_identity_def rbind_eq_Panic)
  ultimately show ?thesis
    by (cases "require_byte_identity e x"; cases "fast_encoding_with e x (fw_primary s)"; cases "snd (fast_encoding_with e x (fw_primary s))")
      (auto simp: window_encoding_def fast_encoding_def split: prod.splits)
qed

lemma window_answers:
  assumes lib: "\<And>x. ref_normalize (fe_reference e) x \<noteq> Panic" and t: "tail_wf t" and x: "valid_utf8 wt"
    and enc: "window_encoding e wt s = (s1, Ok encoded)"
  shows "\<exists>found. window_match e (ids_of t) (map snd (tail_row t)) x prev ws encoded = Ok found"
proof -
  have e: "encoded = bpe_encoding row wt" by (rule window_exact [OF x enc])
  let ?lo = "ws + fs_margin (fe_spec e)"
  have len: "length (ids_of t) = length (map snd (tail_row t))" using tail_row_props(1) [OF t] by simp
  then obtain left where L: "build_records (ids_of t) (map snd (tail_row t)) 0 ?lo prev = (Ok left :: (string, _) outcome)"
    by (simp add: build_records_def)
  obtain right where R: "build_records (enc_ids encoded) (enc_spans encoded) ws ?lo prev = (Ok right :: (string, _) outcome)"
    by (simp add: build_records_def e bpe_encoding_def)
  show ?thesis
  proof (cases "find_match left right")
    case None
    then show ?thesis using L R by (simp add: window_match_def Let_def)
  next
    case (Some m)
    note run = match_run [OF L R Some]
    have "mt_left m + mt_length m \<le> length (map snd (tail_row t))" using run(1) len by (simp add: run_of_def)
    from accepted_answers [OF lib run(2) this] obtain ok where "match_accepted e m (map snd (tail_row t)) x = Ok ok" ..
    then show ?thesis using L R Some by (simp add: window_match_def Let_def)
  qed
qed

text \<open>The loop ends with an answer, in a window or through the reference.\<close>

lemma repair_loop_answers:
  assumes lib: "\<And>x. ref_normalize (fe_reference e) x \<noteq> Panic"
    and t: "tail_ok t" and f: "faithful (bpe_encoding row) t" and d: "valid_utf8 d"
    and cnt: "char_count (tl_text t @ d) \<le> u32_max"
    and r: "tk_encode_offsets (rf_tokenizer (fe_reference e)) (tl_text t @ d) = Ok p"
  shows "\<exists>st a. repair_loop e t (tl_text t @ d) (map snd (tail_row t)) (tl_chars t) window retries s = (st, Ok a)"
proof -
  let ?x = "tl_text t @ d" and ?S = "map snd (tail_row t)"
  have tw: "tail_wf t" using t by (simp add: tail_ok_def)
  then have x: "valid_utf8 ?x" using d by (simp add: tail_wf_def)
  have "e' = e \<Longrightarrow> u = t \<Longrightarrow> full = ?x \<Longrightarrow> spans = ?S \<Longrightarrow> n = tl_chars t \<Longrightarrow>
      \<exists>st a. repair_loop e' u full spans n window retries s = (st, Ok a)" for e' u full spans n
  proof (induction e' u full spans n window retries s rule: repair_loop.induct)
    case (1 e' u full spans n window retries s)
    note eqs = "1.prems"
    have fb: "\<exists>st a. fall_back e ?x reason s' t = (st, Ok a)" for reason s' by (rule fall_back_answers [OF x cnt r])
    let ?ws = "n - window"
    show ?case
    proof (cases "window < n")
      case False
      then show ?thesis using fb eqs by (subst repair_loop.simps) simp
    next
      case True
      show ?thesis
      proof (cases "slice_chars full ?ws (char_count full)")
        case None
        then show ?thesis using True fb eqs by (subst repair_loop.simps) simp
      next
        case (Some wt)
        have le: "?ws \<le> tl_chars t" using eqs by simp
        moreover have "tl_chars t \<le> char_count ?x" using tw d by (simp add: tail_wf_def chars_append_valid)
        ultimately have wt: "wt = text_from ?x ?ws" using Some slice_chars_from [of ?ws ?x] eqs by simp
        obtain s1 q where w: "window_encoding e' wt s = (s1, q)" by fastforce
        then show ?thesis
        proof (cases q)
          case Panic
          then show ?thesis using w window_encoding_no_panic [OF lib] eqs by simp
        next
          case (Err m)
          then show ?thesis using True Some w fb eqs by (simp add: repair_loop.simps [of e])
        next
          case (Ok encoded)
          obtain found where found: "window_match e' (ids_of u) spans full n ?ws encoded = Ok found"
            using window_answers [OF lib tw, of wt s s1 encoded ?x n ?ws] wt x w Ok eqs by auto
          show ?thesis
          proof (cases found)
            case None
            have "\<exists>st a. repair_loop e' u full spans n (min (window * 2) u64_max) (retries + 1) s1 = (st, Ok a)"
              if "\<not> fs_max_retries (fe_spec e') \<le> retries"
              by (rule "1.IH" [OF True refl Some w [symmetric] Ok that eqs])
            then show ?thesis using True Some w Ok found None fb eqs by (simp add: repair_loop.simps [of e])
          next
            case m: (Some m)
            let ?out = "\<lparr>enc_ids = take (mt_left m + mt_length m) (ids_of t) @ drop (mt_right m + mt_length m) (enc_ids encoded),
                enc_spans = take (mt_left m + mt_length m) ?S
                  @ map (shift_span ?ws) (drop (mt_right m + mt_length m) (enc_spans encoded))\<rparr>"
            have spl: "spliced (ids_of t) ?S encoded ?ws m = Ok ?out"
              using spliced_answers [of e' "ids_of u" spans full n ?ws encoded m] found m eqs by simp
            have "?out = bpe_encoding row ?x"
              by (rule repair_splice_exact [OF t f d le _ _ _ spl cnt]) (use Some w Ok found m eqs in auto)
            then obtain t' where "fill_state ?x ?out = Ok t'" using row_fills(1) [OF x cnt] by auto
            then show ?thesis using True Some w Ok found m spl eqs
              by (simp add: repair_loop.simps [of e] repair_fill_def fill_def Let_def)
          qed
        qed
      qed
    qed
  qed
  then show ?thesis by blast
qed

lemma append_answers:
  assumes lib: "\<And>x. ref_normalize (fe_reference e) x \<noteq> Panic"
    and t: "tail_ok t" and f: "faithful (bpe_encoding row) t" and d: "valid_utf8 d"
    and cnt: "char_count (tl_text t @ d) \<le> u32_max"
    and r: "tk_encode_offsets (rf_tokenizer (fe_reference e)) (tl_text t @ d) = Ok p"
  shows "\<exists>st rp. fast_append e t d s = (st, Ok rp)"
proof -
  have tw: "tail_wf t" using t by (simp add: tail_ok_def)
  have "\<exists>st a. append_with_repair_input e t d s = (st, Ok a)"
  proof (cases "tl_text t = []")
    case True
    have rd: "tk_encode_offsets (rf_tokenizer (fe_reference e)) d = Ok p" and cd: "char_count d \<le> u32_max"
      using r cnt True by simp_all
    obtain s' soa src where c: "encode_state_with_source e d s = (s', Ok (soa, src))"
      using fast_encode_available(1) [OF lib reference_answers(2) [OF d cd rd]] by blast
    then obtain t' where "fill_soa_state d soa = Ok t'"
      using encode_state_exact [OF d c] row_fills(2) [OF d cd] by auto
    then show ?thesis using c True by (simp add: append_with_repair_input_def fill_soa_def)
  next
    case False
    have sp: "tail_spans_pairs t = Ok (map snd (tail_row t))"
      using forced_spans_ok [OF tw] tail_row_props(3) [OF tw] by (simp add: tail_spans_pairs_def case_prod_unfold)
    have len: "n_tokens t = length (map snd (tail_row t))" using tail_row_props(1) [OF tw] by simp
    show ?thesis using repair_loop_answers [OF lib t f d cnt r] False sp len
      by (cases "d = []") (simp_all add: append_with_repair_input_def repair_append_def Let_def)
  qed
  then show ?thesis by (auto simp: fast_append_def)
qed

end

end
