(* ===== verification/ByteRoute.thy ===== *)
theory ByteRoute
  imports RepairFacts
begin

text \<open>
  A byte-level tokenizer without merges: every byte is a token, the vocabulary names the 256 bytes. Its
  engine, built by the constructor of the code, satisfies the laws of a route, so the contract of the
  engine can be met.
\<close>

section \<open>Its rows\<close>

lemma byte_id [simp]: "(ucast (ucast (b :: u8) :: u32) :: u8) = b"
  by transfer simp

lemma unat_byte_id [simp]: "unat (ucast (b :: u8) :: u32) = unat b"
  by transfer simp

fun byte_rows :: "nat \<Rightarrow> str list \<Rightarrow> token list" where
  "byte_rows k [] = []"
| "byte_rows k (c # cs) = map (\<lambda>b. (ucast b, k, Suc k)) c @ byte_rows (Suc k) cs"

definition byte_row :: "str \<Rightarrow> token list" where
  "byte_row x = byte_rows 0 (chars x)"

definition byte_inside :: "u32 \<Rightarrow> bool" where
  "byte_inside i = is_cont (ucast i)"

lemma byte_rows_append: "byte_rows k (xs @ ys) = byte_rows k xs @ byte_rows (k + length xs) ys"
  by (induction xs arbitrary: k) simp_all

lemma byte_rows_shift: "byte_rows (k + n) cs = map (tok_shift n) (byte_rows k cs)"
proof (induction cs arbitrary: k)
  case (Cons c cs)
  then show ?case using Cons.IH [of "Suc k"] by (simp add: tok_shift_def comp_def)
qed simp

lemma byte_rows_span: "t \<in> set (byte_rows k cs) \<Longrightarrow> k \<le> tok_start t \<and> tok_start t < k + length cs \<and> tok_end t = Suc (tok_start t)"
  by (induction cs arbitrary: k) (force simp: less_Suc_eq)+

lemma byte_rows_sorted: "sorted (map tok_start (byte_rows k cs))"
  by (induction cs arbitrary: k) (auto simp: sorted_append comp_def sorted_replicate map_replicate_const dest: byte_rows_span)

lemma byte_rows_ids: "map tok_id (byte_rows k cs) = map ucast (concat cs)"
  by (induction cs arbitrary: k) (simp_all add: comp_def)

lemma byte_row_ids: "map tok_id (byte_row x) = map ucast x"
  by (simp add: byte_row_def byte_rows_ids)

lemma byte_row_starts: "map tok_start (byte_row x) = char_of_byte x"
proof -
  have "map tok_start (byte_rows k cs) = concat (map (\<lambda>(i, c). replicate (length c) i) (enumerate k cs))" for k cs
    by (induction cs arbitrary: k) (simp_all add: comp_def map_replicate_const)
  then show ?thesis by (simp add: byte_row_def char_of_byte_def)
qed

lemma byte_row_ends: "map tok_end (byte_row x) = map Suc (map tok_start (byte_row x))"
  using byte_rows_span by (fastforce simp: byte_row_def)

lemma byte_rows_inside:
  assumes "\<forall>c \<in> set cs. c \<noteq> [] \<and> \<not> is_cont (hd c) \<and> (\<forall>b \<in> set (tl c). is_cont b)" "j < length (byte_rows k cs)"
  shows "byte_inside (tok_id (byte_rows k cs ! j))
    \<longleftrightarrow> 0 < j \<and> tok_start (byte_rows k cs ! j) < tok_end (byte_rows k cs ! (j - 1))"
  using assms
proof (induction cs arbitrary: k j)
  case (Cons c cs)
  have c: "c \<noteq> []" "\<not> is_cont (hd c)" "\<forall>b \<in> set (tl c). is_cont b" using Cons.prems(1) by simp_all
  show ?case
  proof (cases "j < length c")
    case True
    have "is_cont (c ! j) \<longleftrightarrow> 0 < j"
      using c True by (cases j) (simp_all add: hd_conv_nth nth_tl [symmetric])
    then show ?thesis using True by (auto simp: nth_append byte_inside_def less_imp_diff_less)
  next
    case False
    let ?i = "j - length c" and ?R = "byte_rows (Suc k) cs"
    have i: "?i < length ?R" using Cons.prems(2) False by simp
    then have j: "byte_rows k (c # cs) ! j = ?R ! ?i" using False by (simp add: nth_append)
    have ih: "byte_inside (tok_id (?R ! ?i)) \<longleftrightarrow> 0 < ?i \<and> tok_start (?R ! ?i) < tok_end (?R ! (?i - 1))"
      using Cons.IH [OF _ i] Cons.prems(1) by simp
    show ?thesis
    proof (cases "?i = 0")
      case True
      then have jc: "j = length c" using False by simp
      then have "0 < j" using c(1) by simp
      then have "tok_end (byte_rows k (c # cs) ! (j - 1)) = Suc k" by (simp add: nth_append jc)
      moreover have "Suc k \<le> tok_start (?R ! ?i)" using byte_rows_span [OF nth_mem [OF i]] by simp
      ultimately show ?thesis using ih True j by simp
    next
      case pos: False
      then have lt: "\<not> j - 1 < length c" "0 < j" "j - 1 - length c = ?i - 1" by linarith+
      then have "byte_rows k (c # cs) ! (j - 1) = ?R ! (?i - 1)" by (simp only: byte_rows.simps nth_append length_map if_False)
      then show ?thesis using ih j pos lt(2) by simp
    qed
  qed
qed simp

section \<open>The laws of a tokenizer\<close>

lemma byte_row_reference: "bpe_reference byte_row {} ok byte_inside cover l_max"
proof unfold_locales
  fix x :: str assume x: "valid_utf8 x"
  show "tok_start t < tok_end t \<and> tok_end t \<le> char_count x" if "t \<in> set (byte_row x)" for t
    using byte_rows_span that by (fastforce simp: byte_row_def)
  show "tok_start (byte_row x ! i) \<le> tok_start (byte_row x ! j)" if "i \<le> j" "j < length (byte_row x)" for i j
    using sorted_nth_mono [OF byte_rows_sorted [of 0 "chars x"], of i j] that by (simp add: byte_row_def)
  show "tok_end (byte_row x ! i) = Suc (tok_start (byte_row x ! i))" if "i < j" "j < length (byte_row x)" for i j
    using byte_rows_span [of "byte_row x ! i" 0 "chars x"] that by (simp add: byte_row_def)
  show "byte_inside (tok_id (byte_row x ! j)) \<longleftrightarrow> 0 < j \<and> tok_start (byte_row x ! j) < tok_end (byte_row x ! (j - 1))"
    if "j < length (byte_row x)" for j
    unfolding byte_row_def
  proof (rule byte_rows_inside)
    show "\<forall>c \<in> set (chars x). c \<noteq> [] \<and> \<not> is_cont (hd c) \<and> (\<forall>b \<in> set (tl c). is_cont b)"
      using x valid_scalar_hd chars_tail_cont by (auto simp: valid_utf8_def list_all_iff)
  qed (use that in \<open>simp add: byte_row_def\<close>)
  show "splits_at byte_row x p \<or> (\<exists>s e. (s, e) \<in> literals byte_row {} x \<and> s < p \<and> p < e)" if "p < char_count x" for p
  proof -
    have "byte_rows 0 (take p (chars x) @ drop p (chars x)) = byte_rows 0 (take p (chars x)) @ byte_rows p (drop p (chars x))"
      using that by (simp only: byte_rows_append) simp
    then have "splits_at byte_row x p" using byte_rows_shift [of 0 p "drop p (chars x)"] by (simp add: splits_at_def byte_row_def)
    then show ?thesis ..
  qed
  show "take j (byte_row x) = take j (byte_row (x @ d))" if "valid_utf8 d" "j < length (byte_row x)" for d j
    using that by (simp add: byte_row_def chars_append_valid byte_rows_append)
qed (simp_all add: literals_def)

section \<open>Its engine\<close>

text \<open>The vocabulary names every byte by its character of the byte-level alphabet.\<close>

definition utf8_two :: "nat \<Rightarrow> str" where
  "utf8_two n = (if n < 128 then [of_nat n] else [of_nat (192 + n div 64), of_nat (128 + n mod 64)])"

definition byte_name :: "nat \<Rightarrow> str" where
  "byte_name b =
     utf8_two (if b \<in> set visible_bytes then b
               else 256 + length (filter (\<lambda>c. c \<notin> set visible_bytes) [0..<b]))"

definition byte_vocab :: "(str \<times> u32) list" where
  "byte_vocab = map (\<lambda>b. (byte_name b, of_nat b)) [0..<256]"

definition byte_tokenizer :: tokenizer where
  "byte_tokenizer =
     \<lparr>tk_encode = (\<lambda>x special. Ok (map ucast x)),
      tk_encode_batch = (\<lambda>xs special. Ok (map (map ucast) xs)),
      tk_encode_offsets = (\<lambda>x. Ok (map ucast x, map snd (byte_row x))),
      tk_normalizer = None, tk_vocab = byte_vocab, tk_added_vocab = [], tk_added_decoder = []\<rparr>"

definition byte_reference :: reference where
  "byte_reference = \<lparr>rf_tokenizer = byte_tokenizer, rf_identity = True, rf_sha256 = 0\<rparr>"

text \<open>The worker counts the texts it has seen, to stand for what an encode may leave behind.\<close>

definition byte_gigatoken :: "nat gigatoken" where
  "byte_gigatoken =
     \<lparr>gt_encode = (\<lambda>w x. (Suc w, map ucast x)), gt_fork = (\<lambda>w. w), gt_vocab_size = (\<lambda>w. 256),
      gt_vocab_entries = (\<lambda>w. map (\<lambda>b. (of_nat b, [of_nat b])) [0..<256])\<rparr>"

definition byte_class :: "nat \<Rightarrow> u8" where
  "byte_class v = (if 97 \<le> v \<and> v \<le> 122 then 2 else if v = 32 then 1 else 0)"

definition byte_engine :: "repair_spec \<Rightarrow> nat fast_engine" where
  "byte_engine spec =
     \<lparr>fe_spec = spec, fe_reference = byte_reference, fe_boundary = \<lparr>sb_classes = map byte_class [0..<n_codepoints]\<rparr>,
      fe_gate = added_gate_new byte_reference, fe_gigatoken = byte_gigatoken\<rparr>"

lemma unat_small: "m < 256 \<Longrightarrow> unat (of_nat m :: u8) = m"
  by (simp add: unsigned_of_nat take_bit_eq_mod)

lemma utf8_two_char:
  assumes "n < 2048"
  shows "chars (utf8_two n) = [utf8_two n]" "scalar_of (utf8_two n) = n"
proof -
  have q: "n div 64 < 32" using assms by (simp add: less_mult_imp_div_less)
  have u: "unat (of_nat (192 + n div 64) :: u8) = 192 + n div 64" "unat (of_nat (128 + n mod 64) :: u8) = 128 + n mod 64"
  proof -
    have "192 + n div 64 < 256" "128 + n mod 64 < 256" using q mod_less_divisor [of 64 n] by linarith+
    then show "unat (of_nat (192 + n div 64) :: u8) = 192 + n div 64" "unat (of_nat (128 + n mod 64) :: u8) = 128 + n mod 64"
      by (simp_all only: unat_small)
  qed
  have "is_cont (of_nat (128 + n mod 64))" unfolding is_cont_unat u by simp
  then show "chars (utf8_two n) = [utf8_two n]" by (simp add: utf8_two_def del: of_nat_add)
  have "(192 + n div 64) mod 32 = n div 64" "(128 + n mod 64) mod 64 = n mod 64"
    using q mod_mult_self1 [of "n div 64" 6 32] mod_mult_self1 [of "n mod 64" 2 64] by (simp_all add: add.commute)
  then show "scalar_of (utf8_two n) = n" using u unat_small [of n] by (simp add: utf8_two_def unat_masks del: of_nat_add)
qed

lemma byte_name_length:
  assumes "b < 256"
  shows "token_raw_length [] (byte_name b) = 1"
proof -
  let ?rest = "\<lambda>n. filter (\<lambda>c. c \<notin> set visible_bytes) [0..<n]"
  define n where "n = (if b \<in> set visible_bytes then b else 256 + length (?rest b))"
  have "n \<in> set byte_alphabet"
  proof (cases "b \<in> set visible_bytes")
    case True
    then show ?thesis by (simp add: n_def byte_alphabet_def)
  next
    case False
    have "[0..<256] = [0..<b] @ b # [Suc b..<256]" using assms upt_add_eq_append [of 0 b "256 - b"] by (simp add: upt_conv_Cons)
    then have "length (?rest b) < length (?rest 256)" using False by simp
    then show ?thesis using False by (simp add: n_def byte_alphabet_def)
  qed
  moreover have "n < 2048"
  proof -
    have "length (?rest b) \<le> length [0..<b]" by (rule length_filter_le)
    then show ?thesis using assms by (simp add: n_def)
  qed
  ultimately show ?thesis using utf8_two_char [of n] by (simp add: token_raw_length_def byte_name_def n_def)
qed

section \<open>The table of its byte lengths\<close>

text \<open>Both loops over a vocabulary set the length of an id and mark it as seen.\<close>

fun mark :: "nat \<times> nat \<Rightarrow> nat list \<times> bool list \<Rightarrow> nat list \<times> bool list" where
  "mark (i, n) (lengths, seen) = (lengths[i := n], seen[i := True])"

lemma fill_lengths_marks:
  "\<forall>(token, i) \<in> set vocab. unat i < length lengths \<Longrightarrow> fill_lengths added vocab lengths seen =
     Ok (fold mark (map (\<lambda>(token, i). (unat i, token_raw_length added token)) vocab) (lengths, seen))"
  by (induction vocab arbitrary: lengths seen) (auto simp: Let_def)

lemma fill_verified_marks:
  "\<forall>(i, bytes) \<in> set entries. unat i < n \<Longrightarrow> fill_verified n entries lengths seen =
     Ok (fold mark (map (\<lambda>(i, bytes). (unat i, length bytes)) entries) (lengths, seen))"
  by (induction entries arbitrary: lengths seen) (auto simp: Let_def)

lemma marks_ones:
  assumes "\<forall>p \<in> set ps. snd p = 1" "fold mark ps (lengths, seen) = (lengths', seen')"
  shows "length lengths' = length lengths \<and> length seen' = length seen
    \<and> (\<forall>j < length lengths. lengths' ! j = (if j \<in> fst ` set ps then 1 else lengths ! j))
    \<and> (\<forall>j < length seen. seen' ! j \<longleftrightarrow> j \<in> fst ` set ps \<or> seen ! j)"
  using assms
proof (induction ps arbitrary: lengths seen)
  case (Cons p ps)
  obtain i where p: "p = (i, 1)" using Cons.prems(1) by (cases p) simp
  have "fold mark ps (lengths[i := 1], seen[i := True]) = (lengths', seen')" using Cons.prems(2) p by simp
  from Cons.IH [OF _ this] Cons.prems(1) have ih: "length lengths' = length lengths" "length seen' = length seen"
    "\<forall>j < length lengths. lengths' ! j = (if j \<in> fst ` set ps then 1 else lengths[i := 1] ! j)"
    "\<forall>j < length seen. seen' ! j \<longleftrightarrow> j \<in> fst ` set ps \<or> seen[i := True] ! j" by simp_all
  have "seen[i := True] ! j \<longleftrightarrow> j = i \<or> seen ! j" if "j < length seen" for j
    using that by (cases "i = j") simp_all
  then show ?case using ih p by (auto simp: nth_list_update)
qed simp

lemma set_byte_vocab: "set byte_vocab = (\<lambda>b. (byte_name b, of_nat b)) ` {..<256}"
  by (simp only: byte_vocab_def set_map set_upt atLeast0LessThan)

lemma unat_id: "b < 256 \<Longrightarrow> unat (of_nat b :: u32) = b"
  by (simp add: unsigned_of_nat take_bit_eq_mod)

lemma byte_vocab_ids: "(\<lambda>(_, i). unat i) ` set byte_vocab = {..<256}" "unat ` snd ` set byte_vocab = {..<256}"
  unfolding set_byte_vocab image_image using unat_id by (auto intro!: image_eqI)

lemma byte_table: "build_raw_byte_lengths byte_reference = Ok (replicate 256 1)"
proof -
  have m: "Max (set (map (\<lambda>(_, i). unat i) byte_vocab)) = 255"
    unfolding set_map byte_vocab_ids by (rule Max_eqI) auto
  have "\<forall>(token, i) \<in> set byte_vocab. token_raw_length [] token = 1 \<and> unat i < length (replicate 256 (0 :: nat))"
    using byte_name_length unat_id by (auto simp: set_byte_vocab)
  then have v: "\<forall>(token, i) \<in> set byte_vocab. unat i < length (replicate 256 (0 :: nat))"
    and ones: "\<forall>p \<in> set (map (\<lambda>(token, i). (unat i, token_raw_length [] token)) byte_vocab). snd p = 1" by auto
  obtain l s where ls: "fold mark (map (\<lambda>(token, i). (unat i, token_raw_length [] token)) byte_vocab)
      (replicate 256 0, replicate 256 False) = (l, s)" by fastforce
  have "fst ` set (map (\<lambda>(token, i). (unat i, token_raw_length [] token)) byte_vocab) = {..<256}"
    using byte_vocab_ids(1) by (auto simp: image_image case_prod_unfold)
  with marks_ones [OF ones ls] have f: "fill_lengths [] byte_vocab (replicate 256 0) (replicate 256 False) = Ok (l, s)"
    "length l = 256" "length s = 256" "\<forall>j < 256. l ! j = 1" "\<forall>j < 256. s ! j"
    using fill_lengths_marks [OF v] ls by simp_all
  have "l = replicate 256 1" using f by (simp add: list_eq_iff_nth_eq)
  moreover have "filter (\<lambda>i. \<not> s ! i) [0..<length s] = []" using f by (auto simp: filter_empty_conv)
  moreover have "byte_vocab \<noteq> []" using byte_vocab_ids(2) by (metis image_empty lessThan_empty_iff list.set(1) rel_simps(76) zero_neq_numeral)
  moreover have "(255 :: nat) + 1 = 256" by simp
  ultimately show ?thesis
    by (simp only: build_raw_byte_lengths_def byte_reference_def byte_tokenizer_def Let_def reference.select_convs
        tokenizer.select_convs m f(1) if_False rbind.simps prod.case list.case)
qed

section \<open>The laws of the route\<close>

lemma byte_spans: "naive_from x (replicate 256 1) k (map ucast (bs :: u8 list)) =
    (map (\<lambda>i. char_of_byte x ! i) [k..<k + length bs], map (\<lambda>i. Suc (char_of_byte x ! i)) [k..<k + length bs])"
proof (induction bs arbitrary: k)
  case (Cons b bs)
  have "replicate 256 (1 :: nat) ! unat b = 1" using unat_byte_less [of b] by (rule nth_replicate)
  moreover have "[k..<k + length (b # bs)] = k # [Suc k..<Suc k + length bs]" by (simp add: upt_conv_Cons del: upt_Suc)
  ultimately show ?case using Cons.IH [of "Suc k"] by (simp add: Let_def del: upt_Suc)
qed simp

lemma byte_row_naive: "naive_spans x (replicate 256 1) (map ucast x) = (map tok_start (byte_row x), map tok_end (byte_row x))"
proof -
  have "length (char_of_byte x) = length x"
    using arg_cong [OF byte_row_ids [of x], of length] arg_cong [OF byte_row_starts [of x], of length] by simp
  then have "map (\<lambda>i. char_of_byte x ! i) [0..<length x] = char_of_byte x" by (metis map_nth)
  then have "map (\<lambda>i. Suc (char_of_byte x ! i)) [0..<length x] = map Suc (char_of_byte x)"
    "map (\<lambda>i. char_of_byte x ! i) [0..<length x] = char_of_byte x" by (metis (no_types, lifting) comp_def list.map_comp map_eq_conv)+
  then show ?thesis
    using byte_row_starts [of x] byte_row_ends [of x] byte_spans [of x 0 x]
    by (simp add: naive_spans_def comp_def)
qed

interpretation byte: bpe_route byte_row "{}" byte_inside "byte_engine spec" for spec
proof (rule bpe_route.intro [OF byte_row_reference], unfold_locales)
  fix x :: str and ids
  show "ids = map tok_id (byte_row x) \<and> offsets = map snd (byte_row x)"
    if "tk_encode_offsets (rf_tokenizer (fe_reference (byte_engine spec))) x = Ok (ids, offsets)" for offsets
    using that by (auto simp: byte_engine_def byte_reference_def byte_tokenizer_def byte_row_ids)
  show "ids = map tok_id (byte_row x)" if "tk_encode (rf_tokenizer (fe_reference (byte_engine spec))) x False = Ok ids"
    using that by (auto simp: byte_engine_def byte_reference_def byte_tokenizer_def byte_row_ids)
  show "ids = map tok_id (byte_row x) \<and> naive_spans x table ids = (map tok_start (byte_row x), map tok_end (byte_row x))"
    if "gt_encode (fe_gigatoken (byte_engine spec)) w x = (w', ids)"
      "build_raw_byte_lengths (fe_reference (byte_engine spec)) = Ok table" for w w' table
    using that byte_row_naive [of x] byte_table
    by (auto simp: byte_engine_def byte_gigatoken_def byte_row_ids simp del: replicate.simps)
qed

section \<open>Its constructor\<close>

lemma byte_verified: "verified_byte_lengths byte_gigatoken w 256 = Ok (replicate 256 1)"
proof -
  let ?es = "map (\<lambda>b. (of_nat b :: u32, [of_nat b :: u8])) [0..<256]"
  let ?ps = "map (\<lambda>(i, bytes). (unat i, length bytes)) ?es"
  have ids: "fst ` set ?ps = {..<256}"
    using unat_id by (force simp only: set_map set_upt atLeast0LessThan image_image prod.case fst_conv)
  have "\<forall>p \<in> set ?ps. snd p = 1" by (simp only: set_map image_image prod.case) simp
  moreover obtain l s where ls: "fold mark ?ps (replicate 256 0, replicate 256 False) = (l, s)" by fastforce
  ultimately have f: "length l = 256" "length s = 256" "\<forall>j < 256. l ! j = 1" "\<forall>j < 256. s ! j"
    using marks_ones [of ?ps "replicate 256 0" "replicate 256 False" l s] unfolding ids by simp_all
  have "l = replicate 256 1" using f by (simp add: list_eq_iff_nth_eq)
  moreover have "filter (\<lambda>i. \<not> s ! i) [0..<256] = []" using f unfolding filter_empty_conv set_upt by simp
  moreover have "\<forall>(i, bytes) \<in> set ?es. unat i < 256" using unat_id by (auto simp only: set_map set_upt atLeastLessThan_iff)
  then have "fill_verified 256 ?es (replicate 256 0) (replicate 256 False) = Ok (l, s)"
    by (simp only: fill_verified_marks ls)
  ultimately show ?thesis
    by (simp only: verified_byte_lengths_def byte_gigatoken_def gigatoken.select_convs rbind.simps prod.case list.case) simp
qed

lemma byte_built:
  "fast_build byte_gigatoken (Ok 0) byte_reference (repair_spec_new family sha margin l_max False) (map byte_class [0..<n_codepoints])
     = Ok (byte_engine (repair_spec_new family sha margin l_max False), \<lparr>fw_primary = 0, fw_workers = [], fw_stats = stats_new\<rparr>)"
proof -
  have "filter (\<lambda>(index, value). 4 < value) (zip [0..<n] (map byte_class [0..<n])) = []" for n
    by (auto simp: filter_empty_conv set_zip byte_class_def split: if_splits)
  then have "sync_new (map byte_class [0..<n_codepoints]) = Ok \<lparr>sb_classes = map byte_class [0..<n_codepoints]\<rparr>"
    by (simp add: sync_new_def)
  moreover have "verified_byte_lengths byte_gigatoken 0 (length (replicate 256 (1 :: nat))) = Ok (replicate 256 1)"
    unfolding length_replicate by (rule byte_verified)
  ultimately show ?thesis
    by (simp add: fast_build_def ref_has_normalizer_def repair_spec_new_def byte_engine_def byte_table
        byte_reference_def [THEN arg_cong, of rf_tokenizer] byte_tokenizer_def)
qed

end
