(* ===== verification/FastDemo.thy ===== *)
theory FastDemo
  imports ByteRoute Demo
begin

text \<open>
  A concrete run of the corrected CPU engine of the byte-level tokenizer, behind the store: a session for
  the text "ab c", and an append that is repaired.
\<close>

definition byte_spec :: repair_spec where
  "byte_spec = repair_spec_new ''bytes'' [] 4 1 False"

abbreviation byte_cpu :: "nat fast_engine" where "byte_cpu \<equiv> byte_engine byte_spec"

definition byte_start :: "nat fast_state" where
  "byte_start = \<lparr>fw_primary = 0, fw_workers = [], fw_stats = stats_new\<rparr>"

abbreviation byte_encoder :: encoder where "byte_encoder \<equiv> fast_encoder byte_cpu byte_start"

lemma byte_engine_sel [simp]:
  "fe_spec (byte_engine spec) = spec" "fe_reference (byte_engine spec) = byte_reference"
  "fe_gigatoken (byte_engine spec) = byte_gigatoken"
  by (simp_all add: byte_engine_def)

lemma byte_spec_sel [simp]:
  "fs_has_normalizer byte_spec = False" "fs_l_max byte_spec = 1" "fs_margin byte_spec = 4"
  "fs_window_chars byte_spec = 512" "fs_min_match byte_spec = 2" "fs_max_retries byte_spec = 5"
  by (simp_all add: byte_spec_def repair_spec_new_def)

lemma byte_gate [simp]: "ag_route_every (fe_gate (byte_engine spec)) = False" "gate_may_match (fe_gate (byte_engine spec)) x = False"
  by (simp_all add: byte_engine_def added_gate_new_def byte_reference_def byte_tokenizer_def ref_added_tokens_def
      ref_effective_normalizer_def ref_has_normalizer_def gate_may_match_def)

lemmas bridge_eval = spans_soa_from_ids_def str_is_ascii_def ascii_spans_soa_def advance_def token_byte_length_def
  soa_new_def soa_push_def soa_finish_def nth_replicate to_u32_def u32_pair_def checked_add64_def Let_def

lemma byte_soa: "spans_soa_from_ids [97, 98, 32, 99] (replicate 256 1) [97, 98, 32, 99] = Ok ([0, 1, 2, 3], [1, 2, 3, 4])"
  by (simp add: bridge_eval)

lemma byte_seed:
  "encode_state_with_source byte_cpu demo_text byte_start
     = (byte_start\<lparr>fw_primary := 1, fw_stats := count_path stats_new ''gigatoken_full'' None 0 0 0\<rparr>,
        Ok (\<lparr>soa_ids = [97, 98, 32, 99], soa_starts = [0, 1, 2, 3], soa_ends = [1, 2, 3, 4]\<rparr>, Gigatoken))"
proof -
  have "gt_encode byte_gigatoken 0 demo_text = (1, [97, 98, 32, 99])" by (simp add: byte_gigatoken_def)
  then show ?thesis
    using byte_soa byte_table
    by (simp add: encode_state_with_source_def with_primary_def full_state_with_source_def guarded_full_with_def Let_def
        fast_state_encoding_with_def fast_with_def require_byte_identity_def ref_spans_soa_for_ids_def byte_start_def)
qed

definition byte_tail :: tail_state where
  "byte_tail = \<lparr>tl_text = demo_text, tl_chars = 4, tl_ids = Owned [97, 98, 32, 99],
     tl_spans = Materialized [0, 1, 2, 3] [1, 2, 3, 4]\<rparr>"

lemma byte_seed_append: "eng_append byte_encoder tail_new demo_text = (byte_tail, Ok \<lparr>rp_path = ''cold_full'', rp_kept = 0\<rparr>)"
  by (simp add: fast_append_def append_with_repair_input_def tail_new_def byte_seed fill_soa_def fill_soa_state_def
      chars_u32_def soa_validate_def validate_span_arrays_def span_ok_def byte_tail_def is_cont_def Let_def)

section \<open>The store\<close>

definition byte_keyed :: store where
  "byte_keyed = (demo_empty default_config)\<lparr>ss_keys := [\<lparr>kr_fingerprint = 7, kr_guard = 1\<rparr>]\<rparr>"

definition byte_session :: session where
  "byte_session = (fresh 0 BpeSyncTransition 1)\<lparr>s_record_hash := 5, s_total_chars := 4, s_tail := byte_tail\<rparr>"

definition byte_store :: store where
  "byte_store = byte_keyed\<lparr>ss_sessions := [(1, byte_session)], ss_next_handle := 2, ss_clock := 1,
     ss_stats := stats_zero\<lparr>st_puts := 1, st_path_counts := [(''cold_full'', 1)]\<rparr>\<rparr>"

lemma byte_put:
  "put demo_sha demo_blake byte_keyed 0 demo_text byte_encoder
     = (byte_store, Ok \<lparr>po_handle = 1, po_revision = 0, po_token_count = 4\<rparr>)"
proof -
  have w: "eng_witness byte_encoder = BpeSyncTransition" by (simp add: fast_encoder_def)
  show ?thesis
    by (simp add: byte_keyed_def demo_empty_def byte_store_def byte_session_def byte_tail_def put_def put_finish_def
      evict_for_capacity.simps seed_session_def seed_encode_def byte_seed_append [unfolded byte_tail_def tail_new_def] w default_config_def
      tail_eval store_eval seal_blocks_short advance_seal_short add64_def checked_add64_def is_cont_def
      del: fast_encoder_sel)
qed

section \<open>A repair\<close>

text \<open>With a window of six characters, the append of "g" to "ab cd ef" encodes " cd efg".\<close>

definition small_spec :: repair_spec where
  "small_spec = byte_spec\<lparr>fs_window_chars := 6, fs_margin := 1\<rparr>"

abbreviation (input) small_text :: str where "small_text \<equiv> [97, 98, 32, 99, 100, 32, 101, 102]"

definition small_tail :: tail_state where
  "small_tail = \<lparr>tl_text = small_text, tl_chars = 8, tl_ids = Owned [97, 98, 32, 99, 100, 32, 101, 102],
     tl_spans = Materialized [0, 1, 2, 3, 4, 5, 6, 7] [1, 2, 3, 4, 5, 6, 7, 8]\<rparr>"

lemma small_window:
  "window_encoding (byte_engine small_spec) [32, 99, 100, 32, 101, 102, 103] byte_start
     = (byte_start\<lparr>fw_primary := 1, fw_stats := stats_new\<lparr>st_window_calls := 1, st_window_chars := 7\<rparr>\<rparr>,
        Ok \<lparr>enc_ids = [32, 99, 100, 32, 101, 102, 103],
            enc_spans = [(0, 1), (1, 2), (2, 3), (3, 4), (4, 5), (5, 6), (6, 7)]\<rparr>)"
proof -
  have "gt_encode byte_gigatoken 0 [32, 99, 100, 32, 101, 102, 103] = (1, [32, 99, 100, 32, 101, 102, 103])"
    by (simp add: byte_gigatoken_def)
  moreover have "spans_from_ids [32, 99, 100, 32, 101, 102, 103] (replicate 256 1) [32, 99, 100, 32, 101, 102, 103]
      = Ok [(0, 1), (1, 2), (2, 3), (3, 4), (4, 5), (5, 6), (6, 7)]"
    by (simp add: bridge_eval spans_from_ids_def)
  ultimately show ?thesis using byte_table
    by (simp add: window_encoding_def fast_encoding_def fast_encoding_with_def fast_with_def require_byte_identity_def
        ref_spans_for_ids_def byte_start_def small_spec_def Let_def is_cont_def stats_new_def)
qed

lemma byte_sync:
  "scalar_of c < n_codepoints \<Longrightarrow> sync_class (fe_boundary (byte_engine spec)) c = byte_class (scalar_of c)"
  by (simp add: sync_class_def byte_engine_def)

abbreviation (input) small_record :: "nat \<Rightarrow> nat \<Rightarrow> u32 \<Rightarrow> token_record" where
  "small_record i p t \<equiv> \<lparr>rec_index = i, rec_start = p, rec_end = Suc p, rec_id = t, rec_ordinal = 0\<rparr>"

lemma small_find:
  "find_match [small_record 3 3 99, small_record 4 4 100, small_record 5 5 32, small_record 6 6 101, small_record 7 7 102]
     [small_record 1 3 99, small_record 2 4 100, small_record 3 5 32, small_record 4 6 101, small_record 5 7 102]
   = Some \<lparr>mt_left = 3, mt_right = 1, mt_length = 5, mt_covered = 5\<rparr>"
  by code_simp

lemma small_records:
  "(build_records [97, 98, 32, 99, 100, 32, 101, 102]
     [(0, 1), (1, 2), (2, 3), (3, 4), (4, 5), (5, 6), (6, 7), (7, 8)] 0 3 8 :: (string, token_record list) outcome)
   = Ok [small_record 3 3 99, small_record 4 4 100, small_record 5 5 32, small_record 6 6 101, small_record 7 7 102]"
  "(build_records [32, 99, 100, 32, 101, 102, 103] [(0, 1), (1, 2), (2, 3), (3, 4), (4, 5), (5, 6), (6, 7)] 2 3 8
     :: (string, token_record list) outcome)
   = Ok [small_record 1 3 99, small_record 2 4 100, small_record 3 5 32, small_record 4 6 101, small_record 5 7 102]"
  by code_simp+

lemma sync_witness_loop_numeral:
  "sync_witness_loop b cs spans index (numeral k) =
     rbind (vec_get spans (index + 1)) (\<lambda>(boundary, _).
       if boundary = 0 \<or> boundary \<ge> length cs then sync_witness_loop b cs spans (index + 1) (pred_numeral k)
       else if sync_accepts b (cs ! (boundary - 1)) (cs ! boundary) then Ok True
       else sync_witness_loop b cs spans (index + 1) (pred_numeral k))"
  by (simp add: numeral_eq_Suc)

lemma small_witness:
  "has_sync_witness (fe_boundary (byte_engine small_spec)) \<lparr>mt_left = 3, mt_right = 1, mt_length = 5, mt_covered = 5\<rparr>
     [(0, 1), (1, 2), (2, 3), (3, 4), (4, 5), (5, 6), (6, 7), (7, 8)] (small_text @ [103]) = Ok True"
proof -
  have "sync_class (fe_boundary (byte_engine small_spec)) [99] = 2" "sync_class (fe_boundary (byte_engine small_spec)) [100] = 2"
    "sync_class (fe_boundary (byte_engine small_spec)) [32] = 1"
    by (subst byte_sync; simp add: n_codepoints_def byte_class_def)+
  then show ?thesis
    by (simp add: has_sync_witness_def sync_accepts_def is_cont_def Let_def vec_get_def
        sync_witness_loop_numeral)
qed

lemma small_match:
  "window_match (byte_engine small_spec) [97, 98, 32, 99, 100, 32, 101, 102]
     [(0, 1), (1, 2), (2, 3), (3, 4), (4, 5), (5, 6), (6, 7), (7, 8)] (small_text @ [103]) 8 2
     \<lparr>enc_ids = [32, 99, 100, 32, 101, 102, 103],
      enc_spans = [(0, 1), (1, 2), (2, 3), (3, 4), (4, 5), (5, 6), (6, 7)]\<rparr>
   = Ok (Some \<lparr>mt_left = 3, mt_right = 1, mt_length = 5, mt_covered = 5\<rparr>)"
  using small_find small_witness small_records
  by (simp add: window_match_def match_accepted_def covered_chars_def Let_def small_spec_def)

lemma small_append:
  "\<exists>s t'. fast_append (byte_engine small_spec) small_tail [103] byte_start
     = ((s, t'), Ok \<lparr>rp_path = ''gigatoken_repair'', rp_kept = 8\<rparr>) \<and> fw_primary s = 1"
proof -
  have slice: "slice_chars (small_text @ [103]) 2 (char_count (small_text @ [103])) = Some [32, 99, 100, 32, 101, 102, 103]"
    by (simp add: slice_chars_def str_is_ascii_def is_cont_def)
  have loop: "\<exists>s t'. repair_loop (byte_engine small_spec) small_tail (small_text @ [103])
      [(0, 1), (1, 2), (2, 3), (3, 4), (4, 5), (5, 6), (6, 7), (7, 8)] 8 6 0 byte_start
    = ((s, t'), Ok (\<lparr>rp_path = ''gigatoken_repair'', rp_kept = 8\<rparr>, Some 7)) \<and> fw_primary s = 1"
    using slice small_window small_match
    by (subst repair_loop.simps)
      (simp add: small_tail_def is_cont_def spliced_def repair_fill_def tail_eval Let_def shift_span_def)
  then show ?thesis
    by (auto simp: fast_append_def append_with_repair_input_def repair_append_def small_tail_def tail_eval small_spec_def)
qed

text \<open>The tail is the reference encoding of its text.\<close>

lemma small_faithful: "tail_ok small_tail" "faithful (bpe_encoding byte_row) small_tail"
  by (simp_all add: small_tail_def tail_ok_def tail_wf_def ordered_def spans_of_def spans_wf_def span_ok_def faithful_def
      bpe_encoding_def byte_row_def valid_utf8_def is_cont_def)

lemma small_count: "char_count small_text = 8"
  by (simp add: is_cont_def)

lemma small_cut:
  "fast_boundary (byte_engine small_spec) small_tail 0 7 = Ok (Some \<lparr>cut_tokens = 5, cut_char = 5\<rparr>)"
proof -
  have cls: "sync_class (fe_boundary (byte_engine small_spec)) [c] = byte_class (unat c)" for c
    using unat_byte_less [of c] by (simp add: byte_sync n_codepoints_def)
  let ?b = "fe_boundary (byte_engine small_spec)" and ?s = "[0, 1, 2, 3, 4, 5, 6, 7]" and ?e = "[1, 2, 3, 4, 5, 6, 7, 8]"
  have "sync_last_boundary ?b small_text 8 ?s ?e 0 7 = last_certified ?b (chars small_text) ?s ?e 0 7"
    using last_boundary_last_certified [of ?b small_text ?s ?e 0 7] unfolding small_count by simp
  also have "\<dots> = Some \<lparr>cut_tokens = 5, cut_char = 5\<rparr>"
  proof -
    let ?P = "certified_cut ?b (chars small_text) ?s ?e 0 7"
    have P: "?P 5" "\<not> ?P 6" "\<not> ?P 7"
      by (simp_all add: certified_cut_def sync_accepts_def cls byte_class_def is_cont_def Let_def)
    have no: "\<not> ?P j" if "5 < j" "j < 8" for j
    proof -
      have "j = 6 \<or> j = 7" using that by linarith
      then show ?thesis using P(2,3) by blast
    qed
    have "last_below ?P 8 = Some 5"
    proof (rule iffD2 [OF last_below_Some], intro conjI allI impI)
      show "5 < (8 :: nat)" by simp
    qed (rule P(1) no; assumption?)+
    moreover have "length [0, 1, 2, 3, 4, 5, 6, 7 :: nat] = 8" by simp
    ultimately have "last_certified ?b (chars small_text) ?s ?e 0 7
        = map_option (\<lambda>k. \<lparr>cut_tokens = k, cut_char = ?s ! k\<rparr>) (Some 5)"
      by (simp only: last_certified_def)
    then show ?thesis by (simp only: option.map) simp
  qed
  finally show ?thesis
    unfolding fast_boundary_eq [OF small_faithful(1)] by (simp add: small_tail_def spans_of_def)
qed

end
