(* ===== verification/FastFacts.thy ===== *)
theory FastFacts
  imports FastLive FastDemo
begin

text \<open>
  The properties of the corrected CPU engine: full encodes, appends by repair and cuts against the
  reference tokenization, the store above them, and the engine's constructor and seal window.
\<close>

section \<open>Full encodes\<close>



text \<open>C18 A full encode answers whenever the reference does: an error of Gigatoken, of its closure check or of the
  normalizer guard never fails the call.\<close>

theorem full_encode_answers:
  assumes "\<forall>y. ref_normalize (fe_reference e) y \<noteq> Panic" "ref_encode_soa (fe_reference e) x = Ok y"
  shows "\<exists>enc. snd (fast_encode e x s) = Ok enc"
  using fast_encode_available(2) [OF _ assms(2), of s] assms(1) by fastforce

theorem full_encode_answers_witness: "\<exists>enc. snd (fast_encode byte_cpu demo_text byte_start) = Ok enc"
proof (rule full_encode_answers)
  show "\<forall>y. ref_normalize (fe_reference byte_cpu) y \<noteq> Panic"
    by (simp add: ref_normalize_def byte_reference_def byte_tokenizer_def)
  show "ref_encode_soa (fe_reference byte_cpu) demo_text
      = Ok \<lparr>soa_ids = [97, 98, 32, 99], soa_starts = [0, 1, 2, 3], soa_ends = [1, 2, 3, 4]\<rparr>"
    by (simp add: ref_encode_soa_def byte_reference_def byte_tokenizer_def byte_row_def is_cont_def)
qed

section \<open>Appends\<close>

text \<open>C7 An append of the corrected CPU engine is the reference encode of the grown text. On a tail that holds
  the reference encoding of its text, an append that returns leaves the reference encoding of the grown
  text, spliced behind an accepted run or re-encoded, and reports a number of leading tokens that did
  not change; an append that fails leaves the tail as it was.\<close>

theorem repair_append_exact:
  assumes "bpe_route row added inside e" "tail_ok t" "faithful (bpe_encoding row) t" "valid_utf8 d"
    and "fast_append e t d s = ((s', t'), r)"
  shows "case r of
      Ok rp \<Rightarrow> tl_text t' = tl_text t @ d \<and> faithful (bpe_encoding row) t'
        \<and> rp_kept rp \<le> n_tokens t \<and> take (rp_kept rp) (ids_of t') = take (rp_kept rp) (ids_of t)
    | _ \<Rightarrow> t' = t"
  using bpe_route.append_faithful [OF assms(1-4), of s] assms(5) by (cases r) (simp_all add: repaired_def)

theorem repair_append_exact_witness:
  "\<exists>s t'. fast_append (byte_engine small_spec) small_tail [103] byte_start
      = ((s, t'), Ok \<lparr>rp_path = ''gigatoken_repair'', rp_kept = 8\<rparr>)
     \<and> ids_of t' = [97, 98, 32, 99, 100, 32, 101, 102, 103]"
proof -
  obtain s t' where a: "fast_append (byte_engine small_spec) small_tail [103] byte_start
      = ((s, t'), Ok \<lparr>rp_path = ''gigatoken_repair'', rp_kept = 8\<rparr>)" using small_append by blast
  have v: "valid_utf8 [103]" by (simp add: valid_utf8_def is_cont_def)
  from repair_append_exact [OF byte.bpe_route_axioms small_faithful v a]
  have "tl_text t' = small_text @ [103] \<and> faithful (bpe_encoding byte_row) t'" by (simp add: small_tail_def)
  then have "ids_of t' = enc_ids (bpe_encoding byte_row (small_text @ [103]))" by (simp add: faithful_def)
  then have "ids_of t' = [97, 98, 32, 99, 100, 32, 101, 102, 103]"
    by (simp add: bpe_encoding_def byte_row_ids comp_def)
  then show ?thesis using a by blast
qed

text \<open>C8 An append ends with an answer: on a tail that holds the reference encoding of its text, with a grown
  text that counts in 32 bits and that the reference encodes, neither a window nor the loop over ever
  larger windows can fail the call.\<close>

theorem repair_append_answers:
  assumes "bpe_route row added inside e" "\<forall>y. ref_normalize (fe_reference e) y \<noteq> Panic"
    and "tail_ok t" "faithful (bpe_encoding row) t" "valid_utf8 d" "char_count (tl_text t @ d) \<le> u32_max"
    and "tk_encode_offsets (rf_tokenizer (fe_reference e)) (tl_text t @ d) = Ok p"
  shows "\<exists>rp. snd (fast_append e t d s) = Ok rp"
  using bpe_route.append_answers [OF assms(1) _ assms(3-7), of s] assms(2) by fastforce

theorem repair_append_answers_witness: "\<exists>rp. snd (fast_append (byte_engine small_spec) small_tail [103] byte_start) = Ok rp"
proof (rule repair_append_answers [OF byte.bpe_route_axioms _ small_faithful])
  show "\<forall>y. ref_normalize (fe_reference (byte_engine small_spec)) y \<noteq> Panic"
    by (simp add: ref_normalize_def byte_reference_def byte_tokenizer_def)
qed (simp_all add: valid_utf8_def is_cont_def small_tail_def byte_reference_def byte_tokenizer_def)

section \<open>Cuts\<close>

text \<open>C17 A cut the corrected CPU engine offers is safe for every continuation, once it keeps the longest token
  from the end of the tail: it lies between two tokens of the row, above the floor and below the
  ceiling, the tokens before it stay whatever is appended, and the text behind it is encoded on its own.\<close>

theorem repair_cuts_safe:
  assumes "bpe_route row added inside e" "tail_ok t" "faithful (bpe_encoding row) t"
    and "ceil_char + fs_l_max (fe_spec e) \<le> tl_chars t"
    and "fast_boundary e t floor_char ceil_char = Ok (Some c)" "valid_utf8 d"
  shows "floor_char < cut_char c \<and> cut_char c \<le> ceil_char \<and> cut_tokens c < n_tokens t
    \<and> row (tl_text t @ d) = take (cut_tokens c) (row (tl_text t))
        @ map (tok_shift (cut_char c)) (row (text_from (tl_text t) (cut_char c) @ d))"
  using bpe_route.cut_rows(1) [OF assms] fast_boundary_certified [OF assms(2,5)] by (simp add: certified_cut_def)

theorem repair_cuts_safe_witness:
  "byte_row (small_text @ [103]) = take 5 (byte_row small_text) @ map (tok_shift 5) (byte_row ([32, 101, 102] @ [103]))"
proof -
  have "text_from small_text 5 = [32, 101, 102]" by (simp add: text_from_def char_off_def is_cont_def)
  moreover have "valid_utf8 [103]" by (simp add: valid_utf8_def is_cont_def)
  ultimately show ?thesis
    using repair_cuts_safe [OF byte.bpe_route_axioms small_faithful _ small_cut, of "[103]"]
    by (simp add: small_tail_def small_spec_def)
qed

section \<open>The store above the engine\<close>

context bpe_route
begin

lemma engine_contract: "session_encoder (fast_encoder e s) (bpe_encoding row) (fs_l_max (fe_spec e))"
  by (rule fast.session_encoder_axioms)

end

lemma fast_engines_ok:
  assumes "\<forall>k. bpe_route (row k) (added k) (inside k) (e k)"
  shows "engines_ok (\<lambda>k. range (fast_encoder (e k))) (\<lambda>k. bpe_encoding (row k)) (\<lambda>k. fs_l_max (fe_spec (e k)))"
  using assms bpe_route.engine_contract by blast

text \<open>C3 A session store served by corrected CPU engines holds reference tokens. Each key has its engine, whose
  workers and counters are in any state at every call; after any sequence of calls, succeeding or failing,
  the token row of a session is the reference row of a text the client gave for it.\<close>

theorem fast_store_holds_reference:
  assumes "\<forall>k. bpe_route (row k) (added k) (inside k) (e k)"
    and "reached sha blake (\<lambda>k. range (fast_encoder (e k))) (\<lambda>k. fs_l_max (fe_spec (e k))) (s, G)"
    and "tbl_get (ss_sessions s) h = Some x"
  shows "\<exists>T \<in> G h. materialize_all_ids x = map tok_id (row (s_key_id x) T)"
proof -
  have "world_ok (\<lambda>k. bpe_encoding (row k)) (\<lambda>k. fs_l_max (fe_spec (e k))) (s, G)"
    by (rule reached_ok [OF fast_engines_ok [OF assms(1)] assms(2)])
  from world_session [OF this assms(3)] obtain T where "T \<in> G h" "represents (bpe_encoding (row (s_key_id x))) x T"
    by (auto simp: holds_text_def)
  then show ?thesis using represents_ids [of "bpe_encoding (row (s_key_id x))" x T] by (auto simp: bpe_encoding_def)
qed

lemma byte_reached:
  "reached demo_sha demo_blake (\<lambda>_. range (fast_encoder byte_cpu)) (\<lambda>_. fs_l_max (fe_spec byte_cpu))
     (byte_store, (\<lambda>_. {})(1 := {demo_text}))"
proof -
  let ?E = "\<lambda>_ :: nat. range (fast_encoder byte_cpu)"
  have a: "reached demo_sha demo_blake ?E (\<lambda>_. fs_l_max (fe_spec byte_cpu)) (demo_empty default_config, \<lambda>_. {})"
    by (rule reached.new [OF demo_new [OF default_config_ok]])
  have r: "register_fingerprint (demo_empty default_config) 7 1 = (byte_keyed, Ok 0)"
    by (simp add: register_fingerprint_def byte_keyed_def demo_empty_def)
  have b: "reached demo_sha demo_blake ?E (\<lambda>_. fs_l_max (fe_spec byte_cpu)) (byte_keyed, \<lambda>_. {})"
    by (rule reached.step [OF a client_step.register [OF _ r]]) simp
  show ?thesis
    using reached.step [OF b client_step.put_ok [where engine = byte_encoder, OF _ demo_valid(1) byte_put]] by simp
qed

theorem fast_store_holds_reference_witness:
  "tbl_get (ss_sessions byte_store) 1 = Some byte_session \<and> materialize_all_ids byte_session = [97, 98, 32, 99]"
proof -
  have g: "tbl_get (ss_sessions byte_store) 1 = Some byte_session" by (simp add: byte_store_def tbl_get_def)
  from fast_store_holds_reference [where e = "\<lambda>_. byte_cpu" and row = "\<lambda>_. byte_row" and added = "\<lambda>_. {}" and inside = "\<lambda>_. byte_inside", OF _ byte_reached g]
  have "materialize_all_ids byte_session = map tok_id (byte_row demo_text)" using byte.bpe_route_axioms by simp
  then show ?thesis using g by (simp add: byte_row_ids)
qed

section \<open>The seal window\<close>

text \<open>C37 The search for the seal window ends, at a window whose part behind the margin is longer than the longest
  token, and no larger than twice what that needs.\<close>

theorem seal_window_ends:
  assumes "0 < window" "margin + l_max < u64_max"
  shows "\<exists>w. seal_window margin l_max window = Some w \<and> l_max < w - margin \<and> w \<le> max window (2 * (margin + l_max))"
  using assms
proof (induction margin l_max window rule: seal_window.induct)
  case (1 margin l_max window)
  show ?case
  proof (cases "window - margin \<le> l_max")
    case True
    let ?w = "min (window * 2) u64_max"
    have go: "\<not> (window = 0 \<or> window \<ge> u64_max)" using True "1.prems" by linarith
    have le: "window \<le> margin + l_max" using True by simp
    from "1.IH" [OF True go] "1.prems" obtain w where w: "seal_window margin l_max ?w = Some w" "l_max < w - margin"
      "w \<le> max ?w (2 * (margin + l_max))" by auto
    have "w \<le> 2 * (margin + l_max)" using w(3) le by (simp add: max_def min_def split: if_splits)
    moreover have "seal_window margin l_max window = Some w"
      using w(1) True go by (subst seal_window.simps) (simp only: if_True if_False)
    ultimately show ?thesis using w(2) by auto
  next
    case False
    then show ?thesis by (subst seal_window.simps) simp
  qed
qed

theorem seal_window_ends_witness: "\<exists>w. seal_window 64 1024 512 = Some w \<and> 1024 < w - 64 \<and> w \<le> 2176"
  using seal_window_ends [of 512 64 1024] by simp

section \<open>The constructor\<close>

lemma fill_verified_Ok:
  assumes "fill_verified n entries lengths seen = Ok (lengths', seen')" "length lengths = n" "length seen = n"
  shows "length lengths' = n \<and> length seen' = n
    \<and> (\<forall>j < n. seen' ! j \<longrightarrow> (seen ! j \<and> lengths' ! j = lengths ! j)
          \<or> (\<exists>(i, bytes) \<in> set entries. unat i = j \<and> length bytes = lengths' ! j))"
  using assms
proof (induction entries arbitrary: lengths seen)
  case (Cons p entries)
  obtain i bytes where p: "p = (i, bytes)" by fastforce
  have "fill_verified n entries (lengths[unat i := length bytes]) (seen[unat i := True]) = Ok (lengths', seen')" "unat i < n"
    using Cons.prems(1) p by (auto simp: Let_def split: if_splits)
  note rest = Cons.IH [OF this(1)]
  have ih: "length lengths' = n" "length seen' = n" using rest Cons.prems(2,3) by simp_all
  have at: "(seen[unat i := True] ! j \<and> lengths' ! j = lengths[unat i := length bytes] ! j)
      \<or> (\<exists>(i, bytes) \<in> set entries. unat i = j \<and> length bytes = lengths' ! j)" if "j < n" "seen' ! j" for j
    using rest that Cons.prems(2,3) by simp
  have "(seen ! j \<and> lengths' ! j = lengths ! j) \<or> (\<exists>(i, bytes) \<in> set (p # entries). unat i = j \<and> length bytes = lengths' ! j)"
    if "j < n" "seen' ! j" for j
    using at [OF that] that(1) Cons.prems(2,3) p by (cases "j = unat i") auto
  then show ?case using ih by blast
qed simp

text \<open>C36 The constructor over a shared reference certifies its engine: the reference was loaded from the same
  bytes, whose digest is the registered one; the artifact has a normalizer exactly when the registry says so;
  the class table has a known class for every code point; and the vocabulary of the loaded Gigatoken worker
  has, for every id of the reference vocabulary, a token of the byte length the reference gives it.\<close>

theorem engine_build_certifies:
  assumes "fast_from_reference sha gt load_hf bytes r spec classes = Ok (e, s)"
  shows "sha bytes = rf_sha256 r \<and> show_digest (sha bytes) = fs_sha256 spec
    \<and> fe_spec e = spec \<and> fe_reference e = r \<and> ref_has_normalizer r = fs_has_normalizer spec
    \<and> length (sb_classes (fe_boundary e)) = n_codepoints \<and> (\<forall>v \<in> set (sb_classes (fe_boundary e)). v \<le> 4)
    \<and> (\<exists>table. build_raw_byte_lengths r = Ok table \<and> gt_vocab_size gt (fw_primary s) = length table
        \<and> (\<forall>j < length table. \<exists>(i, bytes) \<in> set (gt_vocab_entries gt (fw_primary s)).
              unat i = j \<and> length bytes = table ! j))"
proof -
  have d: "sha bytes = rf_sha256 r" "show_digest (sha bytes) = fs_sha256 spec"
    and built: "fast_build gt (load_hf bytes) r spec classes = Ok (e, s)"
    using assms by (auto simp: fast_from_reference_def split: if_splits)
  obtain b w table where b: "sync_new classes = Ok b" and l: "load_hf bytes = Ok w" and t: "build_raw_byte_lengths r = Ok table"
    and v: "verified_byte_lengths gt w (length table) = Ok table"
    and e: "e = \<lparr>fe_spec = spec, fe_reference = r, fe_boundary = b, fe_gate = added_gate_new r, fe_gigatoken = gt\<rparr>"
    and s: "s = \<lparr>fw_primary = w, fw_workers = [], fw_stats = stats_new\<rparr>" and n: "ref_has_normalizer r = fs_has_normalizer spec"
    using built by (auto simp: fast_build_def rbind_eq_Ok Let_def split: if_splits)
  let ?n = "length table"
  obtain lengths seen where f: "fill_verified ?n (gt_vocab_entries gt w) (replicate ?n 0) (replicate ?n False) = Ok (lengths, seen)"
    and size: "gt_vocab_size gt w = ?n"
    and c: "(case filter (\<lambda>i. \<not> seen ! i) [0..<?n] of
        missing # _ \<Rightarrow> Err (''Gigatoken has no raw vocabulary entry for id '' @ show_nat missing) | [] \<Rightarrow> Ok lengths) = Ok table"
    using v by (auto simp: verified_byte_lengths_def rbind_eq_Ok split: if_splits)
  have all: "filter (\<lambda>i. \<not> seen ! i) [0..<?n] = []" "lengths = table"
    using c by (cases "filter (\<lambda>i. \<not> seen ! i) [0..<?n]"; simp)+
  have "seen ! j" if "j < ?n" for j using all(1) that by (auto simp: filter_empty_conv)
  then have "\<forall>j < ?n. \<exists>(i, bytes) \<in> set (gt_vocab_entries gt w). unat i = j \<and> length bytes = table ! j"
    using fill_verified_Ok [OF f] all(2) by fastforce
  then show ?thesis using sync_new_Ok [OF b] d t size n e s by simp
qed

theorem engine_build_certifies_witness:
  "\<exists>(i, bytes) \<in> set (gt_vocab_entries byte_gigatoken 0). unat i = 255 \<and> length bytes = 1"
proof -
  let ?spec = "repair_spec_new ''bytes'' (show_digest 0) 4 1 False"
  have "fs_sha256 ?spec = show_digest 0" by (simp add: repair_spec_new_def)
  then have "fast_from_reference (\<lambda>_. 0) byte_gigatoken (\<lambda>_. Ok 0) [] byte_reference ?spec (map byte_class [0..<n_codepoints])
      = Ok (byte_engine ?spec, byte_start)"
    using byte_built unfolding fast_from_reference_def byte_start_def by (simp add: byte_reference_def [THEN arg_cong [where f = rf_sha256]])
  from engine_build_certifies [OF this] have "\<forall>j < 256. \<exists>(i, bytes) \<in> set (gt_vocab_entries byte_gigatoken 0).
      unat i = j \<and> length bytes = replicate 256 1 ! j"
    using byte_table by (auto simp: byte_start_def)
  then show ?thesis by fastforce
qed

end
