(* ===== verification/Batch.thy ===== *)
theory Batch
  imports FastLive
begin

text \<open>
  Batch encodes of the corrected CPU engine (\<^verbatim>\<open>fast_cpu.rs\<close>): the texts are split into contiguous chunks, each
  chunk is encoded text by text on its own worker, and the chunks run concurrently. The counters are
  shared behind a lock. A schedule lists the worker that takes the next step; the result keeps the order
  of the texts.
\<close>

section \<open>The pool\<close>

definition div_ceil :: "nat \<Rightarrow> nat \<Rightarrow> nat" where
  "div_ceil a b = (a + b - 1) div b"

definition min_bytes_per_worker :: nat where
  "min_bytes_per_worker = 64 * 1024"

text \<open>\<^verbatim>\<open>batch_workers\<close>: how many workers the batch uses; the pool grows by forks of the primary worker.\<close>

definition required_workers :: "nat \<Rightarrow> nat \<Rightarrow> nat \<Rightarrow> nat" where
  "required_workers threads documents total_bytes =
     min (min (max threads 1) documents) (max (div_ceil total_bytes min_bytes_per_worker) 1)"

definition batch_workers ::
  "'w fast_engine \<Rightarrow> nat \<Rightarrow> nat \<Rightarrow> nat \<Rightarrow> 'w fast_state \<Rightarrow> 'w fast_state \<times> nat"
where
  "batch_workers e threads documents total_bytes s =
     (let required = required_workers threads documents total_bytes; existing = length (fw_workers s) in
      if existing \<ge> required then (s, required)
      else (s\<lparr>fw_workers := fw_workers s
                @ map (\<lambda>_. gt_fork (fe_gigatoken e) (fw_primary s)) [existing..<required]\<rparr>, required))"

text \<open>\<^verbatim>\<open>par_chunks\<close>\<close>

function chunk_texts :: "nat \<Rightarrow> 'a list \<Rightarrow> 'a list list" where
  "chunk_texts n xs = (if n = 0 \<or> xs = [] then [] else take n xs # chunk_texts n (drop n xs))"
  by pat_completeness auto
termination by (relation "measure (\<lambda>(n, xs). length xs)") auto

declare chunk_texts.simps [simp del]

section \<open>The workers at work\<close>

type_synonym batch_row = "u32 list \<times> encode_source"

text \<open>What is left of every chunk and what it has produced; the first error stays, a panic is the outcome in any case.\<close>

record 'w batch_state =
  bt_stats :: repair_stats
  bt_workers :: "'w list"
  bt_todo :: "str list list"
  bt_rows :: "batch_row list list"
  bt_failed :: "(string, unit) outcome"

definition batch_step :: "'w fast_engine \<Rightarrow> nat \<Rightarrow> 'w batch_state \<Rightarrow> 'w batch_state" where
  "batch_step e i b =
     (if i < length (bt_todo b)
      then case bt_todo b ! i of
        [] \<Rightarrow> b
      | x # xs \<Rightarrow>
          (case full_ids_with_source e x (bt_stats b, bt_workers b ! i) of
             ((st, w), r) \<Rightarrow>
               (let b1 = b\<lparr>bt_stats := st, bt_workers := (bt_workers b)[i := w]\<rparr> in
                case r of
                  Ok row \<Rightarrow> b1\<lparr>bt_todo := (bt_todo b)[i := xs], bt_rows := (bt_rows b)[i := bt_rows b ! i @ [row]]\<rparr>
                | Err m \<Rightarrow> b1\<lparr>bt_todo := (bt_todo b)[i := []],
                             bt_failed := (case bt_failed b of Ok _ \<Rightarrow> Err m | f \<Rightarrow> f)\<rparr>
                | Panic \<Rightarrow> b1\<lparr>bt_todo := (bt_todo b)[i := []],
                             bt_failed := Panic\<rparr>))
      else b)"

definition batch_start :: "'w fast_state \<Rightarrow> nat \<Rightarrow> str list list \<Rightarrow> 'w batch_state" where
  "batch_start s required chunks =
     \<lparr>bt_stats = fw_stats s, bt_workers = take required (fw_workers s), bt_todo = chunks,
      bt_rows = replicate (length chunks) [], bt_failed = Ok ()\<rparr>"

definition batch_result :: "'w batch_state \<Rightarrow> (string, batch_row list) outcome" where
  "batch_result b = rbind (bt_failed b) (\<lambda>_. Ok (concat (bt_rows b)))"

text \<open>The batch under a schedule; \<open>None\<close> where the schedule does not run it to the end.\<close>

definition encode_batch_ids_with_source ::
  "'w fast_engine \<Rightarrow> nat \<Rightarrow> nat list \<Rightarrow> str list \<Rightarrow> 'w fast_state
     \<Rightarrow> ('w fast_state \<times> (string, batch_row list) outcome) option"
where
  "encode_batch_ids_with_source e threads schedule texts s =
     (if texts = [] then Some (s, Ok [])
      else
        let (s1, required) = batch_workers e threads (length texts) (min (sum_list (map length texts)) u64_max) s;
            chunk_size = div_ceil (length texts) required;
            chunks = chunk_texts chunk_size texts;
            b = fold (batch_step e) schedule (batch_start s1 required chunks)
        in if list_all (\<lambda>xs. xs = []) (bt_todo b)
           then Some (s1\<lparr>fw_stats := bt_stats b,
                         fw_workers := bt_workers b @ drop required (fw_workers s1)\<rparr>, batch_result b)
           else None)"

definition encode_batch_ids ::
  "'w fast_engine \<Rightarrow> nat \<Rightarrow> nat list \<Rightarrow> str list \<Rightarrow> 'w fast_state
     \<Rightarrow> ('w fast_state \<times> (string, u32 list list) outcome) option"
where
  "encode_batch_ids e threads schedule texts s =
     map_option (\<lambda>(s', r). (s', rbind r (\<lambda>rows. Ok (map fst rows))))
       (encode_batch_ids_with_source e threads schedule texts s)"

section \<open>The chunks\<close>

lemma div_ceil_le: "0 < b \<Longrightarrow> div_ceil a b \<le> n \<longleftrightarrow> a \<le> n * b"
proof -
  assume b: "0 < b"
  have "div_ceil a b \<le> n \<longleftrightarrow> (a + b - 1) div b < Suc n" by (simp add: div_ceil_def less_Suc_eq_le)
  also have "\<dots> \<longleftrightarrow> a + b - 1 < Suc n * b" using b by (simp add: div_less_iff_less_mult)
  also have "\<dots> \<longleftrightarrow> a \<le> n * b" using b by auto
  finally show ?thesis .
qed

lemma div_ceil_covers: "0 < b \<Longrightarrow> a \<le> div_ceil a b * b"
  using div_ceil_le [of b a "div_ceil a b"] by simp

lemma div_ceil_pos: "0 < b \<Longrightarrow> 0 < div_ceil a b \<longleftrightarrow> 0 < a"
  using div_ceil_le [of b a 0] by (metis gr_zeroI le_zero_eq less_irrefl mult_0)

lemma div_ceil_0 [simp]: "0 < b \<Longrightarrow> div_ceil 0 b = 0"
  using div_ceil_pos [of b 0] by simp

lemma concat_chunks [simp]: "0 < n \<Longrightarrow> concat (chunk_texts n xs) = xs"
proof (induction n xs rule: chunk_texts.induct)
  case (1 n xs)
  then show ?case by (subst chunk_texts.simps) auto
qed

lemma length_chunks: "0 < n \<Longrightarrow> length (chunk_texts n xs) = div_ceil (length xs) n"
proof (induction n xs rule: chunk_texts.induct)
  case (1 n xs)
  show ?case
  proof (cases "xs = []")
    case True
    then show ?thesis using 1 by (subst chunk_texts.simps) (simp add: div_ceil_def)
  next
    case False
    then have "length (chunk_texts n xs) = Suc (div_ceil (length xs - n) n)"
      using 1 by (subst chunk_texts.simps) simp
    also have "\<dots> = div_ceil (length xs) n"
    proof (cases "length xs \<le> n")
      case True
      then have "div_ceil (length xs) n \<le> 1" "0 < div_ceil (length xs) n" "length xs - n = 0"
        using False 1(2) by (simp_all add: div_ceil_le div_ceil_pos)
      then show ?thesis using 1(2) by simp
    next
      case lt: False
      have "length xs + n - 1 = (length xs - n + n - 1) + n" using lt by simp
      then have "div_ceil (length xs) n = ((length xs - n + n - 1) + n) div n" by (simp only: div_ceil_def)
      also have "\<dots> = Suc (div_ceil (length xs - n) n)" using 1(2) by (simp only: div_ceil_def div_add_self2)
      finally show ?thesis by simp
    qed
    finally show ?thesis .
  qed
qed

text \<open>There are never more chunks than workers.\<close>

lemma chunks_fit: "0 < n \<Longrightarrow> 0 < k \<Longrightarrow> 0 < div_ceil n k \<and> div_ceil n (div_ceil n k) \<le> k"
proof -
  assume n: "0 < n" and k: "0 < k"
  have "0 < div_ceil n k" using n k by (simp add: div_ceil_pos)
  moreover have "n \<le> k * div_ceil n k" using div_ceil_covers [OF k, of n] by (simp add: mult.commute)
  ultimately show ?thesis by (simp add: div_ceil_le)
qed

end
