(* ===== verification/BatchFacts.thy ===== *)
theory BatchFacts
  imports Batch FastDemo
begin

text \<open>
  The property of batch encodes: whatever order the workers take their steps in, the rows of a batch are
  the reference rows of its texts, in the order of the texts.
\<close>

section \<open>The invariant of a batch\<close>

text \<open>Every chunk is the texts its worker has encoded followed by the texts that are left, and the rows of
  the first are the reference rows.\<close>

definition chunk_done :: "(str \<Rightarrow> token list) \<Rightarrow> str list \<Rightarrow> str list \<Rightarrow> batch_row list \<Rightarrow> bool" where
  "chunk_done row chunk todo rows \<longleftrightarrow>
     (\<exists>past. chunk = past @ todo \<and> map fst rows = map (\<lambda>x. map tok_id (row x)) past)"

definition batch_sound :: "(str \<Rightarrow> token list) \<Rightarrow> str list list \<Rightarrow> 'w batch_state \<Rightarrow> bool" where
  "batch_sound row chunks b \<longleftrightarrow> length (bt_todo b) = length chunks \<and> length (bt_rows b) = length chunks
     \<and> (bt_failed b = Ok () \<longrightarrow> (\<forall>i < length chunks. chunk_done row (chunks ! i) (bt_todo b ! i) (bt_rows b ! i)))"

lemma batch_sound_start: "batch_sound row chunks (batch_start s n chunks)"
  by (simp add: batch_sound_def batch_start_def chunk_done_def)

context bpe_route
begin

lemma batch_step_sound:
  assumes b: "batch_sound row chunks b" and v: "\<forall>chunk \<in> set chunks. \<forall>x \<in> set chunk. valid_utf8 x"
  shows "batch_sound row chunks (batch_step e i b)"
proof (cases "i < length (bt_todo b) \<and> bt_todo b ! i \<noteq> []")
  case False
  then have "batch_step e i b = b" by (auto simp: batch_step_def)
  then show ?thesis using b by simp
next
  case True
  then obtain x xs where t: "bt_todo b ! i = x # xs" and i: "i < length (bt_todo b)" by (cases "bt_todo b ! i") auto
  obtain st w r where call: "full_ids_with_source e x (bt_stats b, bt_workers b ! i) = ((st, w), r)"
    by (metis prod.exhaust)
  show ?thesis
  proof (cases r)
    case (Ok pair)
    obtain ids src where pair: "pair = (ids, src)" by (cases pair)
    have "chunk_done row (chunks ! i) xs (bt_rows b ! i @ [(ids, src)])" if h: "bt_failed b = Ok ()"
    proof -
      obtain past where p: "chunks ! i = past @ x # xs" "map fst (bt_rows b ! i) = map (\<lambda>x. map tok_id (row x)) past"
        using b h i t by (auto simp: batch_sound_def chunk_done_def)
      have "valid_utf8 x" using v i b p(1) by (auto simp: batch_sound_def dest!: bspec [OF v nth_mem])
      then have "ids = map tok_id (row x)" using ids_gate_exact call Ok pair by blast
      then show ?thesis using p unfolding chunk_done_def by (intro exI [of _ "past @ [x]"]) simp
    qed
    then show ?thesis using b t i call Ok pair
      by (auto simp: batch_step_def batch_sound_def Let_def nth_list_update)
  qed (use b t i call in \<open>auto simp: batch_step_def batch_sound_def Let_def split: outcome.splits\<close>)
qed

lemma batch_fold_sound:
  assumes "\<forall>chunk \<in> set chunks. \<forall>x \<in> set chunk. valid_utf8 x"
  shows "batch_sound row chunks b \<Longrightarrow> batch_sound row chunks (fold (batch_step e) schedule b)"
  by (induction schedule arbitrary: b) (simp_all add: batch_step_sound assms)

end

lemma map_fst_concat: "map fst (concat rows) = concat (map (map fst) rows)"
  by (simp add: map_concat)

lemma sound_rows:
  assumes b: "batch_sound row chunks b" and z: "list_all (\<lambda>xs. xs = []) (bt_todo b)" and r: "batch_result b = Ok rows"
  shows "map fst rows = map (\<lambda>x. map tok_id (row x)) (concat chunks)"
proof -
  have f: "bt_failed b = Ok ()" and rows: "rows = concat (bt_rows b)"
    using r by (auto simp: batch_result_def rbind_eq_Ok)
  have "map (map fst) (bt_rows b) = map (map (\<lambda>x. map tok_id (row x))) chunks"
  proof (rule nth_equalityI)
    show "length (map (map fst) (bt_rows b)) = length (map (map (\<lambda>x. map tok_id (row x))) chunks)"
      using b by (simp add: batch_sound_def)
    fix i assume "i < length (map (map fst) (bt_rows b))"
    then have i: "i < length chunks" using b by (simp add: batch_sound_def)
    then have "bt_todo b ! i = []" using b z by (auto simp: batch_sound_def list_all_length)
    then show "map (map fst) (bt_rows b) ! i = map (map (\<lambda>x. map tok_id (row x))) chunks ! i"
      using b f i by (auto simp: batch_sound_def chunk_done_def)
  qed
  then show ?thesis by (simp add: rows map_concat)
qed

section \<open>The schedule\<close>

lemma length_todo [simp]: "length (bt_todo (batch_step e i b)) = length (bt_todo b)"
  by (simp add: batch_step_def Let_def split: list.splits prod.splits outcome.splits)




lemma required_bounds: "0 < documents \<Longrightarrow> 0 < required_workers threads documents bytes"
  "required_workers threads documents bytes \<le> max threads 1"
  by (auto simp: required_workers_def less_max_iff_disj)

lemma batch_workers_required [simp]: "snd (batch_workers e threads documents bytes s) = required_workers threads documents bytes"
  by (simp add: batch_workers_def Let_def)

lemma batch_run:
  assumes "texts \<noteq> []" "batch_workers e threads (length texts) (min (sum_list (map length texts)) u64_max) s = (s1, n)"
    and "b = fold (batch_step e) schedule (batch_start s1 n (chunk_texts (div_ceil (length texts) n) texts))"
  shows "encode_batch_ids_with_source e threads schedule texts s =
    (if list_all (\<lambda>xs. xs = []) (bt_todo b)
     then Some (s1\<lparr>fw_stats := bt_stats b, fw_workers := bt_workers b @ drop n (fw_workers s1)\<rparr>, batch_result b)
     else None)"
  using assms by (simp add: encode_batch_ids_with_source_def Let_def)

section \<open>The properties\<close>

text \<open>C22 The rows of a batch are the reference rows of its texts, in the order of the texts, however the steps of
  the workers interleave and whatever the workers and the counters held before.\<close>

theorem batch_rows_exact:
  assumes "bpe_route row added inside e" "\<forall>x \<in> set texts. valid_utf8 x"
    and "encode_batch_ids_with_source e threads schedule texts s = Some (s', Ok rows)"
  shows "map fst rows = map (\<lambda>x. map tok_id (row x)) texts"
proof (cases "texts = []")
  case False
  define n where "n = required_workers threads (length texts) (min (sum_list (map length texts)) u64_max)"
  define chunks where "chunks = chunk_texts (div_ceil (length texts) n) texts"
  obtain s1 where s1: "batch_workers e threads (length texts) (min (sum_list (map length texts)) u64_max) s = (s1, n)"
    unfolding n_def by (metis batch_workers_required prod.collapse)
  have n: "0 < n" using False by (simp add: n_def required_bounds)
  then have c: "concat chunks = texts" using False by (simp add: chunks_def div_ceil_pos)
  then have v: "\<forall>chunk \<in> set chunks. \<forall>x \<in> set chunk. valid_utf8 x" using assms(2) by auto
  have sound: "batch_sound row chunks (fold (batch_step e) schedule (batch_start s1 n chunks))"
    by (rule bpe_route.batch_fold_sound [OF assms(1) v batch_sound_start])
  show ?thesis
    using sound_rows [OF sound] assms(3) False s1 c
    by (auto simp: encode_batch_ids_with_source_def chunks_def Let_def split: if_splits)
qed (use assms(3) in \<open>simp add: encode_batch_ids_with_source_def\<close>)

theorem batch_rows_exact_witness:
  "\<exists>s' rows. encode_batch_ids_with_source byte_cpu 2 [0, 0] [[97], [98]] byte_start = Some (s', Ok rows)
     \<and> map fst rows = [[97], [98]]"
proof -
  have one: "chunk_texts 2 [x, y] = [[x, y]]" for x y :: str by (subst chunk_texts.simps, simp)+
  have gt: "gt_encode byte_gigatoken w x = (Suc w, map ucast x)" for w x by (simp add: byte_gigatoken_def)
  have row: "full_ids_with_source byte_cpu [b] (st, w)
      = ((count_path st ''gigatoken_full'' None 0 0 0, Suc w), Ok ([ucast b], Gigatoken))" for b st w
    using byte_table gt unat_byte_less [of b]
    by (simp add: bridge_eval full_ids_with_source_def guarded_full_with_def fast_ids_with_def fast_with_def require_byte_identity_def
        ref_verify_ids_close_def ids_close_over_text_def)
  have pool: "batch_workers byte_cpu 2 2 2 byte_start = (byte_start\<lparr>fw_workers := [gt_fork byte_gigatoken 0]\<rparr>, 1)"
    by (simp add: batch_workers_def required_workers_def div_ceil_def min_bytes_per_worker_def byte_start_def)
  define b where "b = fold (batch_step byte_cpu) [0, 0]
    (batch_start (byte_start\<lparr>fw_workers := [gt_fork byte_gigatoken 0]\<rparr>) 1 [[[97], [98]]])"
  have b: "list_all (\<lambda>xs. xs = []) (bt_todo b)" "\<exists>rows. batch_result b = Ok rows"
    by (simp_all add: b_def batch_step_def batch_start_def batch_result_def row)
  have "encode_batch_ids_with_source byte_cpu 2 [0, 0] [[97], [98]] byte_start =
    (if list_all (\<lambda>xs. xs = []) (bt_todo b)
     then Some ((byte_start\<lparr>fw_workers := [gt_fork byte_gigatoken 0]\<rparr>)\<lparr>fw_stats := bt_stats b,
       fw_workers := bt_workers b @ drop 1 (fw_workers (byte_start\<lparr>fw_workers := [gt_fork byte_gigatoken 0]\<rparr>))\<rparr>, batch_result b)
     else None)"
  proof (rule batch_run)
    show "batch_workers byte_cpu 2 (length [[97], [98 :: u8]]) (min (sum_list (map length [[97], [98 :: u8]])) u64_max) byte_start
        = (byte_start\<lparr>fw_workers := [gt_fork byte_gigatoken 0]\<rparr>, 1)"
      using pool by (simp add: numeral_2_eq_2)
    show "b = fold (batch_step byte_cpu) [0, 0] (batch_start (byte_start\<lparr>fw_workers := [gt_fork byte_gigatoken 0]\<rparr>) 1
        (chunk_texts (div_ceil (length [[97], [98 :: u8]]) 1) [[97], [98]]))"
      using one by (simp add: b_def div_ceil_def numeral_2_eq_2)
  qed simp
  then have "\<exists>s' rows. encode_batch_ids_with_source byte_cpu 2 [0, 0] [[97], [98]] byte_start = Some (s', Ok rows)"
    using b by auto
  then obtain s' rows where "encode_batch_ids_with_source byte_cpu 2 [0, 0] [[97], [98]] byte_start = Some (s', Ok rows)" by blast
  moreover from batch_rows_exact [OF byte.bpe_route_axioms _ this] have "map fst rows = [[97], [98]]"
    by (simp add: byte_row_ids valid_utf8_def is_cont_def)
  ultimately show ?thesis by (intro exI conjI)
qed



end
