(* ===== verification/BoundaryFacts.thy ===== *)
theory BoundaryFacts
  imports BoundaryProps FastDemo
begin

text \<open>
  The properties of the two searches for the last certified cut.
\<close>

text \<open>C29 The backward search returns exactly the last certified cut of the row above the floor and at most at the
  ceiling, and nothing on a row whose starts descend or whose arrays differ in length.\<close>

theorem boundary_search_exact:
  "sync_last_boundary b text (char_count text) starts ends floor_char ceil_char =
     (if length starts = length ends \<and> 2 \<le> length starts \<and> sorted starts
      then last_certified b (chars text) starts ends floor_char (min ceil_char (char_count text))
      else None)"
  by (rule last_boundary_last_certified)

text \<open>The search over windows of spans, fetched on demand at any window size, returns what the search over the
  whole arrays returns.\<close>

theorem boundary_windows_agree:
  assumes "fetches fetch starts ends" "sorted starts" "length ends = length starts"
  shows "last_boundary_windowed b text text_chars (length starts) floor_char ceil_char window fetch
     = Ok (sync_last_boundary b text text_chars starts ends floor_char ceil_char)"
  by (rule windowed_equals_whole [OF assms])

theorem boundary_windows_agree_witness:
  "last_boundary_windowed (fe_boundary (byte_engine small_spec)) small_text 8 8 0 7 3
       (\<lambda>lo hi. Ok (span_slice lo hi [0, 1, 2, 3, 4, 5, 6, 7], span_slice lo hi [1, 2, 3, 4, 5, 6, 7, 8]))
     = (Ok (Some \<lparr>cut_tokens = 5, cut_char = 5\<rparr>) :: (string, boundary_cut option) outcome)"
proof -
  let ?s = "[0, 1, 2, 3, 4, 5, 6, 7 :: nat]" and ?e = "[1, 2, 3, 4, 5, 6, 7, 8 :: nat]"
  have f: "fetches (\<lambda>lo hi. Ok (span_slice lo hi ?s, span_slice lo hi ?e) :: (string, nat list \<times> nat list) outcome) ?s ?e"
    by (simp add: fetches_def)
  have "sync_last_boundary (fe_boundary (byte_engine small_spec)) small_text 8 ?s ?e 0 7 = Some \<lparr>cut_tokens = 5, cut_char = 5\<rparr>"
    using small_cut unfolding fast_boundary_eq [OF small_faithful(1)] by (simp add: small_tail_def spans_of_def)
  moreover have "length ?s = 8" "sorted ?s" "length ?e = length ?s" by simp_all
  ultimately show ?thesis
    using boundary_windows_agree [OF f, of "fe_boundary (byte_engine small_spec)" small_text 8 0 7 3] by (simp only: simp_thms)
qed

end
