(* ===== verification/Routing.thy ===== *)
theory Routing
  imports Prelude
begin

unbundle bit_operations_syntax

text \<open>
  The selector of the routing crate (\<^verbatim>\<open>lib.rs\<close>): for one input, the first backend of the frozen fallback chain
  it is long enough for, and whether an added-token literal may occur in it, by its first one or two bytes.
\<close>

section \<open>The prefix filter\<close>


text \<open>A literal prefix: a byte, and the byte after it unless the literal is one byte long.\<close>

type_synonym literal_prefix = "u8 \<times> u8 option"

datatype literal_mode = ModeDisabled | ModeAlwaysCandidate | ModePrefixes

record prefix_filter =
  pf_first_bytes :: "u8 list"
  pf_first_mask :: "bool list"
  pf_single_mask :: "bool list"
  pf_pair_bits :: "u64 list"

text \<open>The bit of a pair of bytes: \<^verbatim>\<open>(first << 8) | second\<close>, 64 bits to a word.\<close>

definition pair_key :: "u8 \<Rightarrow> u8 \<Rightarrow> nat" where
  "pair_key first second = push_bit 8 (unat first) OR unat second"

definition pair_bit :: "nat \<Rightarrow> u64" where
  "pair_bit key = push_bit (key AND 63) 1"

fun add_prefix :: "literal_prefix \<Rightarrow> bool list \<times> bool list \<times> u64 list \<Rightarrow> bool list \<times> bool list \<times> u64 list" where
  "add_prefix (first, Some second) (first_mask, single_mask, pair_bits) =
     (let key = pair_key first second; i = drop_bit 6 key in
      (first_mask[unat first := True], single_mask, pair_bits[i := pair_bits ! i OR pair_bit key]))"
| "add_prefix (first, None) (first_mask, single_mask, pair_bits) =
     (first_mask[unat first := True], single_mask[unat first := True], pair_bits)"

definition prefix_filter_new :: "literal_prefix list \<Rightarrow> prefix_filter" where
  "prefix_filter_new prefixes =
     (let (first_mask, single_mask, pair_bits) =
            fold add_prefix prefixes (replicate 256 False, replicate 256 False, replicate 1024 0)
      in \<lparr>pf_first_bytes = map of_nat (filter (\<lambda>v. first_mask ! v) [0..<256]),
          pf_first_mask = first_mask, pf_single_mask = single_mask, pf_pair_bits = pair_bits\<rparr>)"

definition pair_present :: "prefix_filter \<Rightarrow> u8 \<Rightarrow> u8 \<Rightarrow> bool" where
  "pair_present pf first second \<longleftrightarrow>
     (let key = pair_key first second in pf_pair_bits pf ! drop_bit 6 key AND pair_bit key \<noteq> 0)"

text \<open>The first position whose byte satisfies a test (\<^verbatim>\<open>memchr\<close> and its variants, \<^verbatim>\<open>position\<close>).\<close>

fun position :: "('a \<Rightarrow> bool) \<Rightarrow> 'a list \<Rightarrow> nat option" where
  "position p [] = None"
| "position p (x # xs) = (if p x then Some 0 else map_option Suc (position p xs))"

definition next_candidate :: "prefix_filter \<Rightarrow> u8 list \<Rightarrow> nat option" where
  "next_candidate pf bytes =
     (case pf_first_bytes pf of
        [] \<Rightarrow> None
      | [a] \<Rightarrow> position (\<lambda>v. v = a) bytes
      | [a, b] \<Rightarrow> position (\<lambda>v. v = a \<or> v = b) bytes
      | [a, b, c] \<Rightarrow> position (\<lambda>v. v = a \<or> v = b \<or> v = c) bytes
      | _ \<Rightarrow> position (\<lambda>v. pf_first_mask pf ! unat v) bytes)"

text \<open>\<^verbatim>\<open>while base < bytes.len()\<close>\<close>

function may_match_from :: "prefix_filter \<Rightarrow> u8 list \<Rightarrow> nat \<Rightarrow> bool" where
  "may_match_from pf bytes base =
     (if base < length bytes
      then case next_candidate pf (drop base bytes) of
             None \<Rightarrow> False
           | Some relative \<Rightarrow>
               let index = base + relative; first = bytes ! index in
               if pf_single_mask pf ! unat first then True
               else if index + 1 < length bytes \<and> pair_present pf first (bytes ! (index + 1)) then True
               else may_match_from pf bytes (index + 1)
      else False)"
  by pat_completeness auto
termination by (relation "measure (\<lambda>(pf, bytes, base). length bytes - base)") auto

declare may_match_from.simps [simp del]

definition prefix_may_match :: "prefix_filter \<Rightarrow> u8 list \<Rightarrow> bool" where
  "prefix_may_match pf bytes = may_match_from pf bytes 0"

section \<open>The selector\<close>

datatype literal_prefilter = FilterDisabled | FilterAlwaysCandidate | FilterPrefixes prefix_filter

record route_selector =
  rs_thresholds :: "nat list"
  rs_reference_index :: nat
  rs_gpu_head :: bool
  rs_literals :: literal_prefilter

record route_decision =
  rd_input_bytes :: "nat option"
  rd_start_index :: nat
  rd_below_gpu_threshold :: bool
  rd_literal_candidate :: bool

definition route_selector_new ::
  "nat list \<Rightarrow> nat \<Rightarrow> bool \<Rightarrow> literal_mode \<Rightarrow> literal_prefix list \<Rightarrow> (string, route_selector) outcome"
where
  "route_selector_new thresholds reference_index gpu_head literal_mode literal_prefixes =
     (if thresholds = [] then Err ''fallback thresholds must not be empty''
      else if reference_index \<noteq> length thresholds - 1 then Err ''reference_index must name the final fallback entry''
      else if thresholds ! reference_index \<noteq> 0 then Err ''the reference fallback threshold must be zero''
      else if literal_mode \<noteq> ModePrefixes \<and> literal_prefixes \<noteq> [] then Err ''literal prefixes require prefix-filter mode''
      else Ok \<lparr>rs_thresholds = thresholds, rs_reference_index = reference_index, rs_gpu_head = gpu_head,
               rs_literals = (case literal_mode of
                   ModeDisabled \<Rightarrow> FilterDisabled
                 | ModeAlwaysCandidate \<Rightarrow> FilterAlwaysCandidate
                 | ModePrefixes \<Rightarrow> FilterPrefixes (prefix_filter_new literal_prefixes))\<rparr>)"

text \<open>\<^verbatim>\<open>None\<close> is a Python string without a UTF-8 form.\<close>

definition route_decide :: "route_selector \<Rightarrow> u8 list option \<Rightarrow> route_decision" where
  "route_decide rs input =
     (case input of
        None \<Rightarrow>
          \<lparr>rd_input_bytes = None, rd_start_index = rs_reference_index rs, rd_below_gpu_threshold = False,
           rd_literal_candidate = False\<rparr>
      | Some bytes \<Rightarrow>
          let size = length bytes;
              start = (case position (\<lambda>threshold. size \<ge> threshold) (rs_thresholds rs) of
                         Some i \<Rightarrow> i | None \<Rightarrow> rs_reference_index rs) in
          \<lparr>rd_input_bytes = Some size, rd_start_index = start,
           rd_below_gpu_threshold = (rs_gpu_head rs \<and> start > 0),
           rd_literal_candidate =
             (if start = rs_reference_index rs then False
              else case rs_literals rs of
                     FilterDisabled \<Rightarrow> False
                   | FilterAlwaysCandidate \<Rightarrow> True
                   | FilterPrefixes pf \<Rightarrow> prefix_may_match pf bytes)\<rparr>)"

end
