(* ===== verification/RoutingFacts.thy ===== *)
theory RoutingFacts
  imports Routing
begin

text \<open>
  The prefix filter is exact: it reports an input precisely when one of its prefixes occurs in it. The
  selector starts at the first backend the input is long enough for.
\<close>

section \<open>The pair bits\<close>

lemma pair_key_eq: "pair_key a b = unat a * 256 + unat b"
proof -
  have "\<not> bit (push_bit 8 (unat a)) n \<or> \<not> bit (unat b) n" for n
    by (cases "n < 8") (auto simp: bit_push_bit_iff_nat bit_unsigned_iff dest: bit_imp_le_length)
  then have "push_bit 8 (unat a) OR unat b = push_bit 8 (unat a) + unat b"
    by (intro disjunctive_add [symmetric]) blast
  then show ?thesis by (simp add: pair_key_def push_bit_eq_mult)
qed

lemma byte_small: "unat (b :: u8) < 256"
  by (rule order_less_le_trans [OF unsigned_less]) simp

lemma pair_key_inj: "pair_key a b = pair_key c d \<longleftrightarrow> a = c \<and> b = d"
proof -
  have "(pair_key a b div 256 = pair_key c d div 256 \<and> pair_key a b mod 256 = pair_key c d mod 256) \<longleftrightarrow> a = c \<and> b = d"
    using byte_small [of b] byte_small [of d] by (simp add: pair_key_eq word_unat_eq_iff)
  then show ?thesis by auto
qed

lemma pair_key_bound: "pair_key a b < 65536"
  using byte_small [of a] byte_small [of b] by (simp add: pair_key_eq)

lemma key_word: "drop_bit 6 key = key div 64" "(key :: nat) AND 63 = key mod 64"
proof -
  show "drop_bit 6 key = key div 64" by (simp add: drop_bit_eq_div)
  have "key AND 63 = key AND mask 6" by (simp add: mask_eq_exp_minus_1)
  then show "key AND 63 = key mod 64" by (simp add: take_bit_eq_mask [symmetric] take_bit_eq_mod)
qed

lemma pair_bit_bit: "bit (pair_bit key) n \<longleftrightarrow> n = key mod 64"
  by (auto simp: pair_bit_def key_word bit_exp_iff)

lemma and_pair_bit: "w AND pair_bit key \<noteq> 0 \<longleftrightarrow> bit w (key mod 64)"
proof
  assume "w AND pair_bit key \<noteq> 0"
  then obtain n where "bit (w AND pair_bit key) n" by (auto simp: bit_eq_iff)
  then show "bit w (key mod 64)" by (auto simp: bit_and_iff pair_bit_bit)
next
  assume "bit w (key mod 64)"
  then have "bit (w AND pair_bit key) (key mod 64)" by (simp add: bit_and_iff pair_bit_bit)
  then show "w AND pair_bit key \<noteq> 0" by auto
qed

section \<open>What the masks hold\<close>

definition pair_held :: "u64 list \<Rightarrow> u8 \<Rightarrow> u8 \<Rightarrow> bool" where
  "pair_held bits a b \<longleftrightarrow> bit (bits ! (pair_key a b div 64)) (pair_key a b mod 64)"

definition masks_hold :: "literal_prefix set \<Rightarrow> bool list \<times> bool list \<times> u64 list \<Rightarrow> bool" where
  "masks_hold P m \<longleftrightarrow>
     (case m of (firsts, singles, bits) \<Rightarrow>
        length firsts = 256 \<and> length singles = 256 \<and> length bits = 1024
        \<and> (\<forall>v :: u8. firsts ! unat v \<longleftrightarrow> v \<in> fst ` P) \<and> (\<forall>v :: u8. singles ! unat v \<longleftrightarrow> (v, None) \<in> P)
        \<and> (\<forall>a b. pair_held bits a b \<longleftrightarrow> (a, Some b) \<in> P))"

lemma add_prefix_holds: "masks_hold P m \<Longrightarrow> masks_hold (insert p P) (add_prefix p m)"
proof -
  assume h: "masks_hold P m"
  obtain firsts singles bits where m: "m = (firsts, singles, bits)" by (cases m)
  have set1: "xs[unat v := True] ! unat w \<longleftrightarrow> w = v \<or> xs ! unat w" if "length xs = 256" for xs and v w :: u8
    using that byte_small [of v] by (cases "w = v") (simp_all add: word_unat_eq_iff)
  obtain first second where p: "p = (first, second)" by (cases p)
  show ?thesis
  proof (cases second)
    case None
    then show ?thesis using h m p set1 by (auto simp: masks_hold_def)
  next
    case (Some b)
    let ?k = "pair_key first b"
    let ?bits = "bits[drop_bit 6 ?k := bits ! drop_bit 6 ?k OR pair_bit ?k]"
    have "pair_held ?bits x y \<longleftrightarrow> (x = first \<and> y = b) \<or> pair_held bits x y" if "length bits = 1024" for x y
    proof (cases "pair_key x y div 64 = ?k div 64")
      case True
      have "pair_key x y mod 64 = ?k mod 64 \<longleftrightarrow> pair_key x y = ?k" using True by (metis div_mult_mod_eq)
      moreover have "?k div 64 < 1024" using pair_key_bound [of first b] by (simp add: less_mult_imp_div_less)
      ultimately show ?thesis using True that
        by (auto simp: pair_held_def key_word(1) bit_or_iff pair_bit_bit pair_key_inj)
    next
      case False
      then have "\<not> (x = first \<and> y = b)" by auto
      then show ?thesis using False by (simp add: pair_held_def key_word(1)) blast
    qed
    then show ?thesis using h m p Some set1 by (auto simp: masks_hold_def Let_def)
  qed
qed

lemma filter_holds:
  "masks_hold (set ps) (pf_first_mask (prefix_filter_new ps), pf_single_mask (prefix_filter_new ps), pf_pair_bits (prefix_filter_new ps))"
  "set (pf_first_bytes (prefix_filter_new ps)) = fst ` set ps"
proof -
  let ?m = "fold add_prefix ps (replicate 256 False, replicate 256 False, replicate 1024 0)"
  have "masks_hold P m \<Longrightarrow> masks_hold (set ps \<union> P) (fold add_prefix ps m)" for P m
  proof (induction ps arbitrary: P m)
    case (Cons p ps)
    from Cons.IH [OF add_prefix_holds [OF Cons.prems, of p]] show ?case by simp
  qed simp
  moreover have "masks_hold {} (replicate 256 False, replicate 256 False, replicate 1024 0)"
    using byte_small pair_key_bound by (simp add: masks_hold_def pair_held_def less_mult_imp_div_less)
  ultimately have h: "masks_hold (set ps) ?m" by fastforce
  obtain firsts singles bits where m: "?m = (firsts, singles, bits)" by (cases ?m)
  show "masks_hold (set ps) (pf_first_mask (prefix_filter_new ps), pf_single_mask (prefix_filter_new ps), pf_pair_bits (prefix_filter_new ps))"
    using h m by (simp add: prefix_filter_new_def)
  have f: "firsts ! unat v \<longleftrightarrow> v \<in> fst ` set ps" for v :: u8 using h m by (simp add: masks_hold_def)
  show "set (pf_first_bytes (prefix_filter_new ps)) = fst ` set ps"
  proof (intro set_eqI iffI)
    fix v :: u8 assume "v \<in> set (pf_first_bytes (prefix_filter_new ps))"
    then obtain n where "n < 256" "firsts ! n" "v = of_nat n" by (auto simp: prefix_filter_new_def m)
    then show "v \<in> fst ` set ps" using f [of v] by (simp add: unsigned_of_nat take_bit_eq_mod)
  next
    fix v :: u8 assume "v \<in> fst ` set ps"
    then have "unat v \<in> {n. n < 256 \<and> firsts ! n}" using f byte_small by simp
    then have "of_nat (unat v) \<in> set (pf_first_bytes (prefix_filter_new ps))"
      unfolding prefix_filter_new_def m Let_def prod.case prefix_filter.select_convs set_map set_filter set_upt by (intro imageI) simp
    then show "v \<in> set (pf_first_bytes (prefix_filter_new ps))" by simp
  qed
qed

section \<open>The search\<close>

lemma position_None: "position p xs = None \<longleftrightarrow> (\<forall>x \<in> set xs. \<not> p x)"
  by (induction xs) auto

lemma position_Some: "position p xs = Some k \<longleftrightarrow> k < length xs \<and> p (xs ! k) \<and> (\<forall>j < k. \<not> p (xs ! j))"
proof (induction xs arbitrary: k)
  case (Cons x xs)
  then show ?case by (cases k) (auto simp: less_Suc_eq_0_disj All_less_Suc2)
qed simp

lemma position_cong: "(\<And>x. p x \<longleftrightarrow> q x) \<Longrightarrow> position p xs = position q xs"
  by (induction xs) auto

lemma next_candidate_set:
  assumes "\<And>v. pf_first_mask pf ! unat v \<longleftrightarrow> v \<in> set (pf_first_bytes pf)"
  shows "next_candidate pf bytes = position (\<lambda>v. v \<in> set (pf_first_bytes pf)) bytes"
proof -
  have none: "position (\<lambda>v. False) bytes = None" by (simp add: position_None)
  show ?thesis unfolding next_candidate_def assms
    by (auto split: list.splits intro!: position_cong simp: none)
qed

lemma next_candidate_eq:
  "next_candidate (prefix_filter_new ps) bytes = position (\<lambda>v. v \<in> fst ` set ps) bytes"
  unfolding filter_holds(2) [symmetric]
  by (rule next_candidate_set) (use filter_holds [of ps] in \<open>simp add: masks_hold_def\<close>)

definition prefix_at :: "literal_prefix set \<Rightarrow> u8 list \<Rightarrow> nat \<Rightarrow> bool" where
  "prefix_at P bytes i \<longleftrightarrow>
     (bytes ! i, None) \<in> P \<or> (i + 1 < length bytes \<and> (bytes ! i, Some (bytes ! (i + 1))) \<in> P)"

lemma may_match_from_eq:
  "may_match_from (prefix_filter_new ps) bytes base \<longleftrightarrow> (\<exists>i. base \<le> i \<and> i < length bytes \<and> prefix_at (set ps) bytes i)"
proof (induction "prefix_filter_new ps" bytes base rule: may_match_from.induct)
  case (1 bytes base)
  let ?pf = "prefix_filter_new ps" and ?p = "\<lambda>v. v \<in> fst ` set ps"
  have at_first: "prefix_at (set ps) bytes i \<Longrightarrow> ?p (bytes ! i)" for i by (force simp: prefix_at_def)
  have single: "pf_single_mask ?pf ! unat v \<longleftrightarrow> (v, None) \<in> set ps"
    and pair: "pair_present ?pf v w \<longleftrightarrow> (v, Some w) \<in> set ps" for v w
    using filter_holds(1) [of ps]
    by (simp_all add: masks_hold_def pair_present_def Let_def key_word and_pair_bit pair_held_def)
  show ?case
  proof (cases "base < length bytes")
    case False
    then show ?thesis by (subst may_match_from.simps) auto
  next
    case True
    show ?thesis
    proof (cases "position ?p (drop base bytes)")
      case None
      have "\<not> ?p (bytes ! i)" if "base \<le> i" "i < length bytes" for i
      proof -
        have "bytes ! i \<in> set (drop base bytes)" using that nth_mem [of "i - base" "drop base bytes"] by simp
        then show ?thesis using None by (simp add: position_None)
      qed
      moreover have "\<not> may_match_from ?pf bytes base"
        using True None by (subst may_match_from.simps) (simp add: next_candidate_eq)
      ultimately show ?thesis using at_first by blast
    next
      case (Some k)
      let ?i = "base + k"
      have k: "?i < length bytes" "?p (bytes ! ?i)" and before: "\<And>j. j < k \<Longrightarrow> \<not> ?p (bytes ! (base + j))"
        using Some True by (auto simp: position_Some)
      have "may_match_from ?pf bytes base \<longleftrightarrow> prefix_at (set ps) bytes ?i \<or> may_match_from ?pf bytes (?i + 1)"
        using True Some single pair by (subst may_match_from.simps) (auto simp: next_candidate_eq Let_def prefix_at_def)
      also have "\<dots> \<longleftrightarrow> prefix_at (set ps) bytes ?i \<or> (\<exists>i. ?i + 1 \<le> i \<and> i < length bytes \<and> prefix_at (set ps) bytes i)"
      proof (cases "prefix_at (set ps) bytes ?i")
        case False
        then have no: "\<not> pf_single_mask ?pf ! unat (bytes ! ?i)"
          "\<not> (?i + 1 < length bytes \<and> pair_present ?pf (bytes ! ?i) (bytes ! (?i + 1)))"
          using single pair by (auto simp: prefix_at_def)
        have nc: "next_candidate ?pf (drop base bytes) = Some k" using Some by (simp add: next_candidate_eq)
        from "1.hyps" [OF True nc refl refl no] show ?thesis by simp
      qed simp
      also have "\<dots> \<longleftrightarrow> (\<exists>i. base \<le> i \<and> i < length bytes \<and> prefix_at (set ps) bytes i)"
      proof -
        have later: "?i \<le> i" if "base \<le> i" "prefix_at (set ps) bytes i" for i
        proof (rule ccontr)
          assume "\<not> ?i \<le> i"
          then have "i - base < k" "base + (i - base) = i" using that(1) by auto
          then show False using before [of "i - base"] at_first [OF that(2)] by simp
        qed
        have "i = ?i \<or> ?i + 1 \<le> i" if "base \<le> i" "prefix_at (set ps) bytes i" for i
          using later [OF that] by linarith
        moreover have "base \<le> ?i" "\<And>i. ?i + 1 \<le> i \<Longrightarrow> base \<le> i" by simp_all
        ultimately show ?thesis using k(1) by blast
      qed
      finally show ?thesis .
    qed
  qed
qed

section \<open>Properties\<close>

text \<open>C39 The literal filter is exact: it reports an input precisely when one of its one- or two-byte prefixes
  occurs in it, through the bit table and each of its search variants. A miss is a proof.\<close>

theorem prefix_filter_exact:
  "prefix_may_match (prefix_filter_new prefixes) bytes \<longleftrightarrow>
     (\<exists>i. i < length bytes \<and> ((bytes ! i, None) \<in> set prefixes
        \<or> (i + 1 < length bytes \<and> (bytes ! i, Some (bytes ! (i + 1))) \<in> set prefixes)))"
  by (simp add: prefix_may_match_def may_match_from_eq prefix_at_def)

text \<open>C40 A selector that was constructed decides soundly: an input starts at the first backend whose threshold
  it reaches, which exists; an input without UTF-8 form starts at the reference; the literal flag is only
  cleared where the reference runs anyway, where there is no frontend, or where no prefix occurs.\<close>

theorem route_decision_sound:
  assumes "route_selector_new thresholds reference gpu mode prefixes = Ok rs"
  shows "rd_start_index (route_decide rs None) = length thresholds - 1
    \<and> (let d = route_decide rs (Some bytes); i = rd_start_index d in
        i < length thresholds \<and> thresholds ! i \<le> length bytes \<and> (\<forall>j < i. length bytes < thresholds ! j)
        \<and> (rd_below_gpu_threshold d \<longleftrightarrow> gpu \<and> 0 < i)
        \<and> (rd_literal_candidate d \<longleftrightarrow> i < length thresholds - 1
             \<and> (mode = ModeAlwaysCandidate
                \<or> mode = ModePrefixes \<and> (\<exists>k. k < length bytes \<and> prefix_at (set prefixes) bytes k))))"
proof -
  have c: "thresholds \<noteq> []" "reference = length thresholds - 1" "thresholds ! reference = 0"
    and rs: "rs = \<lparr>rs_thresholds = thresholds, rs_reference_index = reference, rs_gpu_head = gpu,
               rs_literals = (case mode of
                   ModeDisabled \<Rightarrow> FilterDisabled
                 | ModeAlwaysCandidate \<Rightarrow> FilterAlwaysCandidate
                 | ModePrefixes \<Rightarrow> FilterPrefixes (prefix_filter_new prefixes))\<rparr>"
    using assms by (auto simp: route_selector_new_def split: if_splits)
  let ?p = "\<lambda>threshold. length bytes \<ge> threshold"
  have "0 \<in> set thresholds" using c by (metis last_conv_nth last_in_set)
  then obtain i where i: "position ?p thresholds = Some i" by (cases "position ?p thresholds") (auto simp: position_None)
  have pos: "i < length thresholds" "thresholds ! i \<le> length bytes" "\<forall>j < i. length bytes < thresholds ! j"
    using i by (auto simp: position_Some)
  then have "i = reference \<longleftrightarrow> \<not> i < length thresholds - 1" using c by auto
  then show ?thesis
    using pos i c rs
    by (auto simp: route_decide_def Let_def prefix_may_match_def may_match_from_eq split: literal_mode.splits)
qed

theorem route_decision_sound_witness:
  "rd_start_index (route_decide \<lparr>rs_thresholds = [5, 0], rs_reference_index = 1, rs_gpu_head = True,
      rs_literals = FilterAlwaysCandidate\<rparr> (Some [1, 2, 3])) = 1"
proof -
  have n: "route_selector_new [5, 0] 1 True ModeAlwaysCandidate []
      = Ok \<lparr>rs_thresholds = [5, 0], rs_reference_index = 1, rs_gpu_head = True, rs_literals = FilterAlwaysCandidate\<rparr>"
    by (simp add: route_selector_new_def)
  let ?i = "rd_start_index (route_decide \<lparr>rs_thresholds = [5, 0], rs_reference_index = 1, rs_gpu_head = True,
      rs_literals = FilterAlwaysCandidate\<rparr> (Some [1, 2, 3]))"
  have "?i < 2 \<and> [5, 0] ! ?i \<le> (3 :: nat)"
    using route_decision_sound [OF n, of "[1, 2, 3]"] by (simp add: Let_def numeral_2_eq_2 numeral_3_eq_3)
  then show ?thesis by (cases "?i = 0") auto
qed

end
