(* ===== verification/ChunkText.thy ===== *)
theory ChunkText
  imports BridgeProps Boundary
begin

unbundle bit_operations_syntax

text \<open>
  How the chunk planner (\<^verbatim>\<open>chunked.rs\<close>) reads a text: the character count, a cursor that seeks characters
  forward in blocks of bytes and backward byte by byte, and decoded windows in global coordinates.
\<close>

section \<open>Counting characters\<close>

text \<open>\<^verbatim>\<open>(byte as i8) >= -0x40\<close>: the byte starts a character.\<close>

definition starts_char :: "u8 \<Rightarrow> bool" where
  "starts_char b \<longleftrightarrow> sint b \<ge> -0x40"

definition count_chars :: "str \<Rightarrow> nat" where
  "count_chars text =
     (if str_is_ascii text then length text else length (filter starts_char text))"

definition utf8_len :: "u8 \<Rightarrow> nat" where
  "utf8_len lead = (if lead < 0x80 then 1 else if lead < 0xE0 then 2 else if lead < 0xF0 then 3 else 4)"

section \<open>The cursor\<close>

record seek_cursor =
  sk_text :: str
  sk_ascii :: bool
  sk_char :: nat
  sk_byte :: nat

definition seek_new :: "str \<Rightarrow> seek_cursor" where
  "seek_new text = \<lparr>sk_text = text, sk_ascii = str_is_ascii text, sk_char = 0, sk_byte = 0\<rparr>"

text \<open>\<^verbatim>\<open>while remaining >= BLOCK && index + BLOCK <= bytes.len()\<close>\<close>

function seek_blocks :: "u8 list \<Rightarrow> nat \<Rightarrow> nat \<Rightarrow> nat \<times> nat" where
  "seek_blocks bytes remaining index =
     (if remaining \<ge> 64 \<and> index + 64 \<le> length bytes
      then
        let starts = length (filter starts_char (take 64 (drop index bytes))) in
        if starts > remaining then (remaining, index)
        else seek_blocks bytes (remaining - starts) (index + 64)
      else (remaining, index))"
  by pat_completeness auto
termination by (relation "measure (\<lambda>(bytes, remaining, index). length bytes - index)") auto

declare seek_blocks.simps [simp del]

text \<open>The continuation bytes at an index (\<^verbatim>\<open>bytes.get(index).copied().unwrap_or(0) & 0xC0 == 0x80\<close>).\<close>

definition skip_cont :: "u8 list \<Rightarrow> nat \<Rightarrow> nat" where
  "skip_cont bytes index = index + length (takeWhile is_cont (drop index bytes))"

fun seek_forward :: "u8 list \<Rightarrow> nat \<Rightarrow> nat \<Rightarrow> ('e, nat) outcome" where
  "seek_forward bytes 0 index = Ok index"
| "seek_forward bytes (Suc remaining) index =
     rbind (vec_get bytes index) (\<lambda>lead. seek_forward bytes remaining (index + utf8_len lead))"

text \<open>One character back: the byte before, and on while it is a continuation byte. Below zero the index
  is out of range.\<close>

fun step_back :: "u8 list \<Rightarrow> nat \<Rightarrow> ('e, nat) outcome" where
  "step_back bytes 0 = Panic"
| "step_back bytes (Suc index) =
     rbind (vec_get bytes index) (\<lambda>b. if is_cont b then step_back bytes index else Ok index)"

fun seek_backward :: "u8 list \<Rightarrow> nat \<Rightarrow> nat \<Rightarrow> ('e, nat) outcome" where
  "seek_backward bytes 0 index = Ok index"
| "seek_backward bytes (Suc remaining) index =
     rbind (step_back bytes index) (\<lambda>index'. seek_backward bytes remaining index')"

definition seek :: "seek_cursor \<Rightarrow> nat \<Rightarrow> ('e, seek_cursor) outcome" where
  "seek c target =
     (if sk_ascii c then Ok (c\<lparr>sk_char := target, sk_byte := target\<rparr>)
      else
        rbind (if target \<ge> sk_char c
               then (let (remaining, index) = seek_blocks (sk_text c) (target - sk_char c) (sk_byte c)
                     in seek_forward (sk_text c) remaining (skip_cont (sk_text c) index))
               else seek_backward (sk_text c) (sk_char c - target) (sk_byte c))
          (\<lambda>index. Ok (c\<lparr>sk_char := target, sk_byte := index\<rparr>)))"

section \<open>Windows\<close>

record window =
  wn_text :: str
  wn_base :: nat
  wn_chars :: "str list"
  wn_starts :: "nat list"
  wn_total :: nat

text \<open>The characters of the slice from the cursor on, with their global byte offsets and the end.\<close>

definition window_extract :: "seek_cursor \<Rightarrow> nat \<Rightarrow> nat \<Rightarrow> nat \<Rightarrow> ('e, seek_cursor \<times> window) outcome" where
  "window_extract cursor n low0 high0 =
     (let high = min high0 n; low = min low0 high in
      rbind (seek cursor low) (\<lambda>c.
      let start = sk_byte c in
      rbind (str_slice (sk_text c) start (length (sk_text c))) (\<lambda>rest.
      let cs = take (high - low) (chars rest);
          starts = map (\<lambda>(offset, _). start + offset) (take (high - low) (char_indices rest));
          end = (if cs = [] then start else last starts + length (last cs)) in
      Ok (c\<lparr>sk_char := high, sk_byte := end\<rparr>,
          \<lparr>wn_text = sk_text c, wn_base = low, wn_chars = cs, wn_starts = starts @ [end], wn_total = n\<rparr>))))"

definition at_offset :: "'a list \<Rightarrow> nat \<Rightarrow> nat \<Rightarrow> ('e, 'a) outcome" where
  "at_offset xs base index = (if index < base then Panic else vec_get xs (index - base))"

definition wn_char_at :: "window \<Rightarrow> nat \<Rightarrow> ('e, str) outcome" where
  "wn_char_at w index = at_offset (wn_chars w) (wn_base w) index"

definition wn_byte_of :: "window \<Rightarrow> nat \<Rightarrow> ('e, nat) outcome" where
  "wn_byte_of w index = at_offset (wn_starts w) (wn_base w) index"

definition wn_slice :: "window \<Rightarrow> nat \<Rightarrow> nat \<Rightarrow> ('e, str) outcome" where
  "wn_slice w low high =
     rbind (wn_byte_of w low) (\<lambda>a. rbind (wn_byte_of w high) (\<lambda>b. str_slice (wn_text w) a b))"

text \<open>\<^verbatim>\<open>partition_point\<close> on the ascending starts.\<close>

definition wn_char_of_byte :: "window \<Rightarrow> nat \<Rightarrow> nat" where
  "wn_char_of_byte w byte = wn_base w + length (takeWhile (\<lambda>start. start < byte) (wn_starts w))"

section \<open>Bytes and characters\<close>

lemma starts_char_iff: "starts_char b \<longleftrightarrow> \<not> is_cont b"
proof -
  define n where "n = unat b"
  have n: "n < 256" "sint b = signed_take_bit 7 (int n)"
    using unat_byte_less [of b] unfolding sint_uint uint_nat n_def by simp_all
  have "sint b = (if n < 128 then int n else int n - 256)"
  proof (cases "n < 128")
    case True
    then show ?thesis using n by (simp add: signed_take_bit_int_eq_self)
  next
    case False
    have "signed_take_bit 7 (int n) = signed_take_bit 7 (int n - 256)"
      unfolding signed_take_bit_eq_iff_take_bit_eq by (simp add: take_bit_eq_mod)
    also have "\<dots> = int n - 256"
      using False n(1) by (simp add: signed_take_bit_int_eq_self)
    finally show ?thesis using n False by simp
  qed
  then show ?thesis using n(1) by (auto simp: starts_char_def is_cont_unat n_def [symmetric])
qed

section \<open>Seeking\<close>

text \<open>
  The cursor and the windows of the chunk planner are right: a seek lands on the byte offset of the
  character, whatever the blocks cut through, and a window holds the characters of its range.
\<close>

section \<open>Character starts\<close>

definition starts_to :: "str \<Rightarrow> nat \<Rightarrow> nat" where
  "starts_to s i = length (filter starts_char (take i s))"

lemma filter_starts_cont: "\<forall>b \<in> set xs. is_cont b \<Longrightarrow> filter starts_char xs = []"
  by (simp add: starts_char_iff)

lemma count_starts: "s = [] \<or> \<not> is_cont (hd s) \<Longrightarrow> length (filter starts_char s) = char_count s"
proof (induction s rule: chars.induct)
  case (2 b bs)
  have "bs = takeWhile is_cont bs @ dropWhile is_cont bs" by simp
  then have "filter starts_char bs = filter starts_char (takeWhile is_cont bs) @ filter starts_char (dropWhile is_cont bs)"
    by (metis filter_append)
  also have "filter starts_char (takeWhile is_cont bs) = []"
    by (rule filter_starts_cont) (auto dest: set_takeWhileD)
  finally show ?case using 2 hd_dropWhile_cont [of bs] by (simp add: starts_char_iff)
qed simp

lemma count_chars_eq: "valid_utf8 s \<Longrightarrow> count_chars s = char_count s"
  using count_starts [OF chars_hd_valid] ascii_chars by (simp add: count_chars_def)

lemma starts_to_add: "starts_to s (i + k) = starts_to s i + length (filter starts_char (take k (drop i s)))"
  by (simp add: starts_to_def take_add)

lemma boundary_off:
  assumes "valid_utf8 s" "is_char_boundary s i" "i \<le> length s"
  shows "i = char_off s (starts_to s i)" "starts_to s i \<le> char_count s"
proof -
  have "length (filter starts_char (take i s)) = char_count (take i s)"
    by (rule count_starts [OF chars_hd_valid [OF valid_take_drop(1) [OF assms]]])
  then show "i = char_off s (starts_to s i)" using boundary_is_char_off [OF assms(2,3)] by (simp add: starts_to_def)
  show "starts_to s i \<le> char_count s"
    using \<open>length _ = char_count _\<close> chars_split_boundary [OF assms(2,3)] by (simp add: starts_to_def)
qed

lemma starts_to_off: "valid_utf8 s \<Longrightarrow> n \<le> char_count s \<Longrightarrow> starts_to s (char_off s n) = n"
  using count_starts [OF chars_hd_valid, of "take (char_off s n) s"]
  by (simp add: starts_to_def chars_take_off)

lemma skip_cont_off:
  assumes "valid_utf8 s" "i \<le> length s"
  shows "skip_cont s i = char_off s (starts_to s i)" "starts_to s i \<le> char_count s"
proof -
  let ?k = "length (takeWhile is_cont (drop i s))"
  have le: "i + ?k \<le> length s" using length_takeWhile_le [of is_cont "drop i s"] assms(2) by simp
  have "is_char_boundary s (i + ?k)"
  proof (cases "i + ?k = length s")
    case False
    then have "\<not> is_cont (drop i s ! ?k)" using le by (intro nth_length_takeWhile) simp
    then show ?thesis using False le by (simp add: is_char_boundary_def)
  qed (simp add: is_char_boundary_def)
  note b = boundary_off [OF assms(1) this le]
  have "filter starts_char (take ?k (drop i s)) = []"
    by (rule filter_starts_cont) (metis set_takeWhileD takeWhile_eq_take)
  then have "starts_to s (i + ?k) = starts_to s i" by (simp add: starts_to_add)
  then show "skip_cont s i = char_off s (starts_to s i)" "starts_to s i \<le> char_count s"
    using b by (simp_all add: skip_cont_def)
qed

lemma blocks_ok:
  "starts_to s index + remaining = target \<Longrightarrow> index \<le> length s \<Longrightarrow> seek_blocks s remaining index = (r, i) \<Longrightarrow>
     starts_to s i + r = target \<and> i \<le> length s"
proof (induction s remaining index rule: seek_blocks.induct)
  case (1 bytes remaining index)
  let ?starts = "length (filter starts_char (take 64 (drop index bytes)))"
  show ?case
  proof (cases "remaining \<ge> 64 \<and> index + 64 \<le> length bytes \<and> ?starts \<le> remaining")
    case True
    then have "seek_blocks bytes (remaining - ?starts) (index + 64) = (r, i)"
      using 1(4) by (subst (asm) seek_blocks.simps) (simp add: Let_def)
    then show ?thesis using True 1 by (auto simp: starts_to_add Let_def)
  next
    case False
    then have "seek_blocks bytes remaining index = (remaining, index)"
      by (subst seek_blocks.simps) (auto simp: Let_def)
    then show ?thesis using 1(2-4) by simp
  qed
qed

lemma utf8_len_char: "valid_scalar c \<Longrightarrow> utf8_len (hd c) = length c"
  by (induction c rule: valid_scalar.induct) (auto simp: utf8_len_def word_le_nat_alt word_less_nat_alt)

lemma char_head: "n < char_count s \<Longrightarrow> s ! char_off s n = hd (chars s ! n)"
proof -
  assume n: "n < char_count s"
  have "drop (char_off s n) s = concat (drop n (chars s))" by (rule drop_char_off)
  also have "\<dots> = chars s ! n @ concat (drop (Suc n) (chars s))" using n by (simp add: Cons_nth_drop_Suc [symmetric])
  finally have "hd (drop (char_off s n) s) = hd (chars s ! n)"
    using chars_nonempty [OF nth_mem [OF n]] by simp
  then show ?thesis using char_off_less_length [OF n] by (simp add: hd_drop_conv_nth)
qed

lemma forward_ok:
  "valid_utf8 s \<Longrightarrow> n + r \<le> char_count s \<Longrightarrow> seek_forward s r (char_off s n) = Ok (char_off s (n + r))"
proof (induction r arbitrary: n)
  case (Suc r)
  then have n: "n < char_count s" by simp
  have "valid_scalar (chars s ! n)" using Suc.prems(1) n by (simp add: valid_utf8_def list_all_length)
  then have "char_off s n + utf8_len (s ! char_off s n) = char_off s (Suc n)"
    using n by (simp add: char_head utf8_len_char char_off_Suc)
  then show ?case using Suc.IH [of "Suc n"] Suc.prems n char_off_less_length [OF n] by (simp add: vec_get_def)
qed simp

lemma char_byte:
  assumes "n < char_count s" "k < length (chars s ! n)"
  shows "s ! (char_off s n + k) = chars s ! n ! k"
proof -
  have "drop (char_off s n) s = chars s ! n @ concat (drop (Suc n) (chars s))"
    using assms(1) by (simp add: drop_char_off Cons_nth_drop_Suc [symmetric])
  then have "drop (char_off s n) s ! k = chars s ! n ! k" using assms(2) by (simp add: nth_append)
  then show ?thesis using char_off_le [of s n] by (simp add: nth_drop)
qed

lemma step_back_inside:
  assumes "valid_utf8 s" "n < char_count s"
  shows "k < length (chars s ! n) \<Longrightarrow> step_back s (Suc (char_off s n + k)) = Ok (char_off s n)"
proof (induction k)
  case 0
  have "\<not> is_cont (hd (chars s ! n))"
    using assms valid_scalar_hd by (auto simp: valid_utf8_def list_all_length)
  then show ?case using assms char_off_less_length by (simp add: vec_get_def char_head)
next
  case (Suc k)
  have "chars s ! n ! Suc k = tl (chars s ! n) ! k" using Suc.prems by (simp add: nth_tl)
  then have "is_cont (chars s ! n ! Suc k)"
    using chars_tail_cont [OF nth_mem [OF assms(2)]] Suc.prems by simp
  moreover have "char_off s n + Suc k < length s"
    using Suc.prems char_off_Suc [OF assms(2)] char_off_le [of s "Suc n"] by simp
  ultimately show ?case using Suc char_byte [OF assms(2) Suc.prems] by (simp add: vec_get_def)
qed

lemma backward_ok:
  "valid_utf8 s \<Longrightarrow> n \<le> char_count s \<Longrightarrow> r \<le> n \<Longrightarrow>
     seek_backward s r (char_off s n) = (Ok (char_off s (n - r)) :: ('e, nat) outcome)"
proof (induction r arbitrary: n)
  case (Suc r)
  then obtain m where m: "n = Suc m" by (cases n) auto
  have lt: "m < char_count s" using Suc.prems m by simp
  let ?k = "length (chars s ! m) - 1"
  have "0 < length (chars s ! m)" using chars_nonempty [OF nth_mem [OF lt]] by simp
  then have "char_off s n = Suc (char_off s m + ?k)" "?k < length (chars s ! m)"
    using char_off_Suc [OF lt] m by simp_all
  then have "step_back s (char_off s n) = (Ok (char_off s m) :: ('e, nat) outcome)"
    using step_back_inside [OF Suc.prems(1) lt] by metis
  then show ?case using Suc m by simp
qed simp

section \<open>The cursor\<close>

definition seek_ok :: "str \<Rightarrow> seek_cursor \<Rightarrow> bool" where
  "seek_ok s c \<longleftrightarrow> sk_text c = s \<and> sk_ascii c = str_is_ascii s \<and> sk_char c \<le> char_count s
     \<and> sk_byte c = char_off s (sk_char c)"

lemma seek_new_ok: "seek_ok s (seek_new s)"
  by (simp add: seek_ok_def seek_new_def)

lemma seek_lands:
  assumes s: "valid_utf8 s" and c: "seek_ok s c" and t: "target \<le> char_count s"
  shows "seek c target = (Ok (c\<lparr>sk_char := target, sk_byte := char_off s target\<rparr>) :: ('e, seek_cursor) outcome)"
proof (cases "str_is_ascii s")
  case True
  then show ?thesis using c t ascii_chars [OF True] char_off_ascii [of s target] by (simp add: seek_def seek_ok_def)
next
  case False
  have "(if target \<ge> sk_char c
      then (let (remaining, index) = seek_blocks s (target - sk_char c) (sk_byte c)
            in seek_forward s remaining (skip_cont s index))
      else seek_backward s (sk_char c - target) (sk_byte c)) = (Ok (char_off s target) :: ('e, nat) outcome)"
  proof (cases "target \<ge> sk_char c")
    case True
    obtain r i where b: "seek_blocks s (target - sk_char c) (sk_byte c) = (r, i)" by fastforce
    have "starts_to s (sk_byte c) + (target - sk_char c) = target"
      using c True starts_to_off [OF s, of "sk_char c"] by (simp add: seek_ok_def)
    from blocks_ok [OF this _ b] have i: "starts_to s i + r = target" "i \<le> length s"
      using c char_off_le [of s "sk_char c"] by (simp_all add: seek_ok_def)
    then show ?thesis using True b skip_cont_off [OF s i(2)] forward_ok [OF s, of "starts_to s i" r] t by simp
  next
    case False
    then show ?thesis using backward_ok [OF s, of "sk_char c" "sk_char c - target"] c by (simp add: seek_ok_def)
  qed
  moreover have "sk_text c = s" "\<not> sk_ascii c" using False c by (simp_all add: seek_ok_def)
  ultimately show ?thesis by (simp only: seek_def if_False rbind.simps)
qed


section \<open>Windows\<close>

definition window_of :: "str \<Rightarrow> nat \<Rightarrow> nat \<Rightarrow> window" where
  "window_of s lo hi = \<lparr>wn_text = s, wn_base = lo, wn_chars = take (hi - lo) (drop lo (chars s)),
     wn_starts = map (char_off s) [lo..<Suc hi], wn_total = char_count s\<rparr>"

lemma offsets_shift: "offsets_from (k + n) cs = map ((+) n) (offsets_from k cs)"
proof (induction cs arbitrary: k)
  case (Cons c cs)
  then show ?case using Cons.IH [of "k + length c"] by (simp add: ac_simps)
qed simp

lemma window_starts:
  assumes "lo \<le> hi" "hi \<le> char_count s"
  shows "map (\<lambda>(i, _). char_off s lo + i) (take (hi - lo) (char_indices (drop (char_off s lo) s))) = map (char_off s) [lo..<hi]"
proof (rule nth_equalityI)
  let ?d = "drop (char_off s lo) s"
  have n: "char_count ?d = char_count s - lo" by (simp add: drop_char_off chars_concat_drop)
  show "length (map (\<lambda>(i, _). char_off s lo + i) (take (hi - lo) (char_indices ?d))) = length (map (char_off s) [lo..<hi])"
    using n assms by simp
  fix i assume "i < length (map (\<lambda>(i, _). char_off s lo + i) (take (hi - lo) (char_indices ?d)))"
  then have i: "i < hi - lo" using n assms by simp
  have "take (lo + i) (chars s) = take lo (chars s) @ take i (drop lo (chars s))" by (simp add: take_add)
  then have "char_off s lo + char_off ?d i = char_off s (lo + i)"
    by (simp add: char_off_def drop_char_off [unfolded char_off_def] chars_concat_drop)
  then show "map (\<lambda>(i, _). char_off s lo + i) (take (hi - lo) (char_indices ?d)) ! i = map (char_off s) [lo..<hi] ! i"
    using i n assms by (simp add: char_indices_nth)
qed

lemma extract_ok:
  fixes low high :: nat
  assumes s: "valid_utf8 s" and c: "seek_ok s c"
  defines "hi \<equiv> min high (char_count s)"
  defines "lo \<equiv> min low hi"
  shows "\<exists>c'. seek_ok s c' \<and> window_extract c (char_count s) low high = (Ok (c', window_of s lo hi) :: ('e, seek_cursor \<times> window) outcome)"
proof -
  let ?c = "c\<lparr>sk_char := lo, sk_byte := char_off s lo\<rparr>"
  let ?cs = "take (hi - lo) (drop lo (chars s))" and ?starts = "map (char_off s) [lo..<hi]"
  have le: "lo \<le> hi" "hi \<le> char_count s" by (auto simp: lo_def hi_def min_def)
  have seek: "seek c lo = (Ok ?c :: ('e, seek_cursor) outcome)" by (rule seek_lands [OF s c]) (use le in simp)
  have rest: "str_slice s (char_off s lo) (length s) = (Ok (drop (char_off s lo) s) :: ('e, str) outcome)"
    using str_slice_off [of lo "char_count s" s] le by (simp add: char_off_end drop_char_off)
  have stop: "(if ?cs = [] then char_off s lo else last ?starts + length (last ?cs)) = char_off s hi"
  proof (cases "lo = hi")
    case False
    then obtain m where m: "hi = Suc m" "lo \<le> m" using le by (cases hi) auto
    have "last ?cs = chars s ! m" using m le by (simp add: last_conv_nth)
    moreover have "last ?starts = char_off s m" using m by simp
    ultimately show ?thesis using m le char_off_Suc [of m s] by simp
  qed (simp add: le)
  have sel: "sk_text ?c = s" "sk_byte ?c = char_off s lo" using c by (simp_all add: seek_ok_def)
  have "window_extract c (char_count s) low high
      = (Ok (?c\<lparr>sk_char := hi, sk_byte := char_off s hi\<rparr>, window_of s lo hi) :: ('e, seek_cursor \<times> window) outcome)"
    unfolding window_extract_def hi_def [symmetric] Let_def
    unfolding lo_def [symmetric] seek rbind.simps
    using le by (simp only: sel rest rbind.simps chars_drop_off window_starts [OF le] stop) (simp add: window_of_def)
  moreover have "seek_ok s (?c\<lparr>sk_char := hi, sk_byte := char_off s hi\<rparr>)" using c le by (simp add: seek_ok_def)
  ultimately show ?thesis by blast
qed

lemma window_char [simp]:
  "lo \<le> i \<Longrightarrow> i < hi \<Longrightarrow> hi \<le> char_count s \<Longrightarrow> wn_char_at (window_of s lo hi) i = Ok (chars s ! i)"
  by (simp add: wn_char_at_def at_offset_def window_of_def vec_get_def)

lemma window_byte [simp]: "lo \<le> i \<Longrightarrow> i \<le> hi \<Longrightarrow> wn_byte_of (window_of s lo hi) i = Ok (char_off s i)"
  by (simp add: wn_byte_of_def at_offset_def window_of_def vec_get_def del: upt_Suc)

lemma window_slice [simp]:
  "lo \<le> a \<Longrightarrow> a \<le> b \<Longrightarrow> b \<le> hi \<Longrightarrow> wn_slice (window_of s lo hi) a b = Ok (concat (take (b - a) (drop a (chars s))))"
  by (simp add: wn_slice_def str_slice_off) (simp add: window_of_def str_slice_off)

lemma window_sel [simp]: "wn_base (window_of s lo hi) = lo" "wn_total (window_of s lo hi) = char_count s"
  by (simp_all add: window_of_def)

lemma window_char_of_byte [simp]:
  assumes "lo \<le> i" "i \<le> hi" "hi \<le> char_count s"
  shows "wn_char_of_byte (window_of s lo hi) (char_off s i) = i"
proof -
  have "takeWhile (\<lambda>b. b < char_off s i) (map (char_off s) [lo..<Suc hi])
      = takeWhile (\<lambda>b. b < char_off s i) (map (char_off s) [lo..<i] @ map (char_off s) [i..<Suc hi])"
    using assms by (metis le_SucI map_append upt_add_eq_append le_Suc_ex)
  also have "\<dots> = map (char_off s) [lo..<i]"
  proof (subst takeWhile_append2)
    show "b < char_off s i" if "b \<in> set (map (char_off s) [lo..<i])" for b
      using that assms by (auto intro: char_off_strict)
    show "map (char_off s) [lo..<i] @ takeWhile (\<lambda>b. b < char_off s i) (map (char_off s) [i..<Suc hi]) = map (char_off s) [lo..<i]"
      using assms(2) by (subst upt_conv_Cons) simp_all
  qed
  finally show ?thesis using assms by (simp add: wn_char_of_byte_def window_of_def)
qed

end
