(* ===== verification/ChunkPlan.thy ===== *)
theory ChunkPlan
  imports ChunkText FastCpu "HOL-Library.List_Lexorder"
begin

unbundle bit_operations_syntax

text \<open>
  The planner of certified chunks (\<^verbatim>\<open>chunked.rs\<close>): admission from the tokenizer document, the guard of the
  added-token literals, the normalization rule of the NFC families with its memo table, and the search
  for the cuts of one text.
\<close>

section \<open>Admission\<close>

datatype normalizer_mode = NormalizerNone | NormalizerNfc

text \<open>Python truthiness.\<close>

fun truthy :: "json option \<Rightarrow> bool" where
  "truthy None = False"
| "truthy (Some JNull) = False"
| "truthy (Some (JBool flag)) = flag"
| "truthy (Some (JNumber number)) = (number \<noteq> 0)"
| "truthy (Some (JString s)) = (s \<noteq> [])"
| "truthy (Some (JArray items)) = (items \<noteq> [])"
| "truthy (Some (JObject items)) = (items \<noteq> [])"

definition added_rows :: "json \<Rightarrow> json list option" where
  "added_rows document = opt_bind (json_get document ''added_tokens'') as_array"

definition normalizer_shape :: "json \<Rightarrow> (string, normalizer_mode) outcome" where
  "normalizer_shape document =
     (case json_get document ''normalizer'' of
        None \<Rightarrow> Ok NormalizerNone
      | Some section \<Rightarrow>
          if section = JNull then Ok NormalizerNone
          else case as_object section of
            None \<Rightarrow> Err ''normalizer_not_supported''
          | Some object \<Rightarrow>
              let kind = opt_bind (map_of object ''type'') as_str in
              if kind = Some ''Sequence'' \<and> \<not> truthy (map_of object ''normalizers'') then Ok NormalizerNone
              else if kind = Some ''NFC''
              then (if (case added_rows document of None \<Rightarrow> False
                        | Some rows \<Rightarrow> list_ex (\<lambda>row. as_object row \<noteq> None \<and> truthy (json_get row ''normalized'')) rows)
                    then Err ''nfc_with_normalized_added_tokens'' else Ok NormalizerNfc)
              else Err (''normalizer_not_supported:'' @ (case kind of Some s \<Rightarrow> s | None \<Rightarrow> ''None'')))"

definition added_token_flags_refusal :: string where
  "added_token_flags_refusal = ''added_token_strip_or_single_word''"

definition refused_added_token_flags :: "string list" where
  "refused_added_token_flags = [''lstrip'', ''rstrip'', ''single_word'']"

definition normalizer_mode_of :: "json \<Rightarrow> (string, normalizer_mode) outcome" where
  "normalizer_mode_of document =
     rbind (normalizer_shape document) (\<lambda>mode.
       if (case added_rows document of None \<Rightarrow> False
           | Some rows \<Rightarrow>
               list_ex (\<lambda>row. as_object row \<noteq> None
                 \<and> list_ex (\<lambda>flag. truthy (json_get row flag)) refused_added_token_flags) rows)
       then Err added_token_flags_refusal else Ok mode)"

text \<open>\<open>print\<close> is the printer of the JSON library.\<close>

definition face_literals :: "(json \<Rightarrow> str) \<Rightarrow> json \<Rightarrow> str list" where
  "face_literals print document =
     (case added_rows document of
        None \<Rightarrow> []
      | Some rows \<Rightarrow>
          map (\<lambda>row. case json_get row ''content'' of
                 None \<Rightarrow> [] | Some JNull \<Rightarrow> []
               | Some (JString s) \<Rightarrow> string_bytes s
               | Some other \<Rightarrow> print other)
            (filter (\<lambda>row. as_object row \<noteq> None) rows))"

section \<open>The literal guard\<close>

record literal_guard =
  lg_patterns :: "str list"
  lg_lengths :: "nat list"
  lg_lmax :: nat

definition guard_new :: "str list \<Rightarrow> literal_guard" where
  "guard_new literals =
     (let unique = remdups_adj (sort (filter (\<lambda>l. l \<noteq> []) literals)); lengths = map char_count unique in
      \<lparr>lg_patterns = unique, lg_lengths = lengths, lg_lmax = fold max lengths 0\<rparr>)"

text \<open>The matcher reports every occurrence of every pattern, overlapping ones included.\<close>

definition find_overlapping :: "str list \<Rightarrow> str \<Rightarrow> (nat \<times> nat) list" where
  "find_overlapping patterns haystack =
     concat (map (\<lambda>i. map (\<lambda>j. (i, j)) (filter (\<lambda>j. starts_with (patterns ! j) (drop i haystack)) [0..<length patterns]))
       [0..<length haystack])"

definition guard_occurrences :: "literal_guard \<Rightarrow> window \<Rightarrow> nat \<Rightarrow> nat \<Rightarrow> (string, (nat \<times> nat) list) outcome" where
  "guard_occurrences g w start end =
     (if lg_patterns g = [] \<or> start \<ge> end then Ok []
      else
        rbind (wn_slice w start end) (\<lambda>haystack.
        rbind (wn_byte_of w start) (\<lambda>offset.
          Ok (map (\<lambda>(i, j). let first = wn_char_of_byte w (offset + i) in (first, first + lg_lengths g ! j))
                (find_overlapping (lg_patterns g) haystack)))))"

definition mark_inside :: "nat \<Rightarrow> nat \<Rightarrow> nat \<times> nat \<Rightarrow> bool list \<Rightarrow> bool list" where
  "mark_inside low high occ out =
     (let from = max (fst occ + 1) low; to = min (snd occ) (high + 1) in
      fold (\<lambda>position out. out[position - low := True]) [from..<to] out)"

definition guard_forbidden :: "literal_guard \<Rightarrow> window \<Rightarrow> nat \<Rightarrow> nat \<Rightarrow> (string, bool list) outcome" where
  "guard_forbidden g w low high =
     (let out = replicate (high + 1 - low) False in
      if lg_patterns g = [] \<or> lg_lmax g < 2 then Ok out
      else
        let start = low - (lg_lmax g - 1); end = min (wn_total w) (high + lg_lmax g - 1) in
        rbind (guard_occurrences g w start end) (\<lambda>occs. Ok (fold (mark_inside low high) occs out)))"

definition guard_touches :: "literal_guard \<Rightarrow> window \<Rightarrow> nat \<Rightarrow> nat \<Rightarrow> (string, bool) outcome" where
  "guard_touches g w low high =
     (if lg_patterns g = [] then Ok False
      else
        let start = low - (lg_lmax g - 1); end = min (wn_total w) (high + (lg_lmax g - 1)) in
        rbind (guard_occurrences g w start end) (\<lambda>occs.
          Ok (list_ex (\<lambda>(first, last). first < high \<and> last > low) occs)))"

section \<open>The normalization rule\<close>

text \<open>The memo table of the stable split points: nothing where the answer is not known yet.\<close>

type_synonym memo = "nat \<Rightarrow> bool option"

definition anchor_scan :: nat where "anchor_scan = 256"

definition probe :: "reference \<Rightarrow> str \<Rightarrow> str \<Rightarrow> str \<Rightarrow> (string, bool) outcome" where
  "probe r prefix c suffix =
     (let x = prefix @ c @ suffix in rbind (ref_normalize r x) (\<lambda>y. Ok (y = x)))"

fun both :: "(string, bool) outcome \<Rightarrow> (string, bool) outcome \<Rightarrow> (string, bool) outcome" where
  "both r s = rbind r (\<lambda>ok. if ok then s else Ok False)"

text \<open>The probes are U+0301 before, U+0335 after, U+1100 and U+AC00 before the character; class 4 is that
  of the combining marks.\<close>

definition stable_verdict :: "sync_boundary \<Rightarrow> reference \<Rightarrow> str \<Rightarrow> (string, bool) outcome" where
  "stable_verdict b r c =
     both (Ok (sync_class b c \<noteq> 4))
       (both (probe r [] c [])
       (both (probe r [0xCC, 0x81] c [])
       (both (probe r [] c [0xCC, 0xB5])
       (both (probe r [0xE1, 0x84, 0x80] c [])
             (probe r [0xEA, 0xB0, 0x80] c [])))))"

definition nfc_stable :: "sync_boundary \<Rightarrow> reference \<Rightarrow> memo \<Rightarrow> str \<Rightarrow> memo \<times> (string, bool) outcome" where
  "nfc_stable b r m c =
     (if str_is_ascii c then (m, Ok True)
      else case m (scalar_of c) of
        Some v \<Rightarrow> (m, Ok v)
      | None \<Rightarrow> attempt m (stable_verdict b r c) (\<lambda>v. (m(scalar_of c := Some v), Ok v)))"

definition stable_at :: "sync_boundary \<Rightarrow> reference \<Rightarrow> window \<Rightarrow> memo \<Rightarrow> nat \<Rightarrow> memo \<times> (string, bool) outcome" where
  "stable_at b r w m i = attempt m (wn_char_at w i) (nfc_stable b r m)"

fun all_stable :: "sync_boundary \<Rightarrow> reference \<Rightarrow> window \<Rightarrow> nat list \<Rightarrow> memo \<Rightarrow> memo \<times> (string, bool) outcome" where
  "all_stable b r w [] m = (m, Ok True)"
| "all_stable b r w (i # is) m =
     andthen (stable_at b r w m i) (\<lambda>m' ok. if ok then all_stable b r w is m' else (m', Ok False))"

text \<open>The loop on \<open>left\<close>: whether an anchor was found, and where it stopped.\<close>

fun anchor_left ::
  "sync_boundary \<Rightarrow> reference \<Rightarrow> window \<Rightarrow> nat \<Rightarrow> nat \<Rightarrow> memo \<Rightarrow> memo \<times> (string, bool \<times> nat) outcome"
where
  "anchor_left b r w floor_index 0 m =
     andthen (stable_at b r w m 0) (\<lambda>m' ok.
       if ok then (m', Ok (True, 0)) else if floor_index = 0 then (m', Ok (False, 0)) else (m', Panic))"
| "anchor_left b r w floor_index (Suc left) m =
     andthen (stable_at b r w m (Suc left)) (\<lambda>m' ok.
       if ok then (m', Ok (True, Suc left))
       else if Suc left = floor_index then (m', Ok (False, Suc left))
       else anchor_left b r w floor_index left m')"

text \<open>\<^verbatim>\<open>while right < ceiling && !self.stable(..)?\<close>, over the positions that are left.\<close>

fun anchor_right ::
  "sync_boundary \<Rightarrow> reference \<Rightarrow> window \<Rightarrow> nat \<Rightarrow> nat \<Rightarrow> memo \<Rightarrow> memo \<times> (string, nat) outcome"
where
  "anchor_right b r w right 0 m = (m, Ok right)"
| "anchor_right b r w right (Suc n) m =
     andthen (stable_at b r w m right) (\<lambda>m' ok.
       if ok then (m', Ok right) else anchor_right b r w (Suc right) n m')"

text \<open>What is decided once the window of the cut is anchored.\<close>

definition anchored_accepts ::
  "sync_boundary \<Rightarrow> reference \<Rightarrow> literal_guard \<Rightarrow> window \<Rightarrow> nat \<Rightarrow> nat \<Rightarrow> nat \<Rightarrow> (string, bool) outcome"
where
  "anchored_accepts b r g w left position right =
     rbind (guard_touches g w left right) (\<lambda>touched.
     if touched then Ok False
     else
       rbind (rbind (wn_slice w left position) (ref_normalize r)) (\<lambda>before.
       rbind (rbind (wn_slice w position right) (ref_normalize r)) (\<lambda>after.
       if before = [] \<or> after = [] then Ok False
       else
         rbind (rbind (wn_slice w left right) (ref_normalize r)) (\<lambda>whole.
         if length whole \<noteq> length before + length after \<or> \<not> starts_with before whole \<or> \<not> ends_with whole after
         then Ok False
         else Ok (sync_accepts b (last (chars before)) (hd (chars after)))))))"

definition nfc_accepts ::
  "sync_boundary \<Rightarrow> reference \<Rightarrow> literal_guard \<Rightarrow> window \<Rightarrow> nat \<Rightarrow> memo \<Rightarrow> memo \<times> (string, bool) outcome"
where
  "nfc_accepts b r g w position m =
     (let n = wn_total w in
      andthen (all_stable b r w [position - 1..<min (position + 2) n] m) (\<lambda>m1 quiet.
      if quiet then (m1, Ok True)
      else
        let floor_index = position - anchor_scan in
        andthen (anchor_left b r w floor_index (position - 1) m1) (\<lambda>m2 (anchored, left).
        if \<not> anchored \<and> floor_index > 0 then (m2, Ok False)
        else
          let left' = (if anchored then left else 0); ceiling = min n (position + 1 + anchor_scan) in
          andthen (anchor_right b r w (position + 1) (ceiling - (position + 1)) m2) (\<lambda>m3 right.
          if right = ceiling \<and> ceiling < n then (m3, Ok False)
          else (m3, anchored_accepts b r g w left' position right)))))"


section \<open>The planner\<close>

record chunk_encoder =
  ce_boundary :: sync_boundary
  ce_guard :: literal_guard
  ce_mode :: "normalizer_mode option"
  ce_refusal :: "string option"
  ce_rule :: "reference option"

definition chunk_encoder_new ::
  "(u8 list \<Rightarrow> (string, json) outcome) \<Rightarrow> (json \<Rightarrow> str) \<Rightarrow> u8 list \<Rightarrow> sync_boundary \<Rightarrow> reference
     \<Rightarrow> (string, chunk_encoder) outcome"
where
  "chunk_encoder_new parse print tokenizer_json b r =
     (case parse tokenizer_json of
        Err error \<Rightarrow> Err (''tokenizer document is not JSON: '' @ error)
      | Panic \<Rightarrow> Panic
      | Ok document \<Rightarrow>
          (case normalizer_mode_of document of
             Ok mode \<Rightarrow>
               Ok \<lparr>ce_boundary = b, ce_guard = guard_new (face_literals print document), ce_mode = Some mode,
                   ce_refusal = None, ce_rule = (if mode = NormalizerNfc then Some r else None)\<rparr>
           | Err refusal \<Rightarrow>
               Ok \<lparr>ce_boundary = b, ce_guard = guard_new (face_literals print document), ce_mode = None,
                   ce_refusal = Some refusal, ce_rule = None\<rparr>
           | Panic \<Rightarrow> Panic))"

record chunk_plan =
  cp_spans :: "(nat \<times> nat) list"
  cp_byte_spans :: "(nat \<times> nat) list"
  cp_k :: nat
  cp_chars :: nat
  cp_cut_misses :: nat
  cp_literal_rejects :: nat
  cp_norm_rejects :: nat

definition plan_single :: "nat \<Rightarrow> nat \<Rightarrow> nat \<Rightarrow> chunk_plan" where
  "plan_single n bytes k = \<lparr>cp_spans = [(0, n)], cp_byte_spans = [(0, bytes)], cp_k = k, cp_chars = n,
     cp_cut_misses = 0, cp_literal_rejects = 0, cp_norm_rejects = 0\<rparr>"

definition plan_cuts :: "chunk_plan \<Rightarrow> nat list" where
  "plan_cuts p = map fst (drop 1 (cp_spans p))"

text \<open>The memo table and the two reject counters of a search.\<close>

record scan_state =
  sn_memo :: memo
  sn_literal :: nat
  sn_norm :: nat

definition boundary_ok :: "chunk_encoder \<Rightarrow> window \<Rightarrow> nat \<Rightarrow> (string, bool) outcome" where
  "boundary_ok ce w position =
     (if position = 0 then Panic
      else rbind (wn_char_at w (position - 1)) (\<lambda>previous. rbind (wn_char_at w position) (\<lambda>current.
        Ok (sync_accepts (ce_boundary ce) previous current))))"

text \<open>The decision at one position: whether it is the cut.\<close>

definition scan_at ::
  "chunk_encoder \<Rightarrow> window \<Rightarrow> bool list \<Rightarrow> nat \<Rightarrow> nat \<Rightarrow> scan_state \<Rightarrow> scan_state \<times> (string, bool) outcome"
where
  "scan_at ce w forbidden low position sn =
     attempt sn (boundary_ok ce w position) (\<lambda>ok.
     if \<not> ok then (sn, Ok False)
     else
       attempt sn (vec_get forbidden (position - low)) (\<lambda>inside.
       if inside then (sn\<lparr>sn_literal := sn_literal sn + 1\<rparr>, Ok False)
       else case ce_rule ce of
         None \<Rightarrow> (sn, Ok True)
       | Some r \<Rightarrow>
           (case nfc_accepts (ce_boundary ce) r (ce_guard ce) w position (sn_memo sn) of
              (m, Ok True) \<Rightarrow> (sn\<lparr>sn_memo := m\<rparr>, Ok True)
            | (m, Ok False) \<Rightarrow> (sn\<lparr>sn_memo := m, sn_norm := sn_norm sn + 1\<rparr>, Ok False)
            | (m, Err e) \<Rightarrow> (sn\<lparr>sn_memo := m\<rparr>, Err e)
            | (m, Panic) \<Rightarrow> (sn\<lparr>sn_memo := m\<rparr>, Panic))))"

text \<open>The loop on \<open>position\<close>, by the number of positions below it.\<close>

fun scan_down ::
  "chunk_encoder \<Rightarrow> window \<Rightarrow> bool list \<Rightarrow> nat \<Rightarrow> nat \<Rightarrow> scan_state \<Rightarrow> scan_state \<times> (string, nat option) outcome"
where
  "scan_down ce w forbidden low 0 sn =
     andthen (scan_at ce w forbidden low low sn) (\<lambda>sn' hit. (sn', Ok (if hit then Some low else None)))"
| "scan_down ce w forbidden low (Suc n) sn =
     andthen (scan_at ce w forbidden low (low + Suc n) sn) (\<lambda>sn' hit.
       if hit then (sn', Ok (Some (low + Suc n))) else scan_down ce w forbidden low n sn')"

definition chunk_scan ::
  "chunk_encoder \<Rightarrow> window \<Rightarrow> nat \<Rightarrow> nat \<Rightarrow> scan_state \<Rightarrow> scan_state \<times> (string, nat option) outcome"
where
  "chunk_scan ce w low high sn =
     (if high < low then (sn, Ok None)
      else
        attempt sn (guard_forbidden (ce_guard ce) w low high) (\<lambda>forbidden.
          scan_down ce w forbidden low (high - low) sn))"

text \<open>\<open>low\<close> and \<open>high\<close> of the two searches below one target, each in its own window.\<close>

definition scan_window ::
  "chunk_encoder \<Rightarrow> nat \<Rightarrow> nat \<Rightarrow> nat \<Rightarrow> nat \<Rightarrow> seek_cursor \<times> scan_state
     \<Rightarrow> (seek_cursor \<times> scan_state) \<times> (string, window \<times> nat option) outcome"
where
  "scan_window ce n margin low high s =
     attempt s (window_extract (fst s) n (low - margin) (high + margin + 1)) (\<lambda>(cursor, w).
       case chunk_scan ce w low high (snd s) of
         (sn, Ok found) \<Rightarrow> ((cursor, sn), Ok (w, found))
       | (sn, Err e) \<Rightarrow> ((cursor, sn), Err e)
       | (sn, Panic) \<Rightarrow> ((cursor, sn), Panic))"

record plan_state =
  pn_search :: "seek_cursor \<times> scan_state"
  pn_cuts :: "(nat \<times> nat) list"
  pn_misses :: nat
  pn_previous :: nat

text \<open>The first search, and the extended one where it finds nothing.\<close>

definition find_cut ::
  "chunk_encoder \<Rightarrow> nat \<Rightarrow> nat \<Rightarrow> nat \<Rightarrow> nat \<Rightarrow> nat \<Rightarrow> nat \<Rightarrow> seek_cursor \<times> scan_state
     \<Rightarrow> (seek_cursor \<times> scan_state) \<times> (string, window \<times> nat option) outcome"
where
  "find_cut ce n margin quick budget previous target s =
     (let low = max (previous + 1) (target - quick) in
      andthen (scan_window ce n margin low target s) (\<lambda>s1 (w, found).
        if found = None \<and> budget > quick \<and> low > previous + 1
        then scan_window ce n margin (max (previous + 1) (target - budget)) (low - 1) s1
        else (s1, Ok (w, found))))"

text \<open>One target; \<open>total * index\<close> wraps at 64 bits.\<close>

definition plan_step ::
  "chunk_encoder \<Rightarrow> nat \<Rightarrow> nat \<Rightarrow> nat \<Rightarrow> nat \<Rightarrow> nat \<Rightarrow> nat \<Rightarrow> nat \<Rightarrow> plan_state \<Rightarrow> plan_state \<times> (string, unit) outcome"
where
  "plan_step ce n k floor_chars quick budget margin index p =
     (let target = n * index mod 18446744073709551616 div k; previous = pn_previous p in
      if target \<le> previous then (p\<lparr>pn_misses := pn_misses p + 1\<rparr>, Ok ())
      else
        (case find_cut ce n margin quick budget previous target (pn_search p) of
           (s, Ok (w, Some position)) \<Rightarrow>
             (let p' = p\<lparr>pn_search := s\<rparr> in
              if position - previous \<ge> floor_chars \<and> n - position \<ge> floor_chars
              then attempt p' (wn_byte_of w position) (\<lambda>byte.
                (p'\<lparr>pn_cuts := pn_cuts p @ [(position, byte)], pn_previous := position\<rparr>, Ok ()))
              else (p'\<lparr>pn_misses := pn_misses p + 1\<rparr>, Ok ()))
         | (s, Ok (w, None)) \<Rightarrow> (p\<lparr>pn_search := s, pn_misses := pn_misses p + 1\<rparr>, Ok ())
         | (s, Err e) \<Rightarrow> (p\<lparr>pn_search := s\<rparr>, Err e)
         | (s, Panic) \<Rightarrow> (p\<lparr>pn_search := s\<rparr>, Panic)))"

fun plan_steps ::
  "chunk_encoder \<Rightarrow> nat \<Rightarrow> nat \<Rightarrow> nat \<Rightarrow> nat \<Rightarrow> nat \<Rightarrow> nat \<Rightarrow> nat list \<Rightarrow> plan_state \<Rightarrow> plan_state \<times> (string, unit) outcome"
where
  "plan_steps ce n k floor_chars quick budget margin [] p = (p, Ok ())"
| "plan_steps ce n k floor_chars quick budget margin (index # is) p =
     andthen (plan_step ce n k floor_chars quick budget margin index p) (\<lambda>p' _.
       plan_steps ce n k floor_chars quick budget margin is p')"

text \<open>\<^verbatim>\<open>bounds.windows(2)\<close>\<close>

fun pairs_of :: "'a list \<Rightarrow> ('a \<times> 'a) list" where
  "pairs_of (a # b # xs) = (a, b) # pairs_of (b # xs)"
| "pairs_of _ = []"

text \<open>The floor of a chunk; \<open>4 * k\<close> wraps at 64 bits, and the division by a wrapped zero panics.\<close>

definition chunk_floor :: "nat \<Rightarrow> nat \<Rightarrow> nat option \<Rightarrow> (string, nat) outcome" where
  "chunk_floor n k min_chunk =
     (case min_chunk of
        Some m \<Rightarrow> Ok m
      | None \<Rightarrow>
          let d = 4 * k mod 18446744073709551616 in
          if d = 0 then Panic else Ok (min (max (n div d) 16) 1024))"

definition min_text_chars :: nat where "min_text_chars = 256"
definition quick_scan :: nat where "quick_scan = 48"

definition plan_counted ::
  "chunk_encoder \<Rightarrow> str \<Rightarrow> nat \<Rightarrow> nat \<Rightarrow> nat option \<Rightarrow> nat \<Rightarrow> memo \<Rightarrow> memo \<times> (string, chunk_plan) outcome"
where
  "plan_counted ce text n k min_chunk budget m =
     (if k \<le> 1 \<or> n < min_text_chars then (m, Ok (plan_single n (length text) k))
      else
        attempt m (chunk_floor n k min_chunk) (\<lambda>floor_chars.
        let start = \<lparr>pn_search = (seek_new text, \<lparr>sn_memo = m, sn_literal = 0, sn_norm = 0\<rparr>),
                     pn_cuts = [], pn_misses = 0, pn_previous = 0\<rparr>;
            (p, r) = plan_steps ce n k floor_chars (min quick_scan budget) budget
                       (anchor_scan + lg_lmax (ce_guard ce) + 2) [1..<k] start;
            sn = snd (pn_search p); bounds = (0, 0) # pn_cuts p @ [(n, length text)] in
        attempt (sn_memo sn) r (\<lambda>_.
          (sn_memo sn, Ok \<lparr>cp_spans = map (\<lambda>(a, b). (fst a, fst b)) (pairs_of bounds),
             cp_byte_spans = map (\<lambda>(a, b). (snd a, snd b)) (pairs_of bounds),
             cp_k = k, cp_chars = n, cp_cut_misses = pn_misses p,
             cp_literal_rejects = sn_literal sn, cp_norm_rejects = sn_norm sn\<rparr>))))"

definition chunk_planned ::
  "chunk_encoder \<Rightarrow> str \<Rightarrow> nat \<Rightarrow> nat option \<Rightarrow> nat \<Rightarrow> memo \<Rightarrow> memo \<times> (string, chunk_plan) outcome"
where
  "chunk_planned ce text k min_chunk budget m =
     (if budget = 0 then (m, Err ''scan_budget must be a positive integer'')
      else plan_counted ce text (count_chars text) k min_chunk budget m)"

end
