(* ===== verification/Chunked.thy ===== *)
theory Chunked
  imports ChunkPlan Batch
begin

text \<open>
  The encode of one text in certified chunks (\<^verbatim>\<open>chunked.rs\<close>): the planner of the engine, built once, the free
  list of its workers, and the rows, which run concurrently. A row checks a worker out (or forks one), encodes
  its chunk through the guarded gate and checks the worker in; the counters and the free list are shared.
  A schedule lists the row that takes the next step. The timings of the result are left out.
\<close>

section \<open>State\<close>

text \<open>The once-cell of the planner with its memo table, free list and fork counter, and the engine.\<close>

record 'w chunk_cell =
  ck_planner :: "(string, chunk_encoder) outcome option"
  ck_memo :: memo
  ck_free :: "'w list"
  ck_forked :: nat
  ck_engine :: "'w fast_state"

text \<open>The documents of an engine: the bytes it was built over, their parser and the printer of the JSON library.\<close>

record chunk_document =
  cd_bytes :: "u8 list"
  cd_parse :: "u8 list \<Rightarrow> (string, json) outcome"
  cd_print :: "json \<Rightarrow> str"

definition chunk_planner ::
  "chunk_document \<Rightarrow> 'w fast_engine \<Rightarrow> 'w chunk_cell \<Rightarrow> 'w chunk_cell \<times> (string, chunk_encoder) outcome"
where
  "chunk_planner doc e c =
     (case ck_planner c of
        Some r \<Rightarrow> (c, r)
      | None \<Rightarrow>
          let r = chunk_encoder_new (cd_parse doc) (cd_print doc) (cd_bytes doc) (fe_boundary e) (fe_reference e)
          in (c\<lparr>ck_planner := Some r, ck_memo := (\<lambda>_. None), ck_free := [], ck_forked := 0\<rparr>, r))"

definition fork_worker :: "'w fast_engine \<Rightarrow> 'w fast_state \<Rightarrow> 'w" where
  "fork_worker e s = gt_fork (fe_gigatoken e) (fw_primary s)"

definition chunk_checkout :: "'w fast_engine \<Rightarrow> 'w chunk_cell \<Rightarrow> 'w chunk_cell \<times> ('w \<times> bool)" where
  "chunk_checkout e c =
     (if ck_free c = [] then (c\<lparr>ck_forked := ck_forked c + 1\<rparr>, (fork_worker e (ck_engine c), True))
      else (c\<lparr>ck_free := butlast (ck_free c)\<rparr>, (last (ck_free c), False)))"

definition chunk_checkin :: "'w \<Rightarrow> 'w chunk_cell \<Rightarrow> 'w chunk_cell" where
  "chunk_checkin w c = c\<lparr>ck_free := ck_free c @ [w]\<rparr>"

text \<open>\<^verbatim>\<open>warm\<close>\<close>

definition chunk_warm :: "'w fast_engine \<Rightarrow> nat \<Rightarrow> str option \<Rightarrow> 'w chunk_cell \<Rightarrow> 'w chunk_cell \<times> (string, nat) outcome" where
  "chunk_warm e workers text c =
     (let existing = ck_forked c in
      if workers > existing
      then
        let fresh = map (\<lambda>_. let w = fork_worker e (ck_engine c) in
                     case text of None \<Rightarrow> w | Some x \<Rightarrow> fst (gt_encode (fe_gigatoken e) w x)) [existing..<workers];
            c' = c\<lparr>ck_forked := existing + length fresh, ck_free := ck_free c @ fresh\<rparr>
        in (c', Ok (ck_forked c'))
      else (c, Ok existing))"

definition chunked_warm ::
  "chunk_document \<Rightarrow> 'w fast_engine \<Rightarrow> nat \<Rightarrow> str option \<Rightarrow> 'w chunk_cell \<Rightarrow> 'w chunk_cell \<times> (string, nat) outcome"
where
  "chunked_warm doc e workers text c =
     andthen (chunk_planner doc e c) (\<lambda>c' _. chunk_warm e workers text c')"

definition chunked_plan ::
  "chunk_document \<Rightarrow> 'w fast_engine \<Rightarrow> str \<Rightarrow> nat \<Rightarrow> nat option \<Rightarrow> nat \<Rightarrow> 'w chunk_cell
     \<Rightarrow> 'w chunk_cell \<times> (string, chunk_plan) outcome"
where
  "chunked_plan doc e text k min_chunk scan_budget c =
     andthen (chunk_planner doc e c) (\<lambda>c' ce.
       case ce_refusal ce of
         Some refusal \<Rightarrow> (c', Err (fs_family (fe_spec e) @ '' has no certified chunk-cut rule: '' @ refusal))
       | None \<Rightarrow>
           (case chunk_planned ce text k min_chunk scan_budget (ck_memo c') of
              (m, r) \<Rightarrow> (c'\<lparr>ck_memo := m\<rparr>, r)))"

section \<open>The rows\<close>

datatype 'w chunk_row =
  RowWaiting
| RowHolding 'w bool
| RowEncoded 'w bool "(string, u32 list \<times> encode_source) outcome"
| RowReady "u32 list" encode_source bool
| RowFailed

record 'w chunk_run =
  cr_cell :: "'w chunk_cell"
  cr_rows :: "'w chunk_row list"
  cr_failed :: "(string, unit) outcome"

text \<open>The first error stays; a panic of a row is the outcome whatever the other rows return.\<close>

definition row_failure :: "(string, unit) outcome \<Rightarrow> 'w chunk_run \<Rightarrow> 'w chunk_run" where
  "row_failure f run = run\<lparr>cr_failed := (if f = Panic \<or> cr_failed run = Ok () then f else cr_failed run)\<rparr>"

text \<open>The next step of row \<open>i\<close>. A panic loses the worker, an error does not.\<close>

definition chunk_row_step :: "'w fast_engine \<Rightarrow> str \<Rightarrow> (nat \<times> nat) list \<Rightarrow> nat \<Rightarrow> 'w chunk_run \<Rightarrow> 'w chunk_run" where
  "chunk_row_step e text spans i run =
     (if i < length (cr_rows run)
      then case cr_rows run ! i of
        RowWaiting \<Rightarrow>
          (let (c, (w, cold)) = chunk_checkout e (cr_cell run)
           in run\<lparr>cr_cell := c, cr_rows := (cr_rows run)[i := RowHolding w cold]\<rparr>)
      | RowHolding w cold \<Rightarrow>
          (let c = cr_cell run; s = ck_engine c in
           case str_slice text (fst (spans ! i)) (snd (spans ! i)) of
             Ok x \<Rightarrow>
               (case full_ids_with_source e x (fw_stats s, w) of
                  ((st, w'), r) \<Rightarrow>
                    run\<lparr>cr_cell := c\<lparr>ck_engine := s\<lparr>fw_stats := st\<rparr>\<rparr>,
                        cr_rows := (cr_rows run)[i := RowEncoded w' cold r]\<rparr>)
           | Err m \<Rightarrow> row_failure (Err m) (run\<lparr>cr_rows := (cr_rows run)[i := RowFailed]\<rparr>)
           | Panic \<Rightarrow> row_failure Panic (run\<lparr>cr_rows := (cr_rows run)[i := RowFailed]\<rparr>))
      | RowEncoded w cold r \<Rightarrow>
          (let run' = run\<lparr>cr_cell := chunk_checkin w (cr_cell run)\<rparr> in
           case r of
             Ok (ids, source) \<Rightarrow> run'\<lparr>cr_rows := (cr_rows run)[i := RowReady ids source cold]\<rparr>
           | Err m \<Rightarrow> row_failure (Err m) (run'\<lparr>cr_rows := (cr_rows run)[i := RowFailed]\<rparr>)
           | Panic \<Rightarrow> row_failure Panic (run\<lparr>cr_rows := (cr_rows run)[i := RowFailed]\<rparr>))
      | _ \<Rightarrow> run
      else run)"

text \<open>Whether the rows are over: all ready, or a failure and no row on a worker (the rows that still wait are skipped).\<close>

definition rows_over :: "'w chunk_run \<Rightarrow> bool" where
  "rows_over run \<longleftrightarrow>
     list_all (\<lambda>r. case r of RowHolding _ _ \<Rightarrow> False | RowEncoded _ _ _ \<Rightarrow> False
                 | RowWaiting \<Rightarrow> cr_failed run \<noteq> Ok () | _ \<Rightarrow> True) (cr_rows run)"

section \<open>The encode\<close>

record chunked_ids =
  ci_ids :: "u32 list"
  ci_chunks :: nat
  ci_requested :: nat
  ci_cuts :: "nat list"
  ci_cut_misses :: nat
  ci_literal_rejects :: nat
  ci_norm_rejects :: nat
  ci_serial_reason :: "string option"
  ci_below_threshold :: bool
  ci_sources :: "encode_source list"
  ci_row_bytes :: "nat list"
  ci_cold_forks :: nat

definition chunked_serial ::
  "'w fast_engine \<Rightarrow> str \<Rightarrow> nat \<Rightarrow> string option \<Rightarrow> bool \<Rightarrow> chunk_plan option \<Rightarrow> 'w chunk_cell
     \<Rightarrow> 'w chunk_cell \<times> (string, chunked_ids) outcome"
where
  "chunked_serial e text k reason below plan c =
     (case encode_ids_with_source e text (ck_engine c) of
        (s, r) \<Rightarrow> (c\<lparr>ck_engine := s\<rparr>,
          rbind r (\<lambda>(ids, source). Ok
            \<lparr>ci_ids = ids, ci_chunks = 1, ci_requested = k, ci_cuts = [],
             ci_cut_misses = (case plan of None \<Rightarrow> 0 | Some p \<Rightarrow> cp_cut_misses p),
             ci_literal_rejects = (case plan of None \<Rightarrow> 0 | Some p \<Rightarrow> cp_literal_rejects p),
             ci_norm_rejects = (case plan of None \<Rightarrow> 0 | Some p \<Rightarrow> cp_norm_rejects p),
             ci_serial_reason = reason, ci_below_threshold = below, ci_sources = [source],
             ci_row_bytes = [length text], ci_cold_forks = 0\<rparr>)))"

text \<open>The concatenation of the rows.\<close>

definition row_ids :: "'w chunk_row \<Rightarrow> u32 list" where
  "row_ids r = (case r of RowReady ids _ _ \<Rightarrow> ids | _ \<Rightarrow> [])"

definition row_sources :: "'w chunk_row \<Rightarrow> encode_source list" where
  "row_sources r = (case r of RowReady _ source _ \<Rightarrow> [source] | _ \<Rightarrow> [])"

definition row_cold :: "'w chunk_row \<Rightarrow> nat" where
  "row_cold r = (case r of RowReady _ _ True \<Rightarrow> 1 | _ \<Rightarrow> 0)"

definition chunked_join :: "nat \<Rightarrow> chunk_plan \<Rightarrow> 'w chunk_row list \<Rightarrow> chunked_ids" where
  "chunked_join k plan rows =
     \<lparr>ci_ids = concat (map row_ids rows), ci_chunks = length rows, ci_requested = k, ci_cuts = plan_cuts plan,
      ci_cut_misses = cp_cut_misses plan, ci_literal_rejects = cp_literal_rejects plan,
      ci_norm_rejects = cp_norm_rejects plan, ci_serial_reason = None, ci_below_threshold = False,
      ci_sources = concat (map row_sources rows), ci_row_bytes = map (\<lambda>(low, high). high - low) (cp_byte_spans plan),
      ci_cold_forks = sum_list (map row_cold rows)\<rparr>"

definition rows_start :: "chunk_plan \<Rightarrow> 'w chunk_cell \<Rightarrow> 'w chunk_run" where
  "rows_start plan c =
     \<lparr>cr_cell = c, cr_rows = replicate (length (cp_byte_spans plan)) RowWaiting, cr_failed = Ok ()\<rparr>"

definition chunked_rows ::
  "'w fast_engine \<Rightarrow> nat list \<Rightarrow> str \<Rightarrow> nat \<Rightarrow> chunk_plan \<Rightarrow> 'w chunk_cell
     \<Rightarrow> ('w chunk_cell \<times> (string, chunked_ids) outcome) option"
where
  "chunked_rows e schedule text k plan c =
     (let run = fold (chunk_row_step e text (cp_byte_spans plan)) schedule (rows_start plan c)
      in if rows_over run
         then Some (cr_cell run, rbind (cr_failed run) (\<lambda>_. Ok (chunked_join k plan (cr_rows run))))
         else None)"

text \<open>\<open>None\<close> where the schedule does not run the rows to the end.\<close>

definition chunked_encode_ids ::
  "chunk_document \<Rightarrow> 'w fast_engine \<Rightarrow> nat list \<Rightarrow> str \<Rightarrow> nat \<Rightarrow> nat option \<Rightarrow> nat \<Rightarrow> 'w chunk_cell
     \<Rightarrow> ('w chunk_cell \<times> (string, chunked_ids) outcome) option"
where
  "chunked_encode_ids doc e schedule text k min_chunk scan_budget c =
     (if scan_budget = 0 then Some (c, Err ''scan_budget must be a positive integer'')
      else case chunk_planner doc e c of
        (c1, Ok ce) \<Rightarrow>
          (let n = count_chars text in
           if ce_refusal ce \<noteq> None
           then Some (chunked_serial e text k (Some ''R_CHUNK_FAMILY_UNSUPPORTED'') False None c1)
           else if k \<le> 1 \<or> n < min_text_chars then Some (chunked_serial e text k None True None c1)
           else
             (case plan_counted ce text n k min_chunk scan_budget (ck_memo c1) of
                (m, Ok plan) \<Rightarrow>
                  (let c2 = c1\<lparr>ck_memo := m\<rparr> in
                   if length (cp_spans plan) = 1
                   then Some (chunked_serial e text k (Some ''R_CHUNK_NO_CUT'') False (Some plan) c2)
                   else chunked_rows e schedule text k plan c2)
              | (m, Err error) \<Rightarrow> Some (c1\<lparr>ck_memo := m\<rparr>, Err error)
              | (m, Panic) \<Rightarrow> Some (c1\<lparr>ck_memo := m\<rparr>, Panic)))
      | (c1, Err error) \<Rightarrow> Some (c1, Err error)
      | (c1, Panic) \<Rightarrow> Some (c1, Panic))"

definition default_chunk_workers :: "nat \<Rightarrow> nat" where
  "default_chunk_workers threads = max threads 1"

end
