(* ===== verification/ChunkGuard.thy ===== *)
theory ChunkGuard
  imports ChunkPlan
begin

text \<open>
  The literal guard is exact on its windows: it finds every occurrence of every literal, so a position is
  forbidden precisely when an occurrence covers it.
\<close>

section \<open>Occurrences\<close>

definition occurs :: "str set \<Rightarrow> str \<Rightarrow> nat \<Rightarrow> nat \<Rightarrow> bool" where
  "occurs pats s f l \<longleftrightarrow> f < l \<and> l \<le> char_count s \<and> concat (take (l - f) (drop f (chars s))) \<in> pats"

lemma occurs_bounds: "occurs pats s f l \<Longrightarrow> f < l \<and> l \<le> char_count s"
  unfolding occurs_def by blast

lemma starts_with_iff: "starts_with p x \<longleftrightarrow> (\<exists>y. x = p @ y)"
  by (induction p x rule: starts_with.induct) auto

lemma find_overlapping_set:
  "set (find_overlapping pats x) = {(i, j). i < length x \<and> j < length pats \<and> (\<exists>y. drop i x = pats ! j @ y)}"
  by (auto simp: find_overlapping_def starts_with_iff)

lemma chars_inj: "chars x = chars y \<Longrightarrow> x = y"
  by (metis concat_chars)

text \<open>A valid text is a prefix of a valid text character by character: the lead byte gives the length.\<close>

lemma valid_prefix: "valid_utf8 p \<Longrightarrow> valid_utf8 (p @ y) \<Longrightarrow> chars (p @ y) = chars p @ chars y"
proof (induction p rule: chars.induct)
  case (2 b bs)
  have "valid_scalar (b # takeWhile is_cont bs)" "valid_scalar (b # takeWhile is_cont (bs @ y))"
    using "2.prems" by (simp_all add: valid_utf8_def)
  then have len: "length (takeWhile is_cont (bs @ y)) = length (takeWhile is_cont bs)"
    by (metis length_Cons list.sel(1) nat.inject utf8_len_char)
  have tw: "takeWhile is_cont (bs @ y) = takeWhile is_cont bs \<and> dropWhile is_cont (bs @ y) = dropWhile is_cont bs @ y"
  proof (cases "\<forall>x \<in> set bs. is_cont x")
    case True
    then have e: "takeWhile is_cont (bs @ y) = bs @ takeWhile is_cont y" "takeWhile is_cont bs = bs" "dropWhile is_cont bs = []"
      "dropWhile is_cont (bs @ y) = dropWhile is_cont y"
      by (simp_all add: takeWhile_append2 dropWhile_append2 takeWhile_eq_all_conv [THEN iffD2])
    have "length (bs @ takeWhile is_cont y) = length bs" using len e(1,2) by (simp only:)
    then have "takeWhile is_cont y = []" by simp
    then show ?thesis using e by (metis append.left_neutral append.right_neutral takeWhile_dropWhile_id)
  next
    case False
    then show ?thesis by (auto simp: takeWhile_append1 dropWhile_append1)
  qed
  then show ?case using 2 by (simp add: valid_utf8_def)
qed simp

text \<open>A literal found at a byte starts and ends a character.\<close>

lemma match_at_char:
  assumes x: "valid_utf8 x" and p: "valid_utf8 p" "p \<noteq> []" and d: "drop i x = p @ y" and i: "i < length x"
  shows "i = char_off x (starts_to x i)" "starts_to x i + char_count p \<le> char_count x"
    "concat (take (char_count p) (drop (starts_to x i) (chars x))) = p"
proof -
  have "x ! i = hd p" using d i p(2) by (metis hd_append2 hd_drop_conv_nth)
  then have "\<not> is_cont (x ! i)" using chars_hd_valid [OF p(1)] p(2) by simp
  then have b: "is_char_boundary x i" using i by (simp add: is_char_boundary_def)
  note off = boundary_off [OF x b less_imp_le [OF i]]
  show o1: "i = char_off x (starts_to x i)" by (rule off(1))
  have "valid_utf8 (p @ y)" using valid_take_drop(2) [OF x b less_imp_le [OF i]] d by simp
  then have "chars (drop i x) = chars p @ chars y" using valid_prefix [OF p(1)] d by simp
  moreover have "chars (drop i x) = drop (starts_to x i) (chars x)" using o1 chars_drop_off by metis
  ultimately have c: "drop (starts_to x i) (chars x) = chars p @ chars y" by simp
  then show "concat (take (char_count p) (drop (starts_to x i) (chars x))) = p" by simp
  have "char_count x - starts_to x i = char_count p + char_count y" using c by (metis length_append length_drop)
  then show "starts_to x i + char_count p \<le> char_count x" using p(2) chars_eq_Nil [of p] by (cases "chars p") auto
qed

lemma occurs_match:
  assumes x: "valid_utf8 x" and p: "valid_utf8 p" "p \<noteq> []" and f: "f + char_count p \<le> char_count x"
    and c: "concat (take (char_count p) (drop f (chars x))) = p"
  shows "\<exists>y. drop (char_off x f) x = p @ y"
  using c by (metis append_take_drop_id concat_append drop_char_off)

section \<open>The guard\<close>

lemma fold_max: "a \<le> fold max xs (a :: nat)" "x \<in> set xs \<Longrightarrow> x \<le> fold max xs (a :: nat)"
proof (induction xs arbitrary: a)
  case (Cons y xs)
  { case 1 show ?case using Cons.IH(1) [of "max y a"] by simp }
  { case 2 show ?case using Cons.IH(1) [of "max y a"] Cons.IH(2) [of "max y a"] 2 by auto }
qed simp_all

lemma guard_new_sel:
  "set (lg_patterns (guard_new lits)) = set lits - {[]}"
  "lg_lengths (guard_new lits) = map char_count (lg_patterns (guard_new lits))"
  "p \<in> set lits \<Longrightarrow> p \<noteq> [] \<Longrightarrow> char_count p \<le> lg_lmax (guard_new lits)"
  by (auto simp: guard_new_def Let_def intro!: fold_max(2))

lemma window_text [simp]: "wn_text (window_of s lo hi) = s"
  by (simp add: window_of_def)

lemma chars_sub: "chars (concat (take k (drop m (chars s)))) = take k (drop m (chars s))"
  using chars_concat_take [of k "concat (drop m (chars s))"] unfolding chars_concat_drop .

lemma slice_off:
  assumes "a \<le> b" "b \<le> char_count s" "q \<le> b - a"
  shows "char_off s a + char_off (concat (take (b - a) (drop a (chars s)))) q = char_off s (a + q)"
proof -
  have "take (a + q) (chars s) = take a (chars s) @ take q (take (b - a) (drop a (chars s)))"
    using assms(3) by (simp add: take_add min_def)
  then show ?thesis by (simp add: char_off_def chars_sub)
qed

lemma occurrences_exact:
  assumes s: "valid_utf8 s" and v: "\<forall>p \<in> set lits. valid_utf8 p" and w: "lo \<le> a" "b \<le> hi" "hi \<le> char_count s"
  shows "\<exists>occs. guard_occurrences (guard_new lits) (window_of s lo hi) a b = Ok occs
    \<and> set occs = {(f, l). occurs (set lits - {[]}) s f l \<and> a \<le> f \<and> l \<le> b}"
proof (cases "lg_patterns (guard_new lits) = [] \<or> a \<ge> b")
  case True
  have "\<not> (occurs (set lits - {[]}) s f l \<and> a \<le> f \<and> l \<le> b)" for f l
    using True
  proof
    assume "lg_patterns (guard_new lits) = []"
    then have "set lits - {[]} = {}" using guard_new_sel(1) [of lits] by simp
    then show ?thesis unfolding occurs_def by (metis empty_iff)
  qed (auto simp: occurs_def)
  then show ?thesis using True by (simp add: guard_occurrences_def)
next
  case False
  let ?g = "guard_new lits" and ?x = "concat (take (b - a) (drop a (chars s)))"
  let ?f = "\<lambda>(i, j). let first = wn_char_of_byte (window_of s lo hi) (char_off s a + i) in (first, first + lg_lengths ?g ! j)"
  let ?S = "{(f, l). occurs (set lits - {[]}) s f l \<and> a \<le> f \<and> l \<le> b}"
  have ab: "a \<le> b" "a < b" using False by simp_all
  have x: "valid_utf8 ?x" using s by simp
  have cx: "chars ?x = take (b - a) (drop a (chars s))" by (rule chars_sub)
  have nx: "char_count ?x = b - a" using w ab by (simp add: cx)
  have pat: "valid_utf8 (lg_patterns ?g ! j) \<and> lg_patterns ?g ! j \<noteq> [] \<and> lg_patterns ?g ! j \<in> set lits"
    if "j < length (lg_patterns ?g)" for j using guard_new_sel(1) [of lits] v nth_mem [OF that] by auto
  have "?f ` set (find_overlapping (lg_patterns ?g) ?x) = ?S"
  proof (intro equalityI subsetI)
    fix o' assume "o' \<in> ?f ` set (find_overlapping (lg_patterns ?g) ?x)"
    then obtain i j y where ij: "i < length ?x" "j < length (lg_patterns ?g)" "drop i ?x = lg_patterns ?g ! j @ y" "o' = ?f (i, j)"
      by (auto simp: find_overlapping_set)
    let ?p = "lg_patterns ?g ! j" and ?q = "starts_to ?x i"
    note m = match_at_char [OF x _ _ ij(3,1)] pat [OF ij(2)]
    have q: "?q + char_count ?p \<le> b - a" "i = char_off ?x ?q" "concat (take (char_count ?p) (drop ?q (chars ?x))) = ?p"
      using m nx by simp_all
    have "char_off s a + i = char_off s (a + ?q)" using slice_off [of a b s ?q] q w ab by simp
    then have o': "o' = (a + ?q, a + ?q + char_count ?p)"
      using ij(2,4) q(1) w ab by (simp add: Let_def guard_new_sel(2))
    have "take (char_count ?p) (drop ?q (chars ?x)) = take (char_count ?p) (drop (a + ?q) (chars s))"
      using q(1) by (simp add: cx drop_take min_def add.commute)
    then have eq: "concat (take (char_count ?p) (drop (a + ?q) (chars s))) = ?p" using q(3) by simp
    have "0 < char_count ?p" "?p \<in> set lits - {[]}" using pat [OF ij(2)] by simp_all
    moreover have lb: "a + ?q + char_count ?p \<le> b" using q(1) ab by linarith
    moreover have "a + ?q + char_count ?p \<le> char_count s" using lb w by linarith
    ultimately have "occurs (set lits - {[]}) s (a + ?q) (a + ?q + char_count ?p)"
      unfolding occurs_def using eq by (simp only: add_diff_cancel_left' simp_thms)
    then show "o' \<in> ?S" using lb by (simp add: o')
  next
    fix o' assume "o' \<in> ?S"
    then obtain f l where o': "o' = (f, l)" "occurs (set lits - {[]}) s f l" "a \<le> f" "l \<le> b" by auto
    let ?p = "concat (take (l - f) (drop f (chars s)))"
    have p: "?p \<in> set lits" "?p \<noteq> []" "f < l" using o'(2) by (auto simp: occurs_def)
    then obtain j where j: "j < length (lg_patterns ?g)" "lg_patterns ?g ! j = ?p"
      using guard_new_sel(1) [of lits] by (metis DiffI in_set_conv_nth singletonD)
    have np: "char_count ?p = l - f"
      using o' w by (simp add: chars_sub)
    have "take (l - f) (drop (f - a) (chars ?x)) = take (l - f) (drop f (chars s))"
      using o'(3,4) p(3) by (simp add: cx drop_take min_def)
    then obtain y where y: "drop (char_off ?x (f - a)) ?x = ?p @ y"
      using occurs_match [OF x _ p(2), of "f - a"] v p(1,3) np nx diff_le_mono [OF o'(4), of a] o'(3) by auto
    have lt: "char_off ?x (f - a) < length ?x" by (rule char_off_less_length) (use nx o' p in simp)
    have "char_off s a + char_off ?x (f - a) = char_off s f" using slice_off [of a b s "f - a"] o' p w ab by simp
    then have "?f (char_off ?x (f - a), j) = (f, l)" using j np o' p w by (simp add: Let_def guard_new_sel(2))
    then show "o' \<in> ?f ` set (find_overlapping (lg_patterns ?g) ?x)"
      using y j lt o'(1) by (force simp: find_overlapping_set image_iff)
  qed
  moreover have "guard_occurrences ?g (window_of s lo hi) a b = Ok (map ?f (find_overlapping (lg_patterns ?g) ?x))"
    using False w ab by (simp add: guard_occurrences_def)
  ultimately show ?thesis
    by (intro exI [of _ "map ?f (find_overlapping (lg_patterns ?g) ?x)"] conjI) (simp_all only: set_map)
qed


lemma occurs_short: "occurs (set lits - {[]}) s f l \<Longrightarrow> l - f \<le> lg_lmax (guard_new lits)"
proof -
  assume o: "occurs (set lits - {[]}) s f l"
  let ?p = "concat (take (l - f) (drop f (chars s)))"
  have "char_count ?p \<le> lg_lmax (guard_new lits)" using o guard_new_sel(3) [of ?p lits] by (simp add: occurs_def)
  moreover have "char_count ?p = l - f" using occurs_bounds [OF o] by (auto simp: chars_sub min_def)
  ultimately show ?thesis by simp
qed

lemma length_mark [simp]: "length (mark_inside low high o' out) = length out"
proof -
  have "length (fold (\<lambda>position out. out[position - low := True]) ps out) = length out" for ps :: "nat list" and out
    by (induction ps arbitrary: out) simp_all
  then show ?thesis by (simp add: mark_inside_def Let_def)
qed

lemma fold_set:
  "\<forall>p \<in> set ps. low \<le> p \<Longrightarrow> low \<le> q \<Longrightarrow> q - low < length out \<Longrightarrow>
     fold (\<lambda>position out. out[position - low := True]) ps out ! (q - low) \<longleftrightarrow> out ! (q - low) \<or> q \<in> set ps"
proof (induction ps arbitrary: out)
  case (Cons p ps)
  have "p - low = q - low \<longleftrightarrow> p = q" using Cons.prems by auto
  then show ?case using Cons by (auto simp: nth_list_update)
qed simp

lemma mark_nth:
  assumes "low \<le> q" "q \<le> high" "length out = high + 1 - low"
  shows "mark_inside low high (f, l) out ! (q - low) \<longleftrightarrow> out ! (q - low) \<or> (f < q \<and> q < l)"
  unfolding mark_inside_def Let_def
  by (subst fold_set) (use assms in auto)

lemma marks_nth:
  assumes "low \<le> q" "q \<le> high"
  shows "length out = high + 1 - low \<Longrightarrow>
    fold (mark_inside low high) occs out ! (q - low) \<longleftrightarrow> out ! (q - low) \<or> (\<exists>(f, l) \<in> set occs. f < q \<and> q < l)"
  by (induction occs arbitrary: out) (use mark_nth [OF assms] in auto)

lemma marks_new:
  assumes "low \<le> q" "q \<le> high"
  shows "fold (mark_inside low high) occs (replicate (high + 1 - low) False) ! (q - low) \<longleftrightarrow> (\<exists>(f, l) \<in> set occs. f < q \<and> q < l)"
proof -
  have "q - low < high + 1 - low" using assms by linarith
  then show ?thesis using marks_nth [OF assms, of "replicate (high + 1 - low) False" occs] by (simp only: nth_replicate length_replicate) blast
qed

lemma length_marks [simp]: "length (fold (mark_inside low high) occs out) = length out"
  by (induction occs arbitrary: out) simp_all

lemma around:
  fixes f :: nat
  shows "l - f \<le> m \<Longrightarrow> f < q \<Longrightarrow> q < l \<Longrightarrow> low \<le> q \<Longrightarrow> q \<le> high \<Longrightarrow> f < l \<and> l \<le> n \<Longrightarrow>
      low - (m - 1) \<le> f \<and> l \<le> min n (high + m - 1)"
    "l - f \<le> m \<Longrightarrow> f < high \<Longrightarrow> low < l \<Longrightarrow> f < l \<and> l \<le> n \<Longrightarrow>
      low - (m - 1) \<le> f \<and> l \<le> min n (high + (m - 1))"
  by auto

lemma forbidden_exact:
  assumes s: "valid_utf8 s" and v: "\<forall>p \<in> set lits. valid_utf8 p"
    and w: "lo \<le> low - (lg_lmax (guard_new lits) - 1)" "min (char_count s) (high + lg_lmax (guard_new lits) - 1) \<le> hi"
      "hi \<le> char_count s" "low \<le> high"
  shows "\<exists>out. guard_forbidden (guard_new lits) (window_of s lo hi) low high = Ok out \<and> length out = high + 1 - low
    \<and> (\<forall>q. low \<le> q \<and> q \<le> high \<longrightarrow> (out ! (q - low) \<longleftrightarrow> (\<exists>f l. occurs (set lits - {[]}) s f l \<and> f < q \<and> q < l)))"
proof (cases "lg_patterns (guard_new lits) = [] \<or> lg_lmax (guard_new lits) < 2")
  case True
  have "\<not> (occurs (set lits - {[]}) s f l \<and> f < q \<and> q < l)" for f l q
  proof
    assume o: "occurs (set lits - {[]}) s f l \<and> f < q \<and> q < l"
    then have "set lits - {[]} \<noteq> {}" unfolding occurs_def by blast
    then have "lg_patterns (guard_new lits) \<noteq> []" using guard_new_sel(1) [of lits] by (metis list.set(1))
    then have "lg_lmax (guard_new lits) < 2" using True by blast
    then show False using o occurs_short [OF conjunct1 [OF o]] by linarith
  qed
  then show ?thesis using True by (auto simp: guard_forbidden_def Let_def)
next
  case False
  let ?m = "lg_lmax (guard_new lits)" let ?a = "low - (?m - 1)" and ?b = "min (char_count s) (high + ?m - 1)"
  obtain occs where occs: "guard_occurrences (guard_new lits) (window_of s lo hi) ?a ?b = Ok occs"
    "set occs = {(f, l). occurs (set lits - {[]}) s f l \<and> ?a \<le> f \<and> l \<le> ?b}"
    using occurrences_exact [OF s v w(1-3)] by blast
  have "(\<exists>(f, l) \<in> set occs. f < q \<and> q < l) \<longleftrightarrow> (\<exists>f l. occurs (set lits - {[]}) s f l \<and> f < q \<and> q < l)"
    if "low \<le> q" "q \<le> high" for q
  proof -
    note q = that
    have "?a \<le> f \<and> l \<le> ?b" if o: "occurs (set lits - {[]}) s f l" "f < q" "q < l" for f l
      using around(1) [OF occurs_short [OF o(1)] o(2,3) q] occurs_bounds [OF o(1)] by blast
    then show ?thesis unfolding occs(2) by blast
  qed
  then show ?thesis using False occs(1) w(4) by (simp add: guard_forbidden_def Let_def marks_new [unfolded Suc_eq_plus1 [symmetric]])
qed

lemma touches_exact:
  assumes s: "valid_utf8 s" and v: "\<forall>p \<in> set lits. valid_utf8 p"
    and w: "lo \<le> low - (lg_lmax (guard_new lits) - 1)" "min (char_count s) (high + (lg_lmax (guard_new lits) - 1)) \<le> hi"
      "hi \<le> char_count s"
  shows "guard_touches (guard_new lits) (window_of s lo hi) low high
    = Ok (\<exists>f l. occurs (set lits - {[]}) s f l \<and> f < high \<and> low < l)"
proof (cases "lg_patterns (guard_new lits) = []")
  case True
  then have "set lits - {[]} = {}" using guard_new_sel(1) [of lits] by simp
  then have "\<not> occurs (set lits - {[]}) s f l" for f l unfolding occurs_def by (metis empty_iff)
  then show ?thesis using True by (simp add: guard_touches_def)
next
  case False
  let ?m = "lg_lmax (guard_new lits)" let ?a = "low - (?m - 1)" and ?b = "min (char_count s) (high + (?m - 1))"
  obtain occs where occs: "guard_occurrences (guard_new lits) (window_of s lo hi) ?a ?b = Ok occs"
    "set occs = {(f, l). occurs (set lits - {[]}) s f l \<and> ?a \<le> f \<and> l \<le> ?b}"
    using occurrences_exact [OF s v w] by blast
  have "list_ex (\<lambda>(f, l). f < high \<and> l > low) occs \<longleftrightarrow> (\<exists>f l. occurs (set lits - {[]}) s f l \<and> f < high \<and> low < l)"
  proof -
    have "?a \<le> f \<and> l \<le> ?b" if o: "occurs (set lits - {[]}) s f l" "f < high" "low < l" for f l
      using around(2) [OF occurs_short [OF o(1)] o(2,3)] occurs_bounds [OF o(1)] by blast
    then show ?thesis unfolding list_ex_iff occs(2) by blast
  qed
  then show ?thesis using False occs(1) by (simp add: guard_touches_def Let_def)
qed

end
