(* ===== verification/ChunkRule.thy ===== *)
theory ChunkRule
  imports ChunkGuard
begin

unbundle bit_operations_syntax

text \<open>
  The normalization rule and its memo table. The table only holds answers of the probes, so the rule is the
  one of the module documentation; a position it accepts stands between stable split points whose window
  normalizes to its two halves.
\<close>

section \<open>A character and its code point\<close>

lemma cont_mod: "is_cont b \<Longrightarrow> unat b mod 64 = unat b - 128"
proof -
  assume "is_cont b"
  then have "128 \<le> unat b" "unat b < 192" by (simp_all add: is_cont_unat)
  then show ?thesis using mod_above [of 128 "unat b" 64] by simp
qed

lemma scalar_two: "valid_scalar [a, b] \<Longrightarrow> scalar_of [a, b] = (unat a - 192) * 64 + (unat b - 128) \<and> 194 \<le> unat a \<and> unat a < 224
    \<and> 128 \<le> unat b \<and> unat b < 192"
  using cont_mod [of b] mod_above [of 192 "unat a" 32]
  by (auto simp: unat_masks is_cont_unat word_le_nat_alt)

lemma scalar_three: "valid_scalar [a, b, c] \<Longrightarrow>
    scalar_of [a, b, c] = (unat a - 224) * 4096 + (unat b - 128) * 64 + (unat c - 128) \<and> 224 \<le> unat a \<and> unat a < 240
    \<and> 128 \<le> unat b \<and> unat b < 192 \<and> 128 \<le> unat c \<and> unat c < 192 \<and> (unat a = 224 \<longrightarrow> 160 \<le> unat b)"
  using cont_mod [of b] cont_mod [of c] mod_above [of 224 "unat a" 16]
  by (auto simp: unat_masks is_cont_unat word_le_nat_alt word_unat_eq_iff)

lemma scalar_four: "valid_scalar [a, b, c, d] \<Longrightarrow>
    scalar_of [a, b, c, d] = (unat a - 240) * 262144 + (unat b - 128) * 4096 + (unat c - 128) * 64 + (unat d - 128)
    \<and> 240 \<le> unat a \<and> unat a < 248 \<and> 128 \<le> unat b \<and> unat b < 192 \<and> 128 \<le> unat c \<and> unat c < 192
    \<and> 128 \<le> unat d \<and> unat d < 192 \<and> (unat a = 240 \<longrightarrow> 144 \<le> unat b)"
  using cont_mod [of b] cont_mod [of c] cont_mod [of d] mod_above [of 240 "unat a" 8]
  by (auto simp: unat_masks is_cont_unat word_le_nat_alt word_unat_eq_iff)

lemma scalar_range:
  assumes "valid_scalar c"
  shows "(length c = 1 \<and> scalar_of c < 128) \<or> (length c = 2 \<and> 128 \<le> scalar_of c \<and> scalar_of c < 2048)
    \<or> (length c = 3 \<and> 2048 \<le> scalar_of c \<and> scalar_of c < 65536) \<or> (length c = 4 \<and> 65536 \<le> scalar_of c)"
  using assms
proof (induction c rule: valid_scalar.induct)
  case (1 a)
  then show ?case by (simp add: word_less_nat_alt)
next
  case (2 a b)
  then show ?case using scalar_two [OF 2] by auto
next
  case (3 a b c)
  have "2048 \<le> scalar_of [a, b, c]"
    using scalar_three [OF 3] by (cases "unat a = 224") auto
  then show ?case using scalar_three [OF 3] by auto
next
  case (4 a b c d)
  have "65536 \<le> scalar_of [a, b, c, d]"
    using scalar_four [OF 4] by (cases "unat a = 240") auto
  then show ?case by auto
qed simp_all

lemma digits_unique: "x * k + y = x' * k + y' \<Longrightarrow> y < k \<Longrightarrow> y' < k \<Longrightarrow> x = x' \<and> y = (y' :: nat)"
  by (metis div_mult_self3 div_less add_cancel_right_right gr_implies_not0 mod_less mod_mult_self3)

lemma digits_three:
  fixes A B Z :: nat
  assumes "A * 4096 + B * 64 + Z = A' * 4096 + B' * 64 + Z'" "B < 64" "Z < 64" "B' < 64" "Z' < 64"
  shows "A = A' \<and> B = B' \<and> Z = Z'"
proof -
  have 1: "A * 64 + B = A' * 64 + B' \<and> Z = Z'" by (rule digits_unique [of _ 64]) (use assms in \<open>simp_all add: add_mult_distrib\<close>)
  have "A = A' \<and> B = B'" by (rule digits_unique [of _ 64]) (use assms 1 in simp_all)
  with 1 show ?thesis by blast
qed

lemma digits_four:
  fixes A B Z Y :: nat
  assumes "A * 262144 + B * 4096 + Z * 64 + Y = A' * 262144 + B' * 4096 + Z' * 64 + Y'"
    "B < 64" "Z < 64" "Y < 64" "B' < 64" "Z' < 64" "Y' < 64"
  shows "A = A' \<and> B = B' \<and> Z = Z' \<and> Y = Y'"
proof -
  have 1: "A * 4096 + B * 64 + Z = A' * 4096 + B' * 64 + Z' \<and> Y = Y'"
    by (rule digits_unique [of _ 64]) (use assms in \<open>simp_all add: add_mult_distrib\<close>)
  have "A = A' \<and> B = B' \<and> Z = Z'" by (rule digits_three) (use assms 1 in simp_all)
  with 1 show ?thesis by blast
qed

lemma sub_eq: "(x :: nat) - k = y - k \<Longrightarrow> k \<le> x \<Longrightarrow> k \<le> y \<Longrightarrow> x = y"
  by simp

lemma scalar_inj:
  assumes c: "valid_scalar c" and d: "valid_scalar d" and e: "scalar_of c = scalar_of d"
  shows "c = d"
proof -
  have len: "length c = length d" using scalar_range [OF c] scalar_range [OF d] e by auto
  consider "length c = 1" | "length c = 2" | "length c = 3" | "length c = 4" using scalar_range [OF c] by blast
  then show ?thesis
  proof cases
    case 1
    then show ?thesis using len e by (auto simp: length_Suc_conv word_unat_eq_iff)
  next
    case 2
    then obtain a b a' b' where cd: "c = [a, b]" "d = [a', b']" using len by (auto simp: length_Suc_conv numeral_eq_Suc)
    note s = scalar_two [OF c [unfolded cd]] and s' = scalar_two [OF d [unfolded cd]]
    have "unat a - 192 = unat a' - 192 \<and> unat b - 128 = unat b' - 128"
    proof (rule digits_unique)
      show "(unat a - 192) * 64 + (unat b - 128) = (unat a' - 192) * 64 + (unat b' - 128)" by (rule trans [OF sym [OF conjunct1 [OF s]] trans [OF e [unfolded cd] conjunct1 [OF s']]])
      show "unat b - 128 < 64" "unat b' - 128 < 64" using conjunct2 [OF s] conjunct2 [OF s'] by linarith+
    qed
    moreover have "192 \<le> unat a" "192 \<le> unat a'" "128 \<le> unat b" "128 \<le> unat b'" using conjunct2 [OF s] conjunct2 [OF s'] by linarith+
    ultimately have "unat a = unat a'" "unat b = unat b'" using sub_eq by blast+
    then show ?thesis unfolding cd by (simp only: word_unat_eq_iff [symmetric])
  next
    case 3
    then obtain a b z a' b' z' where cd: "c = [a, b, z]" "d = [a', b', z']" using len by (auto simp: length_Suc_conv numeral_eq_Suc)
    note s = scalar_three [OF c [unfolded cd]] and s' = scalar_three [OF d [unfolded cd]]
    have "unat a - 224 = unat a' - 224 \<and> unat b - 128 = unat b' - 128 \<and> unat z - 128 = unat z' - 128"
    proof (rule digits_three)
      show "(unat a - 224) * 4096 + (unat b - 128) * 64 + (unat z - 128)
          = (unat a' - 224) * 4096 + (unat b' - 128) * 64 + (unat z' - 128)" by (rule trans [OF sym [OF conjunct1 [OF s]] trans [OF e [unfolded cd] conjunct1 [OF s']]])
      show "unat b - 128 < 64" "unat z - 128 < 64" "unat b' - 128 < 64" "unat z' - 128 < 64" using conjunct2 [OF s] conjunct2 [OF s'] by linarith+
    qed
    moreover have "224 \<le> unat a" "224 \<le> unat a'" "128 \<le> unat b" "128 \<le> unat b'" "128 \<le> unat z" "128 \<le> unat z'"
      using conjunct2 [OF s] conjunct2 [OF s'] by linarith+
    ultimately have "unat a = unat a'" "unat b = unat b'" "unat z = unat z'" using sub_eq by blast+
    then show ?thesis unfolding cd by (simp only: word_unat_eq_iff [symmetric])
  next
    case 4
    then obtain a b z y a' b' z' y' where cd: "c = [a, b, z, y]" "d = [a', b', z', y']" using len by (auto simp: length_Suc_conv numeral_eq_Suc)
    note s = scalar_four [OF c [unfolded cd]] and s' = scalar_four [OF d [unfolded cd]]
    have "unat a - 240 = unat a' - 240 \<and> unat b - 128 = unat b' - 128 \<and> unat z - 128 = unat z' - 128 \<and> unat y - 128 = unat y' - 128"
    proof (rule digits_four)
      show "(unat a - 240) * 262144 + (unat b - 128) * 4096 + (unat z - 128) * 64 + (unat y - 128)
          = (unat a' - 240) * 262144 + (unat b' - 128) * 4096 + (unat z' - 128) * 64 + (unat y' - 128)" by (rule trans [OF sym [OF conjunct1 [OF s]] trans [OF e [unfolded cd] conjunct1 [OF s']]])
      show "unat b - 128 < 64" "unat z - 128 < 64" "unat y - 128 < 64" "unat b' - 128 < 64" "unat z' - 128 < 64" "unat y' - 128 < 64"
        using conjunct2 [OF s] conjunct2 [OF s'] by linarith+
    qed
    moreover have "240 \<le> unat a" "240 \<le> unat a'" "128 \<le> unat b" "128 \<le> unat b'" "128 \<le> unat z" "128 \<le> unat z'"
      "128 \<le> unat y" "128 \<le> unat y'" using conjunct2 [OF s] conjunct2 [OF s'] by linarith+
    ultimately have "unat a = unat a'" "unat b = unat b'" "unat z = unat z'" "unat y = unat y'" using sub_eq by blast+
    then show ?thesis unfolding cd by (simp only: word_unat_eq_iff [symmetric])
  qed
qed


section \<open>Calls that keep a table\<close>

text \<open>\<open>meets E I P m\<close>: the call ends without a panic, with an error only if \<open>E\<close>, keeps \<open>I\<close> and returns what \<open>P\<close>
  says.\<close>

definition meets :: "bool \<Rightarrow> ('s \<Rightarrow> bool) \<Rightarrow> ('a \<Rightarrow> bool) \<Rightarrow> 's \<times> (string, 'a) outcome \<Rightarrow> bool" where
  "meets E I P m \<longleftrightarrow> I (fst m) \<and> (case snd m of Ok v \<Rightarrow> P v | Err _ \<Rightarrow> E | Panic \<Rightarrow> False)"

lemma meets_Ok [intro]: "I s \<Longrightarrow> P v \<Longrightarrow> meets E I P (s, Ok v)"
  by (simp add: meets_def)

lemma meets_andthen:
  "meets E I P m \<Longrightarrow> (\<And>s v. I s \<Longrightarrow> P v \<Longrightarrow> meets E I Q (f s v)) \<Longrightarrow> meets E I Q (andthen m f)"
  by (cases m rule: prod.exhaust; rename_tac s r; case_tac r) (auto simp: meets_def)

lemma meets_attempt:
  "I s \<Longrightarrow> (\<And>v. r = Ok v \<Longrightarrow> meets E I Q (f v)) \<Longrightarrow> (\<And>e. r = Err e \<Longrightarrow> E) \<Longrightarrow> r \<noteq> Panic \<Longrightarrow> meets E I Q (attempt s r f)"
  by (cases r) (auto simp: meets_def)

lemma meets_weaken: "meets E I P m \<Longrightarrow> (\<And>v. P v \<Longrightarrow> Q v) \<Longrightarrow> meets E I Q m"
  by (auto simp: meets_def split: outcome.splits)

section \<open>Stable characters\<close>

definition stable_char :: "sync_boundary \<Rightarrow> reference \<Rightarrow> str \<Rightarrow> bool" where
  "stable_char b r c \<longleftrightarrow> str_is_ascii c \<or> stable_verdict b r c = Ok True"

definition memo_sound :: "sync_boundary \<Rightarrow> reference \<Rightarrow> memo \<Rightarrow> bool" where
  "memo_sound b r m \<longleftrightarrow> (\<forall>c v. valid_scalar c \<and> m (scalar_of c) = Some v \<longrightarrow> stable_verdict b r c = Ok v)"

text \<open>The normalizer may fail, but does not panic.\<close>

definition normalizer_fails :: "reference \<Rightarrow> bool" where
  "normalizer_fails r \<longleftrightarrow> (\<exists>x e. ref_normalize r x = Err e)"

definition normalizer_calm :: "reference \<Rightarrow> bool" where
  "normalizer_calm r \<longleftrightarrow> (\<forall>x. ref_normalize r x \<noteq> Panic)"

lemma probe_calm:
  assumes "normalizer_calm r"
  shows "probe r p c q \<noteq> Panic" "probe r p c q = Err e \<Longrightarrow> normalizer_fails r"
  using assms unfolding probe_def normalizer_calm_def normalizer_fails_def Let_def
  by (auto simp: rbind_eq_Panic) (cases "ref_normalize r (p @ c @ q)"; auto)

lemma verdict_calm:
  assumes "normalizer_calm r"
  shows "stable_verdict b r c \<noteq> Panic" "stable_verdict b r c = Err e \<Longrightarrow> normalizer_fails r"
proof -
  have both: "both x y \<noteq> Panic \<and> (both x y = Err e \<longrightarrow> normalizer_fails r)"
    if "x \<noteq> Panic \<and> (x = Err e \<longrightarrow> normalizer_fails r)" "y \<noteq> Panic \<and> (y = Err e \<longrightarrow> normalizer_fails r)" for x y
    using that by (cases x) auto
  have "stable_verdict b r c \<noteq> Panic \<and> (stable_verdict b r c = Err e \<longrightarrow> normalizer_fails r)"
    unfolding stable_verdict_def using probe_calm [OF assms] by (intro both) simp_all
  then show "stable_verdict b r c \<noteq> Panic" "stable_verdict b r c = Err e \<Longrightarrow> normalizer_fails r" by simp_all
qed

lemma memo_sound_update:
  "memo_sound b r m \<Longrightarrow> valid_scalar c \<Longrightarrow> stable_verdict b r c = Ok v \<Longrightarrow> memo_sound b r (m(scalar_of c := Some v))"
  unfolding memo_sound_def using scalar_inj by (metis fun_upd_other fun_upd_same option.inject)

lemma stable_meets:
  assumes "normalizer_calm r" "memo_sound b r m" "valid_scalar c"
  shows "meets (normalizer_fails r) (memo_sound b r) (\<lambda>v. v = stable_char b r c) (nfc_stable b r m c)"
proof (cases "str_is_ascii c")
  case True
  then show ?thesis using assms by (auto simp: nfc_stable_def stable_char_def)
next
  case False
  show ?thesis
  proof (cases "m (scalar_of c)")
    case None
    have "meets (normalizer_fails r) (memo_sound b r) (\<lambda>v. v = stable_char b r c)
        (attempt m (stable_verdict b r c) (\<lambda>v. (m(scalar_of c := Some v), Ok v)))"
    proof (rule meets_attempt)
      show "memo_sound b r m" by (rule assms(2))
      fix v assume v: "stable_verdict b r c = Ok v"
      show "meets (normalizer_fails r) (memo_sound b r) (\<lambda>v. v = stable_char b r c) (m(scalar_of c := Some v), Ok v)"
        using memo_sound_update [OF assms(2,3) v] v False by (auto simp: stable_char_def)
    qed (use verdict_calm [OF assms(1)] in auto)
    then show ?thesis using False None by (simp add: nfc_stable_def)
  next
    case (Some v)
    then have "stable_verdict b r c = Ok v" using assms unfolding memo_sound_def by blast
    then show ?thesis using False Some assms(2) by (auto simp: nfc_stable_def stable_char_def)
  qed
qed

section \<open>Anchors\<close>

definition stable_pos :: "sync_boundary \<Rightarrow> reference \<Rightarrow> str \<Rightarrow> nat \<Rightarrow> bool" where
  "stable_pos b r s i \<longleftrightarrow> stable_char b r (chars s ! i)"

abbreviation (input) ruled :: "sync_boundary \<Rightarrow> reference \<Rightarrow> ('a \<Rightarrow> bool) \<Rightarrow> memo \<times> (string, 'a) outcome \<Rightarrow> bool" where
  "ruled b r \<equiv> meets (normalizer_fails r) (memo_sound b r)"

text \<open>The assumptions of a search in a window.\<close>

definition search_in :: "reference \<Rightarrow> str \<Rightarrow> nat \<Rightarrow> bool" where
  "search_in r s hi \<longleftrightarrow> normalizer_calm r \<and> valid_utf8 s \<and> hi \<le> char_count s"

lemma stable_at_meets:
  assumes "search_in r s hi" "memo_sound b r m" "lo \<le> i" "i < hi"
  shows "ruled b r (\<lambda>v. v = stable_pos b r s i) (stable_at b r (window_of s lo hi) m i)"
proof -
  have "valid_scalar (chars s ! i)" using assms by (simp add: search_in_def valid_utf8_def list_all_length)
  then show ?thesis using assms stable_meets [OF _ assms(2)] by (simp add: search_in_def stable_at_def stable_pos_def)
qed

lemma all_stable_meets:
  assumes "search_in r s hi"
  shows "memo_sound b r m \<Longrightarrow> \<forall>i \<in> set is. lo \<le> i \<and> i < hi \<Longrightarrow>
     ruled b r (\<lambda>v. v \<longleftrightarrow> (\<forall>i \<in> set is. stable_pos b r s i)) (all_stable b r (window_of s lo hi) is m)"
proof (induction "is" arbitrary: m)
  case Nil
  then show ?case by auto
next
  case (Cons i "is")
  have "ruled b r (\<lambda>v. v = stable_pos b r s i) (stable_at b r (window_of s lo hi) m i)"
    by (rule stable_at_meets [OF assms]) (use Cons.prems in auto)
  then show ?case unfolding all_stable.simps
  proof (rule meets_andthen)
    fix m' v assume m': "memo_sound b r m'" and v: "v = stable_pos b r s i"
    show "ruled b r (\<lambda>v. v \<longleftrightarrow> (\<forall>i \<in> set (i # is). stable_pos b r s i))
        (if v then all_stable b r (window_of s lo hi) is m' else (m', Ok False))"
    proof (cases v)
      case True
      then show ?thesis using meets_weaken [OF Cons.IH [OF m']] Cons.prems(2) v by simp
    qed (use m' v in auto)
  qed
qed

lemma anchor_left_meets:
  assumes "search_in r s hi" "lo \<le> floor_index"
  shows "memo_sound b r m \<Longrightarrow> floor_index \<le> left \<Longrightarrow> left < hi \<Longrightarrow>
     ruled b r (\<lambda>(found, l). l \<le> left \<and> floor_index \<le> l \<and> (found \<longrightarrow> stable_pos b r s l) \<and> (\<not> found \<longrightarrow> l = floor_index))
       (anchor_left b r (window_of s lo hi) floor_index left m)"
proof (induction left arbitrary: m)
  case 0
  have "ruled b r (\<lambda>v. v = stable_pos b r s 0) (stable_at b r (window_of s lo hi) m 0)"
    by (rule stable_at_meets [OF assms(1)]) (use 0 assms in auto)
  then show ?case unfolding anchor_left.simps by (rule meets_andthen) (use 0 in auto)
next
  case (Suc left)
  have "ruled b r (\<lambda>v. v = stable_pos b r s (Suc left)) (stable_at b r (window_of s lo hi) m (Suc left))"
    by (rule stable_at_meets [OF assms(1)]) (use Suc.prems assms in auto)
  then show ?case unfolding anchor_left.simps
  proof (rule meets_andthen)
    fix m' v assume m': "memo_sound b r m'" and v: "v = stable_pos b r s (Suc left)"
    show "ruled b r (\<lambda>(found, l). l \<le> Suc left \<and> floor_index \<le> l \<and> (found \<longrightarrow> stable_pos b r s l) \<and> (\<not> found \<longrightarrow> l = floor_index))
      (if v then (m', Ok (True, Suc left)) else if Suc left = floor_index then (m', Ok (False, Suc left))
       else anchor_left b r (window_of s lo hi) floor_index left m')"
    proof (cases "v \<or> Suc left = floor_index")
      case False
      then have "floor_index \<le> left" using Suc.prems by simp
      then have "ruled b r (\<lambda>(found, l). l \<le> Suc left \<and> floor_index \<le> l \<and> (found \<longrightarrow> stable_pos b r s l)
          \<and> (\<not> found \<longrightarrow> l = floor_index)) (anchor_left b r (window_of s lo hi) floor_index left m')"
        by (rule meets_weaken [OF Suc.IH [OF m']]) (use Suc.prems in auto)
      then show ?thesis using False by simp
    qed (use m' v Suc.prems in auto)
  qed
qed

lemma anchor_right_meets:
  assumes "search_in r s hi"
  shows "memo_sound b r m \<Longrightarrow> lo \<le> right \<Longrightarrow> right + n \<le> hi \<Longrightarrow>
     ruled b r (\<lambda>x. right \<le> x \<and> x \<le> right + n \<and> (x = right + n \<or> stable_pos b r s x))
       (anchor_right b r (window_of s lo hi) right n m)"
proof (induction n arbitrary: m right)
  case 0
  then show ?case by auto
next
  case (Suc n)
  have "ruled b r (\<lambda>v. v = stable_pos b r s right) (stable_at b r (window_of s lo hi) m right)"
    by (rule stable_at_meets [OF assms]) (use Suc.prems in auto)
  then show ?case unfolding anchor_right.simps
  proof (rule meets_andthen)
    fix m' v assume m': "memo_sound b r m'" and v: "v = stable_pos b r s right"
    show "ruled b r (\<lambda>x. right \<le> x \<and> x \<le> right + Suc n \<and> (x = right + Suc n \<or> stable_pos b r s x))
      (if v then (m', Ok right) else anchor_right b r (window_of s lo hi) (Suc right) n m')"
    proof (cases v)
      case False
      have "ruled b r (\<lambda>x. right \<le> x \<and> x \<le> right + Suc n \<and> (x = right + Suc n \<or> stable_pos b r s x))
          (anchor_right b r (window_of s lo hi) (Suc right) n m')"
        by (rule meets_weaken [OF Suc.IH [OF m', of "Suc right"]]) (use Suc.prems in auto)
      then show ?thesis using False by simp
    qed (use m' v in auto)
  qed
qed


section \<open>The rule\<close>

definition sub_text :: "str \<Rightarrow> nat \<Rightarrow> nat \<Rightarrow> str" where
  "sub_text s a b = concat (take (b - a) (drop a (chars s)))"

text \<open>What the rule certifies: the characters around the cut are stable, or the cut lies between two anchors,
  away from every literal, in a window that normalizes to its halves, at an accepted pair.\<close>

definition anchored_cut :: "sync_boundary \<Rightarrow> reference \<Rightarrow> str set \<Rightarrow> str \<Rightarrow> nat \<Rightarrow> nat \<Rightarrow> nat \<Rightarrow> bool" where
  "anchored_cut b r lits s left position right \<longleftrightarrow>
     (\<forall>f l. occurs lits s f l \<longrightarrow> right \<le> f \<or> l \<le> left)
     \<and> (\<exists>before after. ref_normalize r (sub_text s left position) = Ok before
          \<and> ref_normalize r (sub_text s position right) = Ok after
          \<and> ref_normalize r (sub_text s left right) = Ok (before @ after)
          \<and> before \<noteq> [] \<and> after \<noteq> [] \<and> sync_accepts b (last (chars before)) (hd (chars after)))"

definition calm_around :: "sync_boundary \<Rightarrow> reference \<Rightarrow> str \<Rightarrow> nat \<Rightarrow> bool" where
  "calm_around b r s position \<longleftrightarrow> (\<forall>i. position - 1 \<le> i \<and> i < min (position + 2) (char_count s) \<longrightarrow> stable_pos b r s i)"

definition nfc_cut :: "sync_boundary \<Rightarrow> reference \<Rightarrow> str set \<Rightarrow> str \<Rightarrow> nat \<Rightarrow> bool" where
  "nfc_cut b r lits s position \<longleftrightarrow>
     calm_around b r s position
     \<or> (\<exists>left right. left < position \<and> position < right \<and> right \<le> char_count s
          \<and> (left = 0 \<or> stable_pos b r s left) \<and> (right = char_count s \<or> stable_pos b r s right)
          \<and> anchored_cut b r lits s left position right)"

lemma split_whole:
  assumes "length whole = length before + length after" "starts_with before whole" "ends_with whole after"
  shows "whole = before @ after"
proof -
  obtain y where "whole = before @ y" using assms(2) by (auto simp: starts_with_iff)
  moreover obtain z where "whole = z @ after" using assms(3) by (auto simp: ends_with_append)
  ultimately show ?thesis using assms(1) by (metis append_eq_append_conv length_append add_left_cancel)
qed

lemma normalize_bind:
  assumes "normalizer_calm r"
  shows "rbind (ref_normalize r x) f = Err e \<Longrightarrow> normalizer_fails r \<or> (\<exists>y. ref_normalize r x = Ok y \<and> f y = Err e)"
    "rbind (ref_normalize r x) f = Panic \<Longrightarrow> \<exists>y. ref_normalize r x = Ok y \<and> f y = Panic"
  using assms unfolding normalizer_fails_def normalizer_calm_def by (cases "ref_normalize r x"; auto)+

lemma anchored_accepts_ok:
  fixes b :: sync_boundary and left position right :: nat
  assumes i: "search_in r s hi" and v: "\<forall>p \<in> set lits. valid_utf8 p"
    and w: "lo \<le> left - (lg_lmax (guard_new lits) - 1)" "min (char_count s) (right + (lg_lmax (guard_new lits) - 1)) \<le> hi"
    and p: "left < position" "position < right" "right \<le> hi"
  defines "res \<equiv> anchored_accepts b r (guard_new lits) (window_of s lo hi) left position right"
  shows "res \<noteq> Panic" "res = Err e \<Longrightarrow> normalizer_fails r"
    "res = Ok True \<Longrightarrow> anchored_cut b r (set lits - {[]}) s left position right"
proof -
  let ?T = "\<exists>f l. occurs (set lits - {[]}) s f l \<and> f < right \<and> left < l"
  have calm: "normalizer_calm r" and s: "valid_utf8 s" and hi: "hi \<le> char_count s" using i by (simp_all add: search_in_def)
  have lo: "lo \<le> left" using w(1) by simp
  have t: "guard_touches (guard_new lits) (window_of s lo hi) left right = Ok ?T"
    by (rule touches_exact [OF s v w hi])
  have sl: "wn_slice (window_of s lo hi) left position = (Ok (sub_text s left position) :: (string, str) outcome)"
    "wn_slice (window_of s lo hi) position right = (Ok (sub_text s position right) :: (string, str) outcome)"
    "wn_slice (window_of s lo hi) left right = (Ok (sub_text s left right) :: (string, str) outcome)"
    using p lo by (simp_all add: sub_text_def)
  have "res = (if ?T then Ok False else
      rbind (ref_normalize r (sub_text s left position)) (\<lambda>before.
      rbind (ref_normalize r (sub_text s position right)) (\<lambda>after.
      if before = [] \<or> after = [] then Ok False
      else rbind (ref_normalize r (sub_text s left right)) (\<lambda>whole.
        if length whole \<noteq> length before + length after \<or> \<not> starts_with before whole \<or> \<not> ends_with whole after
        then Ok False else Ok (sync_accepts b (last (chars before)) (hd (chars after)))))))"
    unfolding res_def anchored_accepts_def t sl rbind.simps ..
  note res = this
  show "res \<noteq> Panic" unfolding res
    by (auto dest!: normalize_bind(2) [OF calm] split: if_splits)
  show "normalizer_fails r" if "res = Err e" using that unfolding res
    by (auto dest!: normalize_bind(1) [OF calm] split: if_splits)
  assume "res = Ok True"
  then obtain before after whole where n: "\<not> ?T" "ref_normalize r (sub_text s left position) = Ok before"
    "ref_normalize r (sub_text s position right) = Ok after" "before \<noteq> []" "after \<noteq> []"
    "ref_normalize r (sub_text s left right) = Ok whole" "length whole = length before + length after"
    "starts_with before whole" "ends_with whole after" "sync_accepts b (last (chars before)) (hd (chars after))"
    unfolding res by (auto simp: rbind_eq_Ok split: if_splits)
  have "whole = before @ after" by (rule split_whole [OF n(7-9)])
  then show "anchored_cut b r (set lits - {[]}) s left position right"
    using n unfolding anchored_cut_def by (meson not_le)
qed

lemma nfc_accepts_meets:
  assumes i: "search_in r s hi" and v: "\<forall>p \<in> set lits. valid_utf8 p" and m: "memo_sound b r m"
    and p: "0 < position" "position < char_count s"
    and w: "lo \<le> position - anchor_scan - lg_lmax (guard_new lits)" "lo < position"
      "min (char_count s) (position + anchor_scan + lg_lmax (guard_new lits) + 1) \<le> hi"
  shows "ruled b r (\<lambda>ok. (ok \<longrightarrow> nfc_cut b r (set lits - {[]}) s position) \<and> (calm_around b r s position \<longrightarrow> ok))
    (nfc_accepts b r (guard_new lits) (window_of s lo hi) position m)"
proof -
  let ?n = "char_count s" and ?w = "window_of s lo hi" and ?g = "guard_new lits" and ?f = "position - anchor_scan"
  let ?P = "\<lambda>ok. ok \<longrightarrow> nfc_cut b r (set lits - {[]}) s position"
  let ?Q = "\<lambda>ok. (ok \<longrightarrow> nfc_cut b r (set lits - {[]}) s position) \<and> (calm_around b r s position \<longrightarrow> ok)"
  have hi: "hi \<le> ?n" using i by (simp add: search_in_def)
  have ps: "position < hi" "min (position + 2) ?n \<le> hi" using w(3) p(2) by (auto simp: anchor_scan_def)
  show ?thesis unfolding nfc_accepts_def Let_def window_sel
  proof (rule meets_andthen [OF all_stable_meets [OF i m]])
    show "\<forall>i \<in> set [position - 1..<min (position + 2) ?n]. lo \<le> i \<and> i < hi" using w(2) ps by auto
    fix m1 quiet assume m1: "memo_sound b r m1" and q: "quiet \<longleftrightarrow> (\<forall>i \<in> set [position - 1..<min (position + 2) ?n]. stable_pos b r s i)"
    let ?rest = "andthen (anchor_left b r ?w ?f (position - 1) m1) (\<lambda>m2 (anchored, left).
        if \<not> anchored \<and> ?f > 0 then (m2, Ok False)
        else andthen (anchor_right b r ?w (position + 1) (min ?n (position + 1 + anchor_scan) - (position + 1)) m2) (\<lambda>m3 right.
          if right = min ?n (position + 1 + anchor_scan) \<and> min ?n (position + 1 + anchor_scan) < ?n then (m3, Ok False)
          else (m3, anchored_accepts b r ?g ?w (if anchored then left else 0) position right)))"
    have "ruled b r ?P ?rest"
    proof (rule meets_andthen [OF anchor_left_meets [OF i _ m1]])
      show "lo \<le> ?f" using w(1) by linarith
      show "?f \<le> position - 1" "position - 1 < hi" using p ps by (simp_all add: anchor_scan_def)
      fix m2 x assume m2: "memo_sound b r m2" and x: "case x of (found, l) \<Rightarrow> l \<le> position - 1 \<and> ?f \<le> l
          \<and> (found \<longrightarrow> stable_pos b r s l) \<and> (\<not> found \<longrightarrow> l = ?f)"
      obtain anchored left where x': "x = (anchored, left)" by fastforce
      show "ruled b r ?P (case x of (anchored, left) \<Rightarrow>
        if \<not> anchored \<and> ?f > 0 then (m2, Ok False)
        else andthen (anchor_right b r ?w (position + 1) (min ?n (position + 1 + anchor_scan) - (position + 1)) m2) (\<lambda>m3 right.
          if right = min ?n (position + 1 + anchor_scan) \<and> min ?n (position + 1 + anchor_scan) < ?n then (m3, Ok False)
          else (m3, anchored_accepts b r ?g ?w (if anchored then left else 0) position right)))"
      proof (cases "\<not> anchored \<and> ?f > 0")
        case True
        then show ?thesis using m2 x' by auto
      next
        case False
        let ?l = "if anchored then left else 0" and ?c = "min ?n (position + 1 + anchor_scan)"
        have l: "?l < position" "?l = 0 \<or> stable_pos b r s ?l" "lo \<le> ?l - (lg_lmax ?g - 1)"
        proof -
          show "?l < position" using x x' p(1) by auto
          show "?l = 0 \<or> stable_pos b r s ?l" using x x' by auto
          have "?f \<le> ?l" using x x' False by (cases anchored) auto
          then show "lo \<le> ?l - (lg_lmax ?g - 1)" using w(1) by linarith
        qed
        have c: "position + 1 \<le> ?c" "?c \<le> hi" "?c \<le> ?n" using p(2) w(3) by auto
        have "ruled b r ?P (andthen (anchor_right b r ?w (position + 1) (?c - (position + 1)) m2) (\<lambda>m3 right.
          if right = ?c \<and> ?c < ?n then (m3, Ok False) else (m3, anchored_accepts b r ?g ?w ?l position right)))"
        proof (rule meets_andthen [OF anchor_right_meets [OF i m2]])
          show "lo \<le> position + 1" "position + 1 + (?c - (position + 1)) \<le> hi" using w(2) c by simp_all
          fix m3 right assume m3: "memo_sound b r m3" and r: "position + 1 \<le> right \<and> right \<le> position + 1 + (?c - (position + 1))
            \<and> (right = position + 1 + (?c - (position + 1)) \<or> stable_pos b r s right)"
          then have rc: "position < right" "right \<le> ?c" "right = ?c \<or> stable_pos b r s right" using c by auto
          show "ruled b r ?P (if right = ?c \<and> ?c < ?n then (m3, Ok False) else (m3, anchored_accepts b r ?g ?w ?l position right))"
          proof (cases "right = ?c \<and> ?c < ?n")
            case True
            then show ?thesis using m3 by auto
          next
            case ok: False
            then have rs: "right = ?n \<or> stable_pos b r s right" using rc c by auto
            have wr: "min ?n (right + (lg_lmax ?g - 1)) \<le> hi" using w(3) rc(2) by auto
            note acc = anchored_accepts_ok [OF i v l(3) wr l(1) rc(1) order_trans [OF rc(2) c(2)], of b]
            have cut: "nfc_cut b r (set lits - {[]}) s position"
              if "anchored_accepts b r ?g ?w ?l position right = Ok True"
              unfolding nfc_cut_def using acc(3) [OF that] l(1,2) rc(1) rs order_trans [OF rc(2) c(3)] by blast
            show ?thesis using m3 ok acc(1,2) cut
              by (cases "anchored_accepts b r ?g ?w ?l position right") (auto simp: meets_def)
          qed
        qed
        then show ?thesis by (simp only: x' prod.case if_not_P [OF False])
      qed
    qed
    then show "ruled b r ?Q (if quiet then (m1, Ok True) else ?rest)"
    proof (cases quiet)
      case True
      then show ?thesis using m1 q by (auto simp: nfc_cut_def calm_around_def)
    next
      case False
      then have "\<not> calm_around b r s position" using q by (auto simp: calm_around_def)
      then have "ruled b r ?Q ?rest" using meets_weaken [OF \<open>ruled b r ?P ?rest\<close>, of ?Q] by blast
      then show ?thesis unfolding if_not_P [OF False] .
    qed
  qed
qed

end
