(* ===== verification/ChunkCuts.thy ===== *)
theory ChunkCuts
  imports ChunkRule
begin

text \<open>
  The search for the cuts. Every cut a plan makes is certified: an accepted pair of characters, inside no
  literal and, for a normalizing family, accepted by the rule. The chunks tile the text, and none is shorter than
  the floor once there are two.
\<close>

section \<open>Certified positions\<close>

definition certified :: "chunk_encoder \<Rightarrow> str set \<Rightarrow> str \<Rightarrow> nat \<Rightarrow> bool" where
  "certified ce pats s position \<longleftrightarrow>
     0 < position \<and> position < char_count s
     \<and> sync_accepts (ce_boundary ce) (chars s ! (position - 1)) (chars s ! position)
     \<and> \<not> (\<exists>f l. occurs pats s f l \<and> f < position \<and> position < l)
     \<and> (case ce_rule ce of None \<Rightarrow> True | Some r \<Rightarrow> nfc_cut (ce_boundary ce) r pats s position)"

text \<open>A cut that takes no anchors: certified and, for a normalizing family, between stable characters.\<close>

definition plain_cut :: "chunk_encoder \<Rightarrow> str set \<Rightarrow> str \<Rightarrow> nat \<Rightarrow> bool" where
  "plain_cut ce pats s position \<longleftrightarrow> certified ce pats s position
     \<and> (case ce_rule ce of None \<Rightarrow> True | Some r \<Rightarrow> calm_around (ce_boundary ce) r s position)"

text \<open>The setting of a plan: the guard knows the literals \<open>lits\<close>, and the normalizer does not panic.\<close>

definition plans :: "chunk_encoder \<Rightarrow> str list \<Rightarrow> str \<Rightarrow> bool" where
  "plans ce lits s \<longleftrightarrow> ce_guard ce = guard_new lits \<and> (\<forall>p \<in> set lits. valid_utf8 p) \<and> valid_utf8 s
     \<and> (case ce_rule ce of None \<Rightarrow> True | Some r \<Rightarrow> normalizer_calm r)"

definition rule_fails :: "chunk_encoder \<Rightarrow> bool" where
  "rule_fails ce \<longleftrightarrow> (case ce_rule ce of None \<Rightarrow> False | Some r \<Rightarrow> normalizer_fails r)"

definition memo_fine :: "chunk_encoder \<Rightarrow> memo \<Rightarrow> bool" where
  "memo_fine ce m \<longleftrightarrow> (case ce_rule ce of None \<Rightarrow> True | Some r \<Rightarrow> memo_sound (ce_boundary ce) r m)"

abbreviation (input) scanned :: "chunk_encoder \<Rightarrow> ('a \<Rightarrow> bool) \<Rightarrow> scan_state \<times> (string, 'a) outcome \<Rightarrow> bool" where
  "scanned ce \<equiv> meets (rule_fails ce) (\<lambda>sn. memo_fine ce (sn_memo sn))"

text \<open>A window wide enough for the positions \<open>low\<close> to \<open>high\<close>.\<close>

definition wide :: "str list \<Rightarrow> str \<Rightarrow> nat \<Rightarrow> nat \<Rightarrow> nat \<Rightarrow> nat \<Rightarrow> bool" where
  "wide lits s low high lo hi \<longleftrightarrow>
     0 < low \<and> low \<le> high \<and> high < char_count s
     \<and> lo = low - (anchor_scan + lg_lmax (guard_new lits) + 2)
     \<and> hi = min (char_count s) (high + (anchor_scan + lg_lmax (guard_new lits) + 2) + 1)"

definition marks :: "str set \<Rightarrow> str \<Rightarrow> nat \<Rightarrow> nat \<Rightarrow> bool list \<Rightarrow> bool" where
  "marks pats s low high out \<longleftrightarrow> length out = high + 1 - low
    \<and> (\<forall>q. low \<le> q \<and> q \<le> high \<longrightarrow> (out ! (q - low) \<longleftrightarrow> (\<exists>f l. occurs pats s f l \<and> f < q \<and> q < l)))"

section \<open>One search\<close>

lemma scan_at_meets:
  assumes p: "plans ce lits s" and w: "wide lits s low high lo hi" and q: "low \<le> position" "position \<le> high"
    and m: "memo_fine ce (sn_memo sn)" and f: "marks (set lits - {[]}) s low high forbidden"
  shows "scanned ce (\<lambda>hit. (hit \<longrightarrow> certified ce (set lits - {[]}) s position)
        \<and> (plain_cut ce (set lits - {[]}) s position \<longrightarrow> hit))
    (scan_at ce (window_of s lo hi) forbidden low position sn)"
proof -
  let ?w = "window_of s lo hi" and ?b = "ce_boundary ce" and ?pats = "set lits - {[]}"
  have b: "0 < position" "position < char_count s" using w q by (auto simp: wide_def)
  have ch: "wn_char_at ?w (position - 1) = (Ok (chars s ! (position - 1)) :: (string, str) outcome)"
    "wn_char_at ?w position = (Ok (chars s ! position) :: (string, str) outcome)"
    by (rule window_char; use w q in \<open>simp add: wide_def, linarith?\<close>)+
  have ok: "boundary_ok ce ?w position = Ok (sync_accepts ?b (chars s ! (position - 1)) (chars s ! position))"
    using b(1) ch by (simp add: boundary_ok_def)
  have in_range: "position - low < length forbidden" using f q by (simp add: marks_def)
  have mark: "forbidden ! (position - low) \<longleftrightarrow> (\<exists>f l. occurs ?pats s f l \<and> f < position \<and> position < l)"
    using f q unfolding marks_def by blast
  show ?thesis
  proof (cases "sync_accepts ?b (chars s ! (position - 1)) (chars s ! position) \<and> \<not> forbidden ! (position - low)")
    case False
    then show ?thesis using ok in_range mark m
      by (auto simp: scan_at_def meets_def vec_get_def certified_def plain_cut_def)
  next
    case True
    show ?thesis
    proof (cases "ce_rule ce")
      case None
      then show ?thesis using True ok in_range mark m b
        by (simp add: scan_at_def meets_def vec_get_def certified_def plain_cut_def)
    next
      case (Some r)
      have "search_in r s hi" using p w Some by (simp add: plans_def search_in_def wide_def)
      then have "ruled ?b r (\<lambda>ok. (ok \<longrightarrow> nfc_cut ?b r ?pats s position) \<and> (calm_around ?b r s position \<longrightarrow> ok)) (nfc_accepts ?b r (guard_new lits) ?w position (sn_memo sn))"
        using p m Some b w q by (intro nfc_accepts_meets) (auto simp: plans_def memo_fine_def wide_def anchor_scan_def)
      then show ?thesis using True ok in_range mark b Some p
        by (cases "nfc_accepts ?b r (guard_new lits) ?w position (sn_memo sn)" rule: prod.exhaust)
          (auto simp: scan_at_def meets_def vec_get_def certified_def plain_cut_def plans_def memo_fine_def rule_fails_def
            split: outcome.splits bool.splits)
    qed
  qed
qed

text \<open>What a search from \<open>high\<close> down to \<open>low\<close> finds: a certified position, not below any that takes no anchors.\<close>

definition found_in :: "chunk_encoder \<Rightarrow> str set \<Rightarrow> str \<Rightarrow> nat \<Rightarrow> nat \<Rightarrow> nat option \<Rightarrow> bool" where
  "found_in ce pats s low high found \<longleftrightarrow>
     (\<forall>p. found = Some p \<longrightarrow> low \<le> p \<and> p \<le> high \<and> certified ce pats s p)
     \<and> (\<forall>q. low \<le> q \<and> q \<le> high \<and> plain_cut ce pats s q \<longrightarrow> (\<exists>p. found = Some p \<and> q \<le> p))"

lemma scan_down_meets:
  assumes p: "plans ce lits s" and w: "wide lits s low high lo hi" and f: "marks (set lits - {[]}) s low high forbidden"
  shows "low + n \<le> high \<Longrightarrow> memo_fine ce (sn_memo sn) \<Longrightarrow>
    scanned ce (found_in ce (set lits - {[]}) s low (low + n)) (scan_down ce (window_of s lo hi) forbidden low n sn)"
proof (induction n arbitrary: sn)
  case 0
  show ?case unfolding scan_down.simps
    by (rule meets_andthen [OF scan_at_meets [OF p w _ _ 0(2) f]])
      (use 0 in \<open>auto simp: found_in_def le_antisym\<close>)
next
  case (Suc n)
  show ?case unfolding scan_down.simps
  proof (rule meets_andthen [OF scan_at_meets [OF p w _ _ Suc.prems(2) f]])
    show "low \<le> low + Suc n" "low + Suc n \<le> high" using Suc.prems by simp_all
    fix sn' :: scan_state and hit
    assume m: "memo_fine ce (sn_memo sn')" and h: "(hit \<longrightarrow> certified ce (set lits - {[]}) s (low + Suc n)) \<and>
      (plain_cut ce (set lits - {[]}) s (low + Suc n) \<longrightarrow> hit)"
    show "scanned ce (found_in ce (set lits - {[]}) s low (low + Suc n))
      (if hit then (sn', Ok (Some (low + Suc n))) else scan_down ce (window_of s lo hi) forbidden low n sn')"
    proof (cases hit)
      case True
      then show ?thesis using m h by (auto simp: found_in_def)
    next
      case False
      have "found_in ce (set lits - {[]}) s low (low + Suc n) v" if "found_in ce (set lits - {[]}) s low (low + n) v" for v
        using that h False unfolding found_in_def by (metis add_Suc_right le_Suc_eq)
      then show ?thesis using meets_weaken [OF Suc.IH [OF _ m]] Suc.prems False by simp
    qed
  qed
qed

lemma chunk_scan_meets:
  assumes p: "plans ce lits s" and w: "wide lits s low high lo hi" and m: "memo_fine ce (sn_memo sn)"
  shows "scanned ce (found_in ce (set lits - {[]}) s low high) (chunk_scan ce (window_of s lo hi) low high sn)"
proof -
  have le: "\<not> high < low" "low \<le> high" using w by (simp_all add: wide_def)
  obtain out where out: "guard_forbidden (ce_guard ce) (window_of s lo hi) low high = Ok out"
    "marks (set lits - {[]}) s low high out"
    using forbidden_exact [of s lits lo low high hi] p w unfolding marks_def plans_def wide_def anchor_scan_def by fastforce
  show ?thesis using scan_down_meets [OF p w out(2), of "high - low" sn] le m by (simp add: chunk_scan_def out(1))
qed

section \<open>One target\<close>

definition search_ok :: "chunk_encoder \<Rightarrow> str \<Rightarrow> seek_cursor \<times> scan_state \<Rightarrow> bool" where
  "search_ok ce s c \<longleftrightarrow> seek_ok s (fst c) \<and> memo_fine ce (sn_memo (snd c))"

abbreviation plan_margin :: "chunk_encoder \<Rightarrow> nat" where
  "plan_margin ce \<equiv> anchor_scan + lg_lmax (ce_guard ce) + 2"

text \<open>A position that was found lies in the window it was found in.\<close>

definition hit_ok :: "chunk_encoder \<Rightarrow> str set \<Rightarrow> str \<Rightarrow> nat \<Rightarrow> nat \<Rightarrow> window \<times> nat option \<Rightarrow> bool" where
  "hit_ok ce pats s low high v \<longleftrightarrow> found_in ce pats s low high (snd v)
     \<and> (\<forall>p. snd v = Some p \<longrightarrow> wn_byte_of (fst v) p = (Ok (char_off s p) :: (string, nat) outcome))"

lemma scan_window_meets:
  assumes p: "plans ce lits s" and c: "search_ok ce s c" and w: "0 < low" "low \<le> high" "high < char_count s"
  shows "meets (rule_fails ce) (search_ok ce s) (hit_ok ce (set lits - {[]}) s low high)
    (scan_window ce (char_count s) (plan_margin ce) low high c)"
proof -
  let ?top = "high + plan_margin ce + 1" and ?lo = "low - plan_margin ce"
  let ?hi = "min ?top (char_count s)"
  have s: "valid_utf8 s" and g: "ce_guard ce = guard_new lits" using p by (simp_all add: plans_def)
  have lo: "min ?lo ?hi = ?lo" using w by simp
  have "seek_ok s (fst c)" using c by (simp add: search_ok_def)
  note e = extract_ok [OF s this, of ?lo ?top, where 'e = string, unfolded lo]
  obtain c' where c': "seek_ok s c'"
    "window_extract (fst c) (char_count s) ?lo ?top = (Ok (c', window_of s ?lo ?hi) :: (string, seek_cursor \<times> window) outcome)"
    using e by (elim exE conjE)
  have wide: "wide lits s low high ?lo ?hi" using w g by (simp add: wide_def min.commute)
  note scan = chunk_scan_meets [OF p wide, of "snd c"]
  have byte: "wn_byte_of (window_of s ?lo ?hi) q = (Ok (char_off s q) :: (string, nat) outcome)" if "low \<le> q" "q \<le> high" for q
    by (rule window_byte) (use that w in simp_all)
  show ?thesis using scan c byte unfolding scan_window_def c'(2)
    by (cases "chunk_scan ce (window_of s ?lo ?hi) low high (snd c)" rule: prod.exhaust)
      (auto simp: meets_def search_ok_def hit_ok_def found_in_def c'(1) split: outcome.splits)
qed

lemma find_cut_meets:
  assumes p: "plans ce lits s" and c: "search_ok ce s c" and t: "previous < target" "target < char_count s"
  shows "meets (rule_fails ce) (search_ok ce s)
    (\<lambda>v. \<exists>low high. previous < low \<and> high \<le> target \<and> hit_ok ce (set lits - {[]}) s low high v)
    (find_cut ce (char_count s) (plan_margin ce) quick budget previous target c)"
  unfolding find_cut_def Let_def
proof (rule meets_andthen [OF scan_window_meets [OF p c]])
  let ?low = "max (previous + 1) (target - quick)"
  show "0 < ?low" "?low \<le> target" "target < char_count s" using t by simp_all
  fix c1 v assume c1: "search_ok ce s c1" and v: "hit_ok ce (set lits - {[]}) s ?low target v"
  obtain w found where wf: "v = (w, found)" by fastforce
  show "meets (rule_fails ce) (search_ok ce s)
      (\<lambda>v. \<exists>low high. previous < low \<and> high \<le> target \<and> hit_ok ce (set lits - {[]}) s low high v)
      (case v of (w, found) \<Rightarrow>
        if found = None \<and> budget > quick \<and> ?low > previous + 1
        then scan_window ce (char_count s) (plan_margin ce) (max (previous + 1) (target - budget)) (?low - 1) c1
        else (c1, Ok (w, found)))"
  proof (cases "found = None \<and> budget > quick \<and> ?low > previous + 1")
    case True
    let ?lower = "max (previous + 1) (target - budget)"
    have b: "0 < ?lower" "?lower \<le> ?low - 1" "?low - 1 < char_count s" "previous < ?lower" "?low - 1 \<le> target"
      using True t by auto
    have "meets (rule_fails ce) (search_ok ce s)
        (\<lambda>v. \<exists>low high. previous < low \<and> high \<le> target \<and> hit_ok ce (set lits - {[]}) s low high v)
        (scan_window ce (char_count s) (plan_margin ce) ?lower (?low - 1) c1)"
      by (rule meets_weaken [OF scan_window_meets [OF p c1 b(1-3)]]) (use b(4,5) in blast)
    then show ?thesis unfolding wf prod.case if_P [OF True] .
  next
    case False
    have "previous < ?low" by simp
    then have "\<exists>low high. previous < low \<and> high \<le> target \<and> hit_ok ce (set lits - {[]}) s low high (w, found)"
      using v wf by blast
    then show ?thesis unfolding wf prod.case if_not_P [OF False] using c1 by (rule meets_Ok [rotated])
  qed
qed

section \<open>The cuts\<close>

text \<open>The cuts so far: at least \<open>floor_chars\<close> apart and from the end, certified, with their bytes.\<close>

definition spaced :: "nat \<Rightarrow> nat list \<Rightarrow> bool" where
  "spaced floor_chars ps \<longleftrightarrow> (\<forall>(a, b) \<in> set (pairs_of ps). a < b \<and> floor_chars \<le> b - a)"

definition plan_ok :: "chunk_encoder \<Rightarrow> str set \<Rightarrow> str \<Rightarrow> nat \<Rightarrow> nat \<Rightarrow> plan_state \<Rightarrow> bool" where
  "plan_ok ce pats s floor_chars done p \<longleftrightarrow>
     search_ok ce s (pn_search p)
     \<and> (\<forall>(c, y) \<in> set (pn_cuts p). certified ce pats s c \<and> y = char_off s c \<and> floor_chars \<le> char_count s - c)
     \<and> spaced floor_chars (0 # map fst (pn_cuts p))
     \<and> pn_previous p = last (0 # map fst (pn_cuts p))
     \<and> pn_misses p + length (pn_cuts p) = done"

lemma pairs_snoc: "xs \<noteq> [] \<Longrightarrow> pairs_of (xs @ [x]) = pairs_of xs @ [(last xs, x)]"
  by (induction xs rule: pairs_of.induct) auto

lemma spaced_snoc: "xs \<noteq> [] \<Longrightarrow> spaced k (xs @ [x]) \<longleftrightarrow> spaced k xs \<and> last xs < x \<and> k \<le> x - last xs"
  by (auto simp: spaced_def pairs_snoc)

lemma target_inside: "0 < n \<Longrightarrow> index < k \<Longrightarrow> n * index mod m div k < (n :: nat)"
proof -
  assume n: "0 < n" "index < k"
  have "n * index mod m div k \<le> n * index div k" by (rule div_le_mono) simp
  also have "\<dots> < n" using n by (simp add: less_mult_imp_div_less mult.commute)
  finally show ?thesis .
qed

text \<open>A step, or a run of steps: the table stays sound whatever happens, and a success leaves a plan.\<close>

definition advances :: "chunk_encoder \<Rightarrow> str set \<Rightarrow> str \<Rightarrow> nat \<Rightarrow> nat \<Rightarrow> plan_state \<times> (string, unit) outcome \<Rightarrow> bool" where
  "advances ce pats s floor_chars done m \<longleftrightarrow> search_ok ce s (pn_search (fst m))
     \<and> (case snd m of Ok _ \<Rightarrow> plan_ok ce pats s floor_chars done (fst m) | Err _ \<Rightarrow> rule_fails ce | Panic \<Rightarrow> False)"

lemma plan_step_advances:
  assumes p: "plans ce lits s" and i: "0 < char_count s" "index < k" and q: "plan_ok ce (set lits - {[]}) s floor_chars done q"
  shows "advances ce (set lits - {[]}) s floor_chars (Suc done)
    (plan_step ce (char_count s) k floor_chars quick budget (plan_margin ce) index q)"
proof -
  let ?t = "char_count s * index mod 18446744073709551616 div k" and ?prev = "pn_previous q"
  have t: "?t < char_count s" by (rule target_inside [OF i])
  show ?thesis
  proof (cases "?t \<le> ?prev")
    case True
    then show ?thesis using q by (auto simp: plan_step_def Let_def plan_ok_def advances_def)
  next
    case False
    have so: "search_ok ce s (pn_search q)" using q by (simp add: plan_ok_def)
    have lt: "?prev < ?t" using False by simp
    obtain c r where cr: "find_cut ce (char_count s) (plan_margin ce) quick budget ?prev ?t (pn_search q) = (c, r)" by fastforce
    note found = find_cut_meets [OF p so lt t, of quick budget, unfolded cr meets_def fst_conv snd_conv]
    note f = conjunct1 [OF found] conjunct2 [OF found]
    note st = plan_step_def Let_def if_not_P [OF False] cr prod.case
    show ?thesis
    proof (cases r)
      case (Ok v)
      obtain w found where v: "v = (w, found)" by fastforce
      show ?thesis
      proof (cases "\<exists>x. found = Some x \<and> floor_chars \<le> x - ?prev \<and> floor_chars \<le> char_count s - x")
        case True
        then obtain x where x: "found = Some x" "floor_chars \<le> x - ?prev" "floor_chars \<le> char_count s - x" by blast
        have h: "certified ce (set lits - {[]}) s x" "?prev < x" "wn_byte_of w x = (Ok (char_off s x) :: (string, nat) outcome)"
          using f(2) Ok v x(1) by (auto simp: hit_ok_def found_in_def)
        have "spaced floor_chars (0 # map fst (pn_cuts q) @ [x])"
          using q h(2) x(2) spaced_snoc [of "0 # map fst (pn_cuts q)"] by (auto simp: plan_ok_def)
        then show ?thesis using q f(1) h x Ok v unfolding st
          by (simp add: advances_def plan_ok_def)
      next
        case False
        then show ?thesis using q f(1) Ok v unfolding st
          by (cases found) (auto simp: advances_def plan_ok_def)
      qed
    next
      case (Err e)
      then show ?thesis using f unfolding st by (auto simp: advances_def)
    next
      case Panic
      then show ?thesis using f(2) by simp
    qed
  qed
qed

lemma plan_steps_advance:
  assumes p: "plans ce lits s" and n: "0 < char_count s"
  shows "\<forall>i \<in> set is. i < k \<Longrightarrow> plan_ok ce (set lits - {[]}) s floor_chars done q \<Longrightarrow>
    advances ce (set lits - {[]}) s floor_chars (done + length is)
      (plan_steps ce (char_count s) k floor_chars quick budget (plan_margin ce) is q)"
proof (induction "is" arbitrary: q "done")
  case Nil
  then show ?case by (simp add: advances_def plan_ok_def)
next
  case (Cons i "is")
  obtain q1 r where st: "plan_step ce (char_count s) k floor_chars quick budget (plan_margin ce) i q = (q1, r)" by fastforce
  have "advances ce (set lits - {[]}) s floor_chars (Suc done) (q1, r)"
    using plan_step_advances [OF p n _ Cons.prems(2), of i k quick budget] Cons.prems(1) unfolding st by simp
  then show ?case unfolding plan_steps.simps st
    using Cons.IH [of "Suc done" q1] Cons.prems(1) by (cases r) (simp_all add: advances_def)
qed

section \<open>The plan of a text\<close>

text \<open>A plan over the cuts \<open>ps\<close>.\<close>

definition plan_over :: "str \<Rightarrow> nat list \<Rightarrow> chunk_plan \<Rightarrow> bool" where
  "plan_over s ps plan \<longleftrightarrow> cp_spans plan = pairs_of (0 # ps @ [char_count s])
     \<and> cp_byte_spans plan = map (\<lambda>(a, b). (char_off s a, char_off s b)) (cp_spans plan)
     \<and> cp_chars plan = char_count s"

definition plan_sound :: "chunk_encoder \<Rightarrow> str set \<Rightarrow> str \<Rightarrow> nat \<Rightarrow> nat \<Rightarrow> nat list \<Rightarrow> chunk_plan \<Rightarrow> bool" where
  "plan_sound ce pats s k floor_chars ps plan \<longleftrightarrow> plan_over s ps plan
     \<and> (\<forall>c \<in> set ps. certified ce pats s c)
     \<and> (ps \<noteq> [] \<longrightarrow> spaced floor_chars (0 # ps @ [char_count s]))
     \<and> (ps \<noteq> [] \<longrightarrow> cp_cut_misses plan + length ps = k - 1)
     \<and> length ps \<le> k - 1 \<and> cp_k plan = k"

lemma pairs_map: "pairs_of (map f xs) = map (\<lambda>(a, b). (f a, f b)) (pairs_of xs)"
  by (induction xs rule: pairs_of.induct) auto

lemma pairs_fst: "map fst (pairs_of (x # ps @ [y])) = x # ps"
  by (induction ps arbitrary: x) simp_all

lemma pairs_cuts: "map fst (drop 1 (pairs_of (x # ps @ [y]))) = ps"
  by (simp only: drop_map [symmetric] pairs_fst) simp

lemma single_sound: "valid_utf8 s \<Longrightarrow> plan_sound ce pats s k floor_chars [] (plan_single (char_count s) (length s) k)"
  by (simp add: plan_sound_def plan_over_def plan_single_def char_off_end)

text \<open>The answer of a plan: a sound plan, or an error of the normalizer.\<close>

definition plans_well :: "chunk_encoder \<Rightarrow> str set \<Rightarrow> str \<Rightarrow> nat \<Rightarrow> nat \<Rightarrow> memo \<times> (string, chunk_plan) outcome \<Rightarrow> bool" where
  "plans_well ce pats s k floor_chars m \<longleftrightarrow> memo_fine ce (fst m)
     \<and> (case snd m of Ok plan \<Rightarrow> \<exists>ps. plan_sound ce pats s k floor_chars ps plan
        | Err _ \<Rightarrow> rule_fails ce | Panic \<Rightarrow> False)"

lemma plan_counted_well:
  assumes p: "plans ce lits s" and m: "memo_fine ce m" and f: "k \<le> 1 \<or> char_count s < min_text_chars \<or> chunk_floor (char_count s) k min_chunk = Ok f"
  shows "plans_well ce (set lits - {[]}) s k f (plan_counted ce s (char_count s) k min_chunk budget m)"
proof (cases "k \<le> 1 \<or> char_count s < min_text_chars")
  case True
  have "valid_utf8 s" using p by (simp add: plans_def)
  then have "plan_sound ce (set lits - {[]}) s k f [] (plan_single (char_count s) (length s) k)" by (rule single_sound)
  then show ?thesis using m True by (simp add: plans_well_def plan_counted_def) blast
next
  case False
  then have fl: "chunk_floor (char_count s) k min_chunk = (Ok f :: (string, nat) outcome)" and n: "0 < char_count s" using f by (auto simp: min_text_chars_def)
  define start where "start = \<lparr>pn_search = (seek_new s, \<lparr>sn_memo = m, sn_literal = 0, sn_norm = 0\<rparr>),
                     pn_cuts = [], pn_misses = 0, pn_previous = 0\<rparr>"
  have start: "plan_ok ce (set lits - {[]}) s f 0 start"
    using m by (simp add: start_def plan_ok_def search_ok_def seek_new_ok spaced_def)
  obtain q r where run: "plan_steps ce (char_count s) k f (min quick_scan budget) budget (plan_margin ce) [1..<k] start = (q, r)"
    by fastforce
  have adv: "advances ce (set lits - {[]}) s f (k - 1) (q, r)"
    using plan_steps_advance [OF p n _ start, of "[1..<k]" k "min quick_scan budget" budget] run by simp
  let ?bounds = "(0, 0) # pn_cuts q @ [(char_count s, length s)]"
  have res: "plan_counted ce s (char_count s) k min_chunk budget m = (let sn = snd (pn_search q) in attempt (sn_memo sn) r (\<lambda>_.
          (sn_memo sn, Ok \<lparr>cp_spans = map (\<lambda>(a, b). (fst a, fst b)) (pairs_of ?bounds),
             cp_byte_spans = map (\<lambda>(a, b). (snd a, snd b)) (pairs_of ?bounds),
             cp_k = k, cp_chars = char_count s, cp_cut_misses = pn_misses q,
             cp_literal_rejects = sn_literal sn, cp_norm_rejects = sn_norm sn\<rparr>)))"
    using False fl run by (simp add: plan_counted_def start_def Let_def)
  show ?thesis
  proof (cases r)
    case (Ok u)
    then have q: "plan_ok ce (set lits - {[]}) s f (k - 1) q" using adv by (simp add: advances_def)
    let ?ps = "map fst (pn_cuts q)"
    have b: "?bounds = map (\<lambda>c. (c, char_off s c)) (0 # ?ps @ [char_count s])"
      using q p by (auto simp: plan_ok_def char_off_end plans_def comp_def intro!: map_idI [symmetric])
    have sp: "spaced f (0 # ?ps @ [char_count s])" if ne: "?ps \<noteq> []"
    proof -
      have "last (0 # ?ps) \<in> set ?ps" using ne last_in_set [of ?ps] by (simp del: set_map)
      then obtain y where "(last (0 # ?ps), y) \<in> set (pn_cuts q)" by auto
      then have "last (0 # ?ps) < char_count s \<and> f \<le> char_count s - last (0 # ?ps)"
        using q by (auto simp: plan_ok_def certified_def)
      then show ?thesis using q spaced_snoc [of "0 # ?ps" f "char_count s"] by (simp add: plan_ok_def)
    qed
    have fst: "map (\<lambda>(a, b). (fst a, fst b)) (pairs_of ?bounds) = pairs_of (0 # ?ps @ [char_count s])"
      unfolding b pairs_map by (simp add: comp_def case_prod_unfold)
    have snd: "map (\<lambda>(a, b). (snd a, snd b)) (pairs_of ?bounds)
        = map (\<lambda>(a, b). (char_off s a, char_off s b)) (pairs_of (0 # ?ps @ [char_count s]))"
      unfolding b pairs_map by (simp add: comp_def case_prod_unfold)
    have c: "\<forall>c \<in> set ?ps. certified ce (set lits - {[]}) s c" and len: "pn_misses q + length ?ps = k - 1"
      using q by (auto simp: plan_ok_def)
    have "plan_sound ce (set lits - {[]}) s k f ?ps \<lparr>cp_spans = map (\<lambda>(a, b). (fst a, fst b)) (pairs_of ?bounds),
             cp_byte_spans = map (\<lambda>(a, b). (snd a, snd b)) (pairs_of ?bounds),
             cp_k = k, cp_chars = char_count s, cp_cut_misses = pn_misses q,
             cp_literal_rejects = sn_literal (snd (pn_search q)), cp_norm_rejects = sn_norm (snd (pn_search q))\<rparr>"
      unfolding plan_sound_def plan_over_def fst snd using c len sp by simp
    then show ?thesis using adv Ok unfolding res
      by (auto simp: plans_well_def advances_def search_ok_def Let_def)
  next
    case (Err e)
    then show ?thesis using adv unfolding res by (simp add: plans_well_def advances_def search_ok_def Let_def)
  next
    case Panic
    then show ?thesis using adv by (simp add: advances_def)
  qed
qed

section \<open>Tiles\<close>

text \<open>Adjacent spans cover what lies between their ends.\<close>

lemma sub_text_join: "a \<le> b \<Longrightarrow> b \<le> c \<Longrightarrow> sub_text s a b @ sub_text s b c = sub_text s a c"
proof -
  assume ab: "a \<le> b" "b \<le> c"
  have "take (c - a) (drop a (chars s)) = take (b - a) (drop a (chars s)) @ take (c - b) (drop b (chars s))"
    using ab take_add [of "b - a" "c - b" "drop a (chars s)"] by simp
  then show ?thesis by (simp add: sub_text_def)
qed

lemma sub_text_all: "sub_text s 0 (char_count s) = s"
  by (simp add: sub_text_def)

lemma pairs_tile:
  "sorted xs \<Longrightarrow> xs \<noteq> [] \<Longrightarrow> concat (map (\<lambda>(a, b). sub_text s a b) (pairs_of xs)) = sub_text s (hd xs) (last xs)"
proof (induction xs rule: pairs_of.induct)
  case (1 a b xs)
  then have "concat (map (\<lambda>(a, b). sub_text s a b) (pairs_of (a # b # xs))) = sub_text s a b @ sub_text s b (last (b # xs))"
    by simp
  also have "\<dots> = sub_text s a (last (b # xs))" using 1(2) by (intro sub_text_join) auto
  finally show ?case by simp
qed (simp_all add: sub_text_def)

lemma spaced_sorted: "spaced k xs \<Longrightarrow> sorted_wrt (<) xs"
proof (induction xs rule: pairs_of.induct)
  case (1 a b xs)
  then have "a < b" "sorted_wrt (<) (b # xs)" by (simp_all add: spaced_def)
  then show ?case by auto
qed simp_all

end
