(* ===== verification/ChunkRoute.thy ===== *)
theory ChunkRoute
  imports Chunked ChunkCuts ByteRoute
begin

text \<open>
  What a chunked encode relies on: the laws of a route, and that the tokenizer only extracts literals the
  planner's guard knows. Then the token row of a text is the concatenation of the rows of its chunks.
\<close>

section \<open>The laws\<close>

text \<open>\<open>lits\<close> are the contents of the added tokens in the document of the engine: every added token of a row stands at
  an occurrence of one of them.\<close>

locale chunk_route = bpe_route row added inside e
  for row added inside and e :: "'w fast_engine" +
  fixes lits :: "str list"
  assumes lits_valid: "p \<in> set lits \<Longrightarrow> valid_utf8 p"
    and literal_occurs: "valid_utf8 x \<Longrightarrow> (a, b) \<in> literals row added x \<Longrightarrow> occurs (set lits - {[]}) x a b"

section \<open>Rows of chunks\<close>

lemma sub_text_from: "sub_text (text_from x p) a b = sub_text x (p + a) (p + b)"
  by (simp add: sub_text_def add.commute)

lemma sub_text_upto: "p \<le> char_count x \<Longrightarrow> sub_text x 0 p = text_upto x p"
  by (simp add: sub_text_def text_upto_def take_char_off)

lemma sub_text_end: "sub_text x p (char_count x) = text_from x p"
  by (simp add: sub_text_def text_from_def drop_char_off)

lemma occurs_from: "occurs pats (text_from x p) a b \<Longrightarrow> occurs pats x (p + a) (p + b)"
  by (auto simp: occurs_def add.commute)

lemma valid_sub_text: "valid_utf8 s \<Longrightarrow> valid_utf8 (sub_text s a b)"
  by (simp add: valid_utf8_def sub_text_def chars_sub list_all_iff) (meson in_set_dropD in_set_takeD)

lemma split_ids: "splits_at row x p \<Longrightarrow> map tok_id (row x) = map tok_id (row (text_upto x p)) @ map tok_id (row (text_from x p))"
proof -
  assume s: "splits_at row x p"
  have "map tok_id (map (tok_shift p) ts) = map tok_id ts" for ts by simp
  then show ?thesis using arg_cong [OF s [unfolded splits_at_def], of "map tok_id"] by (simp only: map_append)
qed

text \<open>What a cut needs of the text as written.\<close>

definition raw_cut :: "sync_boundary \<Rightarrow> str set \<Rightarrow> str \<Rightarrow> nat \<Rightarrow> bool" where
  "raw_cut b pats s p \<longleftrightarrow> 0 < p \<and> p < char_count s \<and> sync_accepts b (chars s ! (p - 1)) (chars s ! p)
     \<and> \<not> (\<exists>f l. occurs pats s f l \<and> f < p \<and> p < l)"

lemma certified_raw: "certified ce pats s p \<Longrightarrow> raw_cut (ce_boundary ce) pats s p"
  by (simp add: certified_def raw_cut_def)

lemma raw_cut_from:
  assumes "raw_cut b pats s q" "p < q"
  shows "raw_cut b pats (text_from s p) (q - p)"
proof -
  have "\<not> (occurs pats (text_from s p) f l \<and> f < q - p \<and> q - p < l)" for f l
  proof
    assume o: "occurs pats (text_from s p) f l \<and> f < q - p \<and> q - p < l"
    then have "p + f < q" "q < p + l" by linarith+
    then show False using occurs_from [of pats s p f l] o assms(1) unfolding raw_cut_def by blast
  qed
  then show ?thesis using assms by (auto simp: raw_cut_def)
qed

context chunk_route
begin

lemma raw_cut_splits:
  assumes "valid_utf8 x" "raw_cut (fe_boundary e) (set lits - {[]}) x p"
  shows "splits_at row x p"
  using sync_or_literal [OF assms(1), of p] literal_occurs [OF assms(1)] assms(2) unfolding raw_cut_def by blast

lemma rows_from:
  assumes x: "valid_utf8 x"
  shows "sorted_wrt (<) (p # ps) \<Longrightarrow> \<forall>q \<in> set ps. raw_cut (fe_boundary e) (set lits - {[]}) x q \<Longrightarrow>
     map tok_id (row (text_from x p)) = concat (map (\<lambda>(a, b). map tok_id (row (sub_text x a b))) (pairs_of (p # ps @ [char_count x])))"
proof (induction ps arbitrary: p)
  case Nil
  then show ?case by (simp add: sub_text_end)
next
  case (Cons q ps)
  let ?y = "text_from x p"
  have lt: "p < q" and q: "raw_cut (fe_boundary e) (set lits - {[]}) x q" using Cons.prems by auto
  have n: "q - p \<le> char_count ?y" using q by (simp add: raw_cut_def diff_le_mono)
  have ih: "map tok_id (row (text_from x q))
      = concat (map (\<lambda>(a, b). map tok_id (row (sub_text x a b))) (pairs_of (q # ps @ [char_count x])))"
    by (rule Cons.IH) (use Cons.prems in auto)
  have "map tok_id (row ?y) = map tok_id (row (text_upto ?y (q - p))) @ map tok_id (row (text_from ?y (q - p)))"
    by (rule split_ids [OF raw_cut_splits [OF _ raw_cut_from [OF q lt]]]) (use x in simp)
  also have "text_from ?y (q - p) = text_from x q" using lt by (simp add: text_from_from)
  also have "text_upto ?y (q - p) = sub_text x p q" using sub_text_upto [OF n] lt by (simp add: sub_text_from)
  finally show ?case using ih by simp
qed

lemma chunk_rows:
  assumes "valid_utf8 x" "sorted_wrt (<) (0 # ps)" "\<forall>p \<in> set ps. raw_cut (fe_boundary e) (set lits - {[]}) x p"
  shows "map tok_id (row x) = concat (map (\<lambda>(a, b). map tok_id (row (sub_text x a b))) (pairs_of (0 # ps @ [char_count x])))"
  using rows_from [OF assms] by (simp add: text_from_def)

end

text \<open>The byte-level tokenizer has no added tokens.\<close>

interpretation byte_chunks: chunk_route byte_row "{}" byte_inside "byte_engine spec" "[]" for spec
  by unfold_locales (simp_all add: literals_def)

end
