(* ===== verification/ChunkRun.thy ===== *)
theory ChunkRun
  imports ChunkRoute
begin

text \<open>
  The rows of a chunked encode under a schedule: what they hold at every step, that no worker is lost, and that
  three steps for each row end them.
\<close>

section \<open>What a step does\<close>

definition row_stage :: "'w chunk_row \<Rightarrow> nat" where
  "row_stage r = (case r of RowWaiting \<Rightarrow> 3 | RowHolding _ _ \<Rightarrow> 2 | RowEncoded _ _ _ \<Rightarrow> 1 | _ \<Rightarrow> 0)"

definition row_held :: "'w chunk_row \<Rightarrow> nat" where
  "row_held r = (case r of RowHolding _ _ \<Rightarrow> 1 | RowEncoded _ _ _ \<Rightarrow> 1 | _ \<Rightarrow> 0)"

text \<open>The workers that exist: free, or with a row; \<open>k\<close> is the difference to the counter.\<close>

definition workers_of :: "'w chunk_run \<Rightarrow> nat" where
  "workers_of run = length (ck_free (cr_cell run)) + sum_list (map row_held (cr_rows run))"

lemma stage_over: "row_stage r = 0 \<Longrightarrow> r = RowFailed \<or> (\<exists>ids src cold. r = RowReady ids src cold)"
  by (cases r) (simp_all add: row_stage_def)

lemma failure_sel [simp]:
  "cr_cell (row_failure f run) = cr_cell run" "cr_rows (row_failure f run) = cr_rows run"
  "cr_failed (row_failure f run) = (if f = Panic \<or> cr_failed run = Ok () then f else cr_failed run)"
  by (simp_all add: row_failure_def)

lemma length_rows [simp]: "length (cr_rows (chunk_row_step e t spans i run)) = length (cr_rows run)"
  by (simp add: chunk_row_step_def Let_def split: chunk_row.splits outcome.splits prod.splits)

lemma stage_step:
  "j < length (cr_rows run) \<Longrightarrow>
     row_stage (cr_rows (chunk_row_step e t spans i run) ! j) \<le> row_stage (cr_rows run ! j) - (if i = j then 1 else 0)"
  by (cases "i = j"; cases "cr_rows run ! i")
    (simp_all add: chunk_row_step_def Let_def row_stage_def split: outcome.splits prod.splits)

lemma stage_fold:
  "j < length (cr_rows run) \<Longrightarrow>
     row_stage (cr_rows (fold (chunk_row_step e t spans) schedule run) ! j) \<le> row_stage (cr_rows run ! j) - count_list schedule j"
proof (induction schedule arbitrary: run)
  case (Cons i schedule)
  have "row_stage (cr_rows (fold (chunk_row_step e t spans) schedule (chunk_row_step e t spans i run)) ! j)
      \<le> row_stage (cr_rows (chunk_row_step e t spans i run) ! j) - count_list schedule j" using Cons by simp
  also have "\<dots> \<le> row_stage (cr_rows run ! j) - count_list (i # schedule) j"
    using stage_step [OF Cons.prems, of e t spans i] by (auto split: if_splits)
  finally show ?case by simp
qed simp

lemma held_update:
  "i < length rows \<Longrightarrow> sum_list (map row_held (rows[i := r])) + row_held (rows ! i) = sum_list (map row_held rows) + row_held r"
proof -
  assume i: "i < length rows"
  then have "row_held (rows ! i) \<le> sum_list (map row_held rows)" by (intro member_le_sum_list) auto
  then show ?thesis using i by (simp add: map_update sum_list_update)
qed

text \<open>Unless a row panics, a step keeps the workers in step with the fork counter.\<close>

lemma workers_step:
  assumes "cr_failed (chunk_row_step e t spans i run) \<noteq> Panic"
  shows "workers_of (chunk_row_step e t spans i run) + ck_forked (cr_cell run)
    = workers_of run + ck_forked (cr_cell (chunk_row_step e t spans i run))"
proof (cases "i < length (cr_rows run)")
  case True
  note h = held_update [OF True] and d = chunk_row_step_def workers_of_def Let_def if_P [OF True]
  show ?thesis
  proof (cases "cr_rows run ! i")
    case RowWaiting
    then show ?thesis using h [of "RowHolding (fork_worker e (ck_engine (cr_cell run))) True"]
        h [of "RowHolding (last (ck_free (cr_cell run))) False"]
      unfolding d by (cases "ck_free (cr_cell run) = []") (auto simp: chunk_checkout_def row_held_def)
  next
    case (RowHolding w cold)
    obtain st w' r where g: "full_ids_with_source e (take (snd (spans ! i) - fst (spans ! i)) (drop (fst (spans ! i)) t))
        (fw_stats (ck_engine (cr_cell run)), w) = ((st, w'), r)" by (metis prod.exhaust)
    then show ?thesis using h [of "RowEncoded w' cold r"] RowHolding assms unfolding d
      by (auto simp: row_held_def str_slice_def split: if_splits)
  next
    case (RowEncoded w cold r)
    then show ?thesis using h [of RowFailed] h [of "RowReady (fst v) (snd v) cold" for v] assms unfolding d
      by (cases r) (auto simp: row_held_def chunk_checkin_def)
  qed (simp_all add: chunk_row_step_def)
qed (simp add: chunk_row_step_def)

lemma failed_step: "cr_failed (chunk_row_step e t spans i run) = Panic" if "cr_failed run = Panic"
  using that by (auto simp: chunk_row_step_def Let_def split: chunk_row.splits outcome.splits prod.splits)

lemma failed_fold: "cr_failed run = Panic \<Longrightarrow> cr_failed (fold (chunk_row_step e t spans) schedule run) = Panic"
  by (induction schedule arbitrary: run) (simp_all add: failed_step)

lemma workers_fold:
  "cr_failed (fold (chunk_row_step e t spans) schedule run) \<noteq> Panic \<Longrightarrow>
     workers_of (fold (chunk_row_step e t spans) schedule run) + ck_forked (cr_cell run)
       = workers_of run + ck_forked (cr_cell (fold (chunk_row_step e t spans) schedule run))"
proof (induction schedule arbitrary: run)
  case (Cons i schedule)
  then have "cr_failed (chunk_row_step e t spans i run) \<noteq> Panic" using failed_fold by fastforce
  then show ?case using Cons.IH [of "chunk_row_step e t spans i run"] Cons.prems workers_step [of e t spans i run] by simp
qed simp

lemma planner_kept:
  "ck_planner (cr_cell (fold (chunk_row_step e t spans) schedule run)) = ck_planner (cr_cell run)
   \<and> ck_memo (cr_cell (fold (chunk_row_step e t spans) schedule run)) = ck_memo (cr_cell run)"
proof (induction schedule arbitrary: run)
  case (Cons i schedule)
  have "ck_planner (cr_cell (chunk_row_step e t spans i run)) = ck_planner (cr_cell run)
      \<and> ck_memo (cr_cell (chunk_row_step e t spans i run)) = ck_memo (cr_cell run)"
    by (auto simp: chunk_row_step_def Let_def chunk_checkout_def chunk_checkin_def split: chunk_row.splits outcome.splits prod.splits)
  then show ?case using Cons by simp
qed simp

text \<open>Rows that are over hold no worker.\<close>

lemma over_held: "rows_over run \<Longrightarrow> sum_list (map row_held (cr_rows run)) = 0"
  by (auto simp: rows_over_def list_all_iff row_held_def split: chunk_row.splits)

section \<open>What the rows hold\<close>

definition row_sound :: "(str \<Rightarrow> token list) \<Rightarrow> str \<Rightarrow> (string, unit) outcome \<Rightarrow> 'w chunk_row \<Rightarrow> bool" where
  "row_sound row x failed r \<longleftrightarrow>
     (case r of RowReady ids _ _ \<Rightarrow> ids = map tok_id (row x)
      | RowEncoded _ _ (Ok (ids, _)) \<Rightarrow> ids = map tok_id (row x)
      | RowFailed \<Rightarrow> failed \<noteq> Ok () | _ \<Rightarrow> True)"

definition run_sound :: "(str \<Rightarrow> token list) \<Rightarrow> str list \<Rightarrow> 'w chunk_run \<Rightarrow> bool" where
  "run_sound row xs run \<longleftrightarrow> length (cr_rows run) = length xs
     \<and> (\<forall>j < length xs. row_sound row (xs ! j) (cr_failed run) (cr_rows run ! j))"

text \<open>The chunks of a t.\<close>

definition sliced :: "str \<Rightarrow> (nat \<times> nat) list \<Rightarrow> str list \<Rightarrow> bool" where
  "sliced t spans xs \<longleftrightarrow> length spans = length xs
     \<and> (\<forall>j < length xs. valid_utf8 (xs ! j)
          \<and> str_slice t (fst (spans ! j)) (snd (spans ! j)) = (Ok (xs ! j) :: (string, str) outcome))"

lemma row_sound_failed: "row_sound row x f r \<Longrightarrow> g = Panic \<or> g = f \<or> g = Err m \<Longrightarrow> row_sound row x g r"
  by (auto simp: row_sound_def split: chunk_row.splits)

context bpe_route
begin

lemma row_step_sound:
  assumes x: "sliced t spans xs" and r: "run_sound row xs run"
  shows "run_sound row xs (chunk_row_step e t spans i run)"
proof (cases "i < length (cr_rows run)")
  case True
  then have i: "i < length xs" using r by (simp add: run_sound_def)
  have s: "row_sound row (xs ! i) (cr_failed run) (cr_rows run ! i)" using r i by (simp add: run_sound_def)
  have sl: "str_slice t (fst (spans ! i)) (snd (spans ! i)) = (Ok (xs ! i) :: (string, str) outcome)" "valid_utf8 (xs ! i)"
    using x i by (simp_all add: sliced_def)
  show ?thesis
  proof (cases "cr_rows run ! i")
    case RowWaiting
    then show ?thesis using True r
      by (simp add: chunk_row_step_def Let_def run_sound_def nth_list_update row_sound_def [where r = "RowHolding w c" for w c]
          split: prod.splits)
  next
    case (RowHolding w cold)
    obtain st w' res where g: "full_ids_with_source e (xs ! i) (fw_stats (ck_engine (cr_cell run)), w) = ((st, w'), res)"
      by (metis prod.exhaust)
    have "ids = map tok_id (row (xs ! i))" if "res = Ok (ids, src)" for ids src
      using ids_gate_exact [OF sl(2)] g that by blast
    then have "row_sound row (xs ! i) (cr_failed run) (RowEncoded w' cold res)"
      by (auto simp: row_sound_def split: outcome.splits prod.splits)
    then show ?thesis using True r RowHolding sl(1) g
      by (simp add: chunk_row_step_def Let_def run_sound_def nth_list_update)
  next
    case (RowEncoded w cold res)
    have old: "row_sound row (xs ! j) g (cr_rows run ! j)" if "j < length xs" "g = Panic \<or> g = cr_failed run \<or> g = Err m" for j g m
      using r that row_sound_failed [of row "xs ! j" "cr_failed run" "cr_rows run ! j" g m] unfolding run_sound_def by blast
    show ?thesis
    proof (cases res)
      case (Ok v)
      obtain ids src where v: "v = (ids, src)" by fastforce
      have "row_sound row (xs ! i) (cr_failed run) (RowReady ids src cold)"
        using s RowEncoded Ok v by (simp add: row_sound_def)
      then show ?thesis using True r RowEncoded Ok v
        by (simp add: chunk_row_step_def Let_def run_sound_def nth_list_update)
    next
      case (Err m)
      then show ?thesis using True r RowEncoded old [where m = m]
        by (simp add: chunk_row_step_def Let_def run_sound_def nth_list_update row_sound_def [where r = RowFailed])
    next
      case Panic
      then show ?thesis using True r RowEncoded old
        by (simp add: chunk_row_step_def Let_def run_sound_def nth_list_update row_sound_def [where r = RowFailed])
    qed
  qed (use r in \<open>simp_all add: chunk_row_step_def\<close>)
qed (use r in \<open>simp add: chunk_row_step_def\<close>)

lemma rows_fold_sound:
  assumes "sliced t spans xs"
  shows "run_sound row xs run \<Longrightarrow> run_sound row xs (fold (chunk_row_step e t spans) schedule run)"
  by (induction schedule arbitrary: run) (simp_all add: row_step_sound [OF assms])

end

lemma run_sound_start: "length (cp_byte_spans plan) = length xs \<Longrightarrow> run_sound row xs (rows_start plan c)"
  by (simp add: run_sound_def rows_start_def row_sound_def)

lemma over_rows:
  assumes r: "run_sound row xs run" and o: "rows_over run" and f: "cr_failed run = Ok ()"
  shows "map row_ids (cr_rows run) = map (\<lambda>x. map tok_id (row x)) xs"
proof (rule nth_equalityI)
  show "length (map row_ids (cr_rows run)) = length (map (\<lambda>x. map tok_id (row x)) xs)" using r by (simp add: run_sound_def)
  fix j assume "j < length (map row_ids (cr_rows run))"
  then have j: "j < length (cr_rows run)" "j < length xs" using r by (simp_all add: run_sound_def)
  have "row_sound row (xs ! j) (Ok ()) (cr_rows run ! j)" using r j(2) f by (auto simp: run_sound_def)
  moreover have "case cr_rows run ! j of RowReady _ _ _ \<Rightarrow> True | RowFailed \<Rightarrow> True | _ \<Rightarrow> False"
    using o [unfolded rows_over_def list_all_length, rule_format, OF j(1)] f by (cases "cr_rows run ! j") simp_all
  ultimately show "map row_ids (cr_rows run) ! j = map (\<lambda>x. map tok_id (row x)) xs ! j"
    using j by (auto simp: row_sound_def row_ids_def split: chunk_row.splits)
qed

text \<open>
  The planner of an engine and the state of its cell, what a plan answers, and how a chunked encode ends: by a
  serial encode, or by the rows of a plan.
\<close>

section \<open>The planner of an engine\<close>

definition doc_literals :: "chunk_document \<Rightarrow> str list" where
  "doc_literals doc = (case cd_parse doc (cd_bytes doc) of Ok d \<Rightarrow> face_literals (cd_print doc) d | _ \<Rightarrow> [])"

abbreviation doc_planner :: "chunk_document \<Rightarrow> 'w fast_engine \<Rightarrow> (string, chunk_encoder) outcome" where
  "doc_planner doc e \<equiv> chunk_encoder_new (cd_parse doc) (cd_print doc) (cd_bytes doc) (fe_boundary e) (fe_reference e)"

text \<open>A cell: the planner is the one of the document, its table is sound, and every worker forked is free.\<close>

definition cell_ok :: "chunk_document \<Rightarrow> 'w fast_engine \<Rightarrow> 'w chunk_cell \<Rightarrow> bool" where
  "cell_ok doc e c \<longleftrightarrow> (case ck_planner c of None \<Rightarrow> True
     | Some r \<Rightarrow> r = doc_planner doc e \<and> (\<forall>ce. r = Ok ce \<longrightarrow> memo_fine ce (ck_memo c)) \<and> length (ck_free c) = ck_forked c)"

lemma memo_fine_new: "memo_fine ce (\<lambda>_. None)"
  by (simp add: memo_fine_def memo_sound_def split: option.splits)

lemma doc_planner_sel:
  assumes "doc_planner doc e = Ok ce"
  shows "ce_boundary ce = fe_boundary e" "ce_guard ce = guard_new (doc_literals doc)"
    "ce_rule ce = None \<or> ce_rule ce = Some (fe_reference e)"
  using assms by (auto simp: chunk_encoder_new_def doc_literals_def split: outcome.splits)

lemma planner_ok:
  assumes "cell_ok doc e c" "chunk_planner doc e c = (c1, r)"
  shows "cell_ok doc e c1" "ck_planner c1 = Some r" "r = doc_planner doc e" "r = Ok ce \<Longrightarrow> memo_fine ce (ck_memo c1)"
    "length (ck_free c1) = ck_forked c1"
  using assms memo_fine_new by (auto simp: chunk_planner_def cell_ok_def Let_def split: option.splits)

lemma doc_plans:
  assumes "doc_planner doc e = Ok ce" "normalizer_calm (fe_reference e)" "\<forall>p \<in> set (doc_literals doc). valid_utf8 p" "valid_utf8 s"
  shows "plans ce (doc_literals doc) s"
  using doc_planner_sel [OF assms(1)] assms(2-4) by (auto simp: plans_def)

lemma floor_not_Err: "chunk_floor n k m \<noteq> Err x"
  by (simp add: chunk_floor_def Let_def split: option.splits)

lemma plan_counted_floor:
  assumes "\<not> (k \<le> 1 \<or> n < min_text_chars)" "\<nexists>f. chunk_floor n k mc = (Ok f :: (string, nat) outcome)"
  shows "plan_counted ce s n k mc budget m = (m, Panic)"
  using assms floor_not_Err [of n k mc] by (cases "chunk_floor n k mc :: (string, nat) outcome") (auto simp: plan_counted_def)

text \<open>The answer of a plan, whatever it is.\<close>

lemma planned_sound:
  assumes p: "plans ce lits s" and m: "memo_fine ce m" and r: "plan_counted ce s (char_count s) k mc budget m = (m', Ok plan)"
  shows "\<exists>ps f. plan_sound ce (set lits - {[]}) s k f ps plan
    \<and> (k \<le> 1 \<or> char_count s < min_text_chars \<or> chunk_floor (char_count s) k mc = (Ok f :: (string, nat) outcome))"
proof -
  obtain f where f: "k \<le> 1 \<or> char_count s < min_text_chars \<or> chunk_floor (char_count s) k mc = (Ok f :: (string, nat) outcome)"
    using r plan_counted_floor [of k "char_count s" mc ce s budget m] by auto
  have "plans_well ce (set lits - {[]}) s k f (m', Ok plan)"
    using plan_counted_well [OF p m f, of budget] unfolding r .
  then show ?thesis using f by (auto simp: plans_well_def)
qed

lemma planned_memo:
  assumes p: "plans ce lits s" and m: "memo_fine ce m" and r: "plan_counted ce s (char_count s) k mc budget m = (m', res)"
  shows "memo_fine ce m'"
proof (cases "\<exists>f. k \<le> 1 \<or> char_count s < min_text_chars \<or> chunk_floor (char_count s) k mc = (Ok f :: (string, nat) outcome)")
  case True
  then obtain f where f: "k \<le> 1 \<or> char_count s < min_text_chars \<or> chunk_floor (char_count s) k mc = (Ok f :: (string, nat) outcome)" by blast
  show ?thesis using plan_counted_well [OF p m f, of budget] unfolding r plans_well_def by simp
next
  case False
  then show ?thesis using plan_counted_floor [of k "char_count s" mc ce s budget m] r m by auto
qed

section \<open>Spans\<close>

lemma pairs_le: "sorted xs \<Longrightarrow> (a, b) \<in> set (pairs_of xs) \<Longrightarrow> a \<le> b"
  by (induction xs rule: pairs_of.induct) auto

lemma length_pairs: "length (pairs_of (x # ps @ [y])) = Suc (length ps)"
  by (induction ps arbitrary: x) simp_all

lemma sound_sorted: "plan_sound ce pats s k f ps plan \<Longrightarrow> sorted (0 # ps @ [char_count s]) \<and> sorted_wrt (<) (0 # ps)"
proof (cases "ps = []")
  case False
  assume "plan_sound ce pats s k f ps plan"
  then have "spaced f (0 # ps @ [char_count s])" using False by (simp add: plan_sound_def)
  then have srt: "sorted_wrt (<) ((0 # ps) @ [char_count s])" using spaced_sorted by (metis append_Cons)
  then have "sorted_wrt (<) (0 # ps)" unfolding sorted_wrt_append by blast
  moreover have "sorted (0 # ps @ [char_count s])" using srt strict_sorted_imp_sorted by (metis append_Cons)
  ultimately show ?thesis by blast
qed simp

lemma sound_sliced:
  assumes s: "valid_utf8 s" and p: "plan_sound ce pats s k f ps plan"
  shows "sliced s (cp_byte_spans plan) (map (\<lambda>(a, b). sub_text s a b) (cp_spans plan))"
proof -
  have o: "plan_over s ps plan" using p by (simp add: plan_sound_def)
  have "str_slice s (char_off s a) (char_off s b) = (Ok (sub_text s a b) :: (string, str) outcome)" if "(a, b) \<in> set (cp_spans plan)" for a b
  proof -
    have "a \<le> b" using pairs_le [OF conjunct1 [OF sound_sorted [OF p]]] that o by (simp add: plan_over_def)
    then show ?thesis by (simp add: str_slice_off sub_text_def)
  qed
  then show ?thesis using o valid_sub_text [OF s] by (auto simp: sliced_def plan_over_def nth_mem split: prod.splits) (metis nth_mem)
qed

lemma planned_cut:
  assumes "plans ce lits s" "memo_fine ce m" "chunk_planned ce s k min_chunk scan_budget m = (m', Ok plan)" "p \<in> set (plan_cuts plan)"
  shows "certified ce (set lits - {[]}) s p"
proof -
  have s: "valid_utf8 s" and r: "plan_counted ce s (char_count s) k min_chunk scan_budget m = (m', Ok plan)"
    using assms(1,3) count_chars_eq [of s] by (auto simp: plans_def chunk_planned_def split: if_splits)
  obtain ps f where p: "plan_sound ce (set lits - {[]}) s k f ps plan"
    using planned_sound [OF assms(1,2) r] by blast
  then have "plan_cuts plan = ps" unfolding plan_sound_def plan_over_def plan_cuts_def using pairs_cuts by metis
  then show ?thesis using p assms(4) by (simp add: plan_sound_def)
qed

section \<open>How an encode ends\<close>

lemma serial_exact:
  assumes "bpe_route row added inside e" "valid_utf8 s" "chunked_serial e s k why below plan c = (c', Ok out)"
  shows "ci_ids out = map tok_id (row s)"
proof -
  obtain s' ids src where r: "encode_ids_with_source e s (ck_engine c) = (s', Ok (ids, src))" and o: "ci_ids out = ids"
    using assms(3) by (auto simp: chunked_serial_def rbind_eq_Ok split: prod.splits)
  show ?thesis using with_primary_Ok [of "full_ids_with_source e s"] r bpe_route.ids_gate_exact [OF assms(1,2)]
    unfolding o encode_ids_with_source_def by blast
qed

lemma rows_result:
  assumes "chunked_rows e schedule s k plan c = Some (c', r)"
  obtains run where "run = fold (chunk_row_step e s (cp_byte_spans plan)) schedule (rows_start plan c)" "rows_over run"
    "c' = cr_cell run" "r = rbind (cr_failed run) (\<lambda>_. Ok (chunked_join k plan (cr_rows run)))"
  using assms by (auto simp: chunked_rows_def Let_def split: if_splits)

lemma rows_exact:
  assumes r: "chunk_route row added inside e lits" and s: "valid_utf8 s" and b: "ce_boundary ce = fe_boundary e"
    and p: "plan_sound ce (set lits - {[]}) s k f ps plan"
    and call: "chunked_rows e schedule s k plan c = Some (c', Ok out)"
  shows "ci_ids out = map tok_id (row s)"
proof -
  let ?xs = "map (\<lambda>(a, b). sub_text s a b) (cp_spans plan)"
  obtain run where run: "run = fold (chunk_row_step e s (cp_byte_spans plan)) schedule (rows_start plan c)" "rows_over run"
    "Ok out = rbind (cr_failed run) (\<lambda>_. Ok (chunked_join k plan (cr_rows run)))" using rows_result [OF call] by metis
  have f: "cr_failed run = Ok ()" and o: "out = chunked_join k plan (cr_rows run)"
    using run(3) by (cases "cr_failed run"; simp)+
  have sl: "sliced s (cp_byte_spans plan) ?xs" by (rule sound_sliced [OF s p])
  then have "run_sound row ?xs (rows_start plan c)" by (intro run_sound_start) (simp add: sliced_def)
  then have "run_sound row ?xs run"
    unfolding run(1) by (rule bpe_route.rows_fold_sound [OF chunk_route.axioms(1) [OF r] sl])
  then have "map row_ids (cr_rows run) = map (\<lambda>x. map tok_id (row x)) ?xs" by (rule over_rows [OF _ run(2) f])
  then have "ci_ids out = concat (map (\<lambda>(a, b). map tok_id (row (sub_text s a b))) (cp_spans plan))"
    unfolding o by (simp add: chunked_join_def comp_def case_prod_unfold)
  also have "\<dots> = map tok_id (row s)"
  proof -
    have "\<forall>q \<in> set ps. raw_cut (fe_boundary e) (set lits - {[]}) s q"
      using p b certified_raw unfolding plan_sound_def by metis
    from chunk_route.chunk_rows [OF r s conjunct2 [OF sound_sorted [OF p]] this] show ?thesis
      using p by (simp add: plan_sound_def plan_over_def)
  qed
  finally show ?thesis .
qed

text \<open>The ways an encode ends, with the cell it leaves.\<close>

lemma encode_cases:
  assumes "chunked_encode_ids doc e schedule s k mc budget c = Some (c', r)" "cell_ok doc e c" "valid_utf8 s"
  obtains (none) "c' = c" "\<forall>out. r \<noteq> Ok out"
  | (no_planner) r' where "chunk_planner doc e c = (c', r')" "\<forall>out. r \<noteq> Ok out"
  | (serial) ce why below plan c1 m where "chunk_planner doc e c = (c1, Ok ce)"
      "m = ck_memo c1 \<or> (\<exists>res. plan_counted ce s (char_count s) k mc budget (ck_memo c1) = (m, res))"
      "chunked_serial e s k why below plan (c1\<lparr>ck_memo := m\<rparr>) = (c', r)"
  | (plan_failed) ce c1 m res where "chunk_planner doc e c = (c1, Ok ce)" "\<forall>out. r \<noteq> Ok out"
      "plan_counted ce s (char_count s) k mc budget (ck_memo c1) = (m, res)" "c' = c1\<lparr>ck_memo := m\<rparr>"
  | (rows) ce c1 m plan where "chunk_planner doc e c = (c1, Ok ce)"
      "plan_counted ce s (char_count s) k mc budget (ck_memo c1) = (m, Ok plan)"
      "chunked_rows e schedule s k plan (c1\<lparr>ck_memo := m\<rparr>) = Some (c', r)"
proof (cases "budget = 0")
  case True
  then show ?thesis using assms(1) none by (auto simp: chunked_encode_ids_def)
next
  case False
  obtain c1 pr where pl: "chunk_planner doc e c = (c1, pr)" by fastforce
  have n: "count_chars s = char_count s" by (rule count_chars_eq [OF assms(3)])
  have id: "c1\<lparr>ck_memo := ck_memo c1\<rparr> = c1" by simp
  show ?thesis
  proof (cases pr)
    case (Ok ce)
    note call = assms(1) [unfolded chunked_encode_ids_def if_not_P [OF False] pl Ok prod.case outcome.case n Let_def]
    show ?thesis
    proof (cases "ce_refusal ce \<noteq> None \<or> k \<le> 1 \<or> char_count s < min_text_chars")
      case True
      then obtain why below where "chunked_serial e s k why below None c1 = (c', r)"
        using call by (auto split: if_splits)
      then show ?thesis using serial [OF pl [unfolded Ok], of "ck_memo c1"] unfolding id by blast
    next
      case False
      obtain m res where pc: "plan_counted ce s (char_count s) k mc budget (ck_memo c1) = (m, res)" by fastforce
      have call': "(case res of
            Ok plan \<Rightarrow> if length (cp_spans plan) = 1
              then Some (chunked_serial e s k (Some ''R_CHUNK_NO_CUT'') False (Some plan) (c1\<lparr>ck_memo := m\<rparr>))
              else chunked_rows e schedule s k plan (c1\<lparr>ck_memo := m\<rparr>)
          | Err x \<Rightarrow> Some (c1\<lparr>ck_memo := m\<rparr>, Err x) | Panic \<Rightarrow> Some (c1\<lparr>ck_memo := m\<rparr>, Panic)) = Some (c', r)"
        using call False pc by (cases res) simp_all
      show ?thesis
      proof (cases res)
        case (Ok plan)
        show ?thesis
        proof (cases "length (cp_spans plan) = 1")
          case True
          then have "chunked_serial e s k (Some ''R_CHUNK_NO_CUT'') False (Some plan) (c1\<lparr>ck_memo := m\<rparr>) = (c', r)"
            using call' Ok by simp
          then show ?thesis using serial [OF pl [unfolded \<open>pr = Ok ce\<close>], of m] pc by blast
        next
          case False
          then show ?thesis using rows [OF pl [unfolded \<open>pr = Ok ce\<close>] pc [unfolded Ok]] call' Ok by simp
        qed
      qed (use plan_failed [OF pl [unfolded Ok] _ pc] call' in auto)
    qed
  qed (use no_planner assms(1) False pl in \<open>auto simp: chunked_encode_ids_def\<close>)
qed

end
