(* ===== verification/ChunkDemo.thy ===== *)
theory ChunkDemo
  imports ChunkRun FastDemo
begin

text \<open>
  A chunked encode of the byte-level tokenizer: a text of 300 characters, cut in the middle.
\<close>

definition long_text :: str where "long_text = concat (replicate 150 [32, 97])"

lemma pairs_nth: "i < 2 * n \<Longrightarrow> concat (replicate n [a, b]) ! i = (if even i then a else b)"
proof (induction n arbitrary: i)
  case (Suc n)
  then show ?case by (cases i; cases "i - 1") auto
qed simp

lemma ascii_chars_map: "str_is_ascii x \<Longrightarrow> chars x = map (\<lambda>b. [b]) x"
proof (induction x rule: chars.induct)
  case (2 b bs)
  have "\<not> is_cont c" if "c \<in> set bs" for c
    using 2(2) that by (auto simp: str_is_ascii_def list_all_iff is_cont_unat word_less_nat_alt)
  then have "takeWhile is_cont bs = []" "dropWhile is_cont bs = bs" by (cases bs; simp)+
  then show ?case using 2 by (simp add: str_is_ascii_def)
qed simp

lemma long_sel: "length long_text = 300" "str_is_ascii long_text" "valid_utf8 long_text" "char_count long_text = 300"
  "chars long_text = map (\<lambda>b. [b]) long_text"
proof -
  have "length (concat (replicate n [a, b])) = 2 * n" for n and a b :: u8 by (induction n) simp_all
  then show l: "length long_text = 300" by (simp add: long_text_def)
  show a: "str_is_ascii long_text" by (simp add: long_text_def str_is_ascii_def list_all_iff)
  show c: "chars long_text = map (\<lambda>b. [b]) long_text" by (rule ascii_chars_map [OF a])
  show "char_count long_text = 300" by (simp add: c l)
  show "valid_utf8 long_text" unfolding valid_utf8_def c by (simp add: long_text_def list_all_iff)
qed

text \<open>A document without normalizer and added tokens.\<close>

definition plain_doc :: chunk_document where
  "plain_doc = \<lparr>cd_bytes = [123, 125], cd_parse = (\<lambda>_. Ok (JObject [])), cd_print = (\<lambda>_. [])\<rparr>"

definition demo_planner :: "sync_boundary \<Rightarrow> reference option \<Rightarrow> chunk_encoder" where
  "demo_planner b rule = \<lparr>ce_boundary = b, ce_guard = guard_new [], ce_mode = Some NormalizerNone,
     ce_refusal = None, ce_rule = rule\<rparr>"

abbreviation plain_planner :: chunk_encoder where
  "plain_planner \<equiv> demo_planner (fe_boundary byte_cpu) None"

lemma demo_planner_sel [simp]:
  "ce_boundary (demo_planner b rule) = b" "ce_guard (demo_planner b rule) = guard_new []"
  "ce_refusal (demo_planner b rule) = None" "ce_rule (demo_planner b rule) = rule"
  by (simp_all add: demo_planner_def)

definition plain_cell :: "nat chunk_cell" where
  "plain_cell = \<lparr>ck_planner = None, ck_memo = (\<lambda>_. None), ck_free = [], ck_forked = 0, ck_engine = byte_start\<rparr>"

lemma plain_doc_sel: "doc_literals plain_doc = []" "doc_planner plain_doc byte_cpu = Ok plain_planner"
  by (simp_all add: doc_literals_def plain_doc_def face_literals_def added_rows_def json_get_def chunk_encoder_new_def
      normalizer_mode_of_def normalizer_shape_def demo_planner_def)

lemma plain_ok: "cell_ok plain_doc byte_cpu plain_cell" "normalizer_calm (fe_reference byte_cpu)"
  by (simp_all add: cell_ok_def plain_cell_def normalizer_calm_def byte_reference_def byte_tokenizer_def ref_normalize_def)

text \<open>A planner whose classes hold the pair at 150 and whose normalizer answers.\<close>

definition demo_ready :: "sync_boundary \<Rightarrow> reference option \<Rightarrow> bool" where
  "demo_ready b rule \<longleftrightarrow> sync_accepts b [97] [32]
     \<and> (case rule of None \<Rightarrow> True | Some r \<Rightarrow> \<forall>x. \<exists>y. ref_normalize r x = Ok y)"

lemma plain_ready: "demo_ready (fe_boundary byte_cpu) None"
proof -
  have c: "sync_class (fe_boundary byte_cpu) [97] = 2" "sync_class (fe_boundary byte_cpu) [32] = 1"
    by (subst byte_sync; simp add: n_codepoints_def byte_class_def)+
  then show ?thesis by (simp add: demo_ready_def sync_accepts_def)
qed

lemma demo_plans:
  assumes "demo_ready b rule"
  shows "plans (demo_planner b rule) [] long_text" "\<not> rule_fails (demo_planner b rule)"
  using assms outcome.distinct(1,3) unfolding plans_def rule_fails_def demo_ready_def normalizer_calm_def normalizer_fails_def
  by (auto simp: long_sel split: option.splits) (metis outcome.distinct(1,3))+

lemma long_certified:
  assumes "demo_ready b rule"
  shows "plain_cut (demo_planner b rule) {} long_text 150"
proof -
  have n: "long_text ! 149 = 97" "long_text ! 150 = 32" by (simp_all add: long_text_def pairs_nth)
  have ch: "chars long_text ! (150 - 1) = [97]" "chars long_text ! 150 = [32]" using n long_sel(1) by (simp_all add: long_sel(5))
  have "calm_around b r long_text 150" for r
  proof -
    have "long_text ! i < 0x80" if "i < 300" for i
      using that long_sel(1,2) by (simp add: str_is_ascii_def list_all_length)
    then show ?thesis using long_sel(1)
      by (simp add: calm_around_def stable_pos_def stable_char_def long_sel(5) str_is_ascii_def)
  qed
  moreover have "nfc_cut b r {} long_text 150" for r using calculation by (simp add: nfc_cut_def)
  ultimately show ?thesis using assms unfolding plain_cut_def certified_def ch
    by (simp add: occurs_def long_sel demo_ready_def split: option.splits)
qed

text \<open>The plan of two chunks cuts at 150, the target.\<close>

lemma long_off [simp]: "i \<le> 300 \<Longrightarrow> char_off long_text i = i"
  using char_off_ascii [of long_text i] ascii_chars [OF long_sel(2)] long_sel(1) by simp

lemma long_cut:
  assumes d: "demo_ready b rule" and m: "memo_fine (demo_planner b rule) m"
  shows "\<exists>m' misses literals norms. chunk_planned (demo_planner b rule) long_text 2 None 4096 m = (m', Ok \<lparr>cp_spans = [(0, 150), (150, 300)],
    cp_byte_spans = [(0, 150), (150, 300)], cp_k = 2, cp_chars = 300, cp_cut_misses = misses,
    cp_literal_rejects = literals, cp_norm_rejects = norms\<rparr>)"
proof -
  let ?ce = "demo_planner b rule"
  define start where "start = (seek_new long_text, \<lparr>sn_memo = m, sn_literal = 0, sn_norm = 0\<rparr>)"
  have so: "search_ok ?ce long_text start" by (simp add: start_def search_ok_def seek_new_ok m)
  obtain c r where w: "scan_window ?ce 300 (plan_margin ?ce) 102 150 start = (c, r)" by fastforce
  have "meets (rule_fails ?ce) (search_ok ?ce long_text) (hit_ok ?ce {} long_text 102 150) (c, r)"
    using scan_window_meets [OF demo_plans(1) [OF d] so, of 102 150] unfolding w [symmetric] by (simp add: long_sel)
  then obtain win found where r: "r = Ok (win, found)" and hit: "hit_ok ?ce {} long_text 102 150 (win, found)"
    using demo_plans(2) [OF d] by (cases r) (auto simp: meets_def)
  have "\<exists>p. found = Some p \<and> 150 \<le> p" using hit long_certified [OF d] by (simp add: hit_ok_def found_in_def)
  then have f: "found = Some 150" and b: "wn_byte_of win 150 = (Ok (char_off long_text 150) :: (string, nat) outcome)"
    using hit by (auto simp: hit_ok_def found_in_def)
  have cut: "find_cut ?ce 300 (plan_margin ?ce) 48 4096 0 150 start = (c, Ok (win, Some 150))"
    using w [unfolded r f] by (simp add: find_cut_def Let_def)
  show ?thesis
    using count_chars_eq [OF long_sel(3)] cut b
    by (simp add: chunk_planned_def plan_counted_def long_sel min_text_chars_def chunk_floor_def Let_def quick_scan_def
        plan_step_def start_def [symmetric] upt_rec)
qed

section \<open>The rows\<close>

lemma byte_ids:
  assumes "length x \<le> u64_max"
  shows "full_ids_with_source byte_cpu x (st, w) = ((count_path st ''gigatoken_full'' None 0 0 0, Suc w), Ok (map ucast x, Gigatoken))"
proof -
  have len: "tokens_len (replicate 256 1) (map ucast ys) = length ys" for ys :: str
    using unat_byte_less by (induction ys) simp_all
  have "tokens_known (replicate 256 1) (map ucast x)"
    using unat_byte_less by (simp add: tokens_known_def list_all_iff)
  then have "x = [] \<or> close_cursor (replicate 256 1) 0 (map ucast x) = Ok (length x)"
    using assms len [of x] close_cursor_Ok [of "replicate 256 1" 0 "map ucast x" "length x"] by simp
  then have "ids_close_over_text (map ucast x) (replicate 256 1) x = Ok ()"
    by (auto simp: ids_close_over_text_def)
  moreover have "gt_encode byte_gigatoken w x = (Suc w, map ucast x)" by (simp add: byte_gigatoken_def)
  ultimately show ?thesis using byte_table
    by (simp add: full_ids_with_source_def guarded_full_with_def fast_ids_with_def fast_with_def require_byte_identity_def
        ref_verify_ids_close_def)
qed

lemma long_slices:
  "str_slice long_text 0 150 = (Ok (take 150 long_text) :: (string, str) outcome)"
  "str_slice long_text 150 300 = (Ok (drop 150 long_text) :: (string, str) outcome)"
proof -
  have a: "str_slice long_text 0 150 = (Ok (sub_text long_text 0 150) :: (string, str) outcome)"
    using str_slice_off [of 0 150 long_text] by (simp add: sub_text_def)
  have b: "str_slice long_text 150 300 = (Ok (sub_text long_text 150 300) :: (string, str) outcome)"
    using str_slice_off [of 150 300 long_text] by (simp add: sub_text_def)
  show "str_slice long_text 0 150 = (Ok (take 150 long_text) :: (string, str) outcome)" using a str_slice_Ok [OF a] by simp
  show "str_slice long_text 150 300 = (Ok (drop 150 long_text) :: (string, str) outcome)"
    using b str_slice_Ok [OF b] long_sel(1) by simp
qed

text \<open>The rows of the two chunks, one after the other or interleaved.\<close>

lemma long_rows:
  assumes "cp_byte_spans plan = [(0, 150), (150, 300)]" "ck_free c = []" "schedule = [0, 1, 1, 0, 0, 1]"
  shows "\<exists>c' out. chunked_rows byte_cpu schedule long_text 2 plan c = Some (c', Ok out)"
proof -
  have "length (take 150 long_text) \<le> u64_max" "length (drop 150 long_text) \<le> u64_max" by (simp_all add: long_sel)
  note ids = byte_ids [OF this(1)] byte_ids [OF this(2)]
  show ?thesis using assms
    by (simp add: chunked_rows_def rows_start_def chunk_row_step_def chunk_checkout_def chunk_checkin_def ids long_slices
        rows_over_def Let_def numeral_2_eq_2)
qed

lemma plain_memo: "memo_fine plain_planner m"
  by (simp add: memo_fine_def)

lemma plain_planned: "chunk_planner plain_doc byte_cpu plain_cell
    = (plain_cell\<lparr>ck_planner := Some (Ok plain_planner)\<rparr>, Ok plain_planner)"
  using plain_doc_sel(2) by (simp add: chunk_planner_def plain_cell_def Let_def)

lemma long_encoded: "\<exists>c' out. chunked_encode_ids plain_doc byte_cpu [0, 1, 1, 0, 0, 1] long_text 2 None 4096 plain_cell = Some (c', Ok out)"
proof -
  let ?c = "plain_cell\<lparr>ck_planner := Some (Ok plain_planner)\<rparr>"
  obtain m' plan where p: "plan_counted plain_planner long_text 300 2 None 4096 (ck_memo ?c) = (m', Ok plan)"
    "length (cp_spans plan) = 2" "cp_byte_spans plan = [(0, 150), (150, 300)]"
    using long_cut [OF plain_ready, of "ck_memo ?c"] plain_memo count_chars_eq [OF long_sel(3)] by (auto simp: chunk_planned_def long_sel)
  have rows: "\<exists>c' out. chunked_rows byte_cpu [0, 1, 1, 0, 0, 1] long_text 2 plan (?c\<lparr>ck_memo := m'\<rparr>) = Some (c', Ok out)"
    by (rule long_rows) (simp_all add: p(3) plain_cell_def)
  have "chunked_encode_ids plain_doc byte_cpu [0, 1, 1, 0, 0, 1] long_text 2 None 4096 plain_cell
      = chunked_rows byte_cpu [0, 1, 1, 0, 0, 1] long_text 2 plan (?c\<lparr>ck_memo := m'\<rparr>)"
    using plain_planned p count_chars_eq [OF long_sel(3)]
    by (simp add: chunked_encode_ids_def long_sel min_text_chars_def Let_def)
  then show ?thesis using rows by simp
qed

end
