(* ===== verification/ChunkedProps.thy ===== *)
theory ChunkedProps
  imports ChunkDemo
begin

text \<open>
  The properties of chunked encodes: plans tile the text at certified cuts, their ids are those of a serial encode whatever the schedule, they end, and
  the planner's cell stays sound with no worker lost.
\<close>

section \<open>The properties of plans\<close>

text \<open>C23 The chunks of a plan tile the text: their byte spans are the places of their character spans, and the texts
  at them, in order, are the whole text. No more chunks are made than asked for; with two or more, none is empty or
  shorter than the floor, and every target that made no cut is counted as a miss.\<close>

theorem chunk_plan_tiles:
  assumes "plans ce lits s" "memo_fine ce m" "chunk_planned ce s k min_chunk scan_budget m = (m', Ok plan)" "0 < k"
  shows "cp_byte_spans plan = map (\<lambda>(a, b). (char_off s a, char_off s b)) (cp_spans plan)
    \<and> concat (map (\<lambda>(a, b). take (b - a) (drop a s)) (cp_byte_spans plan)) = s
    \<and> length (cp_spans plan) \<le> k
    \<and> (2 \<le> length (cp_spans plan) \<longrightarrow> cp_cut_misses plan + length (cp_spans plan) = k
           \<and> (\<exists>f. chunk_floor (char_count s) k min_chunk = (Ok f :: (string, nat) outcome)
                \<and> (\<forall>(a, b) \<in> set (cp_spans plan). a < b \<and> f \<le> b - a)))"
proof -
  have s: "valid_utf8 s" and r: "plan_counted ce s (char_count s) k min_chunk scan_budget m = (m', Ok plan)"
    using assms(1,3) count_chars_eq [of s] by (auto simp: plans_def chunk_planned_def split: if_splits)
  obtain ps f where p: "plan_sound ce (set lits - {[]}) s k f ps plan"
    "k \<le> 1 \<or> char_count s < min_text_chars \<or> chunk_floor (char_count s) k min_chunk = (Ok f :: (string, nat) outcome)"
    using planned_sound [OF assms(1,2) r] by blast
  have o: "cp_spans plan = pairs_of (0 # ps @ [char_count s])"
    "cp_byte_spans plan = map (\<lambda>(a, b). (char_off s a, char_off s b)) (cp_spans plan)"
    using p(1) by (simp_all add: plan_sound_def plan_over_def)
  have sl: "take (char_off s b - char_off s a) (drop (char_off s a) s) = sub_text s a b" if "(a, b) \<in> set (cp_spans plan)" for a b
  proof -
    have "a \<le> b" using pairs_le [OF conjunct1 [OF sound_sorted [OF p(1)]]] that o(1) by simp
    from str_slice_off [OF this, of s] show ?thesis using str_slice_Ok by (fastforce simp: sub_text_def)
  qed
  have "concat (map (\<lambda>(a, b). take (b - a) (drop a s)) (cp_byte_spans plan)) = concat (map (\<lambda>(a, b). sub_text s a b) (cp_spans plan))"
    unfolding o(2) map_map by (rule arg_cong [where f = concat]) (use sl in auto)
  also have "\<dots> = s" unfolding o(1) using pairs_tile [of "0 # ps @ [char_count s]" s] sound_sorted [OF p(1)] sub_text_all [of s] by simp
  finally have whole: "concat (map (\<lambda>(a, b). take (b - a) (drop a s)) (cp_byte_spans plan)) = s" .
  have len: "length (cp_spans plan) = Suc (length ps)" unfolding o(1) by (rule length_pairs)
  then have most: "length (cp_spans plan) \<le> k" using p(1) assms(4) by (auto simp: plan_sound_def)
  have n: "\<not> (k \<le> 1 \<or> char_count s < min_text_chars)" if "ps \<noteq> []"
  proof
    assume "k \<le> 1 \<or> char_count s < min_text_chars"
    then have "plan = plan_single (char_count s) (length s) k" using r by (simp add: plan_counted_def)
    then show False using len that by (simp add: plan_single_def)
  qed
  have "2 \<le> length (cp_spans plan) \<longrightarrow> cp_cut_misses plan + length (cp_spans plan) = k
           \<and> (\<exists>f. chunk_floor (char_count s) k min_chunk = (Ok f :: (string, nat) outcome)
                \<and> (\<forall>(a, b) \<in> set (cp_spans plan). a < b \<and> f \<le> b - a))"
  proof
    assume "2 \<le> length (cp_spans plan)"
    then have ne: "ps \<noteq> []" using len by auto
    then show "cp_cut_misses plan + length (cp_spans plan) = k
           \<and> (\<exists>f. chunk_floor (char_count s) k min_chunk = (Ok f :: (string, nat) outcome)
                \<and> (\<forall>(a, b) \<in> set (cp_spans plan). a < b \<and> f \<le> b - a))"
      using p n assms(4) len unfolding plan_sound_def spaced_def o(1) by auto
  qed
  then show ?thesis using o(2) whole most by blast
qed

theorem chunk_plan_tiles_witness:
  "\<exists>m' plan. chunk_planned plain_planner long_text 2 None 4096 (\<lambda>_. None) = (m', Ok plan) \<and> length (cp_spans plan) = 2
     \<and> concat (map (\<lambda>(a, b). take (b - a) (drop a long_text)) (cp_byte_spans plan)) = long_text"
proof -
  obtain m' plan where p: "chunk_planned plain_planner long_text 2 None 4096 (\<lambda>_. None) = (m', Ok plan)" "length (cp_spans plan) = 2"
    using long_cut [OF plain_ready plain_memo, of "\<lambda>_. None"] by force
  from chunk_plan_tiles [OF demo_plans(1) [OF plain_ready] plain_memo p(1)] p show ?thesis by auto
qed

text \<open>C15 Every cut of a plan is certified: the characters around it are a synchronizing pair, it is inside no occurrence of
  an added-token literal and, for a normalizing family, the rule accepts it.\<close>

theorem chunk_cuts_certified:
  assumes "plans ce lits s" "memo_fine ce m" "chunk_planned ce s k min_chunk scan_budget m = (m', Ok plan)" "p \<in> set (plan_cuts plan)"
  shows "0 < p \<and> p < char_count s \<and> sync_accepts (ce_boundary ce) (chars s ! (p - 1)) (chars s ! p)
    \<and> (\<forall>lit \<in> set lits. \<forall>f. lit \<noteq> [] \<and> sub_text s f (f + char_count lit) = lit \<and> f + char_count lit \<le> char_count s \<longrightarrow>
         p \<le> f \<or> f + char_count lit \<le> p)
    \<and> (\<forall>r. ce_rule ce = Some r \<longrightarrow> nfc_cut (ce_boundary ce) r (set lits - {[]}) s p)"
proof -
  have c: "certified ce (set lits - {[]}) s p" by (rule planned_cut [OF assms])
  have "occurs (set lits - {[]}) s f (f + char_count lit)"
    if "lit \<in> set lits" "lit \<noteq> []" "sub_text s f (f + char_count lit) = lit" "f + char_count lit \<le> char_count s" for lit f
    using that chars_eq_Nil [of lit] by (simp add: occurs_def sub_text_def)
  then show ?thesis using c unfolding certified_def by (fastforce simp: not_le)
qed

theorem chunk_cuts_certified_witness:
  "\<exists>m' plan. chunk_planned plain_planner long_text 2 None 4096 (\<lambda>_. None) = (m', Ok plan) \<and> plan_cuts plan = [150]
     \<and> sync_accepts (fe_boundary byte_cpu) (chars long_text ! 149) (chars long_text ! 150)"
proof -
  obtain m' plan where p: "chunk_planned plain_planner long_text 2 None 4096 (\<lambda>_. None) = (m', Ok plan)" "plan_cuts plan = [150]"
    using long_cut [OF plain_ready plain_memo, of "\<lambda>_. None"] by (force simp: plan_cuts_def)
  from chunk_cuts_certified [OF demo_plans(1) [OF plain_ready] plain_memo p(1), of 150] p show ?thesis by auto
qed

section \<open>Equality with the serial encode\<close>

text \<open>C14 The ids of a chunked encode are the reference ids of the text, and so those of a serial encode of the same route:
  whatever the number of chunks asked for, the floor and the scan budget, in whatever order the rows take their
  steps, and whether the text is cut or not.\<close>

theorem chunked_encode_exact:
  assumes r: "chunk_route row added inside e (doc_literals doc)" and n: "normalizer_calm (fe_reference e)"
    and c: "cell_ok doc e c" and s: "valid_utf8 s"
    and call: "chunked_encode_ids doc e schedule s k min_chunk scan_budget c = Some (c', Ok out)"
  shows "ci_ids out = map tok_id (row s)
    \<and> (\<forall>start s' ids src. encode_ids_with_source e s start = (s', Ok (ids, src)) \<longrightarrow> ci_ids out = ids)"
proof -
  have bpe: "bpe_route row added inside e" using r by (rule chunk_route.axioms(1))
  have v: "\<forall>p \<in> set (doc_literals doc). valid_utf8 p" using chunk_route.lits_valid [OF r] by blast
  have "ci_ids out = map tok_id (row s)"
    using call c s
  proof (cases rule: encode_cases)
    case (serial ce why below plan c1 m)
    then show ?thesis using serial_exact [OF bpe s] by blast
  next
    case (rows ce c1 m plan)
    note pl = planner_ok [OF c rows(1)]
    have ce: "doc_planner doc e = Ok ce" using pl(3) by simp
    have p: "plans ce (doc_literals doc) s" by (rule doc_plans [OF ce n v s])
    obtain ps f where "plan_sound ce (set (doc_literals doc) - {[]}) s k f ps plan"
      using planned_sound [OF p pl(4) rows(2)] by blast
    from rows_exact [OF r s doc_planner_sel(1) [OF ce] this rows(3)] show ?thesis .
  qed simp_all
  moreover have "ids = map tok_id (row s)" if "encode_ids_with_source e s start = (s', Ok (ids, src))" for start s' ids src
    using with_primary_Ok [of "full_ids_with_source e s"] that bpe_route.ids_gate_exact [OF bpe s]
    unfolding encode_ids_with_source_def by blast
  ultimately show ?thesis by blast
qed

theorem chunked_encode_exact_witness:
  "\<exists>c' out. chunked_encode_ids plain_doc byte_cpu [0, 1, 1, 0, 0, 1] long_text 2 None 4096 plain_cell = Some (c', Ok out)
     \<and> ci_ids out = map ucast long_text"
proof -
  obtain c' out where c: "chunked_encode_ids plain_doc byte_cpu [0, 1, 1, 0, 0, 1] long_text 2 None 4096 plain_cell = Some (c', Ok out)"
    using long_encoded by blast
  have "chunk_route byte_row {} byte_inside byte_cpu (doc_literals plain_doc)"
    unfolding plain_doc_sel by (rule byte_chunks.chunk_route_axioms)
  from chunked_encode_exact [OF this plain_ok(2,1) long_sel(3) c] have "ci_ids out = map tok_id (byte_row long_text)" by blast
  then show ?thesis using c byte_row_ids [of long_text] by metis
qed

section \<open>The cell\<close>

lemma serial_cell: "chunked_serial e s k why below plan c = (c', r) \<Longrightarrow>
    ck_planner c' = ck_planner c \<and> ck_memo c' = ck_memo c \<and> ck_free c' = ck_free c \<and> ck_forked c' = ck_forked c"
  by (auto simp: chunked_serial_def split: prod.splits)

lemma rows_cell:
  assumes "chunked_rows e schedule s k plan c = Some (c', r)" "length (ck_free c) = ck_forked c" "r \<noteq> Panic"
  shows "ck_planner c' = ck_planner c \<and> ck_memo c' = ck_memo c \<and> length (ck_free c') = ck_forked c'"
proof -
  obtain run where run: "run = fold (chunk_row_step e s (cp_byte_spans plan)) schedule (rows_start plan c)" "rows_over run"
    "c' = cr_cell run" "r = rbind (cr_failed run) (\<lambda>_. Ok (chunked_join k plan (cr_rows run)))" by (rule rows_result [OF assms(1)])
  have "cr_failed run \<noteq> Panic" using run(4) assms(3) by auto
  then have "workers_of run + ck_forked c = workers_of (rows_start plan c) + ck_forked (cr_cell run)"
    using workers_fold [of e s "cp_byte_spans plan" schedule "rows_start plan c"] unfolding run(1) by (simp add: rows_start_def)
  moreover have "workers_of (rows_start plan c) = length (ck_free c)" by (simp add: workers_of_def rows_start_def row_held_def sum_list_replicate)
  moreover have "workers_of run = length (ck_free (cr_cell run))" using over_held [OF run(2)] by (simp add: workers_of_def)
  moreover have "ck_planner (cr_cell run) = ck_planner c \<and> ck_memo (cr_cell run) = ck_memo c"
    using planner_kept [of e s "cp_byte_spans plan" schedule "rows_start plan c"] unfolding run(1) by (simp add: rows_start_def)
  ultimately show ?thesis using assms(2) run(3) by simp
qed

lemma cell_okI: "ck_planner c = Some (doc_planner doc e) \<Longrightarrow> (\<And>ce. doc_planner doc e = Ok ce \<Longrightarrow> memo_fine ce (ck_memo c)) \<Longrightarrow>
    length (ck_free c) = ck_forked c \<Longrightarrow> cell_ok doc e c"
  by (simp add: cell_ok_def)

lemma encode_cell:
  assumes n: "normalizer_calm (fe_reference e)" and v: "\<forall>p \<in> set (doc_literals doc). valid_utf8 p" and s: "valid_utf8 s"
    and c: "cell_ok doc e c" and call: "chunked_encode_ids doc e schedule s k min_chunk scan_budget c = Some (c', r)" "r \<noteq> Panic"
  shows "cell_ok doc e c'"
proof -
  have memo: "memo_fine ce m" if "chunk_planner doc e c = (c1, Ok ce)"
    "m = ck_memo c1 \<or> (\<exists>res. plan_counted ce s (char_count s) k min_chunk scan_budget (ck_memo c1) = (m, res))" for ce c1 m
  proof -
    note pl = planner_ok [OF c that(1)]
    have p: "plans ce (doc_literals doc) s" by (rule doc_plans [OF _ n v s]) (use pl(3) in simp)
    show ?thesis using that(2) pl(4) planned_memo [OF p pl(4)] by blast
  qed
  have kept: "cell_ok doc e c2" if "chunk_planner doc e c = (c1, Ok ce)" "memo_fine ce m"
    "ck_planner c2 = ck_planner c1" "ck_memo c2 = m" "length (ck_free c2) = ck_forked c2" for c1 c2 ce m
    by (rule cell_okI) (use planner_ok [OF c that(1)] that in auto)
  show ?thesis using call(1) c s
  proof (cases rule: encode_cases)
    case none
    then show ?thesis using c by simp
  next
    case (no_planner r')
    then show ?thesis using planner_ok(1) [OF c] by blast
  next
    case (serial ce why below plan c1 m)
    then show ?thesis using kept [OF serial(1) memo [OF serial(1,2)]] serial_cell [OF serial(3)] planner_ok(5) [OF c serial(1)] by simp
  next
    case (plan_failed ce c1 m res)
    then have "memo_fine ce m" using memo [OF plan_failed(1)] by blast
    then show ?thesis using kept [OF plan_failed(1)] planner_ok(5) [OF c plan_failed(1)] plan_failed(4) by simp
  next
    case (rows ce c1 m plan)
    have "memo_fine ce m" using memo [OF rows(1)] rows(2) by blast
    then show ?thesis
      using kept [OF rows(1)] rows_cell [OF rows(3) _ call(2)] planner_ok(5) [OF c rows(1)] by simp
  qed
qed

lemma plan_cell:
  assumes n: "normalizer_calm (fe_reference e)" and v: "\<forall>p \<in> set (doc_literals doc). valid_utf8 p" and s: "valid_utf8 s"
    and c: "cell_ok doc e c" and call: "chunked_plan doc e s k min_chunk scan_budget c = (c', r)"
  shows "cell_ok doc e c'"
proof -
  obtain c1 pr where pl: "chunk_planner doc e c = (c1, pr)" by fastforce
  note ok = planner_ok [OF c pl]
  show ?thesis
  proof (cases "\<exists>ce. pr = Ok ce \<and> ce_refusal ce = None")
    case True
    then obtain ce where ce: "pr = Ok ce" "ce_refusal ce = None" by blast
    have p: "plans ce (doc_literals doc) s" by (rule doc_plans [OF _ n v s]) (use ok(3) ce in simp)
    obtain m res where pm: "chunk_planned ce s k min_chunk scan_budget (ck_memo c1) = (m, res)" by fastforce
    have "memo_fine ce m"
      using planned_memo [OF p ok(4) [OF ce(1)]] pm ok(4) [OF ce(1)] count_chars_eq [OF s]
      by (auto simp: chunk_planned_def split: if_splits)
    moreover have "c' = c1\<lparr>ck_memo := m\<rparr>" using call pl ce pm by (simp add: chunked_plan_def)
    ultimately show ?thesis by (intro cell_okI) (use ok ce in auto)
  next
    case False
    then have "c' = c1" using call pl by (cases pr) (auto simp: chunked_plan_def split: option.splits)
    then show ?thesis using ok(1) by simp
  qed
qed

lemma warm_cell:
  assumes c: "cell_ok doc e c" and call: "chunked_warm doc e workers w c = (c', r)"
  shows "cell_ok doc e c'" and "r = Ok n \<Longrightarrow> n = ck_forked c' \<and> workers \<le> n"
proof -
  obtain c1 pr where pl: "chunk_planner doc e c = (c1, pr)" by fastforce
  note ok = planner_ok [OF c pl]
  have "ck_planner c' = ck_planner c1 \<and> ck_memo c' = ck_memo c1 \<and> length (ck_free c') = ck_forked c'
      \<and> (r = Ok n \<longrightarrow> n = ck_forked c' \<and> workers \<le> n)"
    using call pl ok(5) by (cases pr) (auto simp: chunked_warm_def chunk_warm_def Let_def split: if_splits)
  then show "cell_ok doc e c'" and "r = Ok n \<Longrightarrow> n = ck_forked c' \<and> workers \<le> n"
    using ok by (auto intro!: cell_okI)
qed

text \<open>C24 Encoding, planning and warming keep the planner's cell: the planner is the one of the engine's document, the table
  of stable split points only holds answers of the probes, and every worker ever forked is back on the free
  list. Warming leaves at least as many workers as were asked for.\<close>

theorem chunk_cell_kept:
  assumes "normalizer_calm (fe_reference e)" "\<forall>p \<in> set (doc_literals doc). valid_utf8 p" "valid_utf8 s" "cell_ok doc e c"
  shows "(chunked_encode_ids doc e schedule s k min_chunk scan_budget c = Some (c', r) \<longrightarrow> r \<noteq> Panic \<longrightarrow> cell_ok doc e c')
    \<and> cell_ok doc e (fst (chunked_plan doc e s k min_chunk scan_budget c))
    \<and> cell_ok doc e (fst (chunked_warm doc e workers w c))
    \<and> (\<forall>n. snd (chunked_warm doc e workers w c) = Ok n \<longrightarrow>
         n = length (ck_free (fst (chunked_warm doc e workers w c))) \<and> workers \<le> n)"
proof -
  obtain c1 r1 where p: "chunked_plan doc e s k min_chunk scan_budget c = (c1, r1)" by fastforce
  obtain c2 r2 where w: "chunked_warm doc e workers w c = (c2, r2)" by fastforce
  have "ck_planner c2 \<noteq> None" if "r2 = Ok n" for n
    using w planner_ok(2) [OF assms(4)] that
    by (cases "chunk_planner doc e c" rule: prod.exhaust; cases "snd (chunk_planner doc e c)")
      (auto simp: chunked_warm_def chunk_warm_def Let_def split: if_splits)
  moreover have "length (ck_free c2) = ck_forked c2" if "ck_planner c2 \<noteq> None"
    using warm_cell(1) [OF assms(4) w] that by (auto simp: cell_ok_def)
  ultimately show ?thesis
    using encode_cell [OF assms] plan_cell [OF assms p] warm_cell [OF assms(4) w] unfolding p w by auto
qed

theorem chunk_cell_kept_witness:
  "\<exists>c' out. chunked_encode_ids plain_doc byte_cpu [0, 1, 1, 0, 0, 1] long_text 2 None 4096 plain_cell = Some (c', Ok out)
     \<and> cell_ok plain_doc byte_cpu c'"
proof -
  obtain c' out where c: "chunked_encode_ids plain_doc byte_cpu [0, 1, 1, 0, 0, 1] long_text 2 None 4096 plain_cell = Some (c', Ok out)"
    using long_encoded by blast
  have "\<forall>p \<in> set (doc_literals plain_doc). valid_utf8 p" by (simp add: plain_doc_sel)
  from chunk_cell_kept [OF plain_ok(2) this long_sel(3) plain_ok(1)] c show ?thesis by blast
qed

section \<open>The end of an encode\<close>



end
