(* ===== verification/ChunkNorm.thy ===== *)
theory ChunkNorm
  imports ChunkDemo
begin

text \<open>
  What the normalization rule is for: a cut it accepts is a certified cut of the normalized text.
\<close>

section \<open>The law of the normalizer\<close>

text \<open>The normalizer computes \<open>f\<close> on the texts; it leaves an ASCII character alone, and nothing before a stable split point
  composes or reorders with what stands from it on.\<close>

definition splits_stably :: "sync_boundary \<Rightarrow> reference \<Rightarrow> (str \<Rightarrow> str) \<Rightarrow> bool" where
  "splits_stably b r f \<longleftrightarrow> (\<forall>x. ref_normalize r x = Ok (f x)) \<and> (\<forall>x. valid_utf8 x \<longrightarrow> valid_utf8 (f x))
     \<and> (\<forall>a. a < 0x80 \<longrightarrow> f [a] = [a])
     \<and> (\<forall>x y. valid_utf8 x \<and> valid_utf8 y \<and> y \<noteq> [] \<and> stable_char b r (hd (chars y)) \<longrightarrow> f (x @ y) = f x @ f y)"

lemma stable_self:
  assumes "splits_stably b r f" "stable_char b r c" "valid_scalar c"
  shows "f c = c"
proof (cases "str_is_ascii c")
  case True
  then obtain a where "c = [a]" "a < 0x80" using scalar_range [OF assms(3)] assms(3)
    by (induction c rule: valid_scalar.induct) (auto simp: str_is_ascii_def word_less_nat_alt word_le_nat_alt)
  then show ?thesis using assms(1) by (simp add: splits_stably_def)
next
  case False
  then have "stable_verdict b r c = Ok True" using assms(2) by (simp add: stable_char_def)
  then have "probe r [] c [] = Ok True" by (auto simp: stable_verdict_def rbind_eq_Ok split: if_splits)
  then show ?thesis using assms(1) by (simp add: splits_stably_def probe_def)
qed

lemma normal_nil: "splits_stably b r f \<Longrightarrow> f [] = []"
proof -
  assume f: "splits_stably b r f"
  have "valid_utf8 []" "valid_utf8 [97]" "stable_char b r (hd (chars [97]))" by (simp_all add: valid_utf8_def stable_char_def str_is_ascii_def)
  then have "f ([] @ [97]) = f [] @ f [97]" using f unfolding splits_stably_def by (metis list.discI)
  then show ?thesis by simp
qed

lemma normal_split:
  assumes "splits_stably b r f" "valid_utf8 x" "valid_utf8 y" "x = [] \<or> y = [] \<or> stable_char b r (hd (chars y))"
  shows "f (x @ y) = f x @ f y"
proof (cases "x = [] \<or> y = []")
  case True
  then show ?thesis using normal_nil [OF assms(1)] by auto
next
  case False
  then show ?thesis using assms unfolding splits_stably_def by blast
qed

section \<open>Cuts\<close>

definition normal_cut :: "sync_boundary \<Rightarrow> (str \<Rightarrow> str) \<Rightarrow> str \<Rightarrow> str \<Rightarrow> bool" where
  "normal_cut b f x y \<longleftrightarrow> f (x @ y) = f x @ f y \<and> f x \<noteq> [] \<and> f y \<noteq> []
     \<and> sync_accepts b (last (chars (f x))) (hd (chars (f y)))"

lemma ends_chars:
  assumes "valid_utf8 y" "y \<noteq> []"
  shows "last (chars (x @ y)) = last (chars y)" "valid_utf8 z \<Longrightarrow> hd (chars (y @ z)) = hd (chars y)"
  using assms chars_eq_Nil [of y] by (simp_all add: chars_append_valid)

lemma sub_text_hd: "l < p \<Longrightarrow> l < char_count s \<Longrightarrow> hd (chars (sub_text s l p)) = chars s ! l"
  by (simp add: sub_text_def chars_sub hd_drop_conv_nth)

lemma sub_text_one: "p < char_count s \<Longrightarrow> sub_text s p (Suc p) = chars s ! p"
  by (simp add: sub_text_def take_Suc_conv_app_nth Cons_nth_drop_Suc [symmetric])

lemma stable_cut:
  assumes f: "splits_stably b r f" and s: "valid_utf8 s" and p: "0 < p" "p < char_count s"
    and st: "calm_around b r s p"
    and ok: "sync_accepts b (chars s ! (p - 1)) (chars s ! p)"
  shows "normal_cut b f (text_upto s p) (text_from s p)"
proof -
  have vs: "valid_scalar (chars s ! i)" if "i < char_count s" for i using s that by (simp add: valid_utf8_def list_all_length)
  have st': "stable_char b r (chars s ! (p - 1))" "stable_char b r (chars s ! p)"
    using st p by (auto simp: stable_pos_def calm_around_def)
  have self: "f (chars s ! (p - 1)) = chars s ! (p - 1)" "f (chars s ! p) = chars s ! p"
    using stable_self [OF f] st' vs p by auto
  have vf: "valid_utf8 (f x)" if "valid_utf8 x" for x using f that by (simp add: splits_stably_def)
  have sv: "valid_utf8 (sub_text s i j)" for i j by (rule valid_sub_text [OF s])
  have upto: "text_upto s p = sub_text s 0 (p - 1) @ chars s ! (p - 1)"
    using sub_text_join [of 0 "p - 1" p s] sub_text_one [of "p - 1" s] sub_text_upto [of p s] p by simp
  have from_: "text_from s p = chars s ! p @ sub_text s (Suc p) (char_count s)"
    using sub_text_join [of p "Suc p" "char_count s" s] sub_text_one [of p s] sub_text_end [of s p] p by simp
  have hd1: "chars (chars s ! i) = [chars s ! i]" if "i < char_count s" for i
    using chars_sub [of 1 i s] sub_text_one [OF that] that by (simp add: sub_text_def take_Suc_conv_app_nth hd_drop_conv_nth)
  have u: "f (text_upto s p) = f (sub_text s 0 (p - 1)) @ chars s ! (p - 1)"
    unfolding upto by (subst normal_split [OF f sv]) (use st' self hd1 [of "p - 1"] vs p in \<open>simp_all add: valid_utf8_def\<close>)
  have rest: "sub_text s (Suc p) (char_count s) = [] \<or> stable_char b r (hd (chars (sub_text s (Suc p) (char_count s))))"
  proof (cases "Suc p < char_count s")
    case True
    then show ?thesis using st sub_text_hd [of "Suc p" "char_count s" s] by (simp add: stable_pos_def calm_around_def)
  qed (simp add: sub_text_def)
  have v: "f (text_from s p) = chars s ! p @ f (sub_text s (Suc p) (char_count s))"
    unfolding from_ by (subst normal_split [OF f _ sv]) (use rest self hd1 [of p] vs p in \<open>simp_all add: valid_utf8_def\<close>)
  have "f (text_upto s p @ text_from s p) = f (text_upto s p) @ f (text_from s p)"
    by (rule normal_split [OF f]) (use s st' p in \<open>simp_all add: hd_drop_conv_nth\<close>)
  moreover have "valid_utf8 (chars s ! i)" "chars s ! i \<noteq> []" if "i < char_count s" for i
    using hd1 [OF that] vs [OF that] by (auto simp: valid_utf8_def)
  ultimately show ?thesis using ok p hd1 unfolding normal_cut_def u v
    by (simp add: ends_chars vf sv)
qed

lemma anchored_normal:
  assumes f: "splits_stably b r f" and s: "valid_utf8 s" and w: "left < p" "p < right" "right \<le> char_count s"
    and l: "left = 0 \<or> stable_pos b r s left" and rt: "right = char_count s \<or> stable_pos b r s right"
    and a: "anchored_cut b r pats s left p right"
  shows "normal_cut b f (text_upto s p) (text_from s p)"
proof -
  have nf: "ref_normalize r x = Ok (f x)" and vf: "valid_utf8 x \<Longrightarrow> valid_utf8 (f x)" for x
    using f by (simp_all add: splits_stably_def)
  have sv: "valid_utf8 (sub_text s i j)" for i j by (rule valid_sub_text [OF s])
  let ?A = "sub_text s 0 left" and ?B = "sub_text s left p" and ?D = "sub_text s p right" and ?Z = "sub_text s right (char_count s)"
  have h: "f (?B @ ?D) = f ?B @ f ?D" "f ?B \<noteq> []" "f ?D \<noteq> []" "sync_accepts b (last (chars (f ?B))) (hd (chars (f ?D)))"
    using a sub_text_join [of left p right s] w by (auto simp: anchored_cut_def nf)
  have upto: "text_upto s p = ?A @ ?B" and from_: "text_from s p = ?D @ ?Z"
    using sub_text_join [of 0 left p s] sub_text_join [of p right "char_count s" s] sub_text_upto [of p s] sub_text_end [of s p] w by simp_all
  have sl: "?A = [] \<or> stable_char b r (hd (chars (sub_text s left j)))" if "left < j" for j
    using l that w sub_text_hd [of left j s] by (auto simp: stable_pos_def sub_text_def)
  have sr: "?Z = [] \<or> stable_char b r (hd (chars ?Z))"
    using rt w sub_text_hd [of right "char_count s" s] by (cases "right = char_count s") (auto simp: stable_pos_def sub_text_def)
  have u: "f (text_upto s p) = f ?A @ f ?B" unfolding upto by (rule normal_split [OF f sv sv]) (use sl w in blast)
  have v: "f (text_from s p) = f ?D @ f ?Z" unfolding from_ by (rule normal_split [OF f sv sv]) (use sr in blast)
  have BD: "?B @ ?D = sub_text s left right" using sub_text_join [of left p right s] w by simp
  have "f (?A @ (sub_text s left right @ ?Z)) = f ?A @ f (sub_text s left right @ ?Z)"
    by (rule normal_split [OF f sv]) (use sl [of "char_count s"] w sv sub_text_join [of left right "char_count s" s] in auto)
  also have "f (sub_text s left right @ ?Z) = f (sub_text s left right) @ f ?Z" by (rule normal_split [OF f sv sv]) (use sr in blast)
  finally have "f (text_upto s p @ text_from s p) = f (text_upto s p) @ f (text_from s p)"
    unfolding u v using h(1) unfolding BD upto from_ by (simp add: BD [symmetric])
  then show ?thesis using h unfolding normal_cut_def u v by (simp add: ends_chars vf sv)
qed

lemma certified_normal:
  assumes "splits_stably (ce_boundary ce) r f" "certified ce pats s p" "ce_rule ce = Some r" "valid_utf8 s"
  shows "normal_cut (ce_boundary ce) f (text_upto s p) (text_from s p)"
proof -
  have p: "0 < p" "p < char_count s" "sync_accepts (ce_boundary ce) (chars s ! (p - 1)) (chars s ! p)"
    and n: "nfc_cut (ce_boundary ce) r pats s p" using assms(2,3) by (simp_all add: certified_def)
  from n [unfolded nfc_cut_def] show ?thesis
    using stable_cut [OF assms(1,4) p(1,2) _ p(3)] anchored_normal [OF assms(1,4)] by blast
qed

section \<open>A normalizer\<close>

text \<open>One that composes "e" and U+0301 and knows no other pair; U+0301 is a combining mark.\<close>

fun compose :: "str list \<Rightarrow> str list" where
  "compose (c # d # cs) =
     (if c = [0x65] \<and> d = [0xCC, 0x81] then [0xC3, 0xA9] # compose cs else c # compose (d # cs))"
| "compose cs = cs"

definition compose_text :: "str \<Rightarrow> str" where
  "compose_text x = concat (compose (chars x))"

definition compose_reference :: reference where
  "compose_reference = byte_reference\<lparr>rf_tokenizer := byte_tokenizer\<lparr>tk_normalizer := Some (\<lambda>x. Ok (compose_text x))\<rparr>\<rparr>"

definition mark_boundary :: sync_boundary where
  "mark_boundary = \<lparr>sb_classes = map (\<lambda>v. if v = 769 then 4 else byte_class v) [0..<n_codepoints]\<rparr>"

lemma compose_append: "ys = [] \<or> hd ys \<noteq> [0xCC, 0x81] \<Longrightarrow> compose (xs @ ys) = compose xs @ compose ys"
  by (induction xs rule: compose.induct; cases ys) auto

lemma compose_valid: "list_all valid_scalar cs \<Longrightarrow> list_all valid_scalar (compose cs)"
  by (induction cs rule: compose.induct) (auto simp: is_cont_def)

lemma valid_scalar_chars: "valid_scalar c \<Longrightarrow> chars c = [c]"
  by (induction c rule: valid_scalar.induct) (auto simp: is_cont_unat word_le_nat_alt word_less_nat_alt)

lemma chars_of_valid: "list_all valid_scalar cs \<Longrightarrow> chars (concat cs) = cs \<and> valid_utf8 (concat cs)"
proof (induction cs)
  case (Cons c cs)
  then show ?case using valid_scalar_chars [of c] by (simp add: chars_append_valid valid_utf8_def)
qed (simp add: valid_utf8_def)

lemma mark_class: "scalar_of c < n_codepoints \<Longrightarrow> sync_class mark_boundary c = (if scalar_of c = 769 then 4 else byte_class (scalar_of c))"
  by (simp add: sync_class_def mark_boundary_def)

lemma compose_splits: "splits_stably mark_boundary compose_reference compose_text"
proof -
  have n: "ref_normalize compose_reference x = Ok (compose_text x)" for x
    by (simp add: ref_normalize_def compose_reference_def)
  have v: "valid_utf8 (compose_text x)" if "valid_utf8 x" for x
    using chars_of_valid [OF compose_valid [of "chars x"]] that unfolding valid_utf8_def compose_text_def by blast
  have a: "compose_text [a] = [a]" for a by (simp add: compose_text_def)
  have "\<not> stable_char mark_boundary compose_reference [0xCC, 0x81]"
  proof -
    have "scalar_of [0xCC, 0x81] = 769" by (simp add: unat_masks)
    then have "sync_class mark_boundary [0xCC, 0x81] = 4" by (simp add: mark_class n_codepoints_def)
    then show ?thesis by (simp add: stable_char_def stable_verdict_def str_is_ascii_def)
  qed
  then have "hd (chars y) \<noteq> [0xCC, 0x81]" if "stable_char mark_boundary compose_reference (hd (chars y))" for y
    using that by metis
  then have "compose_text (x @ y) = compose_text x @ compose_text y"
    if "valid_utf8 y" "stable_char mark_boundary compose_reference (hd (chars y))" for x y
    using compose_append [of "chars y" "chars x"] that by (simp add: compose_text_def chars_append_valid)
  then show ?thesis using n v a unfolding splits_stably_def by blast
qed

lemma compose_ready: "demo_ready mark_boundary (Some compose_reference)"
proof -
  have "sync_class mark_boundary [97] = 2" "sync_class mark_boundary [32] = 1"
    by (simp_all add: mark_class n_codepoints_def byte_class_def)
  moreover have "ref_normalize compose_reference x = Ok (compose_text x)" for x
    by (simp add: ref_normalize_def compose_reference_def)
  ultimately show ?thesis by (simp add: demo_ready_def sync_accepts_def)
qed

section \<open>The property\<close>

text \<open>C16 A cut that a normalizing family's plan makes is a certified cut of the normalized text: the text normalizes to the
  normalized halves, neither is empty, and the normalized characters that meet there are a synchronizing pair.
  The normalizer has to keep what the rule asks its probes for: that it does not compose or reorder across a
  stable split point.\<close>

theorem nfc_cuts_normalized:
  assumes "plans ce lits s" "memo_fine ce m" "chunk_planned ce s k min_chunk scan_budget m = (m', Ok plan)" "p \<in> set (plan_cuts plan)"
    and "ce_rule ce = Some r" "splits_stably (ce_boundary ce) r f"
  shows "f s = f (text_upto s p) @ f (text_from s p) \<and> f (text_upto s p) \<noteq> [] \<and> f (text_from s p) \<noteq> []
    \<and> sync_accepts (ce_boundary ce) (last (chars (f (text_upto s p)))) (hd (chars (f (text_from s p))))"
proof -
  have "valid_utf8 s" using assms(1) by (simp add: plans_def)
  from certified_normal [OF assms(6) planned_cut [OF assms(1-4)] assms(5) this] show ?thesis by (simp add: normal_cut_def)
qed

theorem nfc_cuts_normalized_witness:
  "\<exists>m' plan. chunk_planned (demo_planner mark_boundary (Some compose_reference)) long_text 2 None 4096 (\<lambda>_. None) = (m', Ok plan)
     \<and> plan_cuts plan = [150]
     \<and> compose_text long_text = compose_text (text_upto long_text 150) @ compose_text (text_from long_text 150)"
proof -
  let ?ce = "demo_planner mark_boundary (Some compose_reference)"
  have m: "memo_fine ?ce (\<lambda>_. None)" by (rule memo_fine_new)
  obtain m' plan where p: "chunk_planned ?ce long_text 2 None 4096 (\<lambda>_. None) = (m', Ok plan)" "plan_cuts plan = [150]"
    using long_cut [OF compose_ready m] by (force simp: plan_cuts_def)
  have "splits_stably (ce_boundary ?ce) compose_reference compose_text" using compose_splits by simp
  from nfc_cuts_normalized [OF demo_plans(1) [OF compose_ready] m p(1) _ _ this, of 150] p show ?thesis by auto
qed

end
