(* ===== verification/Spec2Isabelle.thy ===== *)
theory Spec2Isabelle
  imports TailFacts BindingFacts LookupFacts SafetyFacts FastFacts BatchFacts BoundaryFacts BridgeFacts RoutingFacts
    ChunkedProps ChunkNorm
begin

text \<open>
  TokTier keeps the token rows of growing texts in a session store: a text is encoded once, an append
  re-encodes only its tail, and the tokens before a cut that is safe for every continuation are sealed.
  The tokens come from an engine; the corrected CPU engine encodes an append by a window at the end of the
  text and splices it behind a run of tokens that agree. This development models the two crates that do
  this, \<^verbatim>\<open>toktier-store-core\<close> (all of it) and the CPU side of \<^verbatim>\<open>toktier-routing-core\<close>, and proves that the
  token rows are always the encoding of the text from scratch, whatever is sealed, repaired, forked,
  exchanged or refused on the way.

  The store, \<^verbatim>\<open>src/crates/toktier-store-core/src\<close>:

  \<^item> \<open>Prelude\<close>, \<open>Utf8\<close>: results (\<open>Ok\<close>, \<open>Err\<close>, \<open>Panic\<close>) and their composition, checked and wrapping integers,
    strings as UTF-8 byte lists with characters, boundaries and slices.
  \<^item> \<open>Errors\<close> (\<^verbatim>\<open>error.rs\<close>), \<open>Engine\<close> and \<open>Encoder\<close> (\<^verbatim>\<open>engine.rs\<close>): the errors with their codes and messages;
    encodings, shared token rows as views of an allocation, witness categories; the engine trait as a
    record of functions, a parameter of the store.
  \<^item> \<open>Tail\<close> (\<^verbatim>\<open>tail.rs\<close>): the tail of a session, its spans eager or lazy behind sparse checkpoints. \<open>TailSpans\<close>
    and \<open>TailOps\<close> prove the lazy spans equal to the full conversion and that every operation keeps the
    tail well formed; \<open>TailFacts\<close> has the properties.
  \<^item> \<open>Format\<close> (\<^verbatim>\<open>format.rs\<close>), \<open>Sidecar\<close> (\<^verbatim>\<open>sidecar.rs\<close>), \<open>Recovery\<close> (\<^verbatim>\<open>recovery_binding.rs\<close>): the four binary
    formats with their writers and strict readers, step by step. \<open>Codec\<close> is the contract of a format
    (locale \<open>codec\<close>), interpreted for each; \<open>FormatProps\<close>, \<open>SidecarProps\<close> and \<open>FormatFacts\<close> show it.
  \<^item> \<open>Session\<close>, \<open>Sealing\<close>, \<open>Store\<close>, \<open>Queries\<close>, \<open>Transport\<close> (\<^verbatim>\<open>store.rs\<close>): the session, the bookkeeping after a text
    change (the block hash chain and the sealing of the tail), the store with put and append, lookup, fork
    and the rows, and the exchange of records, sidecars, nodes and bindings. \<open>Table\<close> is the hash map, as a
    locale and as association lists.
  \<^item> \<open>MockEncoder\<close> (\<^verbatim>\<open>testing.rs\<close>): the deterministic engine of the repository's tests. \<open>MockProps\<close> shows that it
    meets the engine contract, so that the contract is not empty.

  The engine, \<^verbatim>\<open>src/crates/toktier-routing-core/src\<close>:

  \<^item> \<open>Routing\<close> (\<^verbatim>\<open>lib.rs\<close>): the selector of a backend by length, and its filter for added-token literals, a bit
    table over pairs of bytes.
  \<^item> \<open>Boundary\<close> (\<^verbatim>\<open>lib.rs\<close>): the table of character classes, the synchronizing transitions, the two
    backward searches for the last certified cut. \<open>BoundaryProps\<close> shows what they compute.
  \<^item> \<open>Bridge\<close>, \<open>Reference\<close> (\<^verbatim>\<open>reference.rs\<close>): the bridges from ids to character spans, and the reference
    engine around the tokenizer library. \<open>BridgeProps\<close> shows that the bridges agree.
  \<^item> \<open>FastCpu\<close>, \<open>Repair\<close>, \<open>Batch\<close> (\<^verbatim>\<open>fast_cpu.rs\<close>): the corrected CPU engine with its constructors, its guarded gate
    and counters; the append repair; batches on a pool of workers.
  \<^item> \<open>ChunkText\<close>, \<open>ChunkPlan\<close>, \<open>Chunked\<close> (\<^verbatim>\<open>chunked.rs\<close>): the encode of one large text in chunks. The planner reads the
    text through a cursor and decoded windows and cuts it at certified positions only; the chunks run
    concurrently on workers from a free list, and their ids are concatenated.

  The contracts. \<open>SessionProps\<close> has the sealed token stream as a locale \<open>id_stream\<close> and the invariant of a
  session. \<open>Contract\<close> has the engine in two steps: \<open>tail_engine\<close> keeps tails well formed, \<open>session_encoder\<close>
  computes a reference encoding and certifies its cuts; \<open>Calm\<close> adds an engine that does not panic. A
  session represents a text (\<open>represents\<close>) when its tail holds the reference encoding of its own text and its
  sealed stream is what the reference tokens begin with, whatever is appended.

  Below the engine contract stands that of the tokenizers. \<open>BpeLaws\<close> states in the locale \<open>bpe_reference\<close> what the
  repair relies on: a reference row \<open>row x\<close> of tokens with character spans in text order, which splits at every
  synchronizing transition outside an added token, and whose added tokens are those of a leftmost-longest
  extraction, none longer than \<open>l_max\<close>. \<open>bpe_route\<close> (\<open>FastProps\<close>) adds that the engine's parameters follow such a reference: the
  tokenizer library computes \<open>row\<close>, and Gigatoken computes its ids where the gate lets it. \<open>BpeSplice\<close>,
  \<open>RepairProps\<close>, \<open>RepairFacts\<close> prove the repair inside these locales, \<open>FastEncoder\<close> shows that such an engine is a
  \<open>session_encoder\<close> (a sublocale), and \<open>ByteRoute\<close> interprets the contract on the engine that the constructor
  builds for a byte-level tokenizer, on which \<open>FastDemo\<close> runs. \<open>chunk_route\<close> (\<open>ChunkRoute\<close>) extends it by the literals of
  the tokenizer document: an added token of a row stands at an occurrence of one of them.

  What is shown. Of the store: \<open>SealProps\<close>, \<open>AppendProps\<close>, \<open>StoreProps\<close>, \<open>Sessions\<close>, \<open>Rows\<close>: what each operation leaves
  behind, on success and on every error path. \<open>Population\<close> and \<open>Reach\<close>: a step relation of a store under its
  clients, with the texts they know of, and its invariant; every call may bring any engine of its key.
  \<open>Cache\<close>, \<open>Intact\<close>, \<open>Calm\<close>: the whole interface with any engines and untrusted bytes; the store stays in good
  order and never panics. \<open>Demo\<close> is a concrete run, on which the properties are tried. Of the engine: \<open>FastLive\<close>
  and \<open>FastFacts\<close>: every encode and every append is the reference's and answers when the reference does, its
  cuts are safe, and a store served by it holds reference rows; \<open>BatchFacts\<close>: batches, under every
  interleaving; \<open>BoundaryFacts\<close>, \<open>BridgeFacts\<close>, \<open>RoutingFacts\<close>: the searches, the bridges, the selector. Of the chunked
  encodes: \<open>ChunkText\<close> and \<open>ChunkGuard\<close> show that windows are slices of the text and that the guard finds every
  occurrence of a literal, \<open>ChunkRule\<close> that the memo table of the normalization rule does not change its answers,
  \<open>ChunkCuts\<close> that plans tile the text at certified cuts, \<open>ChunkRun\<close> what the rows hold at
  every step; \<open>ChunkedFacts\<close> and \<open>ChunkedProps\<close> conclude that the ids are those of a serial encode, and \<open>ChunkNorm\<close> that
  cuts of a normalizing family are cuts of the normalized text; \<open>ChunkDemo\<close> is a run with one cut. The other
  properties stand in \<open>StoreFacts\<close>, \<open>TransportFacts\<close>, \<open>BindingFacts\<close>, \<open>LookupFacts\<close>, \<open>EngineFacts\<close>, \<open>TailFacts\<close>,
  \<open>FormatFacts\<close>, \<open>SafetyFacts\<close> and below.

  Conventions. The hash functions (SHA-256, truncated BLAKE3), \<^verbatim>\<open>char::is_alphabetic\<close>, the tokenizer
  library, the loaded Gigatoken core and, for the store, the engine are parameters; no property assumes a
  collision to be impossible, those that depend on it say so. Sizes are natural numbers with the checks of the code written out; unchecked arithmetic on values read from
  records wraps (\<open>add64\<close>, \<open>sub32\<close>), as in a release build. The order in which a hash map is traversed is
  only used where the code sorts or takes a minimum. Every loop of the code is a total function: the
  eviction ends because the table shrinks, the chain because the blocks advance, the mark loop because
  the next mark doubles, the repair because its retries are bounded, the seal window because it doubles
  up to the largest machine word (a window of zero, which would loop, is \<open>None\<close>), the searches of the planner
  because they count down positions. Concurrent rows and batches are steps in the order of a schedule, any
  schedule; one that does not run them to the end gives \<open>None\<close>, and three steps for each row do. Mutation is explicit: an operation
  returns the store it leaves, and an error carries the store with the changes made so far, since the code does not roll back.

  Not modelled. Of the crate: the test modules, derived traits, debug assertions and the two threads of
  the overlap runner (its closures touch disjoint state; a runner that skips or repeats one is modelled).
  A lookup is not a step of \<open>Reach\<close>, since the session of a hit continues the tokens of another session and
  would need the locality of the engine across sessions; it is a step of \<open>Intact\<close>, and a hit is shown to rest
  on verified nodes. Of the routing crate: the dispatching runtime and the GPU route (device buffers), the
  entry store (files), the timings of a chunked encode; the poisoning of locks, which needs a panic first. Of the repository: the Gigatoken core, whose
  pretokenizers and merge loops enter through the laws of \<open>bpe_route\<close> and are not proved to satisfy them for
  the shipped vocabularies, the SQLite persistence, the facade and the bindings, which move bytes
  between the parts modelled here and the outside.
\<close>

section \<open>Stores under their clients\<close>

text \<open>C1 Whatever the clients do, every session of a store holds the reference encoding of a text they
  gave it: after any sequence of registrations, puts, appends, forks, evictions and reads, succeeding or
  failing, the token row of a session, its sealed part and its tail together, is the encoding from
  scratch of one of the texts the session may stand for.\<close>

theorem reached_sessions_hold_reference:
  assumes "\<forall>k. \<forall>engine \<in> E k. session_encoder engine (R k) (need k)" "reached sha blake E need (s, G)"
    and "tbl_get (ss_sessions s) h = Some x"
  shows "\<exists>T \<in> G h. represents (R (s_key_id x)) x T
     \<and> materialize_all_ids x = enc_ids (R (s_key_id x) T) \<and> sess_token_count x = length (enc_ids (R (s_key_id x) T))"
proof -
  have w: "world_ok R need (s, G)" by (rule reached_ok [OF assms(1,2)])
  from world_session [OF w assms(3)] obtain T where "T \<in> G h" "represents (R (s_key_id x)) x T" "sess_wf x"
    by (auto simp: holds_text_def)
  then show ?thesis using represents_ids [of "R (s_key_id x)" x T] token_count_ok [of x] by auto
qed

theorem reached_sessions_hold_reference_witness:
  "\<exists>x. tbl_get (ss_sessions demo_next) 1 = Some x \<and> s_revision x = 1
     \<and> materialize_all_ids x = enc_ids (demo_ref (demo_text @ demo_delta))"
proof -
  obtain x where x: "tbl_get (ss_sessions demo_next) 1 = Some x" "s_revision x = 1"
    using append_patch_patched [OF demo_tail_engine demo_get demo_wf demo_valid(2) demo_append]
    by (auto simp: patched_def add64_def demo_session_def)
  then show ?thesis
    using reached_sessions_hold_reference [OF demo_engines demo_reached_append x(1)] by simp
qed

text \<open>C2 Whatever the clients do, a store keeps its bounds: it never holds more sessions than its
  configuration allows, every session sits under a handle that was handed out and exactly once, and a
  registered key never has a weaker guard than its engine needs.\<close>

theorem reached_stores_bounded:
  assumes "\<forall>k. \<forall>engine \<in> E k. session_encoder engine (R k) (need k)" "reached sha blake E need (s, G)"
  shows "length (ss_sessions s) \<le> c_max_sessions (ss_cfg s) \<and> distinct (tbl_keys (ss_sessions s))
     \<and> (\<forall>h x. tbl_get (ss_sessions s) h = Some x \<longrightarrow> h < ss_next_handle s \<and> sess_wf x)
     \<and> (\<forall>k < length (ss_keys s). need k \<le> kr_guard (ss_keys s ! k))"
proof -
  have "world_ok R need (s, G)" by (rule reached_ok [OF assms])
  then show ?thesis
    using world_session [of R need s G] by (auto simp: world_ok_iff populated_def tbl_ok_def tbl_keys_def)
qed

theorem reached_stores_bounded_witness:
  "length (ss_sessions demo_next) \<le> c_max_sessions (ss_cfg demo_next) \<and> distinct (tbl_keys (ss_sessions demo_next))"
  using reached_stores_bounded [OF demo_engines demo_reached_append] by simp

end
